(* ===== verification/Prelude.thy ===== *)
theory Prelude
  imports Main "HOL-Library.AList" "HOL-Library.Product_Lexorder"
begin

text \<open>
  Shared ground of the development: the named collections of simplification rules, Python
  exceptions as values, the insertion-ordered dictionary of Python as an association list, and
  the bitmap arithmetic every component uses. Nothing here is about one component.
\<close>

unbundle bit_operations_syntax

named_theorems dict_simps \<open>lookup and key rules of the dictionary operations\<close>
named_theorems bitmap_simps \<open>membership rules of integer bitmaps\<close>
named_theorems error_simps \<open>rules that push a successful result through the error monad\<close>


section \<open>Exceptions as values\<close>

text \<open>
  A Python function that may raise returns \<open>Inl\<close> of the exception or \<open>Inr\<close> of its value.
  \<open>ebind\<close> is sequencing, \<open>efold\<close> a \<open>for\<close> loop whose body may raise.
\<close>

datatype py_error =
    AssertionError
  | ValueError
  | KeyError
  | IndexError
  | TypeError
  | AttributeError
  | NameError
  | RuntimeError
  | ZeroDivisionError
  | OverflowError
  | StructError
  | PlainException

type_synonym 'a result = "py_error + 'a"

definition ebind :: "'a result \<Rightarrow> ('a \<Rightarrow> 'b result) \<Rightarrow> 'b result" where
  "ebind r f = (case r of Inl e \<Rightarrow> Inl e | Inr x \<Rightarrow> f x)"

lemma ebind_Inl [simp, error_simps]: "ebind (Inl e) f = Inl e"
  by (simp add: ebind_def)

lemma ebind_Inr [simp, error_simps]: "ebind (Inr x) f = f x"
  by (simp add: ebind_def)

lemma ebind_eq_Inr_iff: "ebind r f = Inr y \<longleftrightarrow> (\<exists>x. r = Inr x \<and> f x = Inr y)"
  by (cases r) auto

lemma ebind_assoc: "ebind (ebind r f) g = ebind r (\<lambda>x. ebind (f x) g)"
  by (cases r) auto

definition assert_py :: "bool \<Rightarrow> unit result" where
  "assert_py b = (if b then Inr () else Inl AssertionError)"

lemma assert_py_True [simp, error_simps]: "assert_py True = Inr ()"
  by (simp add: assert_py_def)

fun efold :: "('a \<Rightarrow> 's \<Rightarrow> 's result) \<Rightarrow> 'a list \<Rightarrow> 's \<Rightarrow> 's result" where
  "efold f [] s = Inr s"
| "efold f (x # xs) s = ebind (f x s) (efold f xs)"

text \<open>
  The rule every total loop rests on: a body that never raises on states with the invariant and
  keeps the invariant makes a loop that never raises and keeps it.
\<close>

lemma efold_invariant:
  assumes "\<And>x s. x \<in> set xs \<Longrightarrow> P s \<Longrightarrow> \<exists>s'. f x s = Inr s' \<and> P s'"
    and "P s"
  shows "\<exists>s'. efold f xs s = Inr s' \<and> P s'"
  using assms
proof (induction xs arbitrary: s)
  case Nil
  then show ?case by simp
next
  case (Cons x xs)
  from Cons.prems obtain s1 where "f x s = Inr s1" and "P s1" by force
  moreover from Cons.IH [OF _ \<open>P s1\<close>] Cons.prems(1)
  obtain s2 where "efold f xs s1 = Inr s2" and "P s2" by force
  ultimately show ?case by simp
qed

text \<open>The same for a loop whose invariant depends on how far it has come.\<close>

lemma efold_upt_invariant:
  assumes step: "\<And>i s. i < n \<Longrightarrow> P i s \<Longrightarrow> \<exists>s'. f i s = Inr s' \<and> P (Suc i) s'"
    and start: "P 0 s"
  shows "\<exists>s'. efold f [0..<n] s = Inr s' \<and> P n s'"
proof -
  have "\<exists>s'. efold f [i..<n] s = Inr s' \<and> P n s'" if "P i s" "i \<le> n" for i s
    using that
  proof (induction "n - i" arbitrary: i s)
    case 0
    then show ?case by simp
  next
    case (Suc k)
    then have lt: "i < n" by simp
    from step [OF lt Suc.prems(1)] obtain s1 where s1: "f i s = Inr s1" "P (Suc i) s1" by blast
    from Suc.hyps lt have "k = n - Suc i" by simp
    from Suc.hyps(1) [OF this s1(2)] lt s1(1) show ?case by (simp add: upt_conv_Cons)
  qed
  from this [OF start] show ?thesis by simp
qed

lemma efold_append: "efold f (xs @ ys) s = ebind (efold f xs s) (efold f ys)"
  by (induction xs arbitrary: s) (simp_all add: ebind_assoc ebind_def split: sum.splits)


section \<open>Python dictionaries\<close>

text \<open>
  A \<open>dict\<close> is an association list in insertion order: assignment overwrites in place or appends,
  as Python does (\<^const>\<open>AList.update\<close>). Two dictionaries are equal when they agree on every key,
  whatever the order.
\<close>

type_synonym ('k, 'v) dict = "('k \<times> 'v) list"

definition dget :: "('k, 'v) dict \<Rightarrow> 'k \<Rightarrow> 'v option" where
  "dget d k = map_of d k"

definition dget_or :: "('k, 'v) dict \<Rightarrow> 'k \<Rightarrow> 'v \<Rightarrow> 'v" where
  "dget_or d k v = (case dget d k of None \<Rightarrow> v | Some x \<Rightarrow> x)"

definition dkeys :: "('k, 'v) dict \<Rightarrow> 'k list" where
  "dkeys d = map fst d"

definition dmem :: "'k \<Rightarrow> ('k, 'v) dict \<Rightarrow> bool" where
  "dmem k d \<longleftrightarrow> k \<in> set (dkeys d)"

definition dset :: "('k, 'v) dict \<Rightarrow> 'k \<Rightarrow> 'v \<Rightarrow> ('k, 'v) dict" where
  "dset d k v = AList.update k v d"

definition dsetdefault :: "('k, 'v) dict \<Rightarrow> 'k \<Rightarrow> 'v \<Rightarrow> ('k, 'v) dict" where
  "dsetdefault d k v = (if dmem k d then d else dset d k v)"

definition dpop :: "('k, 'v) dict \<Rightarrow> 'k \<Rightarrow> ('k, 'v) dict" where
  "dpop d k = AList.delete k d"

definition dict_eq :: "('k, 'v) dict \<Rightarrow> ('k, 'v) dict \<Rightarrow> bool" where
  "dict_eq d e \<longleftrightarrow> list_all (\<lambda>k. dget d k = dget e k) (dkeys d @ dkeys e)"

lemma dget_Nil [simp, dict_simps]: "dget [] k = None"
  by (simp add: dget_def)

lemma dkeys_Nil [simp, dict_simps]: "dkeys [] = []"
  by (simp add: dkeys_def)

lemma dget_dset [simp, dict_simps]: "dget (dset d k v) k' = (if k' = k then Some v else dget d k')"
  by (simp add: dget_def dset_def update_conv)

lemma dget_dpop [simp, dict_simps]: "dget (dpop d k) k' = (if k' = k then None else dget d k')"
  by (simp add: dget_def dpop_def delete_conv)

lemma dmem_iff [dict_simps]: "dmem k d \<longleftrightarrow> dget d k \<noteq> None"
  by (simp add: dmem_def dkeys_def dget_def map_of_eq_None_iff)

lemma set_dkeys [dict_simps]: "k \<in> set (dkeys d) \<longleftrightarrow> dget d k \<noteq> None"
  by (simp flip: dmem_def add: dmem_iff)

lemma dget_dsetdefault [simp, dict_simps]:
  "dget (dsetdefault d k v) k' = (if k' = k \<and> dget d k = None then Some v else dget d k')"
  by (auto simp: dsetdefault_def dmem_iff)

lemma dget_or_simps [simp, dict_simps]:
  "dget d k = Some x \<Longrightarrow> dget_or d k v = x"
  "dget d k = None \<Longrightarrow> dget_or d k v = v"
  by (simp_all add: dget_or_def)

lemma dkeys_dset_mem [simp, dict_simps]: "k \<in> set (dkeys d) \<Longrightarrow> dkeys (dset d k v) = dkeys d"
  by (induction d) (auto simp: dkeys_def dset_def)

lemma set_dkeys_dset [simp, dict_simps]: "set (dkeys (dset d k v)) = insert k (set (dkeys d))"
  by (auto simp: set_dkeys split: if_splits)

lemma set_dkeys_dsetdefault [simp, dict_simps]:
  "set (dkeys (dsetdefault d k v)) = insert k (set (dkeys d))"
  by (auto simp: set_dkeys split: if_splits)

lemma dget_in_set: "dget d k = Some v \<Longrightarrow> (k, v) \<in> set d"
  by (simp add: dget_def map_of_SomeD)

lemma dget_map [dict_simps]:
  "dget (map (\<lambda>k. (k, f k)) ks) k = (if k \<in> set ks then Some (f k) else None)"
  by (induction ks) (auto simp: dget_def)

lemma dkeys_map [simp, dict_simps]: "dkeys (map (\<lambda>k. (k, f k)) ks) = ks"
  by (simp add: dkeys_def o_def)

lemma dict_eq_iff: "dict_eq d e \<longleftrightarrow> (\<forall>k. dget d k = dget e k)"
proof
  assume eq: "dict_eq d e"
  show "\<forall>k. dget d k = dget e k"
  proof
    fix k
    show "dget d k = dget e k"
    proof (cases "k \<in> set (dkeys d @ dkeys e)")
      case True
      with eq show ?thesis by (auto simp: dict_eq_def list_all_iff)
    next
      case False
      then show ?thesis by (simp add: set_dkeys)
    qed
  qed
qed (simp add: dict_eq_def list_all_iff)

lemma dict_eq_refl [simp]: "dict_eq d d"
  by (simp add: dict_eq_iff)


lemma set_dset: "set (dset d k v) \<subseteq> insert (k, v) (set d)"
  by (induction d) (auto simp: dset_def)

lemma set_dpop: "set (dpop d k) \<subseteq> set d"
  by (auto simp: dpop_def AList.delete_eq)


section \<open>Integer bitmaps\<close>

text \<open>
  The code keeps sets of node ids as unbounded Python integers; bit \<open>i\<close> is tested with
  \<open>bitmap & (1 << i)\<close>. The rules turn that test into \<^const>\<open>bit\<close>.
\<close>

definition one_hot :: "nat \<Rightarrow> int" where
  "one_hot i = push_bit i 1"

lemma bit_one_hot [simp, bitmap_simps]: "bit (one_hot i) j \<longleftrightarrow> j = i"
  by (auto simp: one_hot_def bit_push_bit_iff bit_1_iff simp del: push_bit_of_1)

lemma and_one_hot_eq_0 [simp, bitmap_simps]: "b AND one_hot i = 0 \<longleftrightarrow> \<not> bit b i" for b :: int
proof -
  have "b AND one_hot i = 0 \<longleftrightarrow> (\<forall>j. \<not> bit (b AND one_hot i) j)"
    by (simp add: bit_eq_iff)
  also have "\<dots> \<longleftrightarrow> \<not> bit b i" by (auto simp: bit_and_iff)
  finally show ?thesis .
qed

lemma bit_full_mask [simp, bitmap_simps]: "bit (one_hot n - 1) i \<longleftrightarrow> i < n"
proof -
  have "one_hot n - 1 = mask n" by (simp add: one_hot_def mask_eq_exp_minus_1)
  then show ?thesis by (simp add: bit_mask_iff)
qed

lemma and_eq_self_iff: "a AND b = a \<longleftrightarrow> (\<forall>i. bit a i \<longrightarrow> bit b i)" for a b :: int
  by (auto simp: bit_eq_iff bit_and_iff)

definition bit_set :: "int \<Rightarrow> nat set" where
  "bit_set b = {i. bit b i}"

lemma mem_bit_set [simp, bitmap_simps]: "i \<in> bit_set b \<longleftrightarrow> bit b i"
  by (simp add: bit_set_def)

lemma bit_fold_or:
  "bit (fold (\<lambda>x acc. acc OR one_hot (f x)) xs b) i \<longleftrightarrow> bit b i \<or> i \<in> f ` set xs"
  by (induction xs arbitrary: b) (auto simp: bit_or_iff)


section \<open>Lists\<close>

text \<open>Indexing a sequence: negative indices count from the end.\<close>

definition py_index :: "'a list \<Rightarrow> int \<Rightarrow> 'a result" where
  "py_index xs i =
     (if 0 \<le> i \<and> i < int (length xs) then Inr (xs ! nat i)
      else if - int (length xs) \<le> i \<and> i < 0 then Inr (xs ! nat (i + int (length xs)))
      else Inl IndexError)"

lemma filter_upt_card: "length (filter P [0..<n]) = card {i. i < n \<and> P i}"
proof -
  have "length (filter P [0..<n]) = card (set (filter P [0..<n]))"
    by (rule distinct_card [symmetric]) simp
  also have "set (filter P [0..<n]) = {i. i < n \<and> P i}" by auto
  finally show ?thesis .
qed

end
