(* ===== verification/Protocol_Types.thy ===== *)
theory Protocol_Types
  imports Prelude
begin

text \<open>
  The data of \<open>sim/protocol/types.py\<close>: bitmaps, enumerations, packets, stages, commit records,
  halt records, deliveries, configurations and the per-node control-plane update. Node ids are
  \<open>nat\<close> (they come from \<open>range(node_count)\<close>), bitmaps, rounds, epochs, run ids and times are
  unbounded \<open>int\<close> as in Python, dictionaries are the insertion-ordered ones of the prelude.
  A dataclass whose fields another dataclass repeats is a record the other one extends.
\<close>


section \<open>Bitmaps\<close>

definition bitmap_add :: "nat \<Rightarrow> int \<Rightarrow> int \<Rightarrow> int result" where
  "bitmap_add node_count member value =
     (if \<not> (0 \<le> member \<and> member < int node_count) then Inl ValueError
      else Inr (value OR one_hot (nat member)))"

definition bitmap_set :: "nat \<Rightarrow> int list \<Rightarrow> int result" where
  "bitmap_set node_count members = efold (bitmap_add node_count) members 0"

definition bitmap_members :: "int \<Rightarrow> nat \<Rightarrow> nat list" where
  "bitmap_members bitmap node_count = filter (\<lambda>idx. bitmap AND one_hot idx \<noteq> 0) [0..<node_count]"

definition bitmap_text :: "int \<Rightarrow> nat \<Rightarrow> string" where
  "bitmap_text bitmap node_count =
     map (\<lambda>idx. if bitmap AND one_hot idx \<noteq> 0 then CHR ''1'' else CHR ''0'') (rev [0..<node_count])"


section \<open>Enumerations\<close>

datatype node_status = RUNNING | HALTED | CRASHED

datatype membership_state = ACTIVE | FAILED | RECOVERING | REJOIN_PENDING

datatype pending_status = PREPARED | COMMITTED


section \<open>Timing and packets\<close>

record simulation_timing =
  round_length_ns :: int
  halt_report_delay_ns :: int
  cp_collection_delay_ns :: int
  cp_decision_delay_ns :: int
  repair_delay_ns :: int
  install_delay_ns :: int
  reentry_delay_ns :: int
  app_delivery_delay_ns :: int

definition default_timing :: simulation_timing where
  "default_timing =
     \<lparr>round_length_ns = 4000, halt_report_delay_ns = 10000, cp_collection_delay_ns = 20000,
      cp_decision_delay_ns = 15000, repair_delay_ns = 50000, install_delay_ns = 20000,
      reentry_delay_ns = 10000, app_delivery_delay_ns = 5000\<rparr>"

record packet =
  pkt_round_id :: int
  pkt_src_id :: nat
  pkt_run_id :: int
  pkt_row :: int
  pkt_payload :: string

record outbound_packet =
  ob_packet :: packet
  ob_destinations :: "nat list"

record round_stage =
  stg_round_id :: int
  stg_membership_epoch :: int
  stg_installed_membership :: int
  stg_row :: int
  stg_proposals :: "(nat, string) dict"
  stg_rows :: "(nat, int) dict"

text \<open>\<open>RoundStage(round_id=r, membership_epoch=e, installed_membership=m)\<close>, the rest at its defaults.\<close>

definition empty_stage :: "int \<Rightarrow> int \<Rightarrow> int \<Rightarrow> round_stage" where
  "empty_stage r e m =
     \<lparr>stg_round_id = r, stg_membership_epoch = e, stg_installed_membership = m, stg_row = 0,
      stg_proposals = [], stg_rows = []\<rparr>"


section \<open>Commits and repair logs\<close>

record committed_round =
  cr_round :: int
  cr_membership_epoch :: int
  cr_commit_set :: int
  cr_proposals :: "(nat, string) dict"

record committed_round_record = committed_round +
  cr_commit_time_ns :: "int option"
  cr_app_delivery_time_ns :: "int option"

definition with_timing ::
  "int option \<Rightarrow> int option \<Rightarrow> committed_round_record \<Rightarrow> committed_round_record" where
  "with_timing commit_time app_time e =
     \<lparr>cr_round = cr_round e, cr_membership_epoch = cr_membership_epoch e,
      cr_commit_set = cr_commit_set e, cr_proposals = cr_proposals e,
      cr_commit_time_ns = (case commit_time of None \<Rightarrow> cr_commit_time_ns e | Some t \<Rightarrow> Some t),
      cr_app_delivery_time_ns =
        (case app_time of None \<Rightarrow> cr_app_delivery_time_ns e | Some t \<Rightarrow> Some t)\<rparr>"

definition from_committed_round ::
  "int option \<Rightarrow> int option \<Rightarrow> committed_round \<Rightarrow> committed_round_record" where
  "from_committed_round commit_time app_time c =
     \<lparr>cr_round = cr_round c, cr_membership_epoch = cr_membership_epoch c,
      cr_commit_set = cr_commit_set c, cr_proposals = cr_proposals c,
      cr_commit_time_ns = commit_time, cr_app_delivery_time_ns = app_time\<rparr>"

text \<open>Dataclass equality: the proposals compare as dictionaries.\<close>

definition record_eq :: "committed_round_record \<Rightarrow> committed_round_record \<Rightarrow> bool" where
  "record_eq a b \<longleftrightarrow>
     cr_round a = cr_round b \<and> cr_membership_epoch a = cr_membership_epoch b \<and>
     cr_commit_set a = cr_commit_set b \<and> dict_eq (cr_proposals a) (cr_proposals b) \<and>
     cr_commit_time_ns a = cr_commit_time_ns b \<and>
     cr_app_delivery_time_ns a = cr_app_delivery_time_ns b"

text \<open>\<open>RepairLog\<close> wraps one tuple of records; its length is the length of the tuple.\<close>

type_synonym repair_log = "committed_round_record list"

record repair_snapshot =
  rs_node_id :: nat
  rs_committed_rounds :: "committed_round_record list"

record node_round_result =
  nrr_outbound :: "outbound_packet option"
  nrr_new_commits :: "committed_round list"


section \<open>Halt records\<close>

record halt_record =
  hr_failed_round :: int
  hr_membership_epoch :: int
  hr_installed_membership_epoch :: int
  hr_run_id :: int
  hr_installed_membership :: int
  hr_quorum :: nat
  hr_observation_rows :: "(nat, int) dict"
  hr_self_row :: int
  hr_committed_frontier :: "int option"
  hr_sound_set_lineage :: "int option"
  hr_log_digest :: string
  hr_halt_reason :: string


section \<open>Deliveries\<close>

text \<open>
  \<open>Delivery\<close> and \<open>DeliveryCopy\<close> share the four override fields, the only ones that decide
  what packet is delivered.
\<close>

record delivery_overrides =
  dl_packet_round_override :: "int option"
  dl_run_id_override :: "int option"
  dl_row_override :: "int option"
  dl_payload_override :: "string option"

record delivery_copy = delivery_overrides +
  dc_deliver_round :: int
  dc_reason :: string

record delivery = delivery_overrides +
  dl_deliver_round :: "int option"
  dl_reason :: string
  dl_extra_deliver_rounds :: "int list"
  dl_extra_copies :: "delivery_copy list"

definition plain_delivery :: "int option \<Rightarrow> string \<Rightarrow> delivery" where
  "plain_delivery r why =
     \<lparr>dl_packet_round_override = None, dl_run_id_override = None, dl_row_override = None,
      dl_payload_override = None, dl_deliver_round = r, dl_reason = why,
      dl_extra_deliver_rounds = [], dl_extra_copies = []\<rparr>"


section \<open>Configurations and control-plane state\<close>

record installed_config =
  ic_membership_epoch :: int
  ic_members_bitmap :: int
  ic_run_id :: int

record pending_config =
  pc_membership_epoch :: int
  pc_members_bitmap :: int
  pc_effective_round :: int
  pc_run_id :: int
  pc_status :: pending_status

record control_plane_state =
  cps_installed_config :: installed_config
  cps_node_states :: "(nat, membership_state) dict"
  cps_pending_config :: "pending_config option"
  cps_repair_logs :: "(nat, repair_log) dict"

record control_plane_update =
  cpu_installed_config :: installed_config
  cpu_membership_state :: membership_state
  cpu_pending_config :: "pending_config option"
  cpu_repair_log :: "repair_log option"

text \<open>The generated equality of \<open>ControlPlaneUpdate\<close>, repair logs entry by entry.\<close>

definition update_eq :: "control_plane_update \<Rightarrow> control_plane_update \<Rightarrow> bool" where
  "update_eq u v \<longleftrightarrow>
     cpu_installed_config u = cpu_installed_config v \<and>
     cpu_membership_state u = cpu_membership_state v \<and>
     cpu_pending_config u = cpu_pending_config v \<and>
     (case (cpu_repair_log u, cpu_repair_log v) of
        (None, None) \<Rightarrow> True
      | (Some xs, Some ys) \<Rightarrow> list_all2 record_eq xs ys
      | _ \<Rightarrow> False)"

text \<open>
  The dictionaries a node puts in its outbox, one constructor per \<open>kind\<close>, and the same event
  after the cluster has stamped it.
\<close>

datatype node_event =
    PrepareAck nat pending_config
  | NodeHalted nat halt_record
  | NodeCrashed nat

record cp_event =
  ev_event :: node_event
  ev_round :: int
  ev_available_at_ns :: int


section \<open>Facts about the data\<close>

lemma bitmap_members_set [simp, bitmap_simps]:
  "set (bitmap_members b n) = {i. i < n \<and> bit b i}"
  by (auto simp: bitmap_members_def)

lemma bitmap_members_distinct [simp]: "distinct (bitmap_members b n)"
  by (simp add: bitmap_members_def)

lemma bitmap_members_sorted [simp]: "sorted (bitmap_members b n)"
  by (simp add: bitmap_members_def sorted_wrt_filter)

lemma bitmap_set_Inr:
  assumes "\<forall>m \<in> set ms. m < n"
  shows "bitmap_set n (map int ms) = Inr (fold (\<lambda>m acc. acc OR one_hot m) ms 0)"
proof -
  have "efold (bitmap_add n) (map int ms) b = Inr (fold (\<lambda>m acc. acc OR one_hot m) ms b)" for b
    using assms by (induction ms arbitrary: b) (auto simp: bitmap_add_def)
  then show ?thesis by (simp add: bitmap_set_def)
qed

lemma bitmap_set_bit:
  assumes "\<forall>m \<in> set ms. m < n"
  shows "\<exists>b. bitmap_set n (map int ms) = Inr b \<and> (\<forall>i. bit b i \<longleftrightarrow> i \<in> set ms)"
  using bitmap_set_Inr [OF assms] bit_fold_or [where f = "\<lambda>m. m" and xs = ms and b = 0] by auto

lemma with_timing_None [simp]: "with_timing None None e = e"
  by (simp add: with_timing_def)

lemma with_timing_sel [simp]:
  "cr_round (with_timing a b e) = cr_round e"
  "cr_membership_epoch (with_timing a b e) = cr_membership_epoch e"
  "cr_commit_set (with_timing a b e) = cr_commit_set e"
  "cr_proposals (with_timing a b e) = cr_proposals e"
  by (simp_all add: with_timing_def)

lemma from_committed_round_sel [simp]:
  "cr_round (from_committed_round a b c) = cr_round c"
  "cr_membership_epoch (from_committed_round a b c) = cr_membership_epoch c"
  "cr_commit_set (from_committed_round a b c) = cr_commit_set c"
  "cr_proposals (from_committed_round a b c) = cr_proposals c"
  by (simp_all add: from_committed_round_def)

lemma record_eq_refl [simp]: "record_eq e e"
  by (simp add: record_eq_def)

lemma update_eq_refl [simp]: "update_eq u u"
  by (simp add: update_eq_def list.rel_refl split: option.splits)

lemma update_eqD:
  assumes "update_eq u v"
  shows "cpu_installed_config u = cpu_installed_config v"
    and "cpu_membership_state u = cpu_membership_state v"
    and "cpu_pending_config u = cpu_pending_config v"
  using assms by (simp_all add: update_eq_def)

lemma empty_stage_sel [simp]:
  "stg_round_id (empty_stage r e m) = r"
  "stg_membership_epoch (empty_stage r e m) = e"
  "stg_installed_membership (empty_stage r e m) = m"
  "stg_row (empty_stage r e m) = 0"
  "stg_proposals (empty_stage r e m) = []"
  "stg_rows (empty_stage r e m) = []"
  by (simp_all add: empty_stage_def)

end
