(* ===== verification/Log_Digest.thy ===== *)
theory Log_Digest
  imports Protocol_Types "HOL-Library.Char_ord" "HOL-Library.List_Lexorder"
begin

text \<open>
  The commit-log digest of \<open>sim/protocol/node.py\<close> (\<open>_extend_log_digest\<close>,
  \<open>_digest_for_committed_rounds\<close>): each committed round is serialised with
  \<open>json.dumps(..., sort_keys=True, separators=(",", ":"))\<close> together with the digest before it and
  hashed. The serialiser is written out for the values the code passes to it; the hash
  (\<open>hashlib.sha256(...).hexdigest()\<close>) is the parameter \<open>sha\<close>. The section of lemmas shows that
  the serialisation is uniquely readable, so that equal digests mean equal logs unless the hash
  itself collides on one of the strings it was given.
\<close>


section \<open>Decimal numerals\<close>

fun nat_digits :: "nat \<Rightarrow> string" where
  "nat_digits n =
     (if n < 10 then [char_of (48 + n)] else nat_digits (n div 10) @ [char_of (48 + n mod 10)])"

declare nat_digits.simps [simp del]

definition show_int :: "int \<Rightarrow> string" where
  "show_int i = (if i < 0 then CHR ''-'' # nat_digits (nat (- i)) else nat_digits (nat i))"


section \<open>The JSON serialiser\<close>

text \<open>
  The values that are serialised: numbers, strings, objects with string keys and objects with
  integer keys (Python sorts integer keys as numbers and writes them as strings).
\<close>

datatype json =
    JInt int
  | JStr string
  | JDict "(string \<times> json) list"
  | JIntDict "(int \<times> json) list"

definition hex_digit :: "nat \<Rightarrow> char" where
  "hex_digit d = (if d < 10 then char_of (48 + d) else char_of (87 + d))"

text \<open>\<open>ensure_ascii\<close>: what is not printable ASCII is written as an escape.\<close>

definition escape_tail :: "nat \<Rightarrow> string" where
  "escape_tail k =
     (if k = 34 then [CHR 0x22]
      else if k = 92 then [CHR 0x5C]
      else if k = 10 then ''n''
      else if k = 13 then ''r''
      else if k = 9 then ''t''
      else if k = 12 then ''f''
      else if k = 8 then ''b''
      else [CHR ''u'', CHR ''0'', CHR ''0'', hex_digit (k div 16), hex_digit (k mod 16)])"

definition escape_char :: "char \<Rightarrow> string" where
  "escape_char c =
     (let k = of_char c in
      if 32 \<le> k \<and> k \<le> 126 \<and> k \<noteq> 34 \<and> k \<noteq> 92 then [c] else CHR 0x5C # escape_tail k)"

definition json_string :: "string \<Rightarrow> string" where
  "json_string s = CHR 0x22 # concat (map escape_char s) @ [CHR 0x22]"

fun comma_join :: "string list \<Rightarrow> string" where
  "comma_join [] = []"
| "comma_join [x] = x"
| "comma_join (x # xs) = x @ CHR '','' # comma_join xs"

fun dumps :: "json \<Rightarrow> string" where
  "dumps (JInt i) = show_int i"
| "dumps (JStr s) = json_string s"
| "dumps (JDict kvs) =
     ''{'' @ comma_join (map snd (sort_key fst
       (map (\<lambda>(k, v). (k, json_string k @ '':'' @ dumps v)) kvs))) @ ''}''"
| "dumps (JIntDict kvs) =
     ''{'' @ comma_join (map snd (sort_key fst
       (map (\<lambda>(k, v). (k, json_string (show_int k) @ '':'' @ dumps v)) kvs))) @ ''}''"


section \<open>The digest chain\<close>

text \<open>One projection serves \<open>CommittedRound\<close> and \<open>CommittedRoundRecord\<close>: times are left out.\<close>

definition digest_projection :: "'a committed_round_scheme \<Rightarrow> json" where
  "digest_projection e =
     JDict [(''round'', JInt (cr_round e)),
            (''membership_epoch'', JInt (cr_membership_epoch e)),
            (''commit_set'', JInt (cr_commit_set e)),
            (''proposals'', JIntDict (map (\<lambda>(k, v). (int k, JStr v)) (cr_proposals e)))]"

definition encode_link :: "string \<Rightarrow> 'a committed_round_scheme \<Rightarrow> string" where
  "encode_link previous_digest e =
     dumps (JDict [(''previous_digest'', JStr previous_digest), (''entry'', digest_projection e)])"

definition extend_log_digest ::
  "(string \<Rightarrow> string) \<Rightarrow> string \<Rightarrow> 'a committed_round_scheme \<Rightarrow> string" where
  "extend_log_digest sha previous_digest e = sha (encode_link previous_digest e)"

definition empty_log_digest :: "(string \<Rightarrow> string) \<Rightarrow> string" where
  "empty_log_digest sha = sha ''syncons-log-empty''"

definition digest_for_committed_rounds ::
  "(string \<Rightarrow> string) \<Rightarrow> 'a committed_round_scheme list \<Rightarrow> string" where
  "digest_for_committed_rounds sha rounds =
     fold (\<lambda>e d. extend_log_digest sha d e) rounds (empty_log_digest sha)"


section \<open>Unique readability\<close>

definition digit_chars :: "char set" where
  "digit_chars = {c. 48 \<le> (of_char c :: nat) \<and> (of_char c :: nat) \<le> 57}"

text \<open>\<open>read_nat\<close> is the left inverse of the numeral printer.\<close>

definition read_nat :: "string \<Rightarrow> nat" where
  "read_nat s = fold (\<lambda>c acc. 10 * acc + (of_char c - 48)) s 0"

lemma nat_digits_digits: "set (nat_digits n) \<subseteq> digit_chars"
proof (induction n rule: nat_digits.induct)
  case (1 n)
  show ?case
  proof (cases "n < 10")
    case True
    then show ?thesis by (subst nat_digits.simps) (simp add: digit_chars_def)
  next
    case False
    with 1 have "set (nat_digits (n div 10)) \<subseteq> digit_chars" by simp
    moreover have "n mod 10 < 10" by simp
    ultimately show ?thesis using False by (subst nat_digits.simps) (auto simp: digit_chars_def)
  qed
qed

lemma nat_digits_nonempty [simp]: "nat_digits n \<noteq> []"
  by (subst nat_digits.simps) simp

lemma read_nat_digits [simp]: "read_nat (nat_digits n) = n"
proof (induction n rule: nat_digits.induct)
  case (1 n)
  show ?case
  proof (cases "n < 10")
    case True
    then show ?thesis by (subst nat_digits.simps) (simp add: read_nat_def)
  next
    case False
    with 1 have ih: "read_nat (nat_digits (n div 10)) = n div 10" by simp
    have "n mod 10 < 10" by simp
    with False ih show ?thesis
      by (subst nat_digits.simps) (simp add: read_nat_def)
  qed
qed

lemma nat_digits_inject [simp]: "nat_digits a = nat_digits b \<longleftrightarrow> a = b"
  by (metis read_nat_digits)

lemma show_int_inject [simp]: "show_int a = show_int b \<longleftrightarrow> a = b"
proof -
  have minus: "CHR ''-'' \<notin> set (nat_digits n)" for n
    using nat_digits_digits [of n] by (auto simp: digit_chars_def)
  have "CHR ''-'' # s \<noteq> nat_digits n" "nat_digits n \<noteq> CHR ''-'' # s" for s n
    using minus [of n] by (metis list.set_intros(1))+
  then show ?thesis by (auto simp: show_int_def)
qed

text \<open>
  A number is read up to the first character that is neither a digit nor a sign; what follows a
  value in the serialised text is always a comma or a closing brace.
\<close>

definition delimited :: "string \<Rightarrow> bool" where
  "delimited x \<longleftrightarrow> (case x of [] \<Rightarrow> False | c # _ \<Rightarrow> c = CHR '','' \<or> c = CHR 0x7D)"

lemma delimited_simps [simp]: "delimited (CHR '','' # x)" "delimited (CHR 0x7D # x)"
  by (simp_all add: delimited_def)

lemma show_int_read:
  assumes "show_int a @ x = show_int b @ y" "delimited x" "delimited y"
  shows "a = b \<and> x = y"
proof -
  let ?num = "\<lambda>c. c \<in> insert (CHR ''-'') digit_chars"
  have num: "\<forall>c \<in> set (show_int i). ?num c" for i
    using nat_digits_digits by (auto simp: show_int_def)
  have stop: "takeWhile ?num (show_int i @ z) = show_int i" if z: "delimited z" for i z
  proof (cases z)
    case Nil
    with z show ?thesis by (simp add: delimited_def)
  next
    case (Cons c w)
    with z have "\<not> ?num c" by (auto simp: delimited_def digit_chars_def)
    with Cons num [of i] show ?thesis by (simp add: takeWhile_append2)
  qed
  from assms(1) have "takeWhile ?num (show_int a @ x) = takeWhile ?num (show_int b @ y)" by simp
  with assms(2,3) have "show_int a = show_int b" by (simp only: stop)
  with assms(1) show ?thesis by simp
qed

lemma hex_digit_inject: "a < 16 \<Longrightarrow> b < 16 \<Longrightarrow> hex_digit a = hex_digit b \<longleftrightarrow> a = b"
proof -
  assume "a < 16" "b < 16"
  then have "of_char (hex_digit i) = (if i < 10 then 48 + i else 87 + i)" if "i \<in> {a, b}" for i
    using that by (auto simp: hex_digit_def)
  then have "(of_char (hex_digit a) :: nat) = of_char (hex_digit b) \<longleftrightarrow> a = b"
    using \<open>a < 16\<close> \<open>b < 16\<close> by (auto split: if_splits)
  then show ?thesis by simp
qed

lemma escape_tail_read:
  assumes "k < 256" "l < 256" "escape_tail k @ u = escape_tail l @ v"
  shows "k = l \<and> u = v"
proof -
  have hex: "k = l" if "k div 16 = l div 16" "k mod 16 = l mod 16"
    using that by (metis div_mult_mod_eq)
  have "k div 16 < 16" "l div 16 < 16" using assms(1,2) by simp_all
  with assms(3) show ?thesis
    by (auto simp: escape_tail_def hex_digit_inject split: if_splits intro: hex)
qed

lemma escape_char_read:
  assumes "escape_char c @ u = escape_char d @ v"
  shows "c = d \<and> u = v"
proof -
  let ?plain = "\<lambda>c. 32 \<le> (of_char c :: nat) \<and> of_char c \<le> (126 :: nat) \<and>
    of_char c \<noteq> (34 :: nat) \<and> of_char c \<noteq> (92 :: nat)"
  have one: "escape_char c = [c]" if "?plain c" for c
    using that by (simp add: escape_char_def)
  have two: "escape_char c = CHR 0x5C # escape_tail (of_char c)" if "\<not> ?plain c" for c
    using that by (auto simp: escape_char_def Let_def)
  have ne: "\<not> ?plain (CHR 0x5C)" by simp
  consider (pp) "?plain c" "?plain d" | (pe) "?plain c" "\<not> ?plain d"
    | (ep) "\<not> ?plain c" "?plain d" | (ee) "\<not> ?plain c" "\<not> ?plain d" by blast
  then show ?thesis
  proof cases
    case pp
    with assms one [OF pp(1)] one [OF pp(2)] show ?thesis by simp
  next
    case pe
    with assms one [OF pe(1)] two [OF pe(2)] have "c = CHR 0x5C" by simp
    with pe(1) ne show ?thesis by blast
  next
    case ep
    with assms two [OF ep(1)] one [OF ep(2)] have "d = CHR 0x5C" by simp
    with ep(2) ne show ?thesis by blast
  next
    case ee
    from assms two [OF ee(1)] two [OF ee(2)] have "escape_tail (of_char c) @ u = escape_tail (of_char d) @ v" by simp
    then show ?thesis
      using escape_tail_read [OF nat_of_char_less_256 nat_of_char_less_256] by force
  qed
qed

lemma escape_char_not_quote:
  "escape_char c \<noteq> []" "escape_char c \<noteq> CHR 0x22 # z" "CHR 0x22 # z \<noteq> escape_char c"
  by (auto simp: escape_char_def Let_def)

lemma json_string_read:
  assumes "json_string s @ x = json_string t @ y"
  shows "s = t \<and> x = y"
proof -
  have "s = t \<and> x = y"
    if "concat (map escape_char s) @ CHR 0x22 # x = concat (map escape_char t) @ CHR 0x22 # y"
    using that
  proof (induction s arbitrary: t)
    case Nil
    then show ?case
      using escape_char_not_quote by (cases t) (auto simp: append_eq_Cons_conv Cons_eq_append_conv)
  next
    case (Cons c s)
    show ?case
    proof (cases t)
      case Nil
      with Cons.prems show ?thesis
        using escape_char_not_quote by (auto simp: append_eq_Cons_conv)
    next
      case (Cons d t')
      with Cons.prems have "escape_char c @ (concat (map escape_char s) @ CHR 0x22 # x)
          = escape_char d @ (concat (map escape_char t') @ CHR 0x22 # y)" by simp
      then show ?thesis using Cons.IH [of t'] Cons escape_char_read by blast
    qed
  qed
  with assms show ?thesis by (simp add: json_string_def)
qed

lemma json_string_inject [simp]: "json_string s = json_string t \<longleftrightarrow> s = t"
  using json_string_read [of s "[]" t "[]"] by auto

text \<open>The members of an object with integer keys and string values, read up to the brace.\<close>

definition proposal_member :: "int \<times> string \<Rightarrow> string" where
  "proposal_member kv = json_string (show_int (fst kv)) @ '':'' @ json_string (snd kv)"

lemma proposal_member_read:
  assumes "proposal_member p @ u = proposal_member q @ v"
  shows "p = q \<and> u = v"
  using assms json_string_read [of "show_int (fst p)" "'':'' @ json_string (snd p) @ u"
      "show_int (fst q)" "'':'' @ json_string (snd q) @ v"]
    json_string_read [of "snd p" u "snd q" v]
  by (auto simp: prod_eq_iff proposal_member_def)

lemma proposal_member_quote: "proposal_member p @ u \<noteq> CHR 0x7D # z" "CHR 0x7D # z \<noteq> proposal_member p @ u"
  by (simp_all add: proposal_member_def json_string_def)

lemma proposal_members_read:
  assumes "comma_join (map proposal_member ps) @ CHR 0x7D # x
         = comma_join (map proposal_member qs) @ CHR 0x7D # y"
  shows "ps = qs \<and> x = y"
  using assms
proof (induction ps arbitrary: qs)
  case Nil
  then show ?case
    by (cases "map proposal_member qs" rule: comma_join.cases) (auto simp: proposal_member_quote)
next
  case (Cons p ps)
  have join: "comma_join (map proposal_member (q # qs)) @ CHR 0x7D # z
      = proposal_member q @ (if qs = [] then CHR 0x7D # z
          else CHR '','' # comma_join (map proposal_member qs) @ CHR 0x7D # z)" for q qs z
    by (cases qs) simp_all
  show ?case
  proof (cases qs)
    case Nil
    with Cons.prems show ?thesis by (simp only: join) (simp add: proposal_member_quote)
  next
    case (Cons q qs')
    with Cons.prems have "proposal_member p @ (if ps = [] then CHR 0x7D # x
          else CHR '','' # comma_join (map proposal_member ps) @ CHR 0x7D # x)
        = proposal_member q @ (if qs' = [] then CHR 0x7D # y
          else CHR '','' # comma_join (map proposal_member qs') @ CHR 0x7D # y)"
      by (simp only: join)
    from proposal_member_read [OF this] Cons.IH [of qs'] Cons
    show ?thesis by (auto split: if_splits)
  qed
qed


section \<open>Equal digests, equal logs\<close>

text \<open>
  What the digest sees of an entry: round, epoch, commit set, and the proposals in key order.
\<close>

definition digest_view :: "'a committed_round_scheme \<Rightarrow> int \<times> int \<times> int \<times> (int \<times> string) list" where
  "digest_view e =
     (cr_round e, cr_membership_epoch e, cr_commit_set e,
      sort_key fst (map (\<lambda>(k, v). (int k, v)) (cr_proposals e)))"

lemma sort_members:
  "map snd (sort_key fst (map (\<lambda>(k, v). (k, json_string (show_int k) @ '':'' @ dumps v))
     (map (\<lambda>(k, v). (int k, JStr v)) ps)))
   = map proposal_member (sort_key fst (map (\<lambda>(k, v). (int k, v)) ps))"
proof -
  have insort: "insort_key fst (fst kv, proposal_member kv) (map (\<lambda>kv. (fst kv, proposal_member kv)) xs)
      = map (\<lambda>kv. (fst kv, proposal_member kv)) (insort_key fst kv xs)" for kv xs
    by (induction xs) auto
  have "sort_key fst (map (\<lambda>(k, v). (k, json_string (show_int k) @ '':'' @ dumps v))
      (map (\<lambda>(k, v). (int k, JStr v)) ps))
    = map (\<lambda>kv. (fst kv, proposal_member kv)) (sort_key fst (map (\<lambda>(k, v). (int k, v)) ps))"
  proof (induction ps)
    case Nil
    show ?case by simp
  next
    case (Cons p ps)
    then show ?case using insort [of "(int (fst p), snd p)"]
      by (simp add: case_prod_beta proposal_member_def)
  qed
  then show ?thesis by (simp add: o_def)
qed

lemma encode_link_text:
  "encode_link d e =
     ''{'' @ json_string ''entry'' @ '':'' @
       ''{'' @ json_string ''commit_set'' @ '':'' @ show_int (cr_commit_set e) @ '','' @
         json_string ''membership_epoch'' @ '':'' @ show_int (cr_membership_epoch e) @ '','' @
         json_string ''proposals'' @ '':'' @
           ''{'' @ comma_join (map proposal_member
             (sort_key fst (map (\<lambda>(k, v). (int k, v)) (cr_proposals e)))) @ ''}'' @ '','' @
         json_string ''round'' @ '':'' @ show_int (cr_round e) @ ''}'' @ '','' @
       json_string ''previous_digest'' @ '':'' @ json_string d @ ''}''"
  using sort_members [of "cr_proposals e"]
  by (simp add: encode_link_def digest_projection_def del: map_map)

lemma encode_link_inject:
  assumes "encode_link d e = encode_link d' e'"
  shows "d = d' \<and> digest_view e = digest_view e'"
proof -
  let ?ps = "\<lambda>e. sort_key fst (map (\<lambda>(k, v). (int k, v)) (cr_proposals e))"
  let ?tail = "\<lambda>d. '','' @ json_string ''previous_digest'' @ '':'' @ json_string d @ ''}''"
  let ?round = "\<lambda>d e. '','' @ json_string ''round'' @ '':'' @ show_int (cr_round e) @ ''}'' @ ?tail d"
  let ?props = "\<lambda>d e. '','' @ json_string ''proposals'' @ '':'' @ ''{'' @
    comma_join (map proposal_member (?ps e)) @ ''}'' @ ?round d e"
  let ?epoch = "\<lambda>d e. '','' @ json_string ''membership_epoch'' @ '':'' @
    show_int (cr_membership_epoch e) @ ?props d e"
  from assms have "show_int (cr_commit_set e) @ ?epoch d e = show_int (cr_commit_set e') @ ?epoch d' e'"
    by (simp add: encode_link_text)
  then have 1: "cr_commit_set e = cr_commit_set e'" "?epoch d e = ?epoch d' e'"
    using show_int_read [of _ "?epoch d e" _ "?epoch d' e'"] by simp_all
  from 1(2) have "show_int (cr_membership_epoch e) @ ?props d e = show_int (cr_membership_epoch e') @ ?props d' e'"
    by simp
  then have 2: "cr_membership_epoch e = cr_membership_epoch e'" "?props d e = ?props d' e'"
    using show_int_read [of _ "?props d e" _ "?props d' e'"] by simp_all
  from 2(2) have "comma_join (map proposal_member (?ps e)) @ CHR 0x7D # ?round d e
      = comma_join (map proposal_member (?ps e')) @ CHR 0x7D # ?round d' e'" by simp
  from proposal_members_read [OF this] have 3: "?ps e = ?ps e'" "?round d e = ?round d' e'" by simp_all
  from 3(2) have "show_int (cr_round e) @ CHR 0x7D # ?tail d = show_int (cr_round e') @ CHR 0x7D # ?tail d'"
    by simp
  then have 4: "cr_round e = cr_round e'" "?tail d = ?tail d'"
    using show_int_read [of _ "CHR 0x7D # ?tail d" _ "CHR 0x7D # ?tail d'"] by simp_all
  from 4(2) have "json_string d @ ''}'' = json_string d' @ ''}''" by simp
  from json_string_read [OF this] 1 2 3 4 show ?thesis by (simp add: digest_view_def)
qed

text \<open>The strings that computing the digest of a log hashes.\<close>

definition digest_inputs :: "(string \<Rightarrow> string) \<Rightarrow> 'a committed_round_scheme list \<Rightarrow> string list" where
  "digest_inputs sha es =
     ''syncons-log-empty'' #
     map (\<lambda>i. encode_link (digest_for_committed_rounds sha (take i es)) (es ! i)) [0..<length es]"

lemma digest_for_committed_rounds_simps [simp]:
  "digest_for_committed_rounds sha [] = empty_log_digest sha"
  "digest_for_committed_rounds sha (es @ [e])
     = extend_log_digest sha (digest_for_committed_rounds sha es) e"
  by (simp_all add: digest_for_committed_rounds_def)

lemma digest_inputs_simps [simp]:
  "digest_inputs sha [] = [''syncons-log-empty'']"
  "digest_inputs sha (es @ [e])
     = digest_inputs sha es @ [encode_link (digest_for_committed_rounds sha es) e]"
  by (simp_all add: digest_inputs_def nth_append)

lemma digest_is_hash:
  "\<exists>s \<in> set (digest_inputs sha es). digest_for_committed_rounds sha es = sha s"
  by (induction es rule: rev_induct) (auto simp: empty_log_digest_def extend_log_digest_def)

lemma encode_link_not_empty_marker: "encode_link d e \<noteq> ''syncons-log-empty''"
  by (simp add: encode_link_text)

lemma digest_determines_log:
  assumes "inj_on sha (set (digest_inputs sha xs) \<union> set (digest_inputs sha ys))"
    and "digest_for_committed_rounds sha xs = digest_for_committed_rounds sha ys"
  shows "map digest_view xs = map digest_view ys"
  using assms
proof (induction xs arbitrary: ys rule: rev_induct)
  case Nil
  show ?case
  proof (cases ys rule: rev_cases)
    case (snoc ys' y)
    with Nil.prems(2) have "sha ''syncons-log-empty'' = sha (encode_link (digest_for_committed_rounds sha ys') y)"
      by (simp add: empty_log_digest_def extend_log_digest_def)
    from inj_onD [where f = sha, OF Nil.prems(1) this] snoc show ?thesis
      by (simp add: encode_link_not_empty_marker [symmetric])
  qed simp
next
  case (snoc x xs)
  note prems = snoc.prems and IH = snoc.IH
  show ?case
  proof (cases ys rule: rev_cases)
    case Nil
    with prems(2) have "sha (encode_link (digest_for_committed_rounds sha xs) x) = sha ''syncons-log-empty''"
      by (simp add: empty_log_digest_def extend_log_digest_def)
    from inj_onD [where f = sha, OF prems(1) this] show ?thesis
      by (simp add: encode_link_not_empty_marker digest_inputs_def)
  next
    case (snoc ys' y)
    with prems(2) have "sha (encode_link (digest_for_committed_rounds sha xs) x)
        = sha (encode_link (digest_for_committed_rounds sha ys') y)"
      by (simp add: extend_log_digest_def)
    from inj_onD [where f = sha, OF prems(1) this] snoc
    have "encode_link (digest_for_committed_rounds sha xs) x
        = encode_link (digest_for_committed_rounds sha ys') y" by simp
    from encode_link_inject [OF this]
    have eq: "digest_for_committed_rounds sha xs = digest_for_committed_rounds sha ys'"
      "digest_view x = digest_view y" by simp_all
    have "inj_on sha (set (digest_inputs sha xs) \<union> set (digest_inputs sha ys'))"
      by (rule inj_on_subset [OF prems(1)]) (use snoc in auto)
    from IH [OF this eq(1)] eq(2) snoc show ?thesis by simp
  qed
qed


section \<open>Properties\<close>

text \<open>
  C14. Equal log digests mean equal logs: if the hash does not collide on the strings the two
  computations hash, two logs with the same digest have the same rounds, epochs, commit sets and
  proposals, entry by entry. This is what lets a node compare its log with a repair log by frontier
  and digest alone.
\<close>

theorem equal_digests_equal_logs:
  assumes "inj_on sha (set (digest_inputs sha xs) \<union> set (digest_inputs sha ys))"
    and "digest_for_committed_rounds sha xs = digest_for_committed_rounds sha ys"
  shows "map digest_view xs = map digest_view ys"
  using assms by (rule digest_determines_log)

definition example_entry :: "(nat, string) dict \<Rightarrow> committed_round" where
  "example_entry proposals =
     \<lparr>cr_round = 4, cr_membership_epoch = 0, cr_commit_set = 3, cr_proposals = proposals\<rparr>"

theorem equal_digests_equal_logs_witness:
  "digest_for_committed_rounds (\<lambda>s. s) [example_entry [(0, ''a''), (1, ''b'')]]
   = digest_for_committed_rounds (\<lambda>s. s) [example_entry [(1, ''b''), (0, ''a'')]] \<and>
   map digest_view [example_entry [(0, ''a''), (1, ''b'')]]
   = map digest_view [example_entry [(1, ''b''), (0, ''a'')]]"
proof -
  have d: "digest_for_committed_rounds (\<lambda>s. s) [example_entry [(0, ''a''), (1, ''b'')]]
      = digest_for_committed_rounds (\<lambda>s. s) [example_entry [(1, ''b''), (0, ''a'')]]" by code_simp
  have "inj_on (\<lambda>s. s) A" for A :: "string set" by simp
  from equal_digests_equal_logs [OF this d] d show ?thesis by blast
qed

end
