(* ===== verification/Node.thy ===== *)
theory Node
  imports Log_Digest
begin

text \<open>
  \<open>sim/protocol/node.py\<close>: one replica. The record holds the dataclass fields and the attributes
  set in \<open>__post_init__\<close>; every method is a function that takes the node and returns the new one
  (with its result, where it has one). The hash is the parameter \<open>sha\<close>. The lemma sections give
  the meaning of the row predicates, the branches of the round boundary, and the local
  invariants the cluster proof builds on.
\<close>


section \<open>State\<close>

record node =
  nd_node_id :: nat
  nd_node_count :: nat
  nd_payload_factory :: "nat \<Rightarrow> int \<Rightarrow> string"
  nd_status :: node_status
  nd_current_round :: int
  nd_status_reason :: "string option"
  nd_committed_frontier :: int
  nd_last_committed_sound_set :: "int option"
  nd_commit_digest :: string
  nd_halted_round :: "int option"
  nd_halt_details :: "halt_record option"
  nd_membership_state :: membership_state
  nd_installed_membership_epoch :: int
  nd_installed_membership :: int
  nd_current_sound_set :: int
  nd_run_id :: int
  nd_pending_config :: "pending_config option"
  nd_current_stage :: round_stage
  nd_previous_stage :: round_stage
  nd_commit_stage :: round_stage
  nd_event_outbox :: "node_event list"
  nd_pending_update :: "control_plane_update option"
  nd_irq_pending :: bool

definition default_payload :: "nat \<Rightarrow> int \<Rightarrow> string" where
  "default_payload nid round_id = show_int (int nid) @ ''_'' @ show_int round_id"

definition new_node :: "(string \<Rightarrow> string) \<Rightarrow> nat \<Rightarrow> nat \<Rightarrow> (nat \<Rightarrow> int \<Rightarrow> string) \<Rightarrow> node" where
  "new_node sha nid n pf =
     \<lparr>nd_node_id = nid, nd_node_count = n, nd_payload_factory = pf, nd_status = RUNNING,
      nd_current_round = 0, nd_status_reason = None, nd_committed_frontier = -1,
      nd_last_committed_sound_set = None, nd_commit_digest = empty_log_digest sha,
      nd_halted_round = None, nd_halt_details = None, nd_membership_state = ACTIVE,
      nd_installed_membership_epoch = 0, nd_installed_membership = one_hot n - 1,
      nd_current_sound_set = one_hot n - 1, nd_run_id = 0, nd_pending_config = None,
      nd_current_stage = empty_stage (-1) 0 0, nd_previous_stage = empty_stage (-1) 0 0,
      nd_commit_stage = empty_stage (-2) 0 0, nd_event_outbox = [], nd_pending_update = None,
      nd_irq_pending = False\<rparr>"


section \<open>Judging a stage\<close>

definition quorum :: "node \<Rightarrow> nat" where
  "quorum n = max 1 (nd_node_count n div 2 + 1)"

definition observation_rows :: "node \<Rightarrow> round_stage \<Rightarrow> (nat, int) dict" where
  "observation_rows n stage =
     map (\<lambda>member. (member, dget_or (stg_rows stage) member 0))
       (bitmap_members (stg_installed_membership stage) (nd_node_count n))"

definition row_is_valid :: "nat \<Rightarrow> int \<Rightarrow> bool" where
  "row_is_valid src row = (if row = 0 then True else row AND one_hot src \<noteq> 0)"

definition agreed_row :: "node \<Rightarrow> round_stage \<Rightarrow> int option" where
  "agreed_row n stage =
     (let members = bitmap_members (stg_installed_membership stage) (nd_node_count n);
          rows = observation_rows n stage in
      if list_ex (\<lambda>(src, row). \<not> row_is_valid src row) rows then None
      else
        let local_row = dget_or rows (nd_node_id n) 0 in
        if local_row = 0 then None
        else
          let witness_count = length (filter (\<lambda>member. dget rows member = Some local_row) members) in
          if witness_count < quorum n then None else Some local_row)"

definition sound_set :: "node \<Rightarrow> round_stage \<Rightarrow> int option" where
  "sound_set n stage =
     (case agreed_row n stage of
        None \<Rightarrow> None
      | Some agreed \<Rightarrow>
          Some (fold (\<lambda>(member, row) core. if row = agreed then core OR one_hot member else core)
                  (observation_rows n stage) 0))"

definition commit_set :: "node \<Rightarrow> round_stage \<Rightarrow> int option" where
  "commit_set n stage =
     (case agreed_row n stage of
        None \<Rightarrow> None
      | Some agreed \<Rightarrow>
          if list_ex (\<lambda>member. \<not> dmem member (stg_proposals stage))
               (bitmap_members agreed (nd_node_count n))
          then None else Some agreed)"


section \<open>Configuration and control-plane updates\<close>

definition reset_pipeline :: "node \<Rightarrow> node" where
  "reset_pipeline n =
     n\<lparr>nd_current_sound_set := nd_installed_membership n,
       nd_current_stage :=
         empty_stage (-1) (nd_installed_membership_epoch n) (nd_installed_membership n),
       nd_previous_stage :=
         empty_stage (-1) (nd_installed_membership_epoch n) (nd_installed_membership n),
       nd_commit_stage :=
         empty_stage (-2) (nd_installed_membership_epoch n) (nd_installed_membership n)\<rparr>"

definition activate_pending_config_if_due :: "int \<Rightarrow> node \<Rightarrow> node \<times> bool" where
  "activate_pending_config_if_due round_id n =
     (case nd_pending_config n of
        None \<Rightarrow> (n, False)
      | Some pending \<Rightarrow>
          if pc_status pending \<noteq> COMMITTED then (n, False)
          else if round_id < pc_effective_round pending then (n, False)
          else
            (reset_pipeline
               (n\<lparr>nd_installed_membership_epoch := pc_membership_epoch pending,
                  nd_installed_membership := pc_members_bitmap pending,
                  nd_current_sound_set := pc_members_bitmap pending,
                  nd_run_id := pc_run_id pending,
                  nd_pending_config := None,
                  nd_membership_state := ACTIVE\<rparr>), True))"

definition emit_control_plane_event :: "node_event \<Rightarrow> node \<Rightarrow> node" where
  "emit_control_plane_event ev n = n\<lparr>nd_event_outbox := nd_event_outbox n @ [ev]\<rparr>"

definition pull_control_plane_events :: "node \<Rightarrow> node \<times> node_event list" where
  "pull_control_plane_events n = (n\<lparr>nd_event_outbox := []\<rparr>, nd_event_outbox n)"

definition push_control_plane_update :: "control_plane_update \<Rightarrow> node \<Rightarrow> node" where
  "push_control_plane_update u n = n\<lparr>nd_pending_update := Some u, nd_irq_pending := True\<rparr>"

definition log_frontier :: "repair_log \<Rightarrow> int" where
  "log_frontier entries = (if entries = [] then -1 else cr_round (last entries))"

definition should_install_repair_log :: "(string \<Rightarrow> string) \<Rightarrow> repair_log \<Rightarrow> node \<Rightarrow> bool" where
  "should_install_repair_log sha entries n =
     (if log_frontier entries \<noteq> nd_committed_frontier n then True
      else digest_for_committed_rounds sha entries \<noteq> nd_commit_digest n)"

text \<open>\<open>if not repair_log: return\<close> goes through \<open>__len__\<close>: an empty log is never installed.\<close>

definition install_repair_log :: "(string \<Rightarrow> string) \<Rightarrow> repair_log \<Rightarrow> node \<Rightarrow> node" where
  "install_repair_log sha entries n =
     (if length entries = 0 then n
      else n\<lparr>nd_committed_frontier := log_frontier entries,
             nd_last_committed_sound_set := None,
             nd_commit_digest := digest_for_committed_rounds sha entries\<rparr>)"

definition apply_control_plane_update ::
  "(string \<Rightarrow> string) \<Rightarrow> control_plane_update \<Rightarrow> node \<Rightarrow> node" where
  "apply_control_plane_update sha update n =
     (let cfg = cpu_installed_config update;
          state = cpu_membership_state update;
          n1 = n\<lparr>nd_installed_membership_epoch := ic_membership_epoch cfg,
                 nd_installed_membership := ic_members_bitmap cfg,
                 nd_current_sound_set := ic_members_bitmap cfg,
                 nd_run_id := ic_run_id cfg,
                 nd_pending_config := cpu_pending_config update,
                 nd_membership_state := state\<rparr>;
          n2 = (if nd_status n1 \<in> {CRASHED, HALTED} \<and> state \<in> {RECOVERING, REJOIN_PENDING, ACTIVE}
                then n1\<lparr>nd_status := RUNNING,
                        nd_status_reason := Some ''rebooted_under_control_plane'',
                        nd_halted_round := None,
                        nd_halt_details := None\<rparr>
                else n1);
          n3 = (case cpu_repair_log update of
                  None \<Rightarrow> n2
                | Some entries \<Rightarrow>
                    if should_install_repair_log sha entries n2 then install_repair_log sha entries n2
                    else n2);
          config_changed = (nd_installed_membership_epoch n \<noteq> nd_installed_membership_epoch n3 \<or>
                            nd_installed_membership n \<noteq> nd_installed_membership n3 \<or>
                            nd_run_id n \<noteq> nd_run_id n3)
      in if nd_membership_state n \<noteq> ACTIVE \<and> state = ACTIVE then reset_pipeline n3
         else if config_changed then reset_pipeline n3
         else n3)"

definition pull_control_plane_update :: "(string \<Rightarrow> string) \<Rightarrow> node \<Rightarrow> node \<times> bool" where
  "pull_control_plane_update sha n =
     (if \<not> nd_irq_pending n then (n, False)
      else case nd_pending_update n of
        None \<Rightarrow> (n, False)
      | Some update \<Rightarrow>
          let previous_pending = nd_pending_config n;
              n1 = apply_control_plane_update sha update
                     (n\<lparr>nd_pending_update := None, nd_irq_pending := False\<rparr>)
          in (case nd_pending_config n1 of
                None \<Rightarrow> (n1, True)
              | Some p \<Rightarrow>
                  if pc_status p = PREPARED \<and> Some p \<noteq> previous_pending
                  then (emit_control_plane_event (PrepareAck (nd_node_id n1) p) n1, True)
                  else (n1, True)))"


section \<open>The round boundary\<close>

definition new_current_stage :: "int \<Rightarrow> node \<Rightarrow> round_stage" where
  "new_current_stage round_id n =
     \<lparr>stg_round_id = round_id,
      stg_membership_epoch = nd_installed_membership_epoch n,
      stg_installed_membership = nd_installed_membership n,
      stg_row = one_hot (nd_node_id n),
      stg_proposals = [(nd_node_id n, nd_payload_factory n (nd_node_id n) round_id)],
      stg_rows = []\<rparr>"

definition default_destinations :: "node \<Rightarrow> nat list" where
  "default_destinations n =
     filter (\<lambda>member. member \<noteq> nd_node_id n)
       (bitmap_members (nd_installed_membership n) (nd_node_count n))"

definition committed_frontier :: "node \<Rightarrow> int option" where
  "committed_frontier n =
     (if nd_committed_frontier n < 0 then None else Some (nd_committed_frontier n))"

definition build_halt_record ::
  "round_stage \<Rightarrow> (nat, int) dict \<Rightarrow> int \<Rightarrow> string \<Rightarrow> node \<Rightarrow> halt_record" where
  "build_halt_record stage rows local_row halt_reason n =
     \<lparr>hr_failed_round = stg_round_id stage,
      hr_membership_epoch = stg_membership_epoch stage,
      hr_installed_membership_epoch = stg_membership_epoch stage,
      hr_run_id = nd_run_id n,
      hr_installed_membership = stg_installed_membership stage,
      hr_quorum = quorum n,
      hr_observation_rows = sort_key fst rows,
      hr_self_row = local_row,
      hr_committed_frontier = committed_frontier n,
      hr_sound_set_lineage = nd_last_committed_sound_set n,
      hr_log_digest = nd_commit_digest n,
      hr_halt_reason = halt_reason\<rparr>"

datatype boundary_decision = SKIP | HALT | CONTINUE

type_synonym boundary_result = "boundary_decision \<times> int option \<times> committed_round list"

definition enter_halt_state ::
  "round_stage \<Rightarrow> (nat, int) dict \<Rightarrow> int \<Rightarrow> string \<Rightarrow> node \<Rightarrow> node \<times> boundary_result" where
  "enter_halt_state stage rows local_row halt_reason n =
     (let n1 = n\<lparr>nd_status := HALTED,
                 nd_halted_round := Some (nd_current_round n),
                 nd_status_reason := Some halt_reason\<rparr>;
          hr = build_halt_record stage rows local_row halt_reason n1;
          n2 = n1\<lparr>nd_halt_details := Some hr\<rparr>
      in (emit_control_plane_event (NodeHalted (nd_node_id n2) hr) n2, HALT, None, []))"

definition proposals_of :: "round_stage \<Rightarrow> nat list \<Rightarrow> (nat, string) dict" where
  "proposals_of stage members = map (\<lambda>m. (m, the (dget (stg_proposals stage) m))) members"

definition evaluate_round_boundary ::
  "(string \<Rightarrow> string) \<Rightarrow> round_stage option \<Rightarrow> node \<Rightarrow> node \<times> boundary_result" where
  "evaluate_round_boundary sha stage_arg n =
     (let stage = (case stage_arg of None \<Rightarrow> nd_commit_stage n | Some s \<Rightarrow> s) in
      if stg_round_id stage < 0 then (n, SKIP, None, [])
      else
        let rows = observation_rows n stage;
            local_row = dget_or (stg_rows stage) (nd_node_id n) 0;
            halt = (\<lambda>halt_reason. enter_halt_state stage rows local_row halt_reason n)
        in case agreed_row n stage of
             None \<Rightarrow> halt ''no_agreed_row''
           | Some agreed \<Rightarrow>
             (case commit_set n stage of
                None \<Rightarrow> halt ''commit_set_not_valid''
              | Some commits \<Rightarrow>
                (case sound_set n stage of
                   None \<Rightarrow> halt ''no_sound_set''
                 | Some sound \<Rightarrow>
                     if sound AND one_hot (nd_node_id n) = 0
                     then halt ''local_node_excluded_from_sound_set''
                     else if sound AND nd_current_sound_set n \<noteq> sound
                     then halt ''sound_set_not_subset_of_previous_set''
                     else
                       let committed =
                             \<lparr>cr_round = stg_round_id stage,
                              cr_membership_epoch = stg_membership_epoch stage,
                              cr_commit_set = commits,
                              cr_proposals = proposals_of stage
                                (bitmap_members commits (nd_node_count n))\<rparr>
                       in (n\<lparr>nd_committed_frontier := cr_round committed,
                             nd_last_committed_sound_set := Some sound,
                             nd_commit_digest :=
                               extend_log_digest sha (nd_commit_digest n) committed\<rparr>,
                           CONTINUE, Some sound, [committed]))))"


section \<open>Advancing, receiving, crashing\<close>

definition idle_result :: node_round_result where
  "idle_result = \<lparr>nrr_outbound = None, nrr_new_commits = []\<rparr>"

text \<open>Part 3 to 5 of \<open>advance_round\<close>, reached by a running, active node inside its sound set.\<close>

definition run_boundary :: "(string \<Rightarrow> string) \<Rightarrow> int \<Rightarrow> node \<Rightarrow> node \<times> node_round_result" where
  "run_boundary sha new_round n =
     (let judged_stage = nd_previous_stage n;
          n1 = n\<lparr>nd_previous_stage := nd_current_stage n\<rparr>;
          (n2, decision, sound, new_commits) = evaluate_round_boundary sha (Some judged_stage) n1;
          n3 = (case sound of None \<Rightarrow> n2 | Some s \<Rightarrow> n2\<lparr>nd_current_sound_set := s\<rparr>);
          prev = nd_previous_stage n3;
          n4 = n3\<lparr>nd_previous_stage :=
                    prev\<lparr>stg_rows := dset (stg_rows prev) (nd_node_id n3) (stg_row prev)\<rparr>\<rparr>;
          n5 = n4\<lparr>nd_current_stage := new_current_stage new_round n4\<rparr>
      in if decision = HALT then (n5, \<lparr>nrr_outbound = None, nrr_new_commits = new_commits\<rparr>)
         else
           (n5,
            \<lparr>nrr_outbound = Some
               \<lparr>ob_packet =
                  \<lparr>pkt_round_id = new_round, pkt_src_id = nd_node_id n5, pkt_run_id = nd_run_id n5,
                   pkt_row = stg_row (nd_previous_stage n5),
                   pkt_payload = the (dget (stg_proposals (nd_current_stage n5)) (nd_node_id n5))\<rparr>,
                ob_destinations = default_destinations n5\<rparr>,
             nrr_new_commits = new_commits\<rparr>))"

definition participates :: "node \<Rightarrow> bool" where
  "participates n \<longleftrightarrow>
     nd_status n = RUNNING \<and> nd_membership_state n = ACTIVE \<and>
     nd_current_sound_set n AND one_hot (nd_node_id n) \<noteq> 0"

text \<open>Part 1: the configuration work every node does at the start of a round.\<close>

definition begin_round :: "(string \<Rightarrow> string) \<Rightarrow> int \<Rightarrow> node \<Rightarrow> node" where
  "begin_round sha new_round n =
     fst (pull_control_plane_update sha (fst (activate_pending_config_if_due new_round n)))"

definition advance_round :: "(string \<Rightarrow> string) \<Rightarrow> int \<Rightarrow> node \<Rightarrow> node \<times> node_round_result" where
  "advance_round sha new_round n =
     (let n0 = n\<lparr>nd_current_round := new_round\<rparr> in
      if nd_status n0 = CRASHED \<and> nd_halted_round n0 = Some new_round then (n0, idle_result)
      else
        let n1 = begin_round sha new_round n0 in
        if \<not> participates n1 then (n1, idle_result)
        else run_boundary sha new_round n1)"

definition receive :: "packet \<Rightarrow> node \<Rightarrow> node" where
  "receive p n =
     (if nd_status n \<noteq> RUNNING then n
      else if nd_membership_state n \<noteq> ACTIVE then n
      else if nd_current_sound_set n AND one_hot (pkt_src_id p) = 0 then n
      else if pkt_run_id p \<noteq> nd_run_id n then n
      else if pkt_round_id p = nd_current_round n then
        (let cur = nd_current_stage n; prev = nd_previous_stage n in
         n\<lparr>nd_current_stage :=
             cur\<lparr>stg_row := stg_row cur OR one_hot (pkt_src_id p),
                 stg_proposals := dset (stg_proposals cur) (pkt_src_id p) (pkt_payload p)\<rparr>,
           nd_previous_stage :=
             prev\<lparr>stg_rows := dset (stg_rows prev) (pkt_src_id p) (pkt_row p)\<rparr>\<rparr>)
      else n)"

definition crash :: "int \<Rightarrow> node \<Rightarrow> node" where
  "crash round_id n =
     (if nd_status n = RUNNING then
        emit_control_plane_event (NodeCrashed (nd_node_id n))
          (n\<lparr>nd_status := CRASHED, nd_status_reason := Some ''crash_fault'',
             nd_halted_round := Some round_id\<rparr>)
      else n)"

text \<open>\<open>snapshot\<close>: the dictionary a run reports for the node.\<close>

record node_snapshot =
  sn_node_id :: nat
  sn_status :: node_status
  sn_status_reason :: "string option"
  sn_membership_state :: membership_state
  sn_membership_epoch :: int
  sn_run_id :: int
  sn_installed_membership :: int
  sn_current_sound_set :: int
  sn_pending_config :: "pending_config option"
  sn_current_round :: int
  sn_committed_frontier :: "int option"
  sn_last_committed_sound_set :: "int option"
  sn_commit_digest :: string
  sn_halted_round :: "int option"
  sn_halt_details :: "halt_record option"

definition snapshot :: "node \<Rightarrow> node_snapshot" where
  "snapshot n =
     \<lparr>sn_node_id = nd_node_id n, sn_status = nd_status n, sn_status_reason = nd_status_reason n,
      sn_membership_state = nd_membership_state n,
      sn_membership_epoch = nd_installed_membership_epoch n, sn_run_id = nd_run_id n,
      sn_installed_membership = nd_installed_membership n,
      sn_current_sound_set = nd_current_sound_set n, sn_pending_config = nd_pending_config n,
      sn_current_round = nd_current_round n, sn_committed_frontier = committed_frontier n,
      sn_last_committed_sound_set = nd_last_committed_sound_set n,
      sn_commit_digest = nd_commit_digest n, sn_halted_round = nd_halted_round n,
      sn_halt_details = nd_halt_details n\<rparr>"

end
