(* ===== verification/Control_Plane.thy ===== *)
theory Control_Plane
  imports Protocol_Types
begin

text \<open>
  \<open>sim/control/control_plane.py\<close>: the recovery controller. The record holds the attributes of
  \<open>OnlineRejoinControlPlane\<close>; each method is a function from the state to the new state, in the
  error monad where the method asserts, divides or can raise. The snapshot source the runtime
  registers is the argument \<open>snapshots\<close>. Sets of node ids are sets, iterated in ascending order;
  the queue of interruptions is an insertion-ordered dictionary.
\<close>


section \<open>Repair prefixes\<close>

definition clone_repair_prefix :: "committed_round_record list \<Rightarrow> repair_log" where
  "clone_repair_prefix committed_rounds = map (with_timing None None) committed_rounds"

definition snapshot_key :: "repair_snapshot \<Rightarrow> nat \<times> int" where
  "snapshot_key s = (length (rs_committed_rounds s), - int (rs_node_id s))"

text \<open>\<open>max\<close> with a key: the first of the largest elements.\<close>

fun max_snapshot :: "repair_snapshot \<Rightarrow> repair_snapshot list \<Rightarrow> repair_snapshot" where
  "max_snapshot best [] = best"
| "max_snapshot best (s # ss) =
     max_snapshot (if snapshot_key best < snapshot_key s then s else best) ss"

definition select_repair_prefix :: "repair_snapshot list \<Rightarrow> repair_log" where
  "select_repair_prefix snapshots =
     (case snapshots of
        [] \<Rightarrow> []
      | s # ss \<Rightarrow> clone_repair_prefix (rs_committed_rounds (max_snapshot s ss)))"


section \<open>State\<close>

text \<open>The actions by name. \<open>activate_online_rejoin\<close> is only recorded, never scheduled.\<close>

datatype cp_action =
    Abort_online_rejoin
  | Activate_online_rejoin
  | Commit_online_rejoin
  | Mark_recovering
  | Prepare_online_rejoin

text \<open>Actions compare as their strings do, which is the order of the constructors.\<close>

fun action_rank :: "cp_action \<Rightarrow> nat" where
  "action_rank Abort_online_rejoin = 0"
| "action_rank Activate_online_rejoin = 1"
| "action_rank Commit_online_rejoin = 2"
| "action_rank Mark_recovering = 3"
| "action_rank Prepare_online_rejoin = 4"

lemma action_rank_inject: "action_rank a = action_rank b \<longleftrightarrow> a = b"
  by (cases a; cases b) simp_all

instantiation cp_action :: linorder
begin

definition less_eq_cp_action :: "cp_action \<Rightarrow> cp_action \<Rightarrow> bool" where
  "less_eq_cp_action a b \<longleftrightarrow> action_rank a \<le> action_rank b"

definition less_cp_action :: "cp_action \<Rightarrow> cp_action \<Rightarrow> bool" where
  "less_cp_action a b \<longleftrightarrow> action_rank a < action_rank b"

instance
  by standard (auto simp: less_eq_cp_action_def less_cp_action_def action_rank_inject
      simp flip: action_rank_inject)

end

type_synonym scheduled_action = "int \<times> cp_action \<times> int option"

record applied_action =
  ap_time_ns :: int
  ap_action :: cp_action
  ap_node_ids :: "nat list"
  ap_members_bitmap :: "int option"
  ap_effective_round :: "int option"

record control_plane =
  cp_cutover_slack_rounds :: int
  cp_timing :: simulation_timing
  cp_node_count :: nat
  cp_current_state :: "control_plane_state option"
  cp_scheduled :: "scheduled_action list"
  cp_applied :: "applied_action list"
  cp_observed_events :: "cp_event list"
  cp_collecting_targets :: "nat set"
  cp_episode_targets :: "nat set"
  cp_queued_interruptions :: "(nat, int) dict"
  cp_collection_deadline_ns :: "int option"
  cp_next_episode_id :: int
  cp_active_episode_id :: "int option"
  cp_episode_members_bitmap :: "int option"
  cp_prepare_round :: "int option"
  cp_prepare_acks :: "nat set"
  cp_last_prepare_acks :: "nat set"
  cp_pending_future :: "pending_config option"

definition new_control_plane :: "int \<Rightarrow> control_plane" where
  "new_control_plane slack =
     \<lparr>cp_cutover_slack_rounds = slack, cp_timing = default_timing, cp_node_count = 0,
      cp_current_state = None, cp_scheduled = [], cp_applied = [], cp_observed_events = [],
      cp_collecting_targets = {}, cp_episode_targets = {}, cp_queued_interruptions = [],
      cp_collection_deadline_ns = None, cp_next_episode_id = 1, cp_active_episode_id = None,
      cp_episode_members_bitmap = None, cp_prepare_round = None, cp_prepare_acks = {},
      cp_last_prepare_acks = {}, cp_pending_future = None\<rparr>"

definition set_timing :: "simulation_timing \<Rightarrow> control_plane \<Rightarrow> control_plane" where
  "set_timing t cp = cp\<lparr>cp_timing := t\<rparr>"

text \<open>\<open>assert self.current_state is not None\<close>, and the state it guarantees.\<close>

definition with_state :: "control_plane \<Rightarrow> (control_plane_state \<Rightarrow> 'a result) \<Rightarrow> 'a result" where
  "with_state cp f = (case cp_current_state cp of None \<Rightarrow> Inl AssertionError | Some st \<Rightarrow> f st)"

definition floor_div :: "int \<Rightarrow> int \<Rightarrow> int result" where
  "floor_div a b = (if b = 0 then Inl ZeroDivisionError else Inr (a div b))"

definition schedule_action ::
  "int \<Rightarrow> cp_action \<Rightarrow> int option \<Rightarrow> control_plane \<Rightarrow> control_plane" where
  "schedule_action time_ns action episode_id cp =
     cp\<lparr>cp_scheduled := cp_scheduled cp @ [(time_ns, action, episode_id)]\<rparr>"

definition record_applied_action ::
  "int \<Rightarrow> cp_action \<Rightarrow> nat list \<Rightarrow> int option \<Rightarrow> int option \<Rightarrow> control_plane \<Rightarrow> control_plane" where
  "record_applied_action time_ns action node_ids members effective cp =
     cp\<lparr>cp_applied := cp_applied cp @
          [\<lparr>ap_time_ns = time_ns, ap_action = action, ap_node_ids = node_ids,
            ap_members_bitmap = members, ap_effective_round = effective\<rparr>]\<rparr>"

definition initial_state :: "nat \<Rightarrow> control_plane_state result" where
  "initial_state node_count =
     ebind (bitmap_set node_count (map int [0..<node_count]))
       (\<lambda>full_membership. Inr
          \<lparr>cps_installed_config =
             \<lparr>ic_membership_epoch = 0, ic_members_bitmap = full_membership, ic_run_id = 0\<rparr>,
           cps_node_states = map (\<lambda>node_id. (node_id, ACTIVE)) [0..<node_count],
           cps_pending_config = None,
           cps_repair_logs = []\<rparr>)"


section \<open>Repair logs and membership\<close>

definition repair_targets :: "control_plane_state \<Rightarrow> nat set" where
  "repair_targets st =
     set (map fst (filter (\<lambda>(node_id, state). state \<in> {RECOVERING, REJOIN_PENDING})
       (cps_node_states st)))"

definition rebuild_repair_logs :: "repair_snapshot list \<Rightarrow> control_plane \<Rightarrow> control_plane result" where
  "rebuild_repair_logs snapshots cp =
     with_state cp (\<lambda>st.
       let targets = repair_targets st in
       if targets = {} then
         if cps_repair_logs st \<noteq> [] then
           Inr (cp\<lparr>cp_current_state := Some (st\<lparr>cps_repair_logs := []\<rparr>)\<rparr>)
         else Inr cp
       else
         let repair_prefix = select_repair_prefix snapshots in
         if length repair_prefix = 0 then Inr cp
         else
           Inr (cp\<lparr>cp_current_state := Some (st\<lparr>cps_repair_logs :=
             map (\<lambda>node_id. (node_id, repair_prefix)) (sorted_list_of_set targets)\<rparr>)\<rparr>))"

definition future_members :: "control_plane \<Rightarrow> nat set result" where
  "future_members cp =
     (case cp_pending_future cp of
        None \<Rightarrow> Inl AssertionError
      | Some p \<Rightarrow> Inr (set (filter (\<lambda>i. pc_members_bitmap p AND one_hot i \<noteq> 0) [0..<cp_node_count cp])))"

definition episode_active :: "control_plane \<Rightarrow> bool" where
  "episode_active cp \<longleftrightarrow>
     cp_episode_targets cp \<noteq> {} \<or> cp_pending_future cp \<noteq> None \<or> cp_active_episode_id cp \<noteq> None"

definition mark_node_failed :: "nat \<Rightarrow> control_plane \<Rightarrow> control_plane result" where
  "mark_node_failed node_id cp =
     with_state cp (\<lambda>st.
       if dget (cps_node_states st) node_id = Some FAILED then Inr cp
       else Inr (cp\<lparr>cp_current_state :=
              Some (st\<lparr>cps_node_states := dset (cps_node_states st) node_id FAILED\<rparr>)\<rparr>))"

definition begin_collection_window :: "int \<Rightarrow> control_plane \<Rightarrow> control_plane" where
  "begin_collection_window current_time_ns cp =
     (if cp_collecting_targets cp \<noteq> {} \<or> episode_active cp then cp
      else if cp_queued_interruptions cp = [] then cp
      else cp\<lparr>cp_collecting_targets := set (dkeys (cp_queued_interruptions cp)),
              cp_queued_interruptions := [],
              cp_collection_deadline_ns :=
                Some (current_time_ns + cp_collection_delay_ns (cp_timing cp))\<rparr>)"

definition episode_members :: "control_plane \<Rightarrow> nat set result" where
  "episode_members cp =
     with_state cp (\<lambda>st.
       Inr (set (map fst (filter (\<lambda>(node_id, state). state = ACTIVE) (cps_node_states st)))
            \<union> cp_episode_targets cp))"

definition schedule_episode :: "control_plane \<Rightarrow> control_plane result" where
  "schedule_episode cp =
     (case cp_collection_deadline_ns cp of
        None \<Rightarrow> Inl AssertionError
      | Some deadline \<Rightarrow>
          let cp1 = cp\<lparr>cp_active_episode_id := Some (cp_next_episode_id cp),
                       cp_next_episode_id := cp_next_episode_id cp + 1\<rparr> in
          ebind (episode_members cp1) (\<lambda>members.
          ebind (bitmap_set (cp_node_count cp1) (map int (sorted_list_of_set members))) (\<lambda>bitmap.
            let repair_start = deadline + cp_decision_delay_ns (cp_timing cp1);
                prepare_at = repair_start + repair_delay_ns (cp_timing cp1) in
            ebind (floor_div prepare_at (round_length_ns (cp_timing cp1))) (\<lambda>q.
              let episode = cp_active_episode_id cp1;
                  cp2 = cp1\<lparr>cp_episode_members_bitmap := Some bitmap,
                            cp_prepare_round := Some (q + 1)\<rparr>
              in Inr
                (schedule_action (prepare_at + install_delay_ns (cp_timing cp1)) Abort_online_rejoin episode
                  (schedule_action prepare_at Prepare_online_rejoin episode
                    (schedule_action repair_start Mark_recovering episode cp2)))))))"

definition close_collection_window_if_due :: "int \<Rightarrow> control_plane \<Rightarrow> control_plane result" where
  "close_collection_window_if_due current_time_ns cp =
     (case cp_collection_deadline_ns cp of
        None \<Rightarrow> Inr cp
      | Some deadline \<Rightarrow>
          if current_time_ns < deadline then Inr cp
          else if cp_collecting_targets cp = {} then Inr (cp\<lparr>cp_collection_deadline_ns := None\<rparr>)
          else
            with_state cp (\<lambda>_.
              ebind (schedule_episode
                       (cp\<lparr>cp_episode_targets := cp_collecting_targets cp,
                           cp_collecting_targets := {}\<rparr>))
                (\<lambda>cp1. Inr (cp1\<lparr>cp_collection_deadline_ns := None\<rparr>))))"

definition node_states_with_targets ::
  "membership_state \<Rightarrow> control_plane \<Rightarrow> (nat, membership_state) dict result" where
  "node_states_with_targets target_state cp =
     with_state cp (\<lambda>st.
       Inr (fold (\<lambda>node_id states. dset states node_id target_state)
              (sorted_list_of_set (cp_episode_targets cp)) (cps_node_states st)))"

definition clear_episode_state :: "control_plane \<Rightarrow> control_plane" where
  "clear_episode_state cp =
     (let cleared = cp_active_episode_id cp;
          cp1 = cp\<lparr>cp_episode_targets := {}, cp_active_episode_id := None,
                   cp_episode_members_bitmap := None, cp_prepare_round := None,
                   cp_prepare_acks := {}\<rparr>
      in if cleared \<noteq> None
         then cp1\<lparr>cp_scheduled := filter (\<lambda>(t, a, e). e \<noteq> cleared) (cp_scheduled cp1)\<rparr>
         else cp1)"

definition install_pending_future :: "pending_config \<Rightarrow> control_plane \<Rightarrow> control_plane result" where
  "install_pending_future pending cp =
     with_state cp (\<lambda>st.
       Inr (cp\<lparr>cp_pending_future := Some pending,
               cp_current_state := Some (st\<lparr>cps_pending_config := Some pending\<rparr>)\<rparr>))"

definition update_node_states ::
  "(nat, membership_state) dict \<Rightarrow> pending_config option \<Rightarrow> control_plane \<Rightarrow> control_plane result" where
  "update_node_states node_states pending cp =
     with_state cp (\<lambda>st.
       Inr (cp\<lparr>cp_current_state :=
         Some (st\<lparr>cps_node_states := node_states, cps_pending_config := pending\<rparr>)\<rparr>))"


section \<open>The state machine\<close>

definition mark_recovering :: "int \<Rightarrow> control_plane \<Rightarrow> control_plane result" where
  "mark_recovering at_ns cp =
     with_state cp (\<lambda>st.
       ebind (assert_py (cp_episode_targets cp \<noteq> {})) (\<lambda>_.
       ebind (node_states_with_targets RECOVERING cp) (\<lambda>states.
       ebind (update_node_states states (cps_pending_config st) cp) (\<lambda>cp1.
         Inr (record_applied_action at_ns Mark_recovering
               (sorted_list_of_set (cp_episode_targets cp1)) None None cp1)))))"

definition prepare_online_rejoin :: "int \<Rightarrow> control_plane \<Rightarrow> control_plane result" where
  "prepare_online_rejoin at_ns cp =
     with_state cp (\<lambda>st.
       case cp_prepare_round cp of
         None \<Rightarrow> Inl AssertionError
       | Some prepare_round \<Rightarrow>
         (case cp_episode_members_bitmap cp of
            None \<Rightarrow> Inl AssertionError
          | Some bitmap \<Rightarrow>
              let pending =
                    \<lparr>pc_membership_epoch = ic_membership_epoch (cps_installed_config st) + 1,
                     pc_members_bitmap = bitmap,
                     pc_effective_round = prepare_round + cp_cutover_slack_rounds cp,
                     pc_run_id = ic_run_id (cps_installed_config st) + 1,
                     pc_status = PREPARED\<rparr>
              in
              ebind (install_pending_future pending (cp\<lparr>cp_prepare_acks := {}\<rparr>)) (\<lambda>cp1.
              ebind (node_states_with_targets REJOIN_PENDING cp1) (\<lambda>states.
              ebind (update_node_states states (Some pending) cp1) (\<lambda>cp2.
                Inr (record_applied_action at_ns Prepare_online_rejoin
                      (sorted_list_of_set (cp_episode_targets cp2)) (Some bitmap)
                      (Some (pc_effective_round pending)) cp2))))))"

definition commit_online_rejoin :: "int \<Rightarrow> control_plane \<Rightarrow> control_plane result" where
  "commit_online_rejoin at_ns cp =
     (case cp_pending_future cp of
        None \<Rightarrow> Inr cp
      | Some future \<Rightarrow>
          ebind (floor_div at_ns (round_length_ns (cp_timing cp))) (\<lambda>q.
            let commit_visible_round = q + 1;
                committed = future\<lparr>pc_effective_round :=
                              max (pc_effective_round future) (commit_visible_round + 1),
                            pc_status := COMMITTED\<rparr>
            in ebind (install_pending_future committed cp) (\<lambda>cp1.
                 Inr (record_applied_action at_ns Commit_online_rejoin
                       (sorted_list_of_set (cp_episode_targets cp1)) None
                       (Some (pc_effective_round committed)) cp1))))"

definition abort_online_rejoin :: "int \<Rightarrow> control_plane \<Rightarrow> control_plane result" where
  "abort_online_rejoin at_ns cp =
     (case cp_pending_future cp of
        None \<Rightarrow> Inr cp
      | Some future \<Rightarrow>
          if pc_status future \<noteq> PREPARED then Inr cp
          else
            with_state cp (\<lambda>st.
              let retry_targets = cp_episode_targets cp \<union> set (dkeys (cp_queued_interruptions cp));
                  updated_states = map (\<lambda>i. (i, if i \<in> retry_targets then FAILED else ACTIVE))
                                     [0..<cp_node_count cp];
                  cp1 = cp\<lparr>cp_current_state := Some
                          \<lparr>cps_installed_config = cps_installed_config st,
                           cps_node_states = updated_states,
                           cps_pending_config = None, cps_repair_logs = []\<rparr>\<rparr>;
                  cp2 = record_applied_action at_ns Abort_online_rejoin
                          (sorted_list_of_set (cp_episode_targets cp1)) None None cp1;
                  cp3 = cp2\<lparr>cp_queued_interruptions :=
                          fold (\<lambda>i q. dsetdefault q i at_ns) (sorted_list_of_set retry_targets)
                            (cp_queued_interruptions cp2)\<rparr>
              in Inr (begin_collection_window at_ns
                       (clear_episode_state (cp3\<lparr>cp_pending_future := None\<rparr>)))))"

definition apply_action ::
  "cp_action \<Rightarrow> int \<Rightarrow> int option \<Rightarrow> control_plane \<Rightarrow> control_plane result" where
  "apply_action action at_ns episode_id cp =
     with_state cp (\<lambda>_.
       ebind (assert_py (0 < cp_node_count cp)) (\<lambda>_.
         if episode_id \<noteq> None \<and> episode_id \<noteq> cp_active_episode_id cp then Inr cp
         else case action of
           Mark_recovering \<Rightarrow> mark_recovering at_ns cp
         | Prepare_online_rejoin \<Rightarrow> prepare_online_rejoin at_ns cp
         | Commit_online_rejoin \<Rightarrow> commit_online_rejoin at_ns cp
         | Abort_online_rejoin \<Rightarrow> abort_online_rejoin at_ns cp
         | Activate_online_rejoin \<Rightarrow> Inl ValueError))"

definition maybe_activate_cutover :: "int \<Rightarrow> control_plane \<Rightarrow> control_plane" where
  "maybe_activate_cutover round_id cp =
     (case cp_pending_future cp of
        None \<Rightarrow> cp
      | Some future \<Rightarrow>
          if pc_status future \<noteq> COMMITTED then cp
          else if round_id < pc_effective_round future then cp
          else
            let at_ns = round_id * round_length_ns (cp_timing cp);
                cp1 = cp\<lparr>cp_current_state := Some
                        \<lparr>cps_installed_config =
                           \<lparr>ic_membership_epoch = pc_membership_epoch future,
                            ic_members_bitmap = pc_members_bitmap future,
                            ic_run_id = pc_run_id future\<rparr>,
                         cps_node_states =
                           map (\<lambda>i. (i, if pc_members_bitmap future AND one_hot i \<noteq> 0
                                        then ACTIVE else FAILED)) [0..<cp_node_count cp],
                         cps_pending_config = None, cps_repair_logs = []\<rparr>\<rparr>;
                cp2 = record_applied_action at_ns Activate_online_rejoin
                        (sorted_list_of_set (cp_episode_targets cp1)) None
                        (Some (pc_effective_round future)) cp1
            in begin_collection_window at_ns
                 (clear_episode_state (cp2\<lparr>cp_pending_future := None\<rparr>)))"


section \<open>Events\<close>

definition note_interruption :: "nat \<Rightarrow> int \<Rightarrow> control_plane \<Rightarrow> control_plane result" where
  "note_interruption target available_at_ns cp =
     ebind (mark_node_failed target cp) (\<lambda>cp1.
       if (case cp_collection_deadline_ns cp1 of
             None \<Rightarrow> False | Some deadline \<Rightarrow> available_at_ns \<le> deadline)
          \<and> cp_episode_targets cp1 = {}
       then Inr (cp1\<lparr>cp_collecting_targets := insert target (cp_collecting_targets cp1)\<rparr>)
       else
         Inr (begin_collection_window available_at_ns
               (cp1\<lparr>cp_queued_interruptions :=
                      dsetdefault (cp_queued_interruptions cp1) target available_at_ns\<rparr>)))"

definition note_prepare_ack ::
  "nat \<Rightarrow> pending_config \<Rightarrow> int \<Rightarrow> control_plane \<Rightarrow> control_plane result" where
  "note_prepare_ack node_id config available_at_ns cp =
     (case cp_pending_future cp of
        None \<Rightarrow> Inl AssertionError
      | Some future \<Rightarrow>
          if pc_run_id config \<noteq> pc_run_id future then Inr cp
          else if pc_effective_round config \<noteq> pc_effective_round future then Inr cp
          else
            let cp1 = cp\<lparr>cp_prepare_acks := insert node_id (cp_prepare_acks cp)\<rparr> in
            ebind (future_members cp1) (\<lambda>members.
              if members \<subseteq> cp_prepare_acks cp1 then
                let cp2 = cp1\<lparr>cp_last_prepare_acks := cp_prepare_acks cp1\<rparr> in
                if \<not> list_ex (\<lambda>(t, a, e). a = Commit_online_rejoin \<and> e = cp_active_episode_id cp2)
                       (cp_scheduled cp2)
                then Inr (schedule_action (available_at_ns + cp_decision_delay_ns (cp_timing cp2))
                            Commit_online_rejoin (cp_active_episode_id cp2) cp2)
                else Inr cp2
              else Inr cp1))"

definition observe_event :: "cp_event \<Rightarrow> control_plane \<Rightarrow> control_plane result" where
  "observe_event ev cp =
     (let cp0 = cp\<lparr>cp_observed_events := cp_observed_events cp @ [ev]\<rparr> in
      case ev_event ev of
        NodeCrashed i \<Rightarrow> note_interruption i (ev_available_at_ns ev) cp0
      | NodeHalted i _ \<Rightarrow> note_interruption i (ev_available_at_ns ev) cp0
      | PrepareAck i config \<Rightarrow>
          (case cp_pending_future cp0 of
             None \<Rightarrow> Inr cp0
           | Some future \<Rightarrow>
               if pc_status future \<noteq> PREPARED then Inr cp0
               else note_prepare_ack i config (ev_available_at_ns ev) cp0))"


section \<open>The clock\<close>

definition ensure_state :: "nat \<Rightarrow> control_plane \<Rightarrow> control_plane result" where
  "ensure_state node_count cp =
     (if cp_current_state cp = None then
        ebind (initial_state node_count) (\<lambda>st.
          Inr (cp\<lparr>cp_node_count := node_count, cp_current_state := Some st\<rparr>))
      else Inr cp)"

definition action_key :: "scheduled_action \<Rightarrow> int \<times> cp_action \<times> int" where
  "action_key item =
     (case item of (t, a, e) \<Rightarrow> (t, a, case e of None \<Rightarrow> -1 | Some i \<Rightarrow> i))"

definition run_ready :: "scheduled_action list \<Rightarrow> control_plane \<Rightarrow> control_plane result" where
  "run_ready items cp = efold (\<lambda>(t, a, e). apply_action a t e) items cp"

definition advance_to_time ::
  "repair_snapshot list \<Rightarrow> int \<Rightarrow> nat \<Rightarrow> control_plane \<Rightarrow> control_plane result" where
  "advance_to_time snapshots time_ns node_count cp =
     ebind (ensure_state node_count cp) (\<lambda>cp1.
     ebind (close_collection_window_if_due time_ns (begin_collection_window time_ns cp1)) (\<lambda>cp2.
       let ready = filter (\<lambda>item. fst item \<le> time_ns) (cp_scheduled cp2);
           cp3 = cp2\<lparr>cp_scheduled := filter (\<lambda>item. fst item > time_ns) (cp_scheduled cp2)\<rparr> in
     ebind (run_ready (sort_key action_key ready) cp3) (\<lambda>cp4.
     ebind (close_collection_window_if_due time_ns (begin_collection_window time_ns cp4)) (\<lambda>cp5.
       rebuild_repair_logs snapshots cp5))))"

text \<open>\<open>__call__\<close>: the cutover check and the state the cluster distributes.\<close>

definition call_control_plane ::
  "repair_snapshot list \<Rightarrow> int \<Rightarrow> nat \<Rightarrow> control_plane
     \<Rightarrow> (control_plane \<times> control_plane_state) result" where
  "call_control_plane snapshots round_id node_count cp =
     ebind (ensure_state node_count cp) (\<lambda>cp1.
     ebind (rebuild_repair_logs snapshots (maybe_activate_cutover round_id cp1)) (\<lambda>cp2.
       with_state cp2 (\<lambda>st. Inr (cp2, st))))"

record debug_snapshot =
  db_scheduled_actions :: "scheduled_action list"
  db_applied_actions :: "applied_action list"
  db_observed_events :: "cp_event list"
  db_collection_deadline_ns :: "int option"
  db_active_episode_id :: "int option"
  db_collecting_targets :: "nat list"
  db_episode_targets :: "nat list"
  db_episode_members_bitmap :: "int option"
  db_queued_interruptions :: "(nat \<times> int) list"
  db_prepare_acks :: "nat list"
  db_pending_future :: "pending_config option"

definition debug_snapshot_of :: "control_plane \<Rightarrow> debug_snapshot" where
  "debug_snapshot_of cp =
     \<lparr>db_scheduled_actions = sort_key action_key (cp_scheduled cp),
      db_applied_actions = cp_applied cp,
      db_observed_events = cp_observed_events cp,
      db_collection_deadline_ns = cp_collection_deadline_ns cp,
      db_active_episode_id = cp_active_episode_id cp,
      db_collecting_targets = sorted_list_of_set (cp_collecting_targets cp),
      db_episode_targets = sorted_list_of_set (cp_episode_targets cp),
      db_episode_members_bitmap = cp_episode_members_bitmap cp,
      db_queued_interruptions = sort_key (\<lambda>kv. kv) (cp_queued_interruptions cp),
      db_prepare_acks = sorted_list_of_set
        (if cp_prepare_acks cp \<noteq> {} then cp_prepare_acks cp else cp_last_prepare_acks cp),
      db_pending_future = cp_pending_future cp\<rparr>"

end
