(* ===== verification/Cluster.thy ===== *)
theory Cluster
  imports Node Control_Plane
begin

text \<open>
  \<open>sim/runtime/cluster.py\<close> and \<open>sim/runtime/metrics.py\<close>: the run that drives the nodes, the
  network and the controller, round by round. The two fault models are fields of the record, as
  they are of \<open>ClusterRun\<close>; what they close over (a random generator, say) is the \<open>cl_world\<close> they
  read and return. A run that raises is \<open>Inl\<close> of the exception.
\<close>


section \<open>State\<close>

record round_summary =
  sum_round_id :: int
  sum_start_time_ns :: int
  sum_end_time_ns :: int
  sum_committed_txns :: nat

text \<open>The two sinks of \<open>metrics.py\<close>.\<close>

datatype metrics_sink = NoOpMetricsSink | InMemoryMetricsCollector "round_summary list"

fun on_round_complete :: "round_summary \<Rightarrow> metrics_sink \<Rightarrow> metrics_sink" where
  "on_round_complete s NoOpMetricsSink = NoOpMetricsSink"
| "on_round_complete s (InMemoryMetricsCollector rounds) = InMemoryMetricsCollector (rounds @ [s])"

record delivery_item =
  di_dst :: nat
  di_packet :: packet
  di_fault_applied :: bool

type_synonym 'w network_fault_model = "packet \<Rightarrow> nat \<Rightarrow> 'w \<Rightarrow> delivery \<times> 'w"
type_synonym 'w node_fault_model = "nat \<Rightarrow> int \<Rightarrow> 'w \<Rightarrow> bool \<times> 'w"

record 'w cluster =
  cl_node_count :: nat
  cl_rounds :: int
  cl_timing :: simulation_timing
  cl_payload_factory :: "nat \<Rightarrow> int \<Rightarrow> string"
  cl_network_fault_model :: "'w network_fault_model"
  cl_node_fault_model :: "'w node_fault_model"
  cl_world :: 'w
  cl_metrics_sink :: metrics_sink
  cl_control_plane :: control_plane
  cl_nodes :: "node list"
  cl_scheduled_deliveries :: "(int, delivery_item list) dict"
  cl_control_plane_events :: "cp_event list"
  cl_commit_history_by_node :: "(nat, committed_round_record list) dict"
  cl_last_control_plane_updates :: "(nat, control_plane_update) dict"

definition all_nodes_active :: "'w node_fault_model" where
  "all_nodes_active node_id round_id w = (True, w)"

definition immediate_delivery :: "'w network_fault_model" where
  "immediate_delivery p dst w = (plain_delivery (Some (pkt_round_id p)) ''deliver'', w)"

definition new_cluster ::
  "(string \<Rightarrow> string) \<Rightarrow> nat \<Rightarrow> int \<Rightarrow> simulation_timing \<Rightarrow> (nat \<Rightarrow> int \<Rightarrow> string) \<Rightarrow>
     'w network_fault_model \<Rightarrow> 'w node_fault_model \<Rightarrow> 'w \<Rightarrow> metrics_sink \<Rightarrow> 'w cluster" where
  "new_cluster sha node_count rounds timing pf net faults w sink =
     \<lparr>cl_node_count = node_count, cl_rounds = rounds, cl_timing = timing, cl_payload_factory = pf,
      cl_network_fault_model = net, cl_node_fault_model = faults, cl_world = w,
      cl_metrics_sink = sink,
      cl_control_plane = set_timing timing (new_control_plane 10),
      cl_nodes = map (\<lambda>i. new_node sha i node_count pf) [0..<node_count],
      cl_scheduled_deliveries = [], cl_control_plane_events = [],
      cl_commit_history_by_node = map (\<lambda>i. (i, [])) [0..<node_count],
      cl_last_control_plane_updates = []\<rparr>"

definition set_node :: "nat \<Rightarrow> node \<Rightarrow> 'w cluster \<Rightarrow> 'w cluster" where
  "set_node i n c = c\<lparr>cl_nodes := (cl_nodes c)[i := n]\<rparr>"


section \<open>Talking to the controller\<close>

text \<open>\<open>_repair_log_snapshots\<close>: the histories in ascending order of node id.\<close>

definition repair_log_snapshots :: "'w cluster \<Rightarrow> repair_snapshot list" where
  "repair_log_snapshots c =
     map (\<lambda>node_id.
            \<lparr>rs_node_id = node_id,
             rs_committed_rounds =
               map (with_timing None None) (dget_or (cl_commit_history_by_node c) node_id [])\<rparr>)
       (sort (dkeys (cl_commit_history_by_node c)))"

definition submit_control_plane_event :: "cp_event \<Rightarrow> 'w cluster \<Rightarrow> 'w cluster result" where
  "submit_control_plane_event ev c =
     (let c1 = c\<lparr>cl_control_plane_events := cl_control_plane_events c @ [ev]\<rparr> in
      ebind (observe_event ev (cl_control_plane c1)) (\<lambda>cp. Inr (c1\<lparr>cl_control_plane := cp\<rparr>)))"

definition stamp_event :: "simulation_timing \<Rightarrow> int \<Rightarrow> int \<Rightarrow> node_event \<Rightarrow> cp_event" where
  "stamp_event timing round_id round_start_ns ev =
     \<lparr>ev_event = ev, ev_round = round_id,
      ev_available_at_ns =
        (case ev of
           NodeHalted _ _ \<Rightarrow> round_start_ns + halt_report_delay_ns timing
         | NodeCrashed _ \<Rightarrow> round_start_ns + halt_report_delay_ns timing
         | PrepareAck _ _ \<Rightarrow> round_start_ns)\<rparr>"

definition pull_node_control_plane_events :: "nat \<Rightarrow> int \<Rightarrow> int \<Rightarrow> 'w cluster \<Rightarrow> 'w cluster result" where
  "pull_node_control_plane_events i round_id round_start_ns c =
     (let (n, events) = pull_control_plane_events (cl_nodes c ! i) in
      efold (\<lambda>ev. submit_control_plane_event (stamp_event (cl_timing c) round_id round_start_ns ev))
        events (set_node i n c))"

definition build_control_plane_update :: "nat \<Rightarrow> control_plane_state \<Rightarrow> control_plane_update" where
  "build_control_plane_update node_id st =
     \<lparr>cpu_installed_config = cps_installed_config st,
      cpu_membership_state = dget_or (cps_node_states st) node_id FAILED,
      cpu_pending_config = cps_pending_config st,
      cpu_repair_log = dget (cps_repair_logs st) node_id\<rparr>"

text \<open>One iteration of the loop of \<open>_push_control_plane_updates\<close>, for the node in slot \<open>i\<close>.\<close>

definition push_control_plane_update_to :: "control_plane_state \<Rightarrow> nat \<Rightarrow> 'w cluster \<Rightarrow> 'w cluster" where
  "push_control_plane_update_to st i c =
     (let n = cl_nodes c ! i;
          node_id = nd_node_id n;
          update = build_control_plane_update node_id st
      in if (case dget (cl_last_control_plane_updates c) node_id of
               None \<Rightarrow> False | Some u \<Rightarrow> update_eq u update)
         then c
         else
           let c1 = (case cpu_repair_log update of
                       None \<Rightarrow> c
                     | Some entries \<Rightarrow>
                         c\<lparr>cl_commit_history_by_node :=
                             dset (cl_commit_history_by_node c) node_id entries\<rparr>);
               c2 = set_node i (push_control_plane_update update n) c1
           in c2\<lparr>cl_last_control_plane_updates :=
                   dset (cl_last_control_plane_updates c2) node_id update\<rparr>)"

definition push_control_plane_updates :: "control_plane_state \<Rightarrow> 'w cluster \<Rightarrow> 'w cluster" where
  "push_control_plane_updates st c =
     fold (push_control_plane_update_to st) [0..<length (cl_nodes c)] c"


section \<open>The network\<close>

definition schedule_packet_delivery :: "int \<Rightarrow> delivery_item \<Rightarrow> 'w cluster \<Rightarrow> 'w cluster" where
  "schedule_packet_delivery deliver_round item c =
     c\<lparr>cl_scheduled_deliveries :=
         dset (cl_scheduled_deliveries c) deliver_round
           (dget_or (cl_scheduled_deliveries c) deliver_round [] @ [item])\<rparr>"

definition materialize_packet :: "packet \<Rightarrow> 'a delivery_overrides_scheme \<Rightarrow> packet" where
  "materialize_packet p d =
     \<lparr>pkt_round_id = (case dl_packet_round_override d of None \<Rightarrow> pkt_round_id p | Some r \<Rightarrow> r),
      pkt_src_id = pkt_src_id p,
      pkt_run_id = (case dl_run_id_override d of None \<Rightarrow> pkt_run_id p | Some r \<Rightarrow> r),
      pkt_row = (case dl_row_override d of None \<Rightarrow> pkt_row p | Some r \<Rightarrow> r),
      pkt_payload = (case dl_payload_override d of None \<Rightarrow> pkt_payload p | Some s \<Rightarrow> s)\<rparr>"

definition schedule_outbound_packet :: "outbound_packet \<Rightarrow> 'w cluster \<Rightarrow> 'w cluster" where
  "schedule_outbound_packet ob c =
     fold (\<lambda>dst. schedule_packet_delivery (pkt_round_id (ob_packet ob))
             \<lparr>di_dst = dst, di_packet = ob_packet ob, di_fault_applied = False\<rparr>)
       (ob_destinations ob) c"

text \<open>A packet the fault model has seen joins this round's list or is filed for a later one.\<close>

definition file_delivery ::
  "int \<Rightarrow> int \<Rightarrow> delivery_item \<Rightarrow> delivery_item list \<times> 'w cluster \<Rightarrow> delivery_item list \<times> 'w cluster" where
  "file_delivery round_id target item acc =
     (if target > round_id then (fst acc, schedule_packet_delivery target item (snd acc))
      else (fst acc @ [item], snd acc))"

text \<open>What happens to an item the fault model delivers in round \<open>target\<close>.\<close>

definition route_delivery ::
  "int \<Rightarrow> delivery_item \<Rightarrow> delivery \<Rightarrow> int \<Rightarrow> 'w cluster \<Rightarrow> delivery_item list \<times> 'w cluster" where
  "route_delivery round_id item d target c =
     (let applied = (\<lambda>p. \<lparr>di_dst = di_dst item, di_packet = p, di_fault_applied = True\<rparr>);
          materialized = materialize_packet (di_packet item) d;
          acc = file_delivery round_id target (applied materialized) ([], c)
      in fold (\<lambda>copy. file_delivery round_id (dc_deliver_round copy)
                  (applied (materialize_packet (di_packet item) copy)))
           (dl_extra_copies d)
           (fst acc, fold (\<lambda>extra. schedule_packet_delivery extra (applied materialized))
                       (dl_extra_deliver_rounds d) (snd acc)))"

text \<open>
  The branch of \<open>_advance_network\<close> for an item the fault model has not seen: what it appends to
  this round's list, and the cluster with the rest filed under its round.
\<close>

definition apply_network_fault ::
  "int \<Rightarrow> delivery_item \<Rightarrow> 'w cluster \<Rightarrow> delivery_item list \<times> 'w cluster" where
  "apply_network_fault round_id item c =
     (let (d, w) = cl_network_fault_model c (di_packet item) (di_dst item) (cl_world c);
          c1 = c\<lparr>cl_world := w\<rparr>
      in case dl_deliver_round d of
           None \<Rightarrow> ([], c1)
         | Some target \<Rightarrow> route_delivery round_id item d target c1)"

definition unseen :: "delivery_item list \<Rightarrow> nat" where
  "unseen items = length (filter (\<lambda>it. \<not> di_fault_applied it) items)"

lemma fold_file_delivery_seen:
  assumes "\<forall>it \<in> set (fst acc). di_fault_applied it" "\<And>x. di_fault_applied (f x)"
  shows "\<forall>it \<in> set (fst (fold (\<lambda>x. file_delivery r (t x) (f x)) xs acc)). di_fault_applied it"
  using assms(1)
proof (induction xs arbitrary: acc)
  case (Cons x xs)
  have "\<forall>it \<in> set (fst (file_delivery r (t x) (f x) acc)). di_fault_applied it"
    using Cons.prems assms(2) by (auto simp: file_delivery_def)
  from Cons.IH [OF this] show ?case by simp
qed simp

lemma route_delivery_seen:
  "\<forall>it \<in> set (fst (route_delivery r item d target c)). di_fault_applied it"
  unfolding route_delivery_def Let_def
  by (rule fold_file_delivery_seen) (simp_all add: file_delivery_def)

lemma apply_network_fault_seen:
  "\<forall>it \<in> set (fst (apply_network_fault r item c)). di_fault_applied it"
  by (simp add: apply_network_fault_def split_beta Let_def route_delivery_seen split: option.splits)

lemma unseen_appended [simp]: "unseen (xs @ fst (apply_network_fault r item c)) = unseen xs"
  using apply_network_fault_seen [of r item c] by (simp add: unseen_def filter_empty_conv)

text \<open>
  The \<open>while\<close> loop over the growing list: the items from index \<open>idx\<close> on are the argument. Each
  item meets the fault model at most once, so the loop ends.
\<close>

function network_loop :: "int \<Rightarrow> delivery_item list \<Rightarrow> 'w cluster \<Rightarrow> 'w cluster result" where
  "network_loop round_id [] c = Inr c"
| "network_loop round_id (item # rest) c =
     (if \<not> di_fault_applied item then
        network_loop round_id (rest @ fst (apply_network_fault round_id item c))
          (snd (apply_network_fault round_id item c))
      else if di_dst item < length (cl_nodes c) then
        network_loop round_id rest
          (set_node (di_dst item) (receive (di_packet item) (cl_nodes c ! di_dst item)) c)
      else Inl IndexError)"
  by pat_completeness auto

termination
  by (relation "measures [\<lambda>(r, items, c). unseen items, \<lambda>(r, items, c). length items]")
    (simp_all, simp_all add: unseen_def)

definition advance_network :: "int \<Rightarrow> 'w cluster \<Rightarrow> 'w cluster result" where
  "advance_network round_id c =
     network_loop round_id (dget_or (cl_scheduled_deliveries c) round_id [])
       (c\<lparr>cl_scheduled_deliveries := dpop (cl_scheduled_deliveries c) round_id\<rparr>)"


section \<open>The run\<close>

text \<open>The body of the loop over the nodes; the set collects the commands committed this round.\<close>

definition node_turn ::
  "(string \<Rightarrow> string) \<Rightarrow> int \<Rightarrow> nat \<Rightarrow> 'w cluster \<times> string set \<Rightarrow> ('w cluster \<times> string set) result" where
  "node_turn sha round_id i acc =
     (let (c, commands) = acc;
          start = round_id * round_length_ns (cl_timing c);
          node_id = nd_node_id (cl_nodes c ! i);
          (active, w) = cl_node_fault_model c node_id round_id (cl_world c);
          n0 = (if \<not> active then crash round_id (cl_nodes c ! i) else cl_nodes c ! i);
          (n1, res) = advance_round sha round_id n0;
          entries = map (from_committed_round (Some start)
                          (Some (start + app_delivery_delay_ns (cl_timing c)))) (nrr_new_commits res);
          c1 = set_node i n1 (c\<lparr>cl_world := w\<rparr>);
          c2 = (if entries = [] then c1
                else c1\<lparr>cl_commit_history_by_node :=
                       dset (cl_commit_history_by_node c1) node_id
                         (dget_or (cl_commit_history_by_node c1) node_id [] @ entries)\<rparr>);
          commands2 = commands \<union> set (concat (map (\<lambda>e. map snd (cr_proposals e)) entries))
      in ebind (pull_node_control_plane_events i round_id start c2) (\<lambda>c3.
           Inr (case nrr_outbound res of
                  None \<Rightarrow> c3
                | Some ob \<Rightarrow> schedule_outbound_packet ob c3, commands2)))"

definition run_round :: "(string \<Rightarrow> string) \<Rightarrow> nat \<Rightarrow> 'w cluster \<Rightarrow> 'w cluster result" where
  "run_round sha k c =
     (let round_id = int k;
          start = round_id * round_length_ns (cl_timing c);
          snaps = repair_log_snapshots c
      in ebind (advance_to_time snaps start (cl_node_count c) (cl_control_plane c)) (\<lambda>cp1.
         ebind (call_control_plane snaps round_id (cl_node_count c) cp1) (\<lambda>(cp2, st).
         ebind (efold (node_turn sha round_id) [0..<length (cl_nodes c)]
                  (push_control_plane_updates st (c\<lparr>cl_control_plane := cp2\<rparr>), {})) (\<lambda>(c3, commands).
         ebind (advance_network round_id c3) (\<lambda>c4.
           Inr (c4\<lparr>cl_metrics_sink := on_round_complete
             \<lparr>sum_round_id = round_id, sum_start_time_ns = start,
              sum_end_time_ns = start + round_length_ns (cl_timing c4),
              sum_committed_txns = card commands\<rparr> (cl_metrics_sink c4)\<rparr>))))))"

definition run_rounds :: "(string \<Rightarrow> string) \<Rightarrow> nat \<Rightarrow> 'w cluster \<Rightarrow> 'w cluster result" where
  "run_rounds sha k c = efold (run_round sha) [0..<k] c"

record node_report = node_snapshot +
  nr_committed_rounds :: "committed_round_record list"

record run_result =
  res_node_count :: nat
  res_rounds :: int
  res_simulated_time_ns :: int
  res_timing :: simulation_timing
  res_control_plane_events :: "cp_event list"
  res_control_plane_runtime :: debug_snapshot
  res_nodes :: "node_report list"

definition node_report_of :: "(nat, committed_round_record list) dict \<Rightarrow> node \<Rightarrow> node_report" where
  "node_report_of history n =
     node_snapshot.extend (snapshot n)
       \<lparr>nr_committed_rounds = dget_or history (nd_node_id n) []\<rparr>"

definition cluster_result :: "'w cluster \<Rightarrow> run_result" where
  "cluster_result c =
     \<lparr>res_node_count = cl_node_count c,
      res_rounds = cl_rounds c,
      res_simulated_time_ns = cl_rounds c * round_length_ns (cl_timing c),
      res_timing = cl_timing c,
      res_control_plane_events = cl_control_plane_events c,
      res_control_plane_runtime = debug_snapshot_of (cl_control_plane c),
      res_nodes = map (node_report_of (cl_commit_history_by_node c)) (cl_nodes c)\<rparr>"

definition run :: "(string \<Rightarrow> string) \<Rightarrow> 'w cluster \<Rightarrow> run_result result" where
  "run sha c = ebind (run_rounds sha (nat (cl_rounds c)) c) (\<lambda>c'. Inr (cluster_result c'))"

end
