(* ===== verification/Node_Judgement.thy ===== *)
theory Node_Judgement
  imports Node
begin

text \<open>
  What the row predicates of \<open>Node\<close> mean: when a stage has an agreed row, what the sound set and
  the commit set contain, which branches of the round boundary can be taken, and why two nodes
  that judge rows from the same broadcast cannot agree on different values. The last point is
  proved once, in the locale of quorum systems, and instantiated with the quorum of the code.
\<close>


section \<open>Quorum systems\<close>

locale quorum_system =
  fixes is_quorum :: "'a set \<Rightarrow> bool"
  assumes quorums_intersect: "is_quorum Q \<Longrightarrow> is_quorum Q' \<Longrightarrow> Q \<inter> Q' \<noteq> {}"
begin

text \<open>A value is backed when a quorum voted for it; one vote each means one backed value.\<close>

lemma backed_value_unique:
  assumes "is_quorum Q" "\<forall>m \<in> Q. vote m = Some a"
    and "is_quorum Q'" "\<forall>m \<in> Q'. vote m = Some b"
  shows "a = b"
proof -
  from quorums_intersect [OF assms(1,3)] obtain m where "m \<in> Q" "m \<in> Q'" by blast
  with assms(2,4) show ?thesis by force
qed

end

text \<open>The quorums of the code: majorities of the physical cluster, whatever is installed.\<close>

definition majority :: "nat \<Rightarrow> nat set \<Rightarrow> bool" where
  "majority n Q \<longleftrightarrow> Q \<subseteq> {..<n} \<and> max 1 (n div 2 + 1) \<le> card Q"

interpretation physical: quorum_system "majority n" for n
proof unfold_locales
  fix Q Q' assume "majority n Q" "majority n Q'"
  then have sub: "Q \<subseteq> {..<n}" "Q' \<subseteq> {..<n}" and big: "n < card Q + card Q'"
    by (auto simp: majority_def)
  then have "finite Q" "finite Q'" by (auto intro: finite_subset)
  show "Q \<inter> Q' \<noteq> {}"
  proof
    assume "Q \<inter> Q' = {}"
    with \<open>finite Q\<close> \<open>finite Q'\<close> have "card (Q \<union> Q') = card Q + card Q'" by (rule card_Un_disjoint)
    moreover have "card (Q \<union> Q') \<le> card {..<n}" using sub by (intro card_mono) auto
    ultimately show False using big by simp
  qed
qed


section \<open>Rows\<close>

definition members_of :: "node \<Rightarrow> round_stage \<Rightarrow> nat set" where
  "members_of n s = {m. m < nd_node_count n \<and> bit (stg_installed_membership s) m}"

definition row_of :: "round_stage \<Rightarrow> nat \<Rightarrow> int" where
  "row_of s m = dget_or (stg_rows s) m 0"

definition witnesses :: "node \<Rightarrow> round_stage \<Rightarrow> int \<Rightarrow> nat set" where
  "witnesses n s a = {m \<in> members_of n s. row_of s m = a}"

lemma finite_members_of [simp]: "finite (members_of n s)"
  by (simp add: members_of_def)

lemma observation_rows_get:
  "dget (observation_rows n s) m = (if m \<in> members_of n s then Some (row_of s m) else None)"
  by (simp add: observation_rows_def dget_map members_of_def row_of_def)

lemma set_observation_rows:
  "set (observation_rows n s) = {(m, row_of s m) | m. m \<in> members_of n s}"
  by (auto simp: observation_rows_def members_of_def row_of_def)

lemma row_is_valid_iff: "row_is_valid m row \<longleftrightarrow> row = 0 \<or> bit row m"
  by (simp add: row_is_valid_def)

lemma guarded_choice:
  "(if \<not> V then None else if (if M then x else 0) = 0 then None
    else if C (if M then x else 0) < q then None else Some (if M then x else (0 :: int))) = Some a \<longleftrightarrow>
   V \<and> M \<and> a = x \<and> a \<noteq> 0 \<and> q \<le> (C a :: nat)"
  by auto

text \<open>
  An agreed row exists exactly when every member's row is empty or names its sender, the node is
  an installed member with a non-empty row, and a majority of the physical cluster repeats it.
\<close>

lemma agreed_row_eq_Some_iff:
  "agreed_row n s = Some a \<longleftrightarrow>
     (\<forall>m \<in> members_of n s. row_of s m = 0 \<or> bit (row_of s m) m) \<and>
     nd_node_id n \<in> members_of n s \<and> a = row_of s (nd_node_id n) \<and> a \<noteq> 0 \<and>
     quorum n \<le> card (witnesses n s a)"
proof -
  let ?local = "dget_or (observation_rows n s) (nd_node_id n) 0"
  have invalid: "list_ex (\<lambda>(src, row). \<not> row_is_valid src row) (observation_rows n s) \<longleftrightarrow>
      \<not> (\<forall>m \<in> members_of n s. row_of s m = 0 \<or> bit (row_of s m) m)"
    by (auto simp: list_ex_iff set_observation_rows row_is_valid_iff)
  have row: "?local = (if nd_node_id n \<in> members_of n s then row_of s (nd_node_id n) else 0)"
    by (simp add: dget_or_def observation_rows_get)
  have count: "length (filter (\<lambda>member. dget (observation_rows n s) member = Some b)
      (bitmap_members (stg_installed_membership s) (nd_node_count n))) = card (witnesses n s b)" for b
  proof -
    let ?ms = "filter (\<lambda>member. dget (observation_rows n s) member = Some b)
      (bitmap_members (stg_installed_membership s) (nd_node_count n))"
    have "length ?ms = card (set ?ms)" by (rule distinct_card [symmetric]) simp
    also have "set ?ms = witnesses n s b"
      by (auto simp: witnesses_def observation_rows_get members_of_def)
    finally show ?thesis .
  qed
  have "agreed_row n s =
      (if \<not> (\<forall>m \<in> members_of n s. row_of s m = 0 \<or> bit (row_of s m) m) then None
       else if ?local = 0 then None
       else if card (witnesses n s ?local) < quorum n then None else Some ?local)"
    unfolding agreed_row_def Let_def invalid count by (rule refl)
  then show ?thesis unfolding row by (simp only: guarded_choice [where C = "\<lambda>v. card (witnesses n s v)"])
qed

lemma agreed_rowD:
  assumes "agreed_row n s = Some a"
  shows "a \<noteq> 0" "bit a (nd_node_id n)" "nd_node_id n \<in> witnesses n s a" "nd_node_id n < nd_node_count n"
    "majority (nd_node_count n) (witnesses n s a)"
    "\<And>m. m \<in> witnesses n s a \<Longrightarrow> bit a m \<and> dget (stg_rows s) m = Some a"
proof -
  from assms have a: "\<forall>m \<in> members_of n s. row_of s m = 0 \<or> bit (row_of s m) m"
    "nd_node_id n \<in> members_of n s" "a = row_of s (nd_node_id n)" "a \<noteq> 0"
    "quorum n \<le> card (witnesses n s a)"
    by (auto simp: agreed_row_eq_Some_iff)
  show "a \<noteq> 0" "bit a (nd_node_id n)" "nd_node_id n \<in> witnesses n s a"
    "nd_node_id n < nd_node_count n"
    using a by (auto simp: witnesses_def members_of_def)
  show "majority (nd_node_count n) (witnesses n s a)"
    using a(5) by (auto simp: majority_def witnesses_def members_of_def quorum_def)
  show "bit a m \<and> dget (stg_rows s) m = Some a" if "m \<in> witnesses n s a" for m
    using that a(1,4) by (auto simp: witnesses_def row_of_def dget_or_def split: option.splits)
qed


section \<open>Sound sets and commit sets\<close>

lemma bit_fold_core:
  "bit (fold (\<lambda>(member, row) core. if row = a then core OR one_hot member else core) rows b) i \<longleftrightarrow>
     bit b i \<or> (i, a) \<in> set rows"
proof (induction rows arbitrary: b)
  case Nil
  show ?case by simp
next
  case (Cons p rows)
  obtain m r where p: "p = (m, r)" by (cases p)
  show ?case
    by (cases "r = a") (simp_all add: p Cons.IH bit_or_iff disj_assoc)
qed

lemma sound_set_eq_None_iff: "sound_set n s = None \<longleftrightarrow> agreed_row n s = None"
  by (simp add: sound_set_def split: option.splits)

lemma sound_set_bits:
  assumes "sound_set n s = Some c"
  obtains a where "agreed_row n s = Some a" "\<And>i. bit c i \<longleftrightarrow> i \<in> witnesses n s a"
proof -
  from assms obtain a where a: "agreed_row n s = Some a" by (auto simp: sound_set_def split: option.splits)
  with assms have "bit c i \<longleftrightarrow> i \<in> witnesses n s a" for i
    by (auto simp: sound_set_def bit_fold_core set_observation_rows witnesses_def)
  with a that show thesis by blast
qed

lemma commit_set_eq_Some_iff:
  "commit_set n s = Some c \<longleftrightarrow>
     agreed_row n s = Some c \<and>
     (\<forall>m < nd_node_count n. bit c m \<longrightarrow> dget (stg_proposals s) m \<noteq> None)"
  by (auto simp: commit_set_def list_ex_iff dmem_iff split: option.splits if_splits)

text \<open>The sound set contains the judging node, so two of the five halt reasons never occur.\<close>

lemma sound_set_self: "sound_set n s = Some c \<Longrightarrow> bit c (nd_node_id n)"
  by (auto elim!: sound_set_bits dest: agreed_rowD(3))

lemma sound_set_subset_commit_set:
  assumes "sound_set n s = Some c" "commit_set n s = Some d"
  shows "c AND d = c"
  using assms by (auto simp: and_eq_self_iff commit_set_eq_Some_iff elim!: sound_set_bits dest: agreed_rowD(6))


section \<open>The branches of the round boundary\<close>

definition halts_with ::
  "round_stage \<Rightarrow> string \<Rightarrow> node \<Rightarrow> node \<times> boundary_result" where
  "halts_with s why n =
     enter_halt_state s (observation_rows n s) (row_of s (nd_node_id n)) why n"

definition commit_of :: "round_stage \<Rightarrow> int \<Rightarrow> nat \<Rightarrow> committed_round" where
  "commit_of s c n =
     \<lparr>cr_round = stg_round_id s, cr_membership_epoch = stg_membership_epoch s, cr_commit_set = c,
      cr_proposals = proposals_of s (bitmap_members c n)\<rparr>"

text \<open>
  The complete decision table of \<open>_evaluate_round_boundary\<close>: an empty slot is skipped; no agreed
  row, a missing proposal and a grown sound set halt, each with its own reason; anything else
  commits the agreed row.
\<close>

lemma evaluate_round_boundary_table:
  "evaluate_round_boundary sha (Some s) n =
     (if stg_round_id s < 0 then (n, SKIP, None, [])
      else case agreed_row n s of
        None \<Rightarrow> halts_with s ''no_agreed_row'' n
      | Some a \<Rightarrow>
          if \<exists>m < nd_node_count n. bit a m \<and> dget (stg_proposals s) m = None
          then halts_with s ''commit_set_not_valid'' n
          else if \<exists>m \<in> witnesses n s a. \<not> bit (nd_current_sound_set n) m
          then halts_with s ''sound_set_not_subset_of_previous_set'' n
          else (n\<lparr>nd_committed_frontier := stg_round_id s,
                  nd_last_committed_sound_set := sound_set n s,
                  nd_commit_digest :=
                    extend_log_digest sha (nd_commit_digest n) (commit_of s a (nd_node_count n))\<rparr>,
                CONTINUE, sound_set n s, [commit_of s a (nd_node_count n)]))"
proof (cases "stg_round_id s < 0")
  case True
  then show ?thesis by (simp add: evaluate_round_boundary_def)
next
  case False
  show ?thesis
  proof (cases "agreed_row n s")
    case None
    with False show ?thesis
      by (simp add: evaluate_round_boundary_def halts_with_def row_of_def Let_def)
  next
    case (Some a)
    show ?thesis
    proof (cases "\<exists>m < nd_node_count n. bit a m \<and> dget (stg_proposals s) m = None")
      case True
      with Some have "commit_set n s = None"
        by (cases "commit_set n s") (auto simp: commit_set_eq_Some_iff)
      with Some False True show ?thesis
        by (simp add: evaluate_round_boundary_def halts_with_def row_of_def Let_def)
    next
      case no_gap: False
      then have commit: "commit_set n s = Some a" using Some by (auto simp: commit_set_eq_Some_iff)
      obtain c where c: "sound_set n s = Some c" using Some sound_set_eq_None_iff [of n s] by auto
      with Some have bits: "\<And>i. bit c i \<longleftrightarrow> i \<in> witnesses n s a" by (auto elim: sound_set_bits)
      have subset: "c AND nd_current_sound_set n = c \<longleftrightarrow>
          \<not> (\<exists>m \<in> witnesses n s a. \<not> bit (nd_current_sound_set n) m)"
        by (auto simp: and_eq_self_iff bits)
      have complete: "(\<exists>m < nd_node_count n. bit a m \<and> dget (stg_proposals s) m = None) = False"
        using no_gap by simp
      from False Some commit c sound_set_self [OF c] subset show ?thesis
        by (simp only: Some complete option.case if_False)
          (simp add: Some evaluate_round_boundary_def halts_with_def row_of_def commit_of_def Let_def)
    qed
  qed
qed


section \<open>Properties\<close>

text \<open>
  A node of five whose stage holds the row 7 from itself and nodes 1 and 2, and nothing from 3 and
  4: the running example of the witnesses.
\<close>

definition example_node :: node where
  "example_node = new_node (\<lambda>s. s) 0 5 default_payload"

definition example_stage :: round_stage where
  "example_stage =
     \<lparr>stg_round_id = 3, stg_membership_epoch = 0, stg_installed_membership = 31, stg_row = 7,
      stg_proposals = [(0, ''a''), (1, ''b''), (2, ''c'')], stg_rows = [(0, 7), (1, 7), (2, 7)]\<rparr>"

text \<open>
  C11. A stage has the agreed row \<open>a\<close> exactly when every installed member's row is empty or names
  its own sender, the judging node is itself an installed member whose non-empty row is \<open>a\<close>, and
  at least a quorum of the physical cluster repeated exactly \<open>a\<close>.
\<close>

theorem agreed_row_characterised:
  "agreed_row n s = Some a \<longleftrightarrow>
     (\<forall>m \<in> members_of n s. row_of s m = 0 \<or> bit (row_of s m) m) \<and>
     nd_node_id n \<in> members_of n s \<and> a = row_of s (nd_node_id n) \<and> a \<noteq> 0 \<and>
     quorum n \<le> card {m \<in> members_of n s. row_of s m = a}"
  using agreed_row_eq_Some_iff [of n s a] by (simp add: witnesses_def)

theorem agreed_row_characterised_witness:
  "agreed_row example_node example_stage = Some 7 \<and>
   nd_node_id example_node \<in> members_of example_node example_stage \<and>
   quorum example_node
     \<le> card {m \<in> members_of example_node example_stage. row_of example_stage m = 7}"
proof -
  have "agreed_row example_node example_stage = Some 7" by code_simp
  with agreed_row_characterised [of example_node example_stage 7] show ?thesis by blast
qed

text \<open>
  C12. The complete decision table of the round boundary: an empty slot is skipped, a stage without
  an agreed row halts, one that misses a proposal named by the row halts, one whose witnesses left
  the previous sound set halts, and everything else commits the agreed row, extends the digest
  chain and moves the frontier. The two further halt reasons in the code are never taken.
\<close>

theorem round_boundary_decisions:
  "evaluate_round_boundary sha (Some s) n =
     (if stg_round_id s < 0 then (n, SKIP, None, [])
      else case agreed_row n s of
        None \<Rightarrow> halts_with s ''no_agreed_row'' n
      | Some a \<Rightarrow>
          if \<exists>m < nd_node_count n. bit a m \<and> dget (stg_proposals s) m = None
          then halts_with s ''commit_set_not_valid'' n
          else if \<exists>m \<in> witnesses n s a. \<not> bit (nd_current_sound_set n) m
          then halts_with s ''sound_set_not_subset_of_previous_set'' n
          else (n\<lparr>nd_committed_frontier := stg_round_id s,
                  nd_last_committed_sound_set := sound_set n s,
                  nd_commit_digest :=
                    extend_log_digest sha (nd_commit_digest n) (commit_of s a (nd_node_count n))\<rparr>,
                CONTINUE, sound_set n s, [commit_of s a (nd_node_count n)]))"
  by (rule evaluate_round_boundary_table)

text \<open>
  C13. When a stage has a sound set, the set holds the judging node, lies inside the agreed row, and
  has at least a majority of the physical cluster.
\<close>

theorem sound_set_guarantees:
  assumes "sound_set n s = Some c"
  shows "bit c (nd_node_id n) \<and>
    (\<exists>a. agreed_row n s = Some a \<and> c AND a = c \<and> majority (nd_node_count n) {i. bit c i})"
proof (rule sound_set_bits [OF assms])
  fix a assume a: "agreed_row n s = Some a" "\<And>i. bit c i \<longleftrightarrow> i \<in> witnesses n s a"
  from a(2) have "{i. bit c i} = witnesses n s a" by auto
  with a agreed_rowD(5,6) [OF a(1)] sound_set_self [OF assms] show ?thesis
    by (auto simp: and_eq_self_iff)
qed

theorem sound_set_guarantees_witness:
  "sound_set example_node example_stage = Some 7 \<and>
   bit (7 :: int) (nd_node_id example_node) \<and>
   (\<exists>a. agreed_row example_node example_stage = Some a \<and> 7 AND a = 7 \<and>
      majority (nd_node_count example_node) {i. bit (7 :: int) i})"
proof -
  have s: "sound_set example_node example_stage = Some 7" by code_simp
  from sound_set_guarantees [OF s] s show ?thesis by simp
qed

end
