(* ===== verification/Node_Steps.thy ===== *)
theory Node_Steps
  imports Node_Judgement
begin

text \<open>
  How the steps of a node change its state, field by field, and the local half of the cluster
  invariants: a node that takes part in a round either has a fresh pipeline or a pipeline whose
  stages belong to the two rounds before; everything in it was broadcast in those rounds.
\<close>

named_theorems node_sel \<open>fields of a node after one operation\<close>


section \<open>Fields after each operation\<close>

definition same_identity :: "node \<Rightarrow> node \<Rightarrow> bool" where
  "same_identity n n' \<longleftrightarrow>
     nd_node_id n' = nd_node_id n \<and> nd_node_count n' = nd_node_count n \<and>
     nd_payload_factory n' = nd_payload_factory n"

lemma same_identity_refl [simp]: "same_identity n n"
  by (simp add: same_identity_def)

lemma same_identity_trans: "same_identity a b \<Longrightarrow> same_identity b c \<Longrightarrow> same_identity a c"
  by (simp add: same_identity_def)

lemma same_identityD:
  "same_identity n n' \<Longrightarrow> nd_node_id n' = nd_node_id n"
  "same_identity n n' \<Longrightarrow> nd_node_count n' = nd_node_count n"
  "same_identity n n' \<Longrightarrow> nd_payload_factory n' = nd_payload_factory n"
  by (simp_all add: same_identity_def)

definition fresh_pipeline :: "node \<Rightarrow> bool" where
  "fresh_pipeline n \<longleftrightarrow>
     stg_round_id (nd_current_stage n) = -1 \<and> stg_rows (nd_current_stage n) = [] \<and>
     stg_proposals (nd_current_stage n) = [] \<and>
     stg_round_id (nd_previous_stage n) = -1 \<and> stg_rows (nd_previous_stage n) = []"

definition same_pipeline :: "node \<Rightarrow> node \<Rightarrow> bool" where
  "same_pipeline n n' \<longleftrightarrow>
     nd_current_stage n' = nd_current_stage n \<and> nd_previous_stage n' = nd_previous_stage n"

lemma reset_pipeline_sel [node_sel, simp]:
  "nd_status (reset_pipeline n) = nd_status n"
  "nd_halted_round (reset_pipeline n) = nd_halted_round n"
  "nd_membership_state (reset_pipeline n) = nd_membership_state n"
  "nd_installed_membership_epoch (reset_pipeline n) = nd_installed_membership_epoch n"
  "nd_installed_membership (reset_pipeline n) = nd_installed_membership n"
  "nd_current_sound_set (reset_pipeline n) = nd_installed_membership n"
  "nd_run_id (reset_pipeline n) = nd_run_id n"
  "nd_pending_config (reset_pipeline n) = nd_pending_config n"
  "nd_event_outbox (reset_pipeline n) = nd_event_outbox n"
  "nd_pending_update (reset_pipeline n) = nd_pending_update n"
  "nd_irq_pending (reset_pipeline n) = nd_irq_pending n"
  "nd_current_round (reset_pipeline n) = nd_current_round n"
  "nd_committed_frontier (reset_pipeline n) = nd_committed_frontier n"
  "nd_commit_digest (reset_pipeline n) = nd_commit_digest n"
  by (simp_all add: reset_pipeline_def)

lemma reset_pipeline_fresh [simp]: "fresh_pipeline (reset_pipeline n)" "same_identity n (reset_pipeline n)"
  by (simp_all add: reset_pipeline_def fresh_pipeline_def same_identity_def)

text \<open>\<open>apply_control_plane_update\<close>: what the update writes, and when the pipeline is cleared.\<close>

definition reboots :: "control_plane_update \<Rightarrow> node \<Rightarrow> bool" where
  "reboots u n \<longleftrightarrow> nd_status n \<noteq> RUNNING \<and> cpu_membership_state u \<noteq> FAILED"

definition changes_config :: "control_plane_update \<Rightarrow> node \<Rightarrow> bool" where
  "changes_config u n \<longleftrightarrow>
     nd_installed_membership_epoch n \<noteq> ic_membership_epoch (cpu_installed_config u) \<or>
     nd_installed_membership n \<noteq> ic_members_bitmap (cpu_installed_config u) \<or>
     nd_run_id n \<noteq> ic_run_id (cpu_installed_config u)"

lemma install_repair_log_sel [node_sel, simp]:
  "nd_status (install_repair_log sha es n) = nd_status n"
  "nd_halted_round (install_repair_log sha es n) = nd_halted_round n"
  "nd_membership_state (install_repair_log sha es n) = nd_membership_state n"
  "nd_installed_membership_epoch (install_repair_log sha es n) = nd_installed_membership_epoch n"
  "nd_installed_membership (install_repair_log sha es n) = nd_installed_membership n"
  "nd_current_sound_set (install_repair_log sha es n) = nd_current_sound_set n"
  "nd_run_id (install_repair_log sha es n) = nd_run_id n"
  "nd_pending_config (install_repair_log sha es n) = nd_pending_config n"
  "nd_event_outbox (install_repair_log sha es n) = nd_event_outbox n"
  "nd_pending_update (install_repair_log sha es n) = nd_pending_update n"
  "nd_irq_pending (install_repair_log sha es n) = nd_irq_pending n"
  "nd_current_round (install_repair_log sha es n) = nd_current_round n"
  "nd_current_stage (install_repair_log sha es n) = nd_current_stage n"
  "nd_previous_stage (install_repair_log sha es n) = nd_previous_stage n"
  "nd_node_id (install_repair_log sha es n) = nd_node_id n"
  "nd_node_count (install_repair_log sha es n) = nd_node_count n"
  "nd_payload_factory (install_repair_log sha es n) = nd_payload_factory n"
  by (simp_all add: install_repair_log_def)

lemma status_not_running: "s \<in> {CRASHED, HALTED} \<longleftrightarrow> s \<noteq> RUNNING"
  by (cases s) auto

lemma state_reboots: "m \<in> {RECOVERING, REJOIN_PENDING, ACTIVE} \<longleftrightarrow> m \<noteq> FAILED"
  by (cases m) auto

lemma apply_update_sel [node_sel]:
  "nd_status (apply_control_plane_update sha u n) = (if reboots u n then RUNNING else nd_status n)"
  "nd_membership_state (apply_control_plane_update sha u n) = cpu_membership_state u"
  "nd_installed_membership_epoch (apply_control_plane_update sha u n)
     = ic_membership_epoch (cpu_installed_config u)"
  "nd_installed_membership (apply_control_plane_update sha u n)
     = ic_members_bitmap (cpu_installed_config u)"
  "nd_current_sound_set (apply_control_plane_update sha u n)
     = ic_members_bitmap (cpu_installed_config u)"
  "nd_run_id (apply_control_plane_update sha u n) = ic_run_id (cpu_installed_config u)"
  "nd_pending_config (apply_control_plane_update sha u n) = cpu_pending_config u"
  "nd_event_outbox (apply_control_plane_update sha u n) = nd_event_outbox n"
  "nd_pending_update (apply_control_plane_update sha u n) = nd_pending_update n"
  "nd_irq_pending (apply_control_plane_update sha u n) = nd_irq_pending n"
  "nd_current_round (apply_control_plane_update sha u n) = nd_current_round n"
  unfolding apply_control_plane_update_def Let_def status_not_running state_reboots reboots_def
  by (simp_all split: option.split)

lemma apply_update_identity [simp]: "same_identity n (apply_control_plane_update sha u n)"
  unfolding apply_control_plane_update_def Let_def same_identity_def
  by (simp add: reset_pipeline_def split: option.split)

definition clears :: "control_plane_update \<Rightarrow> node \<Rightarrow> bool" where
  "clears u n \<longleftrightarrow>
     nd_membership_state n \<noteq> ACTIVE \<and> cpu_membership_state u = ACTIVE \<or> changes_config u n"

lemma apply_update_pipeline:
  "clears u n \<Longrightarrow> fresh_pipeline (apply_control_plane_update sha u n)"
  "\<not> clears u n \<Longrightarrow> same_pipeline n (apply_control_plane_update sha u n)"
  unfolding apply_control_plane_update_def Let_def clears_def changes_config_def
  by (auto simp: same_pipeline_def split: option.split)

text \<open>Activation and the start of a round.\<close>

definition due :: "int \<Rightarrow> node \<Rightarrow> pending_config option" where
  "due r n =
     (case nd_pending_config n of
        None \<Rightarrow> None
      | Some p \<Rightarrow> if pc_status p = COMMITTED \<and> pc_effective_round p \<le> r then Some p else None)"

lemma due_SomeD: "due r n = Some p \<Longrightarrow>
    nd_pending_config n = Some p \<and> pc_status p = COMMITTED \<and> pc_effective_round p \<le> r"
  by (auto simp: due_def split: option.splits if_splits)

definition activated :: "int \<Rightarrow> node \<Rightarrow> node" where
  "activated r n = fst (activate_pending_config_if_due r n)"

lemma activated_None: "due r n = None \<Longrightarrow> activated r n = n"
  by (auto simp: activated_def activate_pending_config_if_due_def due_def
      split: option.splits if_splits)

lemma activated_Some:
  assumes "due r n = Some p"
  shows "nd_status (activated r n) = nd_status n"
    "nd_membership_state (activated r n) = ACTIVE"
    "nd_installed_membership_epoch (activated r n) = pc_membership_epoch p"
    "nd_installed_membership (activated r n) = pc_members_bitmap p"
    "nd_current_sound_set (activated r n) = pc_members_bitmap p"
    "nd_run_id (activated r n) = pc_run_id p"
    "nd_pending_config (activated r n) = None"
    "nd_event_outbox (activated r n) = nd_event_outbox n"
    "nd_pending_update (activated r n) = nd_pending_update n"
    "nd_irq_pending (activated r n) = nd_irq_pending n"
    "nd_current_round (activated r n) = nd_current_round n"
    "fresh_pipeline (activated r n)"
    "same_identity n (activated r n)"
  using due_SomeD [OF assms]
  by (simp_all add: activated_def activate_pending_config_if_due_def not_less
      same_identity_def) (simp_all add: reset_pipeline_def)

definition pulled :: "(string \<Rightarrow> string) \<Rightarrow> node \<Rightarrow> node" where
  "pulled sha n = fst (pull_control_plane_update sha n)"

definition update_due :: "node \<Rightarrow> control_plane_update option" where
  "update_due n = (if nd_irq_pending n then nd_pending_update n else None)"

lemma pulled_None: "update_due n = None \<Longrightarrow> pulled sha n = n"
  by (auto simp: pulled_def pull_control_plane_update_def update_due_def split: option.splits if_splits)

lemma pulled_Some:
  assumes "update_due n = Some u"
  shows "nd_status (pulled sha n) = (if reboots u n then RUNNING else nd_status n)"
    "nd_membership_state (pulled sha n) = cpu_membership_state u"
    "nd_installed_membership_epoch (pulled sha n) = ic_membership_epoch (cpu_installed_config u)"
    "nd_installed_membership (pulled sha n) = ic_members_bitmap (cpu_installed_config u)"
    "nd_current_sound_set (pulled sha n) = ic_members_bitmap (cpu_installed_config u)"
    "nd_run_id (pulled sha n) = ic_run_id (cpu_installed_config u)"
    "nd_pending_config (pulled sha n) = cpu_pending_config u"
    "nd_current_round (pulled sha n) = nd_current_round n"
    "nd_pending_update (pulled sha n) = None"
    "\<not> nd_irq_pending (pulled sha n)"
    "same_identity n (pulled sha n)"
    "\<exists>acks. nd_event_outbox (pulled sha n) = nd_event_outbox n @ acks \<and>
       (\<forall>e \<in> set acks. \<exists>i p. e = PrepareAck i p)"
    "clears u n \<Longrightarrow> fresh_pipeline (pulled sha n)"
    "\<not> clears u n \<Longrightarrow> same_pipeline n (pulled sha n)"
proof -
  define m where "m = apply_control_plane_update sha u (n\<lparr>nd_pending_update := None, nd_irq_pending := False\<rparr>)"
  from assms have irq: "nd_irq_pending n" "nd_pending_update n = Some u"
    by (auto simp: update_due_def split: if_splits)
  have shape: "pulled sha n = m \<or> (\<exists>p. pulled sha n = emit_control_plane_event (PrepareAck (nd_node_id m) p) m)"
    unfolding pulled_def pull_control_plane_update_def Let_def using irq
    by (auto simp: m_def [symmetric] split: option.split)
  have m: "same_identity n m" "nd_event_outbox m = nd_event_outbox n"
    "nd_status m = (if reboots u n then RUNNING else nd_status n)"
    using apply_update_identity [of "n\<lparr>nd_pending_update := None, nd_irq_pending := False\<rparr>" sha u]
    by (simp_all add: m_def node_sel same_identity_def reboots_def)
  have pipe: "clears u n \<Longrightarrow> fresh_pipeline m" "\<not> clears u n \<Longrightarrow> same_pipeline n m"
    using apply_update_pipeline [of u "n\<lparr>nd_pending_update := None, nd_irq_pending := False\<rparr>" sha]
    unfolding m_def [symmetric] by (simp_all add: clears_def changes_config_def same_pipeline_def)
  show "nd_status (pulled sha n) = (if reboots u n then RUNNING else nd_status n)"
    "same_identity n (pulled sha n)"
    "\<exists>acks. nd_event_outbox (pulled sha n) = nd_event_outbox n @ acks \<and>
       (\<forall>e \<in> set acks. \<exists>i p. e = PrepareAck i p)"
    "clears u n \<Longrightarrow> fresh_pipeline (pulled sha n)"
    "\<not> clears u n \<Longrightarrow> same_pipeline n (pulled sha n)"
    using shape m pipe
    by (auto simp: emit_control_plane_event_def same_identity_def fresh_pipeline_def same_pipeline_def)
  show "nd_membership_state (pulled sha n) = cpu_membership_state u"
    "nd_installed_membership_epoch (pulled sha n) = ic_membership_epoch (cpu_installed_config u)"
    "nd_installed_membership (pulled sha n) = ic_members_bitmap (cpu_installed_config u)"
    "nd_current_sound_set (pulled sha n) = ic_members_bitmap (cpu_installed_config u)"
    "nd_run_id (pulled sha n) = ic_run_id (cpu_installed_config u)"
    "nd_pending_config (pulled sha n) = cpu_pending_config u"
    "nd_current_round (pulled sha n) = nd_current_round n"
    "nd_pending_update (pulled sha n) = None"
    "\<not> nd_irq_pending (pulled sha n)"
    using shape by (auto simp: emit_control_plane_event_def m_def node_sel)
qed

lemma begin_round_eq: "begin_round sha r n = pulled sha (activated r n)"
  by (simp add: begin_round_def pulled_def activated_def)

lemma evaluate_sel [node_sel]:
  fixes sha s n
  defines "e \<equiv> evaluate_round_boundary sha (Some s) n"
  shows "nd_current_stage (fst e) = nd_current_stage n"
    "nd_previous_stage (fst e) = nd_previous_stage n"
    "nd_run_id (fst e) = nd_run_id n"
    "nd_installed_membership_epoch (fst e) = nd_installed_membership_epoch n"
    "nd_installed_membership (fst e) = nd_installed_membership n"
    "nd_membership_state (fst e) = nd_membership_state n"
    "nd_current_sound_set (fst e) = nd_current_sound_set n"
    "nd_pending_config (fst e) = nd_pending_config n"
    "nd_pending_update (fst e) = nd_pending_update n"
    "nd_irq_pending (fst e) = nd_irq_pending n"
    "nd_current_round (fst e) = nd_current_round n"
    "nd_node_id (fst e) = nd_node_id n"
    "nd_node_count (fst e) = nd_node_count n"
    "nd_payload_factory (fst e) = nd_payload_factory n"
  unfolding e_def evaluate_round_boundary_table
  by (simp_all add: halts_with_def enter_halt_state_def emit_control_plane_event_def Let_def
      split: option.split)

text \<open>The decision and what goes with it.\<close>

lemma evaluate_outcome:
  assumes "evaluate_round_boundary sha (Some s) n = (n', d, sound, commits)"
  shows "(d = HALT \<and> nd_status n' = HALTED \<and> sound = None \<and> commits = [] \<and>
          (\<exists>hr. nd_event_outbox n' = nd_event_outbox n @ [NodeHalted (nd_node_id n) hr])) \<or>
         (d = SKIP \<and> n' = n \<and> sound = None \<and> commits = [] \<and> stg_round_id s < 0) \<or>
         (d = CONTINUE \<and> nd_status n' = nd_status n \<and> nd_event_outbox n' = nd_event_outbox n \<and>
          (\<exists>a. agreed_row n s = Some a \<and> 0 \<le> stg_round_id s \<and>
             (\<forall>m < nd_node_count n. bit a m \<longrightarrow> dget (stg_proposals s) m \<noteq> None) \<and>
             (\<forall>m \<in> witnesses n s a. bit (nd_current_sound_set n) m) \<and>
             sound = sound_set n s \<and> commits = [commit_of s a (nd_node_count n)]))"
  using assms unfolding evaluate_round_boundary_table
  by (auto simp: halts_with_def enter_halt_state_def emit_control_plane_event_def Let_def
      split: option.splits if_splits)

text \<open>After the boundary: two shifted stages, one packet unless the node halted.\<close>

definition boundary :: "(string \<Rightarrow> string) \<Rightarrow> node \<Rightarrow> node \<times> boundary_result" where
  "boundary sha n =
     evaluate_round_boundary sha (Some (nd_previous_stage n))
       (n\<lparr>nd_previous_stage := nd_current_stage n\<rparr>)"

definition filed_stage :: "node \<Rightarrow> round_stage" where
  "filed_stage n =
     (nd_current_stage n)\<lparr>stg_rows := dset (stg_rows (nd_current_stage n)) (nd_node_id n)
                                        (stg_row (nd_current_stage n))\<rparr>"

definition own_packet :: "int \<Rightarrow> node \<Rightarrow> packet" where
  "own_packet r n =
     \<lparr>pkt_round_id = r, pkt_src_id = nd_node_id n, pkt_run_id = nd_run_id n,
      pkt_row = stg_row (nd_current_stage n),
      pkt_payload = nd_payload_factory n (nd_node_id n) r\<rparr>"

lemma run_boundary_result:
  assumes "boundary sha n = (n2, d, sound, commits)"
  shows "nrr_new_commits (snd (run_boundary sha r n)) = commits"
    "nrr_outbound (snd (run_boundary sha r n)) =
       (if d = HALT then None
        else Some \<lparr>ob_packet = own_packet r n, ob_destinations = default_destinations n\<rparr>)"
    "nd_status (fst (run_boundary sha r n)) = nd_status n2"
    "nd_event_outbox (fst (run_boundary sha r n)) = nd_event_outbox n2"
    "nd_current_sound_set (fst (run_boundary sha r n))
       = (case sound of None \<Rightarrow> nd_current_sound_set n | Some s \<Rightarrow> s)"
  using assms evaluate_sel [of sha "nd_previous_stage n" "n\<lparr>nd_previous_stage := nd_current_stage n\<rparr>"]
  unfolding boundary_def run_boundary_def Let_def
  by (simp_all add: own_packet_def default_destinations_def new_current_stage_def dget_def
      split: option.split)

lemma run_boundary_sel [node_sel]:
  "nd_previous_stage (fst (run_boundary sha r n)) = filed_stage n"
  "nd_current_stage (fst (run_boundary sha r n)) = new_current_stage r n"
  "nd_run_id (fst (run_boundary sha r n)) = nd_run_id n"
  "nd_installed_membership_epoch (fst (run_boundary sha r n)) = nd_installed_membership_epoch n"
  "nd_installed_membership (fst (run_boundary sha r n)) = nd_installed_membership n"
  "nd_membership_state (fst (run_boundary sha r n)) = nd_membership_state n"
  "nd_pending_config (fst (run_boundary sha r n)) = nd_pending_config n"
  "nd_pending_update (fst (run_boundary sha r n)) = nd_pending_update n"
  "nd_irq_pending (fst (run_boundary sha r n)) = nd_irq_pending n"
  "nd_current_round (fst (run_boundary sha r n)) = nd_current_round n"
  "same_identity n (fst (run_boundary sha r n))"
  using evaluate_sel [of sha "nd_previous_stage n" "n\<lparr>nd_previous_stage := nd_current_stage n\<rparr>"]
  unfolding run_boundary_def Let_def
  by (auto simp: filed_stage_def new_current_stage_def same_identity_def split: prod.split option.split)

end
