(* ===== verification/Node_Invariants.thy ===== *)
theory Node_Invariants
  imports Node_Steps
begin

text \<open>
  The node-local invariants of a run and their preservation by every operation: pushing and
  applying updates, crashing, advancing, receiving. \<open>pipe_ok\<close> ties the two pipeline slots of a
  participating node to the rounds before and to what was broadcast in the last one;
  \<open>excluded_ok\<close> and \<open>stopped_ok\<close> say that a node which does not participate cannot come back
  with a stale pipeline; \<open>config_tied\<close> keeps epochs and run ids together.
\<close>


section \<open>Definitions\<close>

lemma participates_iff:
  "participates n \<longleftrightarrow>
     nd_status n = RUNNING \<and> nd_membership_state n = ACTIVE \<and> bit (nd_current_sound_set n) (nd_node_id n)"
  by (simp add: participates_def)

text \<open>A round's broadcast: which run id and which row each node put into its packet.\<close>

type_synonym broadcast = "nat \<Rightarrow> (int \<times> int) option"

definition proposals_from :: "(nat \<Rightarrow> int \<Rightarrow> string) \<Rightarrow> int \<Rightarrow> round_stage \<Rightarrow> bool" where
  "proposals_from pf r s \<longleftrightarrow> (\<forall>m p. dget (stg_proposals s) m = Some p \<longrightarrow> p = pf m r)"

definition pipe_ok :: "int \<Rightarrow> broadcast \<Rightarrow> node \<Rightarrow> bool" where
  "pipe_ok r bc n \<longleftrightarrow>
     stg_round_id (nd_current_stage n) = r \<and>
     stg_rows (nd_current_stage n) = [] \<and>
     stg_membership_epoch (nd_current_stage n) = nd_installed_membership_epoch n \<and>
     proposals_from (nd_payload_factory n) r (nd_current_stage n) \<and>
     (stg_round_id (nd_previous_stage n) = -1 \<or>
      stg_round_id (nd_previous_stage n) = r - 1 \<and>
      stg_membership_epoch (nd_previous_stage n) = nd_installed_membership_epoch n \<and>
      proposals_from (nd_payload_factory n) (r - 1) (nd_previous_stage n)) \<and>
     (\<forall>m x. dget (stg_rows (nd_previous_stage n)) m = Some x \<longrightarrow> bc m = Some (nd_run_id n, x))"

definition ready :: "int \<Rightarrow> broadcast \<Rightarrow> node \<Rightarrow> bool" where
  "ready r bc n \<longleftrightarrow> fresh_pipeline n \<or> pipe_ok (r - 1) bc n"

definition excluded_ok :: "node \<Rightarrow> bool" where
  "excluded_ok n \<longleftrightarrow>
     (nd_status n = RUNNING \<and> nd_membership_state n = ACTIVE \<and>
      \<not> bit (nd_current_sound_set n) (nd_node_id n) \<longrightarrow>
      nd_current_sound_set n = nd_installed_membership n)"

definition stopped_ok :: "node \<Rightarrow> bool" where
  "stopped_ok n \<longleftrightarrow>
     (nd_status n \<noteq> RUNNING \<and> nd_membership_state n = ACTIVE \<longrightarrow>
      (\<forall>u. update_due n = Some u \<and> cpu_membership_state u = ACTIVE \<longrightarrow> changes_config u n))"

definition config_tied :: "pending_config option \<Rightarrow> bool" where
  "config_tied p \<longleftrightarrow> (case p of None \<Rightarrow> True | Some c \<Rightarrow> pc_membership_epoch c = pc_run_id c)"

definition update_tied :: "control_plane_update \<Rightarrow> bool" where
  "update_tied u \<longleftrightarrow>
     ic_membership_epoch (cpu_installed_config u) = ic_run_id (cpu_installed_config u) \<and>
     config_tied (cpu_pending_config u)"

definition node_tied :: "node \<Rightarrow> bool" where
  "node_tied n \<longleftrightarrow>
     nd_installed_membership_epoch n = nd_run_id n \<and> config_tied (nd_pending_config n) \<and>
     (\<forall>u. nd_pending_update n = Some u \<longrightarrow> update_tied u)"


section \<open>The start of a round\<close>

lemma begin_round_cases:
  obtains (idle) "begin_round sha r n = n" "due r n = None" "update_due n = None"
  | (activated) p where "due r n = Some p" "begin_round sha r n = activated r n" "update_due n = None"
  | (updated) u where "update_due n = Some u" "due r n = None" "begin_round sha r n = pulled sha n"
  | (both) p u where "due r n = Some p" "update_due n = Some u" "update_due (activated r n) = Some u"
      "begin_round sha r n = pulled sha (activated r n)"
proof (cases "due r n")
  case None
  then show thesis
    using idle updated pulled_None [of n sha]
    by (cases "update_due n") (simp_all add: begin_round_eq activated_None)
next
  case (Some p)
  have same: "update_due (activated r n) = update_due n"
    using activated_Some [OF Some] by (simp add: update_due_def)
  show thesis
  proof (cases "update_due n")
    case None
    show thesis
      by (rule activated [OF Some _ None])
        (simp add: begin_round_eq pulled_None same None)
  next
    case (Some u)
    with \<open>due r n = Some p\<close> same show thesis by (intro both) (simp_all add: begin_round_eq)
  qed
qed

lemma begin_round_identity [simp]: "same_identity n (begin_round sha r n)"
  by (cases rule: begin_round_cases [of sha r n])
    (auto intro: activated_Some(13) pulled_Some(11) same_identity_trans)

lemma fresh_same_pipeline: "fresh_pipeline n \<Longrightarrow> same_pipeline n n' \<Longrightarrow> fresh_pipeline n'"
  by (simp add: fresh_pipeline_def same_pipeline_def)

lemma pulled_fresh: "fresh_pipeline n \<Longrightarrow> fresh_pipeline (pulled sha n)"
proof (cases "update_due n")
  case (Some u)
  assume "fresh_pipeline n"
  with pulled_Some(13,14) [OF Some, of sha] show ?thesis by (cases "clears u n") (auto intro: fresh_same_pipeline)
qed (simp add: pulled_None)

text \<open>
  The key local fact: a node that participates after the start of a round either has a cleared
  pipeline or participated before with the same pipeline and configuration.
\<close>

lemma begin_round_participates:
  assumes part: "participates (begin_round sha r n)" and "excluded_ok n" "stopped_ok n"
  shows "fresh_pipeline (begin_round sha r n) \<or>
    (participates n \<and> same_pipeline n (begin_round sha r n) \<and>
     nd_run_id (begin_round sha r n) = nd_run_id n \<and>
     nd_installed_membership_epoch (begin_round sha r n) = nd_installed_membership_epoch n)"
proof (cases rule: begin_round_cases [of sha r n])
  case idle
  with part show ?thesis by (simp add: same_pipeline_def)
next
  case (activated p)
  then show ?thesis using activated_Some(12) by simp
next
  case (both p u)
  then show ?thesis using activated_Some(12) pulled_fresh by simp
next
  case (updated u)
  let ?m = "begin_round sha r n"
  note sel = pulled_Some [OF updated(1), of sha, folded updated(3)]
  show ?thesis
  proof (cases "clears u n")
    case True
    with sel(13) show ?thesis by simp
  next
    case False
    from part sel have act: "cpu_membership_state u = ACTIVE" by (simp add: participates_iff)
    with False have keep: "nd_membership_state n = ACTIVE" "\<not> changes_config u n"
      by (auto simp: clears_def)
    have run: "nd_status n = RUNNING"
      using \<open>stopped_ok n\<close> updated(1) act keep by (auto simp: stopped_ok_def)
    have id: "nd_node_id ?m = nd_node_id n" using begin_round_identity by (rule same_identityD)
    have "bit (nd_installed_membership n) (nd_node_id n)"
      using part sel(5) keep(2) id by (simp add: participates_iff changes_config_def)
    then have "participates n"
      using \<open>excluded_ok n\<close> run keep(1) by (auto simp: participates_iff excluded_ok_def)
    with sel keep(2) False show ?thesis by (simp add: changes_config_def)
  qed
qed

lemma begin_round_excluded_ok: "excluded_ok n \<Longrightarrow> excluded_ok (begin_round sha r n)"
  by (cases rule: begin_round_cases [of sha r n])
    (auto simp: excluded_ok_def activated_Some pulled_Some)

lemma begin_round_tied:
  assumes "node_tied n"
  shows "node_tied (begin_round sha r n)"
proof (cases rule: begin_round_cases [of sha r n])
  case idle
  with assms show ?thesis by simp
next
  case (activated p)
  with assms due_SomeD [OF activated(1)] show ?thesis
    by (auto simp: node_tied_def activated_Some config_tied_def)
next
  case (updated u)
  with assms show ?thesis
    by (auto simp: node_tied_def pulled_Some update_tied_def update_due_def split: if_splits)
next
  case (both p u)
  with assms show ?thesis
    by (auto simp: node_tied_def pulled_Some update_tied_def update_due_def split: if_splits)
qed

lemma ready_begin_round:
  assumes part: "participates (begin_round sha r n)" and "excluded_ok n" "stopped_ok n"
    and ok: "participates n \<Longrightarrow> ready r bc n"
  shows "ready r bc (begin_round sha r n)"
  using begin_round_participates [OF assms(1-3)]
proof
  assume *: "participates n \<and> same_pipeline n (begin_round sha r n) \<and>
     nd_run_id (begin_round sha r n) = nd_run_id n \<and>
     nd_installed_membership_epoch (begin_round sha r n) = nd_installed_membership_epoch n"
  with ok have "ready r bc n" by simp
  with * same_identityD [OF begin_round_identity, of sha r n] show ?thesis
    by (auto simp: ready_def pipe_ok_def same_pipeline_def fresh_pipeline_def)
qed (simp add: ready_def)


section \<open>The boundary\<close>

text \<open>The one value a round can commit, given the row a majority repeated.\<close>

definition canonical_commit ::
  "(nat \<Rightarrow> int \<Rightarrow> string) \<Rightarrow> nat \<Rightarrow> int \<Rightarrow> int \<Rightarrow> int \<Rightarrow> committed_round" where
  "canonical_commit pf n rnd epoch a =
     \<lparr>cr_round = rnd, cr_membership_epoch = epoch, cr_commit_set = a,
      cr_proposals = map (\<lambda>m. (m, pf m rnd)) (bitmap_members a n)\<rparr>"

definition backed :: "nat \<Rightarrow> broadcast \<Rightarrow> int \<Rightarrow> int \<Rightarrow> bool" where
  "backed n bc run a \<longleftrightarrow> (\<exists>Q. majority n Q \<and> (\<forall>m \<in> Q. bc m = Some (run, a) \<and> bit a m))"

lemma backed_unique: "backed n bc run a \<Longrightarrow> backed n bc run' a' \<Longrightarrow> run = run' \<and> a = a'"
  unfolding backed_def using physical.backed_value_unique [where vote = bc] by blast

lemma backed_majority: "backed n bc run a \<Longrightarrow> \<exists>Q. majority n Q \<and> Q \<subseteq> bit_set a"
  unfolding backed_def by (force simp: bit_set_def)

lemma boundary_obtain:
  obtains n2 d sound commits where "boundary sha n = (n2, d, sound, commits)"
  by (cases "boundary sha n") auto

lemma run_boundary_commit:
  assumes c: "c \<in> set (nrr_new_commits (snd (run_boundary sha r n)))"
    and ready: "ready r bc n" and tied: "node_tied n"
  shows "\<exists>a. backed (nd_node_count n) bc (nd_run_id n) a \<and> 2 \<le> r \<and>
    c = canonical_commit (nd_payload_factory n) (nd_node_count n) (r - 2) (nd_run_id n) a"
proof -
  let ?s = "nd_previous_stage n" and ?m = "n\<lparr>nd_previous_stage := nd_current_stage n\<rparr>"
  obtain n2 d sound commits where b: "boundary sha n = (n2, d, sound, commits)" by (rule boundary_obtain)
  with c have "c \<in> set commits" by (simp add: run_boundary_result)
  with evaluate_outcome [OF b [unfolded boundary_def]] obtain a where
    a: "agreed_row ?m ?s = Some a" "0 \<le> stg_round_id ?s"
      "\<forall>m < nd_node_count n. bit a m \<longrightarrow> dget (stg_proposals ?s) m \<noteq> None"
      "c = commit_of ?s a (nd_node_count n)" by auto
  from a(2) ready have pipe: "pipe_ok (r - 1) bc n" by (auto simp: ready_def fresh_pipeline_def)
  with a(2) have s: "stg_round_id ?s = r - 2" "proposals_from (nd_payload_factory n) (r - 2) ?s"
    "stg_membership_epoch ?s = nd_run_id n"
    "\<And>m x. dget (stg_rows ?s) m = Some x \<Longrightarrow> bc m = Some (nd_run_id n, x)"
    using tied by (auto simp: pipe_ok_def node_tied_def)
  have "majority (nd_node_count n) (witnesses ?m ?s a)"
    "\<forall>m \<in> witnesses ?m ?s a. bc m = Some (nd_run_id n, a) \<and> bit a m"
    using agreed_rowD(5,6) [OF a(1)] s(4) by auto
  then have "backed (nd_node_count n) bc (nd_run_id n) a" by (auto simp: backed_def)
  moreover have "proposals_of ?s (bitmap_members a (nd_node_count n))
      = map (\<lambda>m. (m, nd_payload_factory n m (r - 2))) (bitmap_members a (nd_node_count n))"
    using a(3) s(2) by (auto simp: proposals_of_def proposals_from_def)
  ultimately show ?thesis using a(2,4) s(1,3)
    by (auto simp: canonical_commit_def commit_of_def)
qed

lemma run_boundary_pipe:
  assumes ready: "ready r bc n" and bc': "bc' (nd_node_id n) = Some (nd_run_id n, stg_row (nd_current_stage n))"
  shows "pipe_ok r bc' (fst (run_boundary sha r n))"
proof -
  let ?n' = "fst (run_boundary sha r n)"
  have id: "nd_payload_factory ?n' = nd_payload_factory n"
    using run_boundary_sel(11) by (rule same_identityD)
  have cur: "stg_rows (nd_current_stage n) = []"
    "stg_round_id (nd_current_stage n) = -1 \<or>
     stg_round_id (nd_current_stage n) = r - 1 \<and>
     stg_membership_epoch (nd_current_stage n) = nd_installed_membership_epoch n \<and>
     proposals_from (nd_payload_factory n) (r - 1) (nd_current_stage n)"
    using ready by (auto simp: ready_def fresh_pipeline_def pipe_ok_def)
  show ?thesis
    using cur bc'
    by (auto simp: pipe_ok_def run_boundary_sel id new_current_stage_def filed_stage_def
        proposals_from_def dget_def dset_def split: if_splits)
qed

lemma run_boundary_participates:
  assumes "participates n"
  shows "participates (fst (run_boundary sha r n)) \<longleftrightarrow> nrr_outbound (snd (run_boundary sha r n)) \<noteq> None"
    and "nd_status (fst (run_boundary sha r n)) = RUNNING \<Longrightarrow> participates (fst (run_boundary sha r n))"
    and "nd_status (fst (run_boundary sha r n)) \<noteq> RUNNING \<Longrightarrow>
      \<exists>hr. NodeHalted (nd_node_id n) hr \<in> set (nd_event_outbox (fst (run_boundary sha r n)))"
    and "\<exists>es. nd_event_outbox (fst (run_boundary sha r n)) = nd_event_outbox n @ es"
proof -
  let ?n' = "fst (run_boundary sha r n)"
  let ?m = "n\<lparr>nd_previous_stage := nd_current_stage n\<rparr>"
  obtain n2 d sound commits where b: "boundary sha n = (n2, d, sound, commits)" by (rule boundary_obtain)
  note res = run_boundary_result [OF b, of r]
  note out = evaluate_outcome [OF b [unfolded boundary_def]]
  have id: "nd_node_id ?n' = nd_node_id n" using run_boundary_sel(11) by (rule same_identityD)
  have self: "sound = Some c \<Longrightarrow> bit c (nd_node_id n)" for c
    using out sound_set_self [of ?m "nd_previous_stage n" c] by auto
  have run: "nd_status n2 = RUNNING" if "d \<noteq> HALT" using out that assms by (auto simp: participates_iff)
  have "participates ?n'" if "d \<noteq> HALT"
    using assms that run self id res
    by (cases sound) (simp_all add: participates_iff run_boundary_sel)
  moreover have "\<not> participates ?n'" "nd_status ?n' \<noteq> RUNNING" if "d = HALT"
    using out that res by (auto simp: participates_iff)
  ultimately show "participates ?n' \<longleftrightarrow> nrr_outbound (snd (run_boundary sha r n)) \<noteq> None"
    and "nd_status ?n' = RUNNING \<Longrightarrow> participates ?n'"
    using res by auto
  show "\<exists>hr. NodeHalted (nd_node_id n) hr \<in> set (nd_event_outbox ?n')" if "nd_status ?n' \<noteq> RUNNING"
    using that out run res by auto
  show "\<exists>es. nd_event_outbox ?n' = nd_event_outbox n @ es"
    using out res by auto
qed


section \<open>A whole round of one node\<close>

text \<open>What the rest of the cluster learns from \<open>advance_round\<close>.\<close>

lemma advance_round_shape:
  obtains (crashed_now) "nd_status n = CRASHED" "nd_halted_round n = Some r"
      "advance_round sha r n = (n\<lparr>nd_current_round := r\<rparr>, idle_result)"
  | (idle) "\<not> (nd_status n = CRASHED \<and> nd_halted_round n = Some r)"
      "\<not> participates (begin_round sha r (n\<lparr>nd_current_round := r\<rparr>))"
      "advance_round sha r n = (begin_round sha r (n\<lparr>nd_current_round := r\<rparr>), idle_result)"
  | (active) "\<not> (nd_status n = CRASHED \<and> nd_halted_round n = Some r)"
      "participates (begin_round sha r (n\<lparr>nd_current_round := r\<rparr>))"
      "advance_round sha r n = run_boundary sha r (begin_round sha r (n\<lparr>nd_current_round := r\<rparr>))"
proof (cases "nd_status n = CRASHED \<and> nd_halted_round n = Some r")
  case True
  then show thesis using crashed_now by (simp add: advance_round_def Let_def)
next
  case False
  then show thesis
    using idle active
    by (cases "participates (begin_round sha r (n\<lparr>nd_current_round := r\<rparr>))")
      (auto simp: advance_round_def Let_def)
qed

lemma set_round_sel [simp]:
  "same_identity n (n\<lparr>nd_current_round := r\<rparr>)"
  "participates (n\<lparr>nd_current_round := r\<rparr>) = participates n"
  "excluded_ok (n\<lparr>nd_current_round := r\<rparr>) = excluded_ok n"
  "update_due (n\<lparr>nd_current_round := r\<rparr>) = update_due n"
  "due k (n\<lparr>nd_current_round := r\<rparr>) = due k n"
  "stopped_ok (n\<lparr>nd_current_round := r\<rparr>) = stopped_ok n"
  "ready k bc (n\<lparr>nd_current_round := r\<rparr>) = ready k bc n"
  "pipe_ok k bc (n\<lparr>nd_current_round := r\<rparr>) = pipe_ok k bc n"
  "node_tied (n\<lparr>nd_current_round := r\<rparr>) = node_tied n"
  by (simp_all add: same_identity_def participates_def excluded_ok_def update_due_def due_def
      stopped_ok_def changes_config_def ready_def pipe_ok_def fresh_pipeline_def node_tied_def
      cong: option.case_cong)

lemma advance_round_identity [simp]: "same_identity n (fst (advance_round sha r n))"
proof (cases rule: advance_round_shape [of n r sha])
  case idle
  have "same_identity n (begin_round sha r (n\<lparr>nd_current_round := r\<rparr>))"
    by (rule same_identity_trans [of _ "n\<lparr>nd_current_round := r\<rparr>"]) simp_all
  with idle show ?thesis by simp
next
  case active
  have "same_identity n (begin_round sha r (n\<lparr>nd_current_round := r\<rparr>))"
    by (rule same_identity_trans [of _ "n\<lparr>nd_current_round := r\<rparr>"]) simp_all
  with active run_boundary_sel(11) show ?thesis by (auto intro: same_identity_trans)
qed simp

lemma begin_round_current_round [simp]: "nd_current_round (begin_round sha r n) = nd_current_round n"
  by (cases rule: begin_round_cases [of sha r n]) (simp_all add: activated_Some pulled_Some)

lemma advance_round_current_round [simp]: "nd_current_round (fst (advance_round sha r n)) = r"
  by (cases rule: advance_round_shape [of n r sha]) (simp_all add: run_boundary_sel)

lemma advance_round_excluded_ok:
  assumes "excluded_ok n"
  shows "excluded_ok (fst (advance_round sha r n))"
proof (cases rule: advance_round_shape [of n r sha])
  case active
  with run_boundary_participates(2) [OF active(2), of sha r] show ?thesis
    by (auto simp: excluded_ok_def participates_iff)
qed (use assms begin_round_excluded_ok [of "n\<lparr>nd_current_round := r\<rparr>"] in simp_all)

lemma advance_round_tied:
  assumes "node_tied n"
  shows "node_tied (fst (advance_round sha r n))"
proof (cases rule: advance_round_shape [of n r sha])
  case active
  have "node_tied (begin_round sha r (n\<lparr>nd_current_round := r\<rparr>))"
    using assms by (intro begin_round_tied) simp
  with active show ?thesis by (simp add: node_tied_def run_boundary_sel)
qed (use assms begin_round_tied [of "n\<lparr>nd_current_round := r\<rparr>"] in simp_all)

lemma advance_round_commit:
  assumes "c \<in> set (nrr_new_commits (snd (advance_round sha r n)))"
    and ok: "excluded_ok n" "stopped_ok n" "node_tied n" "participates n \<Longrightarrow> ready r bc n"
  shows "\<exists>run a. backed (nd_node_count n) bc run a \<and> 2 \<le> r \<and>
    c = canonical_commit (nd_payload_factory n) (nd_node_count n) (r - 2) run a"
proof (cases rule: advance_round_shape [of n r sha])
  case active
  let ?m = "begin_round sha r (n\<lparr>nd_current_round := r\<rparr>)"
  have id: "nd_payload_factory ?m = nd_payload_factory n" "nd_node_count ?m = nd_node_count n"
    using same_identityD [OF begin_round_identity, of sha r "n\<lparr>nd_current_round := r\<rparr>"] by simp_all
  have "ready r bc ?m" "node_tied ?m"
    using active(2) ok by (auto intro!: ready_begin_round begin_round_tied)
  with run_boundary_commit [of c sha r ?m bc] active(3) assms(1) id show ?thesis by auto
qed (use assms(1) in \<open>simp_all add: idle_result_def\<close>)

lemma advance_round_sends_iff:
  assumes "nd_status n = CRASHED \<and> nd_halted_round n = Some r \<longrightarrow> \<not> participates n"
  shows "participates (fst (advance_round sha r n)) \<longleftrightarrow> nrr_outbound (snd (advance_round sha r n)) \<noteq> None"
proof (cases rule: advance_round_shape [of n r sha])
  case active
  with run_boundary_participates(1) show ?thesis by simp
qed (use assms in \<open>simp_all add: idle_result_def\<close>)

lemma advance_round_participates:
  "participates (fst (advance_round sha r n)) \<longleftrightarrow> nrr_outbound (snd (advance_round sha r n)) \<noteq> None"
  by (rule advance_round_sends_iff) (simp add: participates_iff)

lemma run_boundary_outbound:
  assumes "nrr_outbound (snd (run_boundary sha r n)) = Some ob"
  shows "ob = \<lparr>ob_packet = own_packet r n, ob_destinations = default_destinations n\<rparr>"
proof -
  obtain n2 d sound commits where b: "boundary sha n = (n2, d, sound, commits)" by (rule boundary_obtain)
  with assms show ?thesis by (simp add: run_boundary_result split: if_splits)
qed

lemma advance_round_outbound:
  assumes "nrr_outbound (snd (advance_round sha r n)) = Some ob"
  defines "n' \<equiv> fst (advance_round sha r n)"
  shows "ob_packet ob = \<lparr>pkt_round_id = r, pkt_src_id = nd_node_id n, pkt_run_id = nd_run_id n',
      pkt_row = stg_row (nd_previous_stage n'),
      pkt_payload = nd_payload_factory n (nd_node_id n) r\<rparr>"
    and "set (ob_destinations ob) \<subseteq> {..<nd_node_count n} - {nd_node_id n}"
proof -
  from assms(1) have active: "participates (begin_round sha r (n\<lparr>nd_current_round := r\<rparr>))"
    "advance_round sha r n = run_boundary sha r (begin_round sha r (n\<lparr>nd_current_round := r\<rparr>))"
    by (cases rule: advance_round_shape [of n r sha]; simp add: idle_result_def)+
  let ?m = "begin_round sha r (n\<lparr>nd_current_round := r\<rparr>)"
  have id: "nd_payload_factory ?m = nd_payload_factory n" "nd_node_count ?m = nd_node_count n"
    "nd_node_id ?m = nd_node_id n"
    using same_identityD [OF begin_round_identity, of sha r "n\<lparr>nd_current_round := r\<rparr>"] by simp_all
  from assms(1) active have ob: "ob = \<lparr>ob_packet = own_packet r ?m, ob_destinations = default_destinations ?m\<rparr>"
    using run_boundary_outbound by simp
  show "ob_packet ob = \<lparr>pkt_round_id = r, pkt_src_id = nd_node_id n, pkt_run_id = nd_run_id n',
      pkt_row = stg_row (nd_previous_stage n'),
      pkt_payload = nd_payload_factory n (nd_node_id n) r\<rparr>"
    using active id by (simp add: ob own_packet_def n'_def run_boundary_sel filed_stage_def)
  show "set (ob_destinations ob) \<subseteq> {..<nd_node_count n} - {nd_node_id n}"
    using id by (auto simp: ob default_destinations_def)
qed

lemma advance_round_pipe:
  assumes part: "participates (fst (advance_round sha r n))"
    and ok: "excluded_ok n" "stopped_ok n" "participates n \<Longrightarrow> ready r bc n"
    and bc': "bc' (nd_node_id n) = Some (nd_run_id (fst (advance_round sha r n)),
        stg_row (nd_previous_stage (fst (advance_round sha r n))))"
  shows "pipe_ok r bc' (fst (advance_round sha r n))"
proof (cases rule: advance_round_shape [of n r sha])
  case crashed_now
  with part show ?thesis by (simp add: participates_iff)
next
  case idle
  with part show ?thesis by simp
next
  case active
  let ?m = "begin_round sha r (n\<lparr>nd_current_round := r\<rparr>)"
  have id: "nd_node_id ?m = nd_node_id n"
    using same_identityD [OF begin_round_identity, of sha r "n\<lparr>nd_current_round := r\<rparr>"] by simp
  have "ready r bc ?m" using active(2) ok by (auto intro!: ready_begin_round)
  with active bc' id show ?thesis
    by (auto intro!: run_boundary_pipe simp: run_boundary_sel filed_stage_def)
qed

text \<open>A node is stopped afterwards because it halted now, or was stopped and not rebooted.\<close>

lemma advance_round_stopped:
  assumes "nd_status (fst (advance_round sha r n)) \<noteq> RUNNING"
  shows "(\<exists>hr. NodeHalted (nd_node_id n) hr \<in> set (nd_event_outbox (fst (advance_round sha r n)))) \<or>
    (nd_status n \<noteq> RUNNING \<and>
     (nd_status n = CRASHED \<and> nd_halted_round n = Some r \<or>
      (\<forall>u. update_due n = Some u \<longrightarrow> cpu_membership_state u = FAILED)))"
proof (cases rule: advance_round_shape [of n r sha])
  case crashed_now
  then show ?thesis by simp
next
  case idle
  let ?n0 = "n\<lparr>nd_current_round := r\<rparr>"
  from assms idle have stop: "nd_status (begin_round sha r ?n0) \<noteq> RUNNING" by simp
  have "nd_status n \<noteq> RUNNING \<and> (\<forall>u. update_due n = Some u \<longrightarrow> cpu_membership_state u = FAILED)"
  proof (cases rule: begin_round_cases [of sha r ?n0])
    case (both p u)
    with stop have "nd_status (pulled sha (activated r ?n0)) \<noteq> RUNNING" by simp
    with pulled_Some(1) [OF both(3), of sha] activated_Some(1) [OF both(1)] both(2)
    show ?thesis by (auto simp: reboots_def split: if_splits)
  next
    case (updated u)
    with stop pulled_Some(1) [OF updated(1), of sha] show ?thesis
      by (auto simp: reboots_def split: if_splits)
  next
    case (activated p)
    with stop show ?thesis by (simp add: activated_Some)
  qed (use stop in simp)
  then show ?thesis by simp
next
  case active
  have "nd_node_id (begin_round sha r (n\<lparr>nd_current_round := r\<rparr>)) = nd_node_id n"
    using same_identityD [OF begin_round_identity, of sha r "n\<lparr>nd_current_round := r\<rparr>"] by simp
  with active assms run_boundary_participates(3) [OF active(2), of sha r] show ?thesis by simp
qed

lemma begin_round_outbox: "\<exists>es. nd_event_outbox (begin_round sha r n) = nd_event_outbox n @ es"
proof (cases rule: begin_round_cases [of sha r n])
  case (both p u)
  with pulled_Some(12) [OF both(3), of sha] activated_Some(8) [OF both(1)] show ?thesis by auto
next
  case (updated u)
  with pulled_Some(12) [OF updated(1), of sha] show ?thesis by auto
qed (simp_all add: activated_Some)

lemma advance_round_outbox: "\<exists>es. nd_event_outbox (fst (advance_round sha r n)) = nd_event_outbox n @ es"
proof (cases rule: advance_round_shape [of n r sha])
  case idle
  with begin_round_outbox [of sha r "n\<lparr>nd_current_round := r\<rparr>"] show ?thesis by simp
next
  case active
  with begin_round_outbox [of sha r "n\<lparr>nd_current_round := r\<rparr>"]
    run_boundary_participates(4) [OF active(2), of sha r] show ?thesis by auto
qed simp


section \<open>Tracking the control plane\<close>

text \<open>
  A node never runs ahead of the control plane: its run id, and the run id of any committed
  pending configuration it holds, is at most the installed one (\<open>R\<close>), unless the pending
  configuration is the one the control plane itself is about to activate (\<open>F\<close>).
\<close>

definition known_config :: "int \<Rightarrow> pending_config option \<Rightarrow> int \<Rightarrow> pending_config option \<Rightarrow> bool" where
  "known_config R F run p \<longleftrightarrow>
     run \<le> R \<and> (\<forall>c. p = Some c \<and> pc_status c = COMMITTED \<longrightarrow> pc_run_id c \<le> R \<or> F = Some c)"

definition tracks :: "int \<Rightarrow> pending_config option \<Rightarrow> node \<Rightarrow> bool" where
  "tracks R F n \<longleftrightarrow>
     known_config R F (nd_run_id n) (nd_pending_config n) \<and>
     (\<forall>u. nd_pending_update n = Some u \<longrightarrow>
        known_config R F (ic_run_id (cpu_installed_config u)) (cpu_pending_config u))"

definition not_due :: "int \<Rightarrow> pending_config option \<Rightarrow> bool" where
  "not_due r F \<longleftrightarrow> (\<forall>c. F = Some c \<and> pc_status c = COMMITTED \<longrightarrow> r < pc_effective_round c)"

lemma begin_round_tracks:
  assumes "tracks R F n" "not_due r F"
  shows "tracks R F (begin_round sha r n)"
proof -
  have act: "tracks R F (activated r n)" if "due r n = Some p" for p
    using assms due_SomeD [OF that]
    by (auto simp: tracks_def known_config_def activated_Some [OF that] not_due_def)
  have pull: "tracks R F (pulled sha m)" if "tracks R F m" "update_due m = Some u" for m u
    using that by (auto simp: tracks_def pulled_Some update_due_def split: if_splits)
  show ?thesis
    by (cases rule: begin_round_cases [of sha r n]) (use assms act pull in auto)
qed

lemma advance_round_tracks:
  assumes "tracks R F n" "not_due r F"
  shows "tracks R F (fst (advance_round sha r n))"
proof (cases rule: advance_round_shape [of n r sha])
  case crashed_now
  with assms show ?thesis by (simp add: tracks_def)
next
  case idle
  have "tracks R F (n\<lparr>nd_current_round := r\<rparr>)" using assms by (simp add: tracks_def)
  with idle assms begin_round_tracks show ?thesis by simp
next
  case active
  have "tracks R F (n\<lparr>nd_current_round := r\<rparr>)" using assms by (simp add: tracks_def)
  with active assms begin_round_tracks have "tracks R F (begin_round sha r (n\<lparr>nd_current_round := r\<rparr>))" by blast
  with active show ?thesis by (simp add: tracks_def run_boundary_sel)
qed


section \<open>Receiving, crashing, pushing\<close>

lemma receive_sel [node_sel, simp]:
  "nd_status (receive p n) = nd_status n"
  "nd_membership_state (receive p n) = nd_membership_state n"
  "nd_halted_round (receive p n) = nd_halted_round n"
  "nd_installed_membership_epoch (receive p n) = nd_installed_membership_epoch n"
  "nd_installed_membership (receive p n) = nd_installed_membership n"
  "nd_current_sound_set (receive p n) = nd_current_sound_set n"
  "nd_run_id (receive p n) = nd_run_id n"
  "nd_pending_config (receive p n) = nd_pending_config n"
  "nd_event_outbox (receive p n) = nd_event_outbox n"
  "nd_pending_update (receive p n) = nd_pending_update n"
  "nd_irq_pending (receive p n) = nd_irq_pending n"
  "nd_current_round (receive p n) = nd_current_round n"
  "nd_node_id (receive p n) = nd_node_id n"
  "nd_node_count (receive p n) = nd_node_count n"
  "nd_payload_factory (receive p n) = nd_payload_factory n"
  by (simp_all add: receive_def Let_def)

lemma receive_local [simp]:
  "participates (receive p n) = participates n"
  "excluded_ok (receive p n) = excluded_ok n"
  "node_tied (receive p n) = node_tied n"
  "tracks R F (receive p n) = tracks R F n"
  "same_identity n (receive p n)"
  by (simp_all add: participates_def excluded_ok_def node_tied_def tracks_def same_identity_def)

text \<open>Only packets of the node's own round, run and sound set leave a trace.\<close>

lemma receive_drops:
  "pkt_round_id p \<noteq> nd_current_round n \<or> pkt_run_id p \<noteq> nd_run_id n \<or>
   \<not> bit (nd_current_sound_set n) (pkt_src_id p) \<or> nd_membership_state n \<noteq> ACTIVE \<or>
   nd_status n \<noteq> RUNNING \<Longrightarrow> receive p n = n"
  by (auto simp: receive_def)

lemma receive_pipe:
  assumes pipe: "pipe_ok r bc n" and round: "nd_current_round n = r"
    and sent: "pkt_round_id p = r \<Longrightarrow> bc (pkt_src_id p) = Some (pkt_run_id p, pkt_row p) \<and>
      pkt_payload p = nd_payload_factory n (pkt_src_id p) r"
  shows "pipe_ok r bc (receive p n)"
proof (cases "receive p n = n")
  case False
  then have p: "pkt_round_id p = r" "pkt_run_id p = nd_run_id n"
    using receive_drops [of p n] round by auto
  with sent have s: "bc (pkt_src_id p) = Some (nd_run_id n, pkt_row p)"
    "pkt_payload p = nd_payload_factory n (pkt_src_id p) r" by simp_all
  show ?thesis
    using pipe s
    by (auto simp: pipe_ok_def receive_def Let_def proposals_from_def split: if_splits)
qed (use pipe in simp)

lemma crash_sel [node_sel, simp]:
  "nd_membership_state (crash r n) = nd_membership_state n"
  "nd_installed_membership_epoch (crash r n) = nd_installed_membership_epoch n"
  "nd_installed_membership (crash r n) = nd_installed_membership n"
  "nd_current_sound_set (crash r n) = nd_current_sound_set n"
  "nd_run_id (crash r n) = nd_run_id n"
  "nd_pending_config (crash r n) = nd_pending_config n"
  "nd_pending_update (crash r n) = nd_pending_update n"
  "nd_irq_pending (crash r n) = nd_irq_pending n"
  "nd_current_round (crash r n) = nd_current_round n"
  "nd_node_id (crash r n) = nd_node_id n"
  "nd_node_count (crash r n) = nd_node_count n"
  "nd_payload_factory (crash r n) = nd_payload_factory n"
  "nd_current_stage (crash r n) = nd_current_stage n"
  "nd_previous_stage (crash r n) = nd_previous_stage n"
  by (simp_all add: crash_def emit_control_plane_event_def)

lemma crash_status:
  "nd_status (crash r n) = (if nd_status n = RUNNING then CRASHED else nd_status n)"
  "nd_status n = RUNNING \<Longrightarrow> nd_event_outbox (crash r n) = nd_event_outbox n @ [NodeCrashed (nd_node_id n)]"
  "nd_status n \<noteq> RUNNING \<Longrightarrow> crash r n = n"
  "\<not> participates (crash r n)"
  by (simp_all add: crash_def emit_control_plane_event_def participates_def)

lemma crash_local [simp]:
  "excluded_ok (crash r n)"
  "node_tied (crash r n) = node_tied n"
  "tracks R F (crash r n) = tracks R F n"
  "update_due (crash r n) = update_due n"
  "same_identity n (crash r n)"
  by (simp_all add: excluded_ok_def crash_status node_tied_def tracks_def update_due_def same_identity_def)

lemma push_update_sel [node_sel, simp]:
  "nd_status (push_control_plane_update u n) = nd_status n"
  "nd_membership_state (push_control_plane_update u n) = nd_membership_state n"
  "nd_halted_round (push_control_plane_update u n) = nd_halted_round n"
  "nd_run_id (push_control_plane_update u n) = nd_run_id n"
  "nd_pending_config (push_control_plane_update u n) = nd_pending_config n"
  "nd_event_outbox (push_control_plane_update u n) = nd_event_outbox n"
  "nd_current_round (push_control_plane_update u n) = nd_current_round n"
  "nd_node_id (push_control_plane_update u n) = nd_node_id n"
  "nd_node_count (push_control_plane_update u n) = nd_node_count n"
  "nd_payload_factory (push_control_plane_update u n) = nd_payload_factory n"
  "nd_pending_update (push_control_plane_update u n) = Some u"
  "nd_irq_pending (push_control_plane_update u n)"
  "update_due (push_control_plane_update u n) = Some u"
  by (simp_all add: push_control_plane_update_def update_due_def)

lemma push_update_local [simp]:
  "participates (push_control_plane_update u n) = participates n"
  "excluded_ok (push_control_plane_update u n) = excluded_ok n"
  "pipe_ok r bc (push_control_plane_update u n) = pipe_ok r bc n"
  "fresh_pipeline (push_control_plane_update u n) = fresh_pipeline n"
  "same_identity n (push_control_plane_update u n)"
  by (simp_all add: push_control_plane_update_def participates_def excluded_ok_def pipe_ok_def
      fresh_pipeline_def same_identity_def)

end
