(* ===== verification/Control_Plane_Inv.thy ===== *)
theory Control_Plane_Inv
  imports Control_Plane "HOL-Library.Multiset"
begin

text \<open>
  The invariant of the controller and its preservation by every operation. Its heart is that no
  interrupted node is forgotten: a node that is not \<open>ACTIVE\<close> is being collected, is a target of the
  running episode, or is queued for the next one. Around it: at most one preparation and one
  commit are outstanding per episode, a committed configuration is never replaced before its
  cutover, and no assertion of the code can fail.
\<close>


section \<open>The invariant\<close>

definition interrupted :: "control_plane \<Rightarrow> nat set" where
  "interrupted cp = cp_collecting_targets cp \<union> cp_episode_targets cp \<union>
     set (dkeys (cp_queued_interruptions cp))"

definition outstanding :: "cp_action \<Rightarrow> int \<Rightarrow> scheduled_action list \<Rightarrow> nat" where
  "outstanding a e items = length (filter (\<lambda>(t, b, x). b = a \<and> x = Some e) items)"

definition states_ok :: "control_plane_state \<Rightarrow> control_plane \<Rightarrow> bool" where
  "states_ok st cp \<longleftrightarrow>
     dkeys (cps_node_states st) = [0..<cp_node_count cp] \<and>
     interrupted cp \<subseteq> {..<cp_node_count cp} \<and>
     (\<forall>i < cp_node_count cp. dget (cps_node_states st) i \<noteq> Some ACTIVE \<longrightarrow> i \<in> interrupted cp) \<and>
     cps_pending_config st = cp_pending_future cp \<and>
     ic_membership_epoch (cps_installed_config st) = ic_run_id (cps_installed_config st)"

definition window_ok :: "control_plane \<Rightarrow> bool" where
  "window_ok cp \<longleftrightarrow>
     (cp_collecting_targets cp \<noteq> {} \<longrightarrow> \<not> episode_active cp) \<and>
     (cp_collection_deadline_ns cp \<noteq> None \<longleftrightarrow> cp_collecting_targets cp \<noteq> {})"

definition future_ok :: "control_plane_state \<Rightarrow> control_plane \<Rightarrow> int \<Rightarrow> bool" where
  "future_ok st cp b \<longleftrightarrow>
     (\<forall>p. cp_pending_future cp = Some p \<longrightarrow>
        pc_members_bitmap p = b \<and>
        pc_run_id p = ic_run_id (cps_installed_config st) + 1 \<and>
        pc_membership_epoch p = ic_membership_epoch (cps_installed_config st) + 1)"

definition episode_ok :: "control_plane_state \<Rightarrow> control_plane \<Rightarrow> bool" where
  "episode_ok st cp \<longleftrightarrow>
     (case cp_active_episode_id cp of
        None \<Rightarrow> cp_episode_targets cp = {} \<and> cp_pending_future cp = None
      | Some e \<Rightarrow>
          e < cp_next_episode_id cp \<and> cp_episode_targets cp \<noteq> {} \<and>
          cp_prepare_round cp \<noteq> None \<and>
          (\<exists>b. cp_episode_members_bitmap cp = Some b \<and> future_ok st cp b \<and>
             (\<forall>i < cp_node_count cp. \<not> bit b i \<longrightarrow> i \<in> set (dkeys (cp_queued_interruptions cp)))))"

definition items_ok :: "scheduled_action list \<Rightarrow> control_plane \<Rightarrow> bool" where
  "items_ok items cp \<longleftrightarrow>
     (\<forall>(t, a, x) \<in> set items. a \<noteq> Activate_online_rejoin \<and>
        (\<exists>e. x = Some e \<and> e < cp_next_episode_id cp) \<and> 0 < cp_node_count cp) \<and>
     (\<forall>e. cp_active_episode_id cp = Some e \<longrightarrow>
        outstanding Prepare_online_rejoin e items \<le> 1 \<and>
        outstanding Commit_online_rejoin e items \<le> 1 \<and>
        (0 < outstanding Prepare_online_rejoin e items \<longrightarrow> cp_pending_future cp = None) \<and>
        (0 < outstanding Commit_online_rejoin e items \<longrightarrow>
           (\<exists>p. cp_pending_future cp = Some p \<and> pc_status p = PREPARED)))"

text \<open>\<open>rem\<close>: due actions taken off the schedule and not yet applied.\<close>

definition cp_inv :: "scheduled_action list \<Rightarrow> control_plane_state \<Rightarrow> control_plane \<Rightarrow> bool" where
  "cp_inv rem st cp \<longleftrightarrow>
     cp_current_state cp = Some st \<and> round_length_ns (cp_timing cp) \<noteq> 0 \<and>
     states_ok st cp \<and> window_ok cp \<and> episode_ok st cp \<and> items_ok (rem @ cp_scheduled cp) cp"

lemmas cp_inv_defs = cp_inv_def states_ok_def window_ok_def episode_ok_def items_ok_def
  future_ok_def interrupted_def episode_active_def


section \<open>What a step may change\<close>

definition is_active :: "control_plane_state \<Rightarrow> nat \<Rightarrow> bool" where
  "is_active st i \<longleftrightarrow> dget (cps_node_states st) i = Some ACTIVE"

definition keeps_committed :: "pending_config option \<Rightarrow> pending_config option \<Rightarrow> bool" where
  "keeps_committed F F' \<longleftrightarrow> (\<forall>p. F = Some p \<and> pc_status p = COMMITTED \<longrightarrow> F' = Some p)"

definition quiet_step ::
  "control_plane_state \<Rightarrow> control_plane \<Rightarrow> control_plane_state \<Rightarrow> control_plane \<Rightarrow> bool" where
  "quiet_step st cp st' cp' \<longleftrightarrow>
     cp_node_count cp' = cp_node_count cp \<and> cp_timing cp' = cp_timing cp \<and>
     cps_installed_config st' = cps_installed_config st \<and>
     keeps_committed (cp_pending_future cp) (cp_pending_future cp') \<and>
     (\<forall>i < cp_node_count cp. \<not> is_active st i \<longrightarrow> \<not> is_active st' i)"

lemma quiet_step_refl [simp]: "quiet_step st cp st cp"
  by (simp add: quiet_step_def keeps_committed_def)

lemma quiet_step_trans:
  "quiet_step st cp st' cp' \<Longrightarrow> quiet_step st' cp' st'' cp'' \<Longrightarrow> quiet_step st cp st'' cp''"
  by (auto simp: quiet_step_def keeps_committed_def)

text \<open>An operation that never raises on good states, keeps the invariant and is quiet.\<close>

definition good_op ::
  "(control_plane \<Rightarrow> control_plane result) \<Rightarrow> scheduled_action list \<Rightarrow>
     control_plane_state \<Rightarrow> control_plane \<Rightarrow> bool" where
  "good_op f rem st cp \<longleftrightarrow>
     (\<exists>cp' st'. f cp = Inr cp' \<and> cp_inv rem st' cp' \<and> quiet_step st cp st' cp')"


section \<open>Dictionary and schedule lemmas\<close>

lemma outstanding_append [simp]:
  "outstanding a e (xs @ ys) = outstanding a e xs + outstanding a e ys"
  by (simp add: outstanding_def)

lemma outstanding_Cons [simp]:
  "outstanding a e ((t, b, x) # ys) = (if b = a \<and> x = Some e then 1 else 0) + outstanding a e ys"
  by (simp add: outstanding_def)

lemma outstanding_Nil [simp]: "outstanding a e [] = 0"
  by (simp add: outstanding_def)

lemma outstanding_mset: "mset xs = mset ys \<Longrightarrow> outstanding a e xs = outstanding a e ys"
  by (metis mset_filter outstanding_def size_mset)

lemma outstanding_fresh:
  "\<forall>(t, a, x) \<in> set items. \<exists>e. x = Some e \<and> e < k \<Longrightarrow> k \<le> e \<Longrightarrow> outstanding a e items = 0"
  by (induction items) auto

lemma outstanding_filter_le: "outstanding a e (filter P xs) \<le> outstanding a e xs"
  by (induction xs) (auto simp: outstanding_def)

lemma items_ok_mset:
  "mset xs = mset ys \<Longrightarrow> items_ok xs cp = items_ok ys cp"
  by (simp add: items_ok_def outstanding_mset [of xs ys] mset_eq_setD [of xs ys])

lemma items_ok_sub:
  assumes ok: "items_ok xs cp" and sub: "set ys \<subseteq> set xs"
    and le: "\<And>a e. outstanding a e ys \<le> outstanding a e xs"
  shows "items_ok ys cp"
proof -
  from ok have 1: "\<forall>(t, a, x) \<in> set xs. a \<noteq> Activate_online_rejoin \<and>
        (\<exists>e. x = Some e \<and> e < cp_next_episode_id cp) \<and> 0 < cp_node_count cp"
    unfolding items_ok_def by (rule conjunct1)
  from ok have 2: "cp_active_episode_id cp = Some e \<Longrightarrow>
      outstanding Prepare_online_rejoin e xs \<le> 1 \<and>
      outstanding Commit_online_rejoin e xs \<le> 1 \<and>
      (0 < outstanding Prepare_online_rejoin e xs \<longrightarrow> cp_pending_future cp = None) \<and>
      (0 < outstanding Commit_online_rejoin e xs \<longrightarrow>
         (\<exists>p. cp_pending_future cp = Some p \<and> pc_status p = PREPARED))" for e
    unfolding items_ok_def by blast
  show ?thesis
    unfolding items_ok_def
  proof (intro conjI allI impI)
    show "\<forall>(t, a, x) \<in> set ys. a \<noteq> Activate_online_rejoin \<and>
        (\<exists>e. x = Some e \<and> e < cp_next_episode_id cp) \<and> 0 < cp_node_count cp"
      using 1 sub by blast
  next
    fix e assume "cp_active_episode_id cp = Some e"
    note 3 = 2 [OF this]
    show "outstanding Prepare_online_rejoin e ys \<le> 1" "outstanding Commit_online_rejoin e ys \<le> 1"
      using 3 le le_trans by blast+
    show "cp_pending_future cp = None" if "0 < outstanding Prepare_online_rejoin e ys"
      using 3 less_le_trans [OF that le] by blast
    show "\<exists>p. cp_pending_future cp = Some p \<and> pc_status p = PREPARED"
      if "0 < outstanding Commit_online_rejoin e ys"
      using 3 less_le_trans [OF that le] by blast
  qed
qed

lemma items_ok_tail: "items_ok (it # items) cp \<Longrightarrow> items_ok items cp"
  by (rule items_ok_sub) (auto simp: outstanding_def)

lemma dget_fold_dset:
  "dget (fold (\<lambda>i d. dset d i v) xs d) k = (if k \<in> set xs then Some v else dget d k)"
  by (induction xs arbitrary: d) auto

lemma dkeys_fold_dset: "set xs \<subseteq> set (dkeys d) \<Longrightarrow> dkeys (fold (\<lambda>i d. dset d i v) xs d) = dkeys d"
  by (induction xs arbitrary: d) auto

lemma dkeys_fold_setdefault:
  "set (dkeys (fold (\<lambda>i q. dsetdefault q i v) xs q)) = set xs \<union> set (dkeys q)"
  by (induction xs arbitrary: q) auto

lemma dkeys_eq_Nil [simp]: "dkeys d = [] \<longleftrightarrow> d = []"
  by (simp add: dkeys_def)


section \<open>Windows and episodes\<close>

lemma begin_sel [simp]:
  "cp_node_count (begin_collection_window t cp) = cp_node_count cp"
  "cp_timing (begin_collection_window t cp) = cp_timing cp"
  "cp_current_state (begin_collection_window t cp) = cp_current_state cp"
  "cp_scheduled (begin_collection_window t cp) = cp_scheduled cp"
  "cp_active_episode_id (begin_collection_window t cp) = cp_active_episode_id cp"
  "cp_next_episode_id (begin_collection_window t cp) = cp_next_episode_id cp"
  "cp_episode_targets (begin_collection_window t cp) = cp_episode_targets cp"
  "cp_pending_future (begin_collection_window t cp) = cp_pending_future cp"
  "cp_episode_members_bitmap (begin_collection_window t cp) = cp_episode_members_bitmap cp"
  "cp_prepare_round (begin_collection_window t cp) = cp_prepare_round cp"
  "episode_active (begin_collection_window t cp) = episode_active cp"
  by (simp_all add: begin_collection_window_def episode_active_def)

lemma begin_interrupted [simp]: "interrupted (begin_collection_window t cp) = interrupted cp"
  by (auto simp: begin_collection_window_def interrupted_def episode_active_def)

lemma begin_window: "window_ok cp \<Longrightarrow> window_ok (begin_collection_window t cp)"
  by (auto simp: begin_collection_window_def window_ok_def episode_active_def)

lemma begin_queue_kept:
  "episode_active cp \<Longrightarrow> cp_queued_interruptions (begin_collection_window t cp) = cp_queued_interruptions cp"
  by (simp add: begin_collection_window_def)

lemma begin_states [simp]: "states_ok st (begin_collection_window t cp) = states_ok st cp"
  by (simp add: states_ok_def)

lemma begin_items [simp]: "items_ok xs (begin_collection_window t cp) = items_ok xs cp"
  by (simp add: items_ok_def)

lemma begin_episode: "episode_ok st cp \<Longrightarrow> episode_ok st (begin_collection_window t cp)"
  using begin_queue_kept [of cp t]
  by (auto simp: episode_ok_def future_ok_def episode_active_def split: option.splits)

lemma begin_collection_window_inv: "cp_inv rem st cp \<Longrightarrow> cp_inv rem st (begin_collection_window t cp)"
  by (auto simp: cp_inv_def begin_window begin_episode)

lemma begin_collection_window_quiet [simp]: "quiet_step st cp st (begin_collection_window t cp)"
  by (simp add: quiet_step_def keeps_committed_def)

text \<open>What an idle controller with an open window knows.\<close>

lemma window_open:
  assumes "cp_inv rem st cp" "cp_collection_deadline_ns cp = Some d"
  shows "cp_collecting_targets cp \<noteq> {}" "cp_episode_targets cp = {}" "cp_pending_future cp = None"
    "cp_active_episode_id cp = None"
  using assms by (auto simp: cp_inv_def window_ok_def episode_active_def)

lemma active_episode:
  assumes "cp_inv rem st cp" "cp_active_episode_id cp = Some e"
  obtains b where "cp_episode_members_bitmap cp = Some b" "future_ok st cp b"
    "\<forall>i < cp_node_count cp. \<not> bit b i \<longrightarrow> i \<in> set (dkeys (cp_queued_interruptions cp))"
    "cp_collecting_targets cp = {}" "cp_collection_deadline_ns cp = None"
    "cp_episode_targets cp \<noteq> {}" "e < cp_next_episode_id cp" "cp_prepare_round cp \<noteq> None"
  using assms by (auto simp: cp_inv_def window_ok_def episode_active_def episode_ok_def)

lemma active_members_bound:
  assumes "states_ok st cp"
  shows "set (map fst (filter (\<lambda>(i, s). s = ACTIVE) (cps_node_states st))) \<subseteq> {..<cp_node_count cp}"
    and "i < cp_node_count cp \<Longrightarrow>
      i \<notin> set (map fst (filter (\<lambda>(i, s). s = ACTIVE) (cps_node_states st))) \<Longrightarrow> i \<in> interrupted cp"
proof -
  have "set (dkeys (cps_node_states st)) = {..<cp_node_count cp}"
    using assms by (auto simp: states_ok_def)
  then show "set (map fst (filter (\<lambda>(i, s). s = ACTIVE) (cps_node_states st))) \<subseteq> {..<cp_node_count cp}"
    by (auto simp: dkeys_def)
  assume "i < cp_node_count cp" "i \<notin> set (map fst (filter (\<lambda>(i, s). s = ACTIVE) (cps_node_states st)))"
  then have "dget (cps_node_states st) i \<noteq> Some ACTIVE" by (force dest: dget_in_set)
  with assms \<open>i < _\<close> show "i \<in> interrupted cp" by (simp add: states_ok_def)
qed

lemma schedule_episode_result:
  assumes inv: "cp_inv [] st cp" and d: "cp_collection_deadline_ns cp = Some d"
  obtains b items where
    "schedule_episode (cp\<lparr>cp_episode_targets := cp_collecting_targets cp, cp_collecting_targets := {}\<rparr>) =
      Inr (cp\<lparr>cp_episode_targets := cp_collecting_targets cp, cp_collecting_targets := {},
              cp_active_episode_id := Some (cp_next_episode_id cp),
              cp_next_episode_id := cp_next_episode_id cp + 1,
              cp_episode_members_bitmap := Some b,
              cp_prepare_round := Some ((d + cp_decision_delay_ns (cp_timing cp)
                + repair_delay_ns (cp_timing cp)) div round_length_ns (cp_timing cp) + 1),
              cp_scheduled := cp_scheduled cp @ items\<rparr>)"
    "\<forall>i < cp_node_count cp. \<not> bit b i \<longrightarrow> i \<in> set (dkeys (cp_queued_interruptions cp))"
    "\<exists>t1 t2 t3. items = [(t1, Mark_recovering, Some (cp_next_episode_id cp)),
       (t2, Prepare_online_rejoin, Some (cp_next_episode_id cp)),
       (t3, Abort_online_rejoin, Some (cp_next_episode_id cp))]"
proof -
  let ?act = "set (map fst (filter (\<lambda>(i, s). s = ACTIVE) (cps_node_states st)))"
  let ?mem = "?act \<union> cp_collecting_targets cp"
  have st: "states_ok st cp" "cp_current_state cp = Some st" "round_length_ns (cp_timing cp) \<noteq> 0"
    using inv by (simp_all add: cp_inv_def)
  have sub: "?mem \<subseteq> {..<cp_node_count cp}"
    using active_members_bound(1) [OF st(1)] st(1) by (auto simp: states_ok_def interrupted_def)
  define M where "M = ?mem"
  have members: "episode_members c = Inr M"
    if "cp_current_state c = Some st" "cp_episode_targets c = cp_collecting_targets cp" for c
    by (simp add: episode_members_def with_state_def that M_def)
  have sub: "M \<subseteq> {..<cp_node_count cp}" using sub by (simp only: M_def)
  then have "finite M" by (rule finite_subset) simp
  with sub have "\<forall>m \<in> set (sorted_list_of_set M). m < cp_node_count cp" by auto
  from bitmap_set_bit [OF this] \<open>finite M\<close> obtain b where
    b: "bitmap_set (cp_node_count cp) (map int (sorted_list_of_set M)) = Inr b" "\<And>i. bit b i \<longleftrightarrow> i \<in> M"
    by auto
  have queued: "\<forall>i < cp_node_count cp. \<not> bit b i \<longrightarrow> i \<in> set (dkeys (cp_queued_interruptions cp))"
    using active_members_bound(2) [OF st(1)] window_open [OF inv d]
    unfolding b(2) M_def interrupted_def by blast
  show thesis
    by (rule that [OF _ queued, where items =
        "[(d + cp_decision_delay_ns (cp_timing cp), Mark_recovering, Some (cp_next_episode_id cp)),
          (d + cp_decision_delay_ns (cp_timing cp) + repair_delay_ns (cp_timing cp),
             Prepare_online_rejoin, Some (cp_next_episode_id cp)),
          (d + cp_decision_delay_ns (cp_timing cp) + repair_delay_ns (cp_timing cp)
             + install_delay_ns (cp_timing cp), Abort_online_rejoin, Some (cp_next_episode_id cp))]"])
      (simp_all add: schedule_episode_def d members st b(1) floor_div_def schedule_action_def Let_def)
qed

lemma close_collection_window_inv:
  assumes inv: "cp_inv [] st cp"
  shows "good_op (close_collection_window_if_due t) [] st cp"
proof (cases "cp_collection_deadline_ns cp")
  case None
  with inv show ?thesis by (auto simp: good_op_def close_collection_window_if_due_def)
next
  case (Some d)
  note open_w = window_open [OF inv Some]
  show ?thesis
  proof (cases "t < d")
    case True
    with Some inv show ?thesis by (auto simp: good_op_def close_collection_window_if_due_def)
  next
    case False
    obtain b items where sched: "schedule_episode (cp\<lparr>cp_episode_targets := cp_collecting_targets cp, cp_collecting_targets := {}\<rparr>) =
      Inr (cp\<lparr>cp_episode_targets := cp_collecting_targets cp, cp_collecting_targets := {},
              cp_active_episode_id := Some (cp_next_episode_id cp),
              cp_next_episode_id := cp_next_episode_id cp + 1,
              cp_episode_members_bitmap := Some b,
              cp_prepare_round := Some ((d + cp_decision_delay_ns (cp_timing cp)
                + repair_delay_ns (cp_timing cp)) div round_length_ns (cp_timing cp) + 1),
              cp_scheduled := cp_scheduled cp @ items\<rparr>)" (is "_ = Inr ?cp1")
      and queued: "\<forall>i < cp_node_count cp. \<not> bit b i \<longrightarrow> i \<in> set (dkeys (cp_queued_interruptions cp))"
      and items: "\<exists>t1 t2 t3. items = [(t1, Mark_recovering, Some (cp_next_episode_id cp)),
       (t2, Prepare_online_rejoin, Some (cp_next_episode_id cp)),
       (t3, Abort_online_rejoin, Some (cp_next_episode_id cp))]"
      by (rule schedule_episode_result [OF inv Some])
    let ?cp2 = "?cp1\<lparr>cp_collection_deadline_ns := None\<rparr>"
    have parts: "cp_current_state cp = Some st" "round_length_ns (cp_timing cp) \<noteq> 0" "states_ok st cp"
      "items_ok (cp_scheduled cp) cp" using inv by (simp_all add: cp_inv_def)
    have eq: "close_collection_window_if_due t cp = Inr ?cp2"
      using Some False open_w(1) sched
      by (simp add: close_collection_window_if_due_def with_state_def parts(1))
    have "interrupted ?cp2 = interrupted cp" using open_w(2) by (auto simp: interrupted_def)
    then have "states_ok st ?cp2" using parts(3) by (simp add: states_ok_def)
    moreover have "window_ok ?cp2" by (simp add: window_ok_def)
    moreover have "episode_ok st ?cp2" using open_w queued by (simp add: episode_ok_def future_ok_def)
    moreover have "0 < cp_node_count cp"
      using open_w(1) parts(3) by (auto simp: states_ok_def interrupted_def)
    then have "items_ok (cp_scheduled cp @ items) ?cp2"
      using parts(4) items open_w(3)
        outstanding_fresh [of "cp_scheduled cp" "cp_next_episode_id cp" "cp_next_episode_id cp"]
      by (fastforce simp: items_ok_def)
    ultimately have "cp_inv [] st ?cp2" using parts by (simp add: cp_inv_def)
    moreover have "quiet_step st cp st ?cp2" by (simp add: quiet_step_def keeps_committed_def open_w(3))
    ultimately show ?thesis using eq by (auto simp: good_op_def)
  qed
qed


section \<open>The actions\<close>

lemma cp_inv_parts:
  assumes "cp_inv rem st cp"
  shows "cp_current_state cp = Some st" "round_length_ns (cp_timing cp) \<noteq> 0" "states_ok st cp"
    "window_ok cp" "episode_ok st cp" "items_ok (rem @ cp_scheduled cp) cp"
  using assms by (simp_all add: cp_inv_def)

lemma cp_inv_drop: "cp_inv (it # rem) st cp \<Longrightarrow> cp_inv rem st cp"
  by (auto simp: cp_inv_def intro: items_ok_tail)

lemma states_with_targets:
  assumes "states_ok st cp"
  defines "d \<equiv> \<lambda>v. fold (\<lambda>i states. dset states i v) (sorted_list_of_set (cp_episode_targets cp)) (cps_node_states st)"
  shows "dkeys (d v) = [0..<cp_node_count cp]"
    and "dget (d v) i = (if i \<in> cp_episode_targets cp then Some v else dget (cps_node_states st) i)"
proof -
  have keys: "dkeys (cps_node_states st) = [0..<cp_node_count cp]"
    and sub: "cp_episode_targets cp \<subseteq> {..<cp_node_count cp}"
    using assms(1) by (auto simp: states_ok_def interrupted_def)
  then have "finite (cp_episode_targets cp)" using finite_subset by blast
  then show "dget (d v) i = (if i \<in> cp_episode_targets cp then Some v else dget (cps_node_states st) i)"
    by (simp add: d_def dget_fold_dset)
  have "set (sorted_list_of_set (cp_episode_targets cp)) \<subseteq> set (dkeys (cps_node_states st))"
    using \<open>finite _\<close> sub keys by auto
  from dkeys_fold_dset [OF this] keys show "dkeys (d v) = [0..<cp_node_count cp]" by (simp add: d_def)
qed

lemma mark_recovering_op:
  assumes inv: "cp_inv ((t, Mark_recovering, Some e) # rem) st cp" and e: "cp_active_episode_id cp = Some e"
  shows "good_op (mark_recovering t) rem st cp"
proof -
  obtain b where b: "cp_episode_targets cp \<noteq> {}" by (rule active_episode [OF inv e])
  have inv': "cp_inv rem st cp" using inv by (rule cp_inv_drop)
  note parts = cp_inv_parts [OF inv']
  let ?d = "fold (\<lambda>i states. dset states i RECOVERING) (sorted_list_of_set (cp_episode_targets cp)) (cps_node_states st)"
  let ?st = "st\<lparr>cps_node_states := ?d\<rparr>"
  note d = states_with_targets [OF parts(3), where v = RECOVERING]
  obtain cp' where cp': "mark_recovering t cp = Inr cp'"
    "cp' = record_applied_action t Mark_recovering (sorted_list_of_set (cp_episode_targets cp)) None None
       (cp\<lparr>cp_current_state := Some ?st\<rparr>)"
    using parts(1) b
    by (simp add: mark_recovering_def with_state_def node_states_with_targets_def
        update_node_states_def record_applied_action_def)
  have "states_ok ?st cp'"
    using parts(3) d(1) d(2)
    by (auto simp: cp' record_applied_action_def states_ok_def interrupted_def)
  moreover have "window_ok cp'" "episode_ok ?st cp'" "items_ok (rem @ cp_scheduled cp') cp'"
    using parts(4-6) by (simp_all add: cp' record_applied_action_def window_ok_def episode_ok_def
        episode_active_def future_ok_def items_ok_def cong: option.case_cong)
  ultimately have "cp_inv rem ?st cp'" using parts(1,2)
    by (simp add: cp_inv_def cp' record_applied_action_def)
  moreover have "quiet_step st cp ?st cp'"
    using d(2) by (simp add: quiet_step_def cp' record_applied_action_def keeps_committed_def is_active_def)
  ultimately show ?thesis using cp'(1) by (auto simp: good_op_def)
qed

lemma prepare_online_rejoin_op:
  assumes inv: "cp_inv ((t, Prepare_online_rejoin, Some e) # rem) st cp" and e: "cp_active_episode_id cp = Some e"
  shows "good_op (prepare_online_rejoin t) rem st cp"
proof -
  have inv': "cp_inv rem st cp" using inv by (rule cp_inv_drop)
  note parts = cp_inv_parts [OF inv']
  obtain b where b: "cp_episode_members_bitmap cp = Some b"
    "\<forall>i < cp_node_count cp. \<not> bit b i \<longrightarrow> i \<in> set (dkeys (cp_queued_interruptions cp))"
    "cp_episode_targets cp \<noteq> {}" "e < cp_next_episode_id cp" "cp_prepare_round cp \<noteq> None"
    by (rule active_episode [OF inv e])
  then obtain pr where pr: "cp_prepare_round cp = Some pr" by auto
  let ?p = "\<lparr>pc_membership_epoch = ic_membership_epoch (cps_installed_config st) + 1,
             pc_members_bitmap = b, pc_effective_round = pr + cp_cutover_slack_rounds cp,
             pc_run_id = ic_run_id (cps_installed_config st) + 1, pc_status = PREPARED\<rparr>"
  have once: "outstanding Prepare_online_rejoin e (rem @ cp_scheduled cp) = 0"
    "cp_pending_future cp = None" "outstanding Commit_online_rejoin e (rem @ cp_scheduled cp) = 0"
  proof -
    have ok: "items_ok ((t, Prepare_online_rejoin, Some e) # rem @ cp_scheduled cp) cp"
      using inv by (simp add: cp_inv_def)
    from ok show "outstanding Prepare_online_rejoin e (rem @ cp_scheduled cp) = 0"
      by (simp add: items_ok_def e)
    from ok show none: "cp_pending_future cp = None" by (simp add: items_ok_def e)
    from ok none show "outstanding Commit_online_rejoin e (rem @ cp_scheduled cp) = 0"
      by (simp add: items_ok_def e)
  qed
  let ?d = "fold (\<lambda>i states. dset states i REJOIN_PENDING) (sorted_list_of_set (cp_episode_targets cp)) (cps_node_states st)"
  let ?st = "st\<lparr>cps_node_states := ?d, cps_pending_config := Some ?p\<rparr>"
  note d = states_with_targets [OF parts(3), where v = REJOIN_PENDING]
  obtain cp' where cp': "prepare_online_rejoin t cp = Inr cp'"
    "cp' = record_applied_action t Prepare_online_rejoin (sorted_list_of_set (cp_episode_targets cp)) (Some b)
       (Some (pr + cp_cutover_slack_rounds cp))
       (cp\<lparr>cp_prepare_acks := {}, cp_pending_future := Some ?p, cp_current_state := Some ?st\<rparr>)"
    using parts(1) b pr
    by (simp add: prepare_online_rejoin_def with_state_def node_states_with_targets_def
        update_node_states_def record_applied_action_def install_pending_future_def Let_def)
  have "states_ok ?st cp'"
    using parts(3) d(1) d(2)
    by (auto simp: cp' record_applied_action_def states_ok_def interrupted_def)
  moreover have "window_ok cp'"
    using parts(4) e by (simp add: cp' record_applied_action_def window_ok_def episode_active_def)
  moreover have "episode_ok ?st cp'"
    using b e pr by (simp add: cp' record_applied_action_def episode_ok_def future_ok_def)
  moreover have "items_ok (rem @ cp_scheduled cp') cp'"
    using parts(6) once e by (simp add: cp' record_applied_action_def items_ok_def)
  ultimately have "cp_inv rem ?st cp'" using parts(1,2)
    by (simp add: cp_inv_def cp' record_applied_action_def)
  moreover have "quiet_step st cp ?st cp'"
    using d(2) once(2) by (simp add: quiet_step_def cp' record_applied_action_def keeps_committed_def is_active_def)
  ultimately show ?thesis using cp'(1) by (auto simp: good_op_def)
qed


lemma commit_online_rejoin_op:
  assumes inv: "cp_inv ((t, Commit_online_rejoin, Some e) # rem) st cp" and e: "cp_active_episode_id cp = Some e"
  shows "good_op (commit_online_rejoin t) rem st cp"
proof -
  have inv': "cp_inv rem st cp" using inv by (rule cp_inv_drop)
  note parts = cp_inv_parts [OF inv']
  have ok: "items_ok ((t, Commit_online_rejoin, Some e) # rem @ cp_scheduled cp) cp"
    using inv by (simp add: cp_inv_def)
  from ok obtain p where p: "cp_pending_future cp = Some p" "pc_status p = PREPARED"
    by (auto simp: items_ok_def e)
  from ok have once: "outstanding Commit_online_rejoin e (rem @ cp_scheduled cp) = 0"
    by (simp add: items_ok_def e)
  from ok p have prep: "outstanding Prepare_online_rejoin e (rem @ cp_scheduled cp) = 0"
    by (simp add: items_ok_def e)
  define eff where "eff = max (pc_effective_round p) (t div round_length_ns (cp_timing cp) + 1 + 1)"
  let ?p = "p\<lparr>pc_effective_round := eff, pc_status := COMMITTED\<rparr>"
  let ?st = "st\<lparr>cps_pending_config := Some ?p\<rparr>"
  obtain cp' where cp': "commit_online_rejoin t cp = Inr cp'"
    "cp' = record_applied_action t Commit_online_rejoin (sorted_list_of_set (cp_episode_targets cp)) None
       (Some eff) (cp\<lparr>cp_pending_future := Some ?p, cp_current_state := Some ?st\<rparr>)"
    using parts(1,2) p
    by (simp add: commit_online_rejoin_def with_state_def record_applied_action_def floor_div_def
        install_pending_future_def Let_def eff_def)
  have "states_ok ?st cp'"
    using parts(3) by (simp add: cp' record_applied_action_def states_ok_def interrupted_def)
  moreover have "window_ok cp'"
    using parts(4) e by (simp add: cp' record_applied_action_def window_ok_def episode_active_def)
  moreover have "episode_ok ?st cp'"
    using parts(5) e p by (auto simp: cp' record_applied_action_def episode_ok_def future_ok_def)
  moreover have "items_ok (rem @ cp_scheduled cp') cp'"
    using parts(6) once prep e by (simp add: cp' record_applied_action_def items_ok_def)
  ultimately have "cp_inv rem ?st cp'" using parts(1,2)
    by (simp add: cp_inv_def cp' record_applied_action_def)
  moreover have "quiet_step st cp ?st cp'"
    using p by (simp add: quiet_step_def cp' record_applied_action_def keeps_committed_def is_active_def)
  ultimately show ?thesis using cp'(1) by (auto simp: good_op_def)
qed

lemma clear_sel [simp]:
  "cp_node_count (clear_episode_state cp) = cp_node_count cp"
  "cp_timing (clear_episode_state cp) = cp_timing cp"
  "cp_current_state (clear_episode_state cp) = cp_current_state cp"
  "cp_active_episode_id (clear_episode_state cp) = None"
  "cp_next_episode_id (clear_episode_state cp) = cp_next_episode_id cp"
  "cp_episode_targets (clear_episode_state cp) = {}"
  "cp_collecting_targets (clear_episode_state cp) = cp_collecting_targets cp"
  "cp_queued_interruptions (clear_episode_state cp) = cp_queued_interruptions cp"
  "cp_collection_deadline_ns (clear_episode_state cp) = cp_collection_deadline_ns cp"
  "cp_pending_future (clear_episode_state cp) = cp_pending_future cp"
  "set (cp_scheduled (clear_episode_state cp)) \<subseteq> set (cp_scheduled cp)"
  by (auto simp: clear_episode_state_def Let_def)

lemma items_ok_cleared:
  assumes "items_ok xs cp" "set ys \<subseteq> set xs" "cp_active_episode_id cp' = None"
    "cp_node_count cp' = cp_node_count cp" "cp_next_episode_id cp' = cp_next_episode_id cp"
  shows "items_ok ys cp'"
proof -
  from assms(1) have "\<forall>(t, a, x) \<in> set xs. a \<noteq> Activate_online_rejoin \<and>
        (\<exists>e. x = Some e \<and> e < cp_next_episode_id cp) \<and> 0 < cp_node_count cp"
    unfolding items_ok_def by (rule conjunct1)
  with assms(2-) show ?thesis by (auto simp: items_ok_def)
qed

text \<open>
  The way an episode ends, by cutover or by abort: the controller forgets the episode and opens
  the next window at once if interruptions are queued.
\<close>

lemma episode_end:
  assumes inv: "cp_inv rem st cp" and e: "cp_active_episode_id cp = Some e"
    and cp1: "cp_node_count cp1 = cp_node_count cp" "cp_timing cp1 = cp_timing cp"
      "cp_scheduled cp1 = cp_scheduled cp" "cp_collecting_targets cp1 = cp_collecting_targets cp"
      "cp_collection_deadline_ns cp1 = cp_collection_deadline_ns cp"
      "cp_next_episode_id cp1 = cp_next_episode_id cp"
      "cp_pending_future cp1 = None" "cp_current_state cp1 = Some st1"
    and st1: "dkeys (cps_node_states st1) = [0..<cp_node_count cp]" "cps_pending_config st1 = None"
      "ic_membership_epoch (cps_installed_config st1) = ic_run_id (cps_installed_config st1)"
    and queue: "set (dkeys (cp_queued_interruptions cp1)) \<subseteq> {..<cp_node_count cp}"
      "\<And>i. i < cp_node_count cp \<Longrightarrow> \<not> is_active st1 i \<Longrightarrow> i \<in> set (dkeys (cp_queued_interruptions cp1))"
  shows "cp_inv rem st1 (begin_collection_window t (clear_episode_state cp1))"
proof -
  note parts = cp_inv_parts [OF inv]
  obtain b where b: "cp_collecting_targets cp = {}" "cp_collection_deadline_ns cp = None"
    by (rule active_episode [OF inv e])
  let ?cp2 = "clear_episode_state cp1"
  have "states_ok st1 ?cp2"
    using cp1 st1 queue b by (auto simp: states_ok_def interrupted_def is_active_def)
  moreover have "window_ok ?cp2" using cp1 b by (simp add: window_ok_def)
  moreover have "episode_ok st1 ?cp2" using cp1 by (simp add: episode_ok_def)
  moreover have "items_ok (rem @ cp_scheduled ?cp2) ?cp2"
    by (rule items_ok_cleared [OF parts(6)]) (use cp1 clear_sel(11) [of cp1] in auto)
  ultimately have "cp_inv rem st1 ?cp2" using cp1 parts by (simp add: cp_inv_def)
  then show ?thesis by (rule begin_collection_window_inv)
qed

lemma abort_online_rejoin_op:
  assumes inv: "cp_inv ((t, Abort_online_rejoin, Some e) # rem) st cp" and e: "cp_active_episode_id cp = Some e"
  shows "good_op (abort_online_rejoin t) rem st cp"
proof -
  have inv': "cp_inv rem st cp" using inv by (rule cp_inv_drop)
  note parts = cp_inv_parts [OF inv']
  obtain b where b: "cp_collecting_targets cp = {}" by (rule active_episode [OF inv' e])
  show ?thesis
  proof (cases "\<exists>p. cp_pending_future cp = Some p \<and> pc_status p = PREPARED")
    case False
    then have "abort_online_rejoin t cp = Inr cp"
      by (auto simp: abort_online_rejoin_def split: option.splits)
    with inv' show ?thesis by (auto simp: good_op_def)
  next
    case True
    then obtain p where p: "cp_pending_future cp = Some p" "pc_status p = PREPARED" by blast
    define retry where "retry = cp_episode_targets cp \<union> set (dkeys (cp_queued_interruptions cp))"
    let ?st = "\<lparr>cps_installed_config = cps_installed_config st,
        cps_node_states = map (\<lambda>i. (i, if i \<in> retry then FAILED else ACTIVE)) [0..<cp_node_count cp],
        cps_pending_config = None, cps_repair_logs = []\<rparr>"
    let ?cp1 = "record_applied_action t Abort_online_rejoin (sorted_list_of_set (cp_episode_targets cp)) None None
        (cp\<lparr>cp_current_state := Some ?st\<rparr>)
        \<lparr>cp_queued_interruptions :=
           fold (\<lambda>i q. dsetdefault q i t) (sorted_list_of_set retry) (cp_queued_interruptions cp),
         cp_pending_future := None\<rparr>"
    let ?cp' = "begin_collection_window t (clear_episode_state ?cp1)"
    have eq: "abort_online_rejoin t cp = Inr ?cp'"
      using p parts(1)
      by (simp add: abort_online_rejoin_def with_state_def retry_def record_applied_action_def Let_def)
    have inter: "interrupted cp = retry" using b by (simp add: interrupted_def retry_def)
    have sub: "retry \<subseteq> {..<cp_node_count cp}" using parts(3) inter by (simp add: states_ok_def)
    then have fin: "finite retry" by (rule finite_subset) simp
    have queue: "set (dkeys (cp_queued_interruptions ?cp1)) = retry"
      using fin by (auto simp: record_applied_action_def dkeys_fold_setdefault retry_def)
    have act: "is_active ?st i \<longleftrightarrow> i \<notin> retry" if "i < cp_node_count cp" for i
      using that by (simp add: is_active_def dget_map)
    have tied: "ic_membership_epoch (cps_installed_config st) = ic_run_id (cps_installed_config st)"
      using parts(3) by (simp add: states_ok_def)
    have "cp_inv rem ?st ?cp'"
      by (rule episode_end [OF inv' e])
        (use queue sub act tied in \<open>simp_all add: record_applied_action_def\<close>)
    moreover have "quiet_step st cp ?st ?cp'"
      using p act parts(3) inter
      by (auto simp: quiet_step_def record_applied_action_def keeps_committed_def states_ok_def is_active_def)
    ultimately show ?thesis using eq by (auto simp: good_op_def)
  qed
qed

lemma apply_action_op:
  assumes inv: "cp_inv ((t, a, x) # rem) st cp"
  shows "good_op (apply_action a t x) rem st cp"
proof -
  have inv': "cp_inv rem st cp" using inv by (rule cp_inv_drop)
  have st: "cp_current_state cp = Some st" using inv by (simp add: cp_inv_def)
  from inv obtain e where e: "x = Some e" "a \<noteq> Activate_online_rejoin" "0 < cp_node_count cp"
    by (auto simp: cp_inv_def items_ok_def)
  show ?thesis
  proof (cases "cp_active_episode_id cp = Some e")
    case False
    then have "apply_action a t x cp = Inr cp"
      using e st by (auto simp: apply_action_def with_state_def)
    with inv' show ?thesis by (auto simp: good_op_def)
  next
    case True
    note ops = mark_recovering_op prepare_online_rejoin_op commit_online_rejoin_op abort_online_rejoin_op
    have "apply_action a t x cp = (case a of
           Mark_recovering \<Rightarrow> mark_recovering t cp
         | Prepare_online_rejoin \<Rightarrow> prepare_online_rejoin t cp
         | Commit_online_rejoin \<Rightarrow> commit_online_rejoin t cp
         | Abort_online_rejoin \<Rightarrow> abort_online_rejoin t cp
         | Activate_online_rejoin \<Rightarrow> Inl ValueError)"
      using e st True by (simp add: apply_action_def with_state_def)
    then show ?thesis
      using e(2) inv [unfolded e(1)] True ops [of t e rem st cp]
      by (cases a) (simp_all add: good_op_def)
  qed
qed

lemma good_op_trans:
  assumes "good_op f r2 st cp"
    and "\<And>st' cp'. cp_inv r2 st' cp' \<Longrightarrow> good_op g r3 st' cp'"
  shows "good_op (\<lambda>c. ebind (f c) g) r3 st cp"
proof -
  from assms(1) obtain cp' st' where 1: "f cp = Inr cp'" "cp_inv r2 st' cp'" "quiet_step st cp st' cp'"
    by (auto simp: good_op_def)
  from assms(2) [OF 1(2)] obtain cp'' st'' where "g cp' = Inr cp''" "cp_inv r3 st'' cp''" "quiet_step st' cp' st'' cp''"
    by (auto simp: good_op_def)
  with 1 quiet_step_trans [OF 1(3)] show ?thesis unfolding good_op_def by auto
qed

lemma run_ready_op: "cp_inv items st cp \<Longrightarrow> good_op (run_ready items) [] st cp"
proof (induction items arbitrary: st cp)
  case Nil
  then show ?case by (auto simp: good_op_def run_ready_def)
next
  case (Cons it items)
  obtain t a x where it: "it = (t, a, x)" by (cases it)
  have "good_op (\<lambda>c. ebind (apply_action a t x c) (run_ready items)) [] st cp"
    by (rule good_op_trans [OF apply_action_op Cons.IH]) (use Cons.prems it in simp_all)
  then show ?case by (simp add: run_ready_def [abs_def] it good_op_def)
qed


section \<open>The clock\<close>

lemma take_ready_inv:
  assumes inv: "cp_inv [] st cp"
  shows "cp_inv (sort_key action_key (filter (\<lambda>item. fst item \<le> t) (cp_scheduled cp))) st
    (cp\<lparr>cp_scheduled := filter (\<lambda>item. fst item > t) (cp_scheduled cp)\<rparr>)"
proof -
  let ?due = "sort_key action_key (filter (\<lambda>item. fst item \<le> t) (cp_scheduled cp))"
  let ?cp = "cp\<lparr>cp_scheduled := filter (\<lambda>item. fst item > t) (cp_scheduled cp)\<rparr>"
  note parts = cp_inv_parts [OF inv]
  have "mset (?due @ cp_scheduled ?cp) = filter_mset (\<lambda>item. fst item \<le> t) (mset (cp_scheduled cp))
      + filter_mset (\<lambda>item. \<not> fst item \<le> t) (mset (cp_scheduled cp))"
    by (simp add: not_le)
  also have "\<dots> = mset (cp_scheduled cp)" by (rule multiset_partition [symmetric])
  finally have "mset (?due @ cp_scheduled ?cp) = mset (cp_scheduled cp)" .
  from items_ok_mset [OF this] parts(6) have "items_ok (?due @ cp_scheduled ?cp) cp" by simp
  then have "items_ok (?due @ cp_scheduled ?cp) ?cp" by (simp add: items_ok_def)
  with parts show ?thesis
    by (simp add: cp_inv_def states_ok_def interrupted_def window_ok_def episode_active_def
        episode_ok_def future_ok_def cong: option.case_cong)
qed

text \<open>Rebuilding repair logs changes nothing but the repair logs.\<close>

lemma rebuild_repair_logs_op:
  assumes inv: "cp_inv rem st cp"
  obtains ls where "rebuild_repair_logs snapshots cp = Inr (cp\<lparr>cp_current_state := Some (st\<lparr>cps_repair_logs := ls\<rparr>)\<rparr>)"
    "cp_inv rem (st\<lparr>cps_repair_logs := ls\<rparr>) (cp\<lparr>cp_current_state := Some (st\<lparr>cps_repair_logs := ls\<rparr>)\<rparr>)"
proof -
  have st: "cp_current_state cp = Some st" using inv by (simp add: cp_inv_def)
  have same: "cp\<lparr>cp_current_state := Some (st\<lparr>cps_repair_logs := cps_repair_logs st\<rparr>)\<rparr> = cp"
    using st by simp
  have keep: "cp_inv rem (st\<lparr>cps_repair_logs := ls\<rparr>) (cp\<lparr>cp_current_state := Some (st\<lparr>cps_repair_logs := ls\<rparr>)\<rparr>)" for ls
    using cp_inv_parts [OF inv]
    by (simp add: cp_inv_def states_ok_def interrupted_def window_ok_def episode_active_def
        episode_ok_def future_ok_def items_ok_def cong: option.case_cong)
  have "rebuild_repair_logs snapshots cp = Inr cp \<or>
      (\<exists>ls. rebuild_repair_logs snapshots cp = Inr (cp\<lparr>cp_current_state := Some (st\<lparr>cps_repair_logs := ls\<rparr>)\<rparr>))"
    using st by (auto simp: rebuild_repair_logs_def with_state_def Let_def)
  then have "\<exists>ls. rebuild_repair_logs snapshots cp = Inr (cp\<lparr>cp_current_state := Some (st\<lparr>cps_repair_logs := ls\<rparr>)\<rparr>)"
    using same by metis
  then show thesis using that keep by blast
qed

lemma rebuild_good: "cp_inv rem st cp \<Longrightarrow> good_op (rebuild_repair_logs snapshots) rem st cp"
  by (rule rebuild_repair_logs_op [of rem st cp snapshots])
    (auto simp: good_op_def quiet_step_def keeps_committed_def is_active_def)

lemma ensure_state_known: "cp_current_state cp = Some st \<Longrightarrow> ensure_state n cp = Inr cp"
  by (simp add: ensure_state_def)

text \<open>The two window operations that bracket the due actions.\<close>

lemma window_ops:
  assumes "cp_inv [] st cp"
  shows "good_op (\<lambda>c. close_collection_window_if_due t (begin_collection_window t c)) [] st cp"
proof -
  from close_collection_window_inv [OF begin_collection_window_inv [OF assms], of t t]
  obtain cp' st' where "close_collection_window_if_due t (begin_collection_window t cp) = Inr cp'"
    "cp_inv [] st' cp'" "quiet_step st (begin_collection_window t cp) st' cp'" by (auto simp: good_op_def)
  moreover from this(3) have "quiet_step st cp st' cp'"
    by (rule quiet_step_trans [OF begin_collection_window_quiet])
  ultimately show ?thesis by (auto simp: good_op_def)
qed

lemma advance_to_time_op:
  assumes inv: "cp_inv [] st cp"
  shows "good_op (advance_to_time snapshots t n) [] st cp"
proof -
  let ?win = "\<lambda>c. close_collection_window_if_due t (begin_collection_window t c)"
  let ?run = "\<lambda>c. run_ready (sort_key action_key (filter (\<lambda>item. fst item \<le> t) (cp_scheduled c)))
    (c\<lparr>cp_scheduled := filter (\<lambda>item. fst item > t) (cp_scheduled c)\<rparr>)"
  let ?finish = "\<lambda>c. ebind (?win c) (rebuild_repair_logs snapshots)"
  have run: "good_op ?run [] st' cp'" if "cp_inv [] st' cp'" for st' cp'
    using run_ready_op [OF take_ready_inv [OF that, of t]]
    by (auto simp: good_op_def quiet_step_def)
  have "good_op (\<lambda>c. ebind (?win c) (\<lambda>c. ebind (?run c) ?finish)) [] st cp"
    by (rule good_op_trans [OF window_ops [OF inv]], rule good_op_trans [OF run], assumption,
        rule good_op_trans [OF window_ops], assumption, rule rebuild_good)
  moreover have "advance_to_time snapshots t n cp = ebind (?win cp) (\<lambda>c. ebind (?run c) ?finish)"
    using inv by (simp add: advance_to_time_def cp_inv_def ensure_state_known Let_def)
  ultimately show ?thesis by (simp add: good_op_def)
qed


section \<open>The cutover\<close>

text \<open>What one call of the controller may do to the authoritative state at round \<open>r\<close>.\<close>

definition cutover_step ::
  "int \<Rightarrow> control_plane_state \<Rightarrow> control_plane \<Rightarrow> control_plane_state \<Rightarrow> control_plane \<Rightarrow> bool" where
  "cutover_step r st cp st' cp' \<longleftrightarrow>
     cp_node_count cp' = cp_node_count cp \<and> cp_timing cp' = cp_timing cp \<and>
     ic_run_id (cps_installed_config st) \<le> ic_run_id (cps_installed_config st') \<and>
     (\<forall>p. cp_pending_future cp = Some p \<and> pc_status p = COMMITTED \<longrightarrow>
        cp_pending_future cp' = Some p \<or> pc_run_id p \<le> ic_run_id (cps_installed_config st')) \<and>
     (\<forall>p. cp_pending_future cp' = Some p \<and> pc_status p = COMMITTED \<longrightarrow> r < pc_effective_round p) \<and>
     (\<forall>i < cp_node_count cp. \<not> is_active st i \<and> is_active st' i \<longrightarrow>
        ic_run_id (cps_installed_config st) < ic_run_id (cps_installed_config st'))"

lemma maybe_activate_cutover_op:
  assumes inv: "cp_inv [] st cp"
  obtains st' where "cp_inv [] st' (maybe_activate_cutover r cp)"
    "cutover_step r st cp st' (maybe_activate_cutover r cp)"
proof (cases "\<exists>p. cp_pending_future cp = Some p \<and> pc_status p = COMMITTED \<and> pc_effective_round p \<le> r")
  case False
  then have "maybe_activate_cutover r cp = cp"
    by (auto simp: maybe_activate_cutover_def split: option.splits)
  moreover have "cutover_step r st cp st cp" using False by (force simp: cutover_step_def)
  ultimately show thesis using inv by (intro that) simp_all
next
  case True
  then obtain p where p: "cp_pending_future cp = Some p" "pc_status p = COMMITTED" "pc_effective_round p \<le> r"
    by blast
  note parts = cp_inv_parts [OF inv]
  from parts(5) p(1) obtain e where e: "cp_active_episode_id cp = Some e"
    by (auto simp: episode_ok_def split: option.splits)
  obtain b where b: "future_ok st cp b" "cp_collecting_targets cp = {}"
    "\<forall>i < cp_node_count cp. \<not> bit b i \<longrightarrow> i \<in> set (dkeys (cp_queued_interruptions cp))"
    by (rule active_episode [OF inv e])
  have pf: "pc_members_bitmap p = b" "pc_run_id p = ic_run_id (cps_installed_config st) + 1"
    "pc_membership_epoch p = ic_membership_epoch (cps_installed_config st) + 1"
    using b(1) p(1) by (simp_all add: future_ok_def)
  let ?st = "\<lparr>cps_installed_config = \<lparr>ic_membership_epoch = pc_membership_epoch p,
          ic_members_bitmap = pc_members_bitmap p, ic_run_id = pc_run_id p\<rparr>,
        cps_node_states = map (\<lambda>i. (i, if pc_members_bitmap p AND one_hot i \<noteq> 0 then ACTIVE else FAILED))
          [0..<cp_node_count cp],
        cps_pending_config = None, cps_repair_logs = []\<rparr>"
  let ?t = "r * round_length_ns (cp_timing cp)"
  let ?cp1 = "record_applied_action ?t Activate_online_rejoin (sorted_list_of_set (cp_episode_targets cp))
      None (Some (pc_effective_round p)) (cp\<lparr>cp_current_state := Some ?st\<rparr>)\<lparr>cp_pending_future := None\<rparr>"
  let ?cp' = "begin_collection_window ?t (clear_episode_state ?cp1)"
  have eq: "maybe_activate_cutover r cp = ?cp'"
    using p by (simp add: maybe_activate_cutover_def record_applied_action_def Let_def)
  have act: "is_active ?st i \<longleftrightarrow> bit b i" if "i < cp_node_count cp" for i
    using that by (simp add: is_active_def dget_map pf(1))
  have bound: "set (dkeys (cp_queued_interruptions cp)) \<subseteq> {..<cp_node_count cp}"
    and tied: "ic_membership_epoch (cps_installed_config st) = ic_run_id (cps_installed_config st)"
    using parts(3) by (auto simp: states_ok_def interrupted_def)
  have "cp_inv [] ?st ?cp'"
    by (rule episode_end [OF inv e])
      (use act bound b(3) tied pf in \<open>simp_all add: record_applied_action_def\<close>)
  moreover have "cutover_step r st cp ?st ?cp'"
    using p pf by (simp add: cutover_step_def record_applied_action_def)
  ultimately show thesis using that eq by simp
qed

lemma call_control_plane_op:
  assumes inv: "cp_inv [] st cp"
  obtains cp' st' where "call_control_plane snapshots r n cp = Inr (cp', st')" "cp_inv [] st' cp'"
    "cutover_step r st cp st' cp'"
proof -
  obtain st1 where 1: "cp_inv [] st1 (maybe_activate_cutover r cp)"
    "cutover_step r st cp st1 (maybe_activate_cutover r cp)"
    by (rule maybe_activate_cutover_op [OF inv])
  obtain ls where 2: "rebuild_repair_logs snapshots (maybe_activate_cutover r cp)
      = Inr ((maybe_activate_cutover r cp)\<lparr>cp_current_state := Some (st1\<lparr>cps_repair_logs := ls\<rparr>)\<rparr>)"
    "cp_inv [] (st1\<lparr>cps_repair_logs := ls\<rparr>)
      ((maybe_activate_cutover r cp)\<lparr>cp_current_state := Some (st1\<lparr>cps_repair_logs := ls\<rparr>)\<rparr>)"
    by (rule rebuild_repair_logs_op [OF 1(1)])
  show thesis
    by (rule that [OF _ 2(2)])
      (use 1 2(1) inv in \<open>simp_all add: call_control_plane_def cp_inv_def ensure_state_known with_state_def
        cutover_step_def is_active_def\<close>)
qed


section \<open>Events\<close>

definition event_node :: "node_event \<Rightarrow> nat" where
  "event_node ev = (case ev of PrepareAck i _ \<Rightarrow> i | NodeHalted i _ \<Rightarrow> i | NodeCrashed i \<Rightarrow> i)"

definition is_interruption :: "node_event \<Rightarrow> bool" where
  "is_interruption ev = (case ev of PrepareAck _ _ \<Rightarrow> False | _ \<Rightarrow> True)"

text \<open>An event is a quiet step that keeps the pending configuration; an interruption fails its node.\<close>

definition event_step ::
  "node_event \<Rightarrow> control_plane_state \<Rightarrow> control_plane \<Rightarrow> control_plane_state \<Rightarrow> control_plane \<Rightarrow> bool" where
  "event_step ev st cp st' cp' \<longleftrightarrow>
     quiet_step st cp st' cp' \<and> cp_pending_future cp' = cp_pending_future cp \<and>
     (is_interruption ev \<longrightarrow> \<not> is_active st' (event_node ev))"

lemma mark_node_failed_op:
  assumes inv: "cp_inv [] st cp" and "target < cp_node_count cp"
  obtains st' where "mark_node_failed target cp = Inr (cp\<lparr>cp_current_state := Some st'\<rparr>)"
    "\<forall>i. dget (cps_node_states st') i = (if i = target then Some FAILED else dget (cps_node_states st) i)"
    "dkeys (cps_node_states st') = [0..<cp_node_count cp]"
    "cps_installed_config st' = cps_installed_config st" "cps_pending_config st' = cps_pending_config st"
proof -
  have st: "cp_current_state cp = Some st" and keys: "dkeys (cps_node_states st) = [0..<cp_node_count cp]"
    using inv by (simp_all add: cp_inv_def states_ok_def)
  show thesis
  proof (cases "dget (cps_node_states st) target = Some FAILED")
    case True
    have "cp\<lparr>cp_current_state := Some st\<rparr> = cp" using st by simp
    with True st keys show thesis by (intro that [of st]) (simp_all add: mark_node_failed_def with_state_def)
  next
    case False
    have "target \<in> set (dkeys (cps_node_states st))" using keys assms(2) by simp
    with False st keys show thesis
      by (intro that [of "st\<lparr>cps_node_states := dset (cps_node_states st) target FAILED\<rparr>"])
        (simp_all add: mark_node_failed_def with_state_def)
  qed
qed

lemma note_interruption_op:
  assumes inv: "cp_inv [] st cp" and target: "target < cp_node_count cp"
  shows "\<exists>cp' st'. note_interruption target t cp = Inr cp' \<and> cp_inv [] st' cp' \<and>
    quiet_step st cp st' cp' \<and> cp_pending_future cp' = cp_pending_future cp \<and> \<not> is_active st' target"
proof -
  obtain st' where st': "mark_node_failed target cp = Inr (cp\<lparr>cp_current_state := Some st'\<rparr>)"
    "\<forall>i. dget (cps_node_states st') i = (if i = target then Some FAILED else dget (cps_node_states st) i)"
    "dkeys (cps_node_states st') = [0..<cp_node_count cp]"
    "cps_installed_config st' = cps_installed_config st" "cps_pending_config st' = cps_pending_config st"
    by (rule mark_node_failed_op [OF inv target])
  let ?cp1 = "cp\<lparr>cp_current_state := Some st'\<rparr>"
  let ?col = "?cp1\<lparr>cp_collecting_targets := insert target (cp_collecting_targets cp)\<rparr>"
  let ?que = "?cp1\<lparr>cp_queued_interruptions := dsetdefault (cp_queued_interruptions cp) target t\<rparr>"
  note parts = cp_inv_parts [OF inv]
  have "interrupted ?col = insert target (interrupted cp)" "interrupted ?que = insert target (interrupted cp)"
    by (auto simp: interrupted_def)
  then have states: "states_ok st' ?col" "states_ok st' ?que"
    using parts(3) st' target by (auto simp: states_ok_def)
  have items: "items_ok (cp_scheduled ?col) ?col" "items_ok (cp_scheduled ?que) ?que"
    using parts(6) by (simp_all add: items_ok_def)
  have episode: "episode_ok st' ?que"
    using parts(5) st'(4)
    by (auto simp: episode_ok_def future_ok_def split: option.splits)
  have window: "window_ok ?que" using parts(4) by (simp add: window_ok_def episode_active_def)
  have quiet: "quiet_step st cp st' ?col" "quiet_step st cp st' ?que"
    using st' by (auto simp: quiet_step_def keeps_committed_def is_active_def)
  have failed: "\<not> is_active st' target" using st'(2) by (simp add: is_active_def)
  show ?thesis
  proof (cases "(case cp_collection_deadline_ns cp of None \<Rightarrow> False | Some d \<Rightarrow> t \<le> d) \<and> cp_episode_targets cp = {}")
    case True
    then obtain d where d: "cp_collection_deadline_ns cp = Some d" by (auto split: option.splits)
    note idle = window_open [OF inv d]
    from True have "note_interruption target t cp = Inr ?col"
      by (simp add: note_interruption_def st'(1))
    moreover have "cp_inv [] st' ?col"
      using parts idle states items d
      by (simp add: cp_inv_def window_ok_def episode_active_def episode_ok_def)
    ultimately show ?thesis using quiet(1) failed by auto
  next
    case False
    then have "note_interruption target t cp = Inr (begin_collection_window t ?que)"
      by (auto simp: note_interruption_def st'(1))
    moreover have "cp_inv [] st' ?que"
      using parts states items window episode by (simp add: cp_inv_def)
    then have "cp_inv [] st' (begin_collection_window t ?que)" by (rule begin_collection_window_inv)
    moreover have "quiet_step st cp st' (begin_collection_window t ?que)"
      using quiet(2) by (simp add: quiet_step_def)
    ultimately show ?thesis using failed by auto
  qed
qed

lemma outstanding_absent:
  "\<not> list_ex (\<lambda>(t, a, x). a = c \<and> x = Some e) items \<Longrightarrow> outstanding c e items = 0"
  by (induction items) (auto split: if_splits)

lemma acks_inv:
  "cp_inv rem st (cp\<lparr>cp_prepare_acks := acks, cp_last_prepare_acks := lasts\<rparr>) = cp_inv rem st cp"
  by (simp add: cp_inv_def states_ok_def interrupted_def window_ok_def episode_active_def
      episode_ok_def future_ok_def items_ok_def cong: option.case_cong)

lemma note_prepare_ack_op:
  assumes inv: "cp_inv [] st cp" and p: "cp_pending_future cp = Some p" "pc_status p = PREPARED"
  shows "\<exists>cp'. note_prepare_ack i config t cp = Inr cp' \<and> cp_inv [] st cp' \<and>
    quiet_step st cp st cp' \<and> cp_pending_future cp' = cp_pending_future cp"
proof -
  note parts = cp_inv_parts [OF inv]
  from parts(5) p(1) obtain e where e: "cp_active_episode_id cp = Some e"
    by (auto simp: episode_ok_def split: option.splits)
  obtain b where "cp_episode_targets cp \<noteq> {}" "e < cp_next_episode_id cp" by (rule active_episode [OF inv e])
  moreover from this parts(3) have "0 < cp_node_count cp"
    by (auto simp: states_ok_def interrupted_def)
  ultimately have pos: "0 < cp_node_count cp" "e < cp_next_episode_id cp" by simp_all
  define same where "same cp' \<longleftrightarrow> (\<exists>acks last. cp' = cp\<lparr>cp_prepare_acks := acks, cp_last_prepare_acks := last\<rparr>)" for cp'
  have keep: "cp_inv [] st cp'" "cp_scheduled cp' = cp_scheduled cp" "quiet_step st cp st cp'"
    "cp_pending_future cp' = cp_pending_future cp" "cp_active_episode_id cp' = Some e"
    if "same cp'" for cp'
    using that e inv by (auto simp: same_def acks_inv quiet_step_def keeps_committed_def)
  have add: "cp_inv [] st (schedule_action u Commit_online_rejoin (Some e) cp')"
    if s: "same cp'" and new: "\<not> list_ex (\<lambda>(t, a, x). a = Commit_online_rejoin \<and> x = Some e) (cp_scheduled cp)"
    for cp' u
  proof -
    note k = keep [OF s] and k' = cp_inv_parts [OF keep(1) [OF s]]
    have "items_ok (cp_scheduled cp' @ [(u, Commit_online_rejoin, Some e)])
        (schedule_action u Commit_online_rejoin (Some e) cp')"
      using k'(6) outstanding_absent [OF new] pos k(2,4,5) p s
      by (auto simp: items_ok_def schedule_action_def same_def)
    with k' show ?thesis
      by (simp add: cp_inv_def states_ok_def interrupted_def window_ok_def episode_active_def
          episode_ok_def future_ok_def schedule_action_def cong: option.case_cong)
  qed
  let ?cp1 = "cp\<lparr>cp_prepare_acks := insert i (cp_prepare_acks cp)\<rparr>"
  let ?cp2 = "?cp1\<lparr>cp_last_prepare_acks := insert i (cp_prepare_acks cp)\<rparr>"
  have "cp\<lparr>cp_prepare_acks := cp_prepare_acks cp, cp_last_prepare_acks := cp_last_prepare_acks cp\<rparr> = cp"
    "cp\<lparr>cp_prepare_acks := insert i (cp_prepare_acks cp), cp_last_prepare_acks := cp_last_prepare_acks cp\<rparr> = ?cp1"
    by simp_all
  then have sames: "same cp" "same ?cp1" "same ?cp2" unfolding same_def by metis+
  let ?more = "\<lambda>c. schedule_action (t + cp_decision_delay_ns (cp_timing cp)) Commit_online_rejoin (Some e) c"
  have "note_prepare_ack i config t cp \<in> {Inr cp, Inr ?cp1, Inr ?cp2} \<or>
    (note_prepare_ack i config t cp = Inr (?more ?cp2) \<and>
     \<not> list_ex (\<lambda>(t, a, x). a = Commit_online_rejoin \<and> x = Some e) (cp_scheduled cp))"
    using p e by (simp add: note_prepare_ack_def future_members_def Let_def)
  with sames have "(\<exists>cp'. note_prepare_ack i config t cp = Inr cp' \<and> same cp') \<or>
    (\<exists>cp' u. note_prepare_ack i config t cp = Inr (schedule_action u Commit_online_rejoin (Some e) cp') \<and> same cp' \<and>
       \<not> list_ex (\<lambda>(t, a, x). a = Commit_online_rejoin \<and> x = Some e) (cp_scheduled cp))"
    by blast
  then show ?thesis
  proof
    assume "\<exists>cp'. note_prepare_ack i config t cp = Inr cp' \<and> same cp'"
    with keep show ?thesis by blast
  next
    assume "\<exists>cp' u. note_prepare_ack i config t cp = Inr (schedule_action u Commit_online_rejoin (Some e) cp') \<and> same cp' \<and>
       \<not> list_ex (\<lambda>(t, a, x). a = Commit_online_rejoin \<and> x = Some e) (cp_scheduled cp)"
    then obtain cp' u where
      c: "note_prepare_ack i config t cp = Inr (schedule_action u Commit_online_rejoin (Some e) cp')" "same cp'"
        "\<not> list_ex (\<lambda>(t, a, x). a = Commit_online_rejoin \<and> x = Some e) (cp_scheduled cp)" by blast
    from keep(3,4) [OF c(2)] have "quiet_step st cp st (schedule_action u Commit_online_rejoin (Some e) cp')"
      "cp_pending_future (schedule_action u Commit_online_rejoin (Some e) cp') = cp_pending_future cp"
      by (simp_all add: quiet_step_def schedule_action_def)
    with add [OF c(2,3), of u] c(1) show ?thesis by blast
  qed
qed

lemma observed_inv:
  "cp_inv rem st (cp\<lparr>cp_observed_events := evs\<rparr>) = cp_inv rem st cp"
  by (simp add: cp_inv_def states_ok_def interrupted_def window_ok_def episode_active_def
      episode_ok_def future_ok_def items_ok_def cong: option.case_cong)

lemma observe_event_op:
  assumes inv: "cp_inv [] st cp" and node: "event_node (ev_event ev) < cp_node_count cp"
  shows "\<exists>cp' st'. observe_event ev cp = Inr cp' \<and> cp_inv [] st' cp' \<and>
    event_step (ev_event ev) st cp st' cp'"
proof -
  let ?cp0 = "cp\<lparr>cp_observed_events := cp_observed_events cp @ [ev]\<rparr>"
  have inv0: "cp_inv [] st ?cp0" by (simp add: observed_inv inv)
  have quiet0: "quiet_step st ?cp0 st' cp' = quiet_step st cp st' cp'" for st' cp'
    by (simp add: quiet_step_def)
  have int: ?thesis if "observe_event ev cp = note_interruption i (ev_available_at_ns ev) ?cp0"
    "event_node (ev_event ev) = i" for i
    using note_interruption_op [OF inv0, of i "ev_available_at_ns ev"] that node
    by (auto simp: event_step_def quiet0)
  show ?thesis
  proof (cases "ev_event ev")
    case (NodeHalted i hr)
    then show ?thesis by (intro int) (simp_all add: observe_event_def event_node_def)
  next
    case (NodeCrashed i)
    then show ?thesis by (intro int) (simp_all add: observe_event_def event_node_def)
  next
    case (PrepareAck i config)
    show ?thesis
    proof (cases "\<exists>p. cp_pending_future cp = Some p \<and> pc_status p = PREPARED")
      case True
      then obtain p where p: "cp_pending_future cp = Some p" "pc_status p = PREPARED" by blast
      then have "observe_event ev cp = note_prepare_ack i config (ev_available_at_ns ev) ?cp0"
        by (simp add: observe_event_def PrepareAck)
      with note_prepare_ack_op [OF inv0, of p i config "ev_available_at_ns ev"] p show ?thesis
        by (auto simp: event_step_def quiet0 is_interruption_def PrepareAck)
    next
      case False
      then have "observe_event ev cp = Inr ?cp0"
        by (auto simp: observe_event_def PrepareAck Let_def split: option.splits)
      with inv0 show ?thesis
        by (auto simp: event_step_def is_interruption_def PrepareAck quiet_step_def keeps_committed_def)
    qed
  qed
qed


section \<open>Start\<close>

lemma initial_state_result:
  obtains full where "initial_state n = Inr
      \<lparr>cps_installed_config = \<lparr>ic_membership_epoch = 0, ic_members_bitmap = full, ic_run_id = 0\<rparr>,
       cps_node_states = map (\<lambda>i. (i, ACTIVE)) [0..<n], cps_pending_config = None, cps_repair_logs = []\<rparr>"
    "\<And>i. bit full i \<longleftrightarrow> i < n"
proof -
  obtain b where "bitmap_set n (map int [0..<n]) = Inr b" "\<And>i. bit b i \<longleftrightarrow> i < n"
    using bitmap_set_bit [of "[0..<n]" n] by auto
  then show thesis using that by (simp add: initial_state_def)
qed

lemma ensure_state_fresh:
  assumes "round_length_ns timing \<noteq> 0"
  obtains cp st where "ensure_state n (set_timing timing (new_control_plane slack)) = Inr cp"
    "cp_inv [] st cp" "cp_node_count cp = n" "cp_timing cp = timing" "cp_pending_future cp = None"
    "ic_run_id (cps_installed_config st) = 0" "\<And>i. i < n \<Longrightarrow> is_active st i"
    "cps_repair_logs st = []"
proof -
  obtain full where full: "initial_state n = Inr
      \<lparr>cps_installed_config = \<lparr>ic_membership_epoch = 0, ic_members_bitmap = full, ic_run_id = 0\<rparr>,
       cps_node_states = map (\<lambda>i. (i, ACTIVE)) [0..<n], cps_pending_config = None, cps_repair_logs = []\<rparr>"
    (is "_ = Inr ?st") by (rule initial_state_result)
  let ?cp = "(set_timing timing (new_control_plane slack))\<lparr>cp_node_count := n, cp_current_state := Some ?st\<rparr>"
  have "ensure_state n (set_timing timing (new_control_plane slack)) = Inr ?cp"
    by (simp add: ensure_state_def full set_timing_def new_control_plane_def)
  moreover have "cp_inv [] ?st ?cp"
    using assms
    by (simp add: cp_inv_def states_ok_def window_ok_def episode_ok_def items_ok_def interrupted_def
        set_timing_def new_control_plane_def dget_map)
  ultimately show thesis
    by (rule that) (simp_all add: set_timing_def new_control_plane_def is_active_def dget_map)
qed

end
