(* ===== verification/Recovery_Contract.thy ===== *)
theory Recovery_Contract
  imports Node_Invariants Control_Plane_Inv
begin

text \<open>
  The contract between the controller and the nodes, as a locale: what a service that installs
  configurations must promise so that no node ever runs ahead of it and no stopped node comes back
  with a stale pipeline. The controller of the code is its interpretation. The last section is
  about the repair logs the controller hands out: each is a log some node reported.
\<close>


section \<open>The contract\<close>

text \<open>
  A round step may install a new configuration, under a higher run id; an event never does. A
  committed configuration is either still pending or already installed, and after a round step a
  pending one lies in a later round.
\<close>

locale membership_service =
  fixes run_of :: "'s \<Rightarrow> int"
    and future_of :: "'s \<Rightarrow> pending_config option"
    and active :: "'s \<Rightarrow> nat \<Rightarrow> bool"
    and size_of :: "'s \<Rightarrow> nat"
    and round_step :: "int \<Rightarrow> 's \<Rightarrow> 's \<Rightarrow> bool"
    and event_step :: "node_event \<Rightarrow> 's \<Rightarrow> 's \<Rightarrow> bool"
  assumes run_grows: "round_step r s s' \<Longrightarrow> run_of s \<le> run_of s'"
    and committed_kept: "round_step r s s' \<Longrightarrow> future_of s = Some p \<Longrightarrow> pc_status p = COMMITTED \<Longrightarrow>
      future_of s' = Some p \<or> pc_run_id p \<le> run_of s'"
    and cutover_done: "round_step r s s' \<Longrightarrow> not_due r (future_of s')"
    and reactivation_moves_run: "round_step r s s' \<Longrightarrow> i < size_of s \<Longrightarrow> \<not> active s i \<Longrightarrow> active s' i \<Longrightarrow>
      run_of s < run_of s'"
    and event_keeps_config: "event_step ev s s' \<Longrightarrow>
      run_of s' = run_of s \<and> future_of s' = future_of s \<and> size_of s' = size_of s"
    and event_activates_nobody: "event_step ev s s' \<Longrightarrow> i < size_of s \<Longrightarrow> active s' i \<Longrightarrow> active s i"
    and interruption_deactivates: "event_step ev s s' \<Longrightarrow> is_interruption ev \<Longrightarrow> \<not> active s' (event_node ev)"
begin

lemma known_config_round:
  assumes "round_step r s s'" "known_config (run_of s) (future_of s) run p"
  shows "known_config (run_of s') (future_of s') run p"
  unfolding known_config_def
proof (intro conjI allI impI)
  show "run \<le> run_of s'" using assms run_grows by (fastforce simp: known_config_def)
  fix c assume c: "p = Some c \<and> pc_status c = COMMITTED"
  with assms(2) have "pc_run_id c \<le> run_of s \<or> future_of s = Some c" by (auto simp: known_config_def)
  then show "pc_run_id c \<le> run_of s' \<or> future_of s' = Some c"
    using committed_kept [OF assms(1), of c] run_grows [OF assms(1)] c by auto
qed

text \<open>No node runs ahead of the service, whatever the service does next.\<close>

lemma tracks_round:
  "round_step r s s' \<Longrightarrow> tracks (run_of s) (future_of s) n \<Longrightarrow> tracks (run_of s') (future_of s') n"
  using known_config_round by (auto simp: tracks_def)

lemma tracks_event:
  "event_step ev s s' \<Longrightarrow> tracks (run_of s) (future_of s) n \<Longrightarrow> tracks (run_of s') (future_of s') n"
  using event_keeps_config by simp

text \<open>A stopped node that the service reactivates is given a configuration it does not have.\<close>

lemma reactivation_changes_config:
  assumes "round_step r s s'" "tracks (run_of s) (future_of s) n"
    and "nd_node_id n < size_of s" "\<not> active s (nd_node_id n)" "active s' (nd_node_id n)"
    and "ic_run_id (cpu_installed_config u) = run_of s'"
  shows "changes_config u n"
proof -
  from reactivation_moves_run [OF assms(1,3-5)] assms(2) have "nd_run_id n < run_of s'"
    by (simp add: tracks_def known_config_def)
  with assms(6) show ?thesis by (auto simp: changes_config_def)
qed

end


section \<open>The controller fulfils it\<close>

text \<open>The two calls of \<open>ClusterRun.run\<close> at the start of a round.\<close>

definition control_round ::
  "repair_snapshot list \<Rightarrow> int \<Rightarrow> int \<Rightarrow> nat \<Rightarrow> control_plane
     \<Rightarrow> (control_plane \<times> control_plane_state) result" where
  "control_round snapshots time_ns round_id node_count cp =
     ebind (advance_to_time snapshots time_ns node_count cp)
       (call_control_plane snapshots round_id node_count)"

lemma cutover_step_compose:
  assumes "quiet_step st cp st1 cp1" "cutover_step r st1 cp1 st' cp'"
  shows "cutover_step r st cp st' cp'"
  using assms by (auto simp: quiet_step_def cutover_step_def keeps_committed_def)

lemma control_round_op:
  assumes inv: "cp_inv [] st cp"
  shows "\<exists>cp' st'. control_round snapshots t r n cp = Inr (cp', st') \<and> cp_inv [] st' cp' \<and>
    cutover_step r st cp st' cp'"
proof -
  obtain cp1 st1 where 1: "advance_to_time snapshots t n cp = Inr cp1" "cp_inv [] st1 cp1"
    "quiet_step st cp st1 cp1" using advance_to_time_op [OF inv, of snapshots t n] by (auto simp: good_op_def)
  obtain cp' st' where 2: "call_control_plane snapshots r n cp1 = Inr (cp', st')" "cp_inv [] st' cp'"
    "cutover_step r st1 cp1 st' cp'" by (rule call_control_plane_op [OF 1(2)])
  from 1 2 cutover_step_compose show ?thesis by (auto simp: control_round_def)
qed

definition controller_round ::
  "int \<Rightarrow> control_plane_state \<times> control_plane \<Rightarrow> control_plane_state \<times> control_plane \<Rightarrow> bool" where
  "controller_round r s s' \<longleftrightarrow>
     cp_inv [] (fst s) (snd s) \<and>
     (\<exists>snapshots t n. control_round snapshots t r n (snd s) = Inr (snd s', fst s'))"

definition controller_event ::
  "node_event \<Rightarrow> control_plane_state \<times> control_plane \<Rightarrow> control_plane_state \<times> control_plane \<Rightarrow> bool" where
  "controller_event ev s s' \<longleftrightarrow>
     cp_inv [] (fst s) (snd s) \<and> event_node ev < cp_node_count (snd s) \<and>
     cp_current_state (snd s') = Some (fst s') \<and>
     (\<exists>e. ev_event e = ev \<and> observe_event e (snd s) = Inr (snd s'))"

lemma controller_round_step:
  assumes "controller_round r s s'"
  shows "cp_inv [] (fst s') (snd s')" "cutover_step r (fst s) (snd s) (fst s') (snd s')"
proof -
  from assms obtain snapshots t n where
    inv: "cp_inv [] (fst s) (snd s)" and
    eq: "control_round snapshots t r n (snd s) = Inr (snd s', fst s')" by (auto simp: controller_round_def)
  from control_round_op [OF inv, of snapshots t r n] eq
  show "cp_inv [] (fst s') (snd s')" "cutover_step r (fst s) (snd s) (fst s') (snd s')" by auto
qed

lemma controller_event_step:
  assumes "controller_event ev s s'"
  shows "cp_inv [] (fst s') (snd s')" "Control_Plane_Inv.event_step ev (fst s) (snd s) (fst s') (snd s')"
proof -
  from assms obtain e where
    inv: "cp_inv [] (fst s) (snd s)" and node: "event_node (ev_event e) < cp_node_count (snd s)" and
    st: "cp_current_state (snd s') = Some (fst s')" and
    e: "ev_event e = ev" "observe_event e (snd s) = Inr (snd s')" by (auto simp: controller_event_def)
  from observe_event_op [OF inv node] e obtain st' where
    "cp_inv [] st' (snd s')" "Control_Plane_Inv.event_step ev (fst s) (snd s) st' (snd s')" by auto
  moreover from this(1) st have "st' = fst s'" by (simp add: cp_inv_def)
  ultimately show "cp_inv [] (fst s') (snd s')"
    "Control_Plane_Inv.event_step ev (fst s) (snd s) (fst s') (snd s')" by simp_all
qed

interpretation controller: membership_service
  "\<lambda>s. ic_run_id (cps_installed_config (fst s))" "\<lambda>s. cp_pending_future (snd s)"
  "\<lambda>s. is_active (fst s)" "\<lambda>s. cp_node_count (snd s)" controller_round controller_event
proof unfold_locales
  fix r s s' p i
  assume round: "controller_round r s s'"
  note step = controller_round_step(2) [OF round]
  show "ic_run_id (cps_installed_config (fst s)) \<le> ic_run_id (cps_installed_config (fst s'))"
    using step by (simp add: cutover_step_def)
  show "not_due r (cp_pending_future (snd s'))" using step by (simp add: cutover_step_def not_due_def)
  show "cp_pending_future (snd s') = Some p \<or> pc_run_id p \<le> ic_run_id (cps_installed_config (fst s'))"
    if "cp_pending_future (snd s) = Some p" "pc_status p = COMMITTED"
    using step that by (simp add: cutover_step_def)
  show "ic_run_id (cps_installed_config (fst s)) < ic_run_id (cps_installed_config (fst s'))"
    if "i < cp_node_count (snd s)" "\<not> is_active (fst s) i" "is_active (fst s') i"
    using step that by (simp add: cutover_step_def)
next
  fix ev s s' i
  assume event: "controller_event ev s s'"
  note step = controller_event_step(2) [OF event]
  show "ic_run_id (cps_installed_config (fst s')) = ic_run_id (cps_installed_config (fst s)) \<and>
      cp_pending_future (snd s') = cp_pending_future (snd s) \<and> cp_node_count (snd s') = cp_node_count (snd s)"
    using step by (simp add: event_step_def quiet_step_def)
  show "is_active (fst s) i" if "i < cp_node_count (snd s)" "is_active (fst s') i"
    using step that by (auto simp: event_step_def quiet_step_def)
  show "\<not> is_active (fst s') (event_node ev)" if "is_interruption ev"
    using step that by (simp add: event_step_def)
qed


section \<open>Where repair logs come from\<close>

definition state_logs :: "control_plane_state \<Rightarrow> repair_log set" where
  "state_logs st = set (map snd (cps_repair_logs st))"

lemma state_logs_simps [simp]:
  "state_logs (st\<lparr>cps_node_states := d\<rparr>) = state_logs st"
  "state_logs (st\<lparr>cps_pending_config := p\<rparr>) = state_logs st"
  "state_logs (st\<lparr>cps_repair_logs := []\<rparr>) = {}"
  "state_logs (st\<lparr>cps_repair_logs := map (\<lambda>i. (i, l)) is\<rparr>) = (if is = [] then {} else {l})"
  "state_logs \<lparr>cps_installed_config = c, cps_node_states = d, cps_pending_config = p, cps_repair_logs = []\<rparr> = {}"
  by (auto simp: state_logs_def image_constant_conv o_def)

definition cp_logs :: "control_plane \<Rightarrow> repair_log set" where
  "cp_logs cp = (case cp_current_state cp of None \<Rightarrow> {} | Some st \<Rightarrow> state_logs st)"

lemma max_snapshot_mem: "max_snapshot s ss \<in> insert s (set ss)"
  by (induction ss arbitrary: s) auto

lemma select_repair_prefix_mem:
  "select_repair_prefix snapshots \<noteq> [] \<Longrightarrow>
     select_repair_prefix snapshots \<in> rs_committed_rounds ` set snapshots"
proof (cases snapshots)
  case (Cons s ss)
  then show ?thesis
    using max_snapshot_mem [of s ss]
    by (auto simp: select_repair_prefix_def clone_repair_prefix_def with_timing_None [abs_def])
qed (simp add: select_repair_prefix_def)

lemma begin_logs [simp]: "cp_logs (begin_collection_window t cp) = cp_logs cp"
  by (simp add: cp_logs_def)

lemma close_logs: "close_collection_window_if_due t cp = Inr cp' \<Longrightarrow> cp_logs cp' = cp_logs cp"
  by (auto simp: close_collection_window_if_due_def schedule_episode_def schedule_action_def
      with_state_def ebind_eq_Inr_iff Let_def cp_logs_def split: option.splits if_splits)

lemma action_logs:
  "mark_recovering t cp = Inr cp' \<Longrightarrow> cp_logs cp' \<subseteq> cp_logs cp"
  "prepare_online_rejoin t cp = Inr cp' \<Longrightarrow> cp_logs cp' \<subseteq> cp_logs cp"
  "commit_online_rejoin t cp = Inr cp' \<Longrightarrow> cp_logs cp' \<subseteq> cp_logs cp"
  "abort_online_rejoin t cp = Inr cp' \<Longrightarrow> cp_logs cp' \<subseteq> cp_logs cp"
  by (auto simp: mark_recovering_def prepare_online_rejoin_def commit_online_rejoin_def
      abort_online_rejoin_def install_pending_future_def node_states_with_targets_def
      update_node_states_def record_applied_action_def
      with_state_def ebind_eq_Inr_iff Let_def cp_logs_def split: option.splits if_splits)

lemma apply_action_logs: "apply_action a t x cp = Inr cp' \<Longrightarrow> cp_logs cp' \<subseteq> cp_logs cp"
  using action_logs [of t cp cp']
  by (cases a) (auto simp: apply_action_def with_state_def ebind_eq_Inr_iff split: option.splits if_splits)

lemma run_ready_logs: "run_ready items cp = Inr cp' \<Longrightarrow> cp_logs cp' \<subseteq> cp_logs cp"
proof (induction items arbitrary: cp)
  case (Cons it items)
  obtain t a x where it: "it = (t, a, x)" by (cases it)
  with Cons.prems obtain cp1 where "apply_action a t x cp = Inr cp1" "run_ready items cp1 = Inr cp'"
    by (auto simp: run_ready_def ebind_eq_Inr_iff)
  with Cons.IH apply_action_logs show ?case by blast
qed (simp add: run_ready_def)

lemma rebuild_logs:
  "rebuild_repair_logs snapshots cp = Inr cp' \<Longrightarrow>
     cp_logs cp' \<subseteq> cp_logs cp \<union> rs_committed_rounds ` set snapshots"
  using select_repair_prefix_mem [of snapshots]
  by (auto simp: rebuild_repair_logs_def with_state_def Let_def cp_logs_def split: option.splits if_splits)

lemma cutover_logs: "cp_logs (maybe_activate_cutover r cp) \<subseteq> cp_logs cp"
  by (auto simp: maybe_activate_cutover_def record_applied_action_def Let_def cp_logs_def split: option.splits)

lemma control_round_logs:
  assumes "control_round snapshots t r n cp = Inr (cp', st')" "cp_current_state cp = Some st"
  shows "cp_logs cp' \<subseteq> cp_logs cp \<union> rs_committed_rounds ` set snapshots"
proof -
  from assms obtain cp2 cp4 cp5 cp6 where
    c: "close_collection_window_if_due t (begin_collection_window t cp) = Inr cp2"
    "run_ready (sort_key action_key (filter (\<lambda>item. fst item \<le> t) (cp_scheduled cp2)))
       (cp2\<lparr>cp_scheduled := filter (\<lambda>item. fst item > t) (cp_scheduled cp2)\<rparr>) = Inr cp4"
    "close_collection_window_if_due t (begin_collection_window t cp4) = Inr cp5"
    "rebuild_repair_logs snapshots cp5 = Inr cp6"
    "call_control_plane snapshots r n cp6 = Inr (cp', st')"
    by (auto simp: control_round_def advance_to_time_def ensure_state_known Let_def ebind_eq_Inr_iff)
  have "cp_logs cp2 = cp_logs cp" using close_logs [OF c(1)] by simp
  moreover have "cp_logs cp4 \<subseteq> cp_logs cp2" using run_ready_logs [OF c(2)] by (simp add: cp_logs_def)
  moreover have "cp_logs cp5 = cp_logs cp4" using close_logs [OF c(3)] by simp
  moreover have "cp_logs cp6 \<subseteq> cp_logs cp5 \<union> rs_committed_rounds ` set snapshots"
    by (rule rebuild_logs [OF c(4)])
  moreover have "cp_current_state cp6 \<noteq> None"
    using c(4) by (auto simp: rebuild_repair_logs_def with_state_def Let_def split: option.splits if_splits)
  then have "rebuild_repair_logs snapshots (maybe_activate_cutover r cp6) = Inr cp'"
    using c(5) by (auto simp: call_control_plane_def ensure_state_def with_state_def ebind_eq_Inr_iff split: option.splits)
  from rebuild_logs [OF this] cutover_logs [of r cp6]
  have "cp_logs cp' \<subseteq> cp_logs cp6 \<union> rs_committed_rounds ` set snapshots" by blast
  ultimately show ?thesis by blast
qed

lemma note_interruption_logs:
  assumes "note_interruption i t cp = Inr cp'"
  shows "cp_logs cp' = cp_logs cp"
proof -
  from assms obtain cp1 where cp1: "mark_node_failed i cp = Inr cp1"
    by (auto simp: note_interruption_def ebind_eq_Inr_iff)
  then have "cp_logs cp1 = cp_logs cp"
    by (auto simp: mark_node_failed_def with_state_def cp_logs_def split: option.splits if_splits)
  moreover have "cp_current_state cp' = cp_current_state cp1"
    using assms by (simp add: note_interruption_def cp1 split: if_split_asm) auto
  ultimately show ?thesis by (simp add: cp_logs_def)
qed

lemma note_prepare_ack_logs: "note_prepare_ack i config t cp = Inr cp' \<Longrightarrow> cp_logs cp' = cp_logs cp"
  by (auto simp: note_prepare_ack_def future_members_def schedule_action_def ebind_eq_Inr_iff Let_def
      cp_logs_def split: option.splits if_splits)

lemma observe_event_logs:
  assumes "observe_event ev cp = Inr cp'"
  shows "cp_logs cp' = cp_logs cp"
proof -
  let ?cp0 = "cp\<lparr>cp_observed_events := cp_observed_events cp @ [ev]\<rparr>"
  have "cp_logs ?cp0 = cp_logs cp" by (simp add: cp_logs_def)
  moreover have "cp_logs cp' = cp_logs ?cp0"
    using assms note_interruption_logs [of _ _ ?cp0 cp'] note_prepare_ack_logs [of _ _ _ ?cp0 cp']
    by (auto simp: observe_event_def Let_def split: node_event.splits option.splits if_splits)
  ultimately show ?thesis by simp
qed


section \<open>Nodes under recovery\<close>

text \<open>The nodes the controller's debug snapshot lists as collected, targeted or queued.\<close>

definition under_recovery :: "debug_snapshot \<Rightarrow> nat set" where
  "under_recovery db =
     set (db_collecting_targets db) \<union> set (db_episode_targets db) \<union> fst ` set (db_queued_interruptions db)"

lemma interrupted_reported:
  assumes "states_ok st cp"
  shows "under_recovery (debug_snapshot_of cp) = interrupted cp"
proof -
  have "finite (interrupted cp)" using assms finite_subset by (auto simp: states_ok_def)
  then show ?thesis
    by (auto simp: under_recovery_def debug_snapshot_of_def interrupted_def dkeys_def)
qed

end
