(* ===== verification/Node_Turn.thy ===== *)
theory Node_Turn
  imports Recovery_Contract
begin

text \<open>
  What a node's turn in a round leaves behind for the cluster: its halt round, its mailbox, the
  events in its outbox, and at most one commit. These are the facts the cluster proof uses beside
  the node invariants.
\<close>

definition own_events :: "nat \<Rightarrow> node_event list \<Rightarrow> bool" where
  "own_events i es \<longleftrightarrow> (\<forall>e \<in> set es. event_node e = i)"

lemma own_events_append [simp]: "own_events i (xs @ ys) \<longleftrightarrow> own_events i xs \<and> own_events i ys"
  by (auto simp: own_events_def)

lemma own_events_Nil [simp]: "own_events i []"
  by (simp add: own_events_def)

lemma pulled_events:
  assumes "own_events (nd_node_id n) (nd_event_outbox n)"
  shows "own_events (nd_node_id n) (nd_event_outbox (pulled sha n))"
proof (cases "update_due n")
  case None
  with assms show ?thesis by (simp add: pulled_None)
next
  case (Some u)
  define m where "m = apply_control_plane_update sha u (n\<lparr>nd_pending_update := None, nd_irq_pending := False\<rparr>)"
  from Some have irq: "nd_irq_pending n" "nd_pending_update n = Some u"
    by (auto simp: update_due_def split: if_splits)
  have "pulled sha n = m \<or> (\<exists>p. pulled sha n = emit_control_plane_event (PrepareAck (nd_node_id m) p) m)"
    unfolding pulled_def pull_control_plane_update_def Let_def using irq
    by (auto simp: m_def [symmetric] split: option.split)
  moreover have "nd_event_outbox m = nd_event_outbox n" "nd_node_id m = nd_node_id n"
    using apply_update_identity [of "n\<lparr>nd_pending_update := None, nd_irq_pending := False\<rparr>" sha u]
    by (simp_all add: m_def node_sel same_identity_def)
  ultimately show ?thesis
    using assms by (auto simp: emit_control_plane_event_def own_events_def event_node_def)
qed

lemma begin_round_events:
  "own_events (nd_node_id n) (nd_event_outbox n) \<Longrightarrow>
     own_events (nd_node_id n) (nd_event_outbox (begin_round sha r n))"
proof (cases "due r n")
  case None
  then show "own_events (nd_node_id n) (nd_event_outbox n) \<Longrightarrow> ?thesis"
    using pulled_events by (simp add: begin_round_eq activated_None)
next
  case (Some p)
  then show "own_events (nd_node_id n) (nd_event_outbox n) \<Longrightarrow> ?thesis"
    using pulled_events [of "activated r n" sha] activated_Some(8,13) [OF Some]
    by (simp add: begin_round_eq same_identity_def)
qed

lemma run_boundary_events:
  "own_events (nd_node_id n) (nd_event_outbox n) \<Longrightarrow>
     own_events (nd_node_id n) (nd_event_outbox (fst (run_boundary sha r n)))"
proof -
  let ?m = "n\<lparr>nd_previous_stage := nd_current_stage n\<rparr>"
  obtain n2 d sound commits where b: "boundary sha n = (n2, d, sound, commits)" by (rule boundary_obtain)
  note res = run_boundary_result [OF b, of r]
  note out = evaluate_outcome [OF b [unfolded boundary_def]]
  show "own_events (nd_node_id n) (nd_event_outbox n) \<Longrightarrow> ?thesis"
    using out res by (auto simp: own_events_def event_node_def)
qed

lemma advance_round_events:
  assumes "own_events (nd_node_id n) (nd_event_outbox n)"
  shows "own_events (nd_node_id n) (nd_event_outbox (fst (advance_round sha r n)))"
proof -
  let ?n0 = "n\<lparr>nd_current_round := r\<rparr>"
  have id: "nd_node_id (begin_round sha r ?n0) = nd_node_id n"
    using same_identityD [OF begin_round_identity, of sha r ?n0] by simp
  have beg: "own_events (nd_node_id n) (nd_event_outbox (begin_round sha r ?n0))"
    using begin_round_events [of ?n0 sha r] assms by simp
  show ?thesis
  proof (cases rule: advance_round_shape [of n r sha])
    case active
    with run_boundary_events [of "begin_round sha r ?n0" sha r] id beg show ?thesis by simp
  qed (use assms beg in simp_all)
qed

lemma crash_events:
  "own_events (nd_node_id n) (nd_event_outbox n) \<Longrightarrow>
     own_events (nd_node_id n) (nd_event_outbox (crash r n))"
  by (simp add: crash_def emit_control_plane_event_def own_events_def event_node_def)


section \<open>Mailbox, halt round, commits\<close>

lemma begin_round_mailbox: "update_due (begin_round sha r n) = None"
proof (cases rule: begin_round_cases [of sha r n])
  case (both p u)
  then show ?thesis using pulled_Some(10) [OF both(3), of sha] by (simp add: update_due_def)
next
  case (updated u)
  then show ?thesis using pulled_Some(10) [OF updated(1), of sha] by (simp add: update_due_def)
next
  case (activated p)
  then show ?thesis by (auto simp: update_due_def activated_Some split: if_splits)
qed simp

lemma advance_round_mailbox:
  "update_due (fst (advance_round sha r n)) = Some u \<Longrightarrow> update_due n = Some u"
proof (cases rule: advance_round_shape [of n r sha])
  case idle
  then show "update_due (fst (advance_round sha r n)) = Some u \<Longrightarrow> ?thesis"
    by (simp add: begin_round_mailbox)
next
  case active
  then show "update_due (fst (advance_round sha r n)) = Some u \<Longrightarrow> ?thesis"
    using begin_round_mailbox [of sha r "n\<lparr>nd_current_round := r\<rparr>"]
    by (auto simp: update_due_def run_boundary_sel split: if_splits)
qed simp

definition halted_before :: "int \<Rightarrow> node \<Rightarrow> bool" where
  "halted_before r n \<longleftrightarrow> (\<forall>k. nd_halted_round n = Some k \<longrightarrow> k < r)"

lemma apply_update_halted_round:
  "nd_halted_round (apply_control_plane_update sha u n) = (if reboots u n then None else nd_halted_round n)"
  unfolding apply_control_plane_update_def Let_def status_not_running state_reboots reboots_def
  by (simp split: option.split)

lemma pulled_halted_round:
  "nd_halted_round (pulled sha n) = nd_halted_round n \<or> nd_halted_round (pulled sha n) = None"
proof (cases "update_due n")
  case (Some u)
  then have irq: "nd_irq_pending n" "nd_pending_update n = Some u"
    by (auto simp: update_due_def split: if_splits)
  show ?thesis
    unfolding pulled_def pull_control_plane_update_def Let_def using irq
    by (auto simp: emit_control_plane_event_def apply_update_halted_round split: option.split)
qed (simp add: pulled_None)

lemma begin_round_halted_round:
  "nd_halted_round (begin_round sha r n) = nd_halted_round n \<or> nd_halted_round (begin_round sha r n) = None"
proof -
  have "nd_halted_round (activated r n) = nd_halted_round n"
    by (auto simp: activated_def activate_pending_config_if_due_def split: option.split)
  with pulled_halted_round [of sha "activated r n"] show ?thesis by (simp add: begin_round_eq)
qed

lemma run_boundary_halted_round:
  "nd_halted_round (fst (run_boundary sha r n)) \<in> {nd_halted_round n, Some (nd_current_round n)}"
proof -
  have "nd_halted_round (fst (boundary sha n)) \<in> {nd_halted_round n, Some (nd_current_round n)}"
    unfolding boundary_def evaluate_round_boundary_table
    by (simp add: halts_with_def enter_halt_state_def emit_control_plane_event_def Let_def split: option.split)
  then show ?thesis
    by (auto simp: run_boundary_def boundary_def Let_def split: prod.split option.split)
qed

lemma advance_round_halted_before:
  assumes "halted_before (r + 1) n"
  shows "halted_before (r + 1) (fst (advance_round sha r n))"
proof -
  let ?n0 = "n\<lparr>nd_current_round := r\<rparr>"
  have beg: "nd_halted_round (begin_round sha r ?n0) \<in> {nd_halted_round n, None}"
    using begin_round_halted_round [of sha r ?n0] by auto
  show ?thesis
  proof (cases rule: advance_round_shape [of n r sha])
    case active
    then show ?thesis
      using run_boundary_halted_round [of sha r "begin_round sha r ?n0"] beg assms
      by (auto simp: halted_before_def)
  qed (use beg assms in \<open>auto simp: halted_before_def\<close>)
qed

lemma crash_halted_before: "halted_before r n \<Longrightarrow> halted_before (r + 1) (crash r n)"
  by (auto simp: halted_before_def crash_def emit_control_plane_event_def)

lemma advance_round_commits: "nrr_new_commits (snd (advance_round sha r n)) = [] \<or>
    (\<exists>c. nrr_new_commits (snd (advance_round sha r n)) = [c])"
proof (cases rule: advance_round_shape [of n r sha])
  case active
  let ?m = "begin_round sha r (n\<lparr>nd_current_round := r\<rparr>)"
  obtain n2 d sound commits where b: "boundary sha ?m = (n2, d, sound, commits)" by (rule boundary_obtain)
  from evaluate_outcome [OF b [unfolded boundary_def]] run_boundary_result(1) [OF b] active
  show ?thesis by auto
qed (simp_all add: idle_result_def)

end
