(* ===== verification/Cluster_Network.thy ===== *)
theory Cluster_Network
  imports Cluster Node_Turn
begin

text \<open>
  The network half of a round. A fault model is \<open>faithful\<close> when it rewrites no packet: it may lose,
  delay and duplicate. Under such a model every packet that reaches a node in its own round is one
  its sender broadcast in that round, and packets of earlier rounds change nothing.
\<close>


section \<open>Faithful networks\<close>

definition unmodified :: "'a delivery_overrides_scheme \<Rightarrow> bool" where
  "unmodified d \<longleftrightarrow>
     dl_packet_round_override d = None \<and> dl_run_id_override d = None \<and>
     dl_row_override d = None \<and> dl_payload_override d = None"

definition faithful :: "'w network_fault_model \<Rightarrow> bool" where
  "faithful net \<longleftrightarrow>
     (\<forall>p dst w. unmodified (fst (net p dst w)) \<and>
        (\<forall>copy \<in> set (dl_extra_copies (fst (net p dst w))). unmodified copy))"

lemma materialize_unmodified [simp]: "unmodified d \<Longrightarrow> materialize_packet p d = p"
  by (simp add: unmodified_def materialize_packet_def)

lemma unmodified_plain [simp]: "unmodified (plain_delivery r why)"
  by (simp add: unmodified_def plain_delivery_def)


section \<open>What the network leaves alone\<close>

text \<open>Everything but the nodes, the schedule and the world.\<close>

definition same_frame :: "'w cluster \<Rightarrow> 'w cluster \<Rightarrow> bool" where
  "same_frame c c' \<longleftrightarrow>
     cl_node_count c' = cl_node_count c \<and> cl_rounds c' = cl_rounds c \<and> cl_timing c' = cl_timing c \<and>
     cl_payload_factory c' = cl_payload_factory c \<and>
     cl_network_fault_model c' = cl_network_fault_model c \<and>
     cl_node_fault_model c' = cl_node_fault_model c \<and>
     cl_metrics_sink c' = cl_metrics_sink c \<and>
     cl_control_plane c' = cl_control_plane c \<and>
     cl_control_plane_events c' = cl_control_plane_events c \<and>
     cl_commit_history_by_node c' = cl_commit_history_by_node c \<and>
     cl_last_control_plane_updates c' = cl_last_control_plane_updates c"

lemma same_frame_refl [simp]: "same_frame c c"
  by (simp add: same_frame_def)

lemma same_frame_trans: "same_frame a b \<Longrightarrow> same_frame b c \<Longrightarrow> same_frame a c"
  by (simp add: same_frame_def)

lemma schedule_sel [simp]:
  "cl_nodes (schedule_packet_delivery k item c) = cl_nodes c"
  "cl_world (schedule_packet_delivery k item c) = cl_world c"
  "same_frame c (schedule_packet_delivery k item c)"
  by (simp_all add: schedule_packet_delivery_def same_frame_def)

lemma same_frame_world [simp]: "same_frame c (c\<lparr>cl_world := w\<rparr>)"
  by (simp add: same_frame_def)

lemma set_node_sel [simp]:
  "same_frame c (set_node i n c)"
  "cl_scheduled_deliveries (set_node i n c) = cl_scheduled_deliveries c"
  "cl_world (set_node i n c) = cl_world c"
  "cl_nodes (set_node i n c) = (cl_nodes c)[i := n]"
  "cl_node_count (set_node i n c) = cl_node_count c"
  by (simp_all add: set_node_def same_frame_def)

text \<open>A property of every waiting item.\<close>

definition all_scheduled :: "(delivery_item \<Rightarrow> bool) \<Rightarrow> 'w cluster \<Rightarrow> bool" where
  "all_scheduled P c \<longleftrightarrow>
     (\<forall>k items. dget (cl_scheduled_deliveries c) k = Some items \<longrightarrow> (\<forall>it \<in> set items. P it))"

lemma all_scheduled_schedule:
  "all_scheduled P c \<Longrightarrow> P item \<Longrightarrow> all_scheduled P (schedule_packet_delivery k item c)"
  by (cases "dget (cl_scheduled_deliveries c) k")
    (auto simp: all_scheduled_def schedule_packet_delivery_def dget_or_def split: if_splits)

lemma all_scheduled_cong:
  "cl_scheduled_deliveries c' = cl_scheduled_deliveries c \<Longrightarrow> all_scheduled P c' = all_scheduled P c"
  by (simp add: all_scheduled_def)

text \<open>Filing and routing, for items that all have the property \<open>P\<close>.\<close>

definition routed :: "(delivery_item \<Rightarrow> bool) \<Rightarrow> 'w cluster \<Rightarrow> delivery_item list \<times> 'w cluster \<Rightarrow> bool" where
  "routed P c acc \<longleftrightarrow>
     (\<forall>it \<in> set (fst acc). P it) \<and> all_scheduled P (snd acc) \<and>
     cl_nodes (snd acc) = cl_nodes c \<and> same_frame c (snd acc)"

lemma file_delivery_routed:
  "routed P c acc \<Longrightarrow> P item \<Longrightarrow> routed P c (file_delivery r t item acc)"
  by (auto simp: routed_def file_delivery_def all_scheduled_schedule intro: same_frame_trans)

lemma fold_file_delivery_routed:
  "routed P c acc \<Longrightarrow> \<forall>x \<in> set xs. P (f x) \<Longrightarrow>
     routed P c (fold (\<lambda>x. file_delivery r (t x) (f x)) xs acc)"
proof (induction xs arbitrary: acc)
  case (Cons x xs)
  from Cons.prems have "routed P c (file_delivery r (t x) (f x) acc)" by (intro file_delivery_routed) simp_all
  from Cons.IH [OF this] Cons.prems(2) show ?case by simp
qed simp

lemma schedule_routed:
  "routed P c (xs, d) \<Longrightarrow> P item \<Longrightarrow> routed P c (xs, schedule_packet_delivery k item d)"
  using same_frame_trans [of c d] by (simp add: routed_def all_scheduled_schedule)

lemma fold_schedule_routed:
  "routed P c (xs, d) \<Longrightarrow> \<forall>x \<in> set ys. P (f x) \<Longrightarrow>
     routed P c (xs, fold (\<lambda>x. schedule_packet_delivery (t x) (f x)) ys d)"
proof (induction ys arbitrary: d)
  case (Cons y ys)
  from Cons.prems have "routed P c (xs, schedule_packet_delivery (t y) (f y) d)" by (intro schedule_routed) simp_all
  from Cons.IH [OF this] Cons.prems(2) show ?case by simp
qed simp

lemma route_delivery_routed:
  assumes "routed P c ([], d)" and un: "unmodified dlv" "\<forall>copy \<in> set (dl_extra_copies dlv). unmodified copy"
    and P: "P \<lparr>di_dst = di_dst item, di_packet = di_packet item, di_fault_applied = True\<rparr>"
  shows "routed P c (route_delivery r item dlv target d)"
  unfolding route_delivery_def Let_def
proof (rule fold_file_delivery_routed)
  let ?it = "\<lparr>di_dst = di_dst item, di_packet = di_packet item, di_fault_applied = True\<rparr>"
  have "routed P c (file_delivery r target ?it ([], d))" using assms(1) P by (rule file_delivery_routed)
  then have "routed P c (fst (file_delivery r target ?it ([], d)), snd (file_delivery r target ?it ([], d)))"
    by simp
  from fold_schedule_routed [OF this, of "dl_extra_deliver_rounds dlv" "\<lambda>_. ?it" "\<lambda>x. x"] P un
  show "routed P c
     (fst (file_delivery r target
        \<lparr>di_dst = di_dst item, di_packet = materialize_packet (di_packet item) dlv, di_fault_applied = True\<rparr> ([], d)),
      fold (\<lambda>extra. schedule_packet_delivery extra
         \<lparr>di_dst = di_dst item, di_packet = materialize_packet (di_packet item) dlv, di_fault_applied = True\<rparr>)
        (dl_extra_deliver_rounds dlv)
        (snd (file_delivery r target
           \<lparr>di_dst = di_dst item, di_packet = materialize_packet (di_packet item) dlv, di_fault_applied = True\<rparr> ([], d))))"
    by simp
qed (use P un in simp)

lemma apply_network_fault_routed:
  assumes "faithful (cl_network_fault_model c)" "all_scheduled P c"
    and P: "P \<lparr>di_dst = di_dst item, di_packet = di_packet item, di_fault_applied = True\<rparr>"
  shows "routed P c (apply_network_fault r item c)"
proof -
  obtain d w where dw: "cl_network_fault_model c (di_packet item) (di_dst item) (cl_world c) = (d, w)"
    by (cases "cl_network_fault_model c (di_packet item) (di_dst item) (cl_world c)")
  with assms(1) have un: "unmodified d" "\<forall>copy \<in> set (dl_extra_copies d). unmodified copy"
    unfolding faithful_def by (metis fst_conv)+
  have start: "routed P c ([], c\<lparr>cl_world := w\<rparr>)"
    using assms(2) by (simp add: routed_def all_scheduled_def)
  show ?thesis
  proof (cases "dl_deliver_round d")
    case None
    with dw start show ?thesis by (simp add: apply_network_fault_def)
  next
    case (Some target)
    with dw route_delivery_routed [OF start un P] show ?thesis by (simp add: apply_network_fault_def)
  qed
qed


section \<open>The delivery loop\<close>

definition broadcast_of :: "node list \<Rightarrow> broadcast" where
  "broadcast_of ns m =
     (if m < length ns then Some (nd_run_id (ns ! m), stg_row (nd_previous_stage (ns ! m))) else None)"

text \<open>What an item in flight in round \<open>r\<close> carries: an old packet, or one of this round's broadcast.\<close>

definition in_flight :: "nat \<Rightarrow> (nat \<Rightarrow> int \<Rightarrow> string) \<Rightarrow> int \<Rightarrow> broadcast \<Rightarrow> delivery_item \<Rightarrow> bool" where
  "in_flight n pf r bc it \<longleftrightarrow>
     di_dst it < n \<and> pkt_round_id (di_packet it) \<le> r \<and>
     (pkt_round_id (di_packet it) = r \<longrightarrow>
        bc (pkt_src_id (di_packet it)) = Some (pkt_run_id (di_packet it), pkt_row (di_packet it)) \<and>
        pkt_payload (di_packet it) = pf (pkt_src_id (di_packet it)) r)"

lemma in_flight_seen:
  "in_flight n pf r bc it \<Longrightarrow>
     in_flight n pf r bc \<lparr>di_dst = di_dst it, di_packet = di_packet it, di_fault_applied = True\<rparr>"
  by (simp add: in_flight_def)

lemma stg_row_receive [simp]: "stg_row (nd_previous_stage (receive p n)) = stg_row (nd_previous_stage n)"
  by (simp add: receive_def Let_def)

lemma broadcast_of_receive [simp]:
  "broadcast_of (ns[i := receive p (ns ! i)]) = broadcast_of ns"
  by (cases "i < length ns") (auto simp: broadcast_of_def nth_list_update fun_eq_iff)

text \<open>
  The loop applies packets to nodes: any node property \<open>Q\<close> that \<open>receive\<close> keeps is kept, and the
  loop never raises.
\<close>

definition receive_keeps ::
  "(nat \<Rightarrow> int \<Rightarrow> string) \<Rightarrow> int \<Rightarrow> broadcast \<Rightarrow> (nat \<Rightarrow> node \<Rightarrow> bool) \<Rightarrow> bool" where
  "receive_keeps pf r bc Q \<longleftrightarrow>
     (\<forall>i n p. Q i n \<and> pkt_round_id p \<le> r \<and>
        (pkt_round_id p = r \<longrightarrow>
           bc (pkt_src_id p) = Some (pkt_run_id p, pkt_row p) \<and> pkt_payload p = pf (pkt_src_id p) r)
        \<longrightarrow> Q i (receive p n))"

definition net_inv ::
  "nat \<Rightarrow> (nat \<Rightarrow> int \<Rightarrow> string) \<Rightarrow> int \<Rightarrow> broadcast \<Rightarrow> (nat \<Rightarrow> node \<Rightarrow> bool) \<Rightarrow> 'w cluster \<Rightarrow> 'w cluster \<Rightarrow> bool" where
  "net_inv N pf r bc Q c0 c \<longleftrightarrow>
     same_frame c0 c \<and> length (cl_nodes c) = N \<and> broadcast_of (cl_nodes c) = bc \<and>
     all_scheduled (in_flight N pf r bc) c \<and> (\<forall>i < N. Q i (cl_nodes c ! i))"

lemma net_inv_fault:
  assumes "net_inv N pf r bc Q c0 c" "faithful (cl_network_fault_model c0)" "in_flight N pf r bc item"
  shows "net_inv N pf r bc Q c0 (snd (apply_network_fault r item c)) \<and>
    (\<forall>it \<in> set (fst (apply_network_fault r item c)). in_flight N pf r bc it)"
proof -
  let ?res = "apply_network_fault r item c"
  have "faithful (cl_network_fault_model c)" "all_scheduled (in_flight N pf r bc) c" "same_frame c0 c"
    using assms(1,2) by (simp_all add: net_inv_def same_frame_def)
  then have "routed (in_flight N pf r bc) c ?res"
    by (intro apply_network_fault_routed in_flight_seen assms(3))
  with \<open>same_frame c0 c\<close> assms(1) show ?thesis
    using same_frame_trans [of c0 c "snd ?res"] by (simp add: routed_def net_inv_def)
qed

lemma net_inv_receive:
  assumes inv: "net_inv N pf r bc Q c0 c" and keeps: "receive_keeps pf r bc Q" and fl: "in_flight N pf r bc item"
  shows "net_inv N pf r bc Q c0
    (set_node (di_dst item) (receive (di_packet item) (cl_nodes c ! di_dst item)) c)"
proof -
  let ?p = "di_packet item" and ?d = "di_dst item"
  have "?d < N" using fl by (simp add: in_flight_def)
  with inv have "Q ?d (cl_nodes c ! ?d)" by (simp add: net_inv_def)
  with keeps fl have "Q ?d (receive ?p (cl_nodes c ! ?d))"
    unfolding receive_keeps_def in_flight_def by blast
  moreover have "same_frame c0 (set_node ?d (receive ?p (cl_nodes c ! ?d)) c)"
    by (rule same_frame_trans [OF _ set_node_sel(1)]) (use inv in \<open>simp add: net_inv_def\<close>)
  ultimately show ?thesis
    using inv \<open>?d < N\<close> by (auto simp: net_inv_def nth_list_update all_scheduled_cong [OF set_node_sel(2)])
qed

lemma network_loop_invariant:
  assumes "faithful (cl_network_fault_model c0)" "receive_keeps pf r bc Q"
  shows "net_inv N pf r bc Q c0 c \<Longrightarrow> \<forall>it \<in> set items. in_flight N pf r bc it \<Longrightarrow>
    \<exists>c'. network_loop r items c = Inr c' \<and> net_inv N pf r bc Q c0 c'"
  using assms
proof (induction r items c rule: network_loop.induct)
  case (1 r c)
  then show ?case by simp
next
  case (2 r item rest c)
  have fl: "in_flight N pf r bc item" "\<forall>it \<in> set rest. in_flight N pf r bc it" using "2.prems"(2) by simp_all
  show ?case
  proof (cases "di_fault_applied item")
    case False
    from net_inv_fault [OF "2.prems"(1,3) fl(1)] fl(2) "2.IH"(1) [OF _ _ _ "2.prems"(3,4)] False
    show ?thesis by auto
  next
    case True
    have dst: "di_dst item < length (cl_nodes c)"
      using fl(1) "2.prems"(1) by (simp add: in_flight_def net_inv_def)
    from net_inv_receive [OF "2.prems"(1,4) fl(1)] fl(2) "2.IH"(2) [OF _ _ _ _ "2.prems"(3,4)] True dst
    show ?thesis by auto
  qed
qed

lemma advance_network_invariant:
  assumes "faithful (cl_network_fault_model c)" "receive_keeps pf r bc Q" "net_inv N pf r bc Q c c"
  shows "\<exists>c'. advance_network r c = Inr c' \<and> net_inv N pf r bc Q c c'"
proof -
  let ?c = "c\<lparr>cl_scheduled_deliveries := dpop (cl_scheduled_deliveries c) r\<rparr>"
  let ?items = "dget_or (cl_scheduled_deliveries c) r []"
  have "\<forall>it \<in> set ?items. in_flight N pf r bc it"
    using assms(3) by (cases "dget (cl_scheduled_deliveries c) r") (auto simp: net_inv_def all_scheduled_def)
  moreover have "net_inv N pf r bc Q c ?c"
    using assms(3) by (auto simp: net_inv_def all_scheduled_def same_frame_def split: if_splits)
  ultimately show ?thesis
    using network_loop_invariant [OF assms(1,2), of N ?c ?items] by (simp add: advance_network_def)
qed

end
