(* ===== verification/Cluster_Control.thy ===== *)
theory Cluster_Control
  imports Cluster_Network
begin

text \<open>
  The control half of a round: what pushing the controller's state does to every mailbox, history
  and remembered update, and what forwarding a node's events does to the controller.
\<close>


section \<open>Pushing updates\<close>

definition history :: "'w cluster \<Rightarrow> nat \<Rightarrow> committed_round_record list" where
  "history c i = dget_or (cl_commit_history_by_node c) i []"

text \<open>Node \<open>i\<close> sits in slot \<open>i\<close> and has a history.\<close>

definition wired :: "'w cluster \<Rightarrow> bool" where
  "wired c \<longleftrightarrow>
     length (cl_nodes c) = cl_node_count c \<and>
     dkeys (cl_commit_history_by_node c) = [0..<cl_node_count c] \<and>
     (\<forall>i < cl_node_count c. nd_node_id (cl_nodes c ! i) = i \<and>
        nd_node_count (cl_nodes c ! i) = cl_node_count c \<and>
        nd_payload_factory (cl_nodes c ! i) = cl_payload_factory c)"

definition is_new :: "control_plane_state \<Rightarrow> 'w cluster \<Rightarrow> nat \<Rightarrow> bool" where
  "is_new st c i \<longleftrightarrow>
     (case dget (cl_last_control_plane_updates c) i of
        None \<Rightarrow> True | Some u \<Rightarrow> \<not> update_eq u (build_control_plane_update i st))"

definition pushed_node :: "control_plane_state \<Rightarrow> 'w cluster \<Rightarrow> nat \<Rightarrow> node" where
  "pushed_node st c i =
     (if is_new st c i then push_control_plane_update (build_control_plane_update i st) (cl_nodes c ! i)
      else cl_nodes c ! i)"

definition pushed_last :: "control_plane_state \<Rightarrow> 'w cluster \<Rightarrow> nat \<Rightarrow> control_plane_update option" where
  "pushed_last st c i =
     (if is_new st c i then Some (build_control_plane_update i st)
      else dget (cl_last_control_plane_updates c) i)"

definition pushed_history :: "control_plane_state \<Rightarrow> 'w cluster \<Rightarrow> nat \<Rightarrow> committed_round_record list" where
  "pushed_history st c i =
     (if is_new st c i then
        (case dget (cps_repair_logs st) i of None \<Rightarrow> history c i | Some l \<Rightarrow> l)
      else history c i)"

text \<open>Everything of the cluster but nodes, histories and remembered updates.\<close>

definition same_rest :: "'w cluster \<Rightarrow> 'w cluster \<Rightarrow> bool" where
  "same_rest c c' \<longleftrightarrow>
     cl_node_count c' = cl_node_count c \<and> cl_rounds c' = cl_rounds c \<and> cl_timing c' = cl_timing c \<and>
     cl_payload_factory c' = cl_payload_factory c \<and>
     cl_network_fault_model c' = cl_network_fault_model c \<and>
     cl_node_fault_model c' = cl_node_fault_model c \<and> cl_world c' = cl_world c \<and>
     cl_metrics_sink c' = cl_metrics_sink c \<and> cl_control_plane c' = cl_control_plane c \<and>
     cl_control_plane_events c' = cl_control_plane_events c \<and>
     cl_scheduled_deliveries c' = cl_scheduled_deliveries c"

lemma push_update_to_eq:
  fixes st :: control_plane_state
  assumes "i < length (cl_nodes c)" "nd_node_id (cl_nodes c ! i) = i"
  defines "c' \<equiv> push_control_plane_update_to st i c"
  shows "same_rest c c'" "cl_nodes c' = (cl_nodes c)[i := pushed_node st c i]"
    "dget (cl_last_control_plane_updates c') j =
       (if j = i then pushed_last st c i else dget (cl_last_control_plane_updates c) j)"
    "history c' j = (if j = i then pushed_history st c i else history c j)"
    "i \<in> set (dkeys (cl_commit_history_by_node c)) \<Longrightarrow>
       dkeys (cl_commit_history_by_node c') = dkeys (cl_commit_history_by_node c)"
proof -
  have new: "(case dget (cl_last_control_plane_updates c) i of None \<Rightarrow> False
      | Some u \<Rightarrow> update_eq u (build_control_plane_update i st)) \<longleftrightarrow> \<not> is_new st c i"
    by (simp add: is_new_def split: option.split)
  have rl: "cpu_repair_log (build_control_plane_update i st) = dget (cps_repair_logs st) i"
    by (simp add: build_control_plane_update_def)
  have shape: "c' = (if \<not> is_new st c i then c
      else (set_node i (push_control_plane_update (build_control_plane_update i st)
               (cl_nodes (case dget (cps_repair_logs st) i of None \<Rightarrow> c
                  | Some l \<Rightarrow> c\<lparr>cl_commit_history_by_node := dset (cl_commit_history_by_node c) i l\<rparr>) ! i))
             (case dget (cps_repair_logs st) i of None \<Rightarrow> c
                | Some l \<Rightarrow> c\<lparr>cl_commit_history_by_node := dset (cl_commit_history_by_node c) i l\<rparr>))
           \<lparr>cl_last_control_plane_updates :=
              dset (cl_last_control_plane_updates c) i (build_control_plane_update i st)\<rparr>)"
    unfolding c'_def push_control_plane_update_to_def Let_def assms(2) new rl
    by (simp add: set_node_def split: option.split)
  note defs = shape set_node_def
  show "same_rest c c'" by (simp add: defs same_rest_def split: option.split)
  show "cl_nodes c' = (cl_nodes c)[i := pushed_node st c i]"
    by (simp add: defs pushed_node_def split: option.split)
  show "dget (cl_last_control_plane_updates c') j =
       (if j = i then pushed_last st c i else dget (cl_last_control_plane_updates c) j)"
    by (simp add: defs pushed_last_def split: option.split)
  show "history c' j = (if j = i then pushed_history st c i else history c j)"
    by (simp add: defs pushed_history_def history_def dget_or_def split: option.split)
  show "dkeys (cl_commit_history_by_node c') = dkeys (cl_commit_history_by_node c)"
    if "i \<in> set (dkeys (cl_commit_history_by_node c))"
    using that by (simp add: defs split: option.split)
qed

lemma push_updates_eq:
  fixes st :: control_plane_state
  assumes w: "wired c" and k: "k \<le> cl_node_count c"
  defines "c' \<equiv> fold (push_control_plane_update_to st) [0..<k] c"
  shows "same_rest c c' \<and> length (cl_nodes c') = length (cl_nodes c) \<and>
    dkeys (cl_commit_history_by_node c') = dkeys (cl_commit_history_by_node c) \<and>
    (\<forall>j < cl_node_count c.
       cl_nodes c' ! j = (if j < k then pushed_node st c j else cl_nodes c ! j)) \<and>
    (\<forall>j. dget (cl_last_control_plane_updates c') j =
       (if j < k then pushed_last st c j else dget (cl_last_control_plane_updates c) j)) \<and>
    (\<forall>j. history c' j = (if j < k then pushed_history st c j else history c j))"
  using k unfolding c'_def
proof (induction k)
  case 0
  then show ?case by (simp add: same_rest_def)
next
  case (Suc k)
  let ?d = "fold (push_control_plane_update_to st) [0..<k] c"
  let ?e = "push_control_plane_update_to st k ?d"
  have IH: "same_rest c ?d" "length (cl_nodes ?d) = length (cl_nodes c)"
    "dkeys (cl_commit_history_by_node ?d) = dkeys (cl_commit_history_by_node c)"
    "\<And>j. j < cl_node_count c \<Longrightarrow> cl_nodes ?d ! j = (if j < k then pushed_node st c j else cl_nodes c ! j)"
    "\<And>j. dget (cl_last_control_plane_updates ?d) j =
       (if j < k then pushed_last st c j else dget (cl_last_control_plane_updates c) j)"
    "\<And>j. history ?d j = (if j < k then pushed_history st c j else history c j)"
    using Suc by simp_all
  have len: "length (cl_nodes c) = cl_node_count c" and kn: "k < cl_node_count c"
    and kd: "k \<in> set (dkeys (cl_commit_history_by_node c))"
    using w Suc.prems by (simp_all add: wired_def)
  have here: "cl_nodes ?d ! k = cl_nodes c ! k" "nd_node_id (cl_nodes ?d ! k) = k"
    using IH(4) [OF kn] w kn by (simp_all add: wired_def)
  have same: "is_new st ?d k = is_new st c k" by (simp add: is_new_def IH(5))
  have views: "pushed_node st ?d k = pushed_node st c k" "pushed_last st ?d k = pushed_last st c k"
    "pushed_history st ?d k = pushed_history st c k"
    by (simp_all add: pushed_node_def pushed_last_def pushed_history_def same here IH(5,6) split: option.split)
  have kl: "k < length (cl_nodes ?d)" using IH(2) len kn by simp
  note step = push_update_to_eq [OF kl here(2), where st = st, unfolded views]
  have "same_rest c ?e" using IH(1) step(1) by (simp add: same_rest_def)
  moreover have "dkeys (cl_commit_history_by_node ?e) = dkeys (cl_commit_history_by_node c)"
    using step(5) IH(3) kd by simp
  moreover have "\<forall>j < cl_node_count c.
      cl_nodes ?e ! j = (if j < Suc k then pushed_node st c j else cl_nodes c ! j)"
    using step(2) IH(4) kl by (simp add: nth_list_update less_Suc_eq)
  moreover have "\<forall>j. dget (cl_last_control_plane_updates ?e) j =
       (if j < Suc k then pushed_last st c j else dget (cl_last_control_plane_updates c) j)"
    using step(3) IH(5) by (simp add: less_Suc_eq)
  moreover have "\<forall>j. history ?e j = (if j < Suc k then pushed_history st c j else history c j)"
    using step(4) IH(6) by (simp add: less_Suc_eq)
  ultimately show ?case using step(2) IH(2) by simp
qed

lemma push_control_plane_updates_result:
  fixes st :: control_plane_state
  assumes w: "wired c"
  defines "c' \<equiv> push_control_plane_updates st c"
  shows "same_rest c c'" "wired c'"
    "\<And>j. j < cl_node_count c \<Longrightarrow> cl_nodes c' ! j = pushed_node st c j"
    "\<And>j. j < cl_node_count c \<Longrightarrow> dget (cl_last_control_plane_updates c') j = pushed_last st c j"
    "\<And>j. j < cl_node_count c \<Longrightarrow> history c' j = pushed_history st c j"
proof -
  have len: "length (cl_nodes c) = cl_node_count c" using w by (simp add: wired_def)
  have eq: "c' = fold (push_control_plane_update_to st) [0..<cl_node_count c] c"
    by (simp add: c'_def push_control_plane_updates_def len)
  note all = push_updates_eq [OF w order_refl, where st = st, folded eq]
  show "same_rest c c'"
    "\<And>j. j < cl_node_count c \<Longrightarrow> cl_nodes c' ! j = pushed_node st c j"
    "\<And>j. j < cl_node_count c \<Longrightarrow> dget (cl_last_control_plane_updates c') j = pushed_last st c j"
    "\<And>j. j < cl_node_count c \<Longrightarrow> history c' j = pushed_history st c j"
    using all by simp_all
  have "same_identity (cl_nodes c ! j) (pushed_node st c j)" for j
    by (simp add: pushed_node_def)
  then show "wired c'"
    using all w by (auto simp: wired_def same_rest_def same_identity_def)
qed


section \<open>Forwarding events\<close>

text \<open>What events may do to the controller: fail nodes, never activate one, never change configurations.\<close>

definition calm ::
  "control_plane_state \<times> control_plane \<Rightarrow> control_plane_state \<times> control_plane \<Rightarrow> bool" where
  "calm s s' \<longleftrightarrow>
     ic_run_id (cps_installed_config (fst s')) = ic_run_id (cps_installed_config (fst s)) \<and>
     cp_pending_future (snd s') = cp_pending_future (snd s) \<and>
     cp_node_count (snd s') = cp_node_count (snd s) \<and>
     cp_logs (snd s') = cp_logs (snd s) \<and>
     (\<forall>i < cp_node_count (snd s). is_active (fst s') i \<longrightarrow> is_active (fst s) i)"

lemma calm_refl [simp]: "calm s s"
  by (simp add: calm_def)

lemma calm_trans: "calm s s' \<Longrightarrow> calm s' s'' \<Longrightarrow> calm s s''"
  by (simp add: calm_def)

lemma controller_event_calm:
  assumes "controller_event ev s s'"
  shows "calm s s'"
proof -
  from assms obtain e where "observe_event e (snd s) = Inr (snd s')" by (auto simp: controller_event_def)
  then have "cp_logs (snd s') = cp_logs (snd s)" by (rule observe_event_logs)
  then show ?thesis
    using controller.event_keeps_config [OF assms] controller.event_activates_nobody [OF assms]
    by (simp add: calm_def)
qed

lemma submit_events:
  assumes "cp_inv [] st (cl_control_plane c)"
    and "\<forall>ev \<in> set evs. event_node ev < cp_node_count (cl_control_plane c)"
  shows "\<exists>cp' st' log. efold (\<lambda>ev. submit_control_plane_event (stamp_event timing r t ev)) evs c
      = Inr (c\<lparr>cl_control_plane := cp', cl_control_plane_events := log\<rparr>) \<and>
    cp_inv [] st' cp' \<and> calm (st, cl_control_plane c) (st', cp') \<and>
    (\<forall>ev \<in> set evs. is_interruption ev \<longrightarrow> \<not> is_active st' (event_node ev))"
  using assms
proof (induction evs arbitrary: c st)
  case Nil
  have "c = c\<lparr>cl_control_plane := cl_control_plane c, cl_control_plane_events := cl_control_plane_events c\<rparr>"
    by simp
  with Nil.prems(1) show ?case
    by (intro exI [of _ "cl_control_plane c"] exI [of _ st] exI [of _ "cl_control_plane_events c"]) simp
next
  case (Cons ev evs)
  let ?e = "stamp_event timing r t ev" and ?cp = "cl_control_plane c"
  have ev: "ev_event ?e = ev" by (simp add: stamp_event_def)
  have node: "event_node (ev_event ?e) < cp_node_count ?cp" using Cons.prems(2) ev by simp
  from observe_event_op [OF Cons.prems(1) node] ev obtain cp1 st1 where
    1: "observe_event ?e ?cp = Inr cp1" "cp_inv [] st1 cp1" by auto
  have step: "controller_event ev (st, ?cp) (st1, cp1)"
    using 1 Cons.prems ev by (auto simp: controller_event_def cp_inv_def)
  note calm1 = controller_event_calm [OF step]
  define c1 where "c1 = c\<lparr>cl_control_plane_events := cl_control_plane_events c @ [?e], cl_control_plane := cp1\<rparr>"
  have c1: "cl_control_plane c1 = cp1" by (simp add: c1_def)
  have sub: "submit_control_plane_event ?e c = Inr c1"
    using 1 by (simp add: submit_control_plane_event_def Let_def c1_def)
  have count: "cp_node_count cp1 = cp_node_count ?cp" using calm1 by (simp add: calm_def)
  have "cp_inv [] st1 (cl_control_plane c1)"
    "\<forall>ev \<in> set evs. event_node ev < cp_node_count (cl_control_plane c1)"
    using 1(2) Cons.prems(2) by (simp_all add: c1 count)
  from Cons.IH [OF this] obtain cp' st' log where
    2: "efold (\<lambda>ev. submit_control_plane_event (stamp_event timing r t ev)) evs c1
      = Inr (c1\<lparr>cl_control_plane := cp', cl_control_plane_events := log\<rparr>)"
    "cp_inv [] st' cp'" "calm (st1, cl_control_plane c1) (st', cp')"
    "\<forall>ev \<in> set evs. is_interruption ev \<longrightarrow> \<not> is_active st' (event_node ev)" by blast
  have "calm (st, ?cp) (st', cp')" using calm1 2(3) unfolding c1 by (rule calm_trans)
  moreover have "\<not> is_active st' (event_node ev)" if "is_interruption ev"
    using controller.interruption_deactivates [OF step that] 2(3) node ev count
    by (auto simp: calm_def c1)
  moreover have "efold (\<lambda>ev. submit_control_plane_event (stamp_event timing r t ev)) (ev # evs) c
      = Inr (c\<lparr>cl_control_plane := cp', cl_control_plane_events := log\<rparr>)"
    using sub 2(1) by (simp add: c1_def)
  ultimately show ?case using 2(2,4) by (intro exI conjI) auto
qed

end
