(* ===== verification/Cluster_Nodes.thy ===== *)
theory Cluster_Nodes
  imports Cluster_Control
begin

text \<open>
  A node through a round, as the cluster sees it: \<open>settled\<close> at the start, \<open>informed\<close> once the
  controller's state has been pushed, \<open>finished\<close> after its turn. \<open>s\<close> is the controller's published
  state together with the controller, \<open>lu\<close> the update the cluster remembers for the node.
\<close>


section \<open>The three phases\<close>

type_synonym service = "control_plane_state \<times> control_plane"

definition sound_node :: "service \<Rightarrow> node \<Rightarrow> bool" where
  "sound_node s n \<longleftrightarrow>
     excluded_ok n \<and> node_tied n \<and>
     tracks (ic_run_id (cps_installed_config (fst s))) (cp_pending_future (snd s)) n"

definition mail_ok :: "service \<Rightarrow> control_plane_update option \<Rightarrow> node \<Rightarrow> bool" where
  "mail_ok s lu n \<longleftrightarrow>
     (\<forall>u. update_due n = Some u \<longrightarrow> lu = Some u) \<and>
     (\<forall>u. lu = Some u \<longrightarrow>
        ic_run_id (cpu_installed_config u) \<le> ic_run_id (cps_installed_config (fst s)))"

definition settled ::
  "int \<Rightarrow> broadcast \<Rightarrow> service \<Rightarrow> control_plane_update option \<Rightarrow> nat \<Rightarrow> node \<Rightarrow> bool" where
  "settled r bc s lu i n \<longleftrightarrow>
     sound_node s n \<and> mail_ok s lu n \<and> nd_event_outbox n = [] \<and> halted_before r n \<and>
     (participates n \<longrightarrow> ready r bc n) \<and>
     (nd_status n \<noteq> RUNNING \<longrightarrow> \<not> is_active (fst s) i)"

definition informed ::
  "int \<Rightarrow> broadcast \<Rightarrow> service \<Rightarrow> control_plane_update option \<Rightarrow> nat \<Rightarrow> node \<Rightarrow> bool" where
  "informed r bc s lu i n \<longleftrightarrow>
     sound_node s n \<and> mail_ok s lu n \<and> nd_event_outbox n = [] \<and> halted_before r n \<and>
     (participates n \<longrightarrow> ready r bc n) \<and> stopped_ok n \<and>
     (nd_status n \<noteq> RUNNING \<and> is_active (fst s) i \<longrightarrow>
        (\<exists>u. update_due n = Some u \<and> cpu_membership_state u = ACTIVE))"

definition announced :: "node \<Rightarrow> int \<times> int" where
  "announced n = (nd_run_id n, stg_row (nd_previous_stage n))"

definition finished ::
  "int \<Rightarrow> service \<Rightarrow> control_plane_update option \<Rightarrow> nat \<Rightarrow> node \<Rightarrow> bool" where
  "finished r s lu i n \<longleftrightarrow>
     sound_node s n \<and> mail_ok s lu n \<and> nd_event_outbox n = [] \<and> halted_before (r + 1) n \<and>
     nd_current_round n = r \<and>
     (participates n \<longrightarrow> (\<forall>bc. bc i = Some (announced n) \<longrightarrow> pipe_ok r bc n)) \<and>
     (nd_status n \<noteq> RUNNING \<longrightarrow> \<not> is_active (fst s) i)"

text \<open>Events change none of it: the controller keeps its configurations and activates nobody.\<close>

lemma calm_sound: "calm s s' \<Longrightarrow> sound_node s n \<Longrightarrow> sound_node s' n"
  by (simp add: calm_def sound_node_def)

lemma calm_mail: "calm s s' \<Longrightarrow> mail_ok s lu n \<Longrightarrow> mail_ok s' lu n"
  by (simp add: calm_def mail_ok_def)

lemma calm_informed:
  "calm s s' \<Longrightarrow> i < cp_node_count (snd s) \<Longrightarrow> informed r bc s lu i n \<Longrightarrow> informed r bc s' lu i n"
  using calm_sound [of s s' n] calm_mail [of s s' lu n] by (auto simp: informed_def calm_def)

lemma calm_finished:
  "calm s s' \<Longrightarrow> i < cp_node_count (snd s) \<Longrightarrow> finished r s lu i n \<Longrightarrow> finished r s' lu i n"
  using calm_sound [of s s' n] calm_mail [of s s' lu n] by (auto simp: finished_def calm_def)


section \<open>Being informed\<close>

lemma build_update_sel [simp]:
  "cpu_installed_config (build_control_plane_update i st) = cps_installed_config st"
  "cpu_pending_config (build_control_plane_update i st) = cps_pending_config st"
  "cpu_membership_state (build_control_plane_update i st) = dget_or (cps_node_states st) i FAILED"
  by (simp_all add: build_control_plane_update_def)

lemma build_update_active:
  "cpu_membership_state (build_control_plane_update i st) = ACTIVE \<longleftrightarrow> is_active st i"
  by (cases "dget (cps_node_states st) i") (simp_all add: is_active_def dget_or_def)

lemma build_update_tied:
  assumes "cp_inv [] st cp"
  shows "update_tied (build_control_plane_update i st)"
proof -
  have "cps_pending_config st = cp_pending_future cp"
    "ic_membership_epoch (cps_installed_config st) = ic_run_id (cps_installed_config st)"
    using assms by (simp_all add: cp_inv_def states_ok_def)
  moreover have "pc_membership_epoch p = pc_run_id p" if "cp_pending_future cp = Some p" for p
  proof -
    have "\<exists>b. future_ok st cp b"
      using assms that by (auto simp: cp_inv_def episode_ok_def split: option.splits)
    with that calculation(2) show ?thesis by (auto simp: future_ok_def)
  qed
  ultimately show ?thesis by (auto simp: update_tied_def config_tied_def split: option.split)
qed

lemma push_update_epoch [simp]:
  "nd_installed_membership_epoch (push_control_plane_update u n) = nd_installed_membership_epoch n"
  by (simp add: push_control_plane_update_def)

lemma settled_informed:
  assumes round: "controller_round r' s (st, cp)"
    and settled: "settled r bc s lu (nd_node_id n) n" and id: "nd_node_id n < cp_node_count (snd s)"
  defines "u \<equiv> build_control_plane_update (nd_node_id n) st"
  defines "fresh \<equiv> (case lu of None \<Rightarrow> True | Some v \<Rightarrow> \<not> update_eq v u)"
  defines "n' \<equiv> (if fresh then push_control_plane_update u n else n)"
  shows "informed r bc (st, cp) (if fresh then Some u else lu) (nd_node_id n) n'"
proof -
  let ?R = "ic_run_id (cps_installed_config st)" and ?F = "cp_pending_future cp"
  have inv: "cp_inv [] st cp" using controller_round_step(1) [OF round] by simp
  have pend: "cps_pending_config st = ?F" using inv by (simp add: cp_inv_def states_ok_def)
  have tied: "update_tied u" using build_update_tied [OF inv] by (simp add: u_def)
  have tracks: "tracks ?R ?F n"
    using controller.tracks_round [OF round] settled by (simp add: settled_def sound_node_def)
  have sound: "sound_node (st, cp) n'"
    using settled tracks tied
    by (auto simp: sound_node_def settled_def n'_def node_tied_def tracks_def known_config_def u_def pend
        split: if_splits)
  have grows: "ic_run_id (cps_installed_config (fst s)) \<le> ?R" using controller.run_grows [OF round] by simp
  have mail: "mail_ok (st, cp) (if fresh then Some u else lu) n'"
    using settled grows by (force simp: mail_ok_def settled_def n'_def u_def)
  have due: "update_due n' = Some v \<Longrightarrow> update_eq v u" for v
    using settled by (auto simp: n'_def settled_def mail_ok_def fresh_def split: if_splits)
  have chg: "changes_config v n'" if "\<not> is_active (fst s) (nd_node_id n)" "is_active st (nd_node_id n)"
    "update_eq v u" for v
  proof -
    have "ic_run_id (cpu_installed_config v) = ?R" using update_eqD(1) [OF that(3)] by (simp add: u_def)
    then have "changes_config v n"
      using controller.reactivation_changes_config [OF round, of n v] settled id that(1,2)
      by (simp add: settled_def sound_node_def)
    then show ?thesis by (simp add: changes_config_def n'_def push_control_plane_update_def)
  qed
  have stop: "nd_status n' \<noteq> RUNNING \<Longrightarrow> \<not> is_active (fst s) (nd_node_id n)"
    using settled by (auto simp: settled_def n'_def split: if_splits)
  have "stopped_ok n'"
    unfolding stopped_ok_def
  proof (intro impI allI)
    fix v assume st: "nd_status n' \<noteq> RUNNING \<and> nd_membership_state n' = ACTIVE"
      and v: "update_due n' = Some v \<and> cpu_membership_state v = ACTIVE"
    have eq: "update_eq v u" using due v by simp
    then have "is_active st (nd_node_id n)"
      using update_eqD(2) [OF eq] v build_update_active [of "nd_node_id n" st] by (simp add: u_def)
    with chg stop st eq show "changes_config v n'" by blast
  qed
  moreover have "\<exists>v. update_due n' = Some v \<and> cpu_membership_state v = ACTIVE"
    if stopped: "nd_status n' \<noteq> RUNNING" and act: "is_active st (nd_node_id n)"
  proof -
    have "ic_run_id (cps_installed_config (fst s)) < ?R"
      using controller.reactivation_moves_run [OF round, of "nd_node_id n"] id stop stopped act by simp
    moreover have "ic_run_id (cpu_installed_config v) \<le> ic_run_id (cps_installed_config (fst s))"
      if "lu = Some v" for v using settled that by (simp add: settled_def mail_ok_def)
    ultimately have fresh
      using update_eqD(1) by (fastforce simp: fresh_def u_def split: option.splits)
    then show ?thesis using act build_update_active by (simp add: n'_def u_def)
  qed
  moreover have "participates n' \<longrightarrow> ready r bc n'" "nd_event_outbox n' = []" "halted_before r n'"
    using settled by (auto simp: n'_def settled_def ready_def halted_before_def)
  ultimately show ?thesis using sound mail by (auto simp: informed_def)
qed


section \<open>The turn\<close>

definition turn_of :: "(string \<Rightarrow> string) \<Rightarrow> int \<Rightarrow> bool \<Rightarrow> node \<Rightarrow> node \<times> node_round_result" where
  "turn_of sha r active n = advance_round sha r (if \<not> active then crash r n else n)"

text \<open>A node crashed in this very round does nothing else.\<close>

lemma turn_crash:
  assumes "nd_status n = RUNNING"
  shows "turn_of sha r False n = ((crash r n)\<lparr>nd_current_round := r\<rparr>, idle_result)"
  using assms by (simp add: turn_of_def advance_round_def crash_def emit_control_plane_event_def Let_def)

lemma turn_no_crash:
  "active \<or> nd_status n \<noteq> RUNNING \<Longrightarrow> turn_of sha r active n = advance_round sha r n"
  using crash_status(3) [of n r] by (auto simp: turn_of_def)

definition interrupted_by :: "nat \<Rightarrow> node_event list \<Rightarrow> bool" where
  "interrupted_by i es \<longleftrightarrow> (\<exists>ev \<in> set es. is_interruption ev \<and> event_node ev = i)"

lemma set_round_local [simp]:
  "tracks R F (n\<lparr>nd_current_round := r\<rparr>) = tracks R F n"
  "halted_before k (n\<lparr>nd_current_round := r\<rparr>) = halted_before k n"
  by (simp_all add: tracks_def halted_before_def)

lemma node_cong [simp]:
  "sound_node s (n\<lparr>nd_current_round := r\<rparr>) = sound_node s n"
  "mail_ok s lu (n\<lparr>nd_current_round := r\<rparr>) = mail_ok s lu n"
  "sound_node s n \<Longrightarrow> sound_node s (crash r n)"
  "mail_ok s lu (crash r n) = mail_ok s lu n"
  by (simp_all add: sound_node_def mail_ok_def)

lemma clear_outbox_local [simp]:
  "excluded_ok (n\<lparr>nd_event_outbox := es\<rparr>) = excluded_ok n"
  "node_tied (n\<lparr>nd_event_outbox := es\<rparr>) = node_tied n"
  "tracks R F (n\<lparr>nd_event_outbox := es\<rparr>) = tracks R F n"
  "halted_before k (n\<lparr>nd_event_outbox := es\<rparr>) = halted_before k n"
  "update_due (n\<lparr>nd_event_outbox := es\<rparr>) = update_due n"
  "participates (n\<lparr>nd_event_outbox := es\<rparr>) = participates n"
  "pipe_ok k bc (n\<lparr>nd_event_outbox := es\<rparr>) = pipe_ok k bc n"
  "announced (n\<lparr>nd_event_outbox := es\<rparr>) = announced n"
  "sound_node s (n\<lparr>nd_event_outbox := es\<rparr>) = sound_node s n"
  "mail_ok s lu (n\<lparr>nd_event_outbox := es\<rparr>) = mail_ok s lu n"
  "same_identity m (n\<lparr>nd_event_outbox := es\<rparr>) = same_identity m n"
  by (simp_all add: excluded_ok_def node_tied_def tracks_def halted_before_def update_due_def
      participates_def pipe_ok_def announced_def sound_node_def mail_ok_def same_identity_def)

text \<open>What holds of a node right after its turn, its events still in the outbox.\<close>

definition turned :: "int \<Rightarrow> service \<Rightarrow> control_plane_update option \<Rightarrow> nat \<Rightarrow> node \<Rightarrow> bool" where
  "turned r s lu i n \<longleftrightarrow>
     sound_node s n \<and> mail_ok s lu n \<and> halted_before (r + 1) n \<and> nd_current_round n = r \<and>
     (participates n \<longrightarrow> (\<forall>bc. bc i = Some (announced n) \<longrightarrow> pipe_ok r bc n)) \<and>
     own_events i (nd_event_outbox n) \<and>
     (nd_status n \<noteq> RUNNING \<longrightarrow> \<not> is_active (fst s) i \<or> interrupted_by i (nd_event_outbox n))"

lemma turn_node_crash:
  assumes inf: "informed r bc s lu (nd_node_id n) n" and run: "nd_status n = RUNNING"
  shows "turned r s lu (nd_node_id n) (fst (turn_of sha r False n))"
proof -
  define m where "m = (crash r n)\<lparr>nd_current_round := r\<rparr>"
  have "nd_event_outbox m = [NodeCrashed (nd_node_id n)]"
    using crash_status(2) [OF run, of r] inf by (simp add: informed_def m_def)
  then have ev: "own_events (nd_node_id n) (nd_event_outbox m)"
    "interrupted_by (nd_node_id n) (nd_event_outbox m)"
    by (simp_all add: own_events_def interrupted_by_def is_interruption_def event_node_def)
  have "halted_before (r + 1) (crash r n)"
    using inf by (intro crash_halted_before) (simp add: informed_def)
  then have "halted_before (r + 1) m" by (simp add: m_def)
  moreover have "sound_node s m" "mail_ok s lu m" using inf by (simp_all add: informed_def m_def)
  moreover have "\<not> participates m" "nd_current_round m = r" by (simp_all add: m_def crash_status(4))
  ultimately have "turned r s lu (nd_node_id n) m" using ev unfolding turned_def by blast
  then show ?thesis by (simp add: turn_crash [OF run] m_def)
qed

lemma turn_node_advance:
  assumes inf: "informed r bc s lu (nd_node_id n) n" and nd: "not_due r (cp_pending_future (snd s))"
  shows "turned r s lu (nd_node_id n) (fst (advance_round sha r n))"
proof -
  let ?n' = "fst (advance_round sha r n)"
  from inf have i: "excluded_ok n" "node_tied n" "stopped_ok n" "participates n \<Longrightarrow> ready r bc n"
    "tracks (ic_run_id (cps_installed_config (fst s))) (cp_pending_future (snd s)) n"
    "halted_before r n" "nd_event_outbox n = []" "mail_ok s lu n"
    by (simp_all add: informed_def sound_node_def)
  have "sound_node s ?n'"
    using i(1,2,5) nd
    by (simp add: sound_node_def advance_round_excluded_ok advance_round_tied advance_round_tracks)
  moreover have "mail_ok s lu ?n'" using i(8) advance_round_mailbox [of sha r n] unfolding mail_ok_def by blast
  moreover have "halted_before (r + 1) ?n'"
    using i(6) by (intro advance_round_halted_before) (force simp: halted_before_def)
  moreover have "pipe_ok r bc' ?n'"
    if "participates ?n'" "bc' (nd_node_id n) = Some (announced ?n')" for bc'
    using that i(1,3,4) by (intro advance_round_pipe) (simp_all add: announced_def)
  moreover have "own_events (nd_node_id n) (nd_event_outbox ?n')"
    using advance_round_events [of n sha r] i(7) by simp
  moreover have "\<not> is_active (fst s) (nd_node_id n) \<or> interrupted_by (nd_node_id n) (nd_event_outbox ?n')"
    if stop: "nd_status ?n' \<noteq> RUNNING"
    using advance_round_stopped [OF stop]
  proof
    assume "\<exists>hr. NodeHalted (nd_node_id n) hr \<in> set (nd_event_outbox ?n')"
    then show ?thesis by (force simp: interrupted_by_def is_interruption_def event_node_def)
  next
    assume old: "nd_status n \<noteq> RUNNING \<and> (nd_status n = CRASHED \<and> nd_halted_round n = Some r \<or>
      (\<forall>u. update_due n = Some u \<longrightarrow> cpu_membership_state u = FAILED))"
    with i(6) have "\<forall>u. update_due n = Some u \<longrightarrow> cpu_membership_state u = FAILED"
      by (auto simp: halted_before_def)
    with old inf show ?thesis by (auto simp: informed_def)
  qed
  ultimately show ?thesis by (simp add: turned_def)
qed

lemma turn_node:
  assumes "informed r bc s lu (nd_node_id n) n" and "not_due r (cp_pending_future (snd s))"
  shows "turned r s lu (nd_node_id n) (fst (turn_of sha r active n))"
proof (cases "active \<or> nd_status n \<noteq> RUNNING")
  case True
  with turn_node_advance [OF assms, of sha] show ?thesis by (simp add: turn_no_crash)
next
  case False
  with turn_node_crash [OF assms(1), of sha] show ?thesis by simp
qed

lemma turned_finished:
  assumes "turned r s lu i n" "calm s s'" "i < cp_node_count (snd s)"
    and "\<forall>ev \<in> set (nd_event_outbox n). is_interruption ev \<longrightarrow> \<not> is_active (fst s') (event_node ev)"
  shows "finished r s' lu i (n\<lparr>nd_event_outbox := []\<rparr>)"
  using assms calm_sound [OF assms(2), of n] calm_mail [OF assms(2), of lu n]
  by (auto simp: turned_def finished_def interrupted_by_def calm_def)

lemma turn_identity: "same_identity n (fst (turn_of sha r active n))"
  using same_identity_trans [OF crash_local(5) advance_round_identity] by (simp add: turn_of_def)

lemma turn_commit:
  assumes inf: "informed r bc s lu i n"
    and c: "c \<in> set (nrr_new_commits (snd (turn_of sha r active n)))"
  shows "\<exists>run a. backed (nd_node_count n) bc run a \<and> 2 \<le> r \<and>
    c = canonical_commit (nd_payload_factory n) (nd_node_count n) (r - 2) run a"
proof (cases "active \<or> nd_status n \<noteq> RUNNING")
  case True
  then show ?thesis
    using inf c
    by (intro advance_round_commit [of c sha r n bc])
      (simp_all add: turn_no_crash informed_def sound_node_def)
next
  case False
  with c show ?thesis by (simp add: turn_crash idle_result_def)
qed

lemma turn_commits: "nrr_new_commits (snd (turn_of sha r active n)) = [] \<or>
    (\<exists>c. nrr_new_commits (snd (turn_of sha r active n)) = [c])"
  unfolding turn_of_def by (rule advance_round_commits)

lemma turn_outbound:
  assumes "nrr_outbound (snd (turn_of sha r active n)) = Some ob"
  defines "n' \<equiv> fst (turn_of sha r active n)"
  shows "ob_packet ob = \<lparr>pkt_round_id = r, pkt_src_id = nd_node_id n, pkt_run_id = fst (announced n'),
      pkt_row = snd (announced n'), pkt_payload = nd_payload_factory n (nd_node_id n) r\<rparr>"
    and "set (ob_destinations ob) \<subseteq> {..<nd_node_count n} - {nd_node_id n}"
proof -
  let ?n0 = "if \<not> active then crash r n else n"
  from assms(1) have ob: "nrr_outbound (snd (advance_round sha r ?n0)) = Some ob" by (simp add: turn_of_def)
  from advance_round_outbound [OF ob]
  show "ob_packet ob = \<lparr>pkt_round_id = r, pkt_src_id = nd_node_id n, pkt_run_id = fst (announced n'),
      pkt_row = snd (announced n'), pkt_payload = nd_payload_factory n (nd_node_id n) r\<rparr>"
    "set (ob_destinations ob) \<subseteq> {..<nd_node_count n} - {nd_node_id n}"
    by (simp_all add: n'_def turn_of_def announced_def split: if_splits)
qed

end
