(* ===== verification/Cluster_Rounds.thy ===== *)
theory Cluster_Rounds
  imports Cluster_Nodes
begin

text \<open>
  One round of the run: the pushes, the turn of every node, the network. The invariant of a round
  start speaks of the nodes (\<open>settled\<close>), of the packets in flight and of the logs: every entry of
  every history and of every repair log is the one entry its round can have.
\<close>


section \<open>Logs\<close>

text \<open>
  The entry a round leaves in a log: the commit the broadcast decides, stamped with the boundary
  two rounds later at which it is judged.
\<close>

definition timed_commit ::
  "(nat \<Rightarrow> int \<Rightarrow> string) \<Rightarrow> nat \<Rightarrow> simulation_timing \<Rightarrow> int \<Rightarrow> int \<Rightarrow> int \<Rightarrow> committed_round_record" where
  "timed_commit pf n timing rnd rid a =
     from_committed_round (Some ((rnd + 2) * round_length_ns timing))
       (Some ((rnd + 2) * round_length_ns timing + app_delivery_delay_ns timing))
       (canonical_commit pf n rnd rid a)"

definition genuine ::
  "(nat \<Rightarrow> int \<Rightarrow> string) \<Rightarrow> nat \<Rightarrow> simulation_timing \<Rightarrow> committed_round_record \<Rightarrow> bool" where
  "genuine pf n timing e \<longleftrightarrow>
     0 \<le> cr_round e \<and>
     (\<exists>rid a. e = timed_commit pf n timing (cr_round e) rid a \<and>
        (\<exists>Q. majority n Q \<and> Q \<subseteq> bit_set a))"

definition log_ok :: "int \<Rightarrow> committed_round_record list \<Rightarrow> bool" where
  "log_ok b l \<longleftrightarrow> sorted_wrt (<) (map cr_round l) \<and> (\<forall>e \<in> set l. cr_round e < b)"

definition entries :: "'w cluster \<Rightarrow> control_plane \<Rightarrow> committed_round_record set" where
  "entries c cp = (\<Union>m < cl_node_count c. set (history c m)) \<union> \<Union> (set ` cp_logs cp)"

text \<open>
  In round \<open>r\<close>, \<open>i\<close> nodes have had their turn; entries of round \<open>r - 2\<close> are the ones decided now,
  from the broadcast \<open>bc\<close> of the round before.
\<close>

definition logs_ok :: "int \<Rightarrow> broadcast \<Rightarrow> nat \<Rightarrow> 'w cluster \<Rightarrow> control_plane \<Rightarrow> bool" where
  "logs_ok r bc i c cp \<longleftrightarrow>
     inj_on cr_round (entries c cp) \<and>
     (\<forall>e \<in> entries c cp. genuine (cl_payload_factory c) (cl_node_count c) (cl_timing c) e) \<and>
     (\<forall>e \<in> entries c cp. cr_round e = r - 2 \<longrightarrow>
        (\<exists>rid a. backed (cl_node_count c) bc rid a \<and>
           e = timed_commit (cl_payload_factory c) (cl_node_count c) (cl_timing c) (r - 2) rid a)) \<and>
     (\<forall>m < cl_node_count c. log_ok (if m < i then r - 1 else r - 2) (history c m)) \<and>
     (\<forall>l \<in> cp_logs cp. log_ok (r - 2) l)"

lemma timed_commit_round [simp]: "cr_round (timed_commit pf n timing rnd rid a) = rnd"
  by (simp add: timed_commit_def canonical_commit_def)

lemma log_ok_mono: "log_ok b l \<Longrightarrow> b \<le> b' \<Longrightarrow> log_ok b' l"
  by (force simp: log_ok_def)

lemma log_ok_snoc: "log_ok b l \<Longrightarrow> b \<le> cr_round e \<Longrightarrow> cr_round e < b' \<Longrightarrow> log_ok b' (l @ [e])"
  by (force simp: log_ok_def sorted_wrt_append)

text \<open>The pushes move logs around but make none: the entries stay among the old ones.\<close>

lemma logs_ok_moved:
  assumes ok: "logs_ok r bc 0 c cp"
    and same: "cl_node_count c' = cl_node_count c" "cl_payload_factory c' = cl_payload_factory c"
      "cl_timing c' = cl_timing c"
    and hist: "\<And>m. m < cl_node_count c \<Longrightarrow> history c' m \<in> history c ` {..<cl_node_count c} \<union> cp_logs cp"
    and logs: "cp_logs cp' \<subseteq> history c ` {..<cl_node_count c} \<union> cp_logs cp"
  shows "logs_ok r bc 0 c' cp'"
proof -
  have sub: "entries c' cp' \<subseteq> entries c cp"
    using hist logs unfolding entries_def same(1) by (fastforce simp: image_iff)
  have all: "log_ok (r - 2) l" if "l \<in> history c ` {..<cl_node_count c} \<union> cp_logs cp" for l
    using that ok by (auto simp: logs_ok_def)
  have "inj_on cr_round (entries c' cp')"
    using ok sub inj_on_subset unfolding logs_ok_def by blast
  moreover have "\<forall>e \<in> entries c' cp'. e \<in> entries c cp" using sub by blast
  moreover have "\<forall>m < cl_node_count c'. log_ok (if m < 0 then r - 1 else r - 2) (history c' m)"
    "\<forall>l \<in> cp_logs cp'. log_ok (r - 2) l"
    using hist logs all by (auto simp: same)
  ultimately show ?thesis
    using ok unfolding logs_ok_def same by blast
qed

lemma logs_ok_turn:
  assumes ok: "logs_ok r bc i c cp" and i: "i < cl_node_count c"
    and same: "cl_node_count c' = cl_node_count c" "cl_payload_factory c' = cl_payload_factory c"
      "cl_timing c' = cl_timing c"
    and hist: "\<And>m. history c' m = (if m = i then history c i @ new else history c m)"
    and logs: "cp_logs cp' = cp_logs cp"
    and new: "new = [] \<or> (\<exists>rid a. backed (cl_node_count c) bc rid a \<and> 2 \<le> r \<and>
        new = [timed_commit (cl_payload_factory c) (cl_node_count c) (cl_timing c) (r - 2) rid a])"
  shows "logs_ok r bc (Suc i) c' cp'"
proof -
  let ?t = "timed_commit (cl_payload_factory c) (cl_node_count c) (cl_timing c)"
  have ents: "entries c' cp' = entries c cp \<union> set new"
    using i unfolding entries_def same(1) logs hist by (auto split: if_splits)
  have at: "\<exists>rid a. backed (cl_node_count c) bc rid a \<and> e = ?t (r - 2) rid a"
    if e: "e \<in> entries c' cp'" "cr_round e = r - 2" for e
  proof (cases "e \<in> set new")
    case True
    from new show ?thesis
    proof
      assume "\<exists>rid a. backed (cl_node_count c) bc rid a \<and> 2 \<le> r \<and> new = [?t (r - 2) rid a]"
      then obtain rid a where "backed (cl_node_count c) bc rid a" "new = [?t (r - 2) rid a]" by blast
      with True show ?thesis by (intro exI [of _ rid] exI [of _ a]) simp
    qed (use True in simp)
  next
    case False
    with e ok show ?thesis unfolding ents logs_ok_def by blast
  qed
  have "inj_on cr_round (entries c' cp')"
  proof (rule inj_onI)
    fix e e' assume e: "e \<in> entries c' cp'" "e' \<in> entries c' cp'" "cr_round e = cr_round e'"
    show "e = e'"
    proof (cases "cr_round e = r - 2")
      case True
      with at [OF e(1)] at [OF e(2)] e(3) backed_unique show ?thesis by metis
    next
      case False
      with e new have "e \<in> entries c cp" "e' \<in> entries c cp" by (auto simp: ents)
      with e(3) ok show ?thesis unfolding logs_ok_def by (blast dest: inj_onD)
    qed
  qed
  moreover have "genuine (cl_payload_factory c) (cl_node_count c) (cl_timing c) e"
    if e: "e \<in> entries c' cp'" for e
  proof (cases "e \<in> set new")
    case True
    from new show ?thesis
    proof
      assume "\<exists>rid a. backed (cl_node_count c) bc rid a \<and> 2 \<le> r \<and> new = [?t (r - 2) rid a]"
      then obtain rid a where b: "backed (cl_node_count c) bc rid a" "2 \<le> r" "new = [?t (r - 2) rid a]" by blast
      with True have "e = ?t (r - 2) rid a" by simp
      with backed_majority [OF b(1)] b(2) show ?thesis by (auto simp: genuine_def)
    qed (use True in simp)
  next
    case False
    with e ok show ?thesis unfolding ents logs_ok_def by blast
  qed
  moreover have "log_ok (if m < Suc i then r - 1 else r - 2) (history c' m)" if "m < cl_node_count c" for m
  proof -
    have old: "log_ok (if m < i then r - 1 else r - 2) (history c m)" using ok that by (simp add: logs_ok_def)
    show ?thesis
    proof (cases "m = i")
      case True
      with old new show ?thesis
        by (auto simp: hist intro: log_ok_mono log_ok_snoc [where b = "r - 2"])
    next
      case False
      with old show ?thesis by (simp add: hist less_Suc_eq)
    qed
  qed
  ultimately show ?thesis using ok at by (simp add: logs_ok_def same logs)
qed

lemma logs_ok_next:
  assumes ok: "logs_ok r bc (cl_node_count c) c cp"
    and same: "cl_node_count c' = cl_node_count c" "cl_payload_factory c' = cl_payload_factory c"
      "cl_timing c' = cl_timing c" "cl_commit_history_by_node c' = cl_commit_history_by_node c"
  shows "logs_ok (r + 1) bc' 0 c' cp"
proof -
  have hist: "history c' m = history c m" for m by (simp add: history_def same)
  have ents: "entries c' cp = entries c cp" by (simp add: entries_def same hist)
  have bound: "cr_round e < r - 1" if "e \<in> entries c cp" for e
    using that ok by (fastforce simp: logs_ok_def entries_def log_ok_def)
  have "\<forall>l \<in> cp_logs cp. log_ok (r - 1) l" using ok by (auto simp: logs_ok_def intro: log_ok_mono)
  with ok bound show ?thesis by (fastforce simp: logs_ok_def ents hist same)
qed

end
