(* ===== verification/Cluster_Safety.thy ===== *)
theory Cluster_Safety
  imports Cluster_Rounds
begin

text \<open>
  The run as a whole: the invariant in the middle of a round is kept by every node's turn, the
  invariant at the start of a round by the round, and what the invariant says of the result of a
  run.
\<close>


section \<open>In the middle of a round\<close>

text \<open>The broadcast so far: the first \<open>i\<close> nodes have sent.\<close>

definition partial_broadcast :: "nat \<Rightarrow> node list \<Rightarrow> broadcast" where
  "partial_broadcast i ns m = (if m < i then broadcast_of ns m else None)"

definition mid_round :: "int \<Rightarrow> broadcast \<Rightarrow> nat \<Rightarrow> 'w cluster \<Rightarrow> control_plane_state \<Rightarrow> bool" where
  "mid_round r bc i c st \<longleftrightarrow>
     wired c \<and> faithful (cl_network_fault_model c) \<and>
     cp_inv [] st (cl_control_plane c) \<and> cp_node_count (cl_control_plane c) = cl_node_count c \<and>
     not_due r (cp_pending_future (cl_control_plane c)) \<and>
     (\<forall>m < cl_node_count c.
        if m < i then finished r (st, cl_control_plane c) (dget (cl_last_control_plane_updates c) m) m (cl_nodes c ! m)
        else informed r bc (st, cl_control_plane c) (dget (cl_last_control_plane_updates c) m) m (cl_nodes c ! m)) \<and>
     logs_ok r bc i c (cl_control_plane c) \<and>
     all_scheduled (in_flight (cl_node_count c) (cl_payload_factory c) r
       (partial_broadcast i (cl_nodes c))) c"

lemma in_flight_mono:
  "in_flight n pf r bc it \<Longrightarrow> (\<And>m x. bc m = Some x \<Longrightarrow> bc' m = Some x) \<Longrightarrow> in_flight n pf r bc' it"
  by (auto simp: in_flight_def)

lemma partial_broadcast_grows:
  assumes "partial_broadcast i ns m = Some x"
  shows "partial_broadcast (Suc i) (ns[i := n]) m = Some x"
  using assms by (auto simp: partial_broadcast_def broadcast_of_def split: if_splits)

lemma all_scheduled_mono:
  "all_scheduled P c \<Longrightarrow> (\<And>it. P it \<Longrightarrow> Q it) \<Longrightarrow> all_scheduled Q c"
  unfolding all_scheduled_def by blast

lemma schedule_outbound_sel:
  "cl_nodes (schedule_outbound_packet ob c) = cl_nodes c"
  "same_frame c (schedule_outbound_packet ob c)"
proof -
  let ?item = "\<lambda>dst. \<lparr>di_dst = dst, di_packet = ob_packet ob, di_fault_applied = False\<rparr>"
  have "cl_nodes (fold (\<lambda>dst. schedule_packet_delivery k (?item dst)) ds c) = cl_nodes c \<and>
      same_frame c (fold (\<lambda>dst. schedule_packet_delivery k (?item dst)) ds c)" for k ds
  proof (induction ds arbitrary: c)
    case (Cons d ds)
    from Cons [of "schedule_packet_delivery k (?item d) c"] show ?case
      using same_frame_trans [OF schedule_sel(3)] by auto
  qed simp
  then show "cl_nodes (schedule_outbound_packet ob c) = cl_nodes c"
    "same_frame c (schedule_outbound_packet ob c)" by (simp_all add: schedule_outbound_packet_def)
qed

lemma schedule_outbound_all:
  assumes "all_scheduled P c"
    and "\<And>dst. dst \<in> set (ob_destinations ob) \<Longrightarrow>
      P \<lparr>di_dst = dst, di_packet = ob_packet ob, di_fault_applied = False\<rparr>"
  shows "all_scheduled P (schedule_outbound_packet ob c)"
proof -
  let ?item = "\<lambda>dst. \<lparr>di_dst = dst, di_packet = ob_packet ob, di_fault_applied = False\<rparr>"
  have "all_scheduled P (fold (\<lambda>dst. schedule_packet_delivery k (?item dst)) ds c)"
    if "all_scheduled P c" "\<And>dst. dst \<in> set ds \<Longrightarrow> P (?item dst)" for k ds c
    using that by (induction ds arbitrary: c) (simp_all add: all_scheduled_schedule)
  from this [OF assms] show ?thesis unfolding schedule_outbound_packet_def by simp
qed


section \<open>The turn of a node\<close>

text \<open>What a turn of the node in slot \<open>i\<close> does to the cluster, given how its outbox is received.\<close>

definition turn_effect ::
  "nat \<Rightarrow> node \<Rightarrow> node_round_result \<Rightarrow> committed_round_record list \<Rightarrow> control_plane \<Rightarrow> 'w cluster \<Rightarrow> 'w cluster \<Rightarrow> bool" where
  "turn_effect i n res new cp c c' \<longleftrightarrow>
     cl_node_count c' = cl_node_count c \<and> cl_timing c' = cl_timing c \<and> cl_rounds c' = cl_rounds c \<and>
     cl_payload_factory c' = cl_payload_factory c \<and>
     cl_network_fault_model c' = cl_network_fault_model c \<and>
     cl_node_fault_model c' = cl_node_fault_model c \<and>
     cl_last_control_plane_updates c' = cl_last_control_plane_updates c \<and>
     cl_control_plane c' = cp \<and>
     cl_nodes c' = (cl_nodes c)[i := n\<lparr>nd_event_outbox := []\<rparr>] \<and>
     (i \<in> set (dkeys (cl_commit_history_by_node c)) \<longrightarrow>
        dkeys (cl_commit_history_by_node c') = dkeys (cl_commit_history_by_node c)) \<and>
     (\<forall>j. history c' j = (if j = i then history c i @ new else history c j)) \<and>
     (\<forall>P. all_scheduled P c \<and>
        (\<forall>ob dst. nrr_outbound res = Some ob \<and> dst \<in> set (ob_destinations ob) \<longrightarrow>
           P \<lparr>di_dst = dst, di_packet = ob_packet ob, di_fault_applied = False\<rparr>)
        \<longrightarrow> all_scheduled P c')"

definition timed_entries :: "simulation_timing \<Rightarrow> int \<Rightarrow> node_round_result \<Rightarrow> committed_round_record list" where
  "timed_entries timing r res =
     map (from_committed_round (Some (r * round_length_ns timing))
            (Some (r * round_length_ns timing + app_delivery_delay_ns timing))) (nrr_new_commits res)"

lemma schedule_outbound_effect:
  assumes "turn_effect i n res new cp c c3"
  shows "turn_effect i n res new cp c
    (case nrr_outbound res of None \<Rightarrow> c3 | Some ob \<Rightarrow> schedule_outbound_packet ob c3)"
proof (cases "nrr_outbound res")
  case (Some ob)
  let ?c' = "schedule_outbound_packet ob c3"
  have "all_scheduled P ?c'"
    if "all_scheduled P c" "\<forall>ob' dst. nrr_outbound res = Some ob' \<and> dst \<in> set (ob_destinations ob') \<longrightarrow>
           P \<lparr>di_dst = dst, di_packet = ob_packet ob', di_fault_applied = False\<rparr>" for P
    using that assms Some by (intro schedule_outbound_all) (auto simp: turn_effect_def)
  moreover have "history ?c' j = history c3 j" for j
    using schedule_outbound_sel(2) [of c3 ob] by (simp add: history_def same_frame_def)
  ultimately show ?thesis
    using assms schedule_outbound_sel(1) [of ob c3] schedule_outbound_sel(2) [of c3 ob] Some
    unfolding turn_effect_def same_frame_def option.case by simp
qed (use assms in simp)

lemma node_turn_effect:
  assumes id: "nd_node_id (cl_nodes c ! i) = i" and slot: "i < length (cl_nodes c)"
    and fault: "cl_node_fault_model c i r (cl_world c) = (active, w)"
    and turn: "turn_of sha r active (cl_nodes c ! i) = (n, res)"
    and inv: "cp_inv [] st (cl_control_plane c)"
    and bound: "\<forall>ev \<in> set (nd_event_outbox n). event_node ev < cp_node_count (cl_control_plane c)"
  shows "\<exists>c' commands' cp st'. node_turn sha r i (c, commands) = Inr (c', commands') \<and>
    turn_effect i n res (timed_entries (cl_timing c) r res) cp c c' \<and>
    cp_inv [] st' cp \<and> calm (st, cl_control_plane c) (st', cp) \<and>
    (\<forall>ev \<in> set (nd_event_outbox n). is_interruption ev \<longrightarrow> \<not> is_active st' (event_node ev))"
proof -
  let ?new = "timed_entries (cl_timing c) r res"
  let ?start = "r * round_length_ns (cl_timing c)"
  define c1 where "c1 = set_node i n (c\<lparr>cl_world := w\<rparr>)"
  define c2 where "c2 = (if ?new = [] then c1
    else c1\<lparr>cl_commit_history_by_node :=
       dset (cl_commit_history_by_node c1) i (dget_or (cl_commit_history_by_node c1) i [] @ ?new)\<rparr>)"
  define d where "d = set_node i (n\<lparr>nd_event_outbox := []\<rparr>) c2"
  have c2: "cl_nodes c2 ! i = n" "cl_timing c2 = cl_timing c"
    and d: "cl_control_plane d = cl_control_plane c"
    using slot by (simp_all add: c1_def c2_def d_def set_node_def)
  from submit_events [of st d "nd_event_outbox n" "cl_timing c" r ?start] inv bound d
  obtain cp st' evlog where
    ev: "efold (\<lambda>ev. submit_control_plane_event (stamp_event (cl_timing c) r ?start ev)) (nd_event_outbox n) d
      = Inr (d\<lparr>cl_control_plane := cp, cl_control_plane_events := evlog\<rparr>)"
    and post: "cp_inv [] st' cp" "calm (st, cl_control_plane c) (st', cp)"
      "\<forall>ev \<in> set (nd_event_outbox n). is_interruption ev \<longrightarrow> \<not> is_active st' (event_node ev)"
    by auto
  define c3 where "c3 = d\<lparr>cl_control_plane := cp, cl_control_plane_events := evlog\<rparr>"
  define c' where "c' = (case nrr_outbound res of None \<Rightarrow> c3 | Some ob \<Rightarrow> schedule_outbound_packet ob c3)"
  have pull: "pull_node_control_plane_events i r ?start c2 = Inr c3"
    using ev by (simp add: pull_node_control_plane_events_def pull_control_plane_events_def c2 c3_def d_def)
  have "node_turn sha r i (c, commands) =
      Inr (c', commands \<union> set (concat (map (\<lambda>e. map snd (cr_proposals e)) ?new)))"
    unfolding node_turn_def Let_def prod.case id fault turn [unfolded turn_of_def]
      timed_entries_def [symmetric] c1_def [symmetric] c2_def [symmetric] pull
    by (simp add: c'_def)
  moreover have "turn_effect i n res ?new cp c c3"
    by (auto simp: turn_effect_def c3_def d_def c2_def c1_def set_node_def history_def dget_or_def all_scheduled_def)
  then have "turn_effect i n res ?new cp c c'" unfolding c'_def by (rule schedule_outbound_effect)
  ultimately show ?thesis using post by blast
qed


text \<open>The commits a turn adds, as log entries.\<close>

lemma timed_entries_new:
  assumes inf: "informed r bc s lu i n" and turn: "turn_of sha r active n = (n', res)"
    and id: "nd_node_count n = N" "nd_payload_factory n = pf"
  shows "timed_entries timing r res = [] \<or>
    (\<exists>rid a. backed N bc rid a \<and> 2 \<le> r \<and>
       timed_entries timing r res = [timed_commit pf N timing (r - 2) rid a])"
proof -
  have res: "nrr_new_commits (snd (turn_of sha r active n)) = nrr_new_commits res" by (simp add: turn)
  from turn_commits [of sha r active n] show ?thesis
  proof
    assume "\<exists>c. nrr_new_commits (snd (turn_of sha r active n)) = [c]"
    then obtain c where c: "nrr_new_commits res = [c]" unfolding res by blast
    with res have "c \<in> set (nrr_new_commits (snd (turn_of sha r active n)))" by simp
    from turn_commit [OF inf this] obtain rid a where
      "backed N bc rid a" "2 \<le> r" "c = canonical_commit pf N (r - 2) rid a" unfolding id by blast
    with c show ?thesis by (auto simp: timed_entries_def timed_commit_def)
  next
    assume "nrr_new_commits (snd (turn_of sha r active n)) = []"
    then show ?thesis unfolding res by (simp add: timed_entries_def)
  qed
qed

text \<open>The parameters of a run, which no step changes.\<close>

definition same_params :: "'w cluster \<Rightarrow> 'w cluster \<Rightarrow> bool" where
  "same_params c c' \<longleftrightarrow>
     cl_node_count c' = cl_node_count c \<and> cl_rounds c' = cl_rounds c \<and> cl_timing c' = cl_timing c \<and>
     cl_payload_factory c' = cl_payload_factory c \<and>
     cl_network_fault_model c' = cl_network_fault_model c \<and>
     cl_node_fault_model c' = cl_node_fault_model c"

lemma same_params_refl [simp]: "same_params c c"
  by (simp add: same_params_def)

lemma same_params_trans: "same_params a b \<Longrightarrow> same_params b c \<Longrightarrow> same_params a c"
  by (simp add: same_params_def)

lemma node_turn_step:
  assumes mid: "mid_round r bc i c st" and i: "i < cl_node_count c"
  shows "\<exists>c' commands' st'. node_turn sha r i (c, commands) = Inr (c', commands') \<and>
    mid_round r bc (Suc i) c' st' \<and> same_params c c'"
proof -
  let ?n = "cl_nodes c ! i" and ?cp = "cl_control_plane c" and ?N = "cl_node_count c"
  let ?lu = "\<lambda>m. dget (cl_last_control_plane_updates c) m"
  have w: "length (cl_nodes c) = ?N" "dkeys (cl_commit_history_by_node c) = [0..<?N]"
    "nd_node_id ?n = i" "nd_node_count ?n = ?N" "nd_payload_factory ?n = cl_payload_factory c"
    using mid i by (simp_all add: mid_round_def wired_def)
  have inv: "cp_inv [] st ?cp" and count: "cp_node_count ?cp = ?N"
    and nd: "not_due r (cp_pending_future ?cp)"
    and logs: "logs_ok r bc i c ?cp" and net: "faithful (cl_network_fault_model c)"
    using mid by (simp_all add: mid_round_def)
  have inf: "informed r bc (st, ?cp) (?lu i) i ?n" using mid i by (simp add: mid_round_def)
  obtain active wd where fault: "cl_node_fault_model c i r (cl_world c) = (active, wd)" by fastforce
  obtain n' res where turn: "turn_of sha r active ?n = (n', res)" by fastforce
  have turned: "turned r (st, ?cp) (?lu i) i n'"
    using turn_node [of r bc "(st, ?cp)" "?lu i" ?n sha active] inf nd turn w(3) by simp
  have ident: "same_identity ?n n'" using turn_identity [of ?n sha r active] turn by simp
  have "\<forall>ev \<in> set (nd_event_outbox n'). event_node ev < cp_node_count ?cp"
    using turned i by (simp add: turned_def own_events_def count)
  from node_turn_effect [OF w(3) _ fault turn inv this, of commands] i w(1)
  obtain c' commands' cp st' where
    eq: "node_turn sha r i (c, commands) = Inr (c', commands')" and
    eff: "turn_effect i n' res (timed_entries (cl_timing c) r res) cp c c'" and
    inv': "cp_inv [] st' cp" and calm: "calm (st, ?cp) (st', cp)" and
    failed: "\<forall>ev \<in> set (nd_event_outbox n'). is_interruption ev \<longrightarrow> \<not> is_active st' (event_node ev)"
    by auto
  have c': "cl_node_count c' = ?N" "cl_timing c' = cl_timing c" "cl_payload_factory c' = cl_payload_factory c"
    "cl_network_fault_model c' = cl_network_fault_model c"
    "cl_last_control_plane_updates c' = cl_last_control_plane_updates c" "cl_control_plane c' = cp"
    "cl_nodes c' = (cl_nodes c)[i := n'\<lparr>nd_event_outbox := []\<rparr>]"
    "dkeys (cl_commit_history_by_node c') = [0..<?N]"
    "\<And>j. history c' j = (if j = i then history c i @ timed_entries (cl_timing c) r res else history c j)"
    using eff w(2) i by (simp_all add: turn_effect_def)
  have fin: "finished r (st', cp) (?lu i) i (n'\<lparr>nd_event_outbox := []\<rparr>)"
    by (rule turned_finished [OF turned calm]) (use failed i count in simp_all)
  have wired': "wired c'"
  proof -
    have "wired c" using mid by (simp add: mid_round_def)
    with ident w i show ?thesis by (auto simp: wired_def c' nth_list_update same_identity_def)
  qed
  have nodes: "if m < Suc i then finished r (st', cp) (?lu m) m (cl_nodes c' ! m)
        else informed r bc (st', cp) (?lu m) m (cl_nodes c' ! m)" if m: "m < ?N" for m
  proof (cases "m = i")
    case True
    with fin i w(1) show ?thesis by (simp add: c')
  next
    case False
    have old: "if m < i then finished r (st, ?cp) (?lu m) m (cl_nodes c ! m)
        else informed r bc (st, ?cp) (?lu m) m (cl_nodes c ! m)"
      using mid m by (simp add: mid_round_def)
    have "m < cp_node_count (snd (st, ?cp))" using m count by simp
    with old False calm_finished [OF calm this] calm_informed [OF calm this] show ?thesis
      by (auto simp: c' less_Suc_eq)
  qed
  have logs': "logs_ok r bc (Suc i) c' cp"
    using timed_entries_new [OF inf turn w(4,5)] calm
    by (intro logs_ok_turn [OF logs i]) (simp_all add: c' calm_def)
  have sched: "all_scheduled (in_flight ?N (cl_payload_factory c) r
       (partial_broadcast (Suc i) (cl_nodes c'))) c'"
  proof -
    let ?P = "in_flight ?N (cl_payload_factory c) r (partial_broadcast (Suc i) (cl_nodes c'))"
    have "all_scheduled (in_flight ?N (cl_payload_factory c) r (partial_broadcast i (cl_nodes c))) c"
      using mid by (simp add: mid_round_def)
    then have "all_scheduled ?P c"
      by (rule all_scheduled_mono)
        (rule in_flight_mono, assumption, simp only: c'(7), rule partial_broadcast_grows)
    moreover have "?P \<lparr>di_dst = dst, di_packet = ob_packet ob, di_fault_applied = False\<rparr>"
      if ob: "nrr_outbound res = Some ob" "dst \<in> set (ob_destinations ob)" for ob dst
    proof -
      have out: "nrr_outbound (snd (turn_of sha r active ?n)) = Some ob" using ob turn by simp
      have "dst < ?N" using turn_outbound(2) [OF out] ob(2) w(4) by auto
      moreover have "partial_broadcast (Suc i) (cl_nodes c') i = Some (announced n')"
        using i w(1) by (simp add: partial_broadcast_def broadcast_of_def c' announced_def)
      ultimately show ?thesis
        using turn_outbound(1) [OF out] turn w(3,5) by (simp add: in_flight_def)
    qed
    ultimately show ?thesis using eff unfolding turn_effect_def by blast
  qed
  have "not_due r (cp_pending_future cp)" "cp_node_count cp = ?N" using calm nd count by (simp_all add: calm_def)
  then have "mid_round r bc (Suc i) c' st'"
    unfolding mid_round_def c'(1-6) using wired' net inv' nodes logs' sched by blast
  moreover have "same_params c c'" using eff by (simp add: same_params_def turn_effect_def)
  ultimately show ?thesis using eq by blast
qed


section \<open>A round\<close>

definition round_start :: "int \<Rightarrow> 'w cluster \<Rightarrow> bool" where
  "round_start r c \<longleftrightarrow>
     (\<exists>bc cp st.
        wired c \<and> faithful (cl_network_fault_model c) \<and>
        ensure_state (cl_node_count c) (cl_control_plane c) = Inr cp \<and>
        cp_inv [] st cp \<and> cp_node_count cp = cl_node_count c \<and>
        (\<forall>m < cl_node_count c.
           settled r bc (st, cp) (dget (cl_last_control_plane_updates c) m) m (cl_nodes c ! m)) \<and>
        logs_ok r bc 0 c cp \<and>
        all_scheduled (\<lambda>it. di_dst it < cl_node_count c \<and> pkt_round_id (di_packet it) < r) c)"

text \<open>The controller's calls see through \<open>ensure_state\<close>.\<close>

lemma advance_to_time_ensured:
  assumes "ensure_state n cp0 = Inr cp"
  shows "advance_to_time snaps t n cp0 = advance_to_time snaps t n cp"
proof -
  have "ensure_state n cp = Inr cp"
    using assms by (auto simp: ensure_state_def ebind_eq_Inr_iff split: if_splits)
  with assms show ?thesis by (simp add: advance_to_time_def)
qed

lemma snapshots_are_histories:
  assumes "wired c"
  shows "rs_committed_rounds ` set (repair_log_snapshots c) \<subseteq> history c ` {..<cl_node_count c}"
  using assms
  by (auto simp: repair_log_snapshots_def wired_def history_def with_timing_None [abs_def])

text \<open>The start of a round up to the first turn.\<close>

lemma round_opening:
  assumes start: "round_start r c"
  shows "\<exists>cp1 cp2 st bc. advance_to_time (repair_log_snapshots c) t (cl_node_count c) (cl_control_plane c) = Inr cp1 \<and>
    call_control_plane (repair_log_snapshots c) r (cl_node_count c) cp1 = Inr (cp2, st) \<and>
    mid_round r bc 0 (push_control_plane_updates st (c\<lparr>cl_control_plane := cp2\<rparr>)) st"
proof -
  let ?N = "cl_node_count c" and ?snaps = "repair_log_snapshots c"
  let ?lu = "\<lambda>m. dget (cl_last_control_plane_updates c) m"
  from start obtain bc cp0 st0 where
    w: "wired c" and net: "faithful (cl_network_fault_model c)" and
    ens: "ensure_state ?N (cl_control_plane c) = Inr cp0" and
    inv0: "cp_inv [] st0 cp0" and count0: "cp_node_count cp0 = ?N" and
    settled: "\<And>m. m < ?N \<Longrightarrow> settled r bc (st0, cp0) (?lu m) m (cl_nodes c ! m)" and
    logs: "logs_ok r bc 0 c cp0" and
    sched: "all_scheduled (\<lambda>it. di_dst it < ?N \<and> pkt_round_id (di_packet it) < r) c"
    unfolding round_start_def by blast
  obtain cp2 st where
    round: "control_round ?snaps t r ?N cp0 = Inr (cp2, st)" and inv: "cp_inv [] st cp2" and
    step: "cutover_step r st0 cp0 st cp2"
    using control_round_op [OF inv0, of ?snaps t r ?N] by blast
  then obtain cp1 where cp1: "advance_to_time ?snaps t ?N cp0 = Inr cp1"
    "call_control_plane ?snaps r ?N cp1 = Inr (cp2, st)"
    by (auto simp: control_round_def ebind_eq_Inr_iff)
  have rel: "controller_round r (st0, cp0) (st, cp2)"
    using inv0 round by (auto simp: controller_round_def)
  have count: "cp_node_count cp2 = ?N" using step count0 by (simp add: cutover_step_def)
  have nd: "not_due r (cp_pending_future cp2)" using controller.cutover_done [OF rel] by simp
  let ?c1 = "c\<lparr>cl_control_plane := cp2\<rparr>"
  let ?c2 = "push_control_plane_updates st ?c1"
  have w1: "wired ?c1" using w by (simp add: wired_def)
  note push = push_control_plane_updates_result [OF w1, where st = st]
  have c2: "cl_node_count ?c2 = ?N" "cl_control_plane ?c2 = cp2" "cl_payload_factory ?c2 = cl_payload_factory c"
    "cl_timing ?c2 = cl_timing c" "cl_network_fault_model ?c2 = cl_network_fault_model c"
    "cl_scheduled_deliveries ?c2 = cl_scheduled_deliveries c"
    using push(1) by (simp_all add: same_rest_def)
  have hist1: "history ?c1 m = history c m" for m by (simp add: history_def)
  have cplogs: "cp_logs cp2 \<subseteq> history c ` {..<?N} \<union> cp_logs cp0"
    using control_round_logs [OF round, of st0] snapshots_are_histories [OF w] inv0
    by (auto simp: cp_inv_def)
  have "logs_ok r bc 0 ?c2 cp2"
  proof (rule logs_ok_moved [OF logs c2(1,3,4) _ cplogs])
    fix m assume m: "m < ?N"
    have "l \<in> cp_logs cp2" if "dget (cps_repair_logs st) m = Some l" for l
      using inv dget_in_set [OF that] by (force simp: cp_inv_def cp_logs_def state_logs_def)
    then have "pushed_history st ?c1 m \<in> insert (history c m) (cp_logs cp2)"
      by (auto simp: pushed_history_def hist1 split: option.split)
    with push(5) [of m] m cplogs show "history ?c2 m \<in> history c ` {..<?N} \<union> cp_logs cp0" by auto
  qed
  moreover have "informed r bc (st, cp2) (dget (cl_last_control_plane_updates ?c2) m) m (cl_nodes ?c2 ! m)"
    if m: "m < ?N" for m
  proof -
    have id: "nd_node_id (cl_nodes c ! m) = m" using w m by (simp add: wired_def)
    from settled_informed [OF rel, of r bc "?lu m" "cl_nodes c ! m", unfolded id] settled [OF m] m count0
    have "informed r bc (st, cp2)
        (if is_new st c m then Some (build_control_plane_update m st) else ?lu m) m (pushed_node st c m)"
      by (simp add: is_new_def pushed_node_def)
    moreover have "is_new st ?c1 m = is_new st c m" by (simp add: is_new_def)
    ultimately show ?thesis
      using push(3,4) [of m] m by (cases "is_new st c m") (simp_all add: pushed_node_def pushed_last_def)
  qed
  moreover have "all_scheduled (in_flight ?N (cl_payload_factory c) r (partial_broadcast 0 (cl_nodes ?c2))) ?c2"
    using all_scheduled_mono [OF sched, where Q = "in_flight ?N (cl_payload_factory c) r (partial_broadcast 0 (cl_nodes ?c2))"]
    by (simp add: in_flight_def all_scheduled_cong [OF c2(6)])
  ultimately have "mid_round r bc 0 ?c2 st"
    using push(2) net inv count nd by (simp add: mid_round_def c2)
  with cp1 advance_to_time_ensured [OF ens] show ?thesis by auto
qed


text \<open>The turns of all nodes, one after the other.\<close>

lemma all_turns:
  fixes c :: "'w cluster"
  assumes "mid_round r bc 0 c st"
  shows "\<exists>c' commands st'. efold (node_turn sha r) [0..<cl_node_count c] (c, {}) = Inr (c', commands) \<and>
    mid_round r bc (cl_node_count c) c' st' \<and> same_params c c'"
proof -
  let ?P = "\<lambda>i (s :: 'w cluster \<times> string set). same_params c (fst s) \<and> (\<exists>st. mid_round r bc i (fst s) st)"
  have "\<exists>s'. efold (node_turn sha r) [0..<cl_node_count c] (c, {}) = Inr s' \<and> ?P (cl_node_count c) s'"
  proof (rule efold_upt_invariant)
    fix i s assume i: "i < cl_node_count c" and P: "?P i s"
    then obtain st1 where st1: "mid_round r bc i (fst s) st1" "i < cl_node_count (fst s)"
      by (auto simp: same_params_def)
    obtain c' commands' st' where
      "node_turn sha r i (fst s, snd s) = Inr (c', commands')" "mid_round r bc (Suc i) c' st'"
      "same_params (fst s) c'"
      using node_turn_step [OF st1, of sha "snd s"] by blast
    with P same_params_trans [of c "fst s" c'] show "\<exists>s'. node_turn sha r i s = Inr s' \<and> ?P (Suc i) s'"
      by auto
  qed (use assms in auto)
  then show ?thesis by fastforce
qed

text \<open>The network closes the round.\<close>

lemma receive_node [simp]:
  "sound_node s (receive p n) = sound_node s n"
  "mail_ok s lu (receive p n) = mail_ok s lu n"
  "halted_before k (receive p n) = halted_before k n"
  "announced (receive p n) = announced n"
  by (simp_all add: sound_node_def mail_ok_def halted_before_def announced_def update_due_def)

definition closing ::
  "int \<Rightarrow> broadcast \<Rightarrow> service \<Rightarrow> (nat \<Rightarrow> control_plane_update option) \<Rightarrow> nat \<Rightarrow>
     (nat \<Rightarrow> int \<Rightarrow> string) \<Rightarrow> nat \<Rightarrow> node \<Rightarrow> bool" where
  "closing r bc s lu N pf i n \<longleftrightarrow>
     nd_node_id n = i \<and> nd_node_count n = N \<and> nd_payload_factory n = pf \<and>
     sound_node s n \<and> mail_ok s (lu i) n \<and> nd_event_outbox n = [] \<and> halted_before (r + 1) n \<and>
     nd_current_round n = r \<and> (participates n \<longrightarrow> pipe_ok r bc n) \<and>
     (nd_status n \<noteq> RUNNING \<longrightarrow> \<not> is_active (fst s) i)"

lemma closing_receive: "receive_keeps pf r bc (closing r bc s lu N pf)"
  unfolding receive_keeps_def closing_def using receive_pipe by auto

lemma closing_settled: "closing r bc s lu N pf i n \<Longrightarrow> settled (r + 1) bc s (lu i) i n"
  by (auto simp: closing_def settled_def ready_def)

lemma round_closing:
  assumes mid: "mid_round r bc (cl_node_count c) c st"
  shows "\<exists>c'. advance_network r c = Inr c' \<and> round_start (r + 1) (c'\<lparr>cl_metrics_sink := sink\<rparr>) \<and> same_params c c'"
proof -
  let ?N = "cl_node_count c" and ?cp = "cl_control_plane c" and ?pf = "cl_payload_factory c"
  let ?lu = "dget (cl_last_control_plane_updates c)"
  define B where "B = broadcast_of (cl_nodes c)"
  have w: "wired c" and net: "faithful (cl_network_fault_model c)" and inv: "cp_inv [] st ?cp"
    and count: "cp_node_count ?cp = ?N" and logs: "logs_ok r bc ?N c ?cp"
    using mid by (simp_all add: mid_round_def)
  have len: "length (cl_nodes c) = ?N" using w by (simp add: wired_def)
  have part: "partial_broadcast ?N (cl_nodes c) = B"
    by (auto simp: fun_eq_iff B_def partial_broadcast_def broadcast_of_def len)
  let ?Q = "closing r B (st, ?cp) ?lu ?N ?pf"
  have "\<forall>i < ?N. ?Q i (cl_nodes c ! i)"
  proof (intro allI impI)
    fix i assume i: "i < ?N"
    have fin: "finished r (st, ?cp) (?lu i) i (cl_nodes c ! i)" using mid i by (simp add: mid_round_def)
    have "B i = Some (announced (cl_nodes c ! i))" using i len by (simp add: B_def broadcast_of_def announced_def)
    with fin w i show "?Q i (cl_nodes c ! i)" by (auto simp: closing_def finished_def wired_def)
  qed
  moreover have "all_scheduled (in_flight ?N ?pf r B) c" using mid part by (simp add: mid_round_def)
  ultimately have "net_inv ?N ?pf r B ?Q c c" by (simp add: net_inv_def len B_def)
  from advance_network_invariant [OF net closing_receive this] obtain c' where
    eq: "advance_network r c = Inr c'" and post: "net_inv ?N ?pf r B ?Q c c'" by blast
  let ?c = "c'\<lparr>cl_metrics_sink := sink\<rparr>"
  have fr: "cl_node_count c' = ?N" "cl_payload_factory c' = ?pf" "cl_timing c' = cl_timing c"
    "cl_commit_history_by_node c' = cl_commit_history_by_node c" "cl_control_plane c' = ?cp"
    "cl_last_control_plane_updates c' = cl_last_control_plane_updates c"
    "cl_network_fault_model c' = cl_network_fault_model c"
    "cl_rounds c' = cl_rounds c" "cl_node_fault_model c' = cl_node_fault_model c"
    using post by (simp_all add: net_inv_def same_frame_def)
  have Q: "?Q i (cl_nodes c' ! i)" if "i < ?N" for i using post that by (simp add: net_inv_def)
  have "wired ?c"
    using w post Q by (auto simp: wired_def fr net_inv_def closing_def)
  moreover have "settled (r + 1) B (st, ?cp) (?lu i) i (cl_nodes c' ! i)" if "i < ?N" for i
    using closing_settled [OF Q [OF that]] .
  moreover have "logs_ok (r + 1) B 0 ?c ?cp" by (rule logs_ok_next [OF logs]) (simp_all add: fr)
  moreover have "all_scheduled (\<lambda>it. di_dst it < ?N \<and> pkt_round_id (di_packet it) < r + 1) ?c"
  proof -
    have "all_scheduled (in_flight ?N ?pf r B) c'" using post by (simp add: net_inv_def)
    then have "all_scheduled (\<lambda>it. di_dst it < ?N \<and> pkt_round_id (di_packet it) < r + 1) c'"
      by (rule all_scheduled_mono) (simp add: in_flight_def)
    then show ?thesis by (simp add: all_scheduled_def)
  qed
  moreover have "ensure_state ?N ?cp = Inr ?cp" using inv by (simp add: cp_inv_def ensure_state_known)
  ultimately have "round_start (r + 1) ?c"
    unfolding round_start_def using net inv count
    by (intro exI [of _ B] exI [of _ ?cp] exI [of _ st]) (simp add: fr)
  moreover have "same_params c c'" by (simp add: same_params_def fr)
  ultimately show ?thesis using eq by blast
qed

lemma push_same_params: "wired c \<Longrightarrow> same_params c (push_control_plane_updates st c)"
  using push_control_plane_updates_result(1) [of c st] by (simp add: same_rest_def same_params_def)

lemma run_round_step:
  assumes start: "round_start (int k) c"
  shows "\<exists>c'. run_round sha k c = Inr c' \<and> round_start (int (Suc k)) c' \<and> same_params c c'"
proof -
  let ?t = "int k * round_length_ns (cl_timing c)"
  have w: "wired c" using start by (auto simp: round_start_def)
  from round_opening [OF start, of ?t] obtain cp1 cp2 st bc where
    1: "advance_to_time (repair_log_snapshots c) ?t (cl_node_count c) (cl_control_plane c) = Inr cp1"
    "call_control_plane (repair_log_snapshots c) (int k) (cl_node_count c) cp1 = Inr (cp2, st)"
    "mid_round (int k) bc 0 (push_control_plane_updates st (c\<lparr>cl_control_plane := cp2\<rparr>)) st" by blast
  define c2 where "c2 = push_control_plane_updates st (c\<lparr>cl_control_plane := cp2\<rparr>)"
  have w': "wired (c\<lparr>cl_control_plane := cp2\<rparr>)" using w by (simp add: wired_def)
  have p2: "same_params c c2"
    using push_same_params [OF w', of st] by (simp add: c2_def same_params_def)
  have n2: "cl_node_count c2 = length (cl_nodes c)" using p2 w by (simp add: same_params_def wired_def)
  from all_turns [OF 1(3) [folded c2_def], of sha] obtain c3 commands st' where
    3: "efold (node_turn sha (int k)) [0..<length (cl_nodes c)] (c2, {}) = Inr (c3, commands)"
    "mid_round (int k) bc (cl_node_count c3) c3 st'" "same_params c2 c3"
    unfolding n2 [symmetric] by (auto simp: same_params_def)
  from round_closing [OF 3(2)] obtain c4 where
    4: "advance_network (int k) c3 = Inr c4" "same_params c3 c4" by blast
  define sink where "sink = on_round_complete
    \<lparr>sum_round_id = int k, sum_start_time_ns = ?t,
     sum_end_time_ns = ?t + round_length_ns (cl_timing c4), sum_committed_txns = card commands\<rparr>
    (cl_metrics_sink c4)"
  from round_closing [OF 3(2), of sink] 4(1) have "round_start (int k + 1) (c4\<lparr>cl_metrics_sink := sink\<rparr>)"
    by simp
  moreover have "run_round sha k c = Inr (c4\<lparr>cl_metrics_sink := sink\<rparr>)"
    using 1(1,2) 3(1) 4(1) by (simp add: run_round_def Let_def c2_def sink_def)
  moreover have "same_params c (c4\<lparr>cl_metrics_sink := sink\<rparr>)"
    using same_params_trans [OF p2 same_params_trans [OF 3(3) 4(2)]] by (simp add: same_params_def)
  ultimately show ?thesis by (simp add: add.commute)
qed

lemma run_rounds_invariant:
  assumes "round_start 0 c"
  shows "\<exists>c'. run_rounds sha k c = Inr c' \<and> round_start (int k) c' \<and> same_params c c'"
proof -
  have "\<exists>c'. efold (run_round sha) [0..<k] c = Inr c' \<and> (round_start (int k) c' \<and> same_params c c')"
  proof (rule efold_upt_invariant)
    fix i s assume "i < k" and P: "round_start (int i) s \<and> same_params c s"
    with run_round_step [of i s sha] same_params_trans [of c s]
    show "\<exists>s'. run_round sha i s = Inr s' \<and> (round_start (int (Suc i)) s' \<and> same_params c s')" by blast
  qed (use assms in simp)
  then show ?thesis by (simp add: run_rounds_def)
qed



section \<open>A run\<close>

lemma new_node_settled:
  assumes "i < n" and "ic_run_id (cps_installed_config st) = 0"
  shows "settled 0 bc (st, cp) None i (new_node sha i n pf)"
  using assms
  by (simp add: settled_def sound_node_def mail_ok_def new_node_def halted_before_def excluded_ok_def
      node_tied_def config_tied_def tracks_def known_config_def update_due_def ready_def fresh_pipeline_def)

lemma new_cluster_start:
  assumes net: "faithful net" and len: "round_length_ns timing \<noteq> 0"
  shows "round_start 0 (new_cluster sha n rounds timing pf net faults w sink)"
proof -
  let ?c = "new_cluster sha n rounds timing pf net faults w sink"
  obtain cp st where cp: "ensure_state n (set_timing timing (new_control_plane 10)) = Inr cp"
    "cp_inv [] st cp" "cp_node_count cp = n" "ic_run_id (cps_installed_config st) = 0"
    "cps_repair_logs st = []"
    by (rule ensure_state_fresh [OF len, of n 10])
  have hist: "history ?c m = []" for m
    by (cases "m < n") (simp_all add: history_def new_cluster_def dget_or_def dget_map)
  have "cp_logs cp = {}" using cp(2,5) by (simp add: cp_inv_def cp_logs_def state_logs_def)
  then have "logs_ok 0 bc 0 ?c cp" for bc by (simp add: logs_ok_def entries_def hist log_ok_def)
  moreover have "wired ?c" by (simp add: wired_def new_cluster_def new_node_def)
  moreover have "settled 0 bc (st, cp) (dget (cl_last_control_plane_updates ?c) m) m (cl_nodes ?c ! m)"
    if "m < n" for m bc
    using new_node_settled [OF that cp(4)] that by (simp add: new_cluster_def)
  ultimately show ?thesis
    unfolding round_start_def using cp net
    by (intro exI [of _ "\<lambda>_. None"] exI [of _ cp] exI [of _ st])
      (simp add: new_cluster_def all_scheduled_def)
qed

text \<open>What the invariant says of the result.\<close>

lemma run_reaches:
  assumes "faithful net" "round_length_ns timing \<noteq> 0"
  shows "\<exists>c'. run sha (new_cluster sha n rounds timing pf net faults w sink) = Inr (cluster_result c') \<and>
    round_start (int (nat rounds)) c' \<and>
    same_params (new_cluster sha n rounds timing pf net faults w sink) c'"
proof -
  let ?c = "new_cluster sha n rounds timing pf net faults w sink"
  have "cl_rounds ?c = rounds" by (simp add: new_cluster_def)
  with run_rounds_invariant [OF new_cluster_start [OF assms(1,2)], of sha "nat rounds" sha n rounds pf faults w sink]
  show ?thesis by (auto simp: run_def)
qed

definition logs_of :: "run_result \<Rightarrow> committed_round_record list set" where
  "logs_of res = nr_committed_rounds ` set (res_nodes res)"

lemma logs_of_result:
  assumes "wired c"
  shows "logs_of (cluster_result c) = history c ` {..<cl_node_count c}"
proof -
  have "set (cl_nodes c) = (!) (cl_nodes c) ` {..<cl_node_count c}"
    using assms by (auto simp: wired_def in_set_conv_nth image_iff)
  moreover have "nr_committed_rounds (node_report_of (cl_commit_history_by_node c) (cl_nodes c ! i)) = history c i"
    if "i < cl_node_count c" for i
    using assms that by (simp add: node_report_of_def history_def wired_def node_snapshot.defs)
  ultimately show ?thesis by (auto simp: logs_of_def cluster_result_def image_image)
qed

lemma run_logs:
  assumes "faithful net" "round_length_ns timing \<noteq> 0"
    and "run sha (new_cluster sha n rounds timing pf net faults w sink) = Inr res"
  shows "inj_on cr_round (\<Union> (set ` logs_of res))"
    and "l \<in> logs_of res \<Longrightarrow> log_ok (int (nat rounds) - 2) l"
    and "l \<in> logs_of res \<Longrightarrow> e \<in> set l \<Longrightarrow> genuine pf n timing e"
proof -
  let ?c = "new_cluster sha n rounds timing pf net faults w sink"
  from run_reaches [OF assms(1,2), of sha n rounds pf faults w sink] assms(3) obtain c' where
    res: "res = cluster_result c'" and start: "round_start (int (nat rounds)) c'" and par: "same_params ?c c'"
    by auto
  from start obtain bc cp where w: "wired c'" and logs: "logs_ok (int (nat rounds)) bc 0 c' cp"
    by (auto simp: round_start_def)
  have par': "cl_node_count c' = n" "cl_payload_factory c' = pf" "cl_timing c' = timing"
    using par by (simp_all add: same_params_def new_cluster_def)
  have l: "logs_of res = history c' ` {..<n}" using logs_of_result [OF w] by (simp add: res par')
  have sub: "\<Union> (set ` logs_of res) \<subseteq> entries c' cp" by (auto simp: l entries_def par')
  with logs show "inj_on cr_round (\<Union> (set ` logs_of res))"
    by (auto simp: logs_ok_def intro: inj_on_subset)
  show "log_ok (int (nat rounds) - 2) l" if "l \<in> logs_of res"
    using that logs by (auto simp: l logs_ok_def par')
  show "genuine pf n timing e" if "l \<in> logs_of res" "e \<in> set l"
  proof -
    have "e \<in> entries c' cp" using that sub by blast
    with logs show ?thesis by (simp add: logs_ok_def par')
  qed
qed

lemma genuine_entry:
  assumes "genuine pf n timing e"
  shows "n div 2 < card {i. i < n \<and> bit (cr_commit_set e) i} \<and>
    cr_proposals e = map (\<lambda>i. (i, pf i (cr_round e))) (bitmap_members (cr_commit_set e) n) \<and>
    cr_commit_time_ns e = Some ((cr_round e + 2) * round_length_ns timing) \<and>
    cr_app_delivery_time_ns e
      = Some ((cr_round e + 2) * round_length_ns timing + app_delivery_delay_ns timing)"
proof -
  from assms obtain rid a Q where
    e: "e = timed_commit pf n timing (cr_round e) rid a" and Q: "majority n Q" "Q \<subseteq> bit_set a"
    unfolding genuine_def by blast
  have sel: "cr_commit_set e = a" "cr_proposals e = map (\<lambda>i. (i, pf i (cr_round e))) (bitmap_members a n)"
    "cr_commit_time_ns e = Some ((cr_round e + 2) * round_length_ns timing)"
    "cr_app_delivery_time_ns e
      = Some ((cr_round e + 2) * round_length_ns timing + app_delivery_delay_ns timing)"
    by (subst e, simp add: timed_commit_def canonical_commit_def from_committed_round_def)+
  have "card Q \<le> card {i. i < n \<and> bit a i}"
    using Q by (intro card_mono) (auto simp: majority_def)
  with Q(1) sel show ?thesis by (auto simp: majority_def)
qed

text \<open>No stopped node is forgotten.\<close>

lemma run_stopped_tracked:
  assumes "faithful net" "round_length_ns timing \<noteq> 0"
    and "run sha (new_cluster sha n rounds timing pf net faults w sink) = Inr res"
    and m: "m < n" "sn_status (res_nodes res ! m) \<noteq> RUNNING"
  shows "sn_node_id (res_nodes res ! m) = m \<and> m \<in> under_recovery (res_control_plane_runtime res)"
proof -
  let ?c = "new_cluster sha n rounds timing pf net faults w sink"
  from run_reaches [OF assms(1,2), of sha n rounds pf faults w sink] assms(3) obtain c' where
    res: "res = cluster_result c'" and start: "round_start (int (nat rounds)) c'" and par: "same_params ?c c'"
    by auto
  have n: "cl_node_count c' = n" using par by (simp add: same_params_def new_cluster_def)
  from start obtain bc cp st where w: "wired c'" and
    ens: "ensure_state n (cl_control_plane c') = Inr cp" and inv: "cp_inv [] st cp" "cp_node_count cp = n" and
    settled: "settled (int (nat rounds)) bc (st, cp) (dget (cl_last_control_plane_updates c') m) m (cl_nodes c' ! m)"
    using m(1) unfolding round_start_def n by blast
  have slot: "res_nodes res ! m = node_report_of (cl_commit_history_by_node c') (cl_nodes c' ! m)"
    using m(1) w by (simp add: res cluster_result_def wired_def n)
  have st: "nd_status (cl_nodes c' ! m) \<noteq> RUNNING" and id: "sn_node_id (res_nodes res ! m) = m"
    using m w by (simp_all add: slot node_report_of_def node_snapshot.defs snapshot_def wired_def n)
  from st settled have "\<not> is_active st m" by (simp add: settled_def)
  with inv m(1) have "m \<in> interrupted cp" by (auto simp: cp_inv_def states_ok_def is_active_def)
  moreover have "under_recovery (debug_snapshot_of cp) = interrupted cp"
    by (rule interrupted_reported [OF cp_inv_parts(3) [OF inv(1)]])
  moreover have "debug_snapshot_of cp = debug_snapshot_of (cl_control_plane c')"
    using ens by (auto simp: ensure_state_def ebind_eq_Inr_iff debug_snapshot_of_def split: if_splits)
  ultimately show ?thesis using id by (simp add: res cluster_result_def)
qed

end
