(* ===== verification/Fault_Free.thy ===== *)
theory Fault_Free
  imports Cluster_Safety
begin

text \<open>
  The runs in which nothing fails: no node crashes and every packet arrives in its own round. The
  other safety results allow a run in which nothing is ever committed; here the exact course is
  followed through every round, and every node commits every round that can be judged.
\<close>


section \<open>A node without faults\<close>

definition full :: "nat \<Rightarrow> int" where
  "full N = one_hot N - 1"

lemma bit_full [simp]: "bit (full N) i \<longleftrightarrow> i < N"
  by (simp add: full_def)

lemma bitmap_members_full [simp]: "bitmap_members (full N) N = [0..<N]"
  by (simp add: bitmap_members_def filter_id_conv)

lemma full_neq_0: "0 < N \<Longrightarrow> full N \<noteq> 0"
  using bit_full [of N 0] by (metis bit_0_eq bot_apply bot_bool_def)

definition at_ease :: "nat \<Rightarrow> (nat \<Rightarrow> int \<Rightarrow> string) \<Rightarrow> nat \<Rightarrow> node \<Rightarrow> bool" where
  "at_ease N pf i n \<longleftrightarrow>
     nd_node_id n = i \<and> nd_node_count n = N \<and> nd_payload_factory n = pf \<and>
     nd_status n = RUNNING \<and> nd_membership_state n = ACTIVE \<and> nd_halted_round n = None \<and>
     nd_current_sound_set n = full N \<and> nd_installed_membership n = full N \<and>
     nd_installed_membership_epoch n = 0 \<and> nd_run_id n = 0 \<and> nd_pending_config n = None \<and>
     nd_event_outbox n = []"

text \<open>A stage in which the proposals of the nodes in \<open>K\<close> have been heard.\<close>

definition heard :: "nat \<Rightarrow> (nat \<Rightarrow> int \<Rightarrow> string) \<Rightarrow> int \<Rightarrow> nat set \<Rightarrow> round_stage \<Rightarrow> bool" where
  "heard N pf r K s \<longleftrightarrow>
     stg_round_id s = r \<and> stg_membership_epoch s = 0 \<and> stg_installed_membership s = full N \<and>
     (\<forall>k. bit (stg_row s) k \<longleftrightarrow> k \<in> K) \<and>
     (\<forall>k \<in> K. dget (stg_proposals s) k = Some (pf k r))"

definition voted :: "nat \<Rightarrow> nat set \<Rightarrow> round_stage \<Rightarrow> bool" where
  "voted N K s \<longleftrightarrow> (\<forall>k \<in> K. dget (stg_rows s) k = Some (full N))"

text \<open>A slot of the pipeline: empty before round 0, complete afterwards.\<close>

definition slot_ok :: "nat \<Rightarrow> (nat \<Rightarrow> int \<Rightarrow> string) \<Rightarrow> int \<Rightarrow> round_stage \<Rightarrow> bool" where
  "slot_ok N pf r s \<longleftrightarrow>
     (if r < 0 then stg_round_id s < 0 \<and> stg_row s = 0 else heard N pf r {..<N} s)"

lemma heard_row: "heard N pf r {..<N} s \<Longrightarrow> stg_row s = full N"
  by (rule bit_eqI) (simp add: heard_def)

text \<open>The update that confirms the initial configuration.\<close>

definition neutral_update :: "nat \<Rightarrow> control_plane_update" where
  "neutral_update N =
     \<lparr>cpu_installed_config = \<lparr>ic_membership_epoch = 0, ic_members_bitmap = full N, ic_run_id = 0\<rparr>,
      cpu_membership_state = ACTIVE, cpu_pending_config = None, cpu_repair_log = None\<rparr>"

text \<open>The node before its turn in round \<open>r\<close>, and after it, having heard of the nodes in \<open>K\<close>.\<close>

definition before_turn :: "nat \<Rightarrow> (nat \<Rightarrow> int \<Rightarrow> string) \<Rightarrow> int \<Rightarrow> nat \<Rightarrow> node \<Rightarrow> bool" where
  "before_turn N pf r i n \<longleftrightarrow>
     at_ease N pf i n \<and> slot_ok N pf (r - 1) (nd_current_stage n) \<and>
     slot_ok N pf (r - 2) (nd_previous_stage n) \<and> (2 \<le> r \<longrightarrow> voted N {..<N} (nd_previous_stage n)) \<and>
     (nd_irq_pending n \<longrightarrow> nd_pending_update n = Some (neutral_update N))"

definition after_turn :: "nat \<Rightarrow> (nat \<Rightarrow> int \<Rightarrow> string) \<Rightarrow> int \<Rightarrow> nat \<Rightarrow> nat set \<Rightarrow> node \<Rightarrow> bool" where
  "after_turn N pf r i K n \<longleftrightarrow>
     at_ease N pf i n \<and> nd_current_round n = r \<and> \<not> nd_irq_pending n \<and>
     heard N pf r K (nd_current_stage n) \<and>
     slot_ok N pf (r - 1) (nd_previous_stage n) \<and> (1 \<le> r \<longrightarrow> voted N K (nd_previous_stage n))"

lemma agreed_full:
  assumes "heard N pf r {..<N} s" "voted N {..<N} s" "nd_node_id n < N" "nd_node_count n = N"
  shows "agreed_row n s = Some (full N)" "witnesses n s (full N) = {..<N}"
proof -
  have mem: "members_of n s = {..<N}" using assms by (auto simp: members_of_def heard_def)
  have row: "row_of s m = full N" if "m < N" for m using assms(2) that by (simp add: row_of_def voted_def)
  show wit: "witnesses n s (full N) = {..<N}" using mem row by (auto simp: witnesses_def)
  have "quorum n \<le> N" using assms(3,4) by (auto simp: quorum_def)
  with assms mem row wit full_neq_0 [of N] show "agreed_row n s = Some (full N)"
    by (auto simp: agreed_row_eq_Some_iff)
qed

definition fair_commit :: "nat \<Rightarrow> (nat \<Rightarrow> int \<Rightarrow> string) \<Rightarrow> int \<Rightarrow> committed_round" where
  "fair_commit N pf r = canonical_commit pf N r 0 (full N)"

lemma boundary_full:
  assumes s: "heard N pf r {..<N} s" "voted N {..<N} s" and n: "nd_node_id n < N" "nd_node_count n = N"
    "nd_current_sound_set n = full N" and r: "0 \<le> r"
  shows "evaluate_round_boundary sha (Some s) n =
    (n\<lparr>nd_committed_frontier := r, nd_last_committed_sound_set := Some (full N),
       nd_commit_digest := extend_log_digest sha (nd_commit_digest n) (fair_commit N pf r)\<rparr>,
     CONTINUE, Some (full N), [fair_commit N pf r])"
proof -
  note a = agreed_full [OF s n(1,2)]
  obtain c where c: "sound_set n s = Some c" using a(1) sound_set_eq_None_iff [of n s] by auto
  have "bit c i \<longleftrightarrow> i < N" for i
    by (rule sound_set_bits [OF c]) (simp add: a)
  then have "c = full N" by (intro bit_eqI) simp
  moreover have "commit_of s (full N) N = fair_commit N pf r"
    using s(1) by (simp add: commit_of_def fair_commit_def canonical_commit_def proposals_of_def heard_def)
  ultimately have c': "sound_set n s = Some (full N)" "commit_of s (full N) (nd_node_count n) = fair_commit N pf r"
    using c n(2) by simp_all
  have "(\<exists>m < nd_node_count n. bit (full N) m \<and> dget (stg_proposals s) m = None) = False"
    "(\<exists>m \<in> witnesses n s (full N). \<not> bit (nd_current_sound_set n) m) = False"
    "(stg_round_id s < 0) = False" "stg_round_id s = r"
    using s(1) n a(2) r by (auto simp: heard_def)
  then show ?thesis
    by (simp only: evaluate_round_boundary_table a(1) c' option.case if_False)
qed


lemma begin_round_fair:
  assumes "before_turn N pf r i n"
  shows "before_turn N pf r i (begin_round sha r' n)" "\<not> nd_irq_pending (begin_round sha r' n)"
proof -
  have act: "activate_pending_config_if_due r' n = (n, False)"
    using assms by (simp add: activate_pending_config_if_due_def before_turn_def at_ease_def)
  show "before_turn N pf r i (begin_round sha r' n)" "\<not> nd_irq_pending (begin_round sha r' n)"
    using assms
    by (cases "nd_irq_pending n";
        simp add: begin_round_def act pull_control_plane_update_def apply_control_plane_update_def
          before_turn_def at_ease_def neutral_update_def Let_def)+
qed

definition fair_packet :: "nat \<Rightarrow> (nat \<Rightarrow> int \<Rightarrow> string) \<Rightarrow> int \<Rightarrow> nat \<Rightarrow> packet" where
  "fair_packet N pf r i =
     \<lparr>pkt_round_id = r, pkt_src_id = i, pkt_run_id = 0, pkt_row = (if r = 0 then 0 else full N),
      pkt_payload = pf i r\<rparr>"

definition fair_result :: "nat \<Rightarrow> (nat \<Rightarrow> int \<Rightarrow> string) \<Rightarrow> int \<Rightarrow> nat \<Rightarrow> node_round_result" where
  "fair_result N pf r i =
     \<lparr>nrr_outbound = Some \<lparr>ob_packet = fair_packet N pf r i, ob_destinations = filter (\<lambda>m. m \<noteq> i) [0..<N]\<rparr>,
      nrr_new_commits = (if r < 2 then [] else [fair_commit N pf (r - 2)])\<rparr>"

lemma dget_single [simp]: "dget [(k, v)] k' = (if k' = k then Some v else None)"
  by (simp add: dget_def)

lemma run_boundary_fair:
  assumes before: "before_turn N pf r i n" and irq: "\<not> nd_irq_pending n" and r: "nd_current_round n = r" "0 \<le> r"
    and i: "i < N"
  obtains n' where "run_boundary sha r n = (n', fair_result N pf r i)" "after_turn N pf r i {i} n'"
proof -
  let ?n1 = "n\<lparr>nd_previous_stage := nd_current_stage n\<rparr>"
  let ?ev = "evaluate_round_boundary sha (Some (nd_previous_stage n)) ?n1"
  have ease: "at_ease N pf i n" using before by (simp add: before_turn_def)
  have cur: "slot_ok N pf (r - 1) (nd_current_stage n)" using before by (simp add: before_turn_def)
  then have row: "stg_row (nd_current_stage n) = (if r = 0 then 0 else full N)"
    using r(2) heard_row [of N pf "r - 1" "nd_current_stage n"] by (auto simp: slot_ok_def split: if_splits)
  have "\<exists>n2 d sound. ?ev = (n2, d, sound, nrr_new_commits (fair_result N pf r i)) \<and> d \<noteq> HALT \<and>
      (sound = None \<or> sound = Some (full N)) \<and> at_ease N pf i n2 \<and>
      nd_previous_stage n2 = nd_current_stage n \<and> nd_current_round n2 = r \<and> \<not> nd_irq_pending n2"
  proof (cases "r < 2")
    case True
    then have "stg_round_id (nd_previous_stage n) < 0" using before by (simp add: before_turn_def slot_ok_def)
    then have "?ev = (?n1, SKIP, None, [])" by (simp add: evaluate_round_boundary_table)
    with True ease irq r show ?thesis by (simp add: fair_result_def at_ease_def)
  next
    case False
    then have s: "heard N pf (r - 2) {..<N} (nd_previous_stage n)" "voted N {..<N} (nd_previous_stage n)"
      using before by (simp_all add: before_turn_def slot_ok_def)
    have "nd_node_id ?n1 < N" "nd_node_count ?n1 = N" "nd_current_sound_set ?n1 = full N"
      using ease i by (simp_all add: at_ease_def)
    from boundary_full [OF s this, of sha] False ease irq r show ?thesis
      by (simp add: fair_result_def at_ease_def)
  qed
  then obtain n2 d sound where ev: "?ev = (n2, d, sound, nrr_new_commits (fair_result N pf r i))" "d \<noteq> HALT"
    "sound = None \<or> sound = Some (full N)" "at_ease N pf i n2"
    "nd_previous_stage n2 = nd_current_stage n" "nd_current_round n2 = r" "\<not> nd_irq_pending n2" by blast
  define n3 where "n3 = (case sound of None \<Rightarrow> n2 | Some s \<Rightarrow> n2\<lparr>nd_current_sound_set := s\<rparr>)"
  have n3: "at_ease N pf i n3" "nd_previous_stage n3 = nd_current_stage n" "nd_current_round n3 = r"
    "\<not> nd_irq_pending n3"
    using ev by (auto simp: n3_def at_ease_def)
  define prev where "prev = (nd_current_stage n)
      \<lparr>stg_rows := dset (stg_rows (nd_current_stage n)) i (stg_row (nd_current_stage n))\<rparr>"
  define n4 where "n4 = n3\<lparr>nd_previous_stage := prev\<rparr>"
  define n5 where "n5 = n4\<lparr>nd_current_stage := new_current_stage r n4\<rparr>"
  have id: "nd_node_id n3 = i" using n3(1) by (simp add: at_ease_def)
  have run: "run_boundary sha r n = (n5, fair_result N pf r i)"
  proof -
    have "nd_run_id n5 = 0" "nd_node_id n5 = i" "stg_row (nd_previous_stage n5) = stg_row (nd_current_stage n)"
      "dget (stg_proposals (nd_current_stage n5)) i = Some (pf i r)"
      "default_destinations n5 = filter (\<lambda>m. m \<noteq> i) [0..<N]"
      using n3(1) by (simp_all add: n5_def n4_def prev_def at_ease_def new_current_stage_def
          default_destinations_def)
    with ev(1,2) row show ?thesis
      unfolding run_boundary_def Let_def ev(1) prod.case n3_def [symmetric] n3(2) id prev_def [symmetric]
        n4_def [symmetric] n5_def [symmetric]
      by (simp add: fair_result_def fair_packet_def)
  qed
  have "after_turn N pf r i {i} n5"
    using n3 cur r i row
    by (auto simp: after_turn_def n5_def n4_def prev_def at_ease_def heard_def new_current_stage_def slot_ok_def
        voted_def split: if_splits)
  with run that show thesis by blast
qed

lemma advance_round_fair:
  assumes before: "before_turn N pf r i n" and r: "0 \<le> r" and i: "i < N"
  obtains n' where "advance_round sha r n = (n', fair_result N pf r i)" "after_turn N pf r i {i} n'"
proof -
  have b: "before_turn N pf r i (n\<lparr>nd_current_round := r\<rparr>)"
    using before by (simp add: before_turn_def at_ease_def)
  let ?n1 = "begin_round sha r (n\<lparr>nd_current_round := r\<rparr>)"
  note b1 = begin_round_fair [OF b, of sha r]
  have "participates ?n1" using b1(1) i by (simp add: participates_def before_turn_def at_ease_def)
  then have "advance_round sha r n = run_boundary sha r ?n1"
    using before by (simp add: advance_round_def before_turn_def at_ease_def Let_def)
  moreover have "nd_current_round ?n1 = r" by simp
  ultimately show thesis using run_boundary_fair [OF b1 _ r i, of sha] that by metis
qed

lemma receive_fair:
  assumes "after_turn N pf r i K n" "k < N"
  shows "after_turn N pf r i (insert k K) (receive (fair_packet N pf r k) n)"
  using assms
  by (auto simp: after_turn_def at_ease_def receive_def fair_packet_def Let_def heard_def voted_def slot_ok_def
      bit_or_iff split: if_splits)

lemma after_next_turn: "after_turn N pf r i {..<N} n \<Longrightarrow> 0 \<le> r \<Longrightarrow> before_turn N pf (r + 1) i n"
  by (auto simp: after_turn_def before_turn_def slot_ok_def)



section \<open>The controller without events\<close>

definition fair_state :: "nat \<Rightarrow> control_plane_state" where
  "fair_state N =
     \<lparr>cps_installed_config = \<lparr>ic_membership_epoch = 0, ic_members_bitmap = full N, ic_run_id = 0\<rparr>,
      cps_node_states = map (\<lambda>i. (i, ACTIVE)) [0..<N], cps_pending_config = None, cps_repair_logs = []\<rparr>"

definition fair_controller :: "simulation_timing \<Rightarrow> nat \<Rightarrow> control_plane" where
  "fair_controller timing N =
     (set_timing timing (new_control_plane 10))
       \<lparr>cp_node_count := N, cp_current_state := Some (fair_state N)\<rparr>"

lemma initial_state_fair: "initial_state N = Inr (fair_state N)"
proof -
  obtain b where b: "bitmap_set N (map int [0..<N]) = Inr b" "\<forall>i. bit b i \<longleftrightarrow> i \<in> set [0..<N]"
    using bitmap_set_bit [of "[0..<N]" N] by auto
  then have "b = full N" by (intro bit_eqI) simp
  with b show ?thesis by (simp add: initial_state_def fair_state_def)
qed

lemma ensure_fair:
  "ensure_state N (set_timing timing (new_control_plane 10)) = Inr (fair_controller timing N)"
  "ensure_state N (fair_controller timing N) = Inr (fair_controller timing N)"
  by (simp_all add: ensure_state_def initial_state_fair fair_controller_def set_timing_def new_control_plane_def)

lemma repair_targets_fair: "repair_targets (fair_state N) = {}"
  by (auto simp: repair_targets_def fair_state_def)

lemma rebuild_fair: "rebuild_repair_logs snaps (fair_controller timing N) = Inr (fair_controller timing N)"
  by (simp add: rebuild_repair_logs_def with_state_def fair_controller_def repair_targets_fair Let_def)
    (simp add: fair_state_def)

lemma controller_fair:
  "ensure_state N cp = Inr (fair_controller timing N) \<Longrightarrow>
     advance_to_time snaps t N cp = Inr (fair_controller timing N)"
  "call_control_plane snaps r N (fair_controller timing N) = Inr (fair_controller timing N, fair_state N)"
proof -
  let ?cp = "fair_controller timing N"
  have rest: "begin_collection_window t ?cp = ?cp" "close_collection_window_if_due t ?cp = Inr ?cp"
    "cp_scheduled ?cp = []" "?cp\<lparr>cp_scheduled := []\<rparr> = ?cp" "maybe_activate_cutover r ?cp = ?cp" for t
    by (simp_all add: begin_collection_window_def close_collection_window_if_due_def maybe_activate_cutover_def
        fair_controller_def set_timing_def new_control_plane_def)
  show "advance_to_time snaps t N cp = Inr ?cp" if "ensure_state N cp = Inr ?cp"
    using that by (simp add: advance_to_time_def rest run_ready_def rebuild_fair)
  show "call_control_plane snaps r N ?cp = Inr (?cp, fair_state N)"
    by (simp add: call_control_plane_def ensure_fair rest rebuild_fair with_state_def)
      (simp add: fair_controller_def)
qed

lemma build_update_fair: "i < N \<Longrightarrow> build_control_plane_update i (fair_state N) = neutral_update N"
  by (simp add: build_control_plane_update_def fair_state_def neutral_update_def dget_or_def dget_map)


section \<open>The network without faults\<close>

definition prompt :: "'w network_fault_model \<Rightarrow> bool" where
  "prompt net \<longleftrightarrow>
     (\<forall>p dst w. unmodified (fst (net p dst w)) \<and>
        dl_deliver_round (fst (net p dst w)) = Some (pkt_round_id p) \<and>
        dl_extra_deliver_rounds (fst (net p dst w)) = [] \<and> dl_extra_copies (fst (net p dst w)) = [])"

lemma prompt_fault:
  assumes "prompt (cl_network_fault_model c)" "pkt_round_id (di_packet it) = r"
  shows "\<exists>w. apply_network_fault r it c
    = ([\<lparr>di_dst = di_dst it, di_packet = di_packet it, di_fault_applied = True\<rparr>], c\<lparr>cl_world := w\<rparr>)"
proof -
  obtain d w where net: "cl_network_fault_model c (di_packet it) (di_dst it) (cl_world c) = (d, w)" by fastforce
  with assms(1) have "unmodified d" "dl_deliver_round d = Some (pkt_round_id (di_packet it))"
    "dl_extra_deliver_rounds d = []" "dl_extra_copies d = []"
    unfolding prompt_def by (metis fst_conv)+
  with net assms(2) show ?thesis
    by (intro exI [of _ w]) (simp add: apply_network_fault_def route_delivery_def file_delivery_def Let_def)
qed

text \<open>First every item meets the fault model, which only marks it; then the marked items are handed over.\<close>

lemma network_marks:
  assumes "prompt (cl_network_fault_model c)"
    and "\<forall>it \<in> set items. \<not> di_fault_applied it \<and> pkt_round_id (di_packet it) = r"
  shows "\<exists>w. network_loop r (items @ seen) c
    = network_loop r (seen @ map (\<lambda>it. \<lparr>di_dst = di_dst it, di_packet = di_packet it, di_fault_applied = True\<rparr>) items)
        (c\<lparr>cl_world := w\<rparr>)"
  using assms
proof (induction items arbitrary: seen c)
  case Nil
  have "c = c\<lparr>cl_world := cl_world c\<rparr>" by simp
  then show ?case by (metis append_Nil append_Nil2 list.simps(8))
next
  case (Cons it items)
  obtain w where w: "apply_network_fault r it c
      = ([\<lparr>di_dst = di_dst it, di_packet = di_packet it, di_fault_applied = True\<rparr>], c\<lparr>cl_world := w\<rparr>)"
    using prompt_fault Cons.prems by (metis list.set_intros(1))
  have "prompt (cl_network_fault_model (c\<lparr>cl_world := w\<rparr>))" using Cons.prems(1) by simp
  from Cons.IH [OF this, of "seen @ fst (apply_network_fault r it c)"] Cons.prems(2) w show ?case by auto
qed

lemma network_hands_over:
  assumes "length (cl_nodes c) = N"
    and "\<forall>j < N. after_turn N pf r j (K j) (cl_nodes c ! j)"
    and "\<forall>it \<in> set items. di_fault_applied it \<and> di_dst it < N \<and>
      (\<exists>i < N. di_packet it = fair_packet N pf r i)"
  shows "\<exists>ns. network_loop r items c = Inr (c\<lparr>cl_nodes := ns\<rparr>) \<and> length ns = N \<and>
    (\<forall>j < N. after_turn N pf r j
       (K j \<union> {pkt_src_id (di_packet it) | it. it \<in> set items \<and> di_dst it = j}) (ns ! j))"
  using assms
proof (induction items arbitrary: c K)
  case Nil
  then show ?case by (intro exI [of _ "cl_nodes c"]) simp
next
  case (Cons it items)
  then obtain i where it: "di_fault_applied it" "di_dst it < N" "i < N" "di_packet it = fair_packet N pf r i" by auto
  let ?j = "di_dst it"
  let ?c = "set_node ?j (receive (fair_packet N pf r i) (cl_nodes c ! ?j)) c"
  let ?K = "K(?j := insert i (K ?j))"
  have nodes: "after_turn N pf r j (?K j) (cl_nodes ?c ! j)" if "j < N" for j
    using Cons.prems(1,2) receive_fair [of N pf r ?j "K ?j" "cl_nodes c ! ?j" i] it(2,3) that
    by (auto simp: set_node_def nth_list_update)
  have "length (cl_nodes ?c) = N" using Cons.prems(1) by (simp add: set_node_def)
  from Cons.IH [OF this, of ?K] nodes Cons.prems(3) obtain ns where
    ns: "network_loop r items ?c = Inr (?c\<lparr>cl_nodes := ns\<rparr>)" "length ns = N"
    "\<forall>j < N. after_turn N pf r j
       (?K j \<union> {pkt_src_id (di_packet it) | it. it \<in> set items \<and> di_dst it = j}) (ns ! j)" by auto
  have "?K j \<union> {pkt_src_id (di_packet it) | it. it \<in> set items \<and> di_dst it = j}
      = K j \<union> {pkt_src_id (di_packet x) | x. x \<in> set (it # items) \<and> di_dst x = j}" for j
    using it(4) by (cases "j = ?j") (auto simp: fair_packet_def intro: exI [of _ it])
  with ns it Cons.prems(1) show ?case by (intro exI [of _ ns]) (simp add: set_node_def)
qed



section \<open>A round without faults\<close>

definition fair_log ::
  "nat \<Rightarrow> (nat \<Rightarrow> int \<Rightarrow> string) \<Rightarrow> simulation_timing \<Rightarrow> nat \<Rightarrow> committed_round_record list" where
  "fair_log N pf timing m = map (\<lambda>k. timed_commit pf N timing (int k) 0 (full N)) [0..<m]"

definition fair_frame ::
  "nat \<Rightarrow> (nat \<Rightarrow> int \<Rightarrow> string) \<Rightarrow> simulation_timing \<Rightarrow> 'w cluster \<Rightarrow> bool" where
  "fair_frame N pf timing c \<longleftrightarrow>
     wired c \<and> cl_node_count c = N \<and> cl_payload_factory c = pf \<and> cl_timing c = timing \<and>
     prompt (cl_network_fault_model c) \<and> (\<forall>i r w. fst (cl_node_fault_model c i r w)) \<and>
     cl_control_plane_events c = []"

definition fair_start ::
  "nat \<Rightarrow> (nat \<Rightarrow> int \<Rightarrow> string) \<Rightarrow> simulation_timing \<Rightarrow> nat \<Rightarrow> 'w cluster \<Rightarrow> bool" where
  "fair_start N pf timing R c \<longleftrightarrow>
     fair_frame N pf timing c \<and> ensure_state N (cl_control_plane c) = Inr (fair_controller timing N) \<and>
     (\<forall>j < N. before_turn N pf (int R) j (cl_nodes c ! j) \<and>
        history c j = fair_log N pf timing (R - 2) \<and>
        (\<forall>u. dget (cl_last_control_plane_updates c) j = Some u \<longrightarrow> u = neutral_update N)) \<and>
     cl_scheduled_deliveries c = []"

definition fair_mid ::
  "nat \<Rightarrow> (nat \<Rightarrow> int \<Rightarrow> string) \<Rightarrow> simulation_timing \<Rightarrow> nat \<Rightarrow> nat \<Rightarrow> 'w cluster \<Rightarrow> bool" where
  "fair_mid N pf timing R k c \<longleftrightarrow>
     fair_frame N pf timing c \<and> cl_control_plane c = fair_controller timing N \<and>
     (\<forall>j < N. (if j < k then after_turn N pf (int R) j {j} (cl_nodes c ! j)
               else before_turn N pf (int R) j (cl_nodes c ! j)) \<and>
        history c j = fair_log N pf timing (if j < k then Suc R - 2 else R - 2) \<and>
        dget (cl_last_control_plane_updates c) j = Some (neutral_update N)) \<and>
     set (dget_or (cl_scheduled_deliveries c) (int R) []) =
       {\<lparr>di_dst = j, di_packet = fair_packet N pf (int R) i, di_fault_applied = False\<rparr> | i j. i < k \<and> j < N \<and> j \<noteq> i} \<and>
     set (dkeys (cl_scheduled_deliveries c)) \<subseteq> {int R}"

lemma fair_opening:
  assumes "fair_start N pf timing R c"
  shows "fair_mid N pf timing R 0
    (push_control_plane_updates (fair_state N) (c\<lparr>cl_control_plane := fair_controller timing N\<rparr>))"
proof -
  let ?c = "c\<lparr>cl_control_plane := fair_controller timing N\<rparr>"
  let ?d = "push_control_plane_updates (fair_state N) ?c"
  from assms have frame: "fair_frame N pf timing c" by (simp add: fair_start_def)
  then have w: "wired ?c" by (simp add: fair_frame_def wired_def)
  note push = push_control_plane_updates_result [OF w, where st = "fair_state N"]
  have N: "cl_node_count ?c = N" using frame by (simp add: fair_frame_def)
  have node: "before_turn N pf (int R) j (cl_nodes ?d ! j) \<and> history ?d j = fair_log N pf timing (R - 2) \<and>
      dget (cl_last_control_plane_updates ?d) j = Some (neutral_update N)" if j: "j < N" for j
  proof -
    have c: "before_turn N pf (int R) j (cl_nodes c ! j)" "history c j = fair_log N pf timing (R - 2)"
      "\<And>u. dget (cl_last_control_plane_updates c) j = Some u \<Longrightarrow> u = neutral_update N"
      using assms j by (simp_all add: fair_start_def)
    have "before_turn N pf (int R) j (pushed_node (fair_state N) ?c j)"
      using c(1) j by (auto simp: pushed_node_def build_update_fair before_turn_def at_ease_def
          push_control_plane_update_def)
    moreover have "pushed_history (fair_state N) ?c j = history c j"
      by (simp add: pushed_history_def fair_state_def history_def)
    moreover have "pushed_last (fair_state N) ?c j = Some (neutral_update N)"
      using c(3) j by (auto simp: pushed_last_def is_new_def build_update_fair split: option.splits)
    ultimately show ?thesis using push(3-5) [of j] j c(2) N by simp
  qed
  have "fair_frame N pf timing ?d" "cl_control_plane ?d = fair_controller timing N"
    "cl_scheduled_deliveries ?d = []"
    using push(1,2) frame assms by (auto simp: fair_frame_def same_rest_def fair_start_def)
  with node show ?thesis by (simp add: fair_mid_def)
qed

lemma schedule_fair:
  fixes c :: "'w cluster"
  shows "\<exists>s. fold (\<lambda>dst. schedule_packet_delivery r (f dst)) ds c = c\<lparr>cl_scheduled_deliveries := s\<rparr> \<and>
    set (dget_or s r []) = set (dget_or (cl_scheduled_deliveries c) r []) \<union> f ` set ds \<and>
    set (dkeys s) \<subseteq> insert r (set (dkeys (cl_scheduled_deliveries c)))"
proof (induction ds arbitrary: c)
  case Nil
  then show ?case by (intro exI [of _ "cl_scheduled_deliveries c"]) auto
next
  case (Cons d ds)
  let ?c = "schedule_packet_delivery r (f d) c"
  from Cons [of ?c] obtain s where s:
    "fold (\<lambda>dst. schedule_packet_delivery r (f dst)) ds ?c = ?c\<lparr>cl_scheduled_deliveries := s\<rparr>"
    "set (dget_or s r []) = set (dget_or (cl_scheduled_deliveries ?c) r []) \<union> f ` set ds"
    "set (dkeys s) \<subseteq> insert r (set (dkeys (cl_scheduled_deliveries ?c)))" by blast
  have "?c\<lparr>cl_scheduled_deliveries := s\<rparr> = c\<lparr>cl_scheduled_deliveries := s\<rparr>"
    "cl_scheduled_deliveries ?c
       = dset (cl_scheduled_deliveries c) r (dget_or (cl_scheduled_deliveries c) r [] @ [f d])"
    by (simp_all add: schedule_packet_delivery_def)
  with s show ?case by (intro exI [of _ s]) auto
qed

lemma fair_log_Suc:
  "fair_log N pf timing (Suc R - 2) = fair_log N pf timing (R - 2) @
     map (from_committed_round (Some (int R * round_length_ns timing))
        (Some (int R * round_length_ns timing + app_delivery_delay_ns timing)))
       (nrr_new_commits (fair_result N pf (int R) i))"
proof (cases "R < 2")
  case False
  then have "Suc R - 2 = Suc (R - 2)" "int (R - 2) = int R - 2" by simp_all
  with False show ?thesis by (simp add: fair_log_def fair_result_def timed_commit_def fair_commit_def)
qed (auto simp: fair_log_def fair_result_def)

lemma fair_turn:
  assumes mid: "fair_mid N pf timing R k c" and k: "k < N"
  shows "\<exists>c' commands'. node_turn sha (int R) k (c, commands) = Inr (c', commands') \<and>
    fair_mid N pf timing R (Suc k) c'"
proof -
  from mid have frame: "fair_frame N pf timing c" by (simp add: fair_mid_def)
  then have len: "length (cl_nodes c) = N" and id: "nd_node_id (cl_nodes c ! k) = k"
    and timing: "cl_timing c = timing" and keys: "k \<in> set (dkeys (cl_commit_history_by_node c))"
    using k by (simp_all add: fair_frame_def wired_def)
  obtain w where w: "cl_node_fault_model c k (int R) (cl_world c) = (True, w)"
    using frame by (metis fair_frame_def prod.collapse)
  have "before_turn N pf (int R) k (cl_nodes c ! k)" using mid k by (simp add: fair_mid_def)
  then obtain n where n: "advance_round sha (int R) (cl_nodes c ! k) = (n, fair_result N pf (int R) k)"
    "after_turn N pf (int R) k {k} n" by (rule advance_round_fair [OF _ _ k]) simp
  define new where "new = map (from_committed_round (Some (int R * round_length_ns timing))
      (Some (int R * round_length_ns timing + app_delivery_delay_ns timing)))
      (nrr_new_commits (fair_result N pf (int R) k))"
  define c1 where "c1 = set_node k n (c\<lparr>cl_world := w\<rparr>)"
  define c2 where "c2 = (if new = [] then c1 else c1\<lparr>cl_commit_history_by_node :=
      dset (cl_commit_history_by_node c1) k (dget_or (cl_commit_history_by_node c1) k [] @ new)\<rparr>)"
  define c3 where "c3 = set_node k (n\<lparr>nd_event_outbox := []\<rparr>) c2"
  have outbox: "nd_event_outbox n = []" using n(2) by (simp add: after_turn_def at_ease_def)
  have node: "cl_nodes c2 ! k = n" using len k by (simp add: c2_def c1_def set_node_def)
  have pull: "pull_node_control_plane_events k (int R) start c2 = Inr c3" for start
    by (simp add: pull_node_control_plane_events_def pull_control_plane_events_def node outbox c3_def)
  let ?f = "\<lambda>dst. \<lparr>di_dst = dst, di_packet = fair_packet N pf (int R) k, di_fault_applied = False\<rparr>"
  from schedule_fair [of "int R" ?f "filter (\<lambda>m. m \<noteq> k) [0..<N]" c3] obtain s where s:
    "fold (\<lambda>dst. schedule_packet_delivery (int R) (?f dst)) (filter (\<lambda>m. m \<noteq> k) [0..<N]) c3
       = c3\<lparr>cl_scheduled_deliveries := s\<rparr>"
    "set (dget_or s (int R) []) =
       set (dget_or (cl_scheduled_deliveries c3) (int R) []) \<union> ?f ` set (filter (\<lambda>m. m \<noteq> k) [0..<N])"
    "set (dkeys s) \<subseteq> insert (int R) (set (dkeys (cl_scheduled_deliveries c3)))" by blast
  let ?c' = "c3\<lparr>cl_scheduled_deliveries := s\<rparr>"
  have sent: "schedule_outbound_packet
      \<lparr>ob_packet = fair_packet N pf (int R) k, ob_destinations = filter (\<lambda>m. m \<noteq> k) [0..<N]\<rparr> c3 = ?c'"
    using s(1) by (simp add: schedule_outbound_packet_def fair_packet_def)
  have turn: "\<exists>commands'. node_turn sha (int R) k (c, commands) = Inr (?c', commands')"
    unfolding node_turn_def Let_def prod.case id w if_True not_True_eq_False if_False n(1) timing
      new_def [symmetric] c1_def [symmetric] c2_def [symmetric] pull
    by (simp add: fair_result_def sent)
  have sched: "cl_scheduled_deliveries c3 = cl_scheduled_deliveries c"
    and rest: "cl_control_plane ?c' = cl_control_plane c"
      "cl_last_control_plane_updates ?c' = cl_last_control_plane_updates c"
    by (simp_all add: c3_def c2_def c1_def set_node_def)
  have nodes: "cl_nodes ?c' = (cl_nodes c)[k := n\<lparr>nd_event_outbox := []\<rparr>]"
    by (simp add: c3_def c2_def c1_def set_node_def)
  have hist: "history ?c' j = (if j = k then history c k @ new else history c j)" for j
    by (simp add: history_def c3_def c2_def c1_def set_node_def dget_or_def)
  have after: "after_turn N pf (int R) k {k} (n\<lparr>nd_event_outbox := []\<rparr>)"
    using n(2) by (simp add: after_turn_def at_ease_def)
  have "fair_frame N pf timing ?c'"
  proof -
    have "dkeys (cl_commit_history_by_node ?c') = dkeys (cl_commit_history_by_node c)"
      using keys by (simp add: c3_def c2_def c1_def set_node_def)
    moreover have "cl_node_count ?c' = cl_node_count c" "cl_payload_factory ?c' = cl_payload_factory c"
      "cl_timing ?c' = cl_timing c" "cl_network_fault_model ?c' = cl_network_fault_model c"
      "cl_node_fault_model ?c' = cl_node_fault_model c" "cl_control_plane_events ?c' = cl_control_plane_events c"
      by (simp_all add: c3_def c2_def c1_def set_node_def)
    moreover have "nd_node_id (cl_nodes ?c' ! i) = i \<and> nd_node_count (cl_nodes ?c' ! i) = N \<and>
        nd_payload_factory (cl_nodes ?c' ! i) = pf" if "i < N" for i
    proof -
      have "nd_node_id (cl_nodes c ! i) = i" "nd_node_count (cl_nodes c ! i) = N"
        "nd_payload_factory (cl_nodes c ! i) = pf" "nd_node_id n = k" "nd_node_count n = N"
        "nd_payload_factory n = pf"
        using that frame after by (simp_all add: fair_frame_def wired_def after_turn_def at_ease_def)
      then show ?thesis unfolding nodes using k len by (simp add: nth_list_update)
    qed
    ultimately show ?thesis using frame nodes by (simp add: fair_frame_def wired_def)
  qed
  moreover have "(if j < Suc k then after_turn N pf (int R) j {j} (cl_nodes ?c' ! j)
        else before_turn N pf (int R) j (cl_nodes ?c' ! j)) \<and>
      history ?c' j = fair_log N pf timing (if j < Suc k then Suc R - 2 else R - 2) \<and>
      dget (cl_last_control_plane_updates ?c') j = Some (neutral_update N)" if "j < N" for j
  proof -
    have old: "if j < k then after_turn N pf (int R) j {j} (cl_nodes c ! j)
        else before_turn N pf (int R) j (cl_nodes c ! j)"
      "history c j = fair_log N pf timing (if j < k then Suc R - 2 else R - 2)"
      "dget (cl_last_control_plane_updates c) j = Some (neutral_update N)"
      using mid that by (simp_all add: fair_mid_def)
    show ?thesis
    proof (cases "j = k")
      case True
      with old after len k show ?thesis
        unfolding nodes hist rest new_def by (simp add: fair_log_Suc [symmetric] del: diff_Suc_Suc)
    next
      case False
      then have "j < Suc k \<longleftrightarrow> j < k" by auto
      with False old show ?thesis unfolding nodes hist rest by simp
    qed
  qed
  moreover let ?it = "\<lambda>i j. \<lparr>di_dst = j, di_packet = fair_packet N pf (int R) i, di_fault_applied = False\<rparr>"
  have "set (dget_or (cl_scheduled_deliveries ?c') (int R) []) = {?it i j | i j. i < Suc k \<and> j < N \<and> j \<noteq> i}"
  proof -
    have "set (dget_or (cl_scheduled_deliveries c) (int R) []) = {?it i j | i j. i < k \<and> j < N \<and> j \<noteq> i}"
      using mid unfolding fair_mid_def by blast
    moreover have "set (dget_or (cl_scheduled_deliveries ?c') (int R) []) =
        set (dget_or (cl_scheduled_deliveries c) (int R) []) \<union> ?it k ` {j. j < N \<and> j \<noteq> k}"
      using s(2) by (simp add: sched)
    ultimately show ?thesis by (auto simp: less_Suc_eq)
  qed
  moreover have "set (dkeys (cl_scheduled_deliveries ?c')) \<subseteq> {int R}"
    using s(3) mid by (auto simp: sched fair_mid_def)
  moreover have "cl_control_plane ?c' = fair_controller timing N" using rest mid by (simp add: fair_mid_def)
  ultimately have "fair_mid N pf timing R (Suc k) ?c'" unfolding fair_mid_def by blast
  with turn show ?thesis by blast
qed


lemma dpop_last: "set (dkeys d) \<subseteq> {k} \<Longrightarrow> dpop d k = []"
  by (induction d) (auto simp: dpop_def dkeys_def)

text \<open>The end of the round: all packets are handed over and every stage is complete.\<close>

lemma fair_closing:
  assumes mid: "fair_mid N pf timing R N c"
  shows "\<exists>c'. advance_network (int R) c = Inr c' \<and>
    (\<forall>sink. fair_start N pf timing (Suc R) (c'\<lparr>cl_metrics_sink := sink\<rparr>))"
proof -
  let ?items = "dget_or (cl_scheduled_deliveries c) (int R) []"
  let ?mark = "\<lambda>it. \<lparr>di_dst = di_dst it, di_packet = di_packet it, di_fault_applied = True\<rparr>"
  let ?it = "\<lambda>i j. \<lparr>di_dst = j, di_packet = fair_packet N pf (int R) i, di_fault_applied = False\<rparr>"
  from mid have frame: "fair_frame N pf timing c" and
    items: "set ?items = {?it i j | i j. i < N \<and> j < N \<and> j \<noteq> i}"
    unfolding fair_mid_def by blast+
  have len: "length (cl_nodes c) = N" and net: "prompt (cl_network_fault_model c)"
    using frame by (simp_all add: fair_frame_def wired_def)
  have pop: "dpop (cl_scheduled_deliveries c) (int R) = []"
    using mid by (intro dpop_last) (simp add: fair_mid_def)
  let ?c = "c\<lparr>cl_scheduled_deliveries := []\<rparr>"
  have "\<forall>it \<in> set ?items. \<not> di_fault_applied it \<and> pkt_round_id (di_packet it) = int R"
    unfolding items by (auto simp: fair_packet_def)
  from network_marks [of ?c, OF _ this, of "[]"] net obtain w where
    w: "network_loop (int R) ?items ?c = network_loop (int R) (map ?mark ?items) (?c\<lparr>cl_world := w\<rparr>)"
    by auto
  have nodes: "\<forall>j < N. after_turn N pf (int R) j {j} (cl_nodes (?c\<lparr>cl_world := w\<rparr>) ! j)"
    using mid by (simp add: fair_mid_def)
  have "\<forall>it \<in> set (map ?mark ?items). di_fault_applied it \<and> di_dst it < N \<and>
      (\<exists>i < N. di_packet it = fair_packet N pf (int R) i)"
    using items by auto
  from network_hands_over [where c = "?c\<lparr>cl_world := w\<rparr>", OF _ nodes this] len obtain ns where
    ns: "network_loop (int R) (map ?mark ?items) (?c\<lparr>cl_world := w\<rparr>) = Inr (?c\<lparr>cl_world := w, cl_nodes := ns\<rparr>)"
    "length ns = N" "\<forall>j < N. after_turn N pf (int R) j
       ({j} \<union> {pkt_src_id (di_packet it) | it. it \<in> set (map ?mark ?items) \<and> di_dst it = j}) (ns ! j)"
    by auto
  have "{j} \<union> {pkt_src_id (di_packet it) | it. it \<in> set (map ?mark ?items) \<and> di_dst it = j} = {..<N}"
    if j: "j < N" for j
  proof -
    have "x \<in> {pkt_src_id (di_packet it) | it. it \<in> set (map ?mark ?items) \<and> di_dst it = j}"
      if "x < N" "x \<noteq> j" for x
    proof -
      have "?it x j \<in> set ?items" unfolding items using that j by blast
      then have "?mark (?it x j) \<in> set (map ?mark ?items)" unfolding set_map by (rule imageI)
      then show ?thesis by (intro CollectI exI [of _ "?mark (?it x j)"]) (simp add: fair_packet_def)
    qed
    moreover have "pkt_src_id (di_packet it) < N" if "it \<in> set (map ?mark ?items)" for it
      using that unfolding set_map items by (auto simp: fair_packet_def)
    ultimately show ?thesis using j by blast
  qed
  with ns(3) have done1: "after_turn N pf (int R) j {..<N} (ns ! j)" if "j < N" for j using that by simp
  let ?c' = "c\<lparr>cl_scheduled_deliveries := [], cl_world := w, cl_nodes := ns\<rparr>"
  have "advance_network (int R) c = Inr ?c'"
    using w ns(1) by (simp add: advance_network_def pop)
  moreover have "fair_start N pf timing (Suc R) (?c'\<lparr>cl_metrics_sink := sink\<rparr>)" for sink
  proof -
    have "before_turn N pf (int (Suc R)) j (ns ! j)" if "j < N" for j
      using after_next_turn [OF done1 [OF that]] by (simp add: add.commute)
    moreover have "wired (?c'\<lparr>cl_metrics_sink := sink\<rparr>)"
      using frame done1 ns(2) by (simp add: wired_def fair_frame_def after_turn_def at_ease_def)
    moreover have "history (?c'\<lparr>cl_metrics_sink := sink\<rparr>) j = history c j" for j by (simp add: history_def)
    ultimately show ?thesis
      using frame mid by (simp add: fair_start_def fair_frame_def fair_mid_def ensure_fair)
  qed
  ultimately show ?thesis by blast
qed

lemma fair_round:
  assumes start: "fair_start N pf timing R c"
  shows "\<exists>c'. run_round sha R c = Inr c' \<and> fair_start N pf timing (Suc R) c'"
proof -
  have N: "cl_node_count c = N" and len: "length (cl_nodes c) = N" and
    ens: "ensure_state N (cl_control_plane c) = Inr (fair_controller timing N)"
    using start by (auto simp: fair_start_def fair_frame_def wired_def)
  let ?c = "push_control_plane_updates (fair_state N) (c\<lparr>cl_control_plane := fair_controller timing N\<rparr>)"
  note open1 = fair_opening [OF start]
  let ?P = "\<lambda>k (s :: 'a cluster \<times> string set). fair_mid N pf timing R k (fst s)"
  have "\<exists>s'. efold (node_turn sha (int R)) [0..<N] (?c, {}) = Inr s' \<and> ?P N s'"
  proof (rule efold_upt_invariant [where P = ?P])
    fix k and s :: "'a cluster \<times> string set" assume "k < N" "?P k s"
    with fair_turn [of N pf timing R k "fst s" sha "snd s"]
    show "\<exists>s'. node_turn sha (int R) k s = Inr s' \<and> ?P (Suc k) s'" by auto
  qed (simp add: open1)
  then obtain c3 commands where turns: "efold (node_turn sha (int R)) [0..<N] (?c, {}) = Inr (c3, commands)"
    "fair_mid N pf timing R N c3" by auto
  obtain c4 where c4: "advance_network (int R) c3 = Inr c4"
    "\<And>sink. fair_start N pf timing (Suc R) (c4\<lparr>cl_metrics_sink := sink\<rparr>)"
    using fair_closing [OF turns(2)] by blast
  show ?thesis
    by (simp add: run_round_def Let_def N len controller_fair(1) [OF ens] controller_fair(2) turns(1) c4)
qed



section \<open>A run without faults\<close>

lemma fair_new_cluster:
  assumes "prompt net" "\<forall>i r w. fst (faults i r w)"
  shows "fair_start N pf timing 0 (new_cluster sha N rounds timing pf net faults w sink)"
proof -
  let ?c = "new_cluster sha N rounds timing pf net faults w sink"
  have "before_turn N pf 0 j (cl_nodes ?c ! j)" if "j < N" for j
    using that by (simp add: new_cluster_def new_node_def before_turn_def at_ease_def slot_ok_def
        empty_stage_def full_def)
  moreover have "wired ?c" by (simp add: wired_def new_cluster_def new_node_def)
  moreover have "history ?c j = []" if "j < N" for j
    using that by (simp add: history_def new_cluster_def dget_or_def dget_map)
  ultimately show ?thesis
    using assms ensure_fair(1) by (simp add: fair_start_def fair_frame_def fair_log_def) (simp add: new_cluster_def)
qed

lemma fair_run:
  fixes net :: "'w network_fault_model"
  assumes "prompt net" "\<forall>i r w. fst (faults i r w)"
  obtains c :: "'w cluster" where "run sha (new_cluster sha N rounds timing pf net faults w sink) = Inr (cluster_result c)"
    "fair_start N pf timing (nat rounds) c"
proof -
  let ?c = "new_cluster sha N rounds timing pf net faults w sink"
  have "\<exists>c'. efold (run_round sha) [0..<nat rounds] ?c = Inr c' \<and> fair_start N pf timing (nat rounds) c'"
    by (rule efold_upt_invariant [where P = "fair_start N pf timing"])
      (simp_all add: fair_round fair_new_cluster [OF assms])
  then obtain c' where "efold (run_round sha) [0..<nat rounds] ?c = Inr c'" "fair_start N pf timing (nat rounds) c'"
    by blast
  moreover have "cl_rounds ?c = rounds" by (simp add: new_cluster_def)
  ultimately show thesis by (intro that [of c']) (simp_all add: run_def run_rounds_def)
qed

lemma fair_log_entries:
  "fair_log N pf timing m = map (\<lambda>k.
     \<lparr>cr_round = int k, cr_membership_epoch = 0, cr_commit_set = one_hot N - 1,
      cr_proposals = map (\<lambda>m. (m, pf m (int k))) [0..<N],
      cr_commit_time_ns = Some ((int k + 2) * round_length_ns timing),
      cr_app_delivery_time_ns
        = Some ((int k + 2) * round_length_ns timing + app_delivery_delay_ns timing)\<rparr>) [0..<m]"
  unfolding fair_log_def timed_commit_def canonical_commit_def from_committed_round_def bitmap_members_full
  by (simp add: full_def)

lemma fair_report:
  assumes "fair_start N pf timing R c" "nd \<in> set (res_nodes (cluster_result c))"
  shows "sn_status nd = RUNNING \<and> sn_halted_round nd = None \<and> nr_committed_rounds nd = fair_log N pf timing (R - 2)"
proof -
  obtain j where j: "j < N" "nd = node_report_of (cl_commit_history_by_node c) (cl_nodes c ! j)"
    using assms by (auto simp: cluster_result_def in_set_conv_nth fair_start_def fair_frame_def wired_def)
  with assms(1) have "at_ease N pf j (cl_nodes c ! j)" "history c j = fair_log N pf timing (R - 2)"
    by (simp_all add: fair_start_def before_turn_def)
  with j(2) show ?thesis
    by (simp add: node_report_of_def node_snapshot.defs snapshot_def at_ease_def history_def)
qed

end
