(* ===== verification/Controller_Runs.thy ===== *)
theory Controller_Runs
  imports Recovery_Contract
begin

text \<open>
  The controller on its own: the states it can reach from its construction by rounds and events in
  any order, at any time and for any snapshots, and what holds in all of them. The cluster is one
  such environment; nothing here depends on how the cluster orders its calls.
\<close>


section \<open>Reachable states\<close>

text \<open>
  A run of the controller of \<open>n\<close> nodes: \<open>control_round\<close> are the two calls at the start of a round,
  events come from one of the \<open>n\<close> nodes.
\<close>

inductive controller_run :: "nat \<Rightarrow> simulation_timing \<Rightarrow> control_plane \<Rightarrow> bool"
  for n :: nat and timing :: simulation_timing where
  started: "ensure_state n (set_timing timing (new_control_plane slack)) = Inr cp \<Longrightarrow> controller_run n timing cp"
| ticked: "controller_run n timing cp \<Longrightarrow> control_round snapshots t r n cp = Inr (cp', st) \<Longrightarrow>
    controller_run n timing cp'"
| observed: "controller_run n timing cp \<Longrightarrow> event_node (ev_event ev) < n \<Longrightarrow> observe_event ev cp = Inr cp' \<Longrightarrow>
    controller_run n timing cp'"

lemma controller_run_inv:
  assumes "controller_run n timing cp" and timing: "round_length_ns timing \<noteq> 0"
  shows "\<exists>st. cp_inv [] st cp \<and> cp_node_count cp = n \<and> cp_timing cp = timing"
  using assms(1)
proof induction
  case (started slack cp)
  from ensure_state_fresh [OF timing, of n slack] started show ?case by auto
next
  case (ticked cp snapshots t r cp' st)
  then obtain st0 where "cp_inv [] st0 cp" "cp_node_count cp = n" "cp_timing cp = timing" by blast
  with control_round_op [OF this(1), of snapshots t r n] ticked.hyps(2) show ?case
    by (auto simp: cutover_step_def)
next
  case (observed cp ev cp')
  then obtain st0 where st0: "cp_inv [] st0 cp" "cp_node_count cp = n" "cp_timing cp = timing" by blast
  with observed.hyps(2) have "event_node (ev_event ev) < cp_node_count cp" by simp
  from observe_event_op [OF st0(1) this] observed.hyps(3) st0 show ?case
    by (auto simp: event_step_def quiet_step_def)
qed


section \<open>Properties\<close>

text \<open>
  C7. The controller never raises: whatever it has been through, a round succeeds for any snapshots,
  time and round, and so does any event of one of its nodes. No assertion of the module can fail.
\<close>

theorem controller_never_raises:
  assumes "controller_run n timing cp" and "round_length_ns timing \<noteq> 0"
  shows "(\<exists>cp' st. control_round snapshots t r n cp = Inr (cp', st)) \<and>
    (event_node (ev_event ev) < n \<longrightarrow> (\<exists>cp'. observe_event ev cp = Inr cp'))"
proof -
  from controller_run_inv [OF assms] obtain st0 where st0: "cp_inv [] st0 cp" "cp_node_count cp = n" by blast
  have "\<exists>cp' st. control_round snapshots t r n cp = Inr (cp', st)"
    using control_round_op [OF st0(1), of snapshots t r n] by blast
  moreover have "\<exists>cp'. observe_event ev cp = Inr cp'" if "event_node (ev_event ev) < n"
    using observe_event_op [OF st0(1), of ev] that st0(2) by auto
  ultimately show ?thesis by blast
qed

lemma controller_example:
  obtains cp where "ensure_state 3 (set_timing default_timing (new_control_plane 2)) = Inr cp"
    "controller_run 3 default_timing cp"
proof -
  have "round_length_ns default_timing \<noteq> 0" by (simp add: default_timing_def)
  from ensure_state_fresh [OF this, of 3 2] obtain cp where
    "ensure_state 3 (set_timing default_timing (new_control_plane 2)) = Inr cp" by blast
  with controller_run.started that show thesis by blast
qed

theorem controller_never_raises_witness:
  "\<exists>cp cp1 cp2 st. ensure_state 3 (set_timing default_timing (new_control_plane 2)) = Inr cp \<and>
    observe_event \<lparr>ev_event = NodeCrashed 2, ev_round = 1, ev_available_at_ns = 14000\<rparr> cp = Inr cp1 \<and>
    control_round [] 16000 4 3 cp1 = Inr (cp2, st)"
proof (rule controller_example)
  let ?ev = "\<lparr>ev_event = NodeCrashed 2, ev_round = 1, ev_available_at_ns = 14000\<rparr>"
  fix cp assume cp: "ensure_state 3 (set_timing default_timing (new_control_plane 2)) = Inr cp"
    "controller_run 3 default_timing cp"
  have t: "round_length_ns default_timing \<noteq> 0" by (simp add: default_timing_def)
  have node: "event_node (ev_event ?ev) < 3" by (simp add: event_node_def)
  then obtain cp1 where cp1: "observe_event ?ev cp = Inr cp1"
    using controller_never_raises [OF cp(2) t, of _ _ _ ?ev] by blast
  have "controller_run 3 default_timing cp1" by (rule controller_run.observed [OF cp(2) node cp1])
  with controller_never_raises [OF this t, of "[]" 16000 4] cp(1) cp1 show ?thesis by blast
qed

text \<open>
  C8. The controller's book-keeping: in every reachable state the table has an entry for every
  node, a node that is not \<open>ACTIVE\<close> is collected, targeted or queued, epoch and run id are the same
  number, and a pending configuration is the next one, under the running episode.
\<close>

theorem controller_bookkeeping:
  assumes "controller_run n timing cp" and "round_length_ns timing \<noteq> 0"
  shows "\<exists>st. cp_current_state cp = Some st \<and> dkeys (cps_node_states st) = [0..<n] \<and>
    {i. i < n \<and> dget (cps_node_states st) i \<noteq> Some ACTIVE} \<subseteq> under_recovery (debug_snapshot_of cp) \<and>
    under_recovery (debug_snapshot_of cp) \<subseteq> {..<n} \<and>
    ic_membership_epoch (cps_installed_config st) = ic_run_id (cps_installed_config st) \<and>
    pc_run_id ` set_option (cp_pending_future cp) \<subseteq> {ic_run_id (cps_installed_config st) + 1} \<and>
    (cp_pending_future cp = None \<or> cp_active_episode_id cp \<noteq> None)"
proof -
  from controller_run_inv [OF assms] obtain st where st: "cp_inv [] st cp" "cp_node_count cp = n" by blast
  note parts = cp_inv_parts [OF st(1)]
  have cur: "cp_current_state cp = Some st" using st(1) by (simp add: cp_inv_def)
  have "pc_run_id ` set_option (cp_pending_future cp) \<subseteq> {ic_run_id (cps_installed_config st) + 1}"
    "cp_pending_future cp = None \<or> cp_active_episode_id cp \<noteq> None"
    using parts(5) by (auto simp: episode_ok_def future_ok_def split: option.splits)
  with cur parts(3) show ?thesis
    by (auto simp: states_ok_def interrupted_reported [OF parts(3)] st(2))
qed

theorem controller_bookkeeping_witness:
  "\<exists>cp st. ensure_state 3 (set_timing default_timing (new_control_plane 2)) = Inr cp \<and>
    cp_current_state cp = Some st \<and> dkeys (cps_node_states st) = [0, 1, 2]"
proof (rule controller_example)
  fix cp assume cp: "ensure_state 3 (set_timing default_timing (new_control_plane 2)) = Inr cp"
    "controller_run 3 default_timing cp"
  from controller_bookkeeping [OF cp(2)] cp(1) show ?thesis
    by (auto simp: default_timing_def upt_rec)
qed

text \<open>
  C9. What a round of the controller may do to the membership: the run id never decreases, a
  committed configuration stays pending until it or a later one is installed, none stays pending past
  its round, and a node that is reactivated is given a new run id, so it cannot resume its old run.
\<close>

theorem controller_round_contract:
  assumes "controller_run n timing cp" and "round_length_ns timing \<noteq> 0"
    and "cp_current_state cp = Some st" and "control_round snapshots t r n cp = Inr (cp', st')"
  shows "ic_run_id (cps_installed_config st) \<le> ic_run_id (cps_installed_config st') \<and>
    (\<forall>p. cp_pending_future cp = Some p \<and> pc_status p = COMMITTED \<longrightarrow>
       cp_pending_future cp' = Some p \<or> pc_run_id p \<le> ic_run_id (cps_installed_config st')) \<and>
    not_due r (cp_pending_future cp') \<and>
    (\<forall>i < n. \<not> is_active st i \<and> is_active st' i \<longrightarrow>
       ic_run_id (cps_installed_config st) < ic_run_id (cps_installed_config st'))"
proof -
  from controller_run_inv [OF assms(1,2)] assms(3) have inv: "cp_inv [] st cp" "cp_node_count cp = n"
    by (auto simp: cp_inv_def)
  have step: "controller_round r (st, cp) (st', cp')"
    using inv assms(4) by (auto simp: controller_round_def)
  show ?thesis
    using controller.run_grows [OF step] controller.committed_kept [OF step]
      controller.cutover_done [OF step] controller.reactivation_moves_run [OF step] inv(2) by simp
qed

theorem controller_round_contract_witness:
  "\<exists>cp st cp' st'. ensure_state 3 (set_timing default_timing (new_control_plane 2)) = Inr cp \<and>
    cp_current_state cp = Some st \<and> control_round [] 4000 1 3 cp = Inr (cp', st') \<and>
    ic_run_id (cps_installed_config st) \<le> ic_run_id (cps_installed_config st') \<and>
    not_due 1 (cp_pending_future cp')"
proof (rule controller_example)
  fix cp assume cp: "ensure_state 3 (set_timing default_timing (new_control_plane 2)) = Inr cp"
    "controller_run 3 default_timing cp"
  have t: "round_length_ns default_timing \<noteq> 0" by (simp add: default_timing_def)
  from controller_run_inv [OF cp(2) t] obtain st where st: "cp_inv [] st cp" by blast
  then have cur: "cp_current_state cp = Some st" by (simp add: cp_inv_def)
  from control_round_op [OF st, of "[]" 4000 1 3] obtain cp' st' where
    r: "control_round [] 4000 1 3 cp = Inr (cp', st')" by blast
  from controller_round_contract [OF cp(2) t cur r] cp(1) cur r show ?thesis by blast
qed

end
