(* ===== verification/Controller_Progress.thy ===== *)
theory Controller_Progress
  imports Controller_Runs
begin

text \<open>
  The recovery of interrupted nodes by the controller, followed from the interruption to the
  cutover: what every round of the controller does in each phase of an episode, and that an
  episode whose preparation is acknowledged ends with every node \<open>ACTIVE\<close> in a new run.
\<close>


section \<open>Between episodes\<close>

text \<open>No interruption is being worked on and nothing is scheduled.\<close>

definition idle :: "nat \<Rightarrow> simulation_timing \<Rightarrow> control_plane_state \<Rightarrow> control_plane \<Rightarrow> bool" where
  "idle n timing st cp \<longleftrightarrow>
     cp_current_state cp = Some st \<and> cp_node_count cp = n \<and> cp_timing cp = timing \<and>
     dkeys (cps_node_states st) = [0..<n] \<and> (\<forall>i < n. is_active st i) \<and> cps_pending_config st = None \<and>
     cp_collecting_targets cp = {} \<and> cp_episode_targets cp = {} \<and> cp_queued_interruptions cp = [] \<and>
     cp_collection_deadline_ns cp = None \<and> cp_active_episode_id cp = None \<and>
     cp_pending_future cp = None \<and> cp_scheduled cp = []"


section \<open>An episode\<close>

text \<open>What an episode is about: the targets, the end of the collection window, the episode id and
  the configuration it starts from.\<close>

record episode =
  ep_nodes :: nat
  ep_timing :: simulation_timing
  ep_slack :: int
  ep_targets :: "nat set"
  ep_deadline :: int
  ep_id :: int
  ep_config :: installed_config

definition repair_at :: "episode \<Rightarrow> int" where
  "repair_at E = ep_deadline E + cp_decision_delay_ns (ep_timing E)"

definition prepare_at :: "episode \<Rightarrow> int" where
  "prepare_at E = repair_at E + repair_delay_ns (ep_timing E)"

definition abort_at :: "episode \<Rightarrow> int" where
  "abort_at E = prepare_at E + install_delay_ns (ep_timing E)"

definition proposed :: "episode \<Rightarrow> pending_config" where
  "proposed E =
     \<lparr>pc_membership_epoch = ic_membership_epoch (ep_config E) + 1,
      pc_members_bitmap = one_hot (ep_nodes E) - 1,
      pc_effective_round = prepare_at E div round_length_ns (ep_timing E) + 1 + ep_slack E,
      pc_run_id = ic_run_id (ep_config E) + 1,
      pc_status = PREPARED\<rparr>"

definition decided :: "episode \<Rightarrow> int \<Rightarrow> pending_config" where
  "decided E commit_at =
     (proposed E)\<lparr>pc_effective_round :=
        max (pc_effective_round (proposed E)) (commit_at div round_length_ns (ep_timing E) + 2),
      pc_status := COMMITTED\<rparr>"

text \<open>The phases in the order an episode goes through them.\<close>

datatype phase = Collecting | Waiting | Repairing | Prepared "nat set" | Agreed int | Committed int

fun target_state :: "phase \<Rightarrow> membership_state" where
  "target_state Collecting = FAILED"
| "target_state Waiting = FAILED"
| "target_state Repairing = RECOVERING"
| "target_state ph = REJOIN_PENDING"

fun phase_future :: "episode \<Rightarrow> phase \<Rightarrow> pending_config option" where
  "phase_future E Collecting = None"
| "phase_future E Waiting = None"
| "phase_future E Repairing = None"
| "phase_future E (Committed c) = Some (decided E c)"
| "phase_future E ph = Some (proposed E)"

text \<open>The schedule: what is still to be done. The abort outlives the commit, and does nothing then.\<close>

fun agenda :: "episode \<Rightarrow> phase \<Rightarrow> scheduled_action list" where
  "agenda E Collecting = []"
| "agenda E Waiting = [(repair_at E, Mark_recovering, Some (ep_id E)),
     (prepare_at E, Prepare_online_rejoin, Some (ep_id E)), (abort_at E, Abort_online_rejoin, Some (ep_id E))]"
| "agenda E Repairing =
     [(prepare_at E, Prepare_online_rejoin, Some (ep_id E)), (abort_at E, Abort_online_rejoin, Some (ep_id E))]"
| "agenda E (Prepared acks) = [(abort_at E, Abort_online_rejoin, Some (ep_id E))]"
| "agenda E (Agreed c) =
     [(abort_at E, Abort_online_rejoin, Some (ep_id E)), (c, Commit_online_rejoin, Some (ep_id E))]"
| "agenda E (Committed c) = [(abort_at E, Abort_online_rejoin, Some (ep_id E))]"

definition underway :: "episode \<Rightarrow> phase \<Rightarrow> control_plane_state \<Rightarrow> control_plane \<Rightarrow> bool" where
  "underway E ph st cp \<longleftrightarrow>
     cp_current_state cp = Some st \<and> cp_node_count cp = ep_nodes E \<and> cp_timing cp = ep_timing E \<and>
     cp_cutover_slack_rounds cp = ep_slack E \<and>
     ep_targets E \<noteq> {} \<and> ep_targets E \<subseteq> {..<ep_nodes E} \<and>
     dkeys (cps_node_states st) = [0..<ep_nodes E] \<and>
     (\<forall>i < ep_nodes E. dget (cps_node_states st) i =
        Some (if i \<in> ep_targets E then target_state ph else ACTIVE)) \<and>
     cps_installed_config st = ep_config E \<and> cps_pending_config st = phase_future E ph \<and>
     cp_pending_future cp = phase_future E ph \<and> cp_queued_interruptions cp = [] \<and>
     (if ph = Collecting
      then cp_collecting_targets cp = ep_targets E \<and> cp_episode_targets cp = {} \<and>
        cp_collection_deadline_ns cp = Some (ep_deadline E) \<and> cp_active_episode_id cp = None \<and>
        cp_next_episode_id cp = ep_id E
      else cp_collecting_targets cp = {} \<and> cp_episode_targets cp = ep_targets E \<and>
        cp_collection_deadline_ns cp = None \<and> cp_active_episode_id cp = Some (ep_id E) \<and>
        cp_episode_members_bitmap cp = Some (one_hot (ep_nodes E) - 1) \<and>
        cp_prepare_round cp = Some (prepare_at E div round_length_ns (ep_timing E) + 1)) \<and>
     (\<forall>acks. ph = Prepared acks \<longrightarrow> cp_prepare_acks cp = acks)"

fun on_schedule :: "episode \<Rightarrow> phase \<Rightarrow> control_plane \<Rightarrow> bool" where
  "on_schedule E (Committed c) cp \<longleftrightarrow> cp_scheduled cp = agenda E (Committed c) \<or> cp_scheduled cp = []"
| "on_schedule E ph cp \<longleftrightarrow> cp_scheduled cp = agenda E ph"

text \<open>The reference automaton: where a phase has got to by time \<open>t\<close>.\<close>

definition settle :: "episode \<Rightarrow> int \<Rightarrow> phase \<Rightarrow> phase" where
  "settle E t ph =
     (let ph1 = (if ph = Collecting \<and> ep_deadline E \<le> t then Waiting else ph);
          ph2 = (if ph1 = Waiting \<and> repair_at E \<le> t then Repairing else ph1);
          ph3 = (if ph2 = Repairing \<and> prepare_at E \<le> t then Prepared {} else ph2)
      in case ph3 of Agreed c \<Rightarrow> if c \<le> t then Committed c else Agreed c | _ \<Rightarrow> ph3)"


section \<open>The steps of a round\<close>

lemma begin_idle: "cp_queued_interruptions cp = [] \<Longrightarrow> begin_collection_window t cp = cp"
  by (simp add: begin_collection_window_def)

lemma full_bitmap:
  assumes "set is = {..<n}"
  shows "bitmap_set n (map int is) = Inr (one_hot n - 1)"
proof -
  from bitmap_set_bit [of "is" n] assms obtain b where
    b: "bitmap_set n (map int is) = Inr b" "\<And>i. bit b i \<longleftrightarrow> i < n" by auto
  have "b = one_hot n - 1" by (rule bit_eqI) (simp add: b(2))
  with b(1) show ?thesis by simp
qed

lemma underway_members:
  assumes "underway E ph st cp"
  shows "set (map fst (filter (\<lambda>(i, s). s = ACTIVE) (cps_node_states st))) \<union> ep_targets E = {..<ep_nodes E}"
proof -
  have keys: "set (map fst (cps_node_states st)) = {..<ep_nodes E}"
    using assms by (simp add: underway_def dkeys_def atLeast0LessThan)
  have "i \<in> set (map fst (filter (\<lambda>(i, s). s = ACTIVE) (cps_node_states st)))"
    if "i < ep_nodes E" "i \<notin> ep_targets E" for i
  proof -
    have "dget (cps_node_states st) i = Some ACTIVE" using that assms by (simp add: underway_def)
    from dget_in_set [OF this] show ?thesis by force
  qed
  moreover have "ep_targets E \<subseteq> {..<ep_nodes E}" using assms by (simp add: underway_def)
  ultimately show ?thesis using keys by auto
qed

lemma close_before:
  assumes "underway E ph st cp" "ph = Collecting \<longrightarrow> t < ep_deadline E"
  shows "close_collection_window_if_due t cp = Inr cp"
  using assms by (auto simp: close_collection_window_if_due_def underway_def split: if_splits)

lemma close_due:
  assumes "underway E Collecting st cp" "ep_deadline E \<le> t" "round_length_ns (ep_timing E) \<noteq> 0"
    and "cp_scheduled cp = []"
  shows "\<exists>cp'. close_collection_window_if_due t cp = Inr cp' \<and> underway E Waiting st cp' \<and>
    cp_scheduled cp' = agenda E Waiting"
proof -
  note u = assms(1) [unfolded underway_def]
  let ?act = "set (map fst (filter (\<lambda>(i, s). s = ACTIVE) (cps_node_states st)))"
  have all: "?act \<union> ep_targets E = {..<ep_nodes E}" by (rule underway_members [OF assms(1)])
  have bm: "bitmap_set (ep_nodes E) (map int (sorted_list_of_set {..<ep_nodes E})) = Inr (one_hot (ep_nodes E) - 1)"
    by (rule full_bitmap) simp
  show ?thesis
    using u assms(2-4) all bm
    by (simp add: close_collection_window_if_due_def with_state_def schedule_episode_def episode_members_def
        Let_def floor_div_def schedule_action_def underway_def repair_at_def prepare_at_def abort_at_def)
qed


lemma underway_states:
  assumes "underway E ph st cp"
  defines "d \<equiv> \<lambda>v. fold (\<lambda>i states. dset states i v) (sorted_list_of_set (ep_targets E)) (cps_node_states st)"
  shows "dkeys (d v) = [0..<ep_nodes E]"
    and "i < ep_nodes E \<Longrightarrow> dget (d v) i = Some (if i \<in> ep_targets E then v else ACTIVE)"
proof -
  have keys: "dkeys (cps_node_states st) = [0..<ep_nodes E]" and sub: "ep_targets E \<subseteq> {..<ep_nodes E}"
    using assms(1) by (auto simp: underway_def)
  then have fin: "finite (ep_targets E)" using finite_subset by blast
  then show "i < ep_nodes E \<Longrightarrow> dget (d v) i = Some (if i \<in> ep_targets E then v else ACTIVE)"
    using assms(1) by (simp add: d_def dget_fold_dset underway_def)
  have "set (sorted_list_of_set (ep_targets E)) \<subseteq> set (dkeys (cps_node_states st))"
    using fin sub keys by auto
  from dkeys_fold_dset [OF this] keys show "dkeys (d v) = [0..<ep_nodes E]" by (simp add: d_def)
qed

lemma underway_nodes: "underway E ph st cp \<Longrightarrow> 0 < ep_nodes E"
  by (auto simp: underway_def)

text \<open>An action of the episode that the controller applies takes it to the next phase.\<close>

definition moves ::
  "episode \<Rightarrow> scheduled_action \<Rightarrow> phase \<Rightarrow> phase \<Rightarrow> bool" where
  "moves E item ph ph' \<longleftrightarrow>
     (\<forall>st cp. underway E ph st cp \<longrightarrow>
        (\<exists>cp' st'. (case item of (t, a, x) \<Rightarrow> apply_action a t x cp) = Inr cp' \<and>
           underway E ph' st' cp' \<and> cp_scheduled cp' = cp_scheduled cp))"

lemma moves_mark: "moves E (repair_at E, Mark_recovering, Some (ep_id E)) Waiting Repairing"
  unfolding moves_def
proof (intro allI impI)
  fix st cp assume u: "underway E Waiting st cp"
  note d = underway_states [OF u, where v = RECOVERING]
  let ?d = "fold (\<lambda>i states. dset states i RECOVERING) (sorted_list_of_set (ep_targets E)) (cps_node_states st)"
  have "underway E Repairing (st\<lparr>cps_node_states := ?d\<rparr>)
      (record_applied_action (repair_at E) Mark_recovering (sorted_list_of_set (ep_targets E)) None None
         (cp\<lparr>cp_current_state := Some (st\<lparr>cps_node_states := ?d\<rparr>)\<rparr>))"
    using u d by (simp add: underway_def record_applied_action_def)
  then show "\<exists>cp' st'. (case (repair_at E, Mark_recovering, Some (ep_id E)) of (t, a, x) \<Rightarrow> apply_action a t x cp) = Inr cp' \<and>
      underway E Repairing st' cp' \<and> cp_scheduled cp' = cp_scheduled cp"
    using u underway_nodes [OF u]
    by (auto simp: apply_action_def mark_recovering_def with_state_def node_states_with_targets_def
        update_node_states_def record_applied_action_def underway_def)
qed

lemma moves_prepare: "moves E (prepare_at E, Prepare_online_rejoin, Some (ep_id E)) Repairing (Prepared {})"
  unfolding moves_def
proof (intro allI impI)
  fix st cp assume u: "underway E Repairing st cp"
  note d = underway_states [OF u, where v = REJOIN_PENDING]
  let ?d = "fold (\<lambda>i states. dset states i REJOIN_PENDING) (sorted_list_of_set (ep_targets E)) (cps_node_states st)"
  let ?st = "st\<lparr>cps_node_states := ?d, cps_pending_config := Some (proposed E)\<rparr>"
  have "underway E (Prepared {}) ?st
      (record_applied_action (prepare_at E) Prepare_online_rejoin (sorted_list_of_set (ep_targets E))
         (Some (one_hot (ep_nodes E) - 1)) (Some (pc_effective_round (proposed E)))
         (cp\<lparr>cp_prepare_acks := {}, cp_pending_future := Some (proposed E), cp_current_state := Some ?st\<rparr>))"
    using u d by (simp add: underway_def record_applied_action_def)
  then show "\<exists>cp' st'. (case (prepare_at E, Prepare_online_rejoin, Some (ep_id E)) of (t, a, x) \<Rightarrow> apply_action a t x cp) = Inr cp' \<and>
      underway E (Prepared {}) st' cp' \<and> cp_scheduled cp' = cp_scheduled cp"
    using u underway_nodes [OF u]
    by (auto simp: apply_action_def prepare_online_rejoin_def with_state_def node_states_with_targets_def
        install_pending_future_def update_node_states_def record_applied_action_def underway_def proposed_def Let_def)
qed

lemma moves_commit:
  assumes "round_length_ns (ep_timing E) \<noteq> 0"
  shows "moves E (c, Commit_online_rejoin, Some (ep_id E)) (Agreed c) (Committed c)"
  unfolding moves_def
proof (intro allI impI)
  fix st cp assume u: "underway E (Agreed c) st cp"
  let ?st = "st\<lparr>cps_pending_config := Some (decided E c)\<rparr>"
  have "underway E (Committed c) ?st
      (record_applied_action c Commit_online_rejoin (sorted_list_of_set (ep_targets E)) None
         (Some (pc_effective_round (decided E c)))
         (cp\<lparr>cp_pending_future := Some (decided E c), cp_current_state := Some ?st\<rparr>))"
    using u by (simp add: underway_def record_applied_action_def)
  then show "\<exists>cp' st'. (case (c, Commit_online_rejoin, Some (ep_id E)) of (t, a, x) \<Rightarrow> apply_action a t x cp) = Inr cp' \<and>
      underway E (Committed c) st' cp' \<and> cp_scheduled cp' = cp_scheduled cp"
    using u underway_nodes [OF u] assms
    by (auto simp: apply_action_def commit_online_rejoin_def with_state_def install_pending_future_def
        record_applied_action_def underway_def decided_def floor_div_def Let_def add.assoc)
qed

lemma moves_abort: "moves E (t, Abort_online_rejoin, Some (ep_id E)) (Committed c) (Committed c)"
  unfolding moves_def
proof (intro allI impI)
  fix st cp assume u: "underway E (Committed c) st cp"
  have "abort_online_rejoin t cp = Inr cp"
    using u by (simp add: abort_online_rejoin_def underway_def decided_def)
  then have "apply_action Abort_online_rejoin t (Some (ep_id E)) cp = Inr cp"
    using u underway_nodes [OF u] by (simp add: apply_action_def with_state_def underway_def)
  with u show "\<exists>cp' st'. (case (t, Abort_online_rejoin, Some (ep_id E)) of (t, a, x) \<Rightarrow> apply_action a t x cp) = Inr cp' \<and>
      underway E (Committed c) st' cp' \<and> cp_scheduled cp' = cp_scheduled cp"
    by auto
qed

lemma run_ready_Nil: "run_ready [] cp = Inr cp"
  by (simp add: run_ready_def)

lemma run_ready_moves:
  assumes "underway E ph st cp" "moves E it ph ph'"
  obtains cp' st' where "run_ready (it # items) cp = run_ready items cp'" "underway E ph' st' cp'"
    "cp_scheduled cp' = cp_scheduled cp"
proof -
  obtain cp' st' where "(case it of (t, a, x) \<Rightarrow> apply_action a t x cp) = Inr cp'" "underway E ph' st' cp'"
    "cp_scheduled cp' = cp_scheduled cp"
    using assms(2) [unfolded moves_def, rule_format, OF assms(1)] by blast
  then show thesis by (intro that [of cp' st']) (simp_all add: run_ready_def split_beta)
qed

lemma rebuild_underway:
  assumes "underway E ph st cp"
  obtains cp' st' where "rebuild_repair_logs snapshots cp = Inr cp'" "underway E ph st' cp'"
    "cp_scheduled cp' = cp_scheduled cp"
proof -
  have st: "cp_current_state cp = Some st" using assms by (simp add: underway_def)
  have "cp = cp\<lparr>cp_current_state := Some (st\<lparr>cps_repair_logs := cps_repair_logs st\<rparr>)\<rparr>" using st by simp
  then have "rebuild_repair_logs snapshots cp = Inr cp \<longrightarrow>
      (\<exists>ls. rebuild_repair_logs snapshots cp = Inr (cp\<lparr>cp_current_state := Some (st\<lparr>cps_repair_logs := ls\<rparr>)\<rparr>))"
    by metis
  then have "\<exists>ls. rebuild_repair_logs snapshots cp = Inr (cp\<lparr>cp_current_state := Some (st\<lparr>cps_repair_logs := ls\<rparr>)\<rparr>)"
    unfolding rebuild_repair_logs_def with_state_def st option.case Let_def by (simp split: if_split) blast
  moreover have "underway E ph (st\<lparr>cps_repair_logs := ls\<rparr>) (cp\<lparr>cp_current_state := Some (st\<lparr>cps_repair_logs := ls\<rparr>)\<rparr>)" for ls
    using assms by (simp add: underway_def)
  ultimately show thesis using that by force
qed


section \<open>A round refines the automaton\<close>

lemma underway_scheduled [simp]: "underway E ph st (cp\<lparr>cp_scheduled := xs\<rparr>) = underway E ph st cp"
  by (simp add: underway_def)

definition orderly :: "episode \<Rightarrow> bool" where
  "orderly E \<longleftrightarrow> ep_deadline E \<le> repair_at E \<and> repair_at E \<le> prepare_at E \<and>
     round_length_ns (ep_timing E) \<noteq> 0"

text \<open>By time \<open>t\<close> the preparation has not been given up.\<close>

fun kept :: "episode \<Rightarrow> int \<Rightarrow> phase \<Rightarrow> bool" where
  "kept E t (Committed c) = True"
| "kept E t (Agreed c) = (t < abort_at E \<or> (c < abort_at E \<and> c \<le> t))"
| "kept E t ph = (t < abort_at E)"

lemma ready_phase:
  assumes u: "underway E ph st cp" and sched: "on_schedule E ph cp" and ord: "orderly E"
    and kept: "kept E t ph" and open_w: "ph = Collecting \<longrightarrow> t < ep_deadline E"
  shows "\<exists>cp' st'. run_ready (sort_key action_key (filter (\<lambda>it. fst it \<le> t) (cp_scheduled cp)))
      (cp\<lparr>cp_scheduled := filter (\<lambda>it. fst it > t) (cp_scheduled cp)\<rparr>) = Inr cp' \<and>
    underway E (settle E t ph) st' cp' \<and> on_schedule E (settle E t ph) cp'"
proof -
  have len: "round_length_ns (ep_timing E) \<noteq> 0" and times: "repair_at E \<le> prepare_at E"
    using ord by (simp_all add: orderly_def)
  let ?rest = "filter (\<lambda>it. fst it > t) (cp_scheduled cp)"
  let ?cp = "cp\<lparr>cp_scheduled := ?rest\<rparr>"
  have start: "underway E ph st ?cp" "cp_scheduled ?cp = ?rest" using u by simp_all
  have one: "\<exists>cp' st'. run_ready [it] ?cp = Inr cp' \<and> underway E ph' st' cp' \<and> cp_scheduled cp' = ?rest"
    if m: "moves E it ph ph'" for it ph'
    by (rule run_ready_moves [OF start(1) m, of "[]"]) (use start(2) in \<open>auto simp: run_ready_Nil\<close>)
  have two: "\<exists>cp' st'. run_ready [it, it'] ?cp = Inr cp' \<and> underway E ph'' st' cp' \<and> cp_scheduled cp' = ?rest"
    if m: "moves E it ph ph'" "moves E it' ph' ph''" for it it' ph' ph''
  proof (rule run_ready_moves [OF start(1) m(1), of "[it']"])
    fix cp1 st1 assume 1: "run_ready [it, it'] ?cp = run_ready [it'] cp1" "underway E ph' st1 cp1"
      "cp_scheduled cp1 = cp_scheduled ?cp"
    show ?thesis
      by (rule run_ready_moves [OF 1(2) m(2), of "[]"]) (use 1 start(2) in \<open>auto simp: run_ready_Nil\<close>)
  qed
  have none: "run_ready [] ?cp = Inr ?cp" by (rule run_ready_Nil)
  show ?thesis
  proof (cases ph)
    case Collecting
    with sched open_w start none show ?thesis by (auto simp: settle_def)
  next
    case Waiting
    consider "t < repair_at E" | "repair_at E \<le> t" "t < prepare_at E" | "prepare_at E \<le> t" by linarith
    then show ?thesis
    proof cases
      case 1
      with Waiting sched times kept start none show ?thesis by (auto simp: settle_def)
    next
      case 2
      with Waiting sched times kept one [of _ Repairing] moves_mark show ?thesis
        by (force simp: settle_def)
    next
      case 3
      with Waiting sched times kept two [of _ Repairing _ "Prepared {}"] moves_mark moves_prepare show ?thesis
        by (force simp: settle_def action_key_def less_eq_cp_action_def)
    qed
  next
    case Repairing
    show ?thesis
    proof (cases "prepare_at E \<le> t")
      case True
      with Repairing sched kept one [of _ "Prepared {}"] moves_prepare show ?thesis
        by (force simp: settle_def)
    next
      case False
      with Repairing sched kept start none show ?thesis by (auto simp: settle_def)
    qed
  next
    case (Prepared acks)
    with sched kept start none show ?thesis by (auto simp: settle_def)
  next
    case (Agreed c)
    note commit = moves_commit [OF len, of c] and abort = moves_abort [of E "abort_at E" c]
    consider "t < c" "t < abort_at E" | "c \<le> t" "t < abort_at E" | "c \<le> t" "abort_at E \<le> t" "c < abort_at E"
      using kept Agreed by fastforce
    then show ?thesis
    proof cases
      case 1
      with Agreed sched start none show ?thesis by (auto simp: settle_def)
    next
      case 2
      with Agreed sched one [of _ "Committed c"] commit show ?thesis by (force simp: settle_def)
    next
      case 3
      with Agreed sched two [of _ "Committed c" _ "Committed c"] commit abort show ?thesis
        by (force simp: settle_def action_key_def)
    qed
  next
    case (Committed c)
    with sched start none one [of _ "Committed c"] moves_abort [of E "abort_at E" c] show ?thesis
      by (cases "abort_at E \<le> t") (force simp: settle_def)+
  qed
qed


lemma on_schedule_cong: "cp_scheduled cp = cp_scheduled cp' \<Longrightarrow> on_schedule E ph cp = on_schedule E ph cp'"
  by (cases ph) simp_all

lemma settle_collecting:
  "settle E t ph = Collecting \<longleftrightarrow> ph = Collecting \<and> t < ep_deadline E"
  "ep_deadline E \<le> t \<Longrightarrow> settle E t Collecting = settle E t Waiting"
  by (cases ph) (auto simp: settle_def Let_def)

lemma advance_phase:
  assumes u: "underway E ph st cp" and sched: "on_schedule E ph cp" and ord: "orderly E" and kept: "kept E t ph"
  shows "\<exists>cp' st'. advance_to_time snapshots t n cp = Inr cp' \<and>
    underway E (settle E t ph) st' cp' \<and> on_schedule E (settle E t ph) cp'"
proof -
  have start: "\<exists>cp1 ph1. close_collection_window_if_due t cp = Inr cp1 \<and> underway E ph1 st cp1 \<and>
      on_schedule E ph1 cp1 \<and> kept E t ph1 \<and> (ph1 = Collecting \<longrightarrow> t < ep_deadline E) \<and>
      settle E t ph1 = settle E t ph"
  proof (cases "ph = Collecting \<and> ep_deadline E \<le> t")
    case True
    then obtain cp1 where "close_collection_window_if_due t cp = Inr cp1" "underway E Waiting st cp1"
      "cp_scheduled cp1 = agenda E Waiting"
      using close_due [of E st cp t] u sched ord by (auto simp: orderly_def)
    with True kept settle_collecting(2) show ?thesis
      by (intro exI [of _ cp1] exI [of _ Waiting]) auto
  next
    case False
    with close_before [OF u, of t] u sched kept show ?thesis by auto
  qed
  then obtain cp1 ph1 where 1: "close_collection_window_if_due t cp = Inr cp1" "underway E ph1 st cp1"
    "on_schedule E ph1 cp1" "kept E t ph1" "ph1 = Collecting \<longrightarrow> t < ep_deadline E"
    "settle E t ph1 = settle E t ph" by blast
  from ready_phase [OF 1(2,3) ord 1(4,5)] 1(6) obtain cp2 st2 where
    2: "run_ready (sort_key action_key (filter (\<lambda>it. fst it \<le> t) (cp_scheduled cp1)))
      (cp1\<lparr>cp_scheduled := filter (\<lambda>it. fst it > t) (cp_scheduled cp1)\<rparr>) = Inr cp2"
    "underway E (settle E t ph) st2 cp2" "on_schedule E (settle E t ph) cp2" by auto
  have close: "close_collection_window_if_due t cp2 = Inr cp2"
    by (rule close_before [OF 2(2)]) (simp add: settle_collecting)
  have queues: "cp_queued_interruptions cp = []" "cp_queued_interruptions cp2 = []" "cp_current_state cp = Some st"
    using u 2(2) by (simp_all add: underway_def)
  obtain cp3 st3 where 3: "rebuild_repair_logs snapshots cp2 = Inr cp3" "underway E (settle E t ph) st3 cp3"
    "cp_scheduled cp3 = cp_scheduled cp2" by (rule rebuild_underway [OF 2(2)])
  have "advance_to_time snapshots t n cp = Inr cp3"
    using 1(1) 2(1) close 3(1) queues by (simp add: advance_to_time_def ensure_state_known begin_idle Let_def)
  moreover have "on_schedule E (settle E t ph) cp3" using 2(3) 3(3) by (simp cong: on_schedule_cong)
  ultimately show ?thesis using 3(2) by blast
qed


section \<open>The cutover\<close>

fun due :: "episode \<Rightarrow> int \<Rightarrow> phase \<Rightarrow> bool" where
  "due E r (Committed c) \<longleftrightarrow> pc_effective_round (decided E c) \<le> r"
| "due E r ph \<longleftrightarrow> False"

definition next_config :: "episode \<Rightarrow> installed_config" where
  "next_config E =
     \<lparr>ic_membership_epoch = ic_membership_epoch (ep_config E) + 1,
      ic_members_bitmap = one_hot (ep_nodes E) - 1,
      ic_run_id = ic_run_id (ep_config E) + 1\<rparr>"

lemma cutover_not_due:
  assumes "underway E ph st cp" "\<not> due E r ph"
  shows "maybe_activate_cutover r cp = cp"
  using assms by (cases ph) (auto simp: maybe_activate_cutover_def underway_def proposed_def decided_def)

lemma cutover_due:
  assumes u: "underway E ph st cp" and sched: "on_schedule E ph cp" and due: "due E r ph"
  shows "\<exists>st'. idle (ep_nodes E) (ep_timing E) st' (maybe_activate_cutover r cp) \<and>
    cps_installed_config st' = next_config E \<and> cps_repair_logs st' = []"
proof -
  obtain c where c: "ph = Committed c" using due by (cases ph) auto
  let ?f = "decided E c" and ?t = "r * round_length_ns (cp_timing cp)"
  let ?st = "\<lparr>cps_installed_config = next_config E,
    cps_node_states = map (\<lambda>i. (i, if pc_members_bitmap ?f AND one_hot i \<noteq> 0 then ACTIVE else FAILED))
      [0..<ep_nodes E], cps_pending_config = None, cps_repair_logs = []\<rparr>"
  let ?cp1 = "record_applied_action ?t Activate_online_rejoin (sorted_list_of_set (cp_episode_targets cp)) None
      (Some (pc_effective_round ?f)) (cp\<lparr>cp_current_state := Some ?st\<rparr>)"
  let ?cp2 = "clear_episode_state (?cp1\<lparr>cp_pending_future := None\<rparr>)"
  have queue: "cp_queued_interruptions ?cp2 = []"
    using u by (simp add: underway_def clear_episode_state_def record_applied_action_def Let_def)
  have future: "cp_pending_future cp = Some ?f" "pc_status ?f = COMMITTED" "\<not> r < pc_effective_round ?f"
    "\<lparr>ic_membership_epoch = pc_membership_epoch ?f, ic_members_bitmap = pc_members_bitmap ?f,
      ic_run_id = pc_run_id ?f\<rparr> = next_config E" "cp_node_count cp = ep_nodes E"
    using u due by (simp_all add: c underway_def next_config_def) (simp_all add: decided_def proposed_def)
  have "maybe_activate_cutover r cp = begin_collection_window ?t ?cp2"
    by (simp add: maybe_activate_cutover_def future Let_def record_applied_action_def)
  then have eq: "maybe_activate_cutover r cp = ?cp2" using begin_idle [OF queue] by simp
  have "idle (ep_nodes E) (ep_timing E) ?st ?cp2"
    using u sched unfolding c
    by (auto simp: idle_def underway_def clear_episode_state_def record_applied_action_def is_active_def
        dget_map decided_def proposed_def)
  with eq show ?thesis by auto
qed

lemma rebuild_idle:
  assumes "idle n timing st cp" "cps_repair_logs st = []"
  shows "rebuild_repair_logs snapshots cp = Inr cp"
proof -
  have "s = ACTIVE" if "(i, s) \<in> set (cps_node_states st)" for i s
  proof -
    have keys: "dkeys (cps_node_states st) = [0..<n]" and active: "\<And>i. i < n \<Longrightarrow> is_active st i"
      using assms(1) by (simp_all add: idle_def)
    from keys have "distinct (map fst (cps_node_states st))" by (simp add: dkeys_def)
    with that have "dget (cps_node_states st) i = Some s" by (simp add: dget_def)
    moreover from that have "i \<in> set (dkeys (cps_node_states st))" by (force simp: dkeys_def)
    then have "i < n" by (simp add: keys)
    ultimately show ?thesis using active by (simp add: is_active_def)
  qed
  then have "repair_targets st = {}" by (force simp: repair_targets_def)
  with assms show ?thesis by (simp add: rebuild_repair_logs_def with_state_def idle_def)
qed

text \<open>A round of the controller takes the phase where the automaton takes it, and ends the episode
  when its cutover is due.\<close>

lemma round_phase:
  assumes u: "underway E ph st cp" and sched: "on_schedule E ph cp" and ord: "orderly E" and kept: "kept E t ph"
  shows "\<exists>cp' st'. control_round snapshots t r n cp = Inr (cp', st') \<and>
    (if due E r (settle E t ph)
     then idle (ep_nodes E) (ep_timing E) st' cp' \<and> cps_installed_config st' = next_config E
     else underway E (settle E t ph) st' cp' \<and> on_schedule E (settle E t ph) cp')"
proof -
  from advance_phase [OF assms, of snapshots n] obtain cp1 st1 where
    1: "advance_to_time snapshots t n cp = Inr cp1" "underway E (settle E t ph) st1 cp1"
      "on_schedule E (settle E t ph) cp1" by blast
  have cur: "cp_current_state cp1 = Some st1" using 1(2) by (simp add: underway_def)
  show ?thesis
  proof (cases "due E r (settle E t ph)")
    case True
    from cutover_due [OF 1(2,3) True] obtain st2 where
      2: "idle (ep_nodes E) (ep_timing E) st2 (maybe_activate_cutover r cp1)"
        "cps_installed_config st2 = next_config E" "cps_repair_logs st2 = []" by blast
    have "cp_current_state (maybe_activate_cutover r cp1) = Some st2" using 2(1) by (simp add: idle_def)
    with rebuild_idle [OF 2(1,3), of snapshots] 1(1) cur 2 True show ?thesis
      by (simp add: control_round_def call_control_plane_def ensure_state_known with_state_def)
  next
    case False
    obtain cp2 st2 where 2: "rebuild_repair_logs snapshots cp1 = Inr cp2"
      "underway E (settle E t ph) st2 cp2" "cp_scheduled cp2 = cp_scheduled cp1"
      by (rule rebuild_underway [OF 1(2)])
    have "cp_current_state cp2 = Some st2" using 2(2) by (simp add: underway_def)
    moreover have "on_schedule E (settle E t ph) cp2" using 1(3) 2(3) by (simp cong: on_schedule_cong)
    ultimately show ?thesis using False 1(1) 2 cur cutover_not_due [OF 1(2) False]
      by (simp add: control_round_def call_control_plane_def ensure_state_known with_state_def)
  qed
qed



section \<open>Acknowledgements\<close>

definition ack_event :: "episode \<Rightarrow> int \<Rightarrow> int \<Rightarrow> nat \<Rightarrow> cp_event" where
  "ack_event E r b i = \<lparr>ev_event = PrepareAck i (proposed E), ev_round = r, ev_available_at_ns = b\<rparr>"

fun acked :: "episode \<Rightarrow> int \<Rightarrow> nat \<Rightarrow> phase \<Rightarrow> phase" where
  "acked E b i (Prepared acks) =
     (if {..<ep_nodes E} \<subseteq> insert i acks then Agreed (b + cp_decision_delay_ns (ep_timing E))
      else Prepared (insert i acks))"
| "acked E b i ph = ph"

lemma members_of_full: "set (filter (\<lambda>i. (one_hot n - 1) AND one_hot i \<noteq> 0) [0..<n]) = {..<n}"
  by auto

lemma ack_phase:
  assumes u: "underway E ph st cp" and sched: "on_schedule E ph cp"
    and ph: "(\<exists>acks. ph = Prepared acks) \<or> (\<exists>c. ph = Agreed c)"
  shows "\<exists>cp'. observe_event (ack_event E r b i) cp = Inr cp' \<and> underway E (acked E b i ph) st cp' \<and>
    on_schedule E (acked E b i ph) cp'"
proof -
  let ?cp0 = "cp\<lparr>cp_observed_events := cp_observed_events cp @ [ack_event E r b i]\<rparr>"
  have fut: "cp_pending_future cp = Some (proposed E)" using u ph by (auto simp: underway_def)
  have members: "future_members (c\<lparr>cp_prepare_acks := K\<rparr>) = Inr {..<ep_nodes E}"
    if "cp_pending_future c = Some (proposed E)" "cp_node_count c = ep_nodes E" for c K
    using that members_of_full [of "ep_nodes E"] by (simp add: future_members_def proposed_def)
  have "observe_event (ack_event E r b i) cp = note_prepare_ack i (proposed E) b ?cp0"
    by (simp add: observe_event_def ack_event_def fut) (simp add: proposed_def)
  moreover have "\<exists>cp'. note_prepare_ack i (proposed E) b ?cp0 = Inr cp' \<and> underway E (acked E b i ph) st cp' \<and>
    on_schedule E (acked E b i ph) cp'"
    using ph
  proof
    assume "\<exists>acks. ph = Prepared acks"
    then obtain acks where p: "ph = Prepared acks" by blast
    then have acks: "cp_prepare_acks cp = acks" using u by (simp add: underway_def)
    show ?thesis
    proof (cases "{..<ep_nodes E} \<subseteq> insert i acks")
      case True
      with u sched p acks fut show ?thesis
        by (simp add: note_prepare_ack_def members underway_def schedule_action_def Let_def)
    next
      case False
      with u sched p acks fut show ?thesis
        by (simp add: note_prepare_ack_def members underway_def Let_def)
    qed
  next
    assume "\<exists>c. ph = Agreed c"
    then obtain c where p: "ph = Agreed c" by blast
    have active: "cp_active_episode_id cp = Some (ep_id E)" and count: "cp_node_count cp = ep_nodes E"
      using u p by (simp_all add: underway_def)
    have "\<exists>K L. note_prepare_ack i (proposed E) b ?cp0 =
        Inr (?cp0\<lparr>cp_prepare_acks := K, cp_last_prepare_acks := L\<rparr>)"
    proof (cases "{..<ep_nodes E} \<subseteq> insert i (cp_prepare_acks cp)")
      case True
      have "list_ex (\<lambda>(t, a, x). a = Commit_online_rejoin \<and> x = Some (ep_id E)) (cp_scheduled cp)"
        using sched by (simp add: p)
      then have "note_prepare_ack i (proposed E) b ?cp0 =
          Inr (?cp0\<lparr>cp_prepare_acks := insert i (cp_prepare_acks cp),
            cp_last_prepare_acks := insert i (cp_prepare_acks cp)\<rparr>)"
        using True fut active count by (simp add: note_prepare_ack_def members Let_def)
      then show ?thesis by blast
    next
      case False
      have "note_prepare_ack i (proposed E) b ?cp0 =
          Inr (?cp0\<lparr>cp_prepare_acks := insert i (cp_prepare_acks cp)\<rparr>)"
        using False fut count by (simp add: note_prepare_ack_def members Let_def)
      moreover have "?cp0\<lparr>cp_prepare_acks := K\<rparr> =
          ?cp0\<lparr>cp_prepare_acks := K, cp_last_prepare_acks := cp_last_prepare_acks cp\<rparr>" for K
        by (cases cp) simp
      ultimately show ?thesis by metis
    qed
    then obtain K L where eq: "note_prepare_ack i (proposed E) b ?cp0 =
        Inr (?cp0\<lparr>cp_prepare_acks := K, cp_last_prepare_acks := L\<rparr>)" by blast
    have "underway E ph st (?cp0\<lparr>cp_prepare_acks := K, cp_last_prepare_acks := L\<rparr>)"
      using u by (simp add: underway_def p)
    with eq sched p show ?thesis by simp
  qed
  ultimately show ?thesis by simp
qed

text \<open>Once every member has answered, in whatever order, the commit is on the schedule.\<close>

lemma acks_phase:
  assumes u: "underway E ph st cp" and sched: "on_schedule E ph cp"
    and ph: "(\<exists>acks. ph = Prepared acks \<and> {..<ep_nodes E} \<subseteq> acks \<union> set is \<and> \<not> {..<ep_nodes E} \<subseteq> acks) \<or>
      ph = Agreed (b + cp_decision_delay_ns (ep_timing E))"
  shows "\<exists>cp'. efold observe_event (map (ack_event E r b) is) cp = Inr cp' \<and>
    underway E (Agreed (b + cp_decision_delay_ns (ep_timing E))) st cp' \<and>
    on_schedule E (Agreed (b + cp_decision_delay_ns (ep_timing E))) cp'"
  using assms
proof (induction "is" arbitrary: cp ph)
  case (Cons i js)
  from Cons.prems(3) have "(\<exists>acks. ph = Prepared acks) \<or> (\<exists>c. ph = Agreed c)" by blast
  from ack_phase [OF Cons.prems(1,2) this, of r b i] obtain cp1 where
    1: "observe_event (ack_event E r b i) cp = Inr cp1" "underway E (acked E b i ph) st cp1"
      "on_schedule E (acked E b i ph) cp1" by blast
  have "(\<exists>acks. acked E b i ph = Prepared acks \<and> {..<ep_nodes E} \<subseteq> acks \<union> set js \<and> \<not> {..<ep_nodes E} \<subseteq> acks) \<or>
      acked E b i ph = Agreed (b + cp_decision_delay_ns (ep_timing E))"
    using Cons.prems(3)
  proof
    assume "\<exists>acks. ph = Prepared acks \<and> {..<ep_nodes E} \<subseteq> acks \<union> set (i # js) \<and> \<not> {..<ep_nodes E} \<subseteq> acks"
    then obtain acks where "ph = Prepared acks" "{..<ep_nodes E} \<subseteq> acks \<union> set (i # js)" by blast
    then show ?thesis by (cases "{..<ep_nodes E} \<subseteq> insert i acks") simp_all
  qed simp
  from Cons.IH [OF 1(2,3) this] 1(1) show ?case by simp
qed auto



section \<open>From interruption to cutover\<close>

text \<open>Consecutive rounds of the controller, each at the start of its round.\<close>

definition controller_rounds ::
  "(int \<Rightarrow> repair_snapshot list) \<Rightarrow> nat \<Rightarrow> int list \<Rightarrow> control_plane \<Rightarrow> control_plane result" where
  "controller_rounds snaps n rs cp =
     efold (\<lambda>r cp. ebind (control_round (snaps r) (r * round_length_ns (cp_timing cp)) r n cp)
                     (\<lambda>(cp', st). Inr cp')) rs cp"

lemma controller_rounds_simps:
  "controller_rounds snaps n [] cp = Inr cp"
  "control_round (snaps r) (r * round_length_ns (cp_timing cp)) r n cp = Inr (cp', st) \<Longrightarrow>
     controller_rounds snaps n (r # rs) cp = controller_rounds snaps n rs cp'"
  by (simp_all add: controller_rounds_def)

fun early :: "phase \<Rightarrow> bool" where
  "early (Prepared acks) \<longleftrightarrow> acks = {}"
| "early (Agreed c) \<longleftrightarrow> False"
| "early (Committed c) \<longleftrightarrow> False"
| "early ph \<longleftrightarrow> True"

lemma settle_early:
  assumes "early ph"
  shows "early (settle E t ph)" "\<not> due E r (settle E t ph)"
    and "orderly E \<Longrightarrow> prepare_at E \<le> t \<Longrightarrow> settle E t ph = Prepared {}"
    and "t < abort_at E \<Longrightarrow> kept E t ph"
  using assms by (cases ph; auto simp: settle_def Let_def orderly_def)+

lemma rounds_to_preparation:
  assumes "underway E ph st cp" "on_schedule E ph cp" "orderly E" "early ph"
    and "\<forall>r \<in> set rs. r * round_length_ns (ep_timing E) < abort_at E"
    and "rs \<noteq> []" "prepare_at E \<le> last rs * round_length_ns (ep_timing E)"
  shows "\<exists>cp' st'. controller_rounds snaps n rs cp = Inr cp' \<and> underway E (Prepared {}) st' cp' \<and>
    on_schedule E (Prepared {}) cp'"
  using assms
proof (induction rs arbitrary: ph st cp)
  case (Cons r rs)
  let ?t = "r * round_length_ns (ep_timing E)"
  have "kept E ?t ph" using settle_early(4) [OF Cons.prems(4), of ?t E] Cons.prems(5) by simp
  from round_phase [OF Cons.prems(1-3) this, of "snaps r" r n] settle_early(2) [OF Cons.prems(4), of E r ?t]
  obtain cp' st' where 1: "control_round (snaps r) ?t r n cp = Inr (cp', st')"
    "underway E (settle E ?t ph) st' cp'" "on_schedule E (settle E ?t ph) cp'" by auto
  have len: "cp_timing cp = ep_timing E" using Cons.prems(1) by (simp add: underway_def)
  have step: "controller_rounds snaps n (r # rs) cp = controller_rounds snaps n rs cp'"
    using controller_rounds_simps(2) [of snaps r cp n cp' st' rs] 1(1) len by simp
  show ?case
  proof (cases "rs = []")
    case True
    then have "settle E ?t ph = Prepared {}"
      using settle_early(3) [OF Cons.prems(4,3), of ?t] Cons.prems(7) by simp
    with 1 step True show ?thesis by (auto simp: controller_rounds_simps)
  next
    case False
    with Cons.IH [OF 1(2,3) Cons.prems(3) settle_early(1) [OF Cons.prems(4)]] Cons.prems(5,7) step
    show ?thesis by simp
  qed
qed simp

lemma commit_before_cutover:
  assumes "0 < round_length_ns (ep_timing E)"
  shows "c \<le> pc_effective_round (decided E c) * round_length_ns (ep_timing E)"
proof -
  let ?L = "round_length_ns (ep_timing E)"
  have "c \<le> c div ?L * ?L + 2 * ?L"
    using div_mult_mod_eq [of c ?L] pos_mod_bound [OF assms, of c] assms by linarith
  also have "\<dots> = (c div ?L + 2) * ?L" by (simp add: distrib_right)
  also have "\<dots> \<le> pc_effective_round (decided E c) * ?L"
    using assms by (intro mult_right_mono) (simp_all add: decided_def)
  finally show ?thesis .
qed

text \<open>After the agreement the commit falls due first and then its cutover, at the decided round.\<close>

lemma rounds_to_cutover:
  assumes "underway E ph st cp" "on_schedule E ph cp" "orderly E"
    and "ph = Agreed c \<or> ph = Committed c" "c < abort_at E" "0 < round_length_ns (ep_timing E)"
    and "r0 \<le> pc_effective_round (decided E c)"
  shows "\<exists>cp' st'. controller_rounds snaps n [r0..pc_effective_round (decided E c)] cp = Inr cp' \<and>
    idle (ep_nodes E) (ep_timing E) st' cp' \<and> cps_installed_config st' = next_config E"
  using assms(1,2,4,7)
proof (induction "nat (pc_effective_round (decided E c) - r0)" arbitrary: r0 ph st cp)
  case (0 r0)
  then have r0: "r0 = pc_effective_round (decided E c)" by simp
  let ?t = "r0 * round_length_ns (ep_timing E)"
  have "settle E ?t ph = Committed c"
    using 0(4) commit_before_cutover [OF assms(6), of c] by (auto simp: settle_def r0)
  moreover have "kept E ?t ph"
    using 0(4) commit_before_cutover [OF assms(6), of c] assms(5) by (auto simp: r0)
  ultimately obtain cp' st' where 1: "control_round (snaps r0) ?t r0 n cp = Inr (cp', st')"
    "idle (ep_nodes E) (ep_timing E) st' cp'" "cps_installed_config st' = next_config E"
    using round_phase [OF 0(2,3) assms(3), of ?t "snaps r0" r0 n] by (auto simp: r0)
  have "cp_timing cp = ep_timing E" using 0(2) by (simp add: underway_def)
  with 1 controller_rounds_simps(2) [of snaps r0 cp n cp' st' "[]"] show ?case
    by (auto simp: r0 controller_rounds_simps(1))
next
  case (Suc k r0)
  let ?t = "r0 * round_length_ns (ep_timing E)" and ?R = "pc_effective_round (decided E c)"
  from Suc(2) have before: "r0 < ?R" by simp
  have next_ph: "settle E ?t ph = Agreed c \<or> settle E ?t ph = Committed c"
    using Suc.prems(3) by (auto simp: settle_def)
  with before have not_due: "\<not> due E r0 (settle E ?t ph)" by auto
  have "kept E ?t ph" using Suc.prems(3) assms(5) by fastforce
  from round_phase [OF Suc.prems(1,2) assms(3) this, of "snaps r0" r0 n] not_due obtain cp' st' where
    1: "control_round (snaps r0) ?t r0 n cp = Inr (cp', st')" "underway E (settle E ?t ph) st' cp'"
      "on_schedule E (settle E ?t ph) cp'" by auto
  have "cp_timing cp = ep_timing E" using Suc.prems(1) by (simp add: underway_def)
  then have "controller_rounds snaps n [r0..?R] cp = controller_rounds snaps n [r0 + 1..?R] cp'"
    using controller_rounds_simps(2) [of snaps r0 cp n cp' st' "[r0 + 1..?R]"] 1(1) before
    by (simp add: upto_rec1)
  with Suc(1) [OF _ 1(2,3) next_ph, of "r0 + 1"] Suc(2) before show ?case by simp
qed

lemma first_entry: "dset [] k v = [(k, v)]" "dkeys [(k, v)] = [k]"
  by (simp_all add: dset_def dkeys_def)

text \<open>An interruption of an idle controller opens the window; those before its end join it.\<close>

lemma interruption_opens:
  assumes "idle n timing st cp" "is_interruption (ev_event ev)" "event_node (ev_event ev) < n"
  shows "\<exists>cp' st'. observe_event ev cp = Inr cp' \<and>
    underway \<lparr>ep_nodes = n, ep_timing = timing, ep_slack = cp_cutover_slack_rounds cp,
      ep_targets = {event_node (ev_event ev)},
      ep_deadline = ev_available_at_ns ev + cp_collection_delay_ns timing, ep_id = cp_next_episode_id cp,
      ep_config = cps_installed_config st\<rparr> Collecting st' cp' \<and> cp_scheduled cp' = []"
proof -
  let ?i = "event_node (ev_event ev)" and ?b = "ev_available_at_ns ev"
  let ?cp0 = "cp\<lparr>cp_observed_events := cp_observed_events cp @ [ev]\<rparr>"
  let ?st = "st\<lparr>cps_node_states := dset (cps_node_states st) ?i FAILED\<rparr>"
  have obs: "observe_event ev cp = note_interruption ?i ?b ?cp0"
    using assms(2) by (cases "ev_event ev") (simp_all add: observe_event_def event_node_def is_interruption_def)
  have mark: "mark_node_failed ?i ?cp0 = Inr (?cp0\<lparr>cp_current_state := Some ?st\<rparr>)"
    using assms(1,3) by (simp add: mark_node_failed_def with_state_def idle_def is_active_def)
  show ?thesis
    using assms(1,3) unfolding obs
    by (simp add: note_interruption_def mark idle_def underway_def begin_collection_window_def
        episode_active_def is_active_def dsetdefault_def dmem_iff first_entry)
qed


lemma interruption_joins:
  assumes u: "underway E Collecting st cp" and ev: "is_interruption (ev_event ev)"
    "event_node (ev_event ev) < ep_nodes E" "ev_available_at_ns ev \<le> ep_deadline E"
  shows "\<exists>cp' st'. observe_event ev cp = Inr cp' \<and>
    underway (E\<lparr>ep_targets := insert (event_node (ev_event ev)) (ep_targets E)\<rparr>) Collecting st' cp' \<and>
    cp_scheduled cp' = cp_scheduled cp"
proof -
  let ?i = "event_node (ev_event ev)" and ?b = "ev_available_at_ns ev"
  let ?cp0 = "cp\<lparr>cp_observed_events := cp_observed_events cp @ [ev]\<rparr>"
  have obs: "observe_event ev cp = note_interruption ?i ?b ?cp0"
    using ev(1) by (cases "ev_event ev") (simp_all add: observe_event_def event_node_def is_interruption_def)
  have keys: "?i \<in> set (dkeys (cps_node_states st))" using u ev(2) by (simp add: underway_def)
  let ?st = "if dget (cps_node_states st) ?i = Some FAILED then st
    else st\<lparr>cps_node_states := dset (cps_node_states st) ?i FAILED\<rparr>"
  have mark: "mark_node_failed ?i ?cp0 = Inr (?cp0\<lparr>cp_current_state := Some ?st\<rparr>)"
    using u by (simp add: mark_node_failed_def with_state_def underway_def)
  let ?cp' = "?cp0\<lparr>cp_current_state := Some ?st, cp_collecting_targets := insert ?i (ep_targets E)\<rparr>"
  have "observe_event ev cp = Inr ?cp'"
    using u ev(3) unfolding obs by (simp add: note_interruption_def mark underway_def)
  moreover have "underway (E\<lparr>ep_targets := insert ?i (ep_targets E)\<rparr>) Collecting ?st ?cp'"
    using u ev(2) keys by (auto simp: underway_def)
  ultimately show ?thesis by auto
qed

lemma interruptions_collected:
  assumes "underway E Collecting st cp" "cp_scheduled cp = []"
    and "\<forall>ev \<in> set evs. is_interruption (ev_event ev) \<and> event_node (ev_event ev) < ep_nodes E \<and>
      ev_available_at_ns ev \<le> ep_deadline E"
  shows "\<exists>cp' st'. efold observe_event evs cp = Inr cp' \<and> cp_scheduled cp' = [] \<and>
    underway (E\<lparr>ep_targets := (\<lambda>ev. event_node (ev_event ev)) ` set evs \<union> ep_targets E\<rparr>) Collecting st' cp'"
  using assms
proof (induction evs arbitrary: E st cp)
  case (Cons ev evs)
  from interruption_joins [OF Cons.prems(1), of ev] Cons.prems(3) obtain cp1 st1 where
    1: "observe_event ev cp = Inr cp1" "cp_scheduled cp1 = cp_scheduled cp"
      "underway (E\<lparr>ep_targets := insert (event_node (ev_event ev)) (ep_targets E)\<rparr>) Collecting st1 cp1"
    by auto
  from Cons.IH [OF 1(3)] Cons.prems(2,3) 1(1,2) show ?case by (simp add: insert_commute)
qed auto

definition interrupted_episode :: "nat \<Rightarrow> simulation_timing \<Rightarrow> cp_event list \<Rightarrow> control_plane_state \<Rightarrow> control_plane \<Rightarrow> episode" where
  "interrupted_episode n timing evs st cp =
     \<lparr>ep_nodes = n, ep_timing = timing, ep_slack = cp_cutover_slack_rounds cp,
      ep_targets = (\<lambda>ev. event_node (ev_event ev)) ` set evs,
      ep_deadline = ev_available_at_ns (hd evs) + cp_collection_delay_ns timing,
      ep_id = cp_next_episode_id cp, ep_config = cps_installed_config st\<rparr>"

text \<open>
  C10. Recovery completes. Take an idle controller and interruptions of some of its nodes inside one
  collection window, and let rounds \<open>a..q\<close> pass until the preparation is out; let every node
  acknowledge it in round \<open>q\<close>, in any order, so that the commit falls before the abort. Then at the
  decided round, and for whatever repair snapshots there are, every node is \<open>ACTIVE\<close> again, the next
  configuration with the next run id is installed and the controller is idle: nothing raises, nothing
  is retried.
\<close>

theorem recovery_completes:
  fixes cp :: control_plane
  assumes "idle n timing st cp" and "0 < round_length_ns timing"
    and "0 \<le> cp_decision_delay_ns timing" and "0 \<le> repair_delay_ns timing"
    and "evs \<noteq> []" and "\<forall>ev \<in> set evs. is_interruption (ev_event ev) \<and> event_node (ev_event ev) < n \<and>
      ev_available_at_ns ev \<le> ev_available_at_ns (hd evs) + cp_collection_delay_ns timing"
    and "E = interrupted_episode n timing evs st cp"
    and "a \<le> q" and "prepare_at E \<le> q * round_length_ns timing"
    and "c = q * round_length_ns timing + cp_decision_delay_ns timing" and "c < abort_at E"
    and "{..<n} \<subseteq> set acks"
  shows "\<exists>cp1 cp2 cp3 cp4 st4.
    efold observe_event evs cp = Inr cp1 \<and>
    controller_rounds snaps n [a..q] cp1 = Inr cp2 \<and>
    efold observe_event (map (ack_event E q (q * round_length_ns timing)) acks) cp2 = Inr cp3 \<and>
    controller_rounds snaps n [q + 1..pc_effective_round (decided E c)] cp3 = Inr cp4 \<and>
    idle n timing st4 cp4 \<and> cps_installed_config st4 = next_config E"
proof -
  let ?L = "round_length_ns timing" and ?n = "\<lambda>ev. event_node (ev_event ev)"
  obtain ev rest where evs: "evs = ev # rest" using assms(5) by (cases evs) auto
  have E: "ep_nodes E = n" "ep_timing E = timing" by (simp_all add: assms(7) interrupted_episode_def)
  have "orderly E" using assms(2-4) by (simp add: orderly_def repair_at_def prepare_at_def E)
  let ?E0 = "E\<lparr>ep_targets := {?n ev}\<rparr>"
  obtain cp0 st0 where 0: "observe_event ev cp = Inr cp0" "underway ?E0 Collecting st0 cp0" "cp_scheduled cp0 = []"
    using interruption_opens [OF assms(1), of ev] assms(6) by (auto simp: assms(7) interrupted_episode_def evs)
  have "E\<lparr>ep_targets := ?n ` set rest \<union> ep_targets ?E0\<rparr> = E"
    by (simp add: assms(7) interrupted_episode_def evs)
  then obtain cp1 st1 where 1: "efold observe_event rest cp0 = Inr cp1" "cp_scheduled cp1 = []"
    "underway E Collecting st1 cp1"
    using interruptions_collected [OF 0(2,3), of rest] assms(6) by (auto simp: E evs assms(7) interrupted_episode_def)
  have "\<forall>r \<in> set [a..q]. r * ?L < abort_at E"
  proof
    fix r assume "r \<in> set [a..q]"
    then have "r * ?L \<le> q * ?L" using assms(2) by (intro mult_right_mono) auto
    also have "\<dots> \<le> c" using assms(3,10) by simp
    finally show "r * ?L < abort_at E" using assms(11) by simp
  qed
  moreover have "last [a..q] = q" "[a..q] \<noteq> []" using assms(8) by (simp_all add: upto_rec2)
  ultimately have "\<exists>cp2 st2. controller_rounds snaps n [a..q] cp1 = Inr cp2 \<and>
      underway E (Prepared {}) st2 cp2 \<and> on_schedule E (Prepared {}) cp2"
    by (intro rounds_to_preparation [OF 1(3) _ \<open>orderly E\<close>]) (use 1(2) assms(9) in \<open>simp_all add: E\<close>)
  then obtain cp2 st2 where 2: "controller_rounds snaps n [a..q] cp1 = Inr cp2"
    "underway E (Prepared {}) st2 cp2" "on_schedule E (Prepared {}) cp2" by blast
  have "0 < n" using underway_nodes [OF 2(2)] E by simp
  then have "\<not> {..<n} \<subseteq> {}" by auto
  then obtain cp3 where 3: "efold observe_event (map (ack_event E q (q * ?L)) acks) cp2 = Inr cp3"
    "underway E (Agreed c) st2 cp3" "on_schedule E (Agreed c) cp3"
    using acks_phase [OF 2(2,3), of acks "q * ?L"] assms(10,12) by (auto simp: E)
  have "q \<le> c div ?L" using assms(2,3,10) by (simp add: pos_imp_zdiv_nonneg_iff)
  then have "q + 1 \<le> pc_effective_round (decided E c)" by (simp add: decided_def E)
  then have "\<exists>cp4 st4. controller_rounds snaps n [q + 1..pc_effective_round (decided E c)] cp3 = Inr cp4 \<and>
      idle (ep_nodes E) (ep_timing E) st4 cp4 \<and> cps_installed_config st4 = next_config E"
    by (intro rounds_to_cutover [OF 3(2,3) \<open>orderly E\<close> _ assms(11)]) (use assms(2) in \<open>simp_all add: E\<close>)
  then obtain cp4 st4 where "controller_rounds snaps n [q + 1..pc_effective_round (decided E c)] cp3 = Inr cp4"
    "idle n timing st4 cp4" "cps_installed_config st4 = next_config E" unfolding E by blast
  with 0(1) 1(1) 2(1) 3(1) show ?thesis by (auto simp: evs)
qed


text \<open>A crash in round 1 under the default timing: prepared in round 25, cut over in round 35.\<close>

theorem recovery_completes_witness:
  "\<exists>cp E cp1 cp2 cp3 cp4 st4.
    ensure_state 3 (set_timing default_timing (new_control_plane 10)) = Inr cp \<and>
    efold observe_event [\<lparr>ev_event = NodeCrashed 2, ev_round = 1, ev_available_at_ns = 14000\<rparr>] cp = Inr cp1 \<and>
    controller_rounds (\<lambda>r. []) 3 [2..25] cp1 = Inr cp2 \<and>
    efold observe_event (map (ack_event E 25 100000) [2, 0, 1]) cp2 = Inr cp3 \<and>
    controller_rounds (\<lambda>r. []) 3 [26..35] cp3 = Inr cp4 \<and>
    idle 3 default_timing st4 cp4 \<and> ic_run_id (cps_installed_config st4) = 1"
proof -
  obtain full where full: "initial_state 3 = Inr
      \<lparr>cps_installed_config = \<lparr>ic_membership_epoch = 0, ic_members_bitmap = full, ic_run_id = 0\<rparr>,
       cps_node_states = map (\<lambda>i. (i, ACTIVE)) [0..<3], cps_pending_config = None, cps_repair_logs = []\<rparr>"
    (is "_ = Inr ?st") by (rule initial_state_result)
  define cp where "cp = (set_timing default_timing (new_control_plane 10))
    \<lparr>cp_node_count := 3, cp_current_state := Some ?st\<rparr>"
  define ev where "ev = \<lparr>ev_event = NodeCrashed 2, ev_round = 1, ev_available_at_ns = 14000\<rparr>"
  define E where "E = interrupted_episode 3 default_timing [ev] ?st cp"
  have start: "ensure_state 3 (set_timing default_timing (new_control_plane 10)) = Inr cp"
    by (simp add: ensure_state_def full set_timing_def new_control_plane_def cp_def)
  have idle: "idle 3 default_timing ?st cp"
    by (simp add: idle_def set_timing_def new_control_plane_def is_active_def dget_map cp_def)
  have times: "prepare_at E \<le> 25 * round_length_ns default_timing" "115000 < abort_at E"
    "pc_effective_round (decided E 115000) = 35" "ic_run_id (next_config E) = 1"
    by (simp_all add: abort_at_def prepare_at_def repair_at_def interrupted_episode_def decided_def
        proposed_def next_config_def default_timing_def set_timing_def new_control_plane_def E_def ev_def cp_def)
  have default: "0 < round_length_ns default_timing" "0 \<le> cp_decision_delay_ns default_timing"
    "0 \<le> repair_delay_ns default_timing" "(2::int) \<le> 25"
    "115000 = 25 * round_length_ns default_timing + cp_decision_delay_ns default_timing"
    by (simp_all add: default_timing_def)
  have evs: "[ev] \<noteq> []" "\<forall>e \<in> set [ev]. is_interruption (ev_event e) \<and> event_node (ev_event e) < 3 \<and>
      ev_available_at_ns e \<le> ev_available_at_ns (hd [ev]) + cp_collection_delay_ns default_timing"
    by (simp_all add: ev_def is_interruption_def event_node_def default_timing_def)
  have acks: "{..<3::nat} \<subseteq> set [2, 0, 1]" by auto
  have t: "25 * round_length_ns default_timing = 100000" by (simp add: default_timing_def)
  have q: "(25::int) + 1 = 26" by simp
  from recovery_completes [OF idle default(1-3) evs E_def default(4) times(1) default(5) times(2) acks, of "\<lambda>r. []"]
  show ?thesis unfolding times(3) t q using start times(4) unfolding ev_def by metis
qed

end
