(* ===== verification/Durations.thy ===== *)
theory Durations
  imports Complex_Main Log_Digest
begin

text \<open>
  Durations as text (\<open>parse_duration_ns\<close> and \<open>format_duration_ns\<close> of
  \<open>sim/protocol/types.py\<close>), with the parts of Python they rest on written out: \<open>str.strip\<close> and
  \<open>str.lower\<close> on the 256 characters of HOL, the literals \<open>float()\<close> reads, rounding to a 53-bit
  double (exact arithmetic on \<open>rat\<close>, then one rounding; below the subnormal range every product
  rounds to 0, as in Python), \<open>round\<close> to even and the \<open>:g\<close> format.
\<close>


section \<open>Strings\<close>

definition is_space :: "char \<Rightarrow> bool" where
  "is_space c = (let k = (of_char c :: nat) in 9 \<le> k \<and> k \<le> 13 \<or> 28 \<le> k \<and> k \<le> 32 \<or> k = 133 \<or> k = 160)"

definition strip_py :: "string \<Rightarrow> string" where
  "strip_py s = rev (dropWhile is_space (rev (dropWhile is_space s)))"

definition lower_char :: "char \<Rightarrow> char" where
  "lower_char c =
     (let k = (of_char c :: nat) in
      if 65 \<le> k \<and> k \<le> 90 \<or> 192 \<le> k \<and> k \<le> 222 \<and> k \<noteq> 215 then char_of (k + 32) else c)"

definition is_digit :: "char \<Rightarrow> bool" where
  "is_digit c = (let k = (of_char c :: nat) in 48 \<le> k \<and> k \<le> 57)"

text \<open>\<open>value.endswith(suffix)\<close> with the text before the suffix.\<close>

definition strip_suffix :: "string \<Rightarrow> string \<Rightarrow> string option" where
  "strip_suffix suffix s =
     (let n = length s - length suffix in
      if length suffix \<le> length s \<and> drop n s = suffix then Some (take n s) else None)"


section \<open>Doubles\<close>

definition round_half_even :: "rat \<Rightarrow> int" where
  "round_half_even x =
     (let f = \<lfloor>x\<rfloor>; r = x - of_int f in
      if r < 1 / 2 then f else if r > 1 / 2 then f + 1 else if even f then f else f + 1)"

fun bits :: "nat \<Rightarrow> nat" where
  "bits n = (if n = 0 then 0 else Suc (bits (n div 2)))"

declare bits.simps [simp del]

definition two_pow :: "int \<Rightarrow> rat" where
  "two_pow e = (if 0 \<le> e then 2 ^ nat e else 1 / 2 ^ nat (- e))"

text \<open>The exponent of the last of the 53 bits of a positive rational.\<close>

definition ulp_exp :: "rat \<Rightarrow> int" where
  "ulp_exp x =
     (let (n, d) = quotient_of x;
          e = int (bits (nat n)) - int (bits (nat d)) - 53
      in if x / two_pow e \<ge> 2 ^ 53 then e + 1 else e)"

definition to_double :: "rat \<Rightarrow> rat" where
  "to_double x =
     (if x = 0 then 0
      else let u = two_pow (ulp_exp \<bar>x\<bar>) in of_int (round_half_even (x / u)) * u)"

text \<open>A double is a finite value, an infinity or not a number.\<close>

datatype double = Finite rat | Infinity bool | NaN

definition overflow_to_inf :: "rat \<Rightarrow> double" where
  "overflow_to_inf x = (let y = to_double x in if \<bar>y\<bar> \<ge> 2 ^ 1024 then Infinity (y < 0) else Finite y)"

text \<open>\<open>float(text)\<close> on lower-case text.\<close>

fun underscores_ok :: "bool \<Rightarrow> string \<Rightarrow> bool" where
  "underscores_ok after_digit [] = True"
| "underscores_ok after_digit (c # cs) =
     (if c = CHR ''_''
      then after_digit \<and> (case cs of [] \<Rightarrow> False | d # _ \<Rightarrow> is_digit d) \<and> underscores_ok False cs
      else underscores_ok (is_digit c) cs)"

definition read_sign :: "string \<Rightarrow> bool \<times> string" where
  "read_sign s =
     (case s of
        [] \<Rightarrow> (False, s)
      | c # cs \<Rightarrow> if c = CHR ''-'' then (True, cs) else if c = CHR ''+'' then (False, cs) else (False, s))"

definition read_exponent :: "string \<Rightarrow> int option" where
  "read_exponent s =
     (case s of
        [] \<Rightarrow> Some 0
      | c # cs \<Rightarrow>
          let (neg, ds) = read_sign cs in
          if c = CHR ''e'' \<and> ds \<noteq> [] \<and> list_all is_digit ds
          then Some (if neg then - int (read_nat ds) else int (read_nat ds)) else None)"

definition ten_pow :: "int \<Rightarrow> rat" where
  "ten_pow e = (if 0 \<le> e then 10 ^ nat e else 1 / 10 ^ nat (- e))"

definition read_decimal :: "string \<Rightarrow> rat option" where
  "read_decimal s =
     (let whole = takeWhile is_digit s;
          rest = dropWhile is_digit s;
          point = (rest \<noteq> [] \<and> hd rest = CHR ''.'');
          frac = (if point then takeWhile is_digit (tl rest) else []);
          rest2 = (if point then dropWhile is_digit (tl rest) else rest)
      in if whole @ frac = [] then None
         else case read_exponent rest2 of
                None \<Rightarrow> None
              | Some e \<Rightarrow> Some (of_nat (read_nat (whole @ frac)) * ten_pow (e - int (length frac))))"

definition py_float :: "string \<Rightarrow> double result" where
  "py_float text =
     (let s = strip_py text; (neg, body) = read_sign (filter (\<lambda>c. c \<noteq> CHR ''_'') s) in
      if \<not> underscores_ok False s then Inl ValueError
      else if body = ''inf'' \<or> body = ''infinity'' then Inr (Infinity neg)
      else if body = ''nan'' then Inr NaN
      else case read_decimal body of
             None \<Rightarrow> Inl ValueError
           | Some x \<Rightarrow> Inr (overflow_to_inf (if neg then - x else x)))"

definition double_times :: "double \<Rightarrow> int \<Rightarrow> double" where
  "double_times x k =
     (case x of
        Finite r \<Rightarrow> overflow_to_inf (r * to_double (of_int k))
      | Infinity neg \<Rightarrow> (if k = 0 then NaN else Infinity (neg \<noteq> (k < 0)))
      | NaN \<Rightarrow> NaN)"

definition py_round :: "double \<Rightarrow> int result" where
  "py_round x =
     (case x of
        Finite r \<Rightarrow> Inr (round_half_even r)
      | Infinity _ \<Rightarrow> Inl OverflowError
      | NaN \<Rightarrow> Inl ValueError)"


section \<open>Parsing\<close>

definition duration_units :: "(string \<times> int) list" where
  "duration_units = [(''ns'', 1), (''us'', 1000), (''ms'', 1000000), (''s'', 1000000000)]"

fun parse_with_units :: "(string \<times> int) list \<Rightarrow> string \<Rightarrow> int result" where
  "parse_with_units [] s = Inl ValueError"
| "parse_with_units ((suffix, scale) # units) s =
     (case strip_suffix suffix s of
        None \<Rightarrow> parse_with_units units s
      | Some front \<Rightarrow>
          let magnitude = strip_py front in
          if magnitude = [] then Inl ValueError
          else ebind (py_float magnitude) (\<lambda>x. py_round (double_times x scale)))"

definition parse_duration_ns :: "string \<Rightarrow> int result" where
  "parse_duration_ns text = parse_with_units duration_units (map lower_char (strip_py text))"


section \<open>Formatting\<close>

text \<open>
  \<open>format(x, 'g')\<close> for a double with an integral value: up to six digits as they are, otherwise six
  significant digits in scientific notation without trailing zeros.
\<close>

definition strip_zeros :: "string \<Rightarrow> string" where
  "strip_zeros s = rev (dropWhile (\<lambda>c. c = CHR ''0'') (rev s))"

definition scientific :: "nat \<Rightarrow> string" where
  "scientific n =
     (let k = length (nat_digits n) - 1;
          m = nat (round_half_even (of_nat n / 10 ^ (k - 5)));
          (m, k) = (if m = 1000000 then (100000, k + 1) else (m, k));
          ds = strip_zeros (nat_digits m)
      in hd ds # (if tl ds = [] then [] else CHR ''.'' # tl ds) @ ''e+'' @
         (if k < 10 then ''0'' else []) @ nat_digits k)"

definition format_g :: "int \<Rightarrow> string" where
  "format_g i =
     (if i < 0 then ''-'' else []) @
     (let n = nat \<bar>i\<bar> in if n < 1000000 then nat_digits n else scientific n)"

text \<open>\<open>value_ns / scale\<close> of an exact multiple, as a double.\<close>

definition exact_quotient :: "int \<Rightarrow> int \<Rightarrow> int" where
  "exact_quotient i scale = \<lfloor>to_double (of_int (i div scale))\<rfloor>"

definition format_duration_ns :: "int \<Rightarrow> string" where
  "format_duration_ns value_ns =
     (if value_ns = 0 then ''0ns''
      else if value_ns mod 1000000000 = 0 then format_g (exact_quotient value_ns 1000000000) @ ''s''
      else if value_ns mod 1000000 = 0 then format_g (exact_quotient value_ns 1000000) @ ''ms''
      else if value_ns mod 1000 = 0 then format_g (exact_quotient value_ns 1000) @ ''us''
      else show_int value_ns @ ''ns'')"


section \<open>Exact doubles\<close>

lemma round_half_even_int [simp]: "round_half_even (of_int i) = i"
  by (simp add: round_half_even_def)

lemma bits_1 [simp]: "bits (Suc 0) = 1"
  by (subst bits.simps) (simp add: bits.simps [of 0])

lemma bits_bounds: "0 < n \<Longrightarrow> 2 ^ (bits n - 1) \<le> n \<and> n < 2 ^ bits n \<and> 0 < bits n"
proof (induction n rule: bits.induct)
  case (1 n)
  show ?case
  proof (cases "n div 2 = 0")
    case True
    with 1 have "n = 1" by simp
    then show ?thesis by simp
  next
    case False
    with 1 have ih: "2 ^ (bits (n div 2) - 1) \<le> n div 2" "n div 2 < 2 ^ bits (n div 2)" "0 < bits (n div 2)"
      by simp_all
    have b: "bits n = Suc (bits (n div 2))" using 1(2) by (subst bits.simps) simp
    from ih(3) obtain k where "bits (n div 2) = Suc k" by (cases "bits (n div 2)") auto
    with ih b show ?thesis by simp linarith
  qed
qed

lemma bits_le:
  assumes "0 < n" "n < 2 ^ k"
  shows "bits n \<le> k"
proof (rule ccontr)
  assume "\<not> bits n \<le> k"
  then have "(2::nat) ^ k \<le> 2 ^ (bits n - 1)" by (intro power_increasing) auto
  with bits_bounds [OF assms(1)] assms(2) show False by linarith
qed

lemma ulp_exp_int:
  assumes "0 < i" "i < 2 ^ 53"
  shows "ulp_exp (of_int i) \<le> 0"
proof -
  have "nat i < 2 ^ 53" using assms by (simp add: nat_less_iff)
  from bits_le [OF _ this] assms have "bits (nat i) \<le> 53" by simp
  then show ?thesis by (simp add: ulp_exp_def Let_def)
qed

lemma to_double_int [simp]:
  assumes "\<bar>i\<bar> < 2 ^ 53"
  shows "to_double (of_int i) = of_int i"
proof (cases "i = 0")
  case False
  have e: "ulp_exp \<bar>of_int i\<bar> \<le> 0"
    using ulp_exp_int [of "\<bar>i\<bar>"] assms False by simp
  define k where "k = nat (- ulp_exp \<bar>of_int i :: rat\<bar>)"
  have u: "two_pow (ulp_exp \<bar>of_int i\<bar>) = 1 / 2 ^ k" using e by (simp add: two_pow_def k_def)
  have "of_int i / (1 / 2 ^ k :: rat) = of_int (i * 2 ^ k)" by simp
  then have "round_half_even (of_int i / (1 / 2 ^ k)) = i * 2 ^ k" by (simp only: round_half_even_int)
  with False u show ?thesis by (simp add: to_double_def)
qed (simp add: to_double_def)

lemma overflow_to_inf_int [simp]:
  assumes "\<bar>i\<bar> < 2 ^ 53"
  shows "overflow_to_inf (of_int i) = Finite (of_int i)"
proof -
  have "\<bar>of_int i :: rat\<bar> < of_int (2 ^ 53)" using assms by (simp only: of_int_less_iff flip: of_int_abs)
  moreover have "of_int (2 ^ 53) \<le> (2 ^ 1024 :: rat)" by simp
  ultimately have "\<not> (2 ^ 1024 :: rat) \<le> \<bar>of_int i\<bar>" by linarith
  with to_double_int [OF assms] show ?thesis by (simp only: overflow_to_inf_def Let_def if_False)
qed


section \<open>Reading numerals\<close>

lemma is_digit_iff: "is_digit c \<longleftrightarrow> c \<in> digit_chars"
  by (simp add: is_digit_def digit_chars_def Let_def)

lemma nat_digits_all: "list_all is_digit (nat_digits n)"
  using nat_digits_digits [of n] by (auto simp: list_all_iff is_digit_iff)

definition numeral_char :: "char \<Rightarrow> bool" where
  "numeral_char c \<longleftrightarrow> is_digit c \<or> c = CHR ''-''"

lemma show_int_all: "list_all numeral_char (show_int i)"
  using nat_digits_all [of "nat i"] nat_digits_all [of "nat (- i)"]
  by (auto simp: show_int_def numeral_char_def list_all_iff)

lemma show_int_nonempty [simp]: "show_int i \<noteq> []"
  by (simp add: show_int_def)

lemma digit_facts:
  assumes "is_digit c"
  shows "c \<noteq> CHR ''_''" "c \<noteq> CHR ''-''" "c \<noteq> CHR ''+''" "\<not> is_space c" "lower_char c = c"
    "c \<noteq> CHR ''n''" "c \<noteq> CHR ''u''" "c \<noteq> CHR ''m''" "c \<noteq> CHR ''i''"
  using assms by (auto simp: is_digit_def Let_def is_space_def lower_char_def)

lemma numeral_char_facts:
  assumes "numeral_char c"
  shows "c \<noteq> CHR ''_''" "\<not> is_space c" "lower_char c = c" "c \<noteq> CHR ''n''" "c \<noteq> CHR ''u''" "c \<noteq> CHR ''m''"
  using assms by (auto simp: numeral_char_def is_digit_def is_space_def lower_char_def Let_def)

lemma strip_py_id:
  assumes "list_all (\<lambda>c. \<not> is_space c) s"
  shows "strip_py s = s"
proof -
  have "dropWhile is_space t = t" if "list_all (\<lambda>c. \<not> is_space c) t" for t
    using that by (cases t) auto
  from this [of s] this [of "rev s"] assms show ?thesis by (simp add: strip_py_def list_all_iff)
qed

lemma underscores_ok_id: "list_all (\<lambda>c. c \<noteq> CHR ''_'') s \<Longrightarrow> underscores_ok b s"
  by (induction s arbitrary: b) auto

lemma read_decimal_digits: "read_decimal (nat_digits n) = Some (of_nat n)"
proof -
  have "takeWhile is_digit (nat_digits n) = nat_digits n" "dropWhile is_digit (nat_digits n) = []"
    using nat_digits_all [of n] by (auto simp: list_all_iff takeWhile_eq_all_conv)
  then show ?thesis by (simp only: read_decimal_def Let_def) (simp add: read_exponent_def ten_pow_def)
qed

lemma py_float_show_int:
  assumes "\<bar>i\<bar> < 2 ^ 53"
  shows "py_float (show_int i) = Inr (Finite (of_int i))"
proof -
  let ?s = "show_int i"
  have "list_all (\<lambda>c. c \<noteq> CHR ''_'' \<and> \<not> is_space c) ?s"
    using show_int_all [of i] numeral_char_facts by (auto simp: list_all_iff)
  then have s: "strip_py ?s = ?s" "filter (\<lambda>c. c \<noteq> CHR ''_'') ?s = ?s" "underscores_ok False ?s"
    using strip_py_id [of ?s] underscores_ok_id [of ?s] by (auto simp: list_all_iff)
  define n where "n = nat \<bar>i\<bar>"
  obtain d ds where d: "nat_digits n = d # ds" "is_digit d"
    using nat_digits_all [of n] nat_digits_nonempty [of n] by (cases "nat_digits n") auto
  have sign: "read_sign ?s = (i < 0, nat_digits n)"
    using d digit_facts [OF d(2)] by (auto simp: show_int_def read_sign_def n_def)
  have "nat_digits n \<noteq> ''inf''" "nat_digits n \<noteq> ''infinity''" "nat_digits n \<noteq> ''nan''"
    using d digit_facts [OF d(2)] by auto
  moreover have "(if i < 0 then - rat_of_nat n else rat_of_nat n) = of_int i" by (simp add: n_def)
  ultimately show ?thesis
    using overflow_to_inf_int [OF assms]
    by (simp add: py_float_def Let_def s sign read_decimal_digits)
qed

lemma strip_suffix_Some: "strip_suffix suffix s = Some t \<longleftrightarrow> s = t @ suffix"
  by (auto simp: strip_suffix_def Let_def) (metis append_take_drop_id)

lemma strip_suffix_None: "(\<And>t. s \<noteq> t @ suffix) \<Longrightarrow> strip_suffix suffix s = None"
  using strip_suffix_Some [of suffix s] by (cases "strip_suffix suffix s") auto

lemma parse_with_suffix:
  assumes unit: "(suffix, scale) \<in> set duration_units"
    and small: "\<bar>i\<bar> < 2 ^ 53" "\<bar>i * scale\<bar> < 2 ^ 53"
  shows "parse_duration_ns (show_int i @ suffix) = Inr (i * scale)"
proof -
  let ?s = "show_int i @ suffix"
  have chars: "list_all (\<lambda>c. \<not> is_space c \<and> lower_char c = c) ?s"
  proof -
    have "list_all (\<lambda>c. \<not> is_space c \<and> lower_char c = c) suffix"
      using unit by (auto simp: duration_units_def is_space_def lower_char_def)
    then show ?thesis using show_int_all [of i] numeral_char_facts by (auto simp: list_all_iff)
  qed
  then have "strip_py ?s = ?s" "map lower_char ?s = ?s"
    using strip_py_id [of ?s] by (auto simp: list_all_iff map_idI)
  moreover have num: "strip_py (show_int i) = show_int i"
    using chars by (intro strip_py_id) (simp add: list_all_iff)
  have scale: "\<bar>scale\<bar> < 2 ^ 53" using unit by (auto simp: duration_units_def)
  have val: "ebind (py_float (show_int i)) (\<lambda>x. py_round (double_times x scale)) = Inr (i * scale)"
    using overflow_to_inf_int [OF small(2)]
    by (simp add: py_float_show_int [OF small(1)] double_times_def to_double_int [OF scale] py_round_def
        flip: of_int_mult)
  have no_unit: "\<not> (\<exists>t. show_int i = t @ [c])" if "c \<in> {CHR ''n'', CHR ''u'', CHR ''m''}" for c
  proof
    assume "\<exists>t. show_int i = t @ [c]"
    then have "c \<in> set (show_int i)" by (metis in_set_conv_decomp)
    with show_int_all [of i] have "numeral_char c" by (simp add: list_all_iff)
    with that numeral_char_facts(4-6) [of c] show False by blast
  qed
  have "parse_with_units duration_units ?s = Inr (i * scale)"
  proof -
    have skip: "strip_suffix x (show_int i @ y) = None" if "length x = length y" "x \<noteq> y" for x y
      using that by (auto intro!: strip_suffix_None)
    have skip_s: "strip_suffix [c, CHR ''s''] (show_int i @ ''s'') = None"
      if "c \<in> {CHR ''n'', CHR ''u'', CHR ''m''}" for c
    proof (rule strip_suffix_None)
      fix t
      have "t @ [c, CHR ''s''] = (t @ [c]) @ ''s''" by simp
      with no_unit [OF that] show "show_int i @ ''s'' \<noteq> t @ [c, CHR ''s'']"
        by (metis append_same_eq)
    qed
    have hit: "strip_suffix x (show_int i @ x) = Some (show_int i)" for x
      by (simp add: strip_suffix_Some)
    show ?thesis
      using unit val by (auto simp: duration_units_def skip skip_s hit num)
  qed
  ultimately show ?thesis by (simp add: parse_duration_ns_def)
qed


section \<open>Round trips\<close>

lemma format_g_small: "\<bar>i\<bar> < 1000000 \<Longrightarrow> format_g i = show_int i"
  by (auto simp: format_g_def show_int_def Let_def abs_if nat_less_iff)

lemma exact_quotient_small:
  assumes "\<bar>i div scale\<bar> < 2 ^ 53"
  shows "exact_quotient i scale = i div scale"
  by (simp add: exact_quotient_def to_double_int [OF assms])

lemma parse_format_unit:
  assumes "(suffix, scale) \<in> set duration_units" and "i mod scale = 0"
    and "\<bar>i div scale\<bar> < 1000000" and "\<bar>i\<bar> < 2 ^ 53"
  shows "parse_duration_ns (format_g (exact_quotient i scale) @ suffix) = Inr i"
proof -
  have i: "i div scale * scale = i" using div_mult_mod_eq [of i scale] assms(2) by simp
  have small: "\<bar>i div scale\<bar> < 2 ^ 53" using assms(3) by simp
  from parse_with_suffix [OF assms(1) small] assms(4)
  show ?thesis by (simp only: i exact_quotient_small [OF small] format_g_small [OF assms(3)])
qed

text \<open>The durations that are printed with at most six digits in front of their unit.\<close>

definition short_duration :: "int \<Rightarrow> bool" where
  "short_duration i \<longleftrightarrow> \<bar>i\<bar> < 2 ^ 53 \<and>
     (i mod 1000 = 0 \<longrightarrow>
        \<bar>i\<bar> < 1000000000 \<or> i mod 1000000 = 0 \<and> \<bar>i\<bar> < 1000000000000 \<or>
        i mod 1000000000 = 0 \<and> \<bar>i\<bar> < 1000000000000000)"

lemma coarser_units:
  "i mod 1000000000 = 0 \<Longrightarrow> i mod 1000000 = (0::int)"
  "i mod 1000000 = 0 \<Longrightarrow> i mod 1000 = (0::int)"
  by (auto simp: mod_eq_0_iff_dvd elim!: dvd_trans [rotated])

lemma quotient_bound:
  assumes "i mod k = 0" "0 < k" "\<bar>i\<bar> < 1000000 * k"
  shows "\<bar>i div k\<bar> < (1000000::int)"
proof -
  have "\<bar>i div k * k\<bar> = \<bar>i div k\<bar> * k" using assms(2) by (simp add: abs_mult)
  then have "\<bar>i div k\<bar> * k = \<bar>i\<bar>" using div_mult_mod_eq [of i k] assms(1) by simp
  with assms(2,3) show ?thesis by (metis mult_less_cancel_right_pos)
qed

lemma parse_format_nonzero:
  assumes "short_duration i" "i \<noteq> 0"
  shows "parse_duration_ns (format_duration_ns i) = Inr i"
proof -
  note short = assms(1) [unfolded short_duration_def]
  consider (s) "i mod 1000000000 = 0" | (ms) "i mod 1000000000 \<noteq> 0" "i mod 1000000 = 0"
    | (us) "i mod 1000000000 \<noteq> 0" "i mod 1000000 \<noteq> 0" "i mod 1000 = 0"
    | (ns) "i mod 1000000000 \<noteq> 0" "i mod 1000000 \<noteq> 0" "i mod 1000 \<noteq> 0" by blast
  then show ?thesis
  proof cases
    case s
    with short coarser_units [of i] have "\<bar>i div 1000000000\<bar> < 1000000"
      by (intro quotient_bound) auto
    with parse_format_unit [of "''s''" 1000000000 i] s short assms(2) show ?thesis
      by (simp add: duration_units_def format_duration_ns_def)
  next
    case ms
    with short coarser_units [of i] have "\<bar>i div 1000000\<bar> < 1000000"
      by (intro quotient_bound) auto
    with parse_format_unit [of "''ms''" 1000000 i] ms short assms(2) show ?thesis
      by (simp add: duration_units_def format_duration_ns_def)
  next
    case us
    with short have "\<bar>i div 1000\<bar> < 1000000"
      by (intro quotient_bound) auto
    with parse_format_unit [of "''us''" 1000 i] us short assms(2) show ?thesis
      by (simp add: duration_units_def format_duration_ns_def)
  next
    case ns
    with parse_with_suffix [of "''ns''" 1 i] short assms(2) show ?thesis
      by (simp add: duration_units_def format_duration_ns_def)
  qed
qed

text \<open>
  C19. A duration printed with at most six digits reads back as itself: every number of nanoseconds
  below a second, and every longer one its unit shows in six digits.
\<close>

theorem duration_roundtrip:
  assumes "short_duration i"
  shows "parse_duration_ns (format_duration_ns i) = Inr i"
proof (cases "i = 0")
  case True
  have "parse_duration_ns (show_int 0 @ ''ns'') = Inr 0"
    using parse_with_suffix [of "''ns''" 1 0] by (simp add: duration_units_def)
  moreover have "show_int 0 = ''0''" by code_simp
  ultimately show ?thesis using True by (simp add: format_duration_ns_def)
qed (rule parse_format_nonzero [OF assms])

theorem duration_roundtrip_witness:
  "parse_duration_ns (format_duration_ns 160000) = Inr 160000"
  by (rule duration_roundtrip) (simp add: short_duration_def)

lemma float_example: "py_float ''1.23457e+06'' = Inr (Finite 1234570)"
proof -
  have "takeWhile is_digit ''1.23457e+06'' = ''1''" "dropWhile is_digit ''1.23457e+06'' = ''.23457e+06''"
    "takeWhile is_digit ''23457e+06'' = ''23457''" "dropWhile is_digit ''23457e+06'' = ''e+06''"
    by (simp_all add: is_digit_def Let_def)
  moreover have "read_exponent ''e+06'' = Some 6"
    by (simp add: read_exponent_def read_sign_def is_digit_def Let_def read_nat_def)
  moreover have "read_nat ''123457'' = 123457" by (simp add: read_nat_def)
  ultimately have "read_decimal ''1.23457e+06'' = Some (of_int 1234570)"
    by (simp add: read_decimal_def ten_pow_def)
  moreover have "strip_py ''1.23457e+06'' = ''1.23457e+06''"
    by (rule strip_py_id) (simp add: is_space_def Let_def)
  ultimately show ?thesis
    using overflow_to_inf_int [of 1234570]
    by (simp add: py_float_def read_sign_def Let_def is_digit_def)
qed

lemma format_example: "format_duration_ns 1234567000 = ''1.23457e+06us''"
proof -
  have "round_half_even (1234567 / 10) = 123457"
    by (simp add: round_half_even_def Let_def floor_divide_of_int_eq [of 1234567 10, simplified])
  moreover have "nat_digits 123457 = ''123457''" "nat_digits 6 = ''6''" "length (nat_digits 1234567) = 7"
    by (simp_all add: nat_digits.simps char_of_def bit_0)
  ultimately have "scientific 1234567 = ''1.23457e+06''"
    by (simp add: scientific_def Let_def strip_zeros_def)
  moreover have "exact_quotient 1234567000 1000 = 1234567"
    using exact_quotient_small [of 1234567000 1000] by simp
  ultimately show ?thesis by (simp add: format_duration_ns_def format_g_def)
qed

text \<open>
  Beyond six digits the printed duration is rounded: 1234567 microseconds are shown as
  1.23457e+06us and read back 3 microseconds longer.
\<close>

theorem duration_format_rounds:
  "format_duration_ns 1234567000 = ''1.23457e+06us'' \<and>
   parse_duration_ns (format_duration_ns 1234567000) = Inr 1234570000"
proof -
  have "strip_py ''1.23457e+06us'' = ''1.23457e+06us''" "strip_py ''1.23457e+06'' = ''1.23457e+06''"
    by (rule strip_py_id, simp add: is_space_def Let_def)+
  moreover have "map lower_char ''1.23457e+06us'' = ''1.23457e+06us''"
    by (simp add: lower_char_def Let_def)
  ultimately have "parse_duration_ns ''1.23457e+06us'' = Inr 1234570000"
    using overflow_to_inf_int [of 1234570000] to_double_int [of 1000] float_example
      round_half_even_int [of 1234570000]
    by (simp add: parse_duration_ns_def duration_units_def strip_suffix_def Let_def double_times_def py_round_def)
  with format_example show ?thesis by simp
qed

end
