(* ===== verification/Snapshots.thy ===== *)
theory Snapshots
  imports Durations
begin

text \<open>
  The dictionaries that records are exported as and read back from (\<open>to_snapshot\<close>,
  \<open>from_snapshot\<close> of \<open>sim/protocol/types.py\<close>). A snapshot is a dictionary from field names to
  scalars or to dictionaries of scalars. \<open>CommittedRoundRecord.from_snapshot\<close> also accepts what
  comes back from a JSON file, where the node ids of the proposals have become strings.
\<close>


section \<open>Values\<close>

datatype scalar = SNone | SInt int | SStr string

datatype snap_value = Scalar scalar | Items "(scalar \<times> scalar) list"

type_synonym snap = "(string, snap_value) dict"

text \<open>\<open>int(x)\<close> and \<open>str(x)\<close>.\<close>

definition int_of_text :: "string \<Rightarrow> int result" where
  "int_of_text text =
     (let s = strip_py text; (neg, ds) = read_sign (filter (\<lambda>c. c \<noteq> CHR ''_'') s) in
      if underscores_ok False s \<and> ds \<noteq> [] \<and> list_all is_digit ds
      then Inr (if neg then - int (read_nat ds) else int (read_nat ds)) else Inl ValueError)"

fun py_int :: "scalar \<Rightarrow> int result" where
  "py_int SNone = Inl TypeError"
| "py_int (SInt i) = Inr i"
| "py_int (SStr s) = int_of_text s"

fun py_str :: "scalar \<Rightarrow> string" where
  "py_str SNone = ''None''"
| "py_str (SInt i) = show_int i"
| "py_str (SStr s) = s"

fun py_int_value :: "snap_value \<Rightarrow> int result" where
  "py_int_value (Scalar s) = py_int s"
| "py_int_value (Items kvs) = Inl TypeError"

text \<open>\<open>dict(x)\<close>: of a dictionary, or of the empty string; other scalars raise.\<close>

fun py_dict :: "snap_value \<Rightarrow> (scalar \<times> scalar) list result" where
  "py_dict (Items kvs) = Inr kvs"
| "py_dict (Scalar (SStr s)) = (if s = [] then Inr [] else Inl ValueError)"
| "py_dict (Scalar s) = Inl TypeError"

definition item :: "snap \<Rightarrow> string \<Rightarrow> snap_value result" where
  "item s k = (case dget s k of None \<Rightarrow> Inl KeyError | Some v \<Rightarrow> Inr v)"


section \<open>Committed rounds and repair logs\<close>

definition opt_field :: "string \<Rightarrow> int option \<Rightarrow> snap" where
  "opt_field k v = (case v of None \<Rightarrow> [] | Some t \<Rightarrow> [(k, Scalar (SInt t))])"

definition record_to_snapshot :: "committed_round_record \<Rightarrow> snap" where
  "record_to_snapshot e =
     [(''round'', Scalar (SInt (cr_round e))),
      (''membership_epoch'', Scalar (SInt (cr_membership_epoch e))),
      (''commit_set'', Scalar (SInt (cr_commit_set e))),
      (''proposals'', Items (map (\<lambda>(k, v). (SInt (int k), SStr v)) (cr_proposals e)))] @
     opt_field ''commit_time_ns'' (cr_commit_time_ns e) @
     opt_field ''app_delivery_time_ns'' (cr_app_delivery_time_ns e)"

text \<open>
  What \<open>from_snapshot\<close> builds: the fields of \<open>CommittedRoundRecord\<close>, with whatever integers the
  keys of the proposals denote.
\<close>

record snapshot_entry =
  se_round :: int
  se_membership_epoch :: int
  se_commit_set :: int
  se_proposals :: "(int, string) dict"
  se_commit_time_ns :: "int option"
  se_app_delivery_time_ns :: "int option"

definition add_proposal :: "scalar \<times> scalar \<Rightarrow> (int, string) dict \<Rightarrow> (int, string) dict result" where
  "add_proposal kv d = ebind (py_int (fst kv)) (\<lambda>k. Inr (dset d k (py_str (snd kv))))"

definition opt_item :: "snap \<Rightarrow> string \<Rightarrow> int option result" where
  "opt_item s k =
     (case dget s k of None \<Rightarrow> Inr None | Some v \<Rightarrow> ebind (py_int_value v) (\<lambda>i. Inr (Some i)))"

definition record_from_snapshot :: "snap \<Rightarrow> snapshot_entry result" where
  "record_from_snapshot s =
     ebind (ebind (item s ''round'') py_int_value) (\<lambda>rnd.
     ebind (ebind (item s ''membership_epoch'') py_int_value) (\<lambda>epoch.
     ebind (ebind (item s ''commit_set'') py_int_value) (\<lambda>commit_set.
     ebind (ebind (ebind (item s ''proposals'') py_dict) (\<lambda>kvs. efold add_proposal kvs [])) (\<lambda>proposals.
     ebind (opt_item s ''commit_time_ns'') (\<lambda>commit_time.
     ebind (opt_item s ''app_delivery_time_ns'') (\<lambda>app_time.
       Inr \<lparr>se_round = rnd, se_membership_epoch = epoch, se_commit_set = commit_set,
            se_proposals = proposals, se_commit_time_ns = commit_time,
            se_app_delivery_time_ns = app_time\<rparr>))))))"

definition repair_log_to_snapshot :: "repair_log \<Rightarrow> snap list" where
  "repair_log_to_snapshot entries = map record_to_snapshot entries"

definition repair_log_len :: "repair_log \<Rightarrow> nat" where
  "repair_log_len entries = length entries"


section \<open>Halt records\<close>

definition opt_scalar :: "int option \<Rightarrow> snap_value" where
  "opt_scalar v = Scalar (case v of None \<Rightarrow> SNone | Some i \<Rightarrow> SInt i)"

definition halt_to_snapshot :: "halt_record \<Rightarrow> snap" where
  "halt_to_snapshot h =
     [(''failed_round'', Scalar (SInt (hr_failed_round h))),
      (''membership_epoch'', Scalar (SInt (hr_membership_epoch h))),
      (''installed_membership_epoch'', Scalar (SInt (hr_installed_membership_epoch h))),
      (''run_id'', Scalar (SInt (hr_run_id h))),
      (''installed_membership'', Scalar (SInt (hr_installed_membership h))),
      (''quorum'', Scalar (SInt (int (hr_quorum h)))),
      (''observation_rows'', Items (map (\<lambda>(k, v). (SInt (int k), SInt v)) (hr_observation_rows h))),
      (''self_row'', Scalar (SInt (hr_self_row h))),
      (''committed_frontier'', opt_scalar (hr_committed_frontier h)),
      (''sound_set_lineage'', opt_scalar (hr_sound_set_lineage h)),
      (''log_digest'', Scalar (SStr (hr_log_digest h))),
      (''halt_reason'', Scalar (SStr (hr_halt_reason h)))]"


section \<open>Round trips\<close>

text \<open>The fields of a record, with integers for the node ids.\<close>

definition entry_view :: "committed_round_record \<Rightarrow> snapshot_entry" where
  "entry_view e =
     \<lparr>se_round = cr_round e, se_membership_epoch = cr_membership_epoch e,
      se_commit_set = cr_commit_set e,
      se_proposals = map (\<lambda>(k, v). (int k, v)) (cr_proposals e),
      se_commit_time_ns = cr_commit_time_ns e, se_app_delivery_time_ns = cr_app_delivery_time_ns e\<rparr>"

text \<open>Writing a snapshot to JSON and reading it back turns the integer keys into strings.\<close>

fun json_value :: "snap_value \<Rightarrow> snap_value" where
  "json_value (Scalar s) = Scalar s"
| "json_value (Items kvs) = Items (map (\<lambda>(k, v). (SStr (py_str k), v)) kvs)"

definition through_json :: "snap \<Rightarrow> snap" where
  "through_json s = map (\<lambda>(k, v). (k, json_value v)) s"

lemma int_of_text_show_int [simp]: "int_of_text (show_int i) = Inr i"
proof -
  let ?s = "show_int i"
  have "list_all (\<lambda>c. c \<noteq> CHR ''_'' \<and> \<not> is_space c) ?s"
    using show_int_all [of i] numeral_char_facts by (auto simp: list_all_iff)
  then have s: "strip_py ?s = ?s" "filter (\<lambda>c. c \<noteq> CHR ''_'') ?s = ?s" "underscores_ok False ?s"
    using strip_py_id [of ?s] underscores_ok_id [of ?s] by (auto simp: list_all_iff)
  define n where "n = nat \<bar>i\<bar>"
  obtain d ds where d: "nat_digits n = d # ds" "is_digit d"
    using nat_digits_all [of n] nat_digits_nonempty [of n] by (cases "nat_digits n") auto
  have sign: "read_sign ?s = (i < 0, nat_digits n)"
    using d digit_facts [OF d(2)] by (auto simp: show_int_def read_sign_def n_def)
  show ?thesis using nat_digits_all [of n] by (simp add: int_of_text_def Let_def s sign) (simp add: n_def)
qed

lemma read_proposals:
  assumes "\<And>k. py_int (f k) = Inr (int k)" "distinct (map fst d)"
    and "int ` fst ` set d \<inter> set (dkeys acc) = {}"
  shows "efold add_proposal (map (\<lambda>(k, v). (f k, SStr v)) d) acc = Inr (acc @ map (\<lambda>(k, v). (int k, v)) d)"
  using assms(2,3)
proof (induction d arbitrary: acc)
  case (Cons kv d)
  obtain k v where kv: "kv = (k, v)" by fastforce
  have new: "int k \<notin> fst ` set acc" using Cons.prems by (auto simp: kv dkeys_def)
  then have "dset acc (int k) v = acc @ [(int k, v)]"
    by (induction acc) (auto simp: dset_def)
  then have "add_proposal (f k, SStr v) acc = Inr (acc @ [(int k, v)])"
    by (simp add: add_proposal_def assms(1))
  moreover have "int ` fst ` set d \<inter> set (dkeys (acc @ [(int k, v)])) = {}"
    using Cons.prems by (auto simp: kv dkeys_def simp flip: image_image) (metis fst_conv image_eqI)
  ultimately show ?case using Cons.IH [of "acc @ [(int k, v)]"] Cons.prems(1) by (simp add: kv)
qed simp

lemmas snapshot_read_defs =
  record_from_snapshot_def record_to_snapshot_def item_def opt_item_def opt_field_def entry_view_def dget_def

text \<open>
  C20. A committed round read back from its snapshot is the record that was exported, whether the
  snapshot was kept in memory or went through a JSON file.
\<close>

theorem record_snapshot_roundtrip:
  assumes "distinct (dkeys (cr_proposals e))"
  shows "record_from_snapshot (record_to_snapshot e) = Inr (entry_view e) \<and>
    record_from_snapshot (through_json (record_to_snapshot e)) = Inr (entry_view e)"
proof -
  let ?view = "map (\<lambda>(k, v). (int k, v)) (cr_proposals e)"
  have "efold add_proposal (map (\<lambda>(k, v). (SInt (int k), SStr v)) (cr_proposals e)) [] = Inr ?view"
    using read_proposals [of "\<lambda>k. SInt (int k)" "cr_proposals e" "[]"] assms by (simp add: dkeys_def)
  moreover have "efold add_proposal
      (map (\<lambda>(k, v). (SStr (show_int (int k)), SStr v)) (cr_proposals e)) [] = Inr ?view"
    using read_proposals [of "\<lambda>k. SStr (show_int (int k))" "cr_proposals e" "[]"] assms
    by (simp add: dkeys_def)
  ultimately show ?thesis
    by (auto simp: snapshot_read_defs through_json_def o_def case_prod_unfold split: option.split)
qed

theorem record_snapshot_roundtrip_witness:
  "record_from_snapshot (record_to_snapshot (from_committed_round (Some 8000) None (example_entry [(2, ''x''), (0, ''y'')])))
     = Inr (entry_view (from_committed_round (Some 8000) None (example_entry [(2, ''x''), (0, ''y'')])))"
  using record_snapshot_roundtrip
    [of "from_committed_round (Some 8000) None (example_entry [(2, ''x''), (0, ''y'')])"]
  by (simp add: example_entry_def dkeys_def)

definition well_typed :: "snap \<Rightarrow> bool" where
  "well_typed s \<longleftrightarrow> list_all (\<lambda>(k, v).
     (k = ''proposals'' \<longrightarrow> (\<exists>kvs. v = Items kvs \<and> list_all (\<lambda>kv. \<exists>i. fst kv = SInt i) kvs)) \<and>
     (k \<noteq> ''proposals'' \<longrightarrow> (\<exists>i. v = Scalar (SInt i)))) s"

lemma well_typed_int:
  assumes "well_typed s" "k \<noteq> ''proposals''"
  shows "ebind (item s k) py_int_value = Inl KeyError \<and> dget s k = None \<or>
    (\<exists>i. ebind (item s k) py_int_value = Inr i) \<and> dget s k \<noteq> None"
    and "\<exists>x. opt_item s k = Inr x"
proof -
  have "\<exists>i. v = Scalar (SInt i)" if "dget s k = Some v" for v
    using dget_in_set [OF that] assms by (auto simp: well_typed_def list_all_iff)
  then show "ebind (item s k) py_int_value = Inl KeyError \<and> dget s k = None \<or>
    (\<exists>i. ebind (item s k) py_int_value = Inr i) \<and> dget s k \<noteq> None" "\<exists>x. opt_item s k = Inr x"
    by (cases "dget s k"; force simp: item_def opt_item_def)+
qed

lemma well_typed_proposals:
  assumes "well_typed s"
  shows "ebind (ebind (item s ''proposals'') py_dict) (\<lambda>kvs. efold add_proposal kvs []) = Inl KeyError \<and>
      dget s ''proposals'' = None \<or>
    (\<exists>d. ebind (ebind (item s ''proposals'') py_dict) (\<lambda>kvs. efold add_proposal kvs []) = Inr d) \<and>
      dget s ''proposals'' \<noteq> None"
proof (cases "dget s ''proposals''")
  case (Some v)
  then obtain kvs where kvs: "v = Items kvs" "\<forall>kv \<in> set kvs. \<exists>i. fst kv = SInt i"
    using dget_in_set [OF Some] assms by (auto simp: well_typed_def list_all_iff)
  have "\<exists>d. efold add_proposal kvs [] = Inr d \<and> True"
    by (rule efold_invariant) (use kvs(2) in \<open>force simp: add_proposal_def\<close>)+
  with Some kvs show ?thesis by (simp add: item_def)
qed (simp add: item_def)

text \<open>
  On a snapshot whose fields have the types \<open>to_snapshot\<close> writes, reading succeeds exactly when
  the four required fields are there and raises \<open>KeyError\<close> otherwise; the two times may be absent.
\<close>

theorem record_from_snapshot_errors:
  assumes "well_typed s"
  shows "(if {''round'', ''membership_epoch'', ''commit_set'', ''proposals''} \<subseteq> set (dkeys s)
          then \<exists>e. record_from_snapshot s = Inr e else record_from_snapshot s = Inl KeyError)"
  using well_typed_int [OF assms, of "''round''"] well_typed_int [OF assms, of "''membership_epoch''"]
    well_typed_int [OF assms, of "''commit_set''"] well_typed_proposals [OF assms]
    well_typed_int(2) [OF assms, of "''commit_time_ns''"]
    well_typed_int(2) [OF assms, of "''app_delivery_time_ns''"]
  unfolding record_from_snapshot_def by (auto simp: set_dkeys)

theorem record_from_snapshot_errors_witness:
  "record_from_snapshot [(''round'', Scalar (SInt 3)), (''commit_set'', Scalar (SInt 7))] = Inl KeyError"
  using record_from_snapshot_errors [of "[(''round'', Scalar (SInt 3)), (''commit_set'', Scalar (SInt 7))]"]
  by (simp add: well_typed_def dkeys_def)

end
