(* ===== verification/Faults.thy ===== *)
theory Faults
  imports Cluster_Safety
begin

text \<open>
  The fault models of \<open>sim/scenarios/faults.py\<close>. A network model maps a packet and a destination
  to a delivery, a node model says whether a node is up in a round; none of them keeps state, so
  the world they are given passes through. The second half says what each model can do to the
  guarantees of a run: the omission and timing models rewrite no packet, the two probes outside
  the fault model do.
\<close>


section \<open>Network models\<close>

definition same_round :: "packet \<Rightarrow> nat \<Rightarrow> delivery" where
  "same_round p dst =
     plain_delivery (Some (pkt_round_id p)) (''same-round delivery to node '' @ show_int (int dst))"

definition network_perfect :: "'w network_fault_model" where
  "network_perfect p dst w = (same_round p dst, w)"

definition network_asymmetric_loss :: "'w network_fault_model" where
  "network_asymmetric_loss p dst w =
     (if pkt_round_id p = 0 \<and> pkt_src_id p = 1 \<and> dst = 2
      then plain_delivery None ''asymmetric drop: node 2 misses node 1 in round 0''
      else same_round p dst, w)"

definition network_asymmetric_loss_at :: "int \<Rightarrow> 'w network_fault_model" where
  "network_asymmetric_loss_at fault_round p dst w =
     (if pkt_round_id p = fault_round \<and> pkt_src_id p = 1 \<and> dst = 2
      then plain_delivery None
             (''asymmetric drop: node 2 misses node 1 in round '' @ show_int fault_round)
      else same_round p dst, w)"

definition network_bridge_partition :: "'w network_fault_model" where
  "network_bridge_partition p dst w =
     (if pkt_round_id p = 0 \<and> ((pkt_src_id p = 1 \<and> dst = 2) \<or> (pkt_src_id p = 2 \<and> dst = 1))
      then plain_delivery None ''partial split: nodes 1 and 2 do not see each other in round 0''
      else same_round p dst, w)"

definition network_bridge_partition_at :: "int \<Rightarrow> nat list \<Rightarrow> nat list \<Rightarrow> 'w network_fault_model" where
  "network_bridge_partition_at fault_round left right p dst w =
     (if pkt_round_id p = fault_round \<and>
         ((pkt_src_id p \<in> set left \<and> dst \<in> set right) \<or> (pkt_src_id p \<in> set right \<and> dst \<in> set left))
      then plain_delivery None
             (''partial split: left and right partitions lose direct visibility in round '' @
              show_int fault_round)
      else same_round p dst, w)"

definition network_one_round_delay :: "'w network_fault_model" where
  "network_one_round_delay p dst w =
     (if pkt_round_id p = 1 \<and> pkt_src_id p = 2 \<and> dst = 0
      then plain_delivery (Some 2) ''one-round delay from node 2 to node 0''
      else same_round p dst, w)"

definition network_quorum_loss :: "'w network_fault_model" where
  "network_quorum_loss p dst w = (same_round p dst, w)"

definition network_future_round_skew :: "'w network_fault_model" where
  "network_future_round_skew p dst w =
     (if pkt_round_id p = 0 \<and> pkt_src_id p = 2 \<and> dst \<in> {0, 1}
      then (plain_delivery (Some 0) ''clock skew: node 2 labels its round-0 packet as round 1'')
             \<lparr>dl_packet_round_override := Some 1\<rparr>
      else same_round p dst, w)"

definition network_row_corruption :: "'w network_fault_model" where
  "network_row_corruption p dst w =
     (if pkt_round_id p = 1 \<and> pkt_src_id p = 1 \<and> dst = 2
      then (plain_delivery (Some 1)
              ''boundary fault: node 2 receives a corrupted sound bitmap from node 1 in round 1'')
             \<lparr>dl_row_override := Some 3\<rparr>
      else same_round p dst, w)"


section \<open>Node models\<close>

definition node2_crashes_after_round0 :: "'w node_fault_model" where
  "node2_crashes_after_round0 node_id round_id w = (\<not> (node_id = 2 \<and> 1 \<le> round_id), w)"

definition nodes1and2_crash_after_round0 :: "'w node_fault_model" where
  "nodes1and2_crash_after_round0 node_id round_id w = (\<not> (node_id \<in> {1, 2} \<and> 1 \<le> round_id), w)"

definition node2_reboots_under_control_plane :: "'w node_fault_model" where
  "node2_reboots_under_control_plane node_id round_id w = (\<not> (node_id = 2 \<and> round_id = 1), w)"

definition node2_reboots_under_control_plane_at :: "int \<Rightarrow> 'w node_fault_model" where
  "node2_reboots_under_control_plane_at crash_round node_id round_id w =
     (\<not> (node_id = 2 \<and> round_id = crash_round), w)"

text \<open>A dictionary built from a schedule keeps the last crash round listed for a node.\<close>

definition staggered_recoverable_crashes :: "(nat \<times> int) list \<Rightarrow> 'w node_fault_model" where
  "staggered_recoverable_crashes crash_schedule node_id round_id w =
     ((case dget (fold (\<lambda>(k, v) d. dset d k v) crash_schedule []) node_id of
         None \<Rightarrow> True
       | Some crash_round \<Rightarrow> round_id \<noteq> crash_round), w)"


section \<open>Which models rewrite packets\<close>

lemmas network_model_defs =
  network_perfect_def network_asymmetric_loss_def network_asymmetric_loss_at_def
  network_bridge_partition_def network_bridge_partition_at_def network_one_round_delay_def
  network_quorum_loss_def same_round_def plain_delivery_def

lemma omission_models_faithful [simp]:
  "faithful network_perfect"
  "faithful network_asymmetric_loss"
  "faithful (network_asymmetric_loss_at r)"
  "faithful network_bridge_partition"
  "faithful (network_bridge_partition_at r left right)"
  "faithful network_one_round_delay"
  "faithful network_quorum_loss"
  by (simp_all add: faithful_def unmodified_def network_model_defs)

lemma probe_models_not_faithful:
  "\<not> faithful (network_future_round_skew :: unit network_fault_model)"
  "\<not> faithful (network_row_corruption :: unit network_fault_model)"
proof -
  let ?p = "\<lambda>r s. \<lparr>pkt_round_id = r, pkt_src_id = s, pkt_run_id = 0, pkt_row = 0, pkt_payload = []\<rparr>"
  show "\<not> faithful (network_future_round_skew :: unit network_fault_model)"
    unfolding faithful_def
    by (auto simp: unmodified_def network_future_round_skew_def plain_delivery_def
        intro!: exI [of _ "?p 0 2"] exI [of _ 0])
  show "\<not> faithful (network_row_corruption :: unit network_fault_model)"
    unfolding faithful_def
    by (auto simp: unmodified_def network_row_corruption_def plain_delivery_def
        intro!: exI [of _ "?p 1 1"] exI [of _ 2])
qed

end
