(* ===== verification/Random_Campaign.thy ===== *)
theory Random_Campaign
  imports Faults
begin

text \<open>
  The randomised fault campaigns of \<open>sim/runtime/random_campaign.py\<close>: the random fault models, the
  audit of a run (\<open>safety_violations\<close>), trials, campaigns and parameter sweeps. The pseudo random
  generator (\<open>random.Random\<close>) and double arithmetic are parameters: a generator state \<open>'w\<close>, which
  is the world the fault models thread through a run, and a type \<open>'f\<close> of floats with the four
  operations the code uses. Reports are records with the fields of the dictionaries the code
  builds, audit messages are values with the data the message shows.
\<close>


section \<open>Parameters and configuration\<close>

record ('f, 'w) rng =
  rg_seed :: "int \<Rightarrow> 'w"
  rg_random :: "'w \<Rightarrow> 'f \<times> 'w"
  rg_randrange :: "int \<Rightarrow> 'w \<Rightarrow> int \<times> 'w"
  rg_less :: "'f \<Rightarrow> 'f \<Rightarrow> bool"
  rg_minus :: "'f \<Rightarrow> 'f \<Rightarrow> 'f"
  rg_truediv :: "int \<Rightarrow> int \<Rightarrow> 'f"
  rg_zero :: 'f

record 'f fault_config =
  fc_node_count :: nat
  fc_rounds :: int
  fc_trials :: int
  fc_seed :: int
  fc_packet_loss :: 'f
  fc_packet_delay :: 'f
  fc_ack_corruption :: 'f
  fc_duplicate :: 'f
  fc_node_crash :: 'f

definition default_fault_config :: "'f \<Rightarrow> 'f fault_config" where
  "default_fault_config zero =
     \<lparr>fc_node_count = 3, fc_rounds = 8, fc_trials = 100, fc_seed = 20260425,
      fc_packet_loss = zero, fc_packet_delay = zero, fc_ack_corruption = zero,
      fc_duplicate = zero, fc_node_crash = zero\<rparr>"


section \<open>The audit of a run\<close>

type_synonym committed_val = "int \<times> int \<times> (nat \<times> string) list"

definition committed_value :: "committed_round_record \<Rightarrow> committed_val" where
  "committed_value e = (cr_membership_epoch e, cr_commit_set e, sort_key fst (cr_proposals e))"

datatype violation =
    Non_prefix nat "int list"
  | Conflicting_commit int nat committed_val committed_val

definition audit_entry ::
  "nat \<Rightarrow> committed_round_record \<Rightarrow> violation list \<times> (int, committed_val) dict \<Rightarrow>
     violation list \<times> (int, committed_val) dict" where
  "audit_entry node_id e acc =
     (let (violations, committed_by_round) = acc;
          value = committed_value e;
          committed = dsetdefault committed_by_round (cr_round e) value;
          previous = dget_or committed (cr_round e) value
      in (if value \<noteq> previous
          then violations @ [Conflicting_commit (cr_round e) node_id value previous]
          else violations, committed))"

definition prefix_rounds :: "int list \<Rightarrow> bool" where
  "prefix_rounds rounds \<longleftrightarrow> rounds = map int [0..<length rounds]"

definition audit_node ::
  "node_report \<Rightarrow> violation list \<times> (int, committed_val) dict \<Rightarrow>
     violation list \<times> (int, committed_val) dict" where
  "audit_node nd acc =
     (let (violations, committed) = acc;
          rounds = map cr_round (nr_committed_rounds nd)
      in fold (audit_entry (sn_node_id nd)) (nr_committed_rounds nd)
           (if \<not> prefix_rounds rounds
            then violations @ [Non_prefix (sn_node_id nd) rounds] else violations, committed))"

definition safety_violations :: "run_result \<Rightarrow> violation list" where
  "safety_violations res = fst (fold audit_node (res_nodes res) ([], []))"


section \<open>Random fault models\<close>

definition random_network_fault_model ::
  "('f, 'w) rng \<Rightarrow> 'f fault_config \<Rightarrow> 'w network_fault_model" where
  "random_network_fault_model g config p dst w =
     (let (roll, w1) = rg_random g w in
      if rg_less g roll (fc_packet_loss config)
      then (plain_delivery None ''random packet loss'', w1)
      else
        let roll2 = rg_minus g roll (fc_packet_loss config) in
        if rg_less g roll2 (fc_packet_delay config)
        then (plain_delivery (Some (pkt_round_id p + 1)) ''random one-round delay'', w1)
        else
          let (corrupt, w2) = rg_random g w1;
              (row_override, w3) =
                (if rg_less g corrupt (fc_ack_corruption config)
                 then (let (row, w') = rg_randrange g (one_hot (fc_node_count config)) w2
                       in (Some row, w'))
                 else (None, w2));
              (again, w4) = rg_random g w3;
              extra = (if rg_less g again (fc_duplicate config) then [pkt_round_id p] else [])
          in ((plain_delivery (Some (pkt_round_id p)) ''random same-epoch delivery'')
                \<lparr>dl_row_override := row_override, dl_extra_deliver_rounds := extra\<rparr>, w4))"

text \<open>The crash round of one node: the first round whose draw falls below the crash rate.\<close>

fun draw_crash_round :: "('f, 'w) rng \<Rightarrow> 'f \<Rightarrow> int list \<Rightarrow> 'w \<Rightarrow> int option \<times> 'w" where
  "draw_crash_round g rate [] w = (None, w)"
| "draw_crash_round g rate (r # rs) w =
     (let (x, w1) = rg_random g w in
      if rg_less g x rate then (Some r, w1) else draw_crash_round g rate rs w1)"

definition draw_crash_rounds ::
  "('f, 'w) rng \<Rightarrow> 'f fault_config \<Rightarrow> 'w \<Rightarrow> (nat, int) dict \<times> 'w" where
  "draw_crash_rounds g config w =
     fold (\<lambda>node_id (crash_rounds, w).
             let (r, w1) = draw_crash_round g (fc_node_crash config) [1..fc_rounds config - 1] w
             in (case r of None \<Rightarrow> crash_rounds | Some r \<Rightarrow> dset crash_rounds node_id r, w1))
       [0..<fc_node_count config] ([], w)"

definition random_node_fault_model :: "(nat, int) dict \<Rightarrow> 'w node_fault_model" where
  "random_node_fault_model crash_rounds node_id round_id w =
     ((case dget crash_rounds node_id of
         None \<Rightarrow> True
       | Some crash_round \<Rightarrow> round_id < crash_round), w)"


section \<open>Trials, campaigns and sweeps\<close>

definition run_random_trial ::
  "(string \<Rightarrow> string) \<Rightarrow> ('f, 'w) rng \<Rightarrow> 'f fault_config \<Rightarrow> int \<Rightarrow> run_result result" where
  "run_random_trial sha g config trial_seed =
     (let (crash_rounds, w) = draw_crash_rounds g config (rg_seed g trial_seed) in
      run sha (new_cluster sha (fc_node_count config) (fc_rounds config) default_timing
        default_payload (random_network_fault_model g config)
        (random_node_fault_model crash_rounds) w NoOpMetricsSink))"

record trial_summary =
  ts_statuses :: "node_status list"
  ts_committed_counts :: "nat list"
  ts_max_committed :: nat
  ts_halted_nodes :: nat
  ts_crashed_nodes :: nat
  ts_first_halt_round :: "int option"
  ts_first_crash_round :: "int option"
  ts_safety_violations :: "violation list"

definition stop_rounds :: "node_status \<Rightarrow> run_result \<Rightarrow> int list" where
  "stop_rounds status res =
     List.map_filter (\<lambda>nd. if sn_status nd = status then sn_halted_round nd else None) (res_nodes res)"

definition summarize_trial :: "run_result \<Rightarrow> trial_summary" where
  "summarize_trial res =
     (let statuses = map sn_status (res_nodes res);
          committed_counts = map (\<lambda>nd. length (nr_committed_rounds nd)) (res_nodes res);
          halt_rounds = stop_rounds HALTED res;
          crash_rounds = stop_rounds CRASHED res
      in \<lparr>ts_statuses = statuses, ts_committed_counts = committed_counts,
          ts_max_committed = (if committed_counts = [] then 0 else Max (set committed_counts)),
          ts_halted_nodes = count_list statuses HALTED,
          ts_crashed_nodes = count_list statuses CRASHED,
          ts_first_halt_round = (if halt_rounds = [] then None else Some (Min (set halt_rounds))),
          ts_first_crash_round = (if crash_rounds = [] then None else Some (Min (set crash_rounds))),
          ts_safety_violations = safety_violations res\<rparr>)"

record trial_report = trial_summary +
  tr_trial :: int
  tr_seed :: int

record 'f campaign_report =
  cm_config :: "'f fault_config"
  cm_safety_violation_runs :: nat
  cm_halted_runs :: nat
  cm_crashed_runs :: nat
  cm_all_running_runs :: nat
  cm_avg_committed_rounds_per_node :: 'f
  cm_trials :: "trial_report list"

definition campaign_trial ::
  "(string \<Rightarrow> string) \<Rightarrow> ('f, 'w) rng \<Rightarrow> 'f fault_config \<Rightarrow> int \<Rightarrow>
     trial_report list \<times> 'w \<Rightarrow> (trial_report list \<times> 'w) result" where
  "campaign_trial sha g config trial_id acc =
     (let (trials, seed_rng) = acc;
          (trial_seed, seed_rng2) = rg_randrange g (2 ^ 63) seed_rng
      in ebind (run_random_trial sha g config trial_seed) (\<lambda>res.
           Inr (trials @ [trial_summary.extend (summarize_trial res)
                            \<lparr>tr_trial = trial_id, tr_seed = trial_seed\<rparr>], seed_rng2)))"

definition campaign_summary :: "('f, 'w) rng \<Rightarrow> 'f fault_config \<Rightarrow> trial_report list \<Rightarrow> 'f campaign_report" where
  "campaign_summary g config trials =
     (let total_committed = sum_list (map (\<lambda>t. sum_list (ts_committed_counts t)) trials);
          total_node_runs = fc_trials config * int (fc_node_count config)
      in \<lparr>cm_config = config,
          cm_safety_violation_runs = length (filter (\<lambda>t. ts_safety_violations t \<noteq> []) trials),
          cm_halted_runs = length (filter (\<lambda>t. 0 < ts_halted_nodes t) trials),
          cm_crashed_runs = length (filter (\<lambda>t. 0 < ts_crashed_nodes t) trials),
          cm_all_running_runs =
            length (filter (\<lambda>t. ts_halted_nodes t = 0 \<and> ts_crashed_nodes t = 0) trials),
          cm_avg_committed_rounds_per_node =
            (if total_node_runs \<noteq> 0 then rg_truediv g (int total_committed) total_node_runs
             else rg_zero g),
          cm_trials = trials\<rparr>)"

definition run_campaign ::
  "(string \<Rightarrow> string) \<Rightarrow> ('f, 'w) rng \<Rightarrow> 'f fault_config \<Rightarrow> 'f campaign_report result" where
  "run_campaign sha g config =
     ebind (efold (campaign_trial sha g config) [0..fc_trials config - 1] ([], rg_seed g (fc_seed config)))
       (\<lambda>(trials, _). Inr (campaign_summary g config trials))"

text \<open>The rates a sweep may vary: the choices of \<open>--sweep\<close>.\<close>

datatype fault_parameter = Packet_loss | Packet_delay | Ack_corruption | Duplicate | Node_crash

fun set_parameter :: "fault_parameter \<Rightarrow> 'f \<Rightarrow> 'f fault_config \<Rightarrow> 'f fault_config" where
  "set_parameter Packet_loss v c = c\<lparr>fc_packet_loss := v\<rparr>"
| "set_parameter Packet_delay v c = c\<lparr>fc_packet_delay := v\<rparr>"
| "set_parameter Ack_corruption v c = c\<lparr>fc_ack_corruption := v\<rparr>"
| "set_parameter Duplicate v c = c\<lparr>fc_duplicate := v\<rparr>"
| "set_parameter Node_crash v c = c\<lparr>fc_node_crash := v\<rparr>"

record 'f sweep_row = "'f fault_config" +
  sw_parameter :: fault_parameter
  sw_value :: 'f
  sw_safety_violation_runs :: nat
  sw_halted_runs :: nat
  sw_crashed_runs :: nat
  sw_all_running_runs :: nat
  sw_halt_rate :: 'f
  sw_all_running_rate :: 'f
  sw_avg_committed_rounds_per_node :: 'f

definition rate :: "('f, 'w) rng \<Rightarrow> nat \<Rightarrow> 'f fault_config \<Rightarrow> 'f" where
  "rate g runs config =
     (if fc_trials config \<noteq> 0 then rg_truediv g (int runs) (fc_trials config) else rg_zero g)"

definition sweep_step ::
  "(string \<Rightarrow> string) \<Rightarrow> ('f, 'w) rng \<Rightarrow> 'f fault_config \<Rightarrow> fault_parameter \<Rightarrow> 'f \<Rightarrow>
     'f sweep_row list \<Rightarrow> 'f sweep_row list result" where
  "sweep_step sha g base_config parameter v rows =
     (let config = set_parameter parameter v base_config in
      ebind (run_campaign sha g config) (\<lambda>rep.
        Inr (rows @ [fault_config.extend config
          \<lparr>sw_parameter = parameter, sw_value = v,
           sw_safety_violation_runs = cm_safety_violation_runs rep,
           sw_halted_runs = cm_halted_runs rep, sw_crashed_runs = cm_crashed_runs rep,
           sw_all_running_runs = cm_all_running_runs rep,
           sw_halt_rate = rate g (cm_halted_runs rep) config,
           sw_all_running_rate = rate g (cm_all_running_runs rep) config,
           sw_avg_committed_rounds_per_node = cm_avg_committed_rounds_per_node rep\<rparr>])))"

definition sweep_campaigns ::
  "(string \<Rightarrow> string) \<Rightarrow> ('f, 'w) rng \<Rightarrow> 'f fault_config \<Rightarrow> fault_parameter \<Rightarrow> 'f list \<Rightarrow>
     'f sweep_row list result" where
  "sweep_campaigns sha g base_config parameter values =
     efold (sweep_step sha g base_config parameter) values []"

text \<open>
  The exit codes of \<open>main\<close>: 1 when any run of any campaign was flagged. The CSV writer takes its
  columns from the first row, so an empty sweep raises.
\<close>

definition sweep_exit_code :: "'f sweep_row list \<Rightarrow> int result" where
  "sweep_exit_code rows =
     (if rows = [] then Inl IndexError
      else Inr (if list_ex (\<lambda>row. sw_safety_violation_runs row \<noteq> 0) rows then 1 else 0))"

definition campaign_exit_code :: "'f campaign_report \<Rightarrow> int" where
  "campaign_exit_code rep = (if cm_safety_violation_runs rep \<noteq> 0 then 1 else 0)"


section \<open>What the audit reports\<close>

definition conflicts :: "nat \<Rightarrow> committed_round_record set \<Rightarrow> (int, committed_val) dict \<Rightarrow> violation set" where
  "conflicts node_id es D =
     {Conflicting_commit (cr_round e) node_id (committed_value e) p | e p.
        e \<in> es \<and> dget D (cr_round e) = Some p \<and> committed_value e \<noteq> p}"

text \<open>\<open>D'\<close> is \<open>D\<close> after the entries \<open>es\<close> were looked up or entered.\<close>

definition entered ::
  "committed_round_record set \<Rightarrow> (int, committed_val) dict \<Rightarrow> (int, committed_val) dict \<Rightarrow> bool" where
  "entered es D D' \<longleftrightarrow>
     (\<forall>k v. dget D k = Some v \<longrightarrow> dget D' k = Some v) \<and>
     (\<forall>k v. dget D' k = Some v \<longrightarrow>
        dget D k = Some v \<or> (\<exists>e \<in> es. cr_round e = k \<and> committed_value e = v)) \<and>
     (\<forall>e \<in> es. dget D' (cr_round e) \<noteq> None)"

lemma entered_refl [simp]: "entered {} D D"
  by (simp add: entered_def)

lemma entered_trans: "entered A D D' \<Longrightarrow> entered B D' D'' \<Longrightarrow> entered (A \<union> B) D D''"
  unfolding entered_def by (simp add: ball_Un bex_Un del: split_paired_All split_paired_Ex) blast

lemma conflicts_later:
  assumes "entered A D D'" "entered B D' D''"
  shows "conflicts i A D'' = conflicts i A D'"
proof -
  have "dget D'' (cr_round e) = Some p \<longleftrightarrow> dget D' (cr_round e) = Some p" if "e \<in> A" for e p
    using assms that unfolding entered_def by (metis option.exhaust option.inject)
  then show ?thesis unfolding conflicts_def by blast
qed

lemma conflicts_Un: "conflicts i (A \<union> B) D = conflicts i A D \<union> conflicts i B D"
  by (auto simp: conflicts_def)

lemma audit_entry_effect:
  assumes "audit_entry i e (vs, D) = (vs', D')"
  shows "entered {e} D D' \<and> set vs' = set vs \<union> conflicts i {e} D'"
  using assms
  by (cases "dget D (cr_round e)")
    (auto simp: audit_entry_def Let_def entered_def conflicts_def dsetdefault_def dmem_iff
      simp del: split_paired_All split_paired_Ex split: if_splits)

lemma audit_entries_effect:
  assumes "fold (audit_entry i) es (vs, D) = (vs', D')"
  shows "entered (set es) D D' \<and> set vs' = set vs \<union> conflicts i (set es) D'"
  using assms
proof (induction es arbitrary: vs D)
  case Nil
  then show ?case by (simp add: conflicts_def)
next
  case (Cons e es)
  obtain vs1 D1 where 1: "audit_entry i e (vs, D) = (vs1, D1)" by fastforce
  from audit_entry_effect [OF 1] have e: "entered {e} D D1" "set vs1 = set vs \<union> conflicts i {e} D1" by auto
  from Cons.IH [of vs1 D1] Cons.prems 1
  have es: "entered (set es) D1 D'" "set vs' = set vs1 \<union> conflicts i (set es) D'" by auto
  from entered_trans [OF e(1) es(1)] conflicts_later [OF e(1) es(1), of i] e(2) es(2)
    conflicts_Un [of i "{e}" "set es" D']
  show ?case by auto
qed

definition non_prefix_reports :: "node_report list \<Rightarrow> violation set" where
  "non_prefix_reports nds =
     {Non_prefix (sn_node_id nd) (map cr_round (nr_committed_rounds nd)) | nd.
        nd \<in> set nds \<and> \<not> prefix_rounds (map cr_round (nr_committed_rounds nd))}"

abbreviation "reported nds \<equiv> \<Union>nd \<in> set nds. set (nr_committed_rounds nd)"

lemma audit_nodes_effect:
  assumes "fold audit_node nds (vs, D) = (vs', D')"
  shows "entered (reported nds) D D' \<and>
    set vs' = set vs \<union> non_prefix_reports nds \<union>
      (\<Union>nd \<in> set nds. conflicts (sn_node_id nd) (set (nr_committed_rounds nd)) D')"
  using assms
proof (induction nds arbitrary: vs D)
  case Nil
  then show ?case by (simp add: non_prefix_reports_def)
next
  case (Cons nd nds)
  obtain vs1 D1 where 1: "audit_node nd (vs, D) = (vs1, D1)" by fastforce
  let ?es = "set (nr_committed_rounds nd)" and ?i = "sn_node_id nd"
  have e: "entered ?es D D1"
    "set vs1 = set vs \<union> non_prefix_reports [nd] \<union> conflicts ?i ?es D1"
    using audit_entries_effect [of ?i "nr_committed_rounds nd" _ D vs1 D1] 1
    by (auto simp: audit_node_def Let_def non_prefix_reports_def split: if_splits)
  from Cons.IH [of vs1 D1] Cons.prems 1
  have es: "entered (reported nds) D1 D'"
    "set vs' = set vs1 \<union> non_prefix_reports nds \<union>
      (\<Union>nd \<in> set nds. conflicts (sn_node_id nd) (set (nr_committed_rounds nd)) D')" by auto
  have "non_prefix_reports (nd # nds) = non_prefix_reports [nd] \<union> non_prefix_reports nds"
    by (auto simp: non_prefix_reports_def)
  with entered_trans [OF e(1) es(1)] conflicts_later [OF e(1) es(1), of ?i] e(2) es(2)
  show ?case by auto
qed

lemma safety_violations_set:
  obtains D where "entered (reported (res_nodes res)) [] D"
    and "set (safety_violations res) = non_prefix_reports (res_nodes res) \<union>
      (\<Union>nd \<in> set (res_nodes res). conflicts (sn_node_id nd) (set (nr_committed_rounds nd)) D)"
proof -
  obtain vs D where 1: "fold audit_node (res_nodes res) ([], []) = (vs, D)" by fastforce
  from audit_nodes_effect [OF 1] 1 that [of D] show ?thesis by (auto simp: safety_violations_def)
qed

lemma conflict_reported_iff:
  "(\<exists>r i v p. Conflicting_commit r i v p \<in> set (safety_violations res)) \<longleftrightarrow>
     (\<exists>a \<in> reported (res_nodes res). \<exists>b \<in> reported (res_nodes res).
        cr_round a = cr_round b \<and> committed_value a \<noteq> committed_value b)"
    (is "?l \<longleftrightarrow> ?r")
proof -
  obtain D where ent: "entered (reported (res_nodes res)) [] D"
    and vs: "set (safety_violations res) = non_prefix_reports (res_nodes res) \<union>
      (\<Union>nd \<in> set (res_nodes res). conflicts (sn_node_id nd) (set (nr_committed_rounds nd)) D)"
    by (rule safety_violations_set)
  have "?l \<longleftrightarrow> (\<exists>e \<in> reported (res_nodes res). \<exists>p. dget D (cr_round e) = Some p \<and> committed_value e \<noteq> p)"
  proof -
    have "Conflicting_commit r i v p \<in> set (safety_violations res) \<longleftrightarrow>
        (\<exists>nd \<in> set (res_nodes res). \<exists>e \<in> set (nr_committed_rounds nd).
           r = cr_round e \<and> i = sn_node_id nd \<and> v = committed_value e \<and>
           dget D (cr_round e) = Some p \<and> committed_value e \<noteq> p)" for r i v p
      unfolding vs by (auto simp: non_prefix_reports_def conflicts_def simp del: split_paired_Ex)
    then show ?thesis by blast
  qed
  also have "\<dots> \<longleftrightarrow> ?r"
  proof
    assume "\<exists>e \<in> reported (res_nodes res). \<exists>p. dget D (cr_round e) = Some p \<and> committed_value e \<noteq> p"
    then obtain e p where e: "e \<in> reported (res_nodes res)" "dget D (cr_round e) = Some p"
      "committed_value e \<noteq> p" by blast
    with ent obtain b where "b \<in> reported (res_nodes res)" "cr_round b = cr_round e" "committed_value b = p"
      unfolding entered_def by (metis dget_Nil option.distinct(1))
    with e show ?r by metis
  next
    assume ?r
    then obtain a b where ab: "a \<in> reported (res_nodes res)" "b \<in> reported (res_nodes res)"
      "cr_round a = cr_round b" "committed_value a \<noteq> committed_value b" by blast
    with ent obtain p where "dget D (cr_round a) = Some p" unfolding entered_def by blast
    with ab show "\<exists>e \<in> reported (res_nodes res). \<exists>p. dget D (cr_round e) = Some p \<and> committed_value e \<noteq> p"
      by metis
  qed
  finally show ?thesis .
qed

lemma non_prefix_reported_iff:
  "Non_prefix i l \<in> set (safety_violations res) \<longleftrightarrow>
     (\<exists>nd \<in> set (res_nodes res). sn_node_id nd = i \<and> map cr_round (nr_committed_rounds nd) = l \<and>
        \<not> prefix_rounds l)"
proof -
  obtain D where
    "set (safety_violations res) = non_prefix_reports (res_nodes res) \<union>
      (\<Union>nd \<in> set (res_nodes res). conflicts (sn_node_id nd) (set (nr_committed_rounds nd)) D)"
    by (rule safety_violations_set)
  then show ?thesis by (auto simp: non_prefix_reports_def conflicts_def)
qed


section \<open>Campaigns without corruption\<close>

text \<open>
  No draw of the generator falls below the corruption rate; true of a rate of 0 and draws from
  the unit interval.
\<close>

definition never_corrupts :: "('f, 'w) rng \<Rightarrow> 'f fault_config \<Rightarrow> bool" where
  "never_corrupts g config \<longleftrightarrow> (\<forall>w. \<not> rg_less g (fst (rg_random g w)) (fc_ack_corruption config))"

lemma random_network_faithful:
  assumes "never_corrupts g config"
  shows "faithful (random_network_fault_model g config)"
proof -
  have "\<not> rg_less g x (fc_ack_corruption config)" if "rg_random g w = (x, w')" for x w w'
    using assms that unfolding never_corrupts_def by (metis fst_conv)
  then show ?thesis
    by (auto simp: faithful_def random_network_fault_model_def Let_def unmodified_def plain_delivery_def
        split: prod.splits)
qed

lemma random_trial_returns:
  assumes "never_corrupts g config"
  shows "\<exists>res. run_random_trial sha g config seed = Inr res \<and>
    length (res_nodes res) = fc_node_count config \<and>
    inj_on cr_round (reported (res_nodes res))"
proof -
  let ?net = "random_network_fault_model g config"
  obtain crash_rounds w where draw: "draw_crash_rounds g config (rg_seed g seed) = (crash_rounds, w)"
    by fastforce
  have len: "round_length_ns default_timing \<noteq> 0" by (simp add: default_timing_def)
  note net = random_network_faithful [OF assms]
  let ?c = "new_cluster sha (fc_node_count config) (fc_rounds config) default_timing default_payload ?net
    (random_node_fault_model crash_rounds) w NoOpMetricsSink"
  obtain c' where c': "run sha ?c = Inr (cluster_result c')" "round_start (int (nat (fc_rounds config))) c'"
    "same_params ?c c'"
    using run_reaches [OF net len] by blast
  then have "length (res_nodes (cluster_result c')) = fc_node_count config"
    by (auto simp: cluster_result_def round_start_def wired_def same_params_def new_cluster_def)
  with run_logs(1) [OF net len c'(1)] c'(1) show ?thesis
    by (auto simp: run_random_trial_def draw logs_of_def)
qed

lemma no_conflict_if_inj:
  assumes "inj_on cr_round (reported (res_nodes res))"
  shows "\<forall>v \<in> set (safety_violations res). \<exists>i l. v = Non_prefix i l"
proof -
  have "\<not> (\<exists>r i v p. Conflicting_commit r i v p \<in> set (safety_violations res))"
    unfolding conflict_reported_iff using assms by (metis inj_onD)
  then show ?thesis by (metis violation.exhaust)
qed

definition honest_report :: "'f fault_config \<Rightarrow> trial_report \<Rightarrow> bool" where
  "honest_report config t \<longleftrightarrow>
     length (ts_statuses t) = fc_node_count config \<and>
     (\<forall>v \<in> set (ts_safety_violations t). \<exists>i l. v = Non_prefix i l)"

lemma campaign_trials_return:
  assumes "never_corrupts g config"
  shows "\<exists>new w'. efold (campaign_trial sha g config) ids (ts, w) = Inr (ts @ new, w') \<and>
    map tr_trial new = ids \<and> list_all (honest_report config) new"
proof (induction ids arbitrary: ts w)
  case (Cons i ids)
  obtain seed w1 where draw: "rg_randrange g (2 ^ 63) w = (seed, w1)" by fastforce
  obtain res where res: "run_random_trial sha g config seed = Inr res"
    "length (res_nodes res) = fc_node_count config" "inj_on cr_round (reported (res_nodes res))"
    using random_trial_returns [OF assms] by blast
  define t where "t = trial_summary.extend (summarize_trial res) \<lparr>tr_trial = i, tr_seed = seed\<rparr>"
  have t: "tr_trial t = i" "honest_report config t"
    using no_conflict_if_inj [OF res(3)] res(2)
    by (simp_all add: t_def trial_summary.defs honest_report_def summarize_trial_def Let_def)
  have "campaign_trial sha g config i (ts, w) = Inr (ts @ [t], w1)"
    using draw by (simp add: campaign_trial_def res(1) t_def)
  with Cons.IH [of "ts @ [t]" w1] t show ?case by auto
qed simp

lemma run_campaign_returns:
  assumes "never_corrupts g config"
  shows "\<exists>rep. run_campaign sha g config = Inr rep \<and>
    map tr_trial (cm_trials rep) = [0..fc_trials config - 1] \<and>
    list_all (honest_report config) (cm_trials rep)"
  using campaign_trials_return [OF assms, of sha "[0..fc_trials config - 1]" "[]" "rg_seed g (fc_seed config)"]
  by (auto simp: run_campaign_def campaign_summary_def Let_def)


section \<open>Properties\<close>

text \<open>
  C16. The audit is exact: it reports a conflict exactly when two entries of the final histories
  hold different values (epoch, commit set, proposals) for one round, and it reports a node as
  non-prefix exactly when its committed rounds are not 0, 1, 2, ... without a gap.
\<close>

theorem audit_exact:
  "(\<exists>r i v p. Conflicting_commit r i v p \<in> set (safety_violations res)) =
     (\<exists>a \<in> reported (res_nodes res). \<exists>b \<in> reported (res_nodes res).
        cr_round a = cr_round b \<and> committed_value a \<noteq> committed_value b) \<and>
   ((\<exists>l. Non_prefix i l \<in> set (safety_violations res)) =
     (\<exists>nd \<in> set (res_nodes res). sn_node_id nd = i \<and>
        map cr_round (nr_committed_rounds nd) \<noteq> map int [0..<length (nr_committed_rounds nd)]))"
proof
  show "(\<exists>l. Non_prefix i l \<in> set (safety_violations res)) =
     (\<exists>nd \<in> set (res_nodes res). sn_node_id nd = i \<and>
        map cr_round (nr_committed_rounds nd) \<noteq> map int [0..<length (nr_committed_rounds nd)])"
    unfolding non_prefix_reported_iff prefix_rounds_def by (metis length_map)
qed (rule conflict_reported_iff)

text \<open>
  C17. A campaign whose corruption rate no draw falls below returns a report for every trial, in
  order, and its audit never finds conflicting commits: whatever it flags is a history with a gap.
\<close>

theorem campaign_never_conflicts:
  assumes "never_corrupts g config"
  shows "\<exists>rep. run_campaign sha g config = Inr rep \<and>
    map tr_trial (cm_trials rep) = [0..fc_trials config - 1] \<and>
    (\<forall>t \<in> set (cm_trials rep). length (ts_statuses t) = fc_node_count config \<and>
       (\<forall>v \<in> set (ts_safety_violations t). \<exists>i l. v = Non_prefix i l))"
  using run_campaign_returns [OF assms, of sha] by (auto simp: honest_report_def list_all_iff)

text \<open>A generator of the integers 0 to 9 and integer rates, for the witness.\<close>

definition counting_rng :: "(int, int) rng" where
  "counting_rng =
     \<lparr>rg_seed = (\<lambda>s. s mod 10), rg_random = (\<lambda>w. (w mod 10, w + 1)),
      rg_randrange = (\<lambda>n w. (w mod n, w + 1)), rg_less = (<), rg_minus = (-),
      rg_truediv = (div), rg_zero = 0\<rparr>"

theorem campaign_never_conflicts_witness:
  "\<exists>rep. run_campaign (\<lambda>s. s) counting_rng ((default_fault_config 0)\<lparr>fc_packet_loss := 2\<rparr>) = Inr rep \<and>
    map tr_trial (cm_trials rep) = [0..99]"
  using campaign_never_conflicts [of counting_rng "(default_fault_config 0)\<lparr>fc_packet_loss := 2\<rparr>" "\<lambda>s. s"]
  by (auto simp: never_corrupts_def counting_rng_def default_fault_config_def not_less)

text \<open>
  The counts of a campaign: at least one of \<open>halted\<close>, \<open>crashed\<close> and \<open>all running\<close> counts each
  trial, the last excludes the other two, and the exit code is 0 exactly when no trial was flagged.
\<close>

theorem campaign_counts:
  assumes "run_campaign sha g config = Inr rep"
  shows "cm_all_running_runs rep + cm_halted_runs rep \<le> length (cm_trials rep) \<and>
    cm_all_running_runs rep + cm_crashed_runs rep \<le> length (cm_trials rep) \<and>
    length (cm_trials rep) \<le> cm_all_running_runs rep + cm_halted_runs rep + cm_crashed_runs rep \<and>
    (campaign_exit_code rep = 0) = list_all (\<lambda>t. ts_safety_violations t = []) (cm_trials rep)"
proof -
  obtain ts where rep: "rep = campaign_summary g config ts"
    using assms by (auto simp: run_campaign_def ebind_eq_Inr_iff)
  let ?n = "\<lambda>P. length (filter P ts)"
  have split: "length ts = ?n P + ?n (\<lambda>t. \<not> P t)" for P :: "trial_report \<Rightarrow> bool"
    by (rule sum_length_filter_compl [symmetric])
  have mono: "?n P \<le> ?n Q" if "\<And>t. P t \<Longrightarrow> Q t" for P Q :: "trial_report \<Rightarrow> bool"
    using that by (induction ts) auto
  have cover: "?n (\<lambda>t. P t \<or> Q t) \<le> ?n P + ?n Q" for P Q :: "trial_report \<Rightarrow> bool"
    by (induction ts) auto
  let ?h = "\<lambda>t. 0 < ts_halted_nodes t" and ?c = "\<lambda>t. 0 < ts_crashed_nodes t"
  let ?a = "\<lambda>t. ts_halted_nodes t = 0 \<and> ts_crashed_nodes t = 0"
  have "?n ?a \<le> ?n (\<lambda>t. \<not> ?h t)" "?n ?a \<le> ?n (\<lambda>t. \<not> ?c t)" "?n (\<lambda>t. \<not> ?a t) \<le> ?n (\<lambda>t. ?h t \<or> ?c t)"
    by (auto intro: mono)
  with split [of ?h] split [of ?c] split [of ?a] cover [of ?h ?c]
  have "?n ?a + ?n ?h \<le> length ts \<and> ?n ?a + ?n ?c \<le> length ts \<and> length ts \<le> ?n ?a + ?n ?h + ?n ?c"
    by linarith
  then show ?thesis
    by (simp add: rep campaign_summary_def Let_def campaign_exit_code_def filter_empty_conv list_all_iff)
qed

theorem campaign_counts_witness:
  "\<exists>rep. run_campaign (\<lambda>s. s) counting_rng (default_fault_config 0) = Inr rep \<and>
    length (cm_trials rep) = 100 \<and>
    100 \<le> cm_all_running_runs rep + cm_halted_runs rep + cm_crashed_runs rep"
proof -
  have "never_corrupts counting_rng (default_fault_config 0)"
    by (simp add: never_corrupts_def counting_rng_def default_fault_config_def not_less)
  from run_campaign_returns [OF this] obtain rep where
    rep: "run_campaign (\<lambda>s. s) counting_rng (default_fault_config 0) = Inr rep"
    "map tr_trial (cm_trials rep) = [0..99]" by (auto simp: default_fault_config_def)
  from arg_cong [OF rep(2), of length] have "length (cm_trials rep) = 100" by simp
  with rep(1) campaign_counts [OF rep(1)] show ?thesis by auto
qed

end
