(* ===== verification/Scenarios.thy ===== *)
theory Scenarios
  imports Faults
begin

text \<open>
  The built-in scenarios of \<open>sim/scenarios/builtin.py\<close> and the expectation check of
  \<open>sim/protocol/types.py\<close> (\<open>ScenarioExpectation\<close>, \<open>ScenarioSpec\<close>). The properties
  tie the table to the safety of a run: the primary scenarios stay inside the fault model, the two
  probes are exactly the ones that leave it.
\<close>


section \<open>Expectations\<close>

fun status_value :: "node_status \<Rightarrow> string" where
  "status_value RUNNING = ''RUNNING''"
| "status_value HALTED = ''HALTED''"
| "status_value CRASHED = ''CRASHED''"

record scenario_expectation =
  ex_statuses :: "string list"
  ex_committed_rounds :: "int list list"
  ex_halted_rounds :: "int option list"

text \<open>What \<open>check\<close> reports, one constructor per message with the values the message shows.\<close>

datatype scenario_failure =
    Status_mismatch "string list" "string list"
  | Commit_mismatch "int list list" "int list list"
  | Halted_round_mismatch "int option list" "int option list"

definition actual_statuses :: "run_result \<Rightarrow> string list" where
  "actual_statuses res = map (\<lambda>nd. status_value (sn_status nd)) (res_nodes res)"

definition actual_commits :: "run_result \<Rightarrow> int list list" where
  "actual_commits res = map (\<lambda>nd. map cr_round (nr_committed_rounds nd)) (res_nodes res)"

definition actual_halts :: "run_result \<Rightarrow> int option list" where
  "actual_halts res = map sn_halted_round (res_nodes res)"

definition check_expectation :: "scenario_expectation \<Rightarrow> run_result \<Rightarrow> scenario_failure list" where
  "check_expectation ex res =
     (if actual_statuses res \<noteq> ex_statuses ex
      then [Status_mismatch (ex_statuses ex) (actual_statuses res)] else []) @
     (if actual_commits res \<noteq> ex_committed_rounds ex
      then [Commit_mismatch (ex_committed_rounds ex) (actual_commits res)] else []) @
     (if actual_halts res \<noteq> ex_halted_rounds ex
      then [Halted_round_mismatch (ex_halted_rounds ex) (actual_halts res)] else [])"


section \<open>The table\<close>

record scenario_spec =
  sc_network_fault_model :: "unit network_fault_model"
  sc_node_fault_model :: "unit node_fault_model"
  sc_rounds :: int
  sc_description :: string
  sc_expectation :: scenario_expectation

definition perfect_spec :: scenario_spec where
  "perfect_spec =
     \<lparr>sc_network_fault_model = network_perfect,
      sc_node_fault_model = all_nodes_active,
      sc_rounds = 5,
      sc_description =
        ''No faults. All nodes should fast-commit and remain running.'',
      sc_expectation =
        \<lparr>ex_statuses = [''RUNNING'', ''RUNNING'', ''RUNNING''],
         ex_committed_rounds = [[0, 1, 2], [0, 1, 2], [0, 1, 2]],
         ex_halted_rounds = [None, None, None]\<rparr>\<rparr>"

definition node2_crash_spec :: scenario_spec where
  "node2_crash_spec =
     \<lparr>sc_network_fault_model = network_perfect,
      sc_node_fault_model = node2_crashes_after_round0,
      sc_rounds = 5,
      sc_description =
        ''Node 2 crashes after round 0. Nodes 0 and 1 continue as the surviving pair once '' @
        ''the missing traffic is exposed by the next round boundary.'',
      sc_expectation =
        \<lparr>ex_statuses = [''RUNNING'', ''RUNNING'', ''CRASHED''],
         ex_committed_rounds = [[0, 1, 2], [0, 1, 2], []],
         ex_halted_rounds = [None, None, Some 1]\<rparr>\<rparr>"

definition asymmetric_loss_spec :: scenario_spec where
  "asymmetric_loss_spec =
     \<lparr>sc_network_fault_model = network_asymmetric_loss,
      sc_node_fault_model = all_nodes_active,
      sc_rounds = 40,
      sc_description =
        ''One asymmetric drop in round 0 lets nodes 0 and 1 continue while node 2 halts. '' @
        ''The control plane then repairs node 2 in the background and coordinates an '' @
        ''online rejoin.'',
      sc_expectation =
        \<lparr>ex_statuses = [''RUNNING'', ''RUNNING'', ''RUNNING''],
         ex_committed_rounds = [[0..33] @ [36..37], [0..33] @ [36..37], [0..32] @ [36..37]],
         ex_halted_rounds = [None, None, None]\<rparr>\<rparr>"

definition bridge_partition_spec :: scenario_spec where
  "bridge_partition_spec =
     \<lparr>sc_network_fault_model = network_bridge_partition,
      sc_node_fault_model = all_nodes_active,
      sc_rounds = 5,
      sc_description =
        ''Nodes 1 and 2 both miss each other in round 0, creating a partial split rather '' @
        ''than a clean asymmetric loss. All three observations of round 0 differ, so no '' @
        ''agreed row exists anywhere and all three halt at the same boundary without '' @
        ''committing.'',
      sc_expectation =
        \<lparr>ex_statuses = [''HALTED'', ''HALTED'', ''HALTED''],
         ex_committed_rounds = [[], [], []],
         ex_halted_rounds = [Some 2, Some 2, Some 2]\<rparr>\<rparr>"

definition one_epoch_delay_spec :: scenario_spec where
  "one_epoch_delay_spec =
     \<lparr>sc_network_fault_model = network_one_round_delay,
      sc_node_fault_model = all_nodes_active,
      sc_rounds = 5,
      sc_description =
        ''A delayed packet perturbs the local visibility pattern. Node 0 diverges from the '' @
        ''other two nodes and later halts on the resulting disagreement, while nodes 1 and '' @
        ''2 continue together.'',
      sc_expectation =
        \<lparr>ex_statuses = [''HALTED'', ''RUNNING'', ''RUNNING''],
         ex_committed_rounds = [[0], [0, 1, 2], [0, 1, 2]],
         ex_halted_rounds = [Some 3, None, None]\<rparr>\<rparr>"

definition quorum_loss_spec :: scenario_spec where
  "quorum_loss_spec =
     \<lparr>sc_network_fault_model = network_quorum_loss,
      sc_node_fault_model = nodes1and2_crash_after_round0,
      sc_rounds = 5,
      sc_description =
        ''Nodes 1 and 2 crash after round 0. Node 0 keeps the installed membership '' @
        ''unchanged, then halts once quorum loss is exposed through the missing rows in '' @
        ''its local sound matrix.'',
      sc_expectation =
        \<lparr>ex_statuses = [''HALTED'', ''CRASHED'', ''CRASHED''],
         ex_committed_rounds = [[], [], []],
         ex_halted_rounds = [Some 2, Some 1, Some 1]\<rparr>\<rparr>"

definition future_epoch_skew_spec :: scenario_spec where
  "future_epoch_skew_spec =
     \<lparr>sc_network_fault_model = network_future_round_skew,
      sc_node_fault_model = all_nodes_active,
      sc_rounds = 5,
      sc_description =
        ''One node labels a round-0 packet as round 1. Nodes 0 and 1 therefore miss node '' @
        ''2's round-0 proposal, but they miss it identically: their observation rows '' @
        ''agree, they form a quorum without node 2, shrink the sound set and keep '' @
        ''committing. Node 2 is alone in having heard everyone and halts with no agreed '' @
        ''row.'',
      sc_expectation =
        \<lparr>ex_statuses = [''RUNNING'', ''RUNNING'', ''HALTED''],
         ex_committed_rounds = [[0, 1, 2], [0, 1, 2], []],
         ex_halted_rounds = [None, None, Some 2]\<rparr>\<rparr>"

definition ack_bitmap_corruption_spec :: scenario_spec where
  "ack_bitmap_corruption_spec =
     \<lparr>sc_network_fault_model = network_row_corruption,
      sc_node_fault_model = all_nodes_active,
      sc_rounds = 5,
      sc_description =
        ''A corrupted control payload causes node 2 to derive an incompatible local view. '' @
        ''It drops node 1 from its sound set and so stops counting node 1's evidence, '' @
        ''which costs it its quorum one round later. Nodes 0 and 1 are unaffected and keep '' @
        ''committing.'',
      sc_expectation =
        \<lparr>ex_statuses = [''RUNNING'', ''RUNNING'', ''HALTED''],
         ex_committed_rounds = [[0, 1, 2], [0, 1, 2], [0, 1]],
         ex_halted_rounds = [None, None, Some 4]\<rparr>\<rparr>"

definition controlled_rejoin_spec :: scenario_spec where
  "controlled_rejoin_spec =
     \<lparr>sc_network_fault_model = network_perfect,
      sc_node_fault_model = node2_reboots_under_control_plane,
      sc_rounds = 55,
      sc_description =
        ''Compatibility alias for the single online rejoin control-plane strategy: node 2 '' @
        ''crashes after round 0, is repaired in the background, and rejoins via '' @
        ''prepare/ack/commit cutover at a future round boundary.'',
      sc_expectation =
        \<lparr>ex_statuses = [''RUNNING'', ''RUNNING'', ''RUNNING''],
         ex_committed_rounds = [[0..32] @ [35..52], [0..32] @ [35..52], [0..31] @ [35..52]],
         ex_halted_rounds = [None, None, None]\<rparr>\<rparr>"

definition online_rejoin_spec :: scenario_spec where
  "online_rejoin_spec =
     \<lparr>sc_network_fault_model = network_perfect,
      sc_node_fault_model = node2_reboots_under_control_plane,
      sc_rounds = 40,
      sc_description =
        ''Node 2 crashes after round 0, while nodes 0 and 1 continue together. The control '' @
        ''plane repairs node 2 in the background, runs a configuration cutover, and all '' @
        ''nodes switch to a fresh run at a future round boundary.'',
      sc_expectation =
        \<lparr>ex_statuses = [''RUNNING'', ''RUNNING'', ''RUNNING''],
         ex_committed_rounds = [[0..32] @ [35..37], [0..32] @ [35..37], [0..31] @ [35..37]],
         ex_halted_rounds = [None, None, None]\<rparr>\<rparr>"

definition scenarios :: "(string, scenario_spec) dict" where
  "scenarios =
     [(''perfect'', perfect_spec),
      (''node2_crash'', node2_crash_spec),
      (''asymmetric_loss'', asymmetric_loss_spec),
      (''bridge_partition'', bridge_partition_spec),
      (''one_epoch_delay'', one_epoch_delay_spec),
      (''quorum_loss'', quorum_loss_spec),
      (''future_epoch_skew'', future_epoch_skew_spec),
      (''ack_bitmap_corruption'', ack_bitmap_corruption_spec),
      (''controlled_rejoin'', controlled_rejoin_spec),
      (''online_rejoin'', online_rejoin_spec)]"

definition primary_scenarios :: "string list" where
  "primary_scenarios =
     [''perfect'', ''node2_crash'', ''asymmetric_loss'', ''bridge_partition'', ''one_epoch_delay'',
      ''quorum_loss'', ''controlled_rejoin'', ''online_rejoin'']"

definition auxiliary_scenarios :: "string list" where
  "auxiliary_scenarios = []"

definition out_of_model_scenarios :: "string list" where
  "out_of_model_scenarios = [''ack_bitmap_corruption'', ''future_epoch_skew'']"

text \<open>The assertion the module runs when it is loaded.\<close>

definition scenario_partition :: "unit result" where
  "scenario_partition =
     assert_py (set primary_scenarios \<union> set auxiliary_scenarios \<union> set out_of_model_scenarios
                = set (dkeys scenarios))"

text \<open>A scenario run as the command line starts it.\<close>

definition scenario_cluster ::
  "(string \<Rightarrow> string) \<Rightarrow> scenario_spec \<Rightarrow> nat \<Rightarrow> int \<Rightarrow> simulation_timing \<Rightarrow> unit cluster" where
  "scenario_cluster sha spec nodes rounds timing =
     new_cluster sha nodes rounds timing default_payload (sc_network_fault_model spec)
       (sc_node_fault_model spec) () NoOpMetricsSink"


section \<open>The table and the fault model\<close>

lemmas spec_defs =
  perfect_spec_def node2_crash_spec_def asymmetric_loss_spec_def bridge_partition_spec_def
  one_epoch_delay_spec_def quorum_loss_spec_def future_epoch_skew_spec_def
  ack_bitmap_corruption_spec_def controlled_rejoin_spec_def online_rejoin_spec_def

lemma scenario_names:
  "dkeys scenarios =
     [''perfect'', ''node2_crash'', ''asymmetric_loss'', ''bridge_partition'', ''one_epoch_delay'',
      ''quorum_loss'', ''future_epoch_skew'', ''ack_bitmap_corruption'', ''controlled_rejoin'',
      ''online_rejoin'']"
  by (simp add: scenarios_def dkeys_def)

lemma scenario_groups:
  "list_all (\<lambda>(name, spec).
     if name \<in> set out_of_model_scenarios
     then name \<notin> set primary_scenarios \<and> \<not> faithful (sc_network_fault_model spec)
     else name \<in> set primary_scenarios \<and> faithful (sc_network_fault_model spec)) scenarios"
  using probe_models_not_faithful
  by (simp add: scenarios_def spec_defs out_of_model_scenarios_def primary_scenarios_def)

lemma primary_faithful:
  assumes "dget scenarios name = Some spec" "name \<in> set primary_scenarios"
  shows "faithful (sc_network_fault_model spec)"
  using scenario_groups dget_in_set [OF assms(1)] assms(2) by (fastforce simp: list_all_iff split: if_splits)

lemma primary_listed:
  assumes "name \<in> set primary_scenarios"
  obtains spec where "dget scenarios name = Some spec"
proof -
  have "set primary_scenarios \<subseteq> set (dkeys scenarios)" by (simp add: primary_scenarios_def scenario_names)
  with assms have "name \<in> set (dkeys scenarios)" by blast
  then have "dget scenarios name \<noteq> None" by (simp only: set_dkeys simp_thms)
  with that show ?thesis by blast
qed

lemma scenario_run_returns:
  assumes "faithful (sc_network_fault_model spec)" "round_length_ns timing \<noteq> 0"
  shows "\<exists>res. run sha (scenario_cluster sha spec nodes rounds timing) = Inr res \<and>
    length (res_nodes res) = nodes"
proof -
  from run_reaches [OF assms] obtain c' where
    "run sha (scenario_cluster sha spec nodes rounds timing) = Inr (cluster_result c')"
    "round_start (int (nat rounds)) c'" "same_params (scenario_cluster sha spec nodes rounds timing) c'"
    unfolding scenario_cluster_def by blast
  then show ?thesis
    by (auto simp: cluster_result_def round_start_def wired_def same_params_def
        scenario_cluster_def new_cluster_def)
qed

text \<open>
  C15. Every primary scenario, run with any number of nodes and rounds and any nonzero round
  length, returns and its histories agree on every round.
\<close>

theorem primary_scenarios_agree:
  assumes "name \<in> set primary_scenarios" and "round_length_ns timing \<noteq> 0"
  shows "\<exists>spec res. dget scenarios name = Some spec \<and>
    run sha (scenario_cluster sha spec nodes rounds timing) = Inr res \<and>
    inj_on cr_round (\<Union>nd \<in> set (res_nodes res). set (nr_committed_rounds nd))"
proof -
  obtain spec where spec: "dget scenarios name = Some spec" by (rule primary_listed [OF assms(1)])
  note net = primary_faithful [OF spec assms(1)]
  obtain res where res: "run sha (scenario_cluster sha spec nodes rounds timing) = Inr res"
    using scenario_run_returns [OF net assms(2)] by blast
  from run_logs(1) [OF net assms(2) res [unfolded scenario_cluster_def]] spec res
  show ?thesis by (auto simp: logs_of_def)
qed

theorem primary_scenarios_agree_witness:
  "\<exists>spec res. dget scenarios ''online_rejoin'' = Some spec \<and>
    run (\<lambda>s. s) (scenario_cluster (\<lambda>s. s) spec 3 40 default_timing) = Inr res \<and>
    inj_on cr_round (\<Union>nd \<in> set (res_nodes res). set (nr_committed_rounds nd))"
  by (rule primary_scenarios_agree) (simp_all add: primary_scenarios_def default_timing_def)

text \<open>
  The three groups partition the table, so the module loads, and the probes listed as outside
  the fault model are exactly the scenarios whose network rewrites a packet.
\<close>

theorem out_of_model_scenarios_exact:
  "scenario_partition = Inr () \<and> set primary_scenarios \<inter> set out_of_model_scenarios = {} \<and>
   out_of_model_scenarios = rev (map fst (filter (\<lambda>(name, spec).
     \<not> faithful (sc_network_fault_model spec)) scenarios))"
proof -
  have "set primary_scenarios \<union> set auxiliary_scenarios \<union> set out_of_model_scenarios = set (dkeys scenarios)"
    by (auto simp: scenario_names primary_scenarios_def auxiliary_scenarios_def out_of_model_scenarios_def)
  moreover have "set primary_scenarios \<inter> set out_of_model_scenarios = {}"
    by (simp add: primary_scenarios_def out_of_model_scenarios_def)
  moreover have "out_of_model_scenarios = rev (map fst (filter (\<lambda>(name, spec).
     \<not> faithful (sc_network_fault_model spec)) scenarios))"
    using probe_models_not_faithful
    by (simp add: scenarios_def spec_defs out_of_model_scenarios_def)
  ultimately show ?thesis by (simp add: scenario_partition_def)
qed

end
