(* ===== verification/Cli.thy ===== *)
theory Cli
  imports Scenarios Durations
begin

text \<open>
  The command line of the simulator (\<open>sim/runtime/cli.py\<close>): the printed summary of a run, the
  performance summary, the check of a scenario against its expectation under a custom number of
  rounds, and \<open>main\<close> from parsed arguments to what it prints and its exit code. The option parser
  (\<open>argparse\<close>) is represented by the defaults it fills in, the JSON dump by the result it dumps.
\<close>


section \<open>Text\<close>

definition join :: "string \<Rightarrow> string list \<Rightarrow> string" where
  "join sep xs = (case xs of [] \<Rightarrow> [] | x # rest \<Rightarrow> x @ concat (map (\<lambda>y. sep @ y) rest))"

definition show_opt :: "int option \<Rightarrow> string" where
  "show_opt v = (case v of None \<Rightarrow> ''None'' | Some i \<Rightarrow> show_int i)"

definition newline :: string where
  "newline = [char_of (10 :: nat)]"

definition show_range :: "int \<Rightarrow> int \<Rightarrow> string" where
  "show_range start end = (if start = end then show_int start else show_int start @ ''-'' @ show_int end)"

text \<open>The loop over the rounds after the first, with the open range \<open>start..end\<close>.\<close>

fun compact_ranges :: "int \<Rightarrow> int \<Rightarrow> int list \<Rightarrow> (int \<times> int) list" where
  "compact_ranges start end [] = [(start, end)]"
| "compact_ranges start end (v # vs) =
     (if v = end + 1 then compact_ranges start v vs else (start, end) # compact_ranges v v vs)"

definition round_ranges :: "int list \<Rightarrow> (int \<times> int) list" where
  "round_ranges rounds = (case rounds of [] \<Rightarrow> [] | r # rs \<Rightarrow> compact_ranges r r rs)"

definition compact_round_list :: "int list \<Rightarrow> string" where
  "compact_round_list rounds =
     (if rounds = [] then ''[]''
      else ''['' @ join '', '' (map (\<lambda>(a, b). show_range a b) (round_ranges rounds)) @ '']'')"

definition halt_line :: "nat \<Rightarrow> halt_record \<Rightarrow> string" where
  "halt_line node_count h =
     ''  halt failed_round='' @ show_int (hr_failed_round h) @
     '' run_id='' @ show_int (hr_run_id h) @
     '' reason='' @ hr_halt_reason h @
     '' membership='' @ bitmap_text (hr_installed_membership h) node_count @
     '' self_row='' @ bitmap_text (hr_self_row h) node_count @
     '' frontier='' @ show_opt (hr_committed_frontier h) @
     '' sound_set_lineage='' @
       (case hr_sound_set_lineage h of None \<Rightarrow> ''none'' | Some members \<Rightarrow> bitmap_text members node_count) @
     '' log_digest='' @ take 12 (hr_log_digest h)"

definition node_lines :: "nat \<Rightarrow> node_report \<Rightarrow> string list" where
  "node_lines node_count nd =
     (''Node '' @ show_int (int (sn_node_id nd)) @ '': status='' @ status_value (sn_status nd) @
      '', committed='' @ compact_round_list (map cr_round (nr_committed_rounds nd)) @
      '', halted_round='' @ show_opt (sn_halted_round nd)) #
     (case sn_halt_details nd of None \<Rightarrow> [] | Some h \<Rightarrow> [halt_line node_count h])"

definition text_summary :: "run_result \<Rightarrow> string" where
  "text_summary res =
     join newline
       ([''Cluster run: '' @ show_int (int (res_node_count res)) @ '' nodes for '' @
           show_int (res_rounds res) @ '' rounds'',
         ''Timing: round_length='' @ format_duration_ns (round_length_ns (res_timing res)) @
           '' simulated_time='' @ format_duration_ns (res_simulated_time_ns res),
         []] @
        concat (map (node_lines (res_node_count res)) (res_nodes res)))"


section \<open>Performance figures\<close>

definition total_commits :: "run_result \<Rightarrow> nat" where
  "total_commits res = sum_list (map (\<lambda>nd. length (nr_committed_rounds nd)) (res_nodes res))"

definition last_round :: "node_report \<Rightarrow> int" where
  "last_round nd =
     (if nr_committed_rounds nd = [] then -1 else cr_round (last (nr_committed_rounds nd)))"

text \<open>\<open>max()\<close> of no nodes raises.\<close>

definition max_frontier :: "run_result \<Rightarrow> int result" where
  "max_frontier res =
     (if res_nodes res = [] then Inl ValueError else Inr (Max (set (map last_round (res_nodes res)))))"

definition cluster_commit_rounds :: "run_result \<Rightarrow> int result" where
  "cluster_commit_rounds res = ebind (max_frontier res) (\<lambda>m. Inr (if 0 \<le> m then m + 1 else 0))"

definition is_interruption_event :: "cp_event \<Rightarrow> bool" where
  "is_interruption_event ev =
     (case ev_event ev of NodeCrashed _ \<Rightarrow> True | NodeHalted _ _ \<Rightarrow> True | PrepareAck _ _ \<Rightarrow> False)"

definition event_node_id :: "cp_event \<Rightarrow> nat" where
  "event_node_id ev =
     (case ev_event ev of NodeCrashed i \<Rightarrow> i | NodeHalted i _ \<Rightarrow> i | PrepareAck i _ \<Rightarrow> i)"

definition first_action_time :: "cp_action \<Rightarrow> applied_action list \<Rightarrow> int option" where
  "first_action_time action applied = map_option ap_time_ns (List.find (\<lambda>a. ap_action a = action) applied)"


text \<open>\<open>f"{x:.2f}"\<close> of a nonnegative double.\<close>

definition format_2f :: "rat \<Rightarrow> string" where
  "format_2f x =
     (let i = nat (round_half_even (x * 100)) in
      nat_digits (i div 100) @ ''.'' @ (if i mod 100 < 10 then ''0'' else []) @ nat_digits (i mod 100))"

definition seconds :: "int \<Rightarrow> rat" where
  "seconds ns = to_double (of_int ns / 1000000000)"

definition cluster_commit_rate :: "run_result \<Rightarrow> int \<Rightarrow> rat" where
  "cluster_commit_rate res commit_rounds =
     (if 0 < res_simulated_time_ns res
      then to_double (of_int commit_rounds / seconds (res_simulated_time_ns res)) else 0)"

definition per_node_commit_rate :: "run_result \<Rightarrow> rat" where
  "per_node_commit_rate res =
     (if 0 < res_simulated_time_ns res \<and> 0 < res_node_count res
      then to_double (to_double (of_nat (total_commits res) / of_nat (res_node_count res)) /
             seconds (res_simulated_time_ns res)) else 0)"

text \<open>A line with the time between two moments, when both are known.\<close>

definition gap_line :: "string \<Rightarrow> int option \<Rightarrow> int option \<Rightarrow> string list" where
  "gap_line label a b =
     (case (a, b) of
        (Some x, Some y) \<Rightarrow> [label @ format_duration_ns (y - x)]
      | _ \<Rightarrow> [])"

definition rejoin_commit_times :: "run_result \<Rightarrow> nat set \<Rightarrow> int \<Rightarrow> int list" where
  "rejoin_commit_times res recovered activate_at =
     concat (map (\<lambda>nd. if sn_node_id nd \<in> recovered
                        then List.map_filter (\<lambda>e. case cr_commit_time_ns e of
                               None \<Rightarrow> None
                             | Some t \<Rightarrow> if activate_at \<le> t then Some t else None) (nr_committed_rounds nd)
                        else []) (res_nodes res))"

definition recovery_lines :: "run_result \<Rightarrow> string list" where
  "recovery_lines res =
     (let interruptions = filter is_interruption_event (res_control_plane_events res);
          applied = db_applied_actions (res_control_plane_runtime res)
      in if interruptions = [] \<or> applied = [] then []
         else
           let first_available = Min (set (map ev_available_at_ns interruptions));
               mark = first_action_time Mark_recovering applied;
               prepare = first_action_time Prepare_online_rejoin applied;
               commit = first_action_time Commit_online_rejoin applied;
               activate = first_action_time Activate_online_rejoin applied
           in gap_line ''  interruption_to_mark_recovering='' (Some first_available) mark @
              gap_line ''  mark_recovering_to_prepare='' mark prepare @
              gap_line ''  prepare_to_commit='' prepare commit @
              gap_line ''  commit_to_activate='' commit activate @
              (case activate of
                 None \<Rightarrow> []
               | Some act \<Rightarrow>
                   let times = rejoin_commit_times res (event_node_id ` set interruptions) act in
                   if times = [] then []
                   else [''  activate_to_first_rejoin_commit='' @ format_duration_ns (Min (set times) - act)]))"

definition app_delivery_times :: "run_result \<Rightarrow> int list" where
  "app_delivery_times res =
     concat (map (\<lambda>nd. List.map_filter (\<lambda>e.
       case (cr_commit_time_ns e, cr_app_delivery_time_ns e) of
         (Some c, Some a) \<Rightarrow> Some (a - c)
       | _ \<Rightarrow> None) (nr_committed_rounds nd)) (res_nodes res))"

definition performance_lines :: "run_result \<Rightarrow> int \<Rightarrow> string list" where
  "performance_lines res commit_rounds =
     [''Performance summary:'',
      ''  round_length='' @ format_duration_ns (round_length_ns (res_timing res)),
      ''  simulated_time='' @ format_duration_ns (res_simulated_time_ns res),
      ''  cluster_committed_rounds='' @ show_int commit_rounds,
      ''  cluster_commit_rate='' @ format_2f (cluster_commit_rate res commit_rounds) @ '' rounds/s'',
      ''  mean_per_node_commit_rate='' @ format_2f (per_node_commit_rate res) @ '' rounds/s'',
      ''  control_plane_events='' @ show_int (int (length (res_control_plane_events res)))] @
     recovery_lines res @
     (let times = app_delivery_times res in
      if times = [] then []
      else [''  commit_to_application='' @ format_duration_ns (sum_list times div int (length times))])"

definition performance_summary_text :: "run_result \<Rightarrow> string result" where
  "performance_summary_text res =
     ebind (cluster_commit_rounds res) (\<lambda>n. Inr (join newline (performance_lines res n)))"


section \<open>Checking a scenario\<close>

datatype budget_failure =
    Scenario_failure scenario_failure
  | Commit_prefix_mismatch nat "int list" "int list"
  | Non_contiguous_commits nat "int list"
  | Unexpected_extra_commits nat "int list" "int list"

datatype check_mode = Exact_budget | Skipped | Relaxed

text \<open>The body of the loop over the nodes: at most one failure each.\<close>

definition node_budget_failures ::
  "nat \<Rightarrow> int list \<Rightarrow> int list \<Rightarrow> string \<Rightarrow> int option \<Rightarrow> budget_failure list" where
  "node_budget_failures node_id expected actual status halted_round =
     (if take (length expected) actual \<noteq> expected
      then [Commit_prefix_mismatch node_id expected actual]
      else if actual \<noteq> map int [0..<length actual] then [Non_contiguous_commits node_id actual]
      else if (status \<noteq> ''RUNNING'' \<or> halted_round \<noteq> None) \<and> actual \<noteq> expected
      then [Unexpected_extra_commits node_id expected actual] else [])"

fun zip_budget_failures ::
  "nat \<Rightarrow> int list list \<Rightarrow> int list list \<Rightarrow> string list \<Rightarrow> int option list \<Rightarrow> budget_failure list result" where
  "zip_budget_failures i (e # es) (a # as) (s # ss) (h # hs) =
     ebind (zip_budget_failures (Suc i) es as ss hs) (\<lambda>rest.
       Inr (node_budget_failures i e a s h @ rest))"
| "zip_budget_failures i [] [] [] [] = Inr []"
| "zip_budget_failures i es as ss hs = Inl ValueError"

definition evaluate_expectation :: "run_result \<Rightarrow> scenario_expectation \<Rightarrow> scenario_failure list" where
  "evaluate_expectation res ex = check_expectation ex res"

definition evaluate_expectation_for_round_budget ::
  "run_result \<Rightarrow> scenario_expectation \<Rightarrow> int \<Rightarrow> int \<Rightarrow> (budget_failure list \<times> check_mode) result" where
  "evaluate_expectation_for_round_budget res ex budget_rounds reference_rounds =
     (if budget_rounds = reference_rounds
      then Inr (map Scenario_failure (check_expectation ex res), Exact_budget)
      else if budget_rounds < reference_rounds then Inr ([], Skipped)
      else
        ebind (zip_budget_failures 0 (ex_committed_rounds ex) (actual_commits res)
                 (actual_statuses res) (actual_halts res)) (\<lambda>node_failures.
          Inr (map Scenario_failure
                 ((if actual_statuses res \<noteq> ex_statuses ex
                   then [Status_mismatch (ex_statuses ex) (actual_statuses res)] else []) @
                  (if actual_halts res \<noteq> ex_halted_rounds ex
                   then [Halted_round_mismatch (ex_halted_rounds ex) (actual_halts res)] else [])) @
               node_failures, Relaxed)))"


section \<open>The main program\<close>

record cli_args =
  arg_scenario :: string
  arg_rounds :: "int option"
  arg_nodes :: nat
  arg_json :: bool
  arg_check :: bool
  arg_timing :: simulation_timing
  arg_perf_summary :: bool

text \<open>The defaults of the options, with the texts of the durations as the code writes them.\<close>

definition default_durations :: "string list" where
  "default_durations = [''4us'', ''10us'', ''20us'', ''15us'', ''50us'', ''20us'', ''10us'', ''5us'']"

fun timing_of_list :: "int list \<Rightarrow> simulation_timing option" where
  "timing_of_list [a, b, c, d, e, f, g, h] =
     Some \<lparr>round_length_ns = a, halt_report_delay_ns = b, cp_collection_delay_ns = c,
           cp_decision_delay_ns = d, repair_delay_ns = e, install_delay_ns = f,
           reentry_delay_ns = g, app_delivery_delay_ns = h\<rparr>"
| "timing_of_list ts = None"

definition default_args :: "string \<Rightarrow> cli_args result" where
  "default_args scenario =
     ebind (efold (\<lambda>d acc. ebind (parse_duration_ns d) (\<lambda>t. Inr (acc @ [t]))) default_durations []) (\<lambda>ts.
       case timing_of_list ts of
         None \<Rightarrow> Inl ValueError
       | Some timing \<Rightarrow>
           Inr \<lparr>arg_scenario = scenario, arg_rounds = None, arg_nodes = 3, arg_json = False,
                arg_check = False, arg_timing = timing, arg_perf_summary = False\<rparr>)"

text \<open>What \<open>main\<close> puts out: the JSON dump of the result, or the report.\<close>

datatype cli_output =
    Json_output run_result string string
  | Report string string string "(budget_failure list \<times> check_mode) option" "string option"

definition cli_main :: "(string \<Rightarrow> string) \<Rightarrow> cli_args \<Rightarrow> (cli_output \<times> int) result" where
  "cli_main sha args =
     (case dget scenarios (arg_scenario args) of
        None \<Rightarrow> Inl KeyError
      | Some spec \<Rightarrow>
          let rounds = (case arg_rounds args of None \<Rightarrow> sc_rounds spec | Some r \<Rightarrow> r) in
          ebind (run sha (scenario_cluster sha spec (arg_nodes args) rounds (arg_timing args))) (\<lambda>res.
            if arg_json args then Inr (Json_output res (arg_scenario args) (sc_description spec), 0)
            else
              ebind (if arg_check args
                     then ebind (evaluate_expectation_for_round_budget res (sc_expectation spec)
                                   rounds (sc_rounds spec)) (\<lambda>c. Inr (Some c))
                     else Inr None) (\<lambda>checked.
              ebind (if arg_perf_summary args
                     then ebind (performance_summary_text res) (\<lambda>t. Inr (Some t))
                     else Inr None) (\<lambda>perf.
                Inr (Report (arg_scenario args) (sc_description spec) (text_summary res) checked perf,
                     case checked of
                       None \<Rightarrow> 0
                     | Some (failures, mode) \<Rightarrow> if failures \<noteq> [] then 1 else 0)))))"


section \<open>Round lists\<close>

lemma compact_ranges_expand:
  "start \<le> end \<Longrightarrow> concat (map (\<lambda>(a, b). [a..b]) (compact_ranges start end vs)) = [start..end] @ vs"
proof (induction vs arbitrary: start "end")
  case (Cons v vs)
  have "[start..end + 1] = [start..end] @ [end + 1]"
    using Cons.prems by (simp add: upto_rec2)
  with Cons show ?case by simp
qed simp

lemma compact_ranges_apart:
  "start \<le> end \<Longrightarrow>
    (\<exists>b rest. compact_ranges start end vs = (start, b) # rest) \<and>
    successively (\<lambda>x y. fst y \<noteq> snd x + 1) (compact_ranges start end vs)"
proof (induction vs arbitrary: start "end")
  case (Cons v vs)
  show ?case
  proof (cases "v = end + 1")
    case True
    with Cons show ?thesis by simp
  next
    case False
    from Cons.IH [of v v] obtain b rest where "compact_ranges v v vs = (v, b) # rest"
      "successively (\<lambda>x y. fst y \<noteq> snd x + 1) (compact_ranges v v vs)" by auto
    with False show ?thesis by simp
  qed
qed simp

text \<open>
  The compact list of committed rounds in the summary loses nothing: written out, its ranges
  are the list of rounds, gaps and repetitions included, and no two neighbouring ranges could be
  joined.
\<close>

theorem round_ranges_exact:
  "concat (map (\<lambda>(a, b). [a..b]) (round_ranges rounds)) = rounds \<and>
   successively (\<lambda>x y. fst y \<noteq> snd x + 1) (round_ranges rounds)"
proof (cases rounds)
  case (Cons r rs)
  then show ?thesis
    using compact_ranges_expand [of r r rs] compact_ranges_apart [of r r rs]
    by (simp add: round_ranges_def)
qed (simp add: round_ranges_def)


section \<open>The relaxed check\<close>

definition node_budget_ok :: "int list \<Rightarrow> int list \<Rightarrow> string \<Rightarrow> int option \<Rightarrow> bool" where
  "node_budget_ok expected actual status halted_round \<longleftrightarrow>
     actual = map int [0..<length actual] \<and>
     expected = map int [0..<length expected] \<and> length expected \<le> length actual \<and>
     (status = ''RUNNING'' \<and> halted_round = None \<or> actual = expected)"

lemma prefix_of_upt:
  assumes "actual = map int [0..<length actual]"
  shows "take (length expected) actual = expected \<longleftrightarrow>
    expected = map int [0..<length expected] \<and> length expected \<le> length actual"
proof -
  have "take (length expected) actual = map int [0..<min (length expected) (length actual)]"
    by (subst assms) (simp add: take_map min_def)
  then show ?thesis by (metis length_map length_upt diff_zero min.absorb1 min.cobounded2)
qed

lemma node_budget_failures_empty:
  "node_budget_failures i expected actual status halted = [] \<longleftrightarrow> node_budget_ok expected actual status halted"
  using prefix_of_upt [of actual expected]
  by (auto simp: node_budget_failures_def node_budget_ok_def)

lemma zip_budget_failures_result:
  assumes "length as = length es" "length ss = length es" "length hs = length es"
  shows "\<exists>fs. zip_budget_failures i es as ss hs = Inr fs \<and>
    (fs = [] \<longleftrightarrow> (\<forall>j < length es. node_budget_ok (es ! j) (as ! j) (ss ! j) (hs ! j)))"
  using assms
proof (induction i es as ss hs rule: zip_budget_failures.induct)
  case (1 i e es a as s ss h hs)
  then obtain fs where "zip_budget_failures (Suc i) es as ss hs = Inr fs"
    "fs = [] \<longleftrightarrow> (\<forall>j < length es. node_budget_ok (es ! j) (as ! j) (ss ! j) (hs ! j))" by auto
  then show ?case by (auto simp: node_budget_failures_empty less_Suc_eq_0_disj)
qed auto

lemma actual_lengths [simp]:
  "length (actual_statuses res) = length (res_nodes res)"
  "length (actual_commits res) = length (res_nodes res)"
  "length (actual_halts res) = length (res_nodes res)"
  by (simp_all add: actual_statuses_def actual_commits_def actual_halts_def)

lemma zip_budget_failures_strict:
  "length as \<noteq> length es \<Longrightarrow> length ss = length as \<Longrightarrow> length hs = length as \<Longrightarrow>
    zip_budget_failures i es as ss hs = Inl ValueError"
proof (induction i es as ss hs rule: zip_budget_failures.induct)
  case (1 i e es a as s ss h hs)
  then show ?case by simp
qed auto

text \<open>
  C21. The check with a longer round budget, for an expectation with one entry per node: it passes
  exactly when statuses and halt rounds are the expected ones and every node's committed rounds are
  0, 1, 2, ... without a gap, extending the expected list, and equal to it for a stopped node. With
  another number of nodes it raises.
\<close>

theorem relaxed_check_exact:
  assumes "reference_rounds < budget_rounds"
    and "length (ex_statuses ex) = length (ex_committed_rounds ex)"
    and "length (ex_halted_rounds ex) = length (ex_committed_rounds ex)"
  shows "if length (res_nodes res) = length (ex_committed_rounds ex)
    then \<exists>failures. evaluate_expectation_for_round_budget res ex budget_rounds reference_rounds
           = Inr (failures, Relaxed) \<and>
         (failures = [] \<longleftrightarrow>
            actual_statuses res = ex_statuses ex \<and> actual_halts res = ex_halted_rounds ex \<and>
            (\<forall>i < length (res_nodes res).
               node_budget_ok (ex_committed_rounds ex ! i) (actual_commits res ! i)
                 (actual_statuses res ! i) (actual_halts res ! i)))
    else evaluate_expectation_for_round_budget res ex budget_rounds reference_rounds = Inl ValueError"
proof (cases "length (res_nodes res) = length (ex_committed_rounds ex)")
  case True
  from zip_budget_failures_result [of "actual_commits res" "ex_committed_rounds ex" "actual_statuses res"
      "actual_halts res" 0] True
  obtain fs where "zip_budget_failures 0 (ex_committed_rounds ex) (actual_commits res)
      (actual_statuses res) (actual_halts res) = Inr fs"
    "fs = [] \<longleftrightarrow> (\<forall>i < length (res_nodes res). node_budget_ok (ex_committed_rounds ex ! i)
      (actual_commits res ! i) (actual_statuses res ! i) (actual_halts res ! i))" by auto
  with True assms(1) show ?thesis by (auto simp: evaluate_expectation_for_round_budget_def)
next
  case False
  with zip_budget_failures_strict [of "actual_commits res" "ex_committed_rounds ex" "actual_statuses res"
      "actual_halts res" 0] assms(1)
  show ?thesis by (simp add: evaluate_expectation_for_round_budget_def)
qed

definition empty_debug :: debug_snapshot where
  "empty_debug = debug_snapshot_of (new_control_plane 10)"

definition example_result :: run_result where
  "example_result =
     \<lparr>res_node_count = 0, res_rounds = 9, res_simulated_time_ns = 36000, res_timing = default_timing,
      res_control_plane_events = [], res_control_plane_runtime = empty_debug, res_nodes = []\<rparr>"

theorem relaxed_check_exact_witness:
  "evaluate_expectation_for_round_budget example_result (sc_expectation perfect_spec) 9 5 = Inl ValueError"
  using relaxed_check_exact [of 5 9 "sc_expectation perfect_spec" example_result]
  by (simp add: perfect_spec_def example_result_def)

text \<open>
  The relaxed check rejects every run of a scenario whose expected commits have a gap, the
  rejoin scenarios of the table: no result can satisfy it.
\<close>

theorem relaxed_check_rejects_gaps:
  assumes "reference_rounds < budget_rounds"
    and "i < length (ex_committed_rounds ex)"
    and "ex_committed_rounds ex ! i \<noteq> map int [0..<length (ex_committed_rounds ex ! i)]"
  shows "\<not> (\<exists>mode. evaluate_expectation_for_round_budget res ex budget_rounds reference_rounds = Inr ([], mode))"
proof
  assume "\<exists>mode. evaluate_expectation_for_round_budget res ex budget_rounds reference_rounds = Inr ([], mode)"
  then have zip: "zip_budget_failures 0 (ex_committed_rounds ex) (actual_commits res)
      (actual_statuses res) (actual_halts res) = Inr []"
    using assms(1) by (auto simp: evaluate_expectation_for_round_budget_def ebind_eq_Inr_iff)
  then have "length (res_nodes res) = length (ex_committed_rounds ex)"
    using zip_budget_failures_strict [of "actual_commits res" "ex_committed_rounds ex"
        "actual_statuses res" "actual_halts res" 0] by auto
  with zip zip_budget_failures_result [of "actual_commits res" "ex_committed_rounds ex"
      "actual_statuses res" "actual_halts res" 0] assms(2)
  have "node_budget_ok (ex_committed_rounds ex ! i) (actual_commits res ! i)
      (actual_statuses res ! i) (actual_halts res ! i)" by auto
  with assms(3) show False by (simp add: node_budget_ok_def)
qed

theorem relaxed_check_rejects_gaps_witness:
  "\<not> (\<exists>mode. evaluate_expectation_for_round_budget example_result (sc_expectation online_rejoin_spec) 45 40
     = Inr ([], mode))"
proof (rule relaxed_check_rejects_gaps [of 40 45 0])
  show "ex_committed_rounds (sc_expectation online_rejoin_spec) ! 0
      \<noteq> map int [0..<length (ex_committed_rounds (sc_expectation online_rejoin_spec) ! 0)]"
    by code_simp
qed (simp_all add: online_rejoin_spec_def)


section \<open>The main program returns\<close>

lemma parse_default_durations:
  "map parse_duration_ns default_durations
     = map Inr [4000, 10000, 20000, 15000, 50000, 20000, 10000, 5000]"
proof -
  have us: "parse_duration_ns (show_int i @ ''us'') = Inr (i * 1000)" if "i \<in> {4, 5, 10, 15, 20, 50}" for i
    using that parse_with_suffix [of "''us''" 1000 i] by (auto simp: duration_units_def)
  have "show_int 4 = ''4''" "show_int 5 = ''5''" "show_int 10 = ''10''" "show_int 15 = ''15''"
    "show_int 20 = ''20''" "show_int 50 = ''50''" by code_simp+
  with us [of 4] us [of 5] us [of 10] us [of 15] us [of 20] us [of 50] show ?thesis
    by (simp add: default_durations_def)
qed

text \<open>
  The textual defaults of the duration options are the defaults of \<open>SimulationTiming\<close>.
\<close>

theorem default_args_timing:
  "default_args scenario =
     Inr \<lparr>arg_scenario = scenario, arg_rounds = None, arg_nodes = 3, arg_json = False,
          arg_check = False, arg_timing = default_timing, arg_perf_summary = False\<rparr>"
  using parse_default_durations
  by (simp add: default_args_def default_durations_def default_timing_def)

lemma scenario_three_nodes:
  "list_all (\<lambda>(name, spec). length (ex_committed_rounds (sc_expectation spec)) = 3) scenarios"
  by (simp add: scenarios_def spec_defs)

definition args_in_range :: "cli_args \<Rightarrow> bool" where
  "args_in_range args \<longleftrightarrow>
     arg_scenario args \<in> set primary_scenarios \<and> round_length_ns (arg_timing args) \<noteq> 0 \<and>
     (arg_perf_summary args \<longrightarrow> 0 < arg_nodes args) \<and> (arg_check args \<longrightarrow> arg_nodes args = 3)"

lemma budget_check_returns:
  assumes "length (ex_committed_rounds ex) = length (res_nodes res)"
  shows "\<exists>c. evaluate_expectation_for_round_budget res ex budget reference = Inr c"
  using zip_budget_failures_result [of "actual_commits res" "ex_committed_rounds ex" "actual_statuses res"
      "actual_halts res" 0] assms
  by (auto simp: evaluate_expectation_for_round_budget_def)

lemma performance_summary_returns:
  "res_nodes res \<noteq> [] \<Longrightarrow> \<exists>t. performance_summary_text res = Inr t"
  by (simp add: performance_summary_text_def cluster_commit_rounds_def max_frontier_def)

text \<open>
  The command line never raises on a primary scenario, for any number of rounds and nodes and
  any nonzero round length, as long as a check is asked for the three nodes the table is about and
  a performance summary for at least one; the exit code is 0 or 1, and 1 only after a failed check.
\<close>

theorem cli_main_returns:
  assumes "args_in_range args"
  shows "\<exists>out code. cli_main sha args = Inr (out, code) \<and> (code = 0 \<or> code = 1 \<and> arg_check args)"
proof -
  from assms have name: "arg_scenario args \<in> set primary_scenarios"
    and len: "round_length_ns (arg_timing args) \<noteq> 0" by (simp_all add: args_in_range_def)
  obtain spec where spec: "dget scenarios (arg_scenario args) = Some spec" by (rule primary_listed [OF name])
  note net = primary_faithful [OF spec name]
  define rounds where "rounds = (case arg_rounds args of None \<Rightarrow> sc_rounds spec | Some r \<Rightarrow> r)"
  obtain res where res: "run sha (scenario_cluster sha spec (arg_nodes args) rounds (arg_timing args)) = Inr res"
    and nodes: "length (res_nodes res) = arg_nodes args"
    using scenario_run_returns [OF net len] by blast
  have three: "length (ex_committed_rounds (sc_expectation spec)) = 3"
    using scenario_three_nodes dget_in_set [OF spec] by (auto simp: list_all_iff)
  have "\<exists>checked. (if arg_check args
        then ebind (evaluate_expectation_for_round_budget res (sc_expectation spec) rounds (sc_rounds spec))
               (\<lambda>c. Inr (Some c)) else Inr None) = Inr checked \<and> (arg_check args \<or> checked = None)"
    using budget_check_returns [of "sc_expectation spec" res rounds "sc_rounds spec"] assms three nodes
    by (auto simp: args_in_range_def)
  then obtain checked where checked: "(if arg_check args
        then ebind (evaluate_expectation_for_round_budget res (sc_expectation spec) rounds (sc_rounds spec))
               (\<lambda>c. Inr (Some c)) else Inr None) = Inr checked" "arg_check args \<or> checked = None" by blast
  have "\<exists>perf. (if arg_perf_summary args then ebind (performance_summary_text res) (\<lambda>t. Inr (Some t))
      else Inr None) = Inr perf"
  proof (cases "arg_perf_summary args")
    case True
    with assms nodes have "res_nodes res \<noteq> []" by (auto simp: args_in_range_def)
    with performance_summary_returns [of res] show ?thesis by auto
  qed simp
  then obtain perf where perf: "(if arg_perf_summary args
      then ebind (performance_summary_text res) (\<lambda>t. Inr (Some t)) else Inr None) = Inr perf" by blast
  show ?thesis
    using checked(2)
    by (auto simp: cli_main_def spec Let_def rounds_def [symmetric] res checked(1) perf
        split: option.split)
qed

theorem cli_main_returns_witness:
  "\<exists>out code. cli_main (\<lambda>s. s)
      \<lparr>arg_scenario = ''online_rejoin'', arg_rounds = Some 45, arg_nodes = 3, arg_json = False,
       arg_check = True, arg_timing = default_timing, arg_perf_summary = True\<rparr> = Inr (out, code)"
  using cli_main_returns [of "\<lparr>arg_scenario = ''online_rejoin'', arg_rounds = Some 45, arg_nodes = 3,
      arg_json = False, arg_check = True, arg_timing = default_timing, arg_perf_summary = True\<rparr>" "\<lambda>s. s"]
  by (auto simp: args_in_range_def primary_scenarios_def default_timing_def)

end
