(* ===== verification/Campaign_Cli.thy ===== *)
theory Campaign_Cli
  imports Random_Campaign Cli
begin

text \<open>
  The command line of the random fault campaigns (\<open>main\<close> of \<open>sim/runtime/random_campaign.py\<close>): the
  defaults of the options, the printed summary, the sweep with its table of comma separated values
  (\<open>csv.DictWriter\<close>) and the exit code. How a float is read and printed is a parameter. A reader of
  such tables, written from the rules of the format, states what the table must hold.
\<close>


section \<open>Arguments\<close>

text \<open>\<open>float(text)\<close>, \<open>str(x)\<close> and \<open>f"{x:.2f}"\<close>.\<close>

record 'f float_text =
  ft_parse :: "string \<Rightarrow> 'f option"
  ft_str :: "'f \<Rightarrow> string"
  ft_2f :: "'f \<Rightarrow> string"

record 'f campaign_args =
  ca_config :: "'f fault_config"
  ca_sweep :: "fault_parameter option"
  ca_values :: string
  ca_json :: bool

definition campaign_defaults :: "'f \<Rightarrow> 'f campaign_args" where
  "campaign_defaults zero =
     \<lparr>ca_config = default_fault_config zero, ca_sweep = None,
      ca_values = ''0,0.001,0.005,0.01,0.02,0.05'', ca_json = False\<rparr>"

fun parameter_name :: "fault_parameter \<Rightarrow> string" where
  "parameter_name Packet_loss = ''packet_loss''"
| "parameter_name Packet_delay = ''packet_delay''"
| "parameter_name Ack_corruption = ''ack_corruption''"
| "parameter_name Duplicate = ''duplicate''"
| "parameter_name Node_crash = ''node_crash''"

text \<open>\<open>text.split(",")\<close>, and the floats of the pieces that are not empty.\<close>

fun split_commas :: "string \<Rightarrow> string list" where
  "split_commas [] = [[]]"
| "split_commas (c # cs) =
     (if c = CHR '','' then [] # split_commas cs
      else case split_commas cs of [] \<Rightarrow> [[c]] | piece # pieces \<Rightarrow> (c # piece) # pieces)"

definition value_texts :: "string \<Rightarrow> string list" where
  "value_texts text = filter (\<lambda>t. t \<noteq> []) (split_commas text)"

definition parse_values :: "'f float_text \<Rightarrow> string \<Rightarrow> 'f list result" where
  "parse_values fl text =
     efold (\<lambda>t vs. case ft_parse fl t of None \<Rightarrow> Inl ValueError | Some v \<Rightarrow> Inr (vs @ [v])) (value_texts text) []"


section \<open>What is printed\<close>

definition campaign_text :: "'f float_text \<Rightarrow> 'f campaign_report \<Rightarrow> string" where
  "campaign_text fl rep =
     (let config = cm_config rep in
      join newline
        [''Random protocol fault campaign'',
         ''nodes='' @ show_int (int (fc_node_count config)) @ '' rounds='' @ show_int (fc_rounds config) @
           '' trials='' @ show_int (fc_trials config) @ '' seed='' @ show_int (fc_seed config),
         ''faults='' @ ''loss:'' @ ft_str fl (fc_packet_loss config) @ '' '' @
           ''delay:'' @ ft_str fl (fc_packet_delay config) @ '' '' @
           ''ack_corruption:'' @ ft_str fl (fc_ack_corruption config) @ '' '' @
           ''duplicate:'' @ ft_str fl (fc_duplicate config) @ '' '' @
           ''node_crash:'' @ ft_str fl (fc_node_crash config),
         ''safety_violation_runs='' @ show_int (int (cm_safety_violation_runs rep)),
         ''halted_runs='' @ show_int (int (cm_halted_runs rep)),
         ''crashed_runs='' @ show_int (int (cm_crashed_runs rep)),
         ''all_running_runs='' @ show_int (int (cm_all_running_runs rep)),
         ''avg_committed_rounds_per_node='' @ ft_2f fl (cm_avg_committed_rounds_per_node rep)])"

text \<open>The keys of a row, in the order the dictionary is built.\<close>

definition sweep_columns :: "string list" where
  "sweep_columns =
     [''parameter'', ''value'', ''node_count'', ''rounds'', ''trials'', ''seed'', ''packet_loss'', ''packet_delay'',
      ''ack_corruption'', ''duplicate'', ''node_crash'', ''safety_violation_runs'', ''halted_runs'',
      ''crashed_runs'', ''all_running_runs'', ''halt_rate'', ''all_running_rate'',
      ''avg_committed_rounds_per_node'']"

definition sweep_cells :: "'f float_text \<Rightarrow> 'f sweep_row \<Rightarrow> string list" where
  "sweep_cells fl row =
     [parameter_name (sw_parameter row), ft_str fl (sw_value row), show_int (int (fc_node_count row)),
      show_int (fc_rounds row), show_int (fc_trials row), show_int (fc_seed row), ft_str fl (fc_packet_loss row),
      ft_str fl (fc_packet_delay row), ft_str fl (fc_ack_corruption row), ft_str fl (fc_duplicate row),
      ft_str fl (fc_node_crash row), show_int (int (sw_safety_violation_runs row)),
      show_int (int (sw_halted_runs row)), show_int (int (sw_crashed_runs row)),
      show_int (int (sw_all_running_runs row)), ft_str fl (sw_halt_rate row), ft_str fl (sw_all_running_rate row),
      ft_str fl (sw_avg_committed_rounds_per_node row)]"

text \<open>
  The writer's default dialect: a cell with a comma, a quote or an end of line is quoted, its quotes
  doubled; a row ends with a carriage return and a line feed. Rows here have more than one cell.
\<close>

abbreviation "comma \<equiv> CHR '',''"
abbreviation "quote \<equiv> CHR 0x22"
abbreviation "carriage_return \<equiv> CHR 0x0D"
abbreviation "line_feed \<equiv> CHR 0x0A"

definition csv_special :: "char \<Rightarrow> bool" where
  "csv_special c \<longleftrightarrow> c \<in> {comma, quote, carriage_return, line_feed}"

definition csv_cell :: "string \<Rightarrow> string" where
  "csv_cell s =
     (if list_ex csv_special s
      then quote # concat (map (\<lambda>c. if c = quote then [quote, quote] else [c]) s) @ [quote] else s)"

definition csv_row :: "string list \<Rightarrow> string" where
  "csv_row cells = join [comma] (map csv_cell cells) @ [carriage_return, line_feed]"

definition sweep_table :: "'f float_text \<Rightarrow> 'f sweep_row list \<Rightarrow> string" where
  "sweep_table fl rows = csv_row sweep_columns @ concat (map (\<lambda>row. csv_row (sweep_cells fl row)) rows)"


section \<open>The main program\<close>

datatype 'f campaign_output =
    Sweep_table string
  | Json_report "'f campaign_report"
  | Text_report string

definition sweep_main ::
  "(string \<Rightarrow> string) \<Rightarrow> ('f, 'w) rng \<Rightarrow> 'f float_text \<Rightarrow> 'f campaign_args \<Rightarrow> fault_parameter \<Rightarrow>
     ('f campaign_output \<times> int) result" where
  "sweep_main sha g fl args parameter =
     ebind (parse_values fl (ca_values args)) (\<lambda>vs.
     ebind (sweep_campaigns sha g (ca_config args) parameter vs) (\<lambda>rows.
     ebind (sweep_exit_code rows) (\<lambda>code. Inr (Sweep_table (sweep_table fl rows), code))))"

definition campaign_main ::
  "(string \<Rightarrow> string) \<Rightarrow> ('f, 'w) rng \<Rightarrow> 'f float_text \<Rightarrow> 'f campaign_args \<Rightarrow>
     ('f campaign_output \<times> int) result" where
  "campaign_main sha g fl args =
     (case ca_sweep args of
        Some parameter \<Rightarrow> sweep_main sha g fl args parameter
      | None \<Rightarrow>
          ebind (run_campaign sha g (ca_config args)) (\<lambda>rep.
            Inr (if ca_json args then Json_report rep else Text_report (campaign_text fl rep @ newline),
                 campaign_exit_code rep)))"


section \<open>Reading a table\<close>

datatype csv_mode = In_cell | In_quotes | After_quote | After_return

text \<open>
  The cell and the row read so far are arguments; a quote opens only at the start of a cell, and the
  format has a line feed after every carriage return that ends a row.
\<close>

fun csv_read :: "csv_mode \<Rightarrow> string \<Rightarrow> string list \<Rightarrow> string \<Rightarrow> string list list" where
  "csv_read m cell row [] = (if cell = [] \<and> row = [] then [] else [row @ [cell]])"
| "csv_read In_cell cell row (c # cs) =
     (if c = comma then csv_read In_cell [] (row @ [cell]) cs
      else if c = carriage_return then (row @ [cell]) # csv_read After_return [] [] cs
      else if c = quote \<and> cell = [] then csv_read In_quotes [] row cs
      else csv_read In_cell (cell @ [c]) row cs)"
| "csv_read In_quotes cell row (c # cs) =
     (if c = quote then csv_read After_quote cell row cs else csv_read In_quotes (cell @ [c]) row cs)"
| "csv_read After_quote cell row (c # cs) =
     (if c = quote then csv_read In_quotes (cell @ [quote]) row cs
      else if c = comma then csv_read In_cell [] (row @ [cell]) cs
      else if c = carriage_return then (row @ [cell]) # csv_read After_return [] [] cs
      else csv_read In_cell (cell @ [c]) row cs)"
| "csv_read After_return cell row (c # cs) =
     csv_read In_cell (if c = line_feed then [] else [c]) [] cs"

definition read_table :: "string \<Rightarrow> string list list" where
  "read_table text = csv_read In_cell [] [] text"

lemma read_plain:
  "\<not> list_ex csv_special s \<Longrightarrow> csv_read In_cell cell row (s @ t) = csv_read In_cell (cell @ s) row t"
  by (induction s arbitrary: cell) (simp_all add: csv_special_def)

lemma read_quoted:
  "csv_read In_quotes cell row (concat (map (\<lambda>c. if c = quote then [quote, quote] else [c]) s) @ quote # t) =
     csv_read After_quote (cell @ s) row t"
  by (induction s arbitrary: cell) simp_all

lemma read_cell:
  "csv_read In_cell [] row (csv_cell s @ comma # t) = csv_read In_cell [] (row @ [s]) t"
  "csv_read In_cell [] row (csv_cell s @ carriage_return # t) = (row @ [s]) # csv_read After_return [] [] t"
  by (cases "list_ex csv_special s"; simp add: csv_cell_def read_plain read_quoted)+

lemma read_cells:
  "csv_read In_cell [] row (csv_cell x @ concat (map (\<lambda>y. comma # csv_cell y) xs) @ carriage_return # t) =
     (row @ x # xs) # csv_read After_return [] [] t"
  by (induction xs arbitrary: row x) (simp_all add: read_cell)

lemma read_row: "cells \<noteq> [] \<Longrightarrow> read_table (csv_row cells @ t) = cells # read_table t"
  using read_cells [of "[]" "hd cells" "tl cells" "line_feed # t"]
  by (cases cells) (simp_all add: read_table_def csv_row_def join_def comp_def)

lemma read_rows: "(\<forall>cells \<in> set rows. cells \<noteq> []) \<Longrightarrow> read_table (concat (map csv_row rows)) = rows"
  by (induction rows) (simp_all add: read_row, simp add: read_table_def)

lemma read_sweep_table: "read_table (sweep_table fl rows) = sweep_columns # map (sweep_cells fl) rows"
  using read_rows [of "sweep_columns # map (sweep_cells fl) rows"]
  by (simp add: sweep_table_def sweep_columns_def sweep_cells_def comp_def)


section \<open>Sweeps\<close>

lemma parse_values_those:
  "parse_values fl text =
     (case those (map (ft_parse fl) (value_texts text)) of None \<Rightarrow> Inl ValueError | Some vs \<Rightarrow> Inr vs)"
proof -
  have "efold (\<lambda>t vs. case ft_parse fl t of None \<Rightarrow> Inl ValueError | Some v \<Rightarrow> Inr (vs @ [v])) ts vs =
      (case those (map (ft_parse fl) ts) of None \<Rightarrow> Inl ValueError | Some new \<Rightarrow> Inr (vs @ new))" for ts vs
    by (induction ts arbitrary: vs) (auto split: option.splits)
  from this [of "value_texts text" "[]"] show ?thesis by (simp add: parse_values_def split: option.splits)
qed

text \<open>
  What a row has to say of the campaign of one value: every column with its cell, from the arguments
  and the trials of that campaign.
\<close>

definition campaign_record ::
  "('f, 'w) rng \<Rightarrow> 'f float_text \<Rightarrow> fault_parameter \<Rightarrow> 'f fault_config \<Rightarrow> 'f \<Rightarrow> trial_report list \<Rightarrow>
     (string \<times> string) list" where
  "campaign_record g fl p base v trials =
     (let varied = (\<lambda>q old. ft_str fl (if p = q then v else old));
          runs = (\<lambda>P. int (length (filter P trials)));
          ratio = (\<lambda>n m. ft_str fl (if m = 0 then rg_zero g else rg_truediv g n m));
          halted = runs (\<lambda>t. ts_halted_nodes t \<noteq> 0);
          running = runs (\<lambda>t. ts_halted_nodes t = 0 \<and> ts_crashed_nodes t = 0)
      in [(''parameter'', parameter_name p), (''value'', ft_str fl v),
          (''node_count'', show_int (int (fc_node_count base))), (''rounds'', show_int (fc_rounds base)),
          (''trials'', show_int (fc_trials base)), (''seed'', show_int (fc_seed base)),
          (''packet_loss'', varied Packet_loss (fc_packet_loss base)),
          (''packet_delay'', varied Packet_delay (fc_packet_delay base)),
          (''ack_corruption'', varied Ack_corruption (fc_ack_corruption base)),
          (''duplicate'', varied Duplicate (fc_duplicate base)),
          (''node_crash'', varied Node_crash (fc_node_crash base)),
          (''safety_violation_runs'', show_int (runs (\<lambda>t. ts_safety_violations t \<noteq> []))),
          (''halted_runs'', show_int halted),
          (''crashed_runs'', show_int (runs (\<lambda>t. ts_crashed_nodes t \<noteq> 0))),
          (''all_running_runs'', show_int running),
          (''halt_rate'', ratio halted (fc_trials base)), (''all_running_rate'', ratio running (fc_trials base)),
          (''avg_committed_rounds_per_node'',
             ratio (\<Sum>t\<leftarrow>trials. int (sum_list (ts_committed_counts t))) (fc_trials base * int (fc_node_count base)))])"

text \<open>The campaign of one value.\<close>

definition value_campaign ::
  "(string \<Rightarrow> string) \<Rightarrow> ('f, 'w) rng \<Rightarrow> fault_parameter \<Rightarrow> 'f fault_config \<Rightarrow> 'f \<Rightarrow> 'f campaign_report result" where
  "value_campaign sha g p base v = run_campaign sha g (set_parameter p v base)"

text \<open>A row of the table, as the code builds it from the report of a campaign.\<close>

definition report_row ::
  "('f, 'w) rng \<Rightarrow> fault_parameter \<Rightarrow> 'f fault_config \<Rightarrow> 'f \<Rightarrow> 'f campaign_report \<Rightarrow> 'f sweep_row" where
  "report_row g p base v rep =
     fault_config.extend (set_parameter p v base)
       \<lparr>sw_parameter = p, sw_value = v, sw_safety_violation_runs = cm_safety_violation_runs rep,
        sw_halted_runs = cm_halted_runs rep, sw_crashed_runs = cm_crashed_runs rep,
        sw_all_running_runs = cm_all_running_runs rep,
        sw_halt_rate = rate g (cm_halted_runs rep) (set_parameter p v base),
        sw_all_running_rate = rate g (cm_all_running_runs rep) (set_parameter p v base),
        sw_avg_committed_rounds_per_node = cm_avg_committed_rounds_per_node rep\<rparr>"

lemma sweep_step_row:
  "sweep_step sha g base p v rows = ebind (value_campaign sha g p base v) (\<lambda>rep. Inr (rows @ [report_row g p base v rep]))"
  by (simp add: sweep_step_def value_campaign_def report_row_def Let_def)

lemma campaign_is_summary:
  assumes "value_campaign sha g p base v = Inr rep"
  shows "rep = campaign_summary g (set_parameter p v base) (cm_trials rep)"
  using assms by (auto simp: value_campaign_def run_campaign_def campaign_summary_def Let_def ebind_eq_Inr_iff)

lemma varied_rates:
  "fc_packet_loss (set_parameter p v base) = (if p = Packet_loss then v else fc_packet_loss base)"
  "fc_packet_delay (set_parameter p v base) = (if p = Packet_delay then v else fc_packet_delay base)"
  "fc_ack_corruption (set_parameter p v base) = (if p = Ack_corruption then v else fc_ack_corruption base)"
  "fc_duplicate (set_parameter p v base) = (if p = Duplicate then v else fc_duplicate base)"
  "fc_node_crash (set_parameter p v base) = (if p = Node_crash then v else fc_node_crash base)"
  by (cases p; simp)+

lemma same_runs:
  "fc_node_count (set_parameter p v base) = fc_node_count base"
  "fc_rounds (set_parameter p v base) = fc_rounds base"
  "fc_trials (set_parameter p v base) = fc_trials base"
  "fc_seed (set_parameter p v base) = fc_seed base"
  by (cases p; simp)+

lemma sum_list_int: "int (sum_list xs) = (\<Sum>x\<leftarrow>xs. int x)"
  by (induction xs) simp_all

lemma campaign_record_columns: "map fst (campaign_record g fl p base v trials) = sweep_columns"
  by (simp add: campaign_record_def sweep_columns_def Let_def)

lemma campaign_record_cells:
  assumes "value_campaign sha g p base v = Inr rep"
  shows "map snd (campaign_record g fl p base v (cm_trials rep)) = sweep_cells fl (report_row g p base v rep)"
  by (subst (2) campaign_is_summary [OF assms])
    (simp add: campaign_record_def sweep_cells_def report_row_def campaign_summary_def Let_def fault_config.defs
      varied_rates same_runs rate_def sum_list_int comp_def)

lemma flagged_row:
  assumes "value_campaign sha g p base v = Inr rep"
  shows "sw_safety_violation_runs (report_row g p base v rep) \<noteq> 0 \<longleftrightarrow>
    (\<exists>t \<in> set (cm_trials rep). ts_safety_violations t \<noteq> [])"
  by (subst campaign_is_summary [OF assms])
    (auto simp: report_row_def fault_config.defs campaign_summary_def Let_def filter_empty_conv)

lemma sweep_reports:
  "list_all2 (\<lambda>v rep. value_campaign sha g p base v = Inr rep) vs reps \<Longrightarrow>
    efold (sweep_step sha g base p) vs rows = Inr (rows @ map2 (report_row g p base) vs reps)"
  by (induction arbitrary: rows rule: list_all2_induct) (simp_all add: sweep_step_row)

lemma sweep_raises:
  "list_all2 (\<lambda>v rep. value_campaign sha g p base v = Inr rep) vs reps \<Longrightarrow> value_campaign sha g p base v = Inl e \<Longrightarrow>
    efold (sweep_step sha g base p) (vs @ v # rest) rows = Inl e"
  by (induction arbitrary: rows rule: list_all2_induct) (simp_all add: sweep_step_row)


lemma campaigns_return:
  "\<forall>v \<in> set vs. never_corrupts g (set_parameter p v base) \<Longrightarrow>
    \<exists>reps. list_all2 (\<lambda>v rep. value_campaign sha g p base v = Inr rep) vs reps"
proof (induction vs)
  case (Cons v vs)
  then obtain rep reps where "value_campaign sha g p base v = Inr rep"
      "list_all2 (\<lambda>v rep. value_campaign sha g p base v = Inr rep) vs reps"
    using run_campaign_returns [of g "set_parameter p v base" sha] by (auto simp: value_campaign_def)
  then show ?case by (auto intro!: exI [of _ "rep # reps"])
qed (auto intro: exI [of _ "[]"])

lemma rows_exit_code:
  assumes reps: "list_all2 (\<lambda>v rep. value_campaign sha g p base v = Inr rep) vs reps" and "vs \<noteq> []"
  shows "sweep_exit_code (map2 (report_row g p base) vs reps) =
    Inr (if \<exists>rep \<in> set reps. \<exists>t \<in> set (cm_trials rep). ts_safety_violations t \<noteq> [] then 1 else 0)"
proof -
  let ?rows = "map2 (report_row g p base) vs reps"
  have len: "length reps = length vs" using list_all2_lengthD [OF reps] by simp
  have each: "value_campaign sha g p base v = Inr rep" if "(v, rep) \<in> set (zip vs reps)" for v rep
    using reps that by (auto simp: list_all2_iff)
  have "(\<exists>row \<in> set ?rows. sw_safety_violation_runs row \<noteq> 0) \<longleftrightarrow>
      (\<exists>x \<in> set (zip vs reps). \<exists>t \<in> set (cm_trials (snd x)). ts_safety_violations t \<noteq> [])"
    using flagged_row [OF each] by (simp add: split_beta)
  also have "\<dots> \<longleftrightarrow> (\<exists>rep \<in> set (map snd (zip vs reps)). \<exists>t \<in> set (cm_trials rep). ts_safety_violations t \<noteq> [])"
    by (simp del: map_snd_zip)
  also have "map snd (zip vs reps) = reps" using len by simp
  finally show ?thesis using assms(2) len by (auto simp: sweep_exit_code_def list_ex_iff)
qed

lemma rows_cells:
  assumes "list_all2 (\<lambda>v rep. value_campaign sha g p base v = Inr rep) vs reps"
  shows "list_all2 (\<lambda>(v, rep) row. map fst (campaign_record g fl p base v (cm_trials rep)) = sweep_columns \<and>
      map snd (campaign_record g fl p base v (cm_trials rep)) = row)
    (zip vs reps) (map (sweep_cells fl) (map2 (report_row g p base) vs reps))"
proof -
  have "value_campaign sha g p base v = Inr rep" if "(v, rep) \<in> set (zip vs reps)" for v rep
    using assms that by (auto simp: list_all2_iff)
  from campaign_record_cells [OF this] show ?thesis
    by (simp add: list_all2_map2 list_all2_same campaign_record_columns split_beta)
qed


section \<open>Properties\<close>

text \<open>
  C18. The sweep of the command line. A piece of \<open>--values\<close> that is no float raises \<open>ValueError\<close>
  whatever the campaigns would have done, and a list without values raises \<open>IndexError\<close>. Otherwise
  the campaigns are run in the order of the values and the first one that raises ends the program
  with its exception. When all return, a reader of the printed table finds the header and one row
  per value, in that order, whose cells under their columns are those of \<open>campaign_record\<close> for the
  trials of that value's campaign, whatever the text of the floats; the exit code is 0 exactly when
  no trial of any campaign was flagged, else 1. All do return when no draw falls below a corruption
  rate (\<open>never_corrupts\<close>).
\<close>

theorem sweep_main_exact:
  assumes "ca_sweep args = Some p"
  shows "case those (map (ft_parse fl) (value_texts (ca_values args))) of
      None \<Rightarrow> campaign_main sha g fl args = Inl ValueError
    | Some vs \<Rightarrow>
        (vs = [] \<longrightarrow> campaign_main sha g fl args = Inl IndexError) \<and>
        (\<forall>before v after reps e. vs = before @ v # after \<and>
           list_all2 (\<lambda>v rep. value_campaign sha g p (ca_config args) v = Inr rep) before reps \<and>
           value_campaign sha g p (ca_config args) v = Inl e \<longrightarrow>
           campaign_main sha g fl args = Inl e) \<and>
        (\<forall>reps. vs \<noteq> [] \<and> list_all2 (\<lambda>v rep. value_campaign sha g p (ca_config args) v = Inr rep) vs reps \<longrightarrow>
           (\<exists>text rows. campaign_main sha g fl args =
                Inr (Sweep_table text,
                  if \<exists>rep \<in> set reps. \<exists>t \<in> set (cm_trials rep). ts_safety_violations t \<noteq> [] then 1 else 0) \<and>
              read_table text = sweep_columns # rows \<and>
              list_all2 (\<lambda>(v, rep) row.
                  map fst (campaign_record g fl p (ca_config args) v (cm_trials rep)) = sweep_columns \<and>
                  map snd (campaign_record g fl p (ca_config args) v (cm_trials rep)) = row) (zip vs reps) rows)) \<and>
        ((\<forall>v \<in> set vs. never_corrupts g (set_parameter p v (ca_config args))) \<longrightarrow>
           (\<exists>reps. list_all2 (\<lambda>v rep. value_campaign sha g p (ca_config args) v = Inr rep) vs reps))"
proof (cases "those (map (ft_parse fl) (value_texts (ca_values args)))")
  case None
  with assms show ?thesis by (simp add: campaign_main_def sweep_main_def parse_values_those)
next
  case (Some vs)
  let ?base = "ca_config args" and ?run = "value_campaign sha g p (ca_config args)"
  have main: "campaign_main sha g fl args =
      ebind (efold (sweep_step sha g ?base p) vs [])
        (\<lambda>rows. ebind (sweep_exit_code rows) (\<lambda>code. Inr (Sweep_table (sweep_table fl rows), code)))"
    using assms Some by (simp add: campaign_main_def sweep_main_def sweep_campaigns_def parse_values_those)
  have raises: "campaign_main sha g fl args = Inl e"
    if "vs = before @ v # after" "list_all2 (\<lambda>v rep. ?run v = Inr rep) before reps" "?run v = Inl e"
    for before v after reps e
    using sweep_raises [OF that(2,3)] by (simp add: main that(1))
  have prints: "\<exists>text rows. campaign_main sha g fl args =
        Inr (Sweep_table text,
          if \<exists>rep \<in> set reps. \<exists>t \<in> set (cm_trials rep). ts_safety_violations t \<noteq> [] then 1 else 0) \<and>
      read_table text = sweep_columns # rows \<and>
      list_all2 (\<lambda>(v, rep) row. map fst (campaign_record g fl p ?base v (cm_trials rep)) = sweep_columns \<and>
        map snd (campaign_record g fl p ?base v (cm_trials rep)) = row) (zip vs reps) rows"
    if "vs \<noteq> []" and reps: "list_all2 (\<lambda>v rep. ?run v = Inr rep) vs reps" for reps
    using read_sweep_table [of fl "map2 (report_row g p ?base) vs reps"] rows_cells [OF reps, of fl]
    by (auto simp: main sweep_reports [OF reps] rows_exit_code [OF reps that(1)])
  have "vs = [] \<Longrightarrow> campaign_main sha g fl args = Inl IndexError" by (simp add: main sweep_exit_code_def)
  then show ?thesis unfolding Some using prints raises campaigns_return by (simp only: option.case) blast
qed

definition integer_text :: "int float_text" where
  "integer_text =
     \<lparr>ft_parse = (\<lambda>t. if t = ''0'' then Some 0 else if t = ''3'' then Some 3 else None), ft_str = show_int,
      ft_2f = (\<lambda>i. show_int i @ ''.00'')\<rparr>"

theorem sweep_main_exact_witness:
  "\<exists>text code rows. campaign_main (\<lambda>s. s) counting_rng integer_text
     ((campaign_defaults 0)\<lparr>ca_sweep := Some Packet_loss, ca_values := ''0,,3''\<rparr>) = Inr (Sweep_table text, code) \<and>
     read_table text = sweep_columns # rows \<and> map (\<lambda>row. (row ! 0, row ! 1, row ! 6, row ! 7)) rows =
       [(''packet_loss'', ''0'', ''0'', ''0''), (''packet_loss'', ''3'', ''3'', ''0'')]"
proof -
  let ?args = "(campaign_defaults 0)\<lparr>ca_sweep := Some Packet_loss, ca_values := ''0,,3''\<rparr>"
  have sweep: "ca_sweep ?args = Some Packet_loss" by simp
  have texts: "those (map (ft_parse integer_text) (value_texts (ca_values ?args))) = Some [0, 3]"
    by (simp add: value_texts_def integer_text_def)
  have clean: "never_corrupts counting_rng (set_parameter Packet_loss v (ca_config ?args))" for v
    by (simp add: never_corrupts_def counting_rng_def campaign_defaults_def default_fault_config_def not_less)
  note exact = sweep_main_exact [OF sweep, of "\<lambda>s. s" counting_rng integer_text, unfolded texts option.case]
  obtain reps where reps:
    "list_all2 (\<lambda>v rep. value_campaign (\<lambda>s. s) counting_rng Packet_loss (ca_config ?args) v = Inr rep) [0, 3] reps"
    using exact clean by blast
  then obtain rep0 rep3 where two: "reps = [rep0, rep3]" by (auto simp: list_all2_Cons1)
  then have "\<exists>text rows. campaign_main (\<lambda>s. s) counting_rng integer_text ?args =
        Inr (Sweep_table text,
          if \<exists>rep \<in> set reps. \<exists>t \<in> set (cm_trials rep). ts_safety_violations t \<noteq> [] then 1 else 0) \<and>
      read_table text = sweep_columns # rows \<and>
      list_all2 (\<lambda>(v, rep) row.
        map fst (campaign_record counting_rng integer_text Packet_loss (ca_config ?args) v (cm_trials rep)) = sweep_columns \<and>
        map snd (campaign_record counting_rng integer_text Packet_loss (ca_config ?args) v (cm_trials rep)) = row)
        (zip [0, 3] reps) rows"
    using exact reps by blast
  then obtain table code rows where
    out: "campaign_main (\<lambda>s. s) counting_rng integer_text ?args = Inr (Sweep_table table, code)"
      "read_table table = sweep_columns # rows" and
    rows: "list_all2 (\<lambda>(v, rep) row.
        map fst (campaign_record counting_rng integer_text Packet_loss (ca_config ?args) v (cm_trials rep)) = sweep_columns \<and>
        map snd (campaign_record counting_rng integer_text Packet_loss (ca_config ?args) v (cm_trials rep)) = row)
        (zip [0, 3] reps) rows"
    by (elim exE conjE) (rule that)
  have digits: "show_int 0 = ''0''" "show_int 3 = ''3''" by code_simp+
  have "row ! 0 = ''packet_loss'' \<and> row ! 1 = show_int v \<and> row ! 6 = show_int v \<and> row ! 7 = ''0''"
    if "map snd (campaign_record counting_rng integer_text Packet_loss (ca_config ?args) v ts) = row" for v ts row
    using that [symmetric]
    by (simp add: campaign_record_def Let_def integer_text_def campaign_defaults_def default_fault_config_def digits)
  with rows have "map (\<lambda>row. (row ! 0, row ! 1, row ! 6, row ! 7)) rows =
       [(''packet_loss'', ''0'', ''0'', ''0''), (''packet_loss'', ''3'', ''3'', ''0'')]"
    unfolding two by (auto simp: list_all2_Cons1 digits)
  with out show ?thesis by (intro exI conjI)
qed

end
