(* ===== verification/Ssr_Packet.thy ===== *)
theory Ssr_Packet
  imports Prelude "HOL-Library.Word"
begin

text \<open>
  The wire format of the FPGA prototype
  (\<open>prototype/fpga/tb/mqnic_core_pcie_us/ssr_packet.py\<close>): offsets, the 16-byte consensus header
  and the 64-byte header beat. Bytes are \<open>8 word\<close>, fields are unbounded Python integers that
  \<open>struct\<close> range-checks (\<open>struct.error\<close> is \<open>StructError\<close>).
\<close>

type_synonym byte = "8 word"


section \<open>Layout\<close>

definition ETHERTYPE :: int where "ETHERTYPE = 0x88B5"

definition OFF_DST_MAC :: nat where "OFF_DST_MAC = 0"
definition OFF_SRC_MAC :: nat where "OFF_SRC_MAC = 6"
definition OFF_ETHERTYPE :: nat where "OFF_ETHERTYPE = 12"
definition OFF_NODE_ID :: nat where "OFF_NODE_ID = 14"
definition OFF_ROW :: nat where "OFF_ROW = 15"
definition OFF_RUN_ID :: nat where "OFF_RUN_ID = 16"
definition OFF_ROUND_ID :: nat where "OFF_ROUND_ID = 20"
definition OFF_LENGTH :: nat where "OFF_LENGTH = 28"
definition OFF_RESERVED :: nat where "OFF_RESERVED = 30"
definition OFF_PAYLOAD :: nat where "OFF_PAYLOAD = 64"

definition ETH_HEADER_BYTES :: nat where "ETH_HEADER_BYTES = 14"

text \<open>The format \<open>!BBIQH\<close>: the sizes of its five unsigned big-endian fields.\<close>

definition consensus_format :: "nat list" where "consensus_format = [1, 1, 4, 8, 2]"

definition CONSENSUS_HEADER_BYTES :: nat where "CONSENSUS_HEADER_BYTES = sum_list consensus_format"
definition HEADER_USED_BYTES :: nat where "HEADER_USED_BYTES = ETH_HEADER_BYTES + CONSENSUS_HEADER_BYTES"
definition HEADER_BEAT_BYTES :: nat where "HEADER_BEAT_BYTES = 64"
definition HEADER_BYTES :: nat where "HEADER_BYTES = HEADER_BEAT_BYTES"
definition MIN_FRAME_BYTES :: nat where "MIN_FRAME_BYTES = 60"
definition SINGLE_BEAT_PAYLOAD_BYTES :: nat where "SINGLE_BEAT_PAYLOAD_BYTES = 64 - HEADER_BYTES"

lemmas layout_defs =
  OFF_DST_MAC_def OFF_SRC_MAC_def OFF_ETHERTYPE_def OFF_NODE_ID_def OFF_ROW_def OFF_RUN_ID_def
  OFF_ROUND_ID_def OFF_LENGTH_def OFF_RESERVED_def OFF_PAYLOAD_def ETH_HEADER_BYTES_def
  consensus_format_def CONSENSUS_HEADER_BYTES_def HEADER_USED_BYTES_def HEADER_BEAT_BYTES_def
  HEADER_BYTES_def MIN_FRAME_BYTES_def SINGLE_BEAT_PAYLOAD_BYTES_def

text \<open>The two assertions of the module.\<close>

definition layout_assertions :: "unit result" where
  "layout_assertions =
     ebind (assert_py (OFF_PAYLOAD = HEADER_BYTES)) (\<lambda>_. assert_py (CONSENSUS_HEADER_BYTES = 16))"


section \<open>Big-endian integers\<close>

text \<open>\<open>value.to_bytes(n, "big")\<close> for a value in range, and \<open>int.from_bytes(raw, "big")\<close>.\<close>

fun be_bytes :: "nat \<Rightarrow> int \<Rightarrow> byte list" where
  "be_bytes 0 v = []"
| "be_bytes (Suc n) v = be_bytes n (v div 256) @ [word_of_int (v mod 256)]"

definition be_int :: "byte list \<Rightarrow> int" where
  "be_int bs = fold (\<lambda>b acc. acc * 256 + uint b) bs 0"

definition fits :: "nat \<Rightarrow> int \<Rightarrow> bool" where
  "fits n v \<longleftrightarrow> 0 \<le> v \<and> v < 256 ^ n"

definition to_bytes :: "nat \<Rightarrow> int \<Rightarrow> byte list result" where
  "to_bytes n v = (if fits n v then Inr (be_bytes n v) else Inl OverflowError)"


section \<open>\<open>struct\<close>\<close>

fun struct_pack :: "nat list \<Rightarrow> int list \<Rightarrow> byte list result" where
  "struct_pack [] [] = Inr []"
| "struct_pack (n # ns) (v # vs) =
     (if fits n v then ebind (struct_pack ns vs) (\<lambda>bs. Inr (be_bytes n v @ bs)) else Inl StructError)"
| "struct_pack ns vs = Inl StructError"

fun read_fields :: "nat list \<Rightarrow> byte list \<Rightarrow> int list" where
  "read_fields [] bs = []"
| "read_fields (n # ns) bs = be_int (take n bs) # read_fields ns (drop n bs)"

definition struct_unpack :: "nat list \<Rightarrow> byte list \<Rightarrow> int list result" where
  "struct_unpack ns bs = (if length bs = sum_list ns then Inr (read_fields ns bs) else Inl StructError)"


section \<open>Frames\<close>

record header =
  hd_node_id :: int
  hd_row :: int
  hd_run_id :: int
  hd_round_id :: int

record ssr_frame = header +
  fr_dst_mac :: string
  fr_src_mac :: string
  fr_eth_type :: int
  fr_payload :: "byte list"

definition frame_length :: "ssr_frame \<Rightarrow> nat" where
  "frame_length f = length (fr_payload f)"

definition header_fields :: "'a header_scheme \<Rightarrow> int \<Rightarrow> int list" where
  "header_fields h len = [hd_node_id h, hd_row h, hd_run_id h, hd_round_id h, len]"

definition encode_consensus_header :: "'a header_scheme \<Rightarrow> int \<Rightarrow> byte list result" where
  "encode_consensus_header h len = struct_pack consensus_format (header_fields h len)"

definition encode_header_beat ::
  "byte list \<Rightarrow> byte list \<Rightarrow> 'a header_scheme \<Rightarrow> int \<Rightarrow> byte list result" where
  "encode_header_beat dst_mac src_mac h len =
     ebind (to_bytes 2 ETHERTYPE) (\<lambda>ethertype.
     ebind (encode_consensus_header h len) (\<lambda>fields.
       let beat = dst_mac @ src_mac @ ethertype @ fields in
       ebind (assert_py (length beat = HEADER_USED_BYTES)) (\<lambda>_.
         Inr (beat @ replicate (HEADER_BEAT_BYTES - HEADER_USED_BYTES) 0))))"

text \<open>The tuple \<open>(node_id, row, run_id, round_id, length)\<close>.\<close>

definition decode_consensus_header :: "byte list \<Rightarrow> (header \<times> int) result" where
  "decode_consensus_header raw =
     ebind (struct_unpack consensus_format raw) (\<lambda>vs.
       Inr (\<lparr>hd_node_id = vs ! 0, hd_row = vs ! 1, hd_run_id = vs ! 2, hd_round_id = vs ! 3\<rparr>, vs ! 4))"


section \<open>Round trips\<close>

lemma length_be_bytes [simp]: "length (be_bytes n v) = n"
  by (induction n v rule: be_bytes.induct) simp_all

lemma be_int_append [simp]: "be_int (xs @ [b]) = be_int xs * 256 + uint b"
  by (simp add: be_int_def)

lemma be_int_bytes [simp]: "fits n v \<Longrightarrow> be_int (be_bytes n v) = v"
proof (induction n v rule: be_bytes.induct)
  case (2 n v)
  have "fits n (v div 256)" using 2(2) by (auto simp: fits_def div_less_iff_less_mult mult.commute)
  with 2 show ?case by (simp add: uint_word_of_int)
qed (simp add: fits_def be_int_def)

lemma be_int_bounds: "fits (length bs) (be_int bs)"
proof (induction bs rule: rev_induct)
  case (snoc b bs)
  have b: "0 \<le> uint b" "uint b < 256" using uint_ge_0 [of b] uint_bounded [of b] by simp_all
  from snoc have "be_int bs + 1 \<le> 256 ^ length bs" "0 \<le> be_int bs" by (simp_all add: fits_def)
  then have "(be_int bs + 1) * 256 \<le> 256 ^ length bs * 256" by (intro mult_right_mono) simp_all
  with b \<open>0 \<le> be_int bs\<close> show ?case by (simp add: fits_def algebra_simps)
qed (simp add: fits_def be_int_def)

lemma struct_pack_Inr:
  assumes "length ns = length vs" "list_all2 fits ns vs"
  shows "\<exists>bs. struct_pack ns vs = Inr bs \<and> length bs = sum_list ns \<and> read_fields ns bs = vs"
  using assms(2) by (induction ns vs rule: list_all2_induct) auto

lemma struct_pack_Inl: "\<not> list_all2 fits ns vs \<Longrightarrow> struct_pack ns vs = Inl StructError"
  by (induction ns vs rule: struct_pack.induct) auto

lemma struct_pack_iff:
  "(\<exists>bs. struct_pack ns vs = Inr bs) \<longleftrightarrow> list_all2 fits ns vs"
  using struct_pack_Inl [of ns vs] struct_pack_Inr [of ns vs]
  by (cases "list_all2 fits ns vs") (auto dest: list_all2_lengthD)

lemma be_bytes_int [simp]: "be_bytes (length bs) (be_int bs) = bs"
proof (induction bs rule: rev_induct)
  case (snoc b bs)
  have b: "0 \<le> uint b" "uint b < 256" using uint_ge_0 [of b] uint_bounded [of b] by simp_all
  then have "(be_int bs * 256 + uint b) div 256 = be_int bs" "(be_int bs * 256 + uint b) mod 256 = uint b"
    by simp_all
  with snoc show ?case by simp
qed simp

lemma struct_pack_read:
  "length bs = sum_list ns \<Longrightarrow> struct_pack ns (read_fields ns bs) = Inr bs"
proof (induction ns arbitrary: bs)
  case (Cons n ns)
  then have len: "length (take n bs) = n" by simp
  from be_int_bounds [of "take n bs"] be_bytes_int [of "take n bs"] len
  have "fits n (be_int (take n bs))" "be_bytes n (be_int (take n bs)) = take n bs" by metis+
  with Cons show ?case by simp
qed simp

definition header_in_range :: "'a header_scheme \<Rightarrow> int \<Rightarrow> bool" where
  "header_in_range h len \<longleftrightarrow>
     fits 1 (hd_node_id h) \<and> fits 1 (hd_row h) \<and> fits 4 (hd_run_id h) \<and> fits 8 (hd_round_id h) \<and> fits 2 len"

lemma header_in_range_fits: "header_in_range h len \<longleftrightarrow> list_all2 fits consensus_format (header_fields h len)"
  by (simp add: header_in_range_def consensus_format_def header_fields_def)

lemma encode_consensus_header_Inr:
  assumes "header_in_range h len"
  obtains bs where "encode_consensus_header h len = Inr bs" "length bs = 16"
    "decode_consensus_header bs = Inr (header.truncate h, len)"
proof -
  from struct_pack_Inr [of consensus_format "header_fields h len"] assms obtain bs where
    bs: "struct_pack consensus_format (header_fields h len) = Inr bs" "length bs = 16"
    "read_fields consensus_format bs = header_fields h len"
    by (auto simp: header_in_range_fits consensus_format_def header_fields_def)
  then have "decode_consensus_header bs = Inr (header.truncate h, len)"
    by (simp add: decode_consensus_header_def struct_unpack_def header.truncate_def)
      (simp add: consensus_format_def header_fields_def)
  with bs that show thesis by (simp add: encode_consensus_header_def)
qed

text \<open>
  C22. The header beat: for six-byte addresses and fields in range it is one whole 64-byte beat, its
  field bytes decode to the header that was encoded, the addresses and the ethertype stand at their
  offsets and the reserved bytes are zero. For any field out of range encoding raises.
\<close>

theorem header_beat_roundtrip:
  assumes "length dst = 6" "length src = 6"
  shows "if header_in_range h len
    then \<exists>beat. encode_header_beat dst src h len = Inr beat \<and> length beat = HEADER_BEAT_BYTES \<and>
      take 6 (drop OFF_DST_MAC beat) = dst \<and> take 6 (drop OFF_SRC_MAC beat) = src \<and>
      be_int (take 2 (drop OFF_ETHERTYPE beat)) = ETHERTYPE \<and>
      decode_consensus_header (take CONSENSUS_HEADER_BYTES (drop OFF_NODE_ID beat))
        = Inr (header.truncate h, len) \<and>
      drop OFF_RESERVED beat = replicate 34 0
    else encode_header_beat dst src h len = Inl StructError"
proof (cases "header_in_range h len")
  case True
  from encode_consensus_header_Inr [OF True] obtain fields where
    f: "encode_consensus_header h len = Inr fields" "length fields = 16"
    "decode_consensus_header fields = Inr (header.truncate h, len)" by blast
  have e: "to_bytes 2 ETHERTYPE = Inr (be_bytes 2 ETHERTYPE)" "be_int (be_bytes 2 ETHERTYPE) = ETHERTYPE"
    by (simp_all add: to_bytes_def fits_def ETHERTYPE_def)
  from True assms f e show ?thesis
    by (simp add: encode_header_beat_def Let_def layout_defs)
next
  case False
  then have "encode_consensus_header h len = Inl StructError"
    by (simp add: encode_consensus_header_def struct_pack_Inl header_in_range_fits)
  with False show ?thesis
    by (simp add: encode_header_beat_def to_bytes_def fits_def ETHERTYPE_def)
qed

theorem header_beat_roundtrip_witness:
  "\<exists>beat. encode_header_beat (replicate 6 255) (replicate 6 2)
      \<lparr>hd_node_id = 3, hd_row = 127, hd_run_id = 1, hd_round_id = 2 ^ 40\<rparr> 128 = Inr beat \<and> length beat = 64"
  using header_beat_roundtrip [of "replicate 6 255" "replicate 6 2"
      "\<lparr>hd_node_id = 3, hd_row = 127, hd_run_id = 1, hd_round_id = 2 ^ 40\<rparr>" 128]
  by (auto simp: header_in_range_def fits_def HEADER_BEAT_BYTES_def)

text \<open>
  C23. Decoding accepts exactly the strings of 16 bytes, every field it returns fits its width, and
  encoding the result gives the bytes back.
\<close>

theorem decode_header_total:
  "if length raw = 16
   then \<exists>h len. decode_consensus_header raw = Inr (h, len) \<and> header_in_range h len \<and>
     encode_consensus_header h len = Inr raw
   else decode_consensus_header raw = Inl StructError"
proof (cases "length raw = 16")
  case True
  then have "length raw = sum_list consensus_format" by (simp add: consensus_format_def)
  from struct_pack_read [OF this] obtain vs where
    vs: "struct_unpack consensus_format raw = Inr vs" "struct_pack consensus_format vs = Inr raw"
    using True by (auto simp: struct_unpack_def consensus_format_def)
  have fit: "list_all2 fits consensus_format vs" using struct_pack_iff vs(2) by blast
  then obtain a b c d e where "vs = [a, b, c, d, e]"
    by (auto simp: consensus_format_def list_all2_Cons1)
  with vs fit True show ?thesis
    by (auto simp: decode_consensus_header_def encode_consensus_header_def header_in_range_fits header_fields_def)
next
  case False
  then show ?thesis by (simp add: decode_consensus_header_def struct_unpack_def consensus_format_def)
qed

end
