(* ===== verification/Effects.thy ===== *)
theory Effects
  imports Prelude
begin

text \<open>
  Operations of the hardware drivers change the state of the device and of the driver objects and
  may raise half way, keeping what they have already done: an operation maps a state to the
  exception or value and the state it leaves. The rules of this theory run such an operation
  forwards; \<open>keeps\<close> is the Hoare-style statement that an invariant survives it whether it raises
  or not.
\<close>

type_synonym ('s, 'e, 'a) act = "'s \<Rightarrow> ('e + 'a) \<times> 's"

definition aret :: "'a \<Rightarrow> ('s, 'e, 'a) act" where
  "aret x s = (Inr x, s)"

definition araise :: "'e \<Rightarrow> ('s, 'e, 'a) act" where
  "araise e s = (Inl e, s)"

definition abind :: "('s, 'e, 'a) act \<Rightarrow> ('a \<Rightarrow> ('s, 'e, 'b) act) \<Rightarrow> ('s, 'e, 'b) act" where
  "abind m f s = (case m s of (Inl e, s') \<Rightarrow> (Inl e, s') | (Inr x, s') \<Rightarrow> f x s')"

definition athen :: "('s, 'e, 'a) act \<Rightarrow> ('s, 'e, 'b) act \<Rightarrow> ('s, 'e, 'b) act" where
  "athen m k = abind m (\<lambda>_. k)"

definition aget :: "('s \<Rightarrow> 'a) \<Rightarrow> ('s, 'e, 'a) act" where
  "aget f s = (Inr (f s), s)"

definition amodify :: "('s \<Rightarrow> 's) \<Rightarrow> ('s, 'e, unit) act" where
  "amodify f s = (Inr (), f s)"

text \<open>\<open>if bad: raise e\<close>.\<close>

definition aguard :: "bool \<Rightarrow> 'e \<Rightarrow> ('s, 'e, unit) act" where
  "aguard ok e = (if ok then aret () else araise e)"

text \<open>An optional attribute that must be there.\<close>

definition aneed :: "'e \<Rightarrow> 'a option \<Rightarrow> ('s, 'e, 'a) act" where
  "aneed e v = (case v of None \<Rightarrow> araise e | Some x \<Rightarrow> aret x)"

definition alift :: "('e + 'a) \<Rightarrow> ('s, 'e, 'a) act" where
  "alift r s = (r, s)"

fun afor :: "'a list \<Rightarrow> ('a \<Rightarrow> ('s, 'e, unit) act) \<Rightarrow> ('s, 'e, unit) act" where
  "afor [] f = aret ()"
| "afor (x # xs) f = athen (f x) (afor xs f)"

text \<open>\<open>try: ... except E: handler\<close>.\<close>

definition acatch :: "('s, 'e, 'a) act \<Rightarrow> ('e \<Rightarrow> ('s, 'e, 'a) act) \<Rightarrow> ('s, 'e, 'a) act" where
  "acatch m h s = (case m s of (Inl e, s') \<Rightarrow> h e s' | (Inr x, s') \<Rightarrow> (Inr x, s'))"


section \<open>Running operations\<close>

lemma aret_run [simp]: "aret x s = (Inr x, s)" by (simp add: aret_def)
lemma araise_run [simp]: "araise e s = (Inl e, s)" by (simp add: araise_def)
lemma aget_run [simp]: "aget f s = (Inr (f s), s)" by (simp add: aget_def)
lemma amodify_run [simp]: "amodify f s = (Inr (), f s)" by (simp add: amodify_def)
lemma alift_run [simp]: "alift r s = (r, s)" by (simp add: alift_def)

lemma aguard_simps [simp]:
  "aguard True e = aret ()"
  "aguard False e = araise e"
  by (simp_all add: aguard_def)

lemma aneed_simps [simp]:
  "aneed e None = araise e"
  "aneed e (Some x) = aret x"
  by (simp_all add: aneed_def)

lemma abind_run:
  "m s = (Inr x, s') \<Longrightarrow> abind m f s = f x s'"
  "m s = (Inl e, s') \<Longrightarrow> abind m f s = (Inl e, s')"
  by (simp_all add: abind_def)

lemma athen_run:
  "m s = (Inr x, s') \<Longrightarrow> athen m k s = k s'"
  "m s = (Inl e, s') \<Longrightarrow> athen m k s = (Inl e, s')"
  by (simp_all add: athen_def abind_def)

lemma abind_simps [simp]:
  "abind (aret x) f = f x"
  "abind (araise e) f = araise e"
  "abind (aget g) f s = f (g s) s"
  "abind (amodify h) k s = k () (h s)"
  "abind (alift (Inr x)) f = f x"
  "abind (alift (Inl e)) f = araise e"
  by (simp_all add: abind_def fun_eq_iff)

lemma athen_simps [simp]:
  "athen (aret x) k = k"
  "athen (araise e) k = araise e"
  "athen (amodify h) k s = k (h s)"
  by (simp_all add: athen_def abind_def fun_eq_iff)

lemma abind_Inr_iff:
  "abind m f s = (Inr y, s') \<longleftrightarrow> (\<exists>x s1. m s = (Inr x, s1) \<and> f x s1 = (Inr y, s'))"
  by (simp add: abind_def split: prod.split sum.split)

lemma athen_Inr_iff:
  "athen m k s = (Inr y, s') \<longleftrightarrow> (\<exists>x s1. m s = (Inr x, s1) \<and> k s1 = (Inr y, s'))"
  by (simp add: athen_def abind_Inr_iff)


section \<open>Invariants\<close>

definition keeps :: "('s \<Rightarrow> bool) \<Rightarrow> ('s, 'e, 'a) act \<Rightarrow> bool" where
  "keeps I m \<longleftrightarrow> (\<forall>s. I s \<longrightarrow> I (snd (m s)))"

named_theorems keeps_intros \<open>invariant rules, one per construct\<close>

lemma keeps_aret [keeps_intros]: "keeps I (aret x)" by (simp add: keeps_def)
lemma keeps_araise [keeps_intros]: "keeps I (araise e)" by (simp add: keeps_def)
lemma keeps_aget [keeps_intros]: "keeps I (aget f)" by (simp add: keeps_def)
lemma keeps_alift [keeps_intros]: "keeps I (alift r)" by (simp add: keeps_def)

lemma keeps_aguard [keeps_intros]: "keeps I (aguard b e)"
  by (cases b) (auto intro: keeps_intros)

lemma keeps_aneed [keeps_intros]: "keeps I (aneed e v)"
  by (cases v) (auto intro: keeps_intros)

lemma keeps_amodify: "(\<And>s. I s \<Longrightarrow> I (f s)) \<Longrightarrow> keeps I (amodify f)"
  by (simp add: keeps_def)

lemma keeps_abind [keeps_intros]:
  assumes "keeps I m" "\<And>x. keeps I (f x)"
  shows "keeps I (abind m f)"
  using assms by (force simp: keeps_def abind_def split: prod.split sum.split)

lemma keeps_athen [keeps_intros]: "keeps I m \<Longrightarrow> keeps I k \<Longrightarrow> keeps I (athen m k)"
  unfolding athen_def by (rule keeps_abind)

lemma keeps_afor [keeps_intros]: "(\<And>x. x \<in> set xs \<Longrightarrow> keeps I (f x)) \<Longrightarrow> keeps I (afor xs f)"
  by (induction xs) (auto intro: keeps_intros)

lemma keeps_acatch [keeps_intros]:
  assumes "keeps I m" "\<And>e. keeps I (h e)"
  shows "keeps I (acatch m h)"
  using assms by (force simp: keeps_def acatch_def split: prod.split sum.split)

lemma keeps_if [keeps_intros]: "keeps I m \<Longrightarrow> keeps I k \<Longrightarrow> keeps I (if b then m else k)"
  by simp

lemma keeps_case_prod [keeps_intros]: "(\<And>a b. keeps I (f a b)) \<Longrightarrow> keeps I (case p of (a, b) \<Rightarrow> f a b)"
  by (cases p) simp

lemma keeps_case_option [keeps_intros]:
  "keeps I n \<Longrightarrow> (\<And>x. keeps I (f x)) \<Longrightarrow> keeps I (case v of None \<Rightarrow> n | Some x \<Rightarrow> f x)"
  by (cases v) simp_all

lemma keeps_Let [keeps_intros]: "(\<And>x. keeps I (f x)) \<Longrightarrow> keeps I (Let x f)"
  by simp

lemma keepsD: "keeps I m \<Longrightarrow> I s \<Longrightarrow> m s = (r, s') \<Longrightarrow> I s'"
  by (force simp: keeps_def)


section \<open>Pre- and postconditions\<close>

text \<open>
  An operation that starts where \<open>P\<close> holds leaves a state where \<open>Q\<close> holds, whether it raises or
  not; \<open>keeps\<close> is the case of one condition.
\<close>

definition becomes :: "('s \<Rightarrow> bool) \<Rightarrow> ('s, 'e, 'a) act \<Rightarrow> ('s \<Rightarrow> bool) \<Rightarrow> bool" where
  "becomes P m Q \<longleftrightarrow> (\<forall>s. P s \<longrightarrow> Q (snd (m s)))"

lemma becomesI: "(\<And>s. P s \<Longrightarrow> Q (snd (m s))) \<Longrightarrow> becomes P m Q"
  by (simp add: becomes_def)

lemma becomesD: "becomes P m Q \<Longrightarrow> P s \<Longrightarrow> m s = (r, s') \<Longrightarrow> Q s'"
  by (force simp: becomes_def)

lemma becomes_self: "becomes I m I \<longleftrightarrow> keeps I m"
  by (simp add: becomes_def keeps_def)

lemma becomes_weaken: "becomes P m Q \<Longrightarrow> (\<And>s. P' s \<Longrightarrow> P s) \<Longrightarrow> (\<And>s. Q s \<Longrightarrow> Q' s) \<Longrightarrow> becomes P' m Q'"
  by (simp add: becomes_def)

text \<open>A first part under \<open>P\<close>, where an exception must already give \<open>Q\<close>, or a last part under \<open>Q\<close>.\<close>

lemma becomes_athen:
  assumes "keeps P m" "becomes P k Q" "\<And>s. P s \<Longrightarrow> Q s"
  shows "becomes P (athen m k) Q"
  using assms by (force simp: becomes_def keeps_def athen_def abind_def split: prod.split sum.split)

lemma becomes_abind:
  assumes "keeps P m" "\<And>x. becomes P (f x) Q" "\<And>s. P s \<Longrightarrow> Q s"
  shows "becomes P (abind m f) Q"
  using assms by (force simp: becomes_def keeps_def abind_def split: prod.split sum.split)

lemma becomes_athen_keeps:
  assumes "becomes P m Q" "keeps Q k"
  shows "becomes P (athen m k) Q"
  using assms by (force simp: becomes_def keeps_def athen_def abind_def split: prod.split sum.split)

lemma becomes_abind_keeps:
  assumes "becomes P m Q" "\<And>x. keeps Q (f x)"
  shows "becomes P (abind m f) Q"
  using assms by (force simp: becomes_def keeps_def abind_def split: prod.split sum.split)

end
