(* ===== verification/Ssr_Harness.thy ===== *)
theory Ssr_Harness
  imports Ssr_Packet Effects
begin

text \<open>
  The test harness that feeds one hardware node with Ethernet frames
  (\<open>prototype/fpga/tb/mqnic_core_pcie_us/ssr_sim_harness.py\<close>): the frame codec, the packets it
  builds for a round and its three tasks as operations on the harness state, one step of each
  task's loop. The Ethernet layer (\<open>scapy\<close>) is a parameter: how a header is built and parsed.
  Waiting, logging and the simulator (\<open>cocotb\<close>) are not modelled; what the log reports as a
  warning is kept as a value.
\<close>

record scapy =
  ether_bytes :: "string \<Rightarrow> string \<Rightarrow> int \<Rightarrow> byte list"
  ether_parse :: "byte list \<Rightarrow> string \<times> string \<times> int"


section \<open>The codec\<close>

definition codec_encode :: "scapy \<Rightarrow> ssr_frame \<Rightarrow> byte list result" where
  "codec_encode sc f =
     (let eth_header = ether_bytes sc (fr_dst_mac f) (fr_src_mac f) (fr_eth_type f) in
      ebind (encode_consensus_header f (int (frame_length f))) (\<lambda>ssr_header.
        let frame = eth_header @ ssr_header @ fr_payload f in
        Inr (if length frame < MIN_FRAME_BYTES
             then frame @ replicate (MIN_FRAME_BYTES - length frame) 0 else frame)))"

definition codec_decode :: "scapy \<Rightarrow> byte list \<Rightarrow> ssr_frame result" where
  "codec_decode sc frame =
     (if length frame < HEADER_BYTES then Inl ValueError
      else
        let (dst, src, ty) = ether_parse sc (take ETH_HEADER_BYTES frame);
            ssr_header = take (HEADER_BYTES - ETH_HEADER_BYTES) (drop ETH_HEADER_BYTES frame)
        in ebind (decode_consensus_header ssr_header) (\<lambda>(h, len).
             Inr (header.extend h
               \<lparr>fr_dst_mac = dst, fr_src_mac = src, fr_eth_type = ty,
                fr_payload = take (nat len) (drop OFF_PAYLOAD frame)\<rparr>)))"


section \<open>The cluster configuration\<close>

record cluster_config =
  cc_num_nodes :: int
  cc_mac_addresses :: "string list"
  cc_eth_type :: int
  cc_rtl_node_id :: int

text \<open>\<open>ClusterConfig(...)\<close> with its checks.\<close>

definition make_cluster_config :: "int \<Rightarrow> string list \<Rightarrow> int \<Rightarrow> int \<Rightarrow> cluster_config result" where
  "make_cluster_config num_nodes macs eth_type rtl_node_id =
     (if num_nodes \<noteq> int (length macs) then Inl ValueError
      else if num_nodes > 7 then Inl ValueError
      else Inr \<lparr>cc_num_nodes = num_nodes, cc_mac_addresses = macs, cc_eth_type = eth_type,
                cc_rtl_node_id = rtl_node_id\<rparr>)"

definition packet_for ::
  "cluster_config \<Rightarrow> string \<Rightarrow> int \<Rightarrow> int \<Rightarrow> int \<Rightarrow> ssr_frame list \<Rightarrow> ssr_frame list result" where
  "packet_for config dst round_id run_id node_id packets =
     (if node_id = cc_rtl_node_id config then Inr packets
      else
        ebind (py_index (cc_mac_addresses config) node_id) (\<lambda>src.
          Inr (packets @
            [\<lparr>hd_node_id = node_id, hd_row = one_hot (nat (cc_num_nodes config)) - 1,
              hd_run_id = run_id, hd_round_id = round_id, fr_dst_mac = dst, fr_src_mac = src,
              fr_eth_type = cc_eth_type config,
              fr_payload = replicate SINGLE_BEAT_PAYLOAD_BYTES (word_of_int node_id)\<rparr>])))"

definition construct_packets :: "cluster_config \<Rightarrow> int \<Rightarrow> int \<Rightarrow> ssr_frame list result" where
  "construct_packets config round_id run_id =
     ebind (py_index (cc_mac_addresses config) (cc_rtl_node_id config)) (\<lambda>dst.
       efold (packet_for config dst round_id run_id) [0..cc_num_nodes config - 1] [])"


section \<open>The harness\<close>

datatype warning = Decode_failed py_error | Unexpected_ethertype int

record harness =
  hs_config :: cluster_config
  hs_running :: bool
  hs_round_batches :: "ssr_frame list list"
  hs_received_packets :: "ssr_frame list"
  hs_injected :: "byte list list"
  hs_warnings :: "warning list"

definition new_harness :: "cluster_config \<Rightarrow> harness" where
  "new_harness config =
     \<lparr>hs_config = config, hs_running = False, hs_round_batches = [], hs_received_packets = [],
      hs_injected = [], hs_warnings = []\<rparr>"

type_synonym 'a harness_act = "(harness, py_error, 'a) act"

definition harness_start :: "unit harness_act" where
  "harness_start =
     abind (aget hs_running) (\<lambda>running.
       if running then araise RuntimeError
       else amodify (\<lambda>h. h\<lparr>hs_running := True\<rparr>))"

text \<open>\<open>_round_monitor\<close> at a round pulse with the values of the two round signals.\<close>

definition on_round_pulse :: "int \<Rightarrow> int \<Rightarrow> unit harness_act" where
  "on_round_pulse round_id run_id =
     abind (aget hs_config) (\<lambda>config.
     abind (alift (construct_packets config round_id run_id)) (\<lambda>packets.
       amodify (\<lambda>h. h\<lparr>hs_round_batches := hs_round_batches h @ [packets]\<rparr>)))"

text \<open>\<open>_send_packets\<close> with the next batch: each packet is encoded and handed to the device.\<close>

definition inject :: "scapy \<Rightarrow> ssr_frame \<Rightarrow> unit harness_act" where
  "inject sc f =
     abind (alift (codec_encode sc f)) (\<lambda>frame.
       amodify (\<lambda>h. h\<lparr>hs_injected := hs_injected h @ [frame]\<rparr>))"

definition send_batch :: "scapy \<Rightarrow> unit harness_act" where
  "send_batch sc =
     abind (aget hs_round_batches) (\<lambda>batches.
       case batches of
         [] \<Rightarrow> aret ()
       | batch # rest \<Rightarrow>
           athen (amodify (\<lambda>h. h\<lparr>hs_round_batches := rest\<rparr>)) (afor batch (inject sc)))"

definition warn :: "warning \<Rightarrow> unit harness_act" where
  "warn w = amodify (\<lambda>h. h\<lparr>hs_warnings := hs_warnings h @ [w]\<rparr>)"

text \<open>\<open>_recv_packets\<close> with the next frame the device sends.\<close>

definition on_frame :: "scapy \<Rightarrow> byte list \<Rightarrow> unit harness_act" where
  "on_frame sc frame =
     (case codec_decode sc frame of
        Inl e \<Rightarrow> warn (Decode_failed e)
      | Inr f \<Rightarrow>
          abind (aget hs_config) (\<lambda>config.
          athen (if fr_eth_type f \<noteq> cc_eth_type config
                 then warn (Unexpected_ethertype (fr_eth_type f)) else aret ())
            (amodify (\<lambda>h. h\<lparr>hs_received_packets := hs_received_packets h @ [f]\<rparr>))))"

text \<open>\<open>recv\<close>: the next received frame; without one the caller waits (\<open>None\<close>).\<close>

definition harness_recv :: "ssr_frame option harness_act" where
  "harness_recv =
     abind (aget hs_received_packets) (\<lambda>q.
       case q of
         [] \<Rightarrow> aret None
       | f # rest \<Rightarrow> athen (amodify (\<lambda>h. h\<lparr>hs_received_packets := rest\<rparr>)) (aret (Some f)))"


section \<open>The packets of a round\<close>

lemma packets_fold:
  assumes "\<And>i. i \<in> set ids \<Longrightarrow> 0 \<le> i \<and> i < int (length (cc_mac_addresses config))"
  shows "efold (packet_for config dst r run_id) ids acc = Inr (acc @
    map (\<lambda>i. \<lparr>hd_node_id = i, hd_row = one_hot (nat (cc_num_nodes config)) - 1,
              hd_run_id = run_id, hd_round_id = r, fr_dst_mac = dst, fr_src_mac = cc_mac_addresses config ! nat i,
              fr_eth_type = cc_eth_type config,
              fr_payload = replicate SINGLE_BEAT_PAYLOAD_BYTES (word_of_int i)\<rparr>)
      (filter (\<lambda>i. i \<noteq> cc_rtl_node_id config) ids))"
  using assms
proof (induction ids arbitrary: acc)
  case (Cons i ids)
  then have "0 \<le> i" "i < int (length (cc_mac_addresses config))" by auto
  with Cons show ?case by (auto simp: packet_for_def py_index_def)
qed simp

text \<open>
  For a configuration that passed its checks, a round's packets are one per node other than
  the hardware node, in order, each addressed to the hardware node from that node's address, with a
  full row and the round and run id of the pulse.
\<close>

theorem construct_packets_exact:
  assumes "make_cluster_config n macs ty rtl = Inr config" and "0 \<le> rtl" and "rtl < n"
  shows "\<exists>packets. construct_packets config round_id run_id = Inr packets \<and>
    map hd_node_id packets = filter (\<lambda>i. i \<noteq> rtl) [0..n - 1] \<and>
    list_all (\<lambda>p. fr_dst_mac p = macs ! nat rtl \<and> fr_src_mac p = macs ! nat (hd_node_id p) \<and>
      hd_row p = mask (nat n) \<and> hd_round_id p = round_id \<and> hd_run_id p = run_id \<and>
      fr_eth_type p = ty \<and> fr_payload p = []) packets"
proof -
  from assms(1) have c: "config = \<lparr>cc_num_nodes = n, cc_mac_addresses = macs, cc_eth_type = ty,
      cc_rtl_node_id = rtl\<rparr>" "n = int (length macs)"
    by (auto simp: make_cluster_config_def split: if_splits)
  have row: "one_hot k - 1 = (mask k :: int)" for k by (simp add: one_hot_def mask_eq_exp_minus_1)
  have "py_index macs rtl = Inr (macs ! nat rtl)" using assms(2,3) c(2) by (simp add: py_index_def)
  with packets_fold [of "[0..n - 1]" config] c show ?thesis
    by (simp add: construct_packets_def o_def list_all_iff row SINGLE_BEAT_PAYLOAD_BYTES_def
        HEADER_BYTES_def HEADER_BEAT_BYTES_def)
qed

theorem construct_packets_exact_witness:
  "\<exists>config packets. make_cluster_config 3 [''02:00'', ''02:01'', ''02:02''] ETHERTYPE 1 = Inr config \<and>
     construct_packets config 9 2 = Inr packets \<and> map hd_node_id packets = [0, 2]"
proof -
  obtain config where "make_cluster_config 3 [''02:00'', ''02:01'', ''02:02''] ETHERTYPE 1 = Inr config"
    by (simp add: make_cluster_config_def)
  moreover have "filter (\<lambda>i. i \<noteq> 1) [0..3 - 1] = [0, 2::int]" by (simp add: upto_rec1)
  ultimately show ?thesis using construct_packets_exact [of 3 _ ETHERTYPE 1 config 9 2] by fastforce
qed


section \<open>Frames\<close>

lemma encode_layout:
  assumes "length (ether_bytes sc (fr_dst_mac f) (fr_src_mac f) (fr_eth_type f)) = ETH_HEADER_BYTES"
    and "header_in_range f (int (frame_length f))"
  shows "\<exists>frame. codec_encode sc f = Inr frame \<and> MIN_FRAME_BYTES \<le> length frame \<and>
    take ETH_HEADER_BYTES frame = ether_bytes sc (fr_dst_mac f) (fr_src_mac f) (fr_eth_type f) \<and>
    decode_consensus_header (take CONSENSUS_HEADER_BYTES (drop ETH_HEADER_BYTES frame))
      = Inr (header.truncate f, int (frame_length f)) \<and>
    take (frame_length f) (drop HEADER_USED_BYTES frame) = fr_payload f"
proof -
  from encode_consensus_header_Inr [OF assms(2)] obtain fields where
    "encode_consensus_header f (int (frame_length f)) = Inr fields" "length fields = 16"
    "decode_consensus_header fields = Inr (header.truncate f, int (frame_length f))" by blast
  with assms(1) show ?thesis
    by (simp add: codec_encode_def Let_def layout_defs frame_length_def)
qed

text \<open>
  The codec lays a frame out as the Ethernet header, the 16 header bytes and the payload right
  behind them, padded to 60 bytes: what the header decodes to and the payload are the frame's. The
  payload starts at byte 30, not at \<open>OFF_PAYLOAD\<close>, where \<open>ssr_packet\<close> puts it.
\<close>

theorem codec_encode_layout:
  assumes "length (ether_bytes sc (fr_dst_mac f) (fr_src_mac f) (fr_eth_type f)) = 14"
    and "header_in_range f (int (frame_length f))"
  shows "\<exists>frame. codec_encode sc f = Inr frame \<and> 60 \<le> length frame \<and>
    decode_consensus_header (take 16 (drop 14 frame)) = Inr (header.truncate f, int (frame_length f)) \<and>
    take (frame_length f) (drop 30 frame) = fr_payload f \<and> OFF_PAYLOAD \<noteq> 30"
  using encode_layout [of sc f] assms by (auto simp: layout_defs)

definition flat_scapy :: scapy where
  "flat_scapy = \<lparr>ether_bytes = (\<lambda>d s t. replicate 14 0), ether_parse = (\<lambda>b. ([], [], 0))\<rparr>"

definition sample_frame :: ssr_frame where
  "sample_frame = \<lparr>hd_node_id = 2, hd_row = 7, hd_run_id = 1, hd_round_id = 5, fr_dst_mac = [],
     fr_src_mac = [], fr_eth_type = ETHERTYPE, fr_payload = [1, 2, 3]\<rparr>"

theorem codec_encode_layout_witness:
  "\<exists>frame. codec_encode flat_scapy sample_frame = Inr frame \<and> 60 \<le> length frame \<and>
    take 3 (drop 30 frame) = [1, 2, 3]"
  using codec_encode_layout [of flat_scapy sample_frame]
  by (auto simp: flat_scapy_def sample_frame_def frame_length_def header_in_range_def fits_def
      numeral_3_eq_3)

text \<open>
  The codec decodes nothing: of a frame shorter than a beat it complains, from any other it
  cuts 50 bytes for a header of 16. So whatever arrives, the harness only logs a warning and no
  caller of \<open>recv\<close> ever gets a frame.
\<close>

theorem harness_receives_nothing:
  "(\<exists>e \<in> {ValueError, StructError}. codec_decode sc frame = Inl e) \<and>
   (\<exists>w. on_frame sc frame h = (Inr (), h\<lparr>hs_warnings := hs_warnings h @ [Decode_failed w]\<rparr>)) \<and>
   harness_recv ((new_harness config)\<lparr>hs_warnings := ws\<rparr>)
     = (Inr None, (new_harness config)\<lparr>hs_warnings := ws\<rparr>)"
proof -
  have "\<exists>e \<in> {ValueError, StructError}. codec_decode sc frame = Inl e"
    by (auto simp: codec_decode_def decode_consensus_header_def struct_unpack_def layout_defs Let_def
        split: prod.split)
  moreover from this have "\<exists>w. on_frame sc frame h = (Inr (), h\<lparr>hs_warnings := hs_warnings h @ [Decode_failed w]\<rparr>)"
    by (auto simp: on_frame_def warn_def)
  ultimately show ?thesis by (simp add: harness_recv_def new_harness_def)
qed

end
