(* ===== verification/Register_Blocks.thy ===== *)
theory Register_Blocks
  imports Prelude "HOL-Library.Word"
begin

text \<open>
  The list of register blocks a device advertises (\<open>RegBlockList\<close> of \<open>mqnic.py\<close>), which
  \<open>SSRDevice.probe\<close> walks to find its own: each block names the next, and the walk stops at a zero
  pointer, an unaligned one, or one that leads back. A register read is a 32-bit word and may
  change the hardware; the window the blocks are read through is a parameter.
\<close>

definition MQNIC_RB_REG_TYPE :: int where "MQNIC_RB_REG_TYPE = 0x00"
definition MQNIC_RB_REG_VER :: int where "MQNIC_RB_REG_VER = 0x04"
definition MQNIC_RB_REG_NEXT_PTR :: int where "MQNIC_RB_REG_NEXT_PTR = 0x08"

record reg_block =
  rb_offset :: int
  rb_type :: int
  rb_version :: int


section \<open>Enumeration\<close>

definition loops_back :: "reg_block list \<Rightarrow> int \<Rightarrow> bool" where
  "loops_back blocks offset \<longleftrightarrow> list_ex (\<lambda>block. rb_offset block = offset) blocks"

lemma loops_back_iff: "loops_back blocks offset \<longleftrightarrow> offset \<in> rb_offset ` set blocks"
  by (auto simp: loops_back_def list_ex_iff)

text \<open>The offsets not visited yet, and whether the current one is among them.\<close>

definition unvisited :: "int \<Rightarrow> reg_block list \<Rightarrow> nat" where
  "unvisited offset blocks =
     card ({0..<2 ^ 32} - rb_offset ` set blocks) +
     (if offset \<in> {0..<2 ^ 32} - rb_offset ` set blocks then 0 else 1)"

lemma unvisited_decreases:
  fixes w :: "32 word"
  assumes "\<not> loops_back (blocks @ [block]) (uint w)" "rb_offset block = offset"
  shows "unvisited (uint w) (blocks @ [block]) < unvisited offset blocks"
proof -
  let ?U = "{0..<2 ^ 32 :: int}" and ?V = "rb_offset ` set blocks"
  have w: "uint w \<in> ?U" using uint_ge_0 [of w] uint_bounded [of w] by simp
  then have "uint w \<in> ?U - insert offset ?V" using assms by (simp add: loops_back_iff)
  then have new: "unvisited (uint w) (blocks @ [block]) = card (?U - insert offset ?V)"
    using assms(2) by (simp add: unvisited_def)
  show ?thesis
  proof (cases "offset \<in> ?U - ?V")
    case True
    have "?U - insert offset ?V = (?U - ?V) - {offset}" by auto
    then have "card (?U - insert offset ?V) < card (?U - ?V)" using True by (metis card_Diff1_less finite_Diff finite_atLeastLessThan_int)
    with True new show ?thesis by (simp add: unvisited_def)
  next
    case False
    then have "?U - insert offset ?V = ?U - ?V" by auto
    with False new show ?thesis by (simp add: unvisited_def)
  qed
qed

function enumerate_reg_blocks ::
  "(int \<Rightarrow> 'h \<Rightarrow> 32 word \<times> 'h) \<Rightarrow> int \<Rightarrow> reg_block list \<Rightarrow> 'h \<Rightarrow> unit result \<times> reg_block list \<times> 'h" where
  "enumerate_reg_blocks rd offset blocks h =
     (let (ty, h1) = rd (offset + MQNIC_RB_REG_TYPE) h;
          (version, h2) = rd (offset + MQNIC_RB_REG_VER) h1;
          blocks1 = blocks @ [\<lparr>rb_offset = offset, rb_type = uint ty, rb_version = uint version\<rparr>];
          (next_ptr, h3) = rd (offset + MQNIC_RB_REG_NEXT_PTR) h2
      in if next_ptr = 0 then (Inr (), blocks1, h3)
         else if next_ptr AND 3 \<noteq> 0 then (Inl AssertionError, blocks1, h3)
         else if loops_back blocks1 (uint next_ptr) then (Inl AssertionError, blocks1, h3)
         else enumerate_reg_blocks rd (uint next_ptr) blocks1 h3)"
  by pat_completeness auto

termination
  by (relation "measure (\<lambda>(rd, offset, blocks, h). unvisited offset blocks)")
    (simp_all add: unvisited_decreases)

declare enumerate_reg_blocks.simps [simp del]

definition block_matches :: "int \<Rightarrow> int option \<Rightarrow> reg_block \<Rightarrow> bool" where
  "block_matches ty version block \<longleftrightarrow>
     rb_type block = ty \<and> (version = None \<or> version = Some 0 \<or> version = Some (rb_version block))"

fun find_reg_block :: "int \<Rightarrow> int option \<Rightarrow> int \<Rightarrow> reg_block list \<Rightarrow> reg_block option" where
  "find_reg_block ty version index [] = None"
| "find_reg_block ty version index (block # blocks) =
     (if block_matches ty version block then
        (if index \<le> 0 then Some block else find_reg_block ty version (index - 1) blocks)
      else find_reg_block ty version index blocks)"

lemma find_reg_block_nth:
  "find_reg_block ty version index blocks =
     (let found = filter (block_matches ty version) blocks in
      if nat index < length found then Some (found ! nat index) else None)"
proof (induction blocks arbitrary: index)
  case (Cons block blocks)
  show ?case
    by (cases "index \<le> 0") (auto simp: Cons Let_def nat_diff_distrib nth_Cons' less_diff_conv)
qed simp


text \<open>A window that holds one block, at its start.\<close>

definition one_block :: "int \<Rightarrow> int \<Rightarrow> int \<Rightarrow> 'h \<Rightarrow> 32 word \<times> 'h" where
  "one_block ty version a h =
     ((if a = MQNIC_RB_REG_TYPE then word_of_int ty
       else if a = MQNIC_RB_REG_VER then word_of_int version else 0), h)"

lemma enumerate_one_block:
  "enumerate_reg_blocks (one_block ty version) 0 [] h =
     (Inr (), [\<lparr>rb_offset = 0, rb_type = ty mod 2 ^ 32, rb_version = version mod 2 ^ 32\<rparr>], h)"
  by (subst enumerate_reg_blocks.simps)
    (simp add: one_block_def MQNIC_RB_REG_TYPE_def MQNIC_RB_REG_VER_def MQNIC_RB_REG_NEXT_PTR_def
      unsigned_of_int take_bit_eq_mod)


section \<open>What a walk visits\<close>

text \<open>The offsets of the blocks are distinct, and all but the first are non-zero, aligned words.\<close>

definition walked :: "reg_block list \<Rightarrow> bool" where
  "walked blocks \<longleftrightarrow>
     distinct (map rb_offset blocks) \<and>
     (\<forall>o1 \<in> set (tl (map rb_offset blocks)). 0 < o1 \<and> o1 < 2 ^ 32 \<and> 4 dvd o1)"

lemma aligned_word:
  fixes w :: "32 word"
  assumes "w AND 3 = 0"
  shows "4 dvd uint w"
proof -
  have "take_bit 2 w = 0" using assms by (simp add: take_bit_eq_mask mask_eq_exp_minus_1)
  then have "take_bit 2 (uint w) = 0" by (metis unsigned_0 unsigned_take_bit_eq)
  then show ?thesis by (simp add: take_bit_eq_mod dvd_eq_mod_eq_0)
qed

lemma enumerate_walked:
  assumes "enumerate_reg_blocks rd offset blocks h = (r, blocks', h')"
    and "walked (blocks @ [\<lparr>rb_offset = offset, rb_type = t, rb_version = v\<rparr>])"
  shows "walked blocks' \<and> (\<exists>new. blocks' = blocks @ new \<and> new \<noteq> []) \<and> r \<in> {Inr (), Inl AssertionError}"
  using assms
proof (induction rd offset blocks h arbitrary: t v rule: enumerate_reg_blocks.induct)
  case (1 rd offset blocks h)
  obtain ty h1 where ty: "rd (offset + MQNIC_RB_REG_TYPE) h = (ty, h1)" by fastforce
  obtain version h2 where version: "rd (offset + MQNIC_RB_REG_VER) h1 = (version, h2)" by fastforce
  obtain next_ptr h3 where next_ptr: "rd (offset + MQNIC_RB_REG_NEXT_PTR) h2 = (next_ptr, h3)" by fastforce
  define blocks1 where "blocks1 = blocks @ [\<lparr>rb_offset = offset, rb_type = uint ty, rb_version = uint version\<rparr>]"
  have walked1: "walked blocks1" using 1(3) by (cases blocks) (simp_all add: walked_def blocks1_def)
  show ?case
  proof (cases "next_ptr \<noteq> 0 \<and> next_ptr AND 3 = 0 \<and> \<not> loops_back blocks1 (uint next_ptr)")
    case True
    then have rec: "enumerate_reg_blocks rd (uint next_ptr) blocks1 h3 = (r, blocks', h')"
      using 1(2) by (subst (asm) enumerate_reg_blocks.simps) (simp add: ty version next_ptr blocks1_def)
    have "0 < uint next_ptr" using True uint_ge_0 [of next_ptr] by (simp add: less_le uint_0_iff)
    moreover have "uint next_ptr < 2 ^ 32" using uint_bounded [of next_ptr] by simp
    ultimately have "walked (blocks1 @ [\<lparr>rb_offset = uint next_ptr, rb_type = t, rb_version = v\<rparr>])"
      using True walked1 aligned_word [of next_ptr] by (cases blocks) (auto simp: walked_def loops_back_iff blocks1_def)
    then have "walked blocks' \<and> (\<exists>new. blocks' = blocks1 @ new \<and> new \<noteq> []) \<and> r \<in> {Inr (), Inl AssertionError}"
      using 1(1) [OF ty [symmetric] refl version [symmetric] refl blocks1_def next_ptr [symmetric] refl _ _ _ rec] True
      by simp
    moreover have "\<exists>new'. blocks1 @ new = blocks @ new' \<and> new' \<noteq> []" for new
      by (simp add: blocks1_def)
    ultimately show ?thesis by metis
  next
    case False
    then have "r \<in> {Inr (), Inl AssertionError} \<and> blocks' = blocks1"
      using 1(2) by (subst (asm) enumerate_reg_blocks.simps)
        (auto simp: ty version next_ptr blocks1_def Let_def split: if_splits)
    with walked1 show ?thesis by (auto simp: blocks1_def)
  qed
qed


section \<open>Windows that reads do not change\<close>

definition plain_window :: "(int \<Rightarrow> 32 word) \<Rightarrow> int \<Rightarrow> 'h \<Rightarrow> 32 word \<times> 'h" where
  "plain_window m a h = (m a, h)"

definition block_at :: "(int \<Rightarrow> 32 word) \<Rightarrow> int \<Rightarrow> reg_block" where
  "block_at m offset =
     \<lparr>rb_offset = offset, rb_type = uint (m (offset + MQNIC_RB_REG_TYPE)),
       rb_version = uint (m (offset + MQNIC_RB_REG_VER))\<rparr>"

lemma rb_offset_block_at [simp]: "rb_offset (block_at m offset) = offset"
  by (simp add: block_at_def)

lemma block_at_inj:
  assumes "map (block_at m) xs = map (block_at m) ys"
  shows "xs = ys"
  using arg_cong [OF assms, of "map rb_offset"] by (simp add: comp_def)

text \<open>A block list as a linked structure: each pointer is the next offset, the last one is zero.\<close>

fun linked :: "(int \<Rightarrow> 32 word) \<Rightarrow> int list \<Rightarrow> bool" where
  "linked m [] = False"
| "linked m [offset] = (m (offset + MQNIC_RB_REG_NEXT_PTR) = 0)"
| "linked m (offset # offset' # rest) =
     (uint (m (offset + MQNIC_RB_REG_NEXT_PTR)) = offset' \<and> linked m (offset' # rest))"

lemma enumerate_plain_window:
  "enumerate_reg_blocks (plain_window m) offset blocks h =
     (let next_ptr = m (offset + MQNIC_RB_REG_NEXT_PTR);
          blocks1 = blocks @ [block_at m offset]
      in if next_ptr = 0 then (Inr (), blocks1, h)
         else if next_ptr AND 3 \<noteq> 0 then (Inl AssertionError, blocks1, h)
         else if loops_back blocks1 (uint next_ptr) then (Inl AssertionError, blocks1, h)
         else enumerate_reg_blocks (plain_window m) (uint next_ptr) blocks1 h)"
  by (subst enumerate_reg_blocks.simps) (simp add: plain_window_def block_at_def Let_def)

lemma enumerate_linked:
  fixes h :: 'h
  assumes "enumerate_reg_blocks (plain_window m) offset blocks h = (Inr (), blocks', h')"
  shows "\<exists>rest. blocks' = blocks @ map (block_at m) (offset # rest) \<and> linked m (offset # rest)"
  using assms
proof (induction "plain_window m :: int \<Rightarrow> 'h \<Rightarrow> 32 word \<times> 'h" offset blocks h
    rule: enumerate_reg_blocks.induct)
  case (1 offset blocks h)
  let ?next = "m (offset + MQNIC_RB_REG_NEXT_PTR)"
  let ?blocks = "blocks @ [block_at m offset]"
  show ?case
  proof (cases "?next = 0")
    case True
    then have "blocks' = blocks @ map (block_at m) [offset] \<and> linked m [offset]"
      using 1(2) by (simp add: enumerate_plain_window)
    then show ?thesis by blast
  next
    case False
    then have rec: "enumerate_reg_blocks (plain_window m) (uint ?next) ?blocks h = (Inr (), blocks', h')"
      and ok: "\<not> ?next AND 3 \<noteq> 0" "\<not> loops_back ?blocks (uint ?next)"
      using 1(2) by (subst (asm) enumerate_plain_window, simp add: Let_def split: if_splits)+
    have "\<exists>rest. blocks' = ?blocks @ map (block_at m) (uint ?next # rest) \<and> linked m (uint ?next # rest)"
      by (rule 1(1) [OF _ refl _ refl _ _ refl False ok])
        (use rec in \<open>simp_all add: plain_window_def block_at_def\<close>)
    then obtain rest where "blocks' = ?blocks @ map (block_at m) (uint ?next # rest)"
      and "linked m (uint ?next # rest)" by blast
    then have "blocks' = blocks @ map (block_at m) (offset # uint ?next # rest)
        \<and> linked m (offset # uint ?next # rest)" by simp
    then show ?thesis by blast
  qed
qed

lemma word_aligned:
  fixes w :: "32 word"
  assumes "4 dvd uint w"
  shows "w AND 3 = 0"
proof -
  have "uint (take_bit 2 w) = take_bit 2 (uint w)" by (rule unsigned_take_bit_eq)
  also have "\<dots> = 0" using assms by (simp add: take_bit_eq_mod dvd_eq_mod_eq_0)
  finally have "uint (take_bit 2 w) = 0" .
  then have "take_bit 2 w = 0" by (simp only: uint_0_iff)
  then show ?thesis by (simp add: take_bit_eq_mask mask_eq_exp_minus_1)
qed

lemma linked_enumerate:
  assumes "linked m (offset # rest)" and "walked (map (block_at m) (pre @ offset # rest))"
  shows "enumerate_reg_blocks (plain_window m) offset (map (block_at m) pre) h =
    (Inr (), map (block_at m) (pre @ offset # rest), h)"
  using assms
proof (induction rest arbitrary: offset pre)
  case (Cons offset' rest)
  let ?next = "m (offset + MQNIC_RB_REG_NEXT_PTR)"
  have ptr: "uint ?next = offset'" and link: "linked m (offset' # rest)" using Cons.prems(1) by simp_all
  have "offset' \<in> set (tl (pre @ offset # offset' # rest))" by (cases pre) auto
  then have "0 < offset' \<and> 4 dvd offset'" and "offset' \<notin> set (pre @ [offset])"
    using Cons.prems(2) by (auto simp: walked_def comp_def)
  then have "?next \<noteq> 0" "?next AND 3 = 0" "\<not> loops_back (map (block_at m) (pre @ [offset])) (uint ?next)"
    using ptr word_aligned [of ?next] by (auto simp: loops_back_iff image_comp comp_def)
  then have "enumerate_reg_blocks (plain_window m) offset (map (block_at m) pre) h =
      enumerate_reg_blocks (plain_window m) offset' (map (block_at m) (pre @ [offset])) h"
    using ptr by (subst enumerate_plain_window) simp
  also have "\<dots> = (Inr (), map (block_at m) ((pre @ [offset]) @ offset' # rest), h)"
    by (rule Cons.IH [OF link]) (use Cons.prems(2) in simp)
  finally show ?case by simp
qed (subst enumerate_plain_window, simp)

text \<open>
  C28. On a window that reads do not change, the enumeration returns exactly the blocks of the
  linked list that starts at offset zero, in order, and it returns them only when the offsets are
  distinct, aligned 32-bit words; any other window (a loop, an unaligned pointer) is refused.
\<close>

theorem register_blocks_enumerated:
  "enumerate_reg_blocks (plain_window m) 0 [] h = (Inr (), map (block_at m) os, h) \<longleftrightarrow>
     linked m os \<and> hd os = 0 \<and> distinct os \<and> list_all (\<lambda>o1. 0 < o1 \<and> o1 < 2 ^ 32 \<and> 4 dvd o1) (tl os)"
    (is "?run \<longleftrightarrow> ?list")
proof
  assume ?run
  then obtain rest where rest: "map (block_at m) os = map (block_at m) (0 # rest)" "linked m (0 # rest)"
    using enumerate_linked [of m 0 "[]" h "map (block_at m) os" h] by auto
  have os: "os = 0 # rest" using rest(1) by (rule block_at_inj)
  have "walked (map (block_at m) os)"
    using enumerate_walked [OF \<open>?run\<close>, of 0 0] by (simp add: walked_def)
  then show ?list using os rest(2) by (simp add: walked_def comp_def list_all_iff)
next
  assume ?list
  then obtain rest where os: "os = 0 # rest" by (cases os) auto
  show ?run
    using linked_enumerate [of m 0 rest "[]" h] \<open>?list\<close> by (simp add: os walked_def comp_def list_all_iff)
qed

end
