(* ===== verification/Ssr_Proposal.thy ===== *)
theory Ssr_Proposal
  imports Ssr_Packet Effects Register_Blocks
begin

text \<open>
  The driver of the FPGA data plane (\<open>prototype/fpga/tb/mqnic_core_pcie_us/ssr_dataplane.py\<close>),
  first part: the register map, register polling and the proposal queue. The bus the driver talks
  to (\<open>mqnic\<close>, \<open>cocotb\<close>) is a parameter: what a register read returns and does, what a write does,
  how a DMA region is allocated, stored to and loaded from, and how simulated time passes. An
  operation runs on a pair of the hardware and the driver object's own fields.
\<close>


section \<open>The register map\<close>

definition SSR_RB_TYPE :: int where "SSR_RB_TYPE = 0x53535201"
definition SSR_RB_VERSION :: int where "SSR_RB_VERSION = 0x00000100"

definition RBB_COMMON :: int where "RBB_COMMON = 0x0000"
definition RBB_PROPOSAL_QUEUE :: int where "RBB_PROPOSAL_QUEUE = 0x1000"
definition RBB_COMMIT_QUEUE :: int where "RBB_COMMIT_QUEUE = 0x2000"
definition RBB_CONSENSUS_CORE :: int where "RBB_CONSENSUS_CORE = 0x3000"

definition COMMON_REG_CONFIG_REPLICA_ID :: int where "COMMON_REG_CONFIG_REPLICA_ID = RBB_COMMON + 0x020"
definition COMMON_REG_CONFIG_REPLICA_NUM :: int where "COMMON_REG_CONFIG_REPLICA_NUM = RBB_COMMON + 0x024"
definition COMMON_REG_CONFIG_ROUND_LEN_NS :: int where "COMMON_REG_CONFIG_ROUND_LEN_NS = RBB_COMMON + 0x028"
definition COMMON_REG_CONFIG_ETH_TYPE :: int where "COMMON_REG_CONFIG_ETH_TYPE = RBB_COMMON + 0x02C"
definition COMMON_REG_CONFIG_MACTABLE_ADDR_LO :: int where "COMMON_REG_CONFIG_MACTABLE_ADDR_LO = RBB_COMMON + 0x100"
definition COMMON_REG_CONFIG_MACTABLE_ADDR_HI :: int where "COMMON_REG_CONFIG_MACTABLE_ADDR_HI = RBB_COMMON + 0x104"
definition COMMON_MAC_ENTRY_STRIDE :: int where "COMMON_MAC_ENTRY_STRIDE = 8"
definition COMMON_MAX_REPLICAS :: int where "COMMON_MAX_REPLICAS = 7"

definition PROPOSAL_MAGIC :: int where "PROPOSAL_MAGIC = 0x70726F71"
definition PROPOSAL_VERSION :: int where "PROPOSAL_VERSION = 0x00000100"

definition REG_PROPOSAL_MAGIC :: int where "REG_PROPOSAL_MAGIC = RBB_PROPOSAL_QUEUE + 0x000"
definition REG_PROPOSAL_VERSION :: int where "REG_PROPOSAL_VERSION = RBB_PROPOSAL_QUEUE + 0x004"
definition REG_PROPOSAL_SLOT_BYTES :: int where "REG_PROPOSAL_SLOT_BYTES = RBB_PROPOSAL_QUEUE + 0x00C"
definition REG_PROPOSAL_STATUS :: int where "REG_PROPOSAL_STATUS = RBB_PROPOSAL_QUEUE + 0x014"
definition REG_PROPOSAL_ENTRY_COUNTER_LO :: int where "REG_PROPOSAL_ENTRY_COUNTER_LO = RBB_PROPOSAL_QUEUE + 0x018"
definition REG_PROPOSAL_ENTRY_COUNTER_HI :: int where "REG_PROPOSAL_ENTRY_COUNTER_HI = RBB_PROPOSAL_QUEUE + 0x01C"
definition REG_PROPOSAL_DMA_ADDR_LO :: int where "REG_PROPOSAL_DMA_ADDR_LO = RBB_PROPOSAL_QUEUE + 0x100"
definition REG_PROPOSAL_DMA_ADDR_HI :: int where "REG_PROPOSAL_DMA_ADDR_HI = RBB_PROPOSAL_QUEUE + 0x104"
definition REG_PROPOSAL_DMA_STRIDE_LO :: int where "REG_PROPOSAL_DMA_STRIDE_LO = RBB_PROPOSAL_QUEUE + 0x10C"
definition REG_PROPOSAL_DMA_STRIDE_HI :: int where "REG_PROPOSAL_DMA_STRIDE_HI = RBB_PROPOSAL_QUEUE + 0x110"
definition REG_PROPOSAL_DMA_COUNT :: int where "REG_PROPOSAL_DMA_COUNT = RBB_PROPOSAL_QUEUE + 0x114"
definition REG_PROPOSAL_DMA_CONTROL :: int where "REG_PROPOSAL_DMA_CONTROL = RBB_PROPOSAL_QUEUE + 0x118"
definition REG_PROPOSAL_DMA_ACTIVE_INDEX :: int where "REG_PROPOSAL_DMA_ACTIVE_INDEX = RBB_PROPOSAL_QUEUE + 0x120"
definition REG_PROPOSAL_DMA_STATE :: int where "REG_PROPOSAL_DMA_STATE = RBB_PROPOSAL_QUEUE + 0x124"
definition REG_PROPOSAL_DMA_STATUS_TAG :: int where "REG_PROPOSAL_DMA_STATUS_TAG = RBB_PROPOSAL_QUEUE + 0x128"
definition REG_PROPOSAL_DMA_STATUS_ERROR :: int where "REG_PROPOSAL_DMA_STATUS_ERROR = RBB_PROPOSAL_QUEUE + 0x12C"
definition REG_PROPOSAL_DMA_STATUS_VALID :: int where "REG_PROPOSAL_DMA_STATUS_VALID = RBB_PROPOSAL_QUEUE + 0x130"

text \<open>Bits of the control and status registers.\<close>

definition PROPOSAL_START :: int where "PROPOSAL_START = 1"
definition PROPOSAL_CLEAR :: int where "PROPOSAL_CLEAR = 2 OR 4"
definition PROPOSAL_RUNNING :: int where "PROPOSAL_RUNNING = 1"
definition PROPOSAL_DONE :: int where "PROPOSAL_DONE = 2"
definition PROPOSAL_ERROR :: int where "PROPOSAL_ERROR = 4"


section \<open>The bus and its errors\<close>

record ('h, 'r) bus =
  bus_read :: "int \<Rightarrow> 'h \<Rightarrow> int \<times> 'h"
  bus_write :: "int \<Rightarrow> int \<Rightarrow> 'h \<Rightarrow> 'h"
  bus_has_pool :: bool
  bus_alloc :: "int \<Rightarrow> 'h \<Rightarrow> 'r option \<times> 'h"
  bus_address :: "'r \<Rightarrow> int"
  bus_store :: "'r \<Rightarrow> int \<Rightarrow> byte list \<Rightarrow> 'h \<Rightarrow> 'h"
  bus_load :: "'r \<Rightarrow> int \<Rightarrow> int \<Rightarrow> 'h \<Rightarrow> byte list"
  bus_timer :: "nat \<Rightarrow> 'h \<Rightarrow> 'h"
  bus_now :: "'h \<Rightarrow> int"
  bus_app_read :: "int \<Rightarrow> 'h \<Rightarrow> 32 word \<times> 'h"

datatype drv_error = SSRStateError | SSRTimeoutError | SSRHardwareError | Py py_error

type_synonym ('h, 's, 'a) drv = "('h \<times> 's, drv_error, 'a) act"

definition read_dword :: "('h, 'r) bus \<Rightarrow> int \<Rightarrow> ('h, 's, int) drv" where
  "read_dword b a st = (case st of (h, s) \<Rightarrow> (case bus_read b a h of (v, h') \<Rightarrow> (Inr v, (h', s))))"

definition write_dword :: "('h, 'r) bus \<Rightarrow> int \<Rightarrow> int \<Rightarrow> ('h, 's, unit) drv" where
  "write_dword b a v = amodify (\<lambda>(h, s). (bus_write b a v h, s))"

definition wait_ns :: "('h, 'r) bus \<Rightarrow> nat \<Rightarrow> ('h, 's, unit) drv" where
  "wait_ns b k = amodify (\<lambda>(h, s). (bus_timer b k h, s))"

definition store_bytes :: "('h, 'r) bus \<Rightarrow> 'r \<Rightarrow> int \<Rightarrow> byte list \<Rightarrow> ('h, 's, unit) drv" where
  "store_bytes b region offset bs = amodify (\<lambda>(h, s). (bus_store b region offset bs h, s))"

definition set_own :: "('s \<Rightarrow> 's) \<Rightarrow> ('h, 's, unit) drv" where
  "set_own f = amodify (\<lambda>(h, s). (h, f s))"

definition own :: "('s \<Rightarrow> 'a) \<Rightarrow> ('h, 's, 'a) drv" where
  "own f = aget (\<lambda>(h, s). f s)"


section \<open>Helpers\<close>

definition validate_u32 :: "int \<Rightarrow> ('h, 's, unit) drv" where
  "validate_u32 v = aguard (0 \<le> v \<and> v \<le> 0xFFFFFFFF) (Py ValueError)"

definition validate_u64 :: "int \<Rightarrow> ('h, 's, unit) drv" where
  "validate_u64 v = aguard (0 \<le> v \<and> v \<le> 0xFFFFFFFFFFFFFFFF) (Py ValueError)"

fun poll_register :: "('h, 'r) bus \<Rightarrow> ('h, 's, int) drv \<Rightarrow> (int \<Rightarrow> bool) \<Rightarrow> nat \<Rightarrow> ('h, 's, int) drv" where
  "poll_register b rd ok 0 = araise SSRTimeoutError"
| "poll_register b rd ok (Suc n) =
     abind rd (\<lambda>v. if ok v then aret v else athen (wait_ns b 100) (poll_register b rd ok n))"

definition lo32 :: "int \<Rightarrow> int" where "lo32 v = v AND 0xFFFFFFFF"
definition hi32 :: "int \<Rightarrow> int" where "hi32 v = drop_bit 32 v AND 0xFFFFFFFF"

text \<open>\<open>alloc_dma_region\<close> of the device, which both queues call.\<close>

definition alloc_dma_region :: "('h, 'r) bus \<Rightarrow> int \<Rightarrow> ('h, 's, 'r) drv" where
  "alloc_dma_region b len =
     athen (aguard (bus_has_pool b) (Py RuntimeError))
       (\<lambda>(h, s). case bus_alloc b len h of
          (None, h') \<Rightarrow> (Inl (Py RuntimeError), (h', s))
        | (Some region, h') \<Rightarrow> (Inr region, (bus_store b region 0 (replicate (nat len) 0) h', s)))"


section \<open>The proposal queue\<close>

datatype proposal_hw_state = IDLE | ISSUE_DMA | WAIT_DMA | COMMIT_SLOT | DONE_STATE

definition proposal_hw_state_of :: "int \<Rightarrow> proposal_hw_state option" where
  "proposal_hw_state_of raw =
     (if raw = 0 then Some IDLE else if raw = 1 then Some ISSUE_DMA else if raw = 2 then Some WAIT_DMA
      else if raw = 3 then Some COMMIT_SLOT else if raw = 4 then Some DONE_STATE else None)"

record proposal_batch_result =
  pb_requested_count :: nat
  pb_completed_count :: int
  pb_entry_counter_before :: int
  pb_entry_counter_after :: int
  pb_last_dma_status_valid :: bool

record 'r proposal_queue =
  pq_opened :: bool
  pq_slot_len :: "int option"
  pq_region :: "'r option"
  pq_region_slots :: int

definition new_proposal_queue :: "'r proposal_queue" where
  "new_proposal_queue = \<lparr>pq_opened = False, pq_slot_len = None, pq_region = None, pq_region_slots = 0\<rparr>"

type_synonym ('h, 'r, 'a) pq_act = "('h, 'r proposal_queue, 'a) drv"

definition pq_require_open :: "('h, 'r, unit) pq_act" where
  "pq_require_open = abind (own pq_opened) (\<lambda>o1. aguard o1 SSRStateError)"

text \<open>\<open>self._slot_len\<close>, an attribute that exists once the queue has been opened.\<close>

definition the_slot_len :: "('h, 'r, int) pq_act" where
  "the_slot_len = abind (own pq_slot_len) (aneed (Py AttributeError))"

definition slot_len :: "('h, 'r, int) pq_act" where
  "slot_len = athen pq_require_open the_slot_len"

definition capacity_slots :: "('h, 'r, int) pq_act" where
  "capacity_slots =
     athen pq_require_open (abind (own pq_region) (\<lambda>r.
       athen (aguard (r \<noteq> None) (Py AssertionError)) (own pq_region_slots)))"

definition read_slot_length :: "('h, 'r) bus \<Rightarrow> ('h, 'r, int) pq_act" where
  "read_slot_length b = read_dword b REG_PROPOSAL_SLOT_BYTES"

definition pq_read_status :: "('h, 'r) bus \<Rightarrow> ('h, 'r, int) pq_act" where
  "pq_read_status b = abind (read_dword b REG_PROPOSAL_STATUS) (\<lambda>v. aret (v AND 7))"

definition read_hw_state :: "('h, 'r) bus \<Rightarrow> ('h, 'r, proposal_hw_state) pq_act" where
  "read_hw_state b =
     abind (read_dword b REG_PROPOSAL_DMA_STATE) (\<lambda>v.
       aneed (Py RuntimeError) (proposal_hw_state_of (v AND 7)))"

definition read_active_index :: "('h, 'r) bus \<Rightarrow> ('h, 'r, int) pq_act" where
  "read_active_index b = read_dword b REG_PROPOSAL_DMA_ACTIVE_INDEX"

definition read_entry_counter :: "('h, 'r) bus \<Rightarrow> ('h, 'r, int) pq_act" where
  "read_entry_counter b =
     abind (read_dword b REG_PROPOSAL_ENTRY_COUNTER_LO) (\<lambda>lo.
     abind (read_dword b REG_PROPOSAL_ENTRY_COUNTER_HI) (\<lambda>hi.
       aret (push_bit 32 hi OR lo)))"

definition read_dma_status :: "('h, 'r) bus \<Rightarrow> ('h, 'r, int \<times> int \<times> bool) pq_act" where
  "read_dma_status b =
     abind (read_dword b REG_PROPOSAL_DMA_STATUS_TAG) (\<lambda>tag.
     abind (read_dword b REG_PROPOSAL_DMA_STATUS_ERROR) (\<lambda>err.
     abind (read_dword b REG_PROPOSAL_DMA_STATUS_VALID) (\<lambda>valid.
       aret (tag, err, valid \<noteq> 0))))"

text \<open>\<open>_diagnose\<close>: the values its message shows, and whether it adds a hint.\<close>

record proposal_diagnosis =
  pd_state :: proposal_hw_state
  pd_status :: int
  pd_active_index :: int
  pd_dma_status :: "int \<times> int \<times> bool"
  pd_hint :: bool

definition pq_diagnose :: "('h, 'r) bus \<Rightarrow> ('h, 'r, proposal_diagnosis) pq_act" where
  "pq_diagnose b =
     abind (read_hw_state b) (\<lambda>state.
     abind (pq_read_status b) (\<lambda>status.
     abind (read_active_index b) (\<lambda>idx.
     abind (read_dma_status b) (\<lambda>dma.
       aret \<lparr>pd_state = state, pd_status = status, pd_active_index = idx, pd_dma_status = dma,
             pd_hint = (state \<in> {ISSUE_DMA, WAIT_DMA, COMMIT_SLOT})\<rparr>))))"

definition clear_flags :: "('h, 'r) bus \<Rightarrow> ('h, 'r, unit) pq_act" where
  "clear_flags b = write_dword b REG_PROPOSAL_DMA_CONTROL PROPOSAL_CLEAR"

definition pq_open :: "('h, 'r) bus \<Rightarrow> int \<Rightarrow> ('h, 'r, unit) pq_act" where
  "pq_open b capacity =
     abind (own pq_opened) (\<lambda>o1.
     athen (aguard (\<not> o1) (Py RuntimeError)) (
     athen (aguard (capacity > 0) (Py ValueError)) (
     abind (read_dword b REG_PROPOSAL_MAGIC) (\<lambda>magic.
     abind (read_dword b REG_PROPOSAL_VERSION) (\<lambda>version.
     athen (aguard (magic = PROPOSAL_MAGIC \<and> version = PROPOSAL_VERSION) (Py RuntimeError)) (
     abind (read_slot_length b) (\<lambda>len.
     athen (set_own (\<lambda>q. q\<lparr>pq_slot_len := Some len\<rparr>)) (
     athen (aguard (len > 0) (Py RuntimeError)) (
     athen (set_own (\<lambda>q. q\<lparr>pq_region_slots := capacity\<rparr>)) (
     abind (alloc_dma_region b (len * capacity)) (\<lambda>region.
     athen (set_own (\<lambda>q. q\<lparr>pq_region := Some region\<rparr>)) (
     athen (clear_flags b)
       (set_own (\<lambda>q. q\<lparr>pq_opened := True\<rparr>))))))))))))))"

definition pq_close :: "('h, 'r, unit) pq_act" where
  "pq_close =
     athen pq_require_open (set_own (\<lambda>q. q\<lparr>pq_opened := False, pq_region := None, pq_region_slots := 0\<rparr>))"

definition pq_on_parent_reset :: "('h, 'r, unit) pq_act" where
  "pq_on_parent_reset = set_own (\<lambda>q. q\<lparr>pq_opened := False, pq_region := None, pq_region_slots := 0\<rparr>)"

definition pq_submit :: "('h, 'r) bus \<Rightarrow> int \<Rightarrow> int \<Rightarrow> int \<Rightarrow> ('h, 'r, unit) pq_act" where
  "pq_submit b dma_addr count stride =
     athen pq_require_open (
     athen (validate_u64 dma_addr) (
     athen (validate_u32 count) (
     athen (validate_u64 stride) (
     athen (aguard (count \<noteq> 0) (Py ValueError)) (
     abind the_slot_len (\<lambda>len.
     athen (aguard (stride = len) (Py ValueError)) (
     abind (pq_read_status b) (\<lambda>status.
     athen (aguard (status AND PROPOSAL_RUNNING = 0) SSRStateError) (
     athen (write_dword b REG_PROPOSAL_DMA_ADDR_LO (lo32 dma_addr)) (
     athen (write_dword b REG_PROPOSAL_DMA_ADDR_HI (hi32 dma_addr)) (
     athen (write_dword b REG_PROPOSAL_DMA_STRIDE_LO (lo32 stride)) (
     athen (write_dword b REG_PROPOSAL_DMA_STRIDE_HI (hi32 stride)) (
     athen (write_dword b REG_PROPOSAL_DMA_COUNT count)
       (write_dword b REG_PROPOSAL_DMA_CONTROL PROPOSAL_START))))))))))))))"

definition wait_done :: "('h, 'r) bus \<Rightarrow> nat \<Rightarrow> ('h, 'r, int) pq_act" where
  "wait_done b timeout_polls =
     athen pq_require_open (
     abind (poll_register b (read_dword b REG_PROPOSAL_STATUS) (\<lambda>x. x AND PROPOSAL_DONE \<noteq> 0) timeout_polls)
       (\<lambda>raw. athen (aguard (raw AND 7 AND PROPOSAL_ERROR = 0) SSRHardwareError) (aret (raw AND 7))))"

text \<open>The loop of \<open>propose\<close>: each record is checked and stored before the next is looked at.\<close>

definition store_record :: "('h, 'r) bus \<Rightarrow> 'r option \<Rightarrow> int \<Rightarrow> nat \<times> byte list \<Rightarrow> ('h, 'r, unit) pq_act" where
  "store_record b region len ir =
     (case ir of (i, rec1) \<Rightarrow>
       athen (aguard (int (length rec1) = len) (Py ValueError)) (
       abind (aneed (Py TypeError) region) (\<lambda>r. store_bytes b r (int i * len) rec1)))"

definition pq_propose ::
  "('h, 'r) bus \<Rightarrow> byte list list \<Rightarrow> bool \<Rightarrow> nat \<Rightarrow> ('h, 'r, proposal_batch_result option) pq_act" where
  "pq_propose b records wait timeout_polls =
     athen pq_require_open (
     athen (aguard (records \<noteq> []) (Py ValueError)) (
     abind (own pq_region_slots) (\<lambda>slots.
     athen (aguard (int (length records) \<le> slots) (Py ValueError)) (
     abind the_slot_len (\<lambda>len.
     abind (own pq_region) (\<lambda>region.
     athen (afor (zip [0..<length records] records) (store_record b region len)) (
     abind (read_entry_counter b) (\<lambda>entry_before.
     abind (aneed (Py AttributeError) region) (\<lambda>r.
     athen (pq_submit b (bus_address b r) (int (length records) div len) len) (
       if \<not> wait then aret None
       else
         athen (abind (wait_done b timeout_polls) (\<lambda>_. aret ())) (
         abind (read_entry_counter b) (\<lambda>entry_after.
         abind (read_active_index b) (\<lambda>_.
         abind (read_dma_status b) (\<lambda>(_, _, dma_valid).
         athen (aguard (entry_after - entry_before = int (length records)) SSRHardwareError)
           (aret (Some \<lparr>pb_requested_count = length records,
                        pb_completed_count = entry_after - entry_before,
                        pb_entry_counter_before = entry_before,
                        pb_entry_counter_after = entry_after,
                        pb_last_dma_status_valid = dma_valid\<rparr>))))))))))))))))"


section \<open>Running driver operations\<close>

lemma drv_run [simp]:
  "own f (h, s) = (Inr (f s), (h, s))"
  "set_own g (h, s) = (Inr (), (h, g s))"
  "write_dword b a v (h, s) = (Inr (), (bus_write b a v h, s))"
  "wait_ns b k (h, s) = (Inr (), (bus_timer b k h, s))"
  "store_bytes b r off bs (h, s) = (Inr (), (bus_store b r off bs h, s))"
  "read_dword b a (h, s) = (Inr (fst (bus_read b a h)), (snd (bus_read b a h), s))"
  by (simp_all add: own_def set_own_def write_dword_def wait_ns_def store_bytes_def read_dword_def
      split: prod.split)

lemma drv_bind [simp]:
  "abind (own f) k (h, s) = k (f s) (h, s)"
  "athen (set_own g) m (h, s) = m (h, g s)"
  "athen (write_dword b a v) m (h, s) = m (bus_write b a v h, s)"
  "athen (wait_ns b n) m (h, s) = m (bus_timer b n h, s)"
  "athen (store_bytes b r off bs) m (h, s) = m (bus_store b r off bs h, s)"
  "abind (read_dword b a) k' (h, s) = k' (fst (bus_read b a h)) (snd (bus_read b a h), s)"
  by (simp_all add: abind_def athen_def)

lemma abind_abind: "abind (abind m f) g = abind m (\<lambda>x. abind (f x) g)"
  by (simp add: abind_def fun_eq_iff split: prod.split sum.split)

lemma athen_abind: "athen (abind m f) k = abind m (\<lambda>x. athen (f x) k)"
  by (simp add: athen_def abind_abind)

lemma abind_athen: "abind (athen m k) f = athen m (abind k f)"
  by (simp add: athen_def abind_abind)

lemma athen_athen: "athen (athen m k) l = athen m (athen k l)"
  by (simp add: athen_def abind_abind)

lemmas act_assoc = abind_abind athen_abind abind_athen athen_athen

lemma athen_aguard: "athen (aguard p e) m s = (if p then m s else (Inl e, s))"
  by (cases p) simp_all

lemma keeps_drv [keeps_intros]:
  "keeps (\<lambda>(h, s). I s) (own f)"
  "keeps (\<lambda>(h, s). I s) (write_dword b a v)"
  "keeps (\<lambda>(h, s). I s) (wait_ns b n)"
  "keeps (\<lambda>(h, s). I s) (store_bytes b r off bs)"
  "keeps (\<lambda>(h, s). I s) (read_dword b a)"
  "keeps (\<lambda>(h, s). I s) (validate_u32 v)"
  "keeps (\<lambda>(h, s). I s) (validate_u64 v)"
  by (auto simp: keeps_def validate_u32_def validate_u64_def aguard_def)

lemma keeps_alloc [keeps_intros]: "keeps (\<lambda>(h, s). I s) (alloc_dma_region b n)"
  unfolding alloc_dma_region_def
  by (auto simp: keeps_def athen_aguard split: prod.split option.split)

lemma keeps_poll [keeps_intros]:
  "keeps I rd \<Longrightarrow> (\<And>k. keeps I (wait_ns b k)) \<Longrightarrow> keeps I (poll_register b rd ok n)"
  by (induction n) (auto intro!: keeps_intros)

lemma poll_register_result:
  "poll_register b rd ok n s = (Inr v, s') \<Longrightarrow> ok v"
proof (induction n arbitrary: s)
  case (Suc n)
  obtain h t where s: "s = (h, t)" by fastforce
  from Suc.prems obtain w h1 t1 where "rd s = (Inr w, (h1, t1))"
    "(if ok w then aret w else athen (wait_ns b 100) (poll_register b rd ok n)) (h1, t1) = (Inr v, s')"
    by (fastforce simp: abind_Inr_iff)
  with Suc.IH show ?case by (auto split: if_splits)
qed simp

lemma split_words:
  assumes "0 \<le> v" "v \<le> 0xFFFFFFFFFFFFFFFF"
  shows "push_bit 32 (hi32 v) OR lo32 v = v" "0 \<le> lo32 v" "lo32 v < 2 ^ 32" "0 \<le> hi32 v" "hi32 v < 2 ^ 32"
proof -
  have m: "0xFFFFFFFF = (mask 32 :: int)" by (simp add: mask_eq_exp_minus_1)
  have lo: "lo32 v = take_bit 32 v" and hi: "hi32 v = take_bit 32 (drop_bit 32 v)"
    unfolding lo32_def hi32_def m by (simp_all add: take_bit_eq_mask)
  have "v div 2 ^ 32 < 2 ^ 32" using assms by (simp add: div_less_iff_less_mult)
  with assms have "hi32 v = drop_bit 32 v"
    by (simp add: hi take_bit_int_eq_self drop_bit_eq_div pos_imp_zdiv_nonneg_iff)
  moreover have "push_bit 32 (drop_bit 32 v) OR take_bit 32 v = push_bit 32 (drop_bit 32 v) + take_bit 32 v"
    using concat_bit_eq [of 32 v "drop_bit 32 v"] by (simp add: concat_bit_def or.commute add.commute)
  ultimately show "push_bit 32 (hi32 v) OR lo32 v = v" by (simp only: lo bits_ident)
  show "0 \<le> lo32 v" "lo32 v < 2 ^ 32" "0 \<le> hi32 v" "hi32 v < 2 ^ 32"
    unfolding lo hi using take_bit_int_less_exp [of 32] by simp_all
qed


section \<open>The queue invariant\<close>

text \<open>An open queue has a positive slot length, a region and room for at least one slot.\<close>

definition pq_ok :: "'r proposal_queue \<Rightarrow> bool" where
  "pq_ok q \<longleftrightarrow> (pq_opened q \<longrightarrow>
     pq_region q \<noteq> None \<and> 0 < pq_region_slots q \<and> (\<exists>l > 0. pq_slot_len q = Some l))"

abbreviation "pq_inv \<equiv> \<lambda>(h, q). pq_ok q"

lemma new_proposal_queue_ok [simp]: "pq_ok new_proposal_queue"
  by (simp add: pq_ok_def new_proposal_queue_def)

lemma keeps_pq_reads [keeps_intros]:
  "keeps pq_inv pq_require_open" "keeps pq_inv the_slot_len" "keeps pq_inv (pq_read_status b)"
  "keeps pq_inv (read_entry_counter b)" "keeps pq_inv (read_active_index b)"
  "keeps pq_inv (read_dma_status b)" "keeps pq_inv (read_hw_state b)" "keeps pq_inv (clear_flags b)"
  "keeps pq_inv (read_slot_length b)"
  unfolding pq_require_open_def the_slot_len_def pq_read_status_def read_entry_counter_def
    read_active_index_def read_dma_status_def read_hw_state_def clear_flags_def read_slot_length_def
  by (intro keeps_intros allI)+

lemma keeps_pq_submit [keeps_intros]: "keeps pq_inv (pq_submit b a c st)"
  unfolding pq_submit_def by (intro keeps_intros)

lemma keeps_pq_wait_done [keeps_intros]: "keeps pq_inv (wait_done b n)"
  unfolding wait_done_def by (intro keeps_intros)

lemma keeps_pq_propose: "keeps pq_inv (pq_propose b records w n)"
proof -
  have "keeps pq_inv (store_record b region len ir)" for region len ir
    unfolding store_record_def by (intro keeps_intros)
  then show ?thesis
    unfolding pq_propose_def by (intro keeps_intros)
qed

lemma keeps_pq_close: "keeps pq_inv pq_close" "keeps pq_inv pq_on_parent_reset"
  by (auto simp: keeps_def pq_close_def pq_on_parent_reset_def pq_require_open_def pq_ok_def abind_def
      athen_def aguard_def)


lemma alloc_cases:
  obtains h' where "alloc_dma_region b n (h, s) = (Inl (Py RuntimeError), (h', s))"
  | r h' where "alloc_dma_region b n (h, s) = (Inr r, (h', s))"
proof (cases "bus_has_pool b")
  case True
  obtain o1 h1 where "bus_alloc b n h = (o1, h1)" by fastforce
  with True that show thesis by (cases o1) (simp_all add: alloc_dma_region_def athen_aguard)
qed (use that in \<open>simp add: alloc_dma_region_def athen_aguard\<close>)

lemma pq_open_closed:
  assumes "\<not> pq_opened q"
  obtains e h' q' where "pq_open b n (h, q) = (Inl e, (h', q'))" "\<not> pq_opened q'"
  | h' r len where "pq_open b n (h, q) = (Inr (), (h', q\<lparr>pq_slot_len := Some len, pq_region_slots := n,
      pq_region := Some r, pq_opened := True\<rparr>))" "0 < n" "0 < len"
proof -
  obtain magic h1 where 1: "bus_read b REG_PROPOSAL_MAGIC h = (magic, h1)" by fastforce
  obtain version h2 where 2: "bus_read b REG_PROPOSAL_VERSION h1 = (version, h2)" by fastforce
  obtain len h3 where 3: "bus_read b REG_PROPOSAL_SLOT_BYTES h2 = (len, h3)" by fastforce
  let ?q = "q\<lparr>pq_slot_len := Some len, pq_region_slots := n\<rparr>"
  note run = pq_open_def athen_aguard read_slot_length_def 1 2 3
  show thesis
  proof (cases "0 < n \<and> magic = PROPOSAL_MAGIC \<and> version = PROPOSAL_VERSION \<and> 0 < len")
    case True
    show thesis
    proof (rule alloc_cases [of b "len * n" h3 ?q])
      fix h' assume "alloc_dma_region b (len * n) (h3, ?q) = (Inl (Py RuntimeError), (h', ?q))"
      with True assms that(1) show thesis by (simp add: run abind_run)
    next
      fix r h' assume "alloc_dma_region b (len * n) (h3, ?q) = (Inr r, (h', ?q))"
      with True assms that(2) show thesis by (simp add: run abind_run clear_flags_def)
    qed
  next
    case False
    with assms have "\<exists>e h' q'. pq_open b n (h, q) = (Inl e, (h', q')) \<and> \<not> pq_opened q'"
      by (cases "0 < n"; cases "magic = PROPOSAL_MAGIC \<and> version = PROPOSAL_VERSION") (simp_all add: run)
    with that(1) show thesis by blast
  qed
qed

lemma keeps_pq_open: "keeps pq_inv (pq_open b n)"
proof -
  have "pq_ok (snd (snd (pq_open b n (h, q))))" if "pq_ok q" for h q
  proof (cases "pq_opened q")
    case False
    then show ?thesis by (cases rule: pq_open_closed [of q b n h]) (auto simp: pq_ok_def)
  qed (use that in \<open>simp add: pq_open_def athen_aguard\<close>)
  then show ?thesis by (simp add: keeps_def split_beta)
qed

text \<open>
  C24. Every operation of the proposal queue, whether it returns or raises, keeps the invariant of
  the driver object: an open queue has a region, a positive capacity and a positive slot length.
\<close>

theorem proposal_queue_invariant:
  "keeps pq_inv (pq_open b n) \<and> keeps pq_inv pq_close \<and> keeps pq_inv pq_on_parent_reset \<and>
   keeps pq_inv (pq_submit b addr count stride) \<and> keeps pq_inv (wait_done b polls) \<and>
   keeps pq_inv (pq_propose b records wait polls)"
  by (intro conjI keeps_pq_open keeps_pq_close keeps_pq_submit keeps_pq_wait_done keeps_pq_propose)


section \<open>Submitting a transfer\<close>

text \<open>The six register writes that program a transfer; the start bit is the last.\<close>

definition transfer_writes :: "int \<Rightarrow> int \<Rightarrow> int \<Rightarrow> (int \<times> int) list" where
  "transfer_writes dma_addr count stride =
     [(REG_PROPOSAL_DMA_ADDR_LO, lo32 dma_addr), (REG_PROPOSAL_DMA_ADDR_HI, hi32 dma_addr),
      (REG_PROPOSAL_DMA_STRIDE_LO, lo32 stride), (REG_PROPOSAL_DMA_STRIDE_HI, hi32 stride),
      (REG_PROPOSAL_DMA_COUNT, count), (REG_PROPOSAL_DMA_CONTROL, PROPOSAL_START)]"

definition perform_writes :: "('h, 'r) bus \<Rightarrow> (int \<times> int) list \<Rightarrow> 'h \<Rightarrow> 'h" where
  "perform_writes b ws h = fold (\<lambda>(a, v). bus_write b a v) ws h"

lemma pq_submit_cases:
  "pq_submit b addr count stride (h, q) =
     (if \<not> pq_opened q then (Inl SSRStateError, (h, q))
      else if \<not> (0 \<le> addr \<and> addr < 2 ^ 64 \<and> 0 < count \<and> count < 2 ^ 32 \<and> 0 \<le> stride \<and> stride < 2 ^ 64)
      then (Inl (Py ValueError), (h, q))
      else case pq_slot_len q of
          None \<Rightarrow> (Inl (Py AttributeError), (h, q))
        | Some len \<Rightarrow>
            if stride \<noteq> len then (Inl (Py ValueError), (h, q))
            else
              let (status, h1) = bus_read b REG_PROPOSAL_STATUS h in
              if status AND 7 AND PROPOSAL_RUNNING \<noteq> 0 then (Inl SSRStateError, (h1, q))
              else (Inr (), (perform_writes b (transfer_writes addr count stride) h1, q)))"
  by (auto simp: pq_submit_def pq_require_open_def validate_u32_def validate_u64_def the_slot_len_def
      pq_read_status_def athen_aguard athen_abind abind_abind transfer_writes_def perform_writes_def
      split_beta Let_def and.assoc split: option.split)

text \<open>
  C25. A transfer is submitted whole or not at all: a submission that returns has performed exactly
  the six register writes, the start bit last, with words that make up the 64-bit address and the
  slot length again; one that raises has written no register.
\<close>

theorem submit_all_or_nothing:
  "case pq_submit b addr count stride (h, q) of
     (Inr _, (h', q')) \<Rightarrow>
       q' = q \<and> pq_slot_len q = Some stride \<and> 0 < count \<and>
       h' = perform_writes b (transfer_writes addr count stride) (snd (bus_read b REG_PROPOSAL_STATUS h)) \<and>
       push_bit 32 (hi32 addr) OR lo32 addr = addr \<and> push_bit 32 (hi32 stride) OR lo32 stride = stride
   | (Inl _, (h', q')) \<Rightarrow> q' = q \<and> (h' = h \<or> h' = snd (bus_read b REG_PROPOSAL_STATUS h))"
  using split_words(1) [of addr] split_words(1) [of stride]
  by (auto simp: pq_submit_cases Let_def split_beta split: option.split)

text \<open>
  Waiting returns only a status with the done bit set and the error bit clear.
\<close>

theorem wait_done_status:
  assumes "wait_done b n (h, q) = (Inr st, s')"
  shows "pq_opened q \<and> (\<exists>raw. st = raw AND 7 \<and> raw AND PROPOSAL_DONE \<noteq> 0 \<and> st AND PROPOSAL_ERROR = 0)"
proof -
  let ?poll = "poll_register b (read_dword b REG_PROPOSAL_STATUS) (\<lambda>x. x AND PROPOSAL_DONE \<noteq> 0) n"
  have "pq_opened q" using assms by (auto simp: wait_done_def pq_require_open_def athen_abind athen_aguard split: if_splits)
  with assms obtain raw s1 where 1: "?poll (h, q) = (Inr raw, s1)"
    "athen (aguard (raw AND 7 AND PROPOSAL_ERROR = 0) SSRHardwareError) (aret (raw AND 7)) s1 = (Inr st, s')"
    by (auto simp: wait_done_def pq_require_open_def athen_abind athen_aguard abind_Inr_iff)
  from 1(2) have "st = raw AND 7" "st AND PROPOSAL_ERROR = 0" by (auto simp: athen_aguard and.assoc split: if_splits)
  with poll_register_result [OF 1(1)] \<open>pq_opened q\<close> show ?thesis by blast
qed

text \<open>A bus whose registers read as a constant, for the witnesses.\<close>

definition constant_bus :: "int \<Rightarrow> (unit, unit) bus" where
  "constant_bus v =
     \<lparr>bus_read = (\<lambda>a h. (v, h)), bus_write = (\<lambda>a v h. h), bus_has_pool = True,
      bus_alloc = (\<lambda>n h. (Some (), h)), bus_address = (\<lambda>r. 4096), bus_store = (\<lambda>r i bs h. h),
      bus_load = (\<lambda>r i n h. replicate (nat n) 0), bus_timer = (\<lambda>k h. h), bus_now = (\<lambda>h. 0),
      bus_app_read = one_block SSR_RB_TYPE SSR_RB_VERSION\<rparr>"

definition open_queue :: "unit proposal_queue" where
  "open_queue = \<lparr>pq_opened = True, pq_slot_len = Some 128, pq_region = Some (), pq_region_slots = 8\<rparr>"

theorem wait_done_status_witness:
  "\<exists>st raw. st = raw AND 7 \<and> raw AND PROPOSAL_DONE \<noteq> 0 \<and> st AND PROPOSAL_ERROR = 0"
proof -
  have "wait_done (constant_bus 2) 5 ((), open_queue) = (Inr 2, ((), open_queue))"
    by (simp add: wait_done_def pq_require_open_def open_queue_def constant_bus_def numeral_eq_Suc
        athen_abind athen_aguard PROPOSAL_DONE_def PROPOSAL_ERROR_def abind_abind)
  from wait_done_status [OF this] show ?thesis by blast
qed


section \<open>Proposing\<close>

lemma store_records_run:
  "\<exists>h'. afor irs (store_record b (Some r) len) (h, q) = (Inr (), (h', q)) \<or>
        afor irs (store_record b (Some r) len) (h, q) = (Inl (Py ValueError), (h', q))"
proof (induction irs arbitrary: h)
  case (Cons ir irs)
  obtain i bs where ir: "ir = (i, bs)" by fastforce
  show ?case
    using Cons.IH [of "bus_store b r (int i * len) bs h"]
    by (simp add: ir store_record_def athen_athen athen_aguard)
qed simp

text \<open>
  \<open>propose\<close> divides the number of records by the slot length for the transfer count, so with
  fewer records than a slot has bytes it always raises \<open>ValueError\<close>, whatever the hardware does.
\<close>

theorem propose_small_batch_raises:
  assumes "pq_ok q" and "pq_opened q" and "pq_slot_len q = Some len" and "int (length records) < len"
  shows "\<exists>s'. pq_propose b records wait polls (h, q) = (Inl (Py ValueError), s')"
proof -
  obtain r where r: "pq_region q = Some r" using assms(1,2) by (auto simp: pq_ok_def)
  have count: "int (length records) div len = 0" using assms(4) by simp
  show ?thesis
  proof (cases "records \<noteq> [] \<and> int (length records) \<le> pq_region_slots q")
    case True
    from store_records_run [of "zip [0..<length records] records" b r len h q] obtain h' where
      "afor (zip [0..<length records] records) (store_record b (Some r) len) (h, q) = (Inr (), (h', q)) \<or>
       afor (zip [0..<length records] records) (store_record b (Some r) len) (h, q) = (Inl (Py ValueError), (h', q))"
      by blast
    with True assms show ?thesis
      by (auto simp: pq_propose_def pq_require_open_def the_slot_len_def r athen_abind athen_aguard
          athen_run read_entry_counter_def abind_abind pq_submit_cases count)
  next
    case False
    with assms show ?thesis
      by (auto simp: pq_propose_def pq_require_open_def athen_abind athen_aguard)
  qed
qed

theorem propose_small_batch_raises_witness:
  "\<exists>s'. pq_propose (constant_bus 0) [replicate 128 7] True 10 ((), open_queue) = (Inl (Py ValueError), s')"
  by (rule propose_small_batch_raises [where len = 128]) (simp_all add: pq_ok_def open_queue_def)

end
