(* ===== verification/Ssr_Commit.thy ===== *)
theory Ssr_Commit
  imports Ssr_Proposal
begin

text \<open>
  The commit queue of \<open>ssr_dataplane.py\<close>: two ping-pong buffers the hardware fills and the driver
  drains. \<open>CommitBuffer\<close> and \<open>CommitQueue\<close> are one record; the run loop is one pass over both
  buffers, repeated while the queue runs. An operation is one step, a pass of the run loop too; what
  other tasks do while \<open>recv_batch\<close> sleeps is an argument.
\<close>


section \<open>Registers\<close>

definition COMMIT_MAGIC :: int where "COMMIT_MAGIC = 0x636F6D71"
definition COMMIT_VERSION :: int where "COMMIT_VERSION = 0x00000100"

definition REG_COMMIT_MAGIC :: int where "REG_COMMIT_MAGIC = RBB_COMMIT_QUEUE + 0x000"
definition REG_COMMIT_VERSION :: int where "REG_COMMIT_VERSION = RBB_COMMIT_QUEUE + 0x004"
definition REG_COMMIT_CONTROL :: int where "REG_COMMIT_CONTROL = RBB_COMMIT_QUEUE + 0x00C"
definition REG_COMMIT_STRIDE_LO :: int where "REG_COMMIT_STRIDE_LO = RBB_COMMIT_QUEUE + 0x014"
definition REG_COMMIT_STRIDE_HI :: int where "REG_COMMIT_STRIDE_HI = RBB_COMMIT_QUEUE + 0x018"
definition REG_COMMIT_ACTIVE_BUFFER :: int where "REG_COMMIT_ACTIVE_BUFFER = RBB_COMMIT_QUEUE + 0x01C"
definition REG_COMMIT_BUF_SLOT_LEN :: int where "REG_COMMIT_BUF_SLOT_LEN = RBB_COMMIT_QUEUE + 0x020"

definition COMMIT_START :: int where "COMMIT_START = 1"
definition COMMIT_STOP :: int where "COMMIT_STOP = 2"
definition BUFFER_ARM :: int where "BUFFER_ARM = 1"
definition BUFFER_CLEAR :: int where "BUFFER_CLEAR = 2"
definition BUFFER_ARMED :: int where "BUFFER_ARMED = 1"
definition BUFFER_DONE :: int where "BUFFER_DONE = 2"
definition BUFFER_ERROR :: int where "BUFFER_ERROR = 4"

text \<open>\<open>CommitBuffer._REGS\<close>, the registers of each buffer by name.\<close>

definition buffer_regs :: "int \<Rightarrow> (string, int) dict" where
  "buffer_regs base =
     [(''addr_lo'', RBB_COMMIT_QUEUE + base + 0x00), (''addr_hi'', RBB_COMMIT_QUEUE + base + 0x04),
      (''capacity'', RBB_COMMIT_QUEUE + base + 0x08), (''control'', RBB_COMMIT_QUEUE + base + 0x0C),
      (''status'', RBB_COMMIT_QUEUE + base + 0x10), (''completed'', RBB_COMMIT_QUEUE + base + 0x14),
      (''error'', RBB_COMMIT_QUEUE + base + 0x18)]"

definition commit_regs :: "(nat, (string, int) dict) dict" where
  "commit_regs = [(0, buffer_regs 0x100), (1, buffer_regs 0x200)]"


section \<open>State\<close>

datatype commit_buffer_state = UNCONFIGURED | SOFTWARE_OWNED | HARDWARE_OWNED | COMPLETED | BUFFER_FAILED

record commit_record =
  rec_buffer_index :: nat
  rec_slot_index :: int
  rec_data :: "byte list"
  rec_sim_time_ns :: int

record 'r commit_buffer =
  cb_index :: nat
  cb_reg :: "(string, int) dict"
  cb_region :: "'r option"
  cb_capacity :: "int option"
  cb_stride :: "int option"

text \<open>\<open>None\<close> in the queue of completed records is the marker \<open>stop\<close> puts there.\<close>

record 'r commit_queue =
  cq_buffer0 :: "'r commit_buffer"
  cq_buffer1 :: "'r commit_buffer"
  cq_completed :: "commit_record option list"
  cq_slot_len :: "int option"
  cq_slot_count :: int
  cq_opened :: bool
  cq_running :: bool
  cq_run_error :: "drv_error option"

definition new_commit_buffer :: "nat \<Rightarrow> 'r commit_buffer result" where
  "new_commit_buffer index =
     (case dget commit_regs index of
        None \<Rightarrow> Inl ValueError
      | Some reg \<Rightarrow> Inr \<lparr>cb_index = index, cb_reg = reg, cb_region = None, cb_capacity = None, cb_stride = None\<rparr>)"

definition new_commit_queue :: "'r commit_queue result" where
  "new_commit_queue =
     ebind (new_commit_buffer 0) (\<lambda>b0. ebind (new_commit_buffer 1) (\<lambda>b1.
       Inr \<lparr>cq_buffer0 = b0, cq_buffer1 = b1, cq_completed = [], cq_slot_len = None, cq_slot_count = 0,
            cq_opened = False, cq_running = False, cq_run_error = None\<rparr>))"

type_synonym ('h, 'r, 'a) cq_act = "('h, 'r commit_queue, 'a) drv"

text \<open>The two buffers as the tuple \<open>_buffers\<close>.\<close>

definition buf :: "bool \<Rightarrow> 'r commit_queue \<Rightarrow> 'r commit_buffer" where
  "buf i q = (if i then cq_buffer1 q else cq_buffer0 q)"

definition set_buf :: "bool \<Rightarrow> ('r commit_buffer \<Rightarrow> 'r commit_buffer) \<Rightarrow> 'r commit_queue \<Rightarrow> 'r commit_queue" where
  "set_buf i f q = (if i then q\<lparr>cq_buffer1 := f (cq_buffer1 q)\<rparr> else q\<lparr>cq_buffer0 := f (cq_buffer0 q)\<rparr>)"

definition buffers :: "bool list" where
  "buffers = [False, True]"


section \<open>Buffer operations\<close>

text \<open>\<open>self.reg[name]\<close>.\<close>

definition reg_of :: "bool \<Rightarrow> string \<Rightarrow> ('h, 'r, int) cq_act" where
  "reg_of i name = abind (own (\<lambda>q. dget (cb_reg (buf i q)) name)) (aneed (Py KeyError))"

definition buf_write :: "('h, 'r) bus \<Rightarrow> bool \<Rightarrow> string \<Rightarrow> int \<Rightarrow> ('h, 'r, unit) cq_act" where
  "buf_write b i name v = abind (reg_of i name) (\<lambda>a. write_dword b a v)"

definition buf_read :: "('h, 'r) bus \<Rightarrow> bool \<Rightarrow> string \<Rightarrow> ('h, 'r, int) cq_act" where
  "buf_read b i name = abind (reg_of i name) (\<lambda>a. read_dword b a)"

definition buf_configure :: "('h, 'r) bus \<Rightarrow> bool \<Rightarrow> 'r \<Rightarrow> int \<Rightarrow> int \<Rightarrow> ('h, 'r, unit) cq_act" where
  "buf_configure b i region capacity stride =
     athen (buf_write b i ''addr_lo'' (lo32 (bus_address b region))) (
     athen (buf_write b i ''addr_hi'' (hi32 (bus_address b region))) (
     athen (buf_write b i ''capacity'' capacity) (
     athen (buf_write b i ''stride_lo'' (lo32 stride)) (
     athen (buf_write b i ''stride_hi'' (hi32 stride))
       (set_own (set_buf i (\<lambda>c. c\<lparr>cb_region := Some region, cb_capacity := Some capacity,
                                  cb_stride := Some stride\<rparr>)))))))"

definition buf_read_raw_status :: "('h, 'r) bus \<Rightarrow> bool \<Rightarrow> ('h, 'r, int) cq_act" where
  "buf_read_raw_status b i = abind (buf_read b i ''status'') (\<lambda>v. aret (v AND 7))"

definition buf_read_status :: "('h, 'r) bus \<Rightarrow> bool \<Rightarrow> ('h, 'r, commit_buffer_state) cq_act" where
  "buf_read_status b i =
     abind (own (\<lambda>q. cb_region (buf i q))) (\<lambda>r.
       if r = None then aret UNCONFIGURED
       else abind (buf_read_raw_status b i) (\<lambda>raw.
              aret (if raw AND BUFFER_DONE \<noteq> 0 then COMPLETED
                    else if raw AND BUFFER_ERROR \<noteq> 0 then BUFFER_FAILED
                    else if raw AND BUFFER_ARMED \<noteq> 0 then HARDWARE_OWNED else SOFTWARE_OWNED)))"

definition buf_arm :: "('h, 'r) bus \<Rightarrow> bool \<Rightarrow> ('h, 'r, unit) cq_act" where
  "buf_arm b i = buf_write b i ''control'' BUFFER_ARM"

definition buf_clear :: "('h, 'r) bus \<Rightarrow> bool \<Rightarrow> ('h, 'r, unit) cq_act" where
  "buf_clear b i = buf_write b i ''control'' BUFFER_CLEAR"

definition release_and_rearm :: "('h, 'r) bus \<Rightarrow> bool \<Rightarrow> ('h, 'r, unit) cq_act" where
  "release_and_rearm b i = athen (buf_clear b i) (buf_arm b i)"

definition read_slot :: "('h, 'r) bus \<Rightarrow> bool \<Rightarrow> int \<Rightarrow> ('h, 'r, byte list) cq_act" where
  "read_slot b i slot_index =
     abind (own (buf i)) (\<lambda>c.
       case (cb_region c, cb_stride c, cb_capacity c) of
         (Some region, Some stride, Some capacity) \<Rightarrow>
           if \<not> (0 \<le> slot_index \<and> slot_index < capacity) then araise (Py ValueError)
           else aget (\<lambda>(h, q). bus_load b region (slot_index * stride) stride h)
       | _ \<Rightarrow> araise (Py RuntimeError))"


section \<open>Queue operations\<close>

definition cq_require_open :: "('h, 'r, unit) cq_act" where
  "cq_require_open = abind (own cq_opened) (\<lambda>o1. aguard o1 SSRStateError)"

definition cq_slot_length :: "('h, 'r, int) cq_act" where
  "cq_slot_length = athen cq_require_open (abind (own cq_slot_len) (aneed (Py AssertionError)))"

text \<open>The loop body of \<open>open\<close>: a region for the buffer, then its registers.\<close>

definition setup_buffer :: "('h, 'r) bus \<Rightarrow> int \<Rightarrow> int \<Rightarrow> bool \<Rightarrow> ('h, 'r, unit) cq_act" where
  "setup_buffer b len count i =
     abind (alloc_dma_region b (len * count)) (\<lambda>region. buf_configure b i region count len)"

definition cq_open :: "('h, 'r) bus \<Rightarrow> int \<Rightarrow> ('h, 'r, unit) cq_act" where
  "cq_open b buf_slot_count =
     abind (own cq_opened) (\<lambda>o1.
     athen (aguard (\<not> o1) (Py RuntimeError)) (
     athen (aguard (buf_slot_count > 0) (Py ValueError)) (
     abind (read_dword b REG_COMMIT_MAGIC) (\<lambda>magic.
     abind (read_dword b REG_COMMIT_VERSION) (\<lambda>version.
     athen (aguard (magic = COMMIT_MAGIC \<and> version = COMMIT_VERSION) (Py RuntimeError)) (
     abind (read_dword b REG_COMMIT_BUF_SLOT_LEN) (\<lambda>len.
     athen (set_own (\<lambda>q. q\<lparr>cq_slot_len := Some len\<rparr>)) (
     athen (aguard (len > 0) (Py RuntimeError)) (
     athen (set_own (\<lambda>q. q\<lparr>cq_slot_count := buf_slot_count\<rparr>)) (
     athen (write_dword b REG_COMMIT_STRIDE_LO (lo32 len)) (
     athen (write_dword b REG_COMMIT_STRIDE_HI (hi32 len)) (
     athen (afor buffers (setup_buffer b len buf_slot_count))
       (set_own (\<lambda>q. q\<lparr>cq_opened := True\<rparr>))))))))))))))"

definition cq_start :: "('h, 'r) bus \<Rightarrow> ('h, 'r, unit) cq_act" where
  "cq_start b =
     athen cq_require_open (
     abind (own cq_running) (\<lambda>r.
     athen (aguard (\<not> r) (Py RuntimeError)) (
     athen (afor buffers (\<lambda>i. athen (buf_clear b i) (buf_arm b i))) (
     athen (write_dword b REG_COMMIT_CONTROL COMMIT_START)
       (set_own (\<lambda>q. q\<lparr>cq_run_error := None, cq_running := True\<rparr>))))))"

definition cq_stop :: "('h, 'r) bus \<Rightarrow> ('h, 'r, unit) cq_act" where
  "cq_stop b =
     abind (own cq_running) (\<lambda>r.
       if \<not> r then aret ()
       else
         athen (write_dword b REG_COMMIT_CONTROL COMMIT_STOP)
           (set_own (\<lambda>q. q\<lparr>cq_running := False, cq_completed := cq_completed q @ [None]\<rparr>)))"

definition forget_region :: "'r commit_buffer \<Rightarrow> 'r commit_buffer" where
  "forget_region c = c\<lparr>cb_region := None, cb_capacity := None, cb_stride := None\<rparr>"

definition cq_close :: "('h, 'r) bus \<Rightarrow> ('h, 'r, unit) cq_act" where
  "cq_close b =
     athen cq_require_open (
     athen (abind (own cq_running) (\<lambda>r. if r then cq_stop b else aret ()))
       (set_own (\<lambda>q. (set_buf False forget_region (set_buf True forget_region q))
                       \<lparr>cq_opened := False, cq_slot_len := None, cq_slot_count := 0\<rparr>)))"

definition cq_on_parent_reset :: "('h, 'r, unit) cq_act" where
  "cq_on_parent_reset =
     set_own (\<lambda>q. (set_buf False forget_region (set_buf True forget_region q))
                    \<lparr>cq_opened := False, cq_running := False, cq_slot_len := None, cq_slot_count := 0\<rparr>)"

text \<open>\<open>CommitStatus\<close> is not defined anywhere, so its lookup raises before the register is read.\<close>

definition read_global_status :: "('h, 'r, int) cq_act" where
  "read_global_status = araise (Py NameError)"

definition read_active_buffer :: "('h, 'r) bus \<Rightarrow> ('h, 'r, int) cq_act" where
  "read_active_buffer b = abind (read_dword b REG_COMMIT_ACTIVE_BUFFER) (\<lambda>v. aret (v AND 1))"

definition cq_diagnose ::
  "('h, 'r) bus \<Rightarrow> ('h, 'r, int \<times> int \<times> commit_buffer_state \<times> commit_buffer_state) cq_act" where
  "cq_diagnose b =
     abind read_global_status (\<lambda>gs.
     abind (read_active_buffer b) (\<lambda>active.
     abind (buf_read_status b False) (\<lambda>s0.
     abind (buf_read_status b True) (\<lambda>s1.
       aret (gs, active, s0, s1)))))"


section \<open>The run loop\<close>

definition queue_slot :: "('h, 'r) bus \<Rightarrow> bool \<Rightarrow> int \<Rightarrow> int \<Rightarrow> ('h, 'r, unit) cq_act" where
  "queue_slot b i now slot_index =
     abind (own (\<lambda>q. cb_index (buf i q))) (\<lambda>index.
     abind (read_slot b i slot_index) (\<lambda>bytes1.
       set_own (\<lambda>q. q\<lparr>cq_completed := cq_completed q @
         [Some \<lparr>rec_buffer_index = index, rec_slot_index = slot_index, rec_data = bytes1,
                rec_sim_time_ns = now\<rparr>]\<rparr>)))"

text \<open>One buffer in a pass; the result says whether it had been filled.\<close>

definition drain_buffer :: "('h, 'r) bus \<Rightarrow> bool \<Rightarrow> ('h, 'r, bool) cq_act" where
  "drain_buffer b i =
     abind (buf_read_raw_status b i) (\<lambda>raw.
       if raw AND BUFFER_DONE = 0 then aret False
       else
         abind (buf_read b i ''completed'') (\<lambda>n.
         abind (buf_read b i ''error'') (\<lambda>_.
         abind (aget (\<lambda>(h, q). bus_now b h)) (\<lambda>now.
         athen (afor [0..n - 1] (queue_slot b i now)) (
         athen (release_and_rearm b i) (aret True))))))"

definition run_pass :: "('h, 'r) bus \<Rightarrow> ('h, 'r, unit) cq_act" where
  "run_pass b =
     abind (drain_buffer b False) (\<lambda>p0.
     abind (drain_buffer b True) (\<lambda>p1.
       if \<not> (p0 \<or> p1) then wait_ns b 200 else aret ()))"

text \<open>The \<open>try\<close> around the loop, for one pass: an exception is kept and stops the loop.\<close>

definition run_step :: "('h, 'r) bus \<Rightarrow> ('h, 'r, unit) cq_act" where
  "run_step b = acatch (run_pass b) (\<lambda>e. set_own (\<lambda>q. q\<lparr>cq_run_error := Some e, cq_running := False\<rparr>))"

text \<open>\<open>run\<close> for at most \<open>k\<close> passes.\<close>

fun run_passes :: "('h, 'r) bus \<Rightarrow> nat \<Rightarrow> ('h, 'r, unit) cq_act" where
  "run_passes b 0 = aret ()"
| "run_passes b (Suc k) =
     abind (own cq_running) (\<lambda>r. if r then athen (run_step b) (run_passes b k) else aret ())"

definition cq_run :: "('h, 'r) bus \<Rightarrow> nat \<Rightarrow> ('h, 'r, unit) cq_act" where
  "cq_run b k = abind (own cq_running) (\<lambda>r. athen (aguard r (Py RuntimeError)) (run_passes b k))"

text \<open>\<open>recv\<close>; \<open>None\<close> is a caller that waits for a record.\<close>

definition cq_recv :: "('h, 'r, commit_record option) cq_act" where
  "cq_recv =
     abind (own cq_run_error) (\<lambda>err.
     athen (aguard (err = None) SSRHardwareError) (
     abind (own cq_running) (\<lambda>r.
     athen (aguard r (Py RuntimeError)) (
     abind (own cq_completed) (\<lambda>items.
       case items of
         [] \<Rightarrow> aret None
       | item # rest \<Rightarrow>
           athen (set_own (\<lambda>q. q\<lparr>cq_completed := rest\<rparr>))
             (case item of None \<Rightarrow> araise (Py RuntimeError) | Some rec1 \<Rightarrow> aret (Some rec1)))))))"

text \<open>
  The loop of \<open>recv_batch\<close> with fuel: \<open>others\<close> is what the other tasks and the hardware do while it
  sleeps. Out of fuel is \<open>None\<close>.
\<close>

fun recv_loop ::
  "('h, 'r) bus \<Rightarrow> ('h \<times> 'r commit_queue \<Rightarrow> 'h \<times> 'r commit_queue) \<Rightarrow> nat \<Rightarrow> nat \<Rightarrow> int \<Rightarrow>
     commit_record list \<Rightarrow> ('h, 'r, commit_record list option) cq_act" where
  "recv_loop b others 0 count deadline out = aret None"
| "recv_loop b others (Suc k) count deadline out =
     (if count \<le> length out then aret (Some out)
      else
        abind (aget (\<lambda>(h, q). bus_now b h)) (\<lambda>now.
        if now > deadline then araise SSRTimeoutError
        else
          abind (own cq_completed) (\<lambda>items.
          if items = [] then
            athen (wait_ns b 100) (athen (amodify others) (recv_loop b others k count deadline out))
          else
            abind cq_recv (\<lambda>r.
              case r of
                None \<Rightarrow> aret None
              | Some rec1 \<Rightarrow> recv_loop b others k count deadline (out @ [rec1])))))"

definition recv_batch ::
  "('h, 'r) bus \<Rightarrow> ('h \<times> 'r commit_queue \<Rightarrow> 'h \<times> 'r commit_queue) \<Rightarrow> nat \<Rightarrow> nat \<Rightarrow> nat \<Rightarrow>
     ('h, 'r, commit_record list option) cq_act" where
  "recv_batch b others fuel count timeout_ns =
     abind (aget (\<lambda>(h, q). bus_now b h)) (\<lambda>now.
       recv_loop b others fuel count (now + int timeout_ns) [])"


section \<open>Opening\<close>

text \<open>The two buffers have the registers of the class, as the constructor sets them.\<close>

definition regs_ok :: "'r commit_queue \<Rightarrow> bool" where
  "regs_ok q \<longleftrightarrow> cb_reg (cq_buffer0 q) = buffer_regs 0x100 \<and> cb_reg (cq_buffer1 q) = buffer_regs 0x200"

definition buf_base :: "bool \<Rightarrow> int" where
  "buf_base i = (if i then 0x200 else 0x100)"

lemma regs_ok_buf: "regs_ok q \<Longrightarrow> cb_reg (buf i q) = buffer_regs (buf_base i)"
  by (simp add: regs_ok_def buf_def buf_base_def)

lemma new_commit_queue_ok:
  "\<exists>q. new_commit_queue = Inr q \<and> regs_ok q \<and> \<not> cq_opened q \<and> \<not> cq_running q \<and> cq_completed q = [] \<and>
    cq_run_error q = None"
  by (simp add: new_commit_queue_def new_commit_buffer_def commit_regs_def dget_def regs_ok_def)

lemma buf_access [simp]:
  assumes "regs_ok q"
  shows "dget (buffer_regs base) name = Some a \<Longrightarrow> base = buf_base i \<Longrightarrow>
      athen (buf_write b i name v) m (h, q) = m (bus_write b a v h, q)"
    and "dget (buffer_regs base) name = Some a \<Longrightarrow> base = buf_base i \<Longrightarrow>
      buf_write b i name v (h, q) = (Inr (), (bus_write b a v h, q))"
    and "dget (buffer_regs base) name = None \<Longrightarrow> base = buf_base i \<Longrightarrow>
      athen (buf_write b i name v) m (h, q) = (Inl (Py KeyError), (h, q))"
    and "dget (buffer_regs base) name = Some a \<Longrightarrow> base = buf_base i \<Longrightarrow>
      abind (buf_read b i name) k (h, q) = k (fst (bus_read b a h)) (snd (bus_read b a h), q)"
  using assms by (simp_all add: buf_write_def buf_read_def reg_of_def athen_abind abind_abind regs_ok_buf)

lemma buf_regs_lookup:
  "dget (buffer_regs base) ''addr_lo'' = Some (RBB_COMMIT_QUEUE + base)"
  "dget (buffer_regs base) ''addr_hi'' = Some (RBB_COMMIT_QUEUE + base + 4)"
  "dget (buffer_regs base) ''capacity'' = Some (RBB_COMMIT_QUEUE + base + 8)"
  "dget (buffer_regs base) ''control'' = Some (RBB_COMMIT_QUEUE + base + 12)"
  "dget (buffer_regs base) ''status'' = Some (RBB_COMMIT_QUEUE + base + 16)"
  "dget (buffer_regs base) ''completed'' = Some (RBB_COMMIT_QUEUE + base + 20)"
  "dget (buffer_regs base) ''error'' = Some (RBB_COMMIT_QUEUE + base + 24)"
  "dget (buffer_regs base) ''stride_lo'' = None"
  "dget (buffer_regs base) ''stride_hi'' = None"
  by (simp_all add: buffer_regs_def dget_def)

lemma buf_configure_raises:
  assumes "regs_ok q"
  shows "\<exists>h'. buf_configure b i region capacity stride (h, q) = (Inl (Py KeyError), (h', q))"
  using assms by (simp add: buf_configure_def buf_access [where base = "buf_base i"] buf_regs_lookup)

lemma setup_buffer_raises:
  assumes "regs_ok q"
  shows "\<exists>e h'. e \<in> {Py KeyError, Py RuntimeError} \<and> setup_buffer b len count i (h, q) = (Inl e, (h', q))"
proof (rule alloc_cases [of b "len * count" h q])
  fix h' assume "alloc_dma_region b (len * count) (h, q) = (Inl (Py RuntimeError), (h', q))"
  then show ?thesis by (simp add: setup_buffer_def abind_run)
next
  fix r h' assume "alloc_dma_region b (len * count) (h, q) = (Inr r, (h', q))"
  with buf_configure_raises [OF assms, of b i r count len h'] show ?thesis
    by (auto simp: setup_buffer_def abind_run)
qed

lemma cq_open_raises:
  assumes "regs_ok q"
  shows "\<exists>e h' q'. e \<in> {Py KeyError, Py RuntimeError, Py ValueError} \<and>
    cq_open b n (h, q) = (Inl e, (h', q')) \<and> regs_ok q' \<and> cq_opened q' = cq_opened q"
proof -
  obtain magic h1 where 1: "bus_read b REG_COMMIT_MAGIC h = (magic, h1)" by fastforce
  obtain version h2 where 2: "bus_read b REG_COMMIT_VERSION h1 = (version, h2)" by fastforce
  obtain len h3 where 3: "bus_read b REG_COMMIT_BUF_SLOT_LEN h2 = (len, h3)" by fastforce
  let ?q = "q\<lparr>cq_slot_len := Some len, cq_slot_count := n\<rparr>"
  let ?h = "bus_write b REG_COMMIT_STRIDE_HI (hi32 len) (bus_write b REG_COMMIT_STRIDE_LO (lo32 len) h3)"
  note run = cq_open_def athen_aguard 1 2 3
  have ok: "regs_ok ?q" "regs_ok (q\<lparr>cq_slot_len := Some len\<rparr>)" using assms by (simp_all add: regs_ok_def)
  from setup_buffer_raises [OF ok(1), of b len n False ?h] obtain e h' where
    e: "e \<in> {Py KeyError, Py RuntimeError}" "setup_buffer b len n False (?h, ?q) = (Inl e, (h', ?q))" by blast
  then have loop: "afor buffers (setup_buffer b len n) (?h, ?q) = (Inl e, (h', ?q))"
    by (simp add: buffers_def athen_run)
  show ?thesis
  proof (cases "\<not> cq_opened q \<and> 0 < n \<and> magic = COMMIT_MAGIC \<and> version = COMMIT_VERSION \<and> 0 < len")
    case True
    with e loop ok show ?thesis by (auto simp: run athen_run)
  next
    case False
    with assms ok show ?thesis
      by (cases "cq_opened q"; cases "0 < n"; cases "magic = COMMIT_MAGIC \<and> version = COMMIT_VERSION")
        (simp_all add: run)
  qed
qed

text \<open>
  The commit queue cannot be opened: \<open>configure\<close> writes a stride register the buffers do not
  have, so \<open>open\<close> raises whatever the hardware answers and the queue stays closed.
\<close>

theorem commit_queue_never_opens:
  "\<exists>q. new_commit_queue = Inr q \<and>
    (\<exists>e h' q'. e \<in> {Py KeyError, Py RuntimeError, Py ValueError} \<and>
       cq_open b n (h, q) = (Inl e, (h', q')) \<and> \<not> cq_opened q')"
  using new_commit_queue_ok cq_open_raises by metis


section \<open>The run loop\<close>

text \<open>
  A pass of the run loop never raises: an exception is stored and the loop is stopped, and as
  long as the loop keeps running no new error has been stored.
\<close>

theorem run_step_contains_errors:
  "\<exists>h' q'. run_step b (h, q) = (Inr (), (h', q')) \<and>
    (case run_pass b (h, q) of
       (Inr _, s) \<Rightarrow> (h', q') = s
     | (Inl e, (_, q1)) \<Rightarrow> q' = q1\<lparr>cq_run_error := Some e, cq_running := False\<rparr>)"
  by (auto simp: run_step_def acatch_def split: prod.split sum.split)

text \<open>A filled buffer and what is to be read from it.\<close>

definition slot_record :: "('h, 'r) bus \<Rightarrow> 'r \<Rightarrow> int \<Rightarrow> nat \<Rightarrow> 'h \<Rightarrow> int \<Rightarrow> int \<Rightarrow> commit_record" where
  "slot_record b region stride index h now slot =
     \<lparr>rec_buffer_index = index, rec_slot_index = slot,
      rec_data = bus_load b region (slot * stride) stride h, rec_sim_time_ns = now\<rparr>"

lemma queue_slots_run:
  assumes "cb_region (buf i q) = Some region" "cb_stride (buf i q) = Some stride"
    "cb_capacity (buf i q) = Some capacity" "\<And>s. s \<in> set slots \<Longrightarrow> 0 \<le> s \<and> s < capacity"
  shows "afor slots (queue_slot b i now) (h, q) = (Inr (), (h, q\<lparr>cq_completed := cq_completed q @
    map (\<lambda>s. Some (slot_record b region stride (cb_index (buf i q)) h now s)) slots\<rparr>))"
  using assms
proof (induction slots arbitrary: q)
  case (Cons s slots)
  let ?q = "q\<lparr>cq_completed := cq_completed q @ [Some (slot_record b region stride (cb_index (buf i q)) h now s)]\<rparr>"
  have same: "buf i ?q = buf i q" by (simp add: buf_def)
  have "0 \<le> s \<and> s < capacity" using Cons.prems(4) by simp
  with Cons.prems have "queue_slot b i now s (h, q) = (Inr (), (h, ?q))"
    by (simp add: queue_slot_def read_slot_def abind_abind abind_def [of "\<lambda>_. _"] slot_record_def abind_run)
  with Cons.IH [of ?q] Cons.prems same show ?case by (simp add: athen_run)
qed simp


text \<open>
  C26. Draining a filled buffer: if the hardware reports done and no more slots than the buffer
  has, the slots are queued in order behind what was queued before, each with the bytes of its slot
  in the region, and then the buffer is cleared and armed again, in this order. A buffer that is not
  done is left alone.
\<close>

theorem drain_buffer_exact:
  assumes "regs_ok q" and "cb_region (buf i q) = Some region" and "cb_stride (buf i q) = Some stride"
    and "cb_capacity (buf i q) = Some capacity"
    and "bus_read b (RBB_COMMIT_QUEUE + buf_base i + 0x10) h = (raw, h1)"
    and "bus_read b (RBB_COMMIT_QUEUE + buf_base i + 0x14) h1 = (n, h2)"
    and "bus_read b (RBB_COMMIT_QUEUE + buf_base i + 0x18) h2 = (err, h3)"
    and "n \<le> capacity"
  shows "drain_buffer b i (h, q) =
    (if raw AND BUFFER_DONE = 0 then (Inr False, (h1, q))
     else
       (Inr True,
        (perform_writes b [(RBB_COMMIT_QUEUE + buf_base i + 0x0C, BUFFER_CLEAR),
                           (RBB_COMMIT_QUEUE + buf_base i + 0x0C, BUFFER_ARM)] h3,
         q\<lparr>cq_completed := cq_completed q @
           map (\<lambda>s. Some (slot_record b region stride (cb_index (buf i q)) h3 (bus_now b h3) s)) [0..n - 1]\<rparr>)))"
proof -
  let ?a = "RBB_COMMIT_QUEUE + buf_base i"
  let ?done = "map (\<lambda>s. Some (slot_record b region stride (cb_index (buf i q)) h3 (bus_now b h3) s)) [0..n - 1]"
  let ?q = "q\<lparr>cq_completed := cq_completed q @ ?done\<rparr>"
  have ok: "regs_ok ?q" using assms(1) by (simp add: regs_ok_def)
  have "afor [0..n - 1] (queue_slot b i (bus_now b h3)) (h3, q) = (Inr (), (h3, ?q))"
    by (rule queue_slots_run) (use assms in auto)
  note slots = athen_run(1) [where m = "afor [0..n - 1] (queue_slot b i (bus_now b h3))", OF this]
  have seven: "raw AND 7 AND BUFFER_DONE = raw AND BUFFER_DONE" by (simp add: BUFFER_DONE_def)
  have rearm: "athen (release_and_rearm b i) (aret True) (h3, ?q) =
      (Inr True, (bus_write b (?a + 12) BUFFER_ARM (bus_write b (?a + 12) BUFFER_CLEAR h3), ?q))"
    using ok by (simp add: release_and_rearm_def buf_clear_def buf_arm_def athen_athen
        buf_access [where base = "buf_base i"] buf_regs_lookup)
  have "drain_buffer b i (h, q) =
      (if raw AND BUFFER_DONE = 0 then (Inr False, (h1, q))
       else athen (afor [0..n - 1] (queue_slot b i (bus_now b h3))) (athen (release_and_rearm b i) (aret True)) (h3, q))"
    using assms(1,5-7) seven
    by (simp add: drain_buffer_def buf_read_raw_status_def abind_abind buf_access [where base = "buf_base i"]
        buf_regs_lookup and.assoc)
  then show ?thesis by (simp add: slots rearm perform_writes_def)
qed

text \<open>A queue that is open and configured, with hardware that reports buffer 0 filled with two slots.\<close>

definition filled_bus :: "(nat, unit) bus" where
  "filled_bus = \<lparr>bus_read = (\<lambda>a h. (if a = 0x2110 then 2 else if a = 0x2114 then 2 else 0, h)),
     bus_write = (\<lambda>a v h. h), bus_has_pool = True, bus_alloc = (\<lambda>n h. (Some (), h)),
     bus_address = (\<lambda>r. 0), bus_store = (\<lambda>r i bs h. h), bus_load = (\<lambda>r i n h. replicate (nat n) (word_of_int i)),
     bus_timer = (\<lambda>k h. h + k), bus_now = int, bus_app_read = one_block SSR_RB_TYPE SSR_RB_VERSION\<rparr>"

definition ready_queue :: "unit commit_queue" where
  "ready_queue =
     \<lparr>cq_buffer0 = \<lparr>cb_index = 0, cb_reg = buffer_regs 0x100, cb_region = Some (), cb_capacity = Some 16,
                     cb_stride = Some 4\<rparr>,
      cq_buffer1 = \<lparr>cb_index = 1, cb_reg = buffer_regs 0x200, cb_region = Some (), cb_capacity = Some 16,
                     cb_stride = Some 4\<rparr>,
      cq_completed = [], cq_slot_len = Some 4, cq_slot_count = 16, cq_opened = True, cq_running = False,
      cq_run_error = None\<rparr>"

theorem drain_buffer_exact_witness:
  "\<exists>q'. drain_buffer filled_bus False (7, ready_queue) = (Inr True, (7, q')) \<and>
     map (map_option rec_slot_index) (cq_completed q') = [Some 0, Some 1]"
proof -
  have "[0..2 - 1] = [0, 1::int]" by (simp add: upto_rec1)
  then show ?thesis
    using drain_buffer_exact [of ready_queue False "()" 4 16 filled_bus 7 2 7 2 7 0 7]
    by (simp add: ready_queue_def regs_ok_def buf_def buf_base_def filled_bus_def RBB_COMMIT_QUEUE_def
        BUFFER_DONE_def perform_writes_def slot_record_def)
qed


section \<open>Receiving\<close>

lemma cq_start_run:
  assumes "regs_ok q" "cq_opened q" "\<not> cq_running q"
  shows "\<exists>h'. cq_start b (h, q) = (Inr (), (h', q\<lparr>cq_run_error := None, cq_running := True\<rparr>))"
  using assms
  by (simp add: cq_start_def cq_require_open_def athen_abind athen_aguard buffers_def buf_clear_def buf_arm_def
      athen_athen buf_access [where base = "buf_base False"] buf_access [where base = "buf_base True"] buf_regs_lookup)

text \<open>
  Stopping an idle queue leaves its end marker behind: after the queue is started again the
  first \<open>recv\<close> takes the marker and raises "stopped", although the queue runs.
\<close>

theorem stale_stop_marker:
  assumes "regs_ok q" and "cq_opened q" and "\<not> cq_running q" and "cq_completed q = []"
  shows "\<exists>h' q'. athen (cq_start b) (athen (cq_stop b) (athen (cq_start b) cq_recv)) (h, q)
      = (Inl (Py RuntimeError), (h', q')) \<and> cq_running q' \<and> cq_run_error q' = None"
proof -
  obtain h1 where 1: "cq_start b (h, q) = (Inr (), (h1, q\<lparr>cq_run_error := None, cq_running := True\<rparr>))"
    using cq_start_run [OF assms(1-3), of b h] by blast
  let ?q = "q\<lparr>cq_run_error := None, cq_running := False, cq_completed := [None]\<rparr>"
  have 2: "cq_stop b (h1, q\<lparr>cq_run_error := None, cq_running := True\<rparr>) =
      (Inr (), (bus_write b REG_COMMIT_CONTROL COMMIT_STOP h1, ?q))"
    using assms(4) by (simp add: cq_stop_def)
  have "regs_ok ?q" "cq_opened ?q" "\<not> cq_running ?q" using assms by (simp_all add: regs_ok_def)
  from cq_start_run [OF this, of b "bus_write b REG_COMMIT_CONTROL COMMIT_STOP h1"] obtain h2 where
    3: "cq_start b (bus_write b REG_COMMIT_CONTROL COMMIT_STOP h1, ?q) =
      (Inr (), (h2, ?q\<lparr>cq_run_error := None, cq_running := True\<rparr>))" by blast
  from 1 2 3 show ?thesis by (simp add: athen_run cq_recv_def)
qed

theorem stale_stop_marker_witness:
  "\<exists>h' q'. athen (cq_start filled_bus) (athen (cq_stop filled_bus) (athen (cq_start filled_bus) cq_recv))
      (0, ready_queue) = (Inl (Py RuntimeError), (h', q')) \<and> cq_running q'"
  using stale_stop_marker [of ready_queue filled_bus 0] by (auto simp: ready_queue_def regs_ok_def)

text \<open>Sleeping advances the clock by at least what was asked for, and nothing turns it back.\<close>

definition clock_advances ::
  "('h, 'r) bus \<Rightarrow> ('h \<times> 'r commit_queue \<Rightarrow> 'h \<times> 'r commit_queue) \<Rightarrow> bool" where
  "clock_advances b others \<longleftrightarrow>
     (\<forall>k h. bus_now b h + int k \<le> bus_now b (bus_timer b k h)) \<and>
     (\<forall>st. bus_now b (fst st) \<le> bus_now b (fst (others st)))"

definition polls_left :: "int \<Rightarrow> int \<Rightarrow> nat" where
  "polls_left deadline now = nat ((deadline - now) div 100 + 1)"

lemma polls_left_decreases:
  assumes "now \<le> deadline" "now + 100 \<le> now'"
  shows "polls_left deadline now' < polls_left deadline now"
proof -
  have "deadline - now' \<le> (deadline - now) - 100" using assms by simp
  then have "(deadline - now') div 100 \<le> ((deadline - now) + (- 1) * 100) div 100"
    by (intro zdiv_mono1) simp_all
  also have "\<dots> = (deadline - now) div 100 - 1" by (subst div_mult_self1) simp_all
  finally show ?thesis using assms(1) by (simp add: polls_left_def nat_less_iff pos_imp_zdiv_nonneg_iff)
qed

lemma recv_nonempty:
  assumes "cq_completed q = item # rest"
  shows "cq_recv (h, q) =
    (if cq_run_error q \<noteq> None then (Inl SSRHardwareError, (h, q))
     else if \<not> cq_running q then (Inl (Py RuntimeError), (h, q))
     else (case item of None \<Rightarrow> Inl (Py RuntimeError) | Some x \<Rightarrow> Inr (Some x), (h, q\<lparr>cq_completed := rest\<rparr>)))"
  using assms by (cases item) (simp_all add: cq_recv_def athen_aguard)

text \<open>
  The other tasks only add to the queue; with that, what was taken from it: \<open>arrived\<close> is what they
  added meanwhile.
\<close>

definition only_adds :: "('h \<times> 'r commit_queue \<Rightarrow> 'h \<times> 'r commit_queue) \<Rightarrow> bool" where
  "only_adds others \<longleftrightarrow> (\<forall>st. \<exists>added. cq_completed (snd (others st)) = cq_completed (snd st) @ added)"

definition taken :: "'r commit_queue \<Rightarrow> commit_record option list \<Rightarrow> 'r commit_queue \<Rightarrow> bool" where
  "taken q items q' \<longleftrightarrow> (\<exists>arrived. cq_completed q @ arrived = items @ cq_completed q')"

lemma taken_later:
  assumes "cq_completed q1 = cq_completed q @ added"
  shows "taken q1 items q' \<Longrightarrow> taken q items q'"
  unfolding taken_def using assms by (metis append.assoc)

lemma taken_first:
  assumes "cq_completed q = item # rest" "cq_completed q1 = rest"
  shows "taken q1 items q' \<Longrightarrow> taken q (item # items) q'"
  unfolding taken_def using assms by auto

text \<open>The exception of a batch by the state it leaves, and whether a stop marker was taken.\<close>

definition batch_error ::
  "('h, 'r) bus \<Rightarrow> int \<Rightarrow> 'h \<times> 'r commit_queue \<Rightarrow> drv_error \<times> commit_record option list" where
  "batch_error b deadline st =
     (if deadline < bus_now b (fst st) then (SSRTimeoutError, [])
      else if cq_run_error (snd st) \<noteq> None then (SSRHardwareError, [])
      else if \<not> cq_running (snd st) then (Py RuntimeError, [])
      else (Py RuntimeError, [None]))"

text \<open>
  How a batch may end, from the queue \<open>q\<close> it started on, with \<open>n\<close> records still to come: with just
  as many, or with an exception and fewer; before the deadline the queue is not empty then.
\<close>

definition batch_end ::
  "('h, 'r) bus \<Rightarrow> bool \<Rightarrow> int \<Rightarrow> nat \<Rightarrow> commit_record list \<Rightarrow> 'r commit_queue \<Rightarrow>
     (drv_error + commit_record list option) \<times> ('h \<times> 'r commit_queue) \<Rightarrow> bool" where
  "batch_end b orderly deadline n out q result \<longleftrightarrow>
     (case fst result of
        Inr None \<Rightarrow> False
      | Inr (Some recs) \<Rightarrow>
          \<exists>new. recs = out @ new \<and> length new = n \<and> (orderly \<longrightarrow> taken q (map Some new) (snd (snd result)))
      | Inl e \<Rightarrow>
          \<exists>lost marker. batch_error b deadline (snd result) = (e, marker) \<and> length lost < n \<and>
            (marker = [] \<and> e \<noteq> SSRTimeoutError \<longrightarrow> cq_completed (snd (snd result)) \<noteq> []) \<and>
            (orderly \<longrightarrow> taken q (map Some lost @ marker) (snd (snd result))))"

lemma batch_end_slept:
  assumes "batch_end b orderly deadline n out q1 result" "orderly \<Longrightarrow> \<exists>added. cq_completed q1 = cq_completed q @ added"
  shows "batch_end b orderly deadline n out q result"
proof -
  have "orderly \<longrightarrow> taken q items q'" if "orderly \<longrightarrow> taken q1 items q'" for items q'
    using that assms(2) taken_later by blast
  with assms(1) show ?thesis unfolding batch_end_def
    by (cases "fst result"; simp split: option.splits; blast)
qed

lemma batch_end_received:
  assumes "batch_end b orderly deadline n (out @ [x]) q1 result" "cq_completed q = Some x # cq_completed q1"
  shows "batch_end b orderly deadline (Suc n) out q result"
proof -
  have t: "taken q1 items q' \<Longrightarrow> taken q (Some x # items) q'" for items q'
    by (rule taken_first [OF assms(2) refl])
  show ?thesis
  proof (cases "fst result")
    case (Inl e)
    with assms(1) obtain lost marker where
      "batch_error b deadline (snd result) = (e, marker)" "length (x # lost) < Suc n"
      "marker = [] \<and> e \<noteq> SSRTimeoutError \<longrightarrow> cq_completed (snd (snd result)) \<noteq> []"
      "orderly \<longrightarrow> taken q (map Some (x # lost) @ marker) (snd (snd result))"
      using t by (auto simp: batch_end_def)
    then show ?thesis unfolding batch_end_def Inl sum.case by blast
  next
    case (Inr v)
    then obtain new where "v = Some (out @ x # new)" "length new = n"
      "orderly \<longrightarrow> taken q (map Some (x # new)) (snd (snd result))"
      using assms(1) t by (auto simp: batch_end_def split: option.splits)
    then show ?thesis by (auto simp: batch_end_def Inr intro!: exI [of _ "x # new"])
  qed
qed

lemma recv_loop_end:
  assumes clock: "clock_advances b others"
  shows "count - length out + polls_left deadline (bus_now b h) < fuel \<Longrightarrow> length out \<le> count \<Longrightarrow>
    batch_end b (only_adds others) deadline (count - length out) out q (recv_loop b others fuel count deadline out (h, q))"
proof (induction fuel arbitrary: out h q)
  case (Suc fuel)
  consider "length out = count" | "length out < count" "deadline < bus_now b h"
    | "length out < count" "bus_now b h \<le> deadline" "cq_completed q = []"
    | item rest where "length out < count" "bus_now b h \<le> deadline" "cq_completed q = item # rest"
    using Suc.prems(2) by (cases "cq_completed q") fastforce+
  then show ?case
  proof cases
    case 1
    then show ?thesis by (simp add: batch_end_def taken_def)
  next
    case 2
    then show ?thesis by (auto simp: batch_end_def batch_error_def taken_def intro!: exI [of _ "[]"])
  next
    case 3
    obtain h1 q1 where slept: "others (bus_timer b 100 h, q) = (h1, q1)" by fastforce
    have "bus_now b h + 100 \<le> bus_now b h1"
      using clock [unfolded clock_advances_def] slept by (metis fst_conv of_nat_numeral order_trans)
    with polls_left_decreases 3 Suc.prems have "count - length out + polls_left deadline (bus_now b h1) < fuel" by fastforce
    from Suc.IH [OF this Suc.prems(2), of q1] have
      "batch_end b (only_adds others) deadline (count - length out) out q (recv_loop b others fuel count deadline out (h1, q1))"
      by (rule batch_end_slept) (metis only_adds_def slept snd_conv)
    with 3 slept show ?thesis by simp
  next
    case 4
    note recv = recv_nonempty [OF 4(3), of h]
    have here: "taken q [] q" "taken q [item] (q\<lparr>cq_completed := rest\<rparr>)" using 4(3) by (simp_all add: taken_def)
    show ?thesis
    proof (cases "cq_run_error q = None \<and> cq_running q \<and> item \<noteq> None")
      case False
      then have "\<exists>e q'. cq_recv (h, q) = (Inl e, (h, q'))"
        by (cases "cq_run_error q"; cases "cq_running q"; cases item; simp add: recv)
      then obtain e q' where fail: "cq_recv (h, q) = (Inl e, (h, q'))" by blast
      with False 4 here have "batch_end b (only_adds others) deadline (count - length out) out q (Inl e, (h, q'))"
        by (auto simp: recv batch_end_def batch_error_def split: if_splits intro!: exI [of _ "[]"])
      with 4 fail show ?thesis by (simp add: abind_run)
    next
      case True
      then obtain x where x: "item = Some x" by blast
      let ?q1 = "q\<lparr>cq_completed := rest\<rparr>"
      have got: "cq_recv (h, q) = (Inr (Some x), (h, ?q1))" using True x by (simp add: recv)
      have "count - length (out @ [x]) + polls_left deadline (bus_now b h) < fuel" using Suc.prems 4(1) by simp
      from Suc.IH [OF this, of ?q1] 4(1) have
        "batch_end b (only_adds others) deadline (count - Suc (length out)) (out @ [x]) ?q1
           (recv_loop b others fuel count deadline (out @ [x]) (h, ?q1))" by simp
      from batch_end_received [OF this, of q] 4(1,3) x have
        "batch_end b (only_adds others) deadline (count - length out) out q
           (recv_loop b others fuel count deadline (out @ [x]) (h, ?q1))" by (simp add: Suc_diff_Suc)
      with 4 got show ?thesis by (simp add: abind_run)
    qed
  qed
qed simp

text \<open>
  C27. \<open>recv_batch\<close> ends, and how: with a clock that sleeping advances, as many iterations as records
  asked for plus one per 100 ns of the timeout (and two more) decide it, whatever the other tasks do.
  A batch that is returned has exactly the records asked for. Otherwise it raises with fewer:
  \<open>SSRTimeoutError\<close> once the deadline has passed, and before that what \<open>recv\<close> raises on a queue that
  is not empty: \<open>SSRHardwareError\<close> if the run loop has failed, \<open>RuntimeError\<close> if it has stopped or its
  stop marker came up. If the other tasks only add to the queue, the records are the first ones of the
  queue, in order, and what they added is behind them; on an exception the records taken are lost.
\<close>

theorem recv_batch_terminates:
  assumes "clock_advances b others" and "count + timeout_ns div 100 + 2 \<le> fuel"
  shows "case recv_batch b others fuel count timeout_ns (h, q) of (r, (h', q')) \<Rightarrow>
      (case r of
         Inr None \<Rightarrow> False
       | Inr (Some recs) \<Rightarrow> length recs = count \<and> (only_adds others \<longrightarrow> taken q (map Some recs) q')
       | Inl e \<Rightarrow>
           (\<exists>lost marker. batch_error b (bus_now b h + int timeout_ns) (h', q') = (e, marker) \<and> length lost < count \<and>
              (marker = [] \<and> e \<noteq> SSRTimeoutError \<longrightarrow> cq_completed q' \<noteq> []) \<and>
              (only_adds others \<longrightarrow> taken q (map Some lost @ marker) q')))"
proof -
  have "polls_left (bus_now b h + int timeout_ns) (bus_now b h) = timeout_ns div 100 + 1"
    by (simp add: polls_left_def nat_add_distrib flip: zdiv_int)
  with recv_loop_end [OF assms(1), of count "[]" "bus_now b h + int timeout_ns" h fuel q] assms(2) have
    "batch_end b (only_adds others) (bus_now b h + int timeout_ns) count [] q
       (recv_loop b others fuel count (bus_now b h + int timeout_ns) [] (h, q))" by simp
  then show ?thesis by (auto simp: recv_batch_def batch_end_def split: sum.splits option.splits)
qed

text \<open>A run loop that adds a record while the batch sleeps, behind one that is there already.\<close>

definition steady_others :: "nat \<times> unit commit_queue \<Rightarrow> nat \<times> unit commit_queue" where
  "steady_others st =
     (fst st, (snd st)\<lparr>cq_completed := cq_completed (snd st) @
       [Some \<lparr>rec_buffer_index = 0, rec_slot_index = 6, rec_data = [], rec_sim_time_ns = int (fst st)\<rparr>]\<rparr>)"

definition running_queue :: "unit commit_queue" where
  "running_queue = ready_queue\<lparr>cq_running := True, cq_completed :=
     [Some \<lparr>rec_buffer_index = 0, rec_slot_index = 5, rec_data = [], rec_sim_time_ns = 0\<rparr>]\<rparr>"

lemma steady_run:
  "fst (recv_batch filled_bus steady_others 13 2 900 (0, running_queue)) = Inr (Some
     [\<lparr>rec_buffer_index = 0, rec_slot_index = 5, rec_data = [], rec_sim_time_ns = 0\<rparr>,
      \<lparr>rec_buffer_index = 0, rec_slot_index = 6, rec_data = [], rec_sim_time_ns = 100\<rparr>])"
  by code_simp

theorem recv_batch_terminates_witness:
  "\<exists>recs h' q'. recv_batch filled_bus steady_others 13 2 900 (0, running_queue) = (Inr (Some recs), (h', q')) \<and>
     map rec_slot_index recs = [5, 6] \<and> taken running_queue (map Some recs) q'"
proof -
  obtain r h' q' where run: "recv_batch filled_bus steady_others 13 2 900 (0, running_queue) = (r, (h', q'))"
    by (metis surj_pair)
  have "clock_advances filled_bus steady_others" by (simp add: clock_advances_def filled_bus_def steady_others_def)
  from recv_batch_terminates [OF this, of 2 900 13 0 running_queue] run steady_run
  show ?thesis by (simp add: only_adds_def steady_others_def)
qed

end
