(* ===== verification/Ssr_Device.thy ===== *)
theory Ssr_Device
  imports Ssr_Commit
begin

text \<open>
  The consensus core's registers and the device object of \<open>ssr_dataplane.py\<close>: its life cycle
  (probe, open, start, stop, close, remove, reset) over the two queues, and the configuration of a
  replica. The parent driver is what \<open>probe\<close> asserts of it; enumerating register blocks is a
  parameter of the bus. Starting the run task is a flag; the task's passes are those of the commit
  queue.
\<close>


section \<open>The consensus core\<close>

definition REG_CONSENSUS_HALT :: int where "REG_CONSENSUS_HALT = RBB_CONSENSUS_CORE + 0x000"
definition REG_CONSENSUS_GLOBAL_ENABLE :: int where "REG_CONSENSUS_GLOBAL_ENABLE = RBB_CONSENSUS_CORE + 0x004"
definition REG_CONSENSUS_RUN_ID :: int where "REG_CONSENSUS_RUN_ID = RBB_CONSENSUS_CORE + 0x008"
definition REG_CONSENSUS_MEMBERSHIP :: int where "REG_CONSENSUS_MEMBERSHIP = RBB_CONSENSUS_CORE + 0x00C"
definition REG_CONSENSUS_ACTIVATE :: int where "REG_CONSENSUS_ACTIVATE = RBB_CONSENSUS_CORE + 0x010"
definition REG_CONSENSUS_REBOOT :: int where "REG_CONSENSUS_REBOOT = RBB_CONSENSUS_CORE + 0x014"

definition set_enabled :: "('h, 'r) bus \<Rightarrow> bool \<Rightarrow> ('h, 's, unit) drv" where
  "set_enabled b enabled = write_dword b REG_CONSENSUS_GLOBAL_ENABLE (if enabled then 1 else 0)"

definition read_flag :: "('h, 'r) bus \<Rightarrow> int \<Rightarrow> ('h, 's, bool) drv" where
  "read_flag b a = abind (read_dword b a) (\<lambda>v. aret (v AND 1 \<noteq> 0))"

definition is_enabled :: "('h, 'r) bus \<Rightarrow> ('h, 's, bool) drv" where
  "is_enabled b = read_flag b REG_CONSENSUS_GLOBAL_ENABLE"

definition read_run_id :: "('h, 'r) bus \<Rightarrow> ('h, 's, int) drv" where
  "read_run_id b = read_dword b REG_CONSENSUS_RUN_ID"

definition read_activate :: "('h, 'r) bus \<Rightarrow> ('h, 's, bool) drv" where
  "read_activate b = read_flag b REG_CONSENSUS_ACTIVATE"

definition read_halt :: "('h, 'r) bus \<Rightarrow> ('h, 's, bool) drv" where
  "read_halt b = read_flag b REG_CONSENSUS_HALT"

definition core_install_config :: "('h, 'r) bus \<Rightarrow> int \<Rightarrow> int \<Rightarrow> ('h, 's, unit) drv" where
  "core_install_config b run_id membership =
     athen (validate_u32 run_id) (
     athen (validate_u32 membership) (
     athen (write_dword b REG_CONSENSUS_RUN_ID run_id) (
     athen (write_dword b REG_CONSENSUS_MEMBERSHIP membership)
       (write_dword b REG_CONSENSUS_ACTIVATE 1))))"

definition core_verify :: "('h, 'r) bus \<Rightarrow> int \<Rightarrow> int \<Rightarrow> ('h, 's, unit) drv" where
  "core_verify b run_id membership =
     abind (read_run_id b) (\<lambda>actual_run_id.
     abind (read_dword b REG_CONSENSUS_MEMBERSHIP) (\<lambda>actual_membership.
       aguard (actual_run_id = run_id \<and> actual_membership = membership) SSRHardwareError))"

definition core_activate :: "('h, 'r) bus \<Rightarrow> int \<Rightarrow> int \<Rightarrow> bool \<Rightarrow> ('h, 's, unit) drv" where
  "core_activate b run_id membership verify =
     athen (core_install_config b run_id membership) (
     athen (if verify then core_verify b run_id membership else aret ())
       (write_dword b REG_CONSENSUS_ACTIVATE 1))"

definition core_deactivate :: "('h, 'r) bus \<Rightarrow> ('h, 's, unit) drv" where
  "core_deactivate b = write_dword b REG_CONSENSUS_ACTIVATE 0"

definition core_reboot :: "('h, 'r) bus \<Rightarrow> ('h, 's, unit) drv" where
  "core_reboot b = athen (write_dword b REG_CONSENSUS_REBOOT 1) (write_dword b REG_CONSENSUS_REBOOT 0)"

definition wait_halt :: "('h, 'r) bus \<Rightarrow> nat \<Rightarrow> ('h, 's, bool) drv" where
  "wait_halt b timeout_polls =
     acatch (abind (poll_register b (read_dword b REG_CONSENSUS_HALT) (\<lambda>x. x AND 1 \<noteq> 0) timeout_polls)
               (\<lambda>_. aret True))
       (\<lambda>e. if e = SSRTimeoutError then aret False else araise e)"

definition assert_not_halted :: "('h, 'r) bus \<Rightarrow> ('h, 's, unit) drv" where
  "assert_not_halted b = abind (read_halt b) (\<lambda>halted. aguard (\<not> halted) SSRHardwareError)"

text \<open>The values \<open>_diagnose\<close> shows: enabled, run id, membership, activate, halt.\<close>

definition core_diagnose :: "('h, 'r) bus \<Rightarrow> ('h, 's, bool \<times> int \<times> int \<times> bool \<times> bool) drv" where
  "core_diagnose b =
     abind (is_enabled b) (\<lambda>en.
     abind (read_run_id b) (\<lambda>run_id.
     abind (read_dword b REG_CONSENSUS_MEMBERSHIP) (\<lambda>membership.
     abind (read_activate b) (\<lambda>act.
     abind (read_halt b) (\<lambda>halt.
       aret (en, run_id, membership, act, halt))))))"


section \<open>The device\<close>

datatype device_state = UNINITIALIZED | PROBED | OPENED | DEVICE_RUNNING

text \<open>\<open>dv_rb\<close> is the attribute \<open>_rb\<close>: absent before \<open>probe\<close>, then whether the block was found.\<close>

record 'r device =
  dv_state :: device_state
  dv_rb :: "bool option"
  dv_proposal :: "'r proposal_queue option"
  dv_commit :: "'r commit_queue option"
  dv_consensus :: bool
  dv_commit_task :: bool

type_synonym ('h, 'r, 'a) dv_act = "('h, 'r device, 'a) drv"

definition new_device :: "'r device" where
  "new_device = \<lparr>dv_state = UNINITIALIZED, dv_rb = None, dv_proposal = None, dv_commit = None,
     dv_consensus = False, dv_commit_task = False\<rparr>"

record parent =
  par_present :: bool
  par_initialized :: bool
  par_has_app_bar :: bool

definition require_state :: "device_state list \<Rightarrow> ('h, 'r, unit) dv_act" where
  "require_state allowed = abind (own dv_state) (\<lambda>st. aguard (st \<in> set allowed) (Py RuntimeError))"

text \<open>A method of the proposal or commit queue, called through the device.\<close>

definition on_proposal :: "('h, 'r, 'a) pq_act \<Rightarrow> ('h, 'r, 'a) dv_act" where
  "on_proposal m st =
     (case st of (h, d) \<Rightarrow>
       (case dv_proposal d of
          None \<Rightarrow> (Inl (Py AttributeError), (h, d))
        | Some q \<Rightarrow> (case m (h, q) of (r, (h', q')) \<Rightarrow> (r, (h', d\<lparr>dv_proposal := Some q'\<rparr>)))))"

definition on_commit :: "('h, 'r, 'a) cq_act \<Rightarrow> ('h, 'r, 'a) dv_act" where
  "on_commit m st =
     (case st of (h, d) \<Rightarrow>
       (case dv_commit d of
          None \<Rightarrow> (Inl (Py AttributeError), (h, d))
        | Some q \<Rightarrow> (case m (h, q) of (r, (h', q')) \<Rightarrow> (r, (h', d\<lparr>dv_commit := Some q'\<rparr>)))))"

text \<open>The three properties that give out the child objects.\<close>

definition dv_get_proposal :: "('h, 'r, 'r proposal_queue) dv_act" where
  "dv_get_proposal = abind (own dv_proposal) (aneed (Py RuntimeError))"

definition dv_get_commit :: "('h, 'r, 'r commit_queue) dv_act" where
  "dv_get_commit = abind (own dv_commit) (aneed (Py RuntimeError))"

definition dv_get_consensus :: "('h, 'r, unit) dv_act" where
  "dv_get_consensus = abind (own dv_consensus) (\<lambda>c. aguard c (Py RuntimeError))"

definition enumerate_app_blocks :: "('h, 'r) bus \<Rightarrow> ('h, 'r, reg_block list) dv_act" where
  "enumerate_app_blocks b st =
     (case st of (h, d) \<Rightarrow>
       (case enumerate_reg_blocks (bus_app_read b) 0 [] h of
          (Inl e, blocks, h') \<Rightarrow> (Inl (Py e), (h', d))
        | (Inr _, blocks, h') \<Rightarrow> (Inr blocks, (h', d))))"

definition lift_result :: "'a result \<Rightarrow> ('h, 's, 'a) drv" where
  "lift_result r = (case r of Inl e \<Rightarrow> araise (Py e) | Inr x \<Rightarrow> aret x)"

definition dv_probe :: "('h, 'r) bus \<Rightarrow> parent \<Rightarrow> ('h, 'r, unit) dv_act" where
  "dv_probe b par =
     athen (require_state [UNINITIALIZED]) (
     athen (aguard (par_present par) (Py AssertionError)) (
     athen (aguard (par_initialized par) (Py AssertionError)) (
     athen (aguard (par_has_app_bar par) (Py AssertionError)) (
     abind (enumerate_app_blocks b) (\<lambda>blocks.
     let found = find_reg_block SSR_RB_TYPE (Some SSR_RB_VERSION) 0 blocks \<noteq> None in
     athen (set_own (\<lambda>d. d\<lparr>dv_rb := Some found\<rparr>)) (
     athen (aguard found (Py RuntimeError)) (
     athen (set_own (\<lambda>d. d\<lparr>dv_proposal := Some new_proposal_queue\<rparr>)) (
     abind (lift_result new_commit_queue) (\<lambda>cq.
       set_own (\<lambda>d. d\<lparr>dv_commit := Some cq, dv_consensus := True, dv_state := PROBED\<rparr>))))))))))"

definition dv_open :: "('h, 'r) bus \<Rightarrow> ('h, 'r, unit) dv_act" where
  "dv_open b =
     athen (require_state [PROBED]) (
     athen (on_proposal (pq_open b 8)) (
     athen (on_commit (cq_open b 16))
       (set_own (\<lambda>d. d\<lparr>dv_state := OPENED\<rparr>))))"

definition dv_reset :: "('h, 'r, unit) dv_act" where
  "dv_reset =
     athen (require_state [OPENED, PROBED, DEVICE_RUNNING, UNINITIALIZED])
       (set_own (\<lambda>d. d\<lparr>dv_state := UNINITIALIZED\<rparr>))"

definition dv_start :: "('h, 'r) bus \<Rightarrow> ('h, 'r, unit) dv_act" where
  "dv_start b =
     athen (require_state [OPENED]) (
     athen (on_commit (cq_start b))
       (set_own (\<lambda>d. d\<lparr>dv_commit_task := True, dv_state := DEVICE_RUNNING\<rparr>)))"

definition dv_stop :: "('h, 'r) bus \<Rightarrow> ('h, 'r, unit) dv_act" where
  "dv_stop b =
     athen (require_state [DEVICE_RUNNING]) (
     athen (on_commit (cq_stop b))
       (set_own (\<lambda>d. d\<lparr>dv_commit_task := False, dv_state := OPENED\<rparr>)))"

definition dv_close :: "('h, 'r, unit) dv_act" where
  "dv_close = athen (require_state [OPENED]) (set_own (\<lambda>d. d\<lparr>dv_state := PROBED\<rparr>))"

definition dv_remove :: "('h, 'r, unit) dv_act" where
  "dv_remove = athen (require_state [PROBED]) (set_own (\<lambda>d. d\<lparr>dv_state := UNINITIALIZED\<rparr>))"

text \<open>A register access of the device itself: \<open>_rb\<close> must exist and not be \<open>None\<close>.\<close>

definition need_rb :: "('h, 'r, unit) dv_act" where
  "need_rb = abind (own dv_rb) (\<lambda>rb. aguard (rb = Some True) (Py AttributeError))"

definition dv_write :: "('h, 'r) bus \<Rightarrow> int \<Rightarrow> int \<Rightarrow> ('h, 'r, unit) dv_act" where
  "dv_write b a v = athen need_rb (write_dword b a v)"

definition configure_replica :: "('h, 'r) bus \<Rightarrow> int \<Rightarrow> int \<Rightarrow> int \<Rightarrow> int \<Rightarrow> ('h, 'r, unit) dv_act" where
  "configure_replica b replica_id replica_num round_length ethernet_type =
     athen (aguard (\<not> (replica_num = 0 \<or> replica_num > COMMON_MAX_REPLICAS)) (Py ValueError)) (
     athen (aguard (\<not> replica_id \<ge> replica_num) (Py ValueError)) (
     athen (aguard (round_length \<noteq> 0) (Py ValueError)) (
     athen (dv_write b COMMON_REG_CONFIG_REPLICA_ID replica_id) (
     athen (dv_write b COMMON_REG_CONFIG_REPLICA_NUM replica_num) (
     athen (dv_write b COMMON_REG_CONFIG_ROUND_LEN_NS round_length)
       (dv_write b COMMON_REG_CONFIG_ETH_TYPE ethernet_type))))))"


section \<open>The MAC table\<close>

text \<open>A MAC address is an integer or a sequence of integers that \<open>bytes()\<close> accepts.\<close>

datatype mac = Mac_int int | Mac_bytes "int list"

fun mac_to_int :: "mac \<Rightarrow> int result" where
  "mac_to_int (Mac_int i) = (if i < 0 \<or> i > 0xFFFFFFFFFFFF then Inl ValueError else Inr i)"
| "mac_to_int (Mac_bytes xs) =
     (if \<not> list_all (\<lambda>x. 0 \<le> x \<and> x \<le> 255) xs then Inl ValueError
      else if length xs \<noteq> 6 then Inl ValueError
      else Inr (be_int (map word_of_int xs)))"

definition check_mac_index :: "int \<Rightarrow> ('h, 'r, unit) dv_act" where
  "check_mac_index index =
     aguard (\<not> (index < 0 \<or> index \<ge> COMMON_MAX_REPLICAS)) (Py ValueError)"

definition write_mac_address :: "('h, 'r) bus \<Rightarrow> int \<Rightarrow> mac \<Rightarrow> ('h, 'r, unit) dv_act" where
  "write_mac_address b index m =
     athen (check_mac_index index) (
     abind (lift_result (mac_to_int m)) (\<lambda>v.
       athen (dv_write b (COMMON_REG_CONFIG_MACTABLE_ADDR_LO + index * COMMON_MAC_ENTRY_STRIDE) (lo32 v))
         (dv_write b (COMMON_REG_CONFIG_MACTABLE_ADDR_HI + index * COMMON_MAC_ENTRY_STRIDE)
           (drop_bit 32 v AND 0xFFFF))))"

definition read_mac_address :: "('h, 'r) bus \<Rightarrow> int \<Rightarrow> ('h, 'r, int) dv_act" where
  "read_mac_address b index =
     athen (check_mac_index index) (
     athen need_rb (
     abind (read_dword b (COMMON_REG_CONFIG_MACTABLE_ADDR_LO + index * COMMON_MAC_ENTRY_STRIDE)) (\<lambda>lo.
     abind (read_dword b (COMMON_REG_CONFIG_MACTABLE_ADDR_HI + index * COMMON_MAC_ENTRY_STRIDE)) (\<lambda>hi.
       aret (push_bit 32 (hi AND 0xFFFF) OR lo)))))"


section \<open>The life cycle\<close>

datatype device_op = Probe parent | Open | Reset | Start | Stop | Close | Remove

fun perform_op :: "('h, 'r) bus \<Rightarrow> device_op \<Rightarrow> ('h, 'r, unit) dv_act" where
  "perform_op b (Probe par) = dv_probe b par"
| "perform_op b Open = dv_open b"
| "perform_op b Reset = dv_reset"
| "perform_op b Start = dv_start b"
| "perform_op b Stop = dv_stop b"
| "perform_op b Close = dv_close"
| "perform_op b Remove = dv_remove"

text \<open>The automaton the operations are meant to follow.\<close>

fun life_step :: "device_op \<Rightarrow> device_state \<Rightarrow> device_state option" where
  "life_step (Probe par) UNINITIALIZED = Some PROBED"
| "life_step Open PROBED = Some OPENED"
| "life_step Reset st = Some UNINITIALIZED"
| "life_step Start OPENED = Some DEVICE_RUNNING"
| "life_step Stop DEVICE_RUNNING = Some OPENED"
| "life_step Close OPENED = Some PROBED"
| "life_step Remove PROBED = Some UNINITIALIZED"
| "life_step op st = None"

lemma require_state_run [simp]:
  "athen (require_state allowed) m (h, d) =
     (if dv_state d \<in> set allowed then m (h, d) else (Inl (Py RuntimeError), (h, d)))"
  by (simp add: require_state_def athen_abind athen_aguard)

lemma on_queue_state:
  "on_proposal m (h, d) = (r, (h', d')) \<Longrightarrow> dv_state d' = dv_state d"
  "on_commit n (h, d) = (r', (h', d')) \<Longrightarrow> dv_state d' = dv_state d"
  by (auto simp: on_proposal_def on_commit_def split: option.splits prod.splits)

lemma enumerate_app_blocks_run [simp]:
  "abind (enumerate_app_blocks b) k (h, d) =
     (case enumerate_reg_blocks (bus_app_read b) 0 [] h of
        (Inl e, blocks, h') \<Rightarrow> (Inl (Py e), (h', d))
      | (Inr _, blocks, h') \<Rightarrow> k blocks (h', d))"
  by (auto simp: abind_def enumerate_app_blocks_def split: prod.split sum.split)

lemma new_commit_queue_Inr: "\<exists>q. new_commit_queue = Inr q \<and> regs_ok q \<and> \<not> cq_opened q"
  using new_commit_queue_ok by blast

lemma new_commit_queue_props: "new_commit_queue = Inr q \<Longrightarrow> regs_ok q \<and> \<not> cq_opened q"
  using new_commit_queue_Inr by (metis sum.inject(2))

lemma dv_probe_run:
  fixes d :: "'r device"
  obtains e h' d' where "dv_probe b par (h, d) = (Inl e, (h', d'))" "dv_state d' = dv_state d"
      "d' = d \<or> (\<exists>x. d' = d\<lparr>dv_rb := x\<rparr>)"
  | h' q where "dv_state d = UNINITIALIZED" "new_commit_queue = Inr q"
      "dv_probe b par (h, d) = (Inr (), (h', d\<lparr>dv_rb := Some True, dv_proposal := Some new_proposal_queue,
         dv_commit := Some q, dv_consensus := True, dv_state := PROBED\<rparr>))"
proof -
  obtain q :: "'r commit_queue" where q: "new_commit_queue = Inr q" using new_commit_queue_Inr by blast
  note run = dv_probe_def athen_aguard lift_result_def q
  show thesis
  proof (cases "dv_state d = UNINITIALIZED \<and> par_present par \<and> par_initialized par \<and> par_has_app_bar par")
    case True
    obtain r blocks h' where walk: "enumerate_reg_blocks (bus_app_read b) 0 [] h = (r, blocks, h')"
      using prod_cases3 by blast
    show thesis
    proof (cases "find_reg_block SSR_RB_TYPE (Some SSR_RB_VERSION) 0 blocks = None")
      case True': True
      show thesis using that True True' walk by (cases r) (auto simp: run Let_def)
    next
      case False
      show thesis using that True False walk by (cases r) (auto simp: run Let_def)
    qed
  next
    case False
    then have "\<exists>e. dv_probe b par (h, d) = (Inl e, (h, d))" by (auto simp: run)
    with that(1) show thesis by blast
  qed
qed

text \<open>An operation that starts in the right state, works on the children and then sets the new state.\<close>

lemma staged_state:
  assumes "\<And>h d r h' d'. m (h, d) = (r, (h', d')) \<Longrightarrow> dv_state d' = dv_state d"
    and "\<And>d. dv_state (f d) = new"
  shows "case athen (require_state [old]) (athen m (set_own f)) (h, d) of
      (Inr _, (_, d')) \<Rightarrow> dv_state d = old \<and> dv_state d' = new
    | (Inl _, (_, d')) \<Rightarrow> dv_state d' = dv_state d"
proof (cases "dv_state d = old")
  case True
  obtain r h' d' where m: "m (h, d) = (r, (h', d'))" by (metis prod.exhaust)
  with assms True show ?thesis by (cases r) (auto simp: athen_run)
qed simp

text \<open>
  C39. Every operation of the device refines the life-cycle automaton: an operation that returns
  was allowed in the state it started in and leaves the device in the automaton's next state; one
  that raises leaves the state as it was.
\<close>

theorem device_follows_life_cycle:
  "case perform_op b op (h, d) of
     (Inr _, (_, d')) \<Rightarrow> life_step op (dv_state d) = Some (dv_state d')
   | (Inl _, (_, d')) \<Rightarrow> dv_state d' = dv_state d"
proof (cases op)
  case (Probe par)
  then show ?thesis by (cases rule: dv_probe_run [of b par h d]) auto
next
  case Open
  let ?m = "athen (on_proposal (pq_open b 8)) (on_commit (cq_open b 16))"
  have st: "dv_state d' = dv_state d" if "?m (h, d) = (r, (h', d'))" for h d r h' d'
  proof -
    obtain r1 h1 d1 where 1: "on_proposal (pq_open b 8) (h, d) = (r1, (h1, d1))" by (metis prod.exhaust)
    with that on_queue_state(1) [OF 1] show ?thesis
      by (cases r1) (auto simp: athen_run dest: on_queue_state(2))
  qed
  have "case athen (require_state [PROBED]) (athen ?m (set_own (\<lambda>d. d\<lparr>dv_state := OPENED\<rparr>))) (h, d) of
      (Inr _, (_, d')) \<Rightarrow> dv_state d = PROBED \<and> dv_state d' = OPENED
    | (Inl _, (_, d')) \<Rightarrow> dv_state d' = dv_state d"
    by (rule staged_state) (use st in auto)
  then show ?thesis by (auto simp: Open dv_open_def athen_athen split: prod.splits sum.splits)
next
  case Start
  have "case perform_op b Start (h, d) of
      (Inr _, (_, d')) \<Rightarrow> dv_state d = OPENED \<and> dv_state d' = DEVICE_RUNNING
    | (Inl _, (_, d')) \<Rightarrow> dv_state d' = dv_state d"
    unfolding perform_op.simps dv_start_def by (rule staged_state) (auto dest: on_queue_state(2))
  then show ?thesis unfolding Start by (auto split: prod.splits sum.splits)
next
  case Stop
  have "case perform_op b Stop (h, d) of
      (Inr _, (_, d')) \<Rightarrow> dv_state d = DEVICE_RUNNING \<and> dv_state d' = OPENED
    | (Inl _, (_, d')) \<Rightarrow> dv_state d' = dv_state d"
    unfolding perform_op.simps dv_stop_def by (rule staged_state) (auto dest: on_queue_state(2))
  then show ?thesis unfolding Stop by (auto split: prod.splits sum.splits)
next
  case Reset
  then show ?thesis by (cases "dv_state d") (simp_all add: dv_reset_def)
qed (auto simp: dv_close_def dv_remove_def)


section \<open>The device never opens\<close>

text \<open>The states the device and the hardware can reach from a new device object.\<close>

inductive device_reachable :: "('h, 'r) bus \<Rightarrow> 'h \<times> 'r device \<Rightarrow> bool" for b where
  fresh: "device_reachable b (h, new_device)"
| op: "device_reachable b s \<Longrightarrow> perform_op b op1 s = (r, s') \<Longrightarrow> device_reachable b s'"
| hardware: "device_reachable b (h, d) \<Longrightarrow> device_reachable b (h', d)"

definition closed_device :: "'r device \<Rightarrow> bool" where
  "closed_device d \<longleftrightarrow>
     dv_state d \<in> {UNINITIALIZED, PROBED} \<and>
     (case dv_commit d of None \<Rightarrow> dv_state d = UNINITIALIZED | Some q \<Rightarrow> regs_ok q \<and> \<not> cq_opened q)"

lemma dv_open_closed:
  assumes "closed_device d"
  shows "\<exists>e h' d'. dv_open b (h, d) = (Inl e, (h', d')) \<and> closed_device d'"
proof (cases "dv_state d = PROBED")
  case True
  with assms obtain q where q: "dv_commit d = Some q" "regs_ok q" "\<not> cq_opened q"
    by (auto simp: closed_device_def split: option.splits)
  obtain r h1 d1 where 1: "on_proposal (pq_open b 8) (h, d) = (r, (h1, d1))" by (metis prod.exhaust)
  then have d1: "dv_commit d1 = Some q" "dv_state d1 = PROBED"
    using q True by (auto simp: on_proposal_def split: option.splits prod.splits)
  from cq_open_raises [OF q(2), of b 16 h1] q(3) obtain e h2 q2 where
    2: "cq_open b 16 (h1, q) = (Inl e, (h2, q2))" "regs_ok q2" "\<not> cq_opened q2" by blast
  have 3: "on_commit (cq_open b 16) (h1, d1) = (Inl e, (h2, d1\<lparr>dv_commit := Some q2\<rparr>))"
    using d1 2 by (simp add: on_commit_def)
  have "closed_device d1" "closed_device (d1\<lparr>dv_commit := Some q2\<rparr>)"
    using d1 q 2 by (simp_all add: closed_device_def)
  with 1 3 True show ?thesis by (cases r) (auto simp: dv_open_def athen_run)
qed (use assms in \<open>simp add: dv_open_def\<close>)

lemma perform_op_closed:
  assumes "closed_device d" "perform_op b op1 (h, d) = (r, (h', d'))"
  shows "closed_device d'"
proof (cases op1)
  case (Probe par)
  show ?thesis
  proof (cases rule: dv_probe_run [of b par h d])
    case (1 e h'' d'')
    with assms Probe show ?thesis by (auto simp: closed_device_def split: option.splits)
  next
    case (2 h'' q)
    with assms Probe new_commit_queue_props [OF 2(2)] show ?thesis by (auto simp: closed_device_def)
  qed
next
  case Open
  with assms dv_open_closed [OF assms(1), of b h] show ?thesis by auto
next
  case Reset
  with assms show ?thesis by (auto simp: dv_reset_def closed_device_def split: if_splits option.splits)
next
  case Remove
  with assms show ?thesis by (auto simp: dv_remove_def closed_device_def split: if_splits option.splits)
qed (use assms in \<open>auto simp: dv_start_def dv_stop_def dv_close_def closed_device_def\<close>)

inductive_cases device_reachable_cases: "device_reachable b s"

lemma device_reachable_closed: "device_reachable b s \<Longrightarrow> closed_device (snd s)"
proof (induction rule: device_reachable.induct)
  case (fresh h)
  then show ?case by (simp add: closed_device_def new_device_def)
next
  case (op s op1 r s')
  then show ?case using perform_op_closed by (metis prod.collapse)
qed simp

text \<open>
  C40. Because the commit queue cannot be configured, the device never leaves the probed state:
  from a new device, through any operations and whatever the hardware does, it is uninitialized or
  probed, and \<open>open\<close> raises.
\<close>

theorem device_never_opens:
  assumes "device_reachable b (h, d)"
  shows "dv_state d \<in> {UNINITIALIZED, PROBED} \<and> (\<exists>e s'. dv_open b (h, d) = (Inl e, s'))"
proof -
  have "closed_device d" using device_reachable_closed [OF assms] by simp
  with dv_open_closed [of d b h] show ?thesis by (auto simp: closed_device_def)
qed

theorem device_never_opens_witness:
  "\<exists>d. dv_state d = PROBED \<and> (\<exists>e s'. dv_open filled_bus (0, d) = (Inl e, s'))"
proof -
  obtain q :: "unit commit_queue" where q: "new_commit_queue = Inr q" using new_commit_queue_Inr by blast
  let ?par = "\<lparr>par_present = True, par_initialized = True, par_has_app_bar = True\<rparr>"
  define d :: "unit device" where "d = \<lparr>dv_state = PROBED, dv_rb = Some True,
    dv_proposal = Some new_proposal_queue, dv_commit = Some q, dv_consensus = True, dv_commit_task = False\<rparr>"
  have "perform_op filled_bus (Probe ?par) (0, new_device) = (Inr (), (0, d))"
    by (simp add: dv_probe_def new_device_def athen_aguard lift_result_def q filled_bus_def d_def
        enumerate_one_block block_matches_def Let_def SSR_RB_TYPE_def SSR_RB_VERSION_def)
  from device_reachable.op [OF device_reachable.fresh this] have "device_reachable filled_bus (0, d)" .
  from device_never_opens [OF this] have "\<exists>e s'. dv_open filled_bus (0, d) = (Inl e, s')" by blast
  moreover have "dv_state d = PROBED" by (simp add: d_def)
  ultimately show ?thesis by blast
qed


section \<open>Registers that keep what is written\<close>

text \<open>
  A bus whose registers behave as 32-bit memory cells: a read returns the last value written there,
  other registers are not disturbed and reading changes nothing.
\<close>

definition register_file :: "('h, 'r) bus \<Rightarrow> bool" where
  "register_file b \<longleftrightarrow>
     (\<forall>a h. snd (bus_read b a h) = h) \<and>
     (\<forall>a v h. 0 \<le> v \<and> v < 2 ^ 32 \<longrightarrow> fst (bus_read b a (bus_write b a v h)) = v) \<and>
     (\<forall>a a' v h. a' \<noteq> a \<longrightarrow> fst (bus_read b a' (bus_write b a v h)) = fst (bus_read b a' h))"

lemma register_fileD:
  assumes "register_file b"
  shows "snd (bus_read b a h) = h"
    and "0 \<le> v \<Longrightarrow> v < 2 ^ 32 \<Longrightarrow> fst (bus_read b a (bus_write b a v h)) = v"
    and "a' \<noteq> a \<Longrightarrow> fst (bus_read b a' (bus_write b a v h)) = fst (bus_read b a' h)"
  using assms unfolding register_file_def by blast+

lemma mac_to_int_bounds:
  assumes "mac_to_int m = Inr v"
  shows "0 \<le> v" "v < 2 ^ 48"
proof -
  have "0 \<le> v \<and> v < 2 ^ 48"
  proof (cases m)
    case (Mac_int i)
    with assms show ?thesis by (auto split: if_splits)
  next
    case (Mac_bytes xs)
    with assms have "length xs = 6" "v = be_int (map word_of_int xs)" by (auto split: if_splits)
    with be_int_bounds [of "map word_of_int xs"] show ?thesis by (simp add: fits_def)
  qed
  then show "0 \<le> v" "v < 2 ^ 48" by simp_all
qed

lemma mac_words:
  assumes "0 \<le> v" "v < 2 ^ 48"
  shows "drop_bit 32 v AND 0xFFFF = hi32 v" "hi32 v AND 0xFFFF = hi32 v" "hi32 v < 2 ^ 32" "0 \<le> hi32 v"
proof -
  have m16: "0xFFFF = (mask 16 :: int)" and m32: "0xFFFFFFFF = (mask 32 :: int)"
    by (simp_all add: mask_eq_exp_minus_1)
  have "drop_bit 32 v < 2 ^ 16" "0 \<le> drop_bit 32 v"
    using assms by (simp_all add: drop_bit_eq_div div_less_iff_less_mult)
  then have t: "take_bit 16 (drop_bit 32 v) = drop_bit 32 v" "take_bit 32 (drop_bit 32 v) = drop_bit 32 v"
    by (simp_all add: take_bit_int_eq_self)
  then show "drop_bit 32 v AND 0xFFFF = hi32 v" "hi32 v AND 0xFFFF = hi32 v"
    unfolding hi32_def m16 m32 by (simp_all flip: take_bit_eq_mask)
  show "hi32 v < 2 ^ 32" "0 \<le> hi32 v"
    using split_words [of v] assms by simp_all
qed

lemma dv_write_run [simp]:
  "dv_rb d = Some True \<Longrightarrow> dv_write b a v (h, d) = (Inr (), (bus_write b a v h, d))"
  "dv_rb d = Some True \<Longrightarrow> athen (dv_write b a v) m (h, d) = m (bus_write b a v h, d)"
  by (simp_all add: dv_write_def need_rb_def athen_abind athen_athen athen_aguard)

lemma read_mac_run:
  assumes "dv_rb d = Some True" "0 \<le> i" "i < 7" "\<And>a h. snd (bus_read b a h) = h"
  shows "read_mac_address b i (h, d) = (Inr (push_bit 32
    (fst (bus_read b (COMMON_REG_CONFIG_MACTABLE_ADDR_HI + i * 8) h) AND 0xFFFF) OR
     fst (bus_read b (COMMON_REG_CONFIG_MACTABLE_ADDR_LO + i * 8) h)), (h, d))"
  using assms
  by (simp add: read_mac_address_def check_mac_index_def need_rb_def athen_abind athen_athen athen_aguard
      COMMON_MAX_REPLICAS_def COMMON_MAC_ENTRY_STRIDE_def)

text \<open>
  The MAC table keeps what is written: on hardware whose registers are memory cells, an address
  written to an entry is read back from it, in whichever form it was given, and no other entry
  changes.
\<close>

theorem mac_table_roundtrip:
  assumes "register_file b" and "dv_rb d = Some True" and "0 \<le> i" and "i < 7"
    and "mac_to_int m = Inr v" and "0 \<le> j" and "j < 7"
  shows "\<exists>h'. write_mac_address b i m (h, d) = (Inr (), (h', d)) \<and>
    fst (read_mac_address b j (h', d)) = (if j = i then Inr v else fst (read_mac_address b j (h, d)))"
proof -
  note r = register_fileD [OF assms(1)]
  note v = mac_to_int_bounds [OF assms(5)]
  note w = mac_words [OF v]
  let ?lo = "\<lambda>i. COMMON_REG_CONFIG_MACTABLE_ADDR_LO + i * 8"
  let ?hi = "\<lambda>i. COMMON_REG_CONFIG_MACTABLE_ADDR_HI + i * 8"
  define h' where "h' = bus_write b (?hi i) (hi32 v) (bus_write b (?lo i) (lo32 v) h)"
  have wr: "write_mac_address b i m (h, d) = (Inr (), (h', d))"
    using assms w(1)
    by (simp add: write_mac_address_def check_mac_index_def athen_aguard lift_result_def h'_def
        COMMON_MAX_REPLICAS_def COMMON_MAC_ENTRY_STRIDE_def)
  have addr: "?lo a \<noteq> ?hi b" "?lo a = ?lo b \<longleftrightarrow> a = b" "?hi a = ?hi b \<longleftrightarrow> a = b" for a b :: int
    by (simp_all add: COMMON_REG_CONFIG_MACTABLE_ADDR_LO_def COMMON_REG_CONFIG_MACTABLE_ADDR_HI_def) presburger+
  have lo: "fst (bus_read b (?lo j) h') = (if j = i then lo32 v else fst (bus_read b (?lo j) h))"
    using split_words [of v] v addr by (simp add: h'_def r(2,3))
  have hi: "fst (bus_read b (?hi j) h') = (if j = i then hi32 v else fst (bus_read b (?hi j) h))"
    using w addr [symmetric] by (simp add: h'_def r(2,3))
  have "fst (read_mac_address b j (h', d)) = (if j = i then Inr v else fst (read_mac_address b j (h, d)))"
  proof (cases "j = i")
    case True
    have "fst (read_mac_address b j (h', d)) = Inr (push_bit 32 (hi32 v AND 0xFFFF) OR lo32 v)"
      unfolding read_mac_run [OF assms(2,6,7) r(1)] lo hi by (simp only: True simp_thms if_True fst_conv)
    also have "\<dots> = Inr v"
      using split_words(1) [of v] v by (simp add: w(2) del: push_bit_and)
    finally show ?thesis using True by simp
  next
    case False
    then show ?thesis by (simp add: read_mac_run [OF assms(2,6,7) r(1)] lo hi)
  qed
  with wr show ?thesis by blast
qed

text \<open>Registers as a function from addresses to values, the upper bits dropped.\<close>

definition memory_bus :: "(int \<Rightarrow> int, unit) bus" where
  "memory_bus = \<lparr>bus_read = (\<lambda>a h. (h a, h)), bus_write = (\<lambda>a v h. h(a := v mod 2 ^ 32)), bus_has_pool = True,
     bus_alloc = (\<lambda>n h. (Some (), h)), bus_address = (\<lambda>r. 0), bus_store = (\<lambda>r i bs h. h),
     bus_load = (\<lambda>r i n h. replicate (nat n) 0), bus_timer = (\<lambda>k h. h), bus_now = (\<lambda>h. 0),
     bus_app_read = one_block SSR_RB_TYPE SSR_RB_VERSION\<rparr>"

lemma memory_bus_register_file [simp]: "register_file memory_bus"
  by (simp add: register_file_def memory_bus_def)

theorem mac_table_roundtrip_witness:
  "\<exists>h'. write_mac_address memory_bus 3 (Mac_bytes [2, 0, 0, 0, 0, 3]) ((\<lambda>a. 0), new_device\<lparr>dv_rb := Some True\<rparr>)
      = (Inr (), (h', new_device\<lparr>dv_rb := Some True\<rparr>)) \<and>
    fst (read_mac_address memory_bus 3 (h', new_device\<lparr>dv_rb := Some True\<rparr>)) = Inr 0x020000000003"
  using mac_table_roundtrip [where b = memory_bus and d = "new_device\<lparr>dv_rb := Some True\<rparr>" and i = 3
      and m = "Mac_bytes [2, 0, 0, 0, 0, 3]" and v = "0x020000000003" and j = 3 and h = "\<lambda>a. 0"]
  by (auto simp: be_int_def)


section \<open>Activating a configuration\<close>

lemma poll_register_error:
  assumes "poll_register b (read_dword b a) ok n (h, s) = (Inl e, s')"
  shows "e = SSRTimeoutError"
  using assms
proof (induction n arbitrary: h)
  case (Suc n)
  then show ?case by (auto split: if_splits)
qed simp

text \<open>
  Activation is not guarded by its own check: for values in range the run id, the membership
  and the activate bit are written first and only then read back. If the core does not show what
  was written, the driver raises with the core already activated.
\<close>

theorem activate_before_verify:
  assumes "0 \<le> run_id" and "run_id \<le> 0xFFFFFFFF" and "0 \<le> membership" and "membership \<le> 0xFFFFFFFF"
  shows "let installed = perform_writes b [(REG_CONSENSUS_RUN_ID, run_id),
             (REG_CONSENSUS_MEMBERSHIP, membership), (REG_CONSENSUS_ACTIVATE, 1)] h;
           (actual_run_id, h1) = bus_read b REG_CONSENSUS_RUN_ID installed;
           (actual_membership, h2) = bus_read b REG_CONSENSUS_MEMBERSHIP h1
    in core_activate b run_id membership True (h, s) =
      (if actual_run_id = run_id \<and> actual_membership = membership
       then (Inr (), (bus_write b REG_CONSENSUS_ACTIVATE 1 h2, s))
       else (Inl SSRHardwareError, (h2, s)))"
  using assms
  by (simp add: core_activate_def core_install_config_def core_verify_def validate_u32_def athen_aguard
      athen_athen athen_abind perform_writes_def read_run_id_def split_beta Let_def)

theorem activate_before_verify_witness:
  "core_activate memory_bus 5 7 True ((\<lambda>a. 0), ()) =
     (Inr (), ((\<lambda>a. 0)(REG_CONSENSUS_RUN_ID := 5, REG_CONSENSUS_MEMBERSHIP := 7, REG_CONSENSUS_ACTIVATE := 1), ()))"
  using activate_before_verify [of 5 7 memory_bus "\<lambda>a. 0" "()"]
  by (simp add: memory_bus_def perform_writes_def REG_CONSENSUS_RUN_ID_def REG_CONSENSUS_MEMBERSHIP_def
      REG_CONSENSUS_ACTIVATE_def)

lemma wait_halt_returns: "\<exists>r s'. wait_halt b n (h, s) = (Inr r, s')"
  using poll_register_error [of b REG_CONSENSUS_HALT "\<lambda>x. x AND 1 \<noteq> 0" n h s]
  by (auto simp: wait_halt_def acatch_def abind_def split: prod.split sum.split)

text \<open>
  A replica configuration is accepted exactly when the number of replicas is at most seven and
  not zero, the id is smaller and the round length is not zero; then the four registers are written
  and nothing else, otherwise none.
\<close>

theorem configure_replica_exact:
  assumes "dv_rb d = Some True"
  shows "configure_replica b replica_id replica_num len ty (h, d) =
    (if replica_num \<noteq> 0 \<and> replica_num \<le> 7 \<and> replica_id < replica_num \<and> len \<noteq> 0
     then (Inr (), (perform_writes b [(COMMON_REG_CONFIG_REPLICA_ID, replica_id),
             (COMMON_REG_CONFIG_REPLICA_NUM, replica_num), (COMMON_REG_CONFIG_ROUND_LEN_NS, len),
             (COMMON_REG_CONFIG_ETH_TYPE, ty)] h, d))
     else (Inl (Py ValueError), (h, d)))"
  using assms
  by (auto simp: configure_replica_def athen_aguard COMMON_MAX_REPLICAS_def perform_writes_def)

theorem configure_replica_exact_witness:
  "configure_replica memory_bus 1 8 4000 0x88B5 ((\<lambda>a. 0), new_device\<lparr>dv_rb := Some True\<rparr>)
     = (Inl (Py ValueError), ((\<lambda>a. 0), new_device\<lparr>dv_rb := Some True\<rparr>))"
  by (subst configure_replica_exact) simp_all

end
