(* ===== verification/Nic_Resources.thy ===== *)
theory Nic_Resources
  imports Effects
begin

text \<open>
  What the NIC driver of the test bench hands out and takes back (\<open>mqnic.py\<close>): queue indices
  (\<open>Resource\<close>), packet buffers (\<open>Driver.alloc_pkt\<close>, \<open>free_pkt\<close>) and scheduler ports
  (\<open>Interface.alloc_sched_port\<close>, \<open>free_sched_port\<close>). They share one contract, stated as a locale:
  what is handed out is not in use, and a client that returns only what it holds never holds
  anything twice. Windows into a BAR are their base addresses.
\<close>


section \<open>The contract\<close>

text \<open>The clients of an allocator: what they hold after taking and giving back in some order.\<close>

inductive uses ::
  "('s \<Rightarrow> 'a \<Rightarrow> 's \<Rightarrow> bool) \<Rightarrow> ('a \<Rightarrow> 's \<Rightarrow> 's \<Rightarrow> bool) \<Rightarrow> 's \<Rightarrow> 's \<Rightarrow> 'a list \<Rightarrow> bool"
  for alloc release s0 where
  nothing: "uses alloc release s0 s0 []"
| taken: "uses alloc release s0 s held \<Longrightarrow> alloc s x s' \<Longrightarrow> uses alloc release s0 s' (x # held)"
| returned: "uses alloc release s0 s held \<Longrightarrow> x \<in> set held \<Longrightarrow> release x s s' \<Longrightarrow>
    uses alloc release s0 s' (remove1 x held)"

inductive_cases uses_ConsE: "uses alloc release s0 s (x # held)"

locale allocator =
  fixes good :: "'s \<Rightarrow> bool"
    and in_use :: "'s \<Rightarrow> 'a set"
    and alloc :: "'s \<Rightarrow> 'a \<Rightarrow> 's \<Rightarrow> bool"
    and release :: "'a \<Rightarrow> 's \<Rightarrow> 's \<Rightarrow> bool"
  assumes alloc_good: "good s \<Longrightarrow> alloc s x s' \<Longrightarrow> good s'"
    and alloc_fresh: "good s \<Longrightarrow> alloc s x s' \<Longrightarrow> x \<notin> in_use s \<and> in_use s' = insert x (in_use s)"
    and release_good: "good s \<Longrightarrow> x \<in> in_use s \<Longrightarrow> release x s s' \<Longrightarrow> good s'"
    and release_frees: "good s \<Longrightarrow> x \<in> in_use s \<Longrightarrow> release x s s' \<Longrightarrow> in_use s' = in_use s - {x}"
begin

lemma uses_good:
  assumes "uses alloc release s0 s held" "good s0"
  shows "good s \<and> distinct held \<and> set held \<inter> in_use s0 = {} \<and> in_use s = in_use s0 \<union> set held"
  using assms
proof induction
  case (taken s held x s')
  then show ?case using alloc_good [of s x s'] alloc_fresh [of s x s'] by auto
next
  case (returned s held x s')
  then have "good s" "x \<in> in_use s" by auto
  with returned show ?case
    using release_good [of s x s'] release_frees [of s x s'] by auto
qed simp

lemma exclusive: "uses alloc release s0 s held \<Longrightarrow> good s0 \<Longrightarrow> distinct held"
  using uses_good by blast

lemma all_returned: "uses alloc release s0 s [] \<Longrightarrow> good s0 \<Longrightarrow> good s \<and> in_use s = in_use s0"
  using uses_good by fastforce

end


section \<open>Queue indices\<close>

record resource =
  rc_count :: int
  rc_parent :: int
  rc_stride :: int
  rc_windows :: "(int, int) dict"
  rc_free_list :: "int list"

definition new_resource :: "int \<Rightarrow> int \<Rightarrow> int \<Rightarrow> resource" where
  "new_resource count parent stride =
     \<lparr>rc_count = count, rc_parent = parent, rc_stride = stride, rc_windows = [], rc_free_list = [0..count - 1]\<rparr>"

definition res_alloc :: "resource \<Rightarrow> (int \<times> resource) result" where
  "res_alloc rc =
     (case rc_free_list rc of
        [] \<Rightarrow> Inl IndexError
      | index # rest \<Rightarrow> Inr (index, rc\<lparr>rc_free_list := rest\<rparr>))"

definition res_free :: "int \<Rightarrow> resource \<Rightarrow> resource" where
  "res_free index rc = rc\<lparr>rc_free_list := sort (rc_free_list rc @ [index])\<rparr>"

definition get_count :: "resource \<Rightarrow> int" where
  "get_count rc = rc_count rc"

definition get_window :: "int \<Rightarrow> resource \<Rightarrow> int \<times> resource" where
  "get_window index rc =
     (case dget (rc_windows rc) index of
        Some w \<Rightarrow> (w, rc)
      | None \<Rightarrow>
          let w = rc_parent rc + index * rc_stride rc
          in (w, rc\<lparr>rc_windows := dset (rc_windows rc) index w\<rparr>))"

text \<open>The free list is sorted, so the smallest free index is the next one handed out.\<close>

definition resource_ok :: "resource \<Rightarrow> bool" where
  "resource_ok rc \<longleftrightarrow>
     sorted (rc_free_list rc) \<and> distinct (rc_free_list rc) \<and> set (rc_free_list rc) \<subseteq> {0..<rc_count rc} \<and>
     (\<forall>index w. dget (rc_windows rc) index = Some w \<longrightarrow> w = rc_parent rc + index * rc_stride rc)"

definition indices_in_use :: "resource \<Rightarrow> int set" where
  "indices_in_use rc = {0..<rc_count rc} - set (rc_free_list rc)"

interpretation queue_index: allocator resource_ok indices_in_use
  "\<lambda>rc index rc'. res_alloc rc = Inr (index, rc')" "\<lambda>index rc rc'. rc' = res_free index rc"
proof unfold_locales
  fix rc index rc'
  assume ok: "resource_ok rc"
  show "resource_ok rc'" "index \<notin> indices_in_use rc \<and> indices_in_use rc' = insert index (indices_in_use rc)"
    if "res_alloc rc = Inr (index, rc')"
    using ok that by (auto simp: resource_ok_def res_alloc_def indices_in_use_def split: list.splits)
  show "resource_ok rc'" "indices_in_use rc' = indices_in_use rc - {index}"
    if "index \<in> indices_in_use rc" "rc' = res_free index rc"
    using ok that by (auto simp: resource_ok_def res_free_def indices_in_use_def)
qed

lemma new_resource_ok: "resource_ok (new_resource count parent stride)"
  "indices_in_use (new_resource count parent stride) = {}"
  by (auto simp: resource_ok_def new_resource_def indices_in_use_def)

lemma get_window_address:
  assumes "resource_ok rc"
  shows "fst (get_window index rc) = rc_parent rc + index * rc_stride rc"
    and "resource_ok (snd (get_window index rc))"
    and "indices_in_use (snd (get_window index rc)) = indices_in_use rc"
  using assms
  by (auto simp: get_window_def Let_def resource_ok_def indices_in_use_def split: option.split)

lemma res_alloc_smallest:
  assumes "resource_ok rc" "res_alloc rc = Inr (index, rc')"
  shows "index \<in> {0..<rc_count rc}" "\<forall>j \<in> {0..<rc_count rc} - indices_in_use rc. index \<le> j"
  using assms by (auto simp: resource_ok_def res_alloc_def indices_in_use_def split: list.splits)

lemma res_alloc_raises:
  assumes "resource_ok rc"
  shows "res_alloc rc = Inl IndexError \<longleftrightarrow> indices_in_use rc = {0..<rc_count rc}"
  using assms by (auto simp: resource_ok_def res_alloc_def indices_in_use_def split: list.splits)

text \<open>
  C36. Queue indices: a client that starts from a new resource and frees only what it holds holds
  distinct indices below the count, every one of them has a register window of its own at its
  stride, and it is refused an index only when it holds them all.
\<close>

theorem queue_indices_exclusive:
  assumes "uses (\<lambda>rc index rc'. res_alloc rc = Inr (index, rc')) (\<lambda>index rc rc'. rc' = res_free index rc)
      (new_resource count parent stride) rc held"
  shows "distinct held \<and> set held \<subseteq> {0..<count} \<and>
    (res_alloc rc = Inl IndexError \<longleftrightarrow> set held = {0..<count}) \<and>
    (\<forall>index. fst (get_window index rc) = parent + index * stride)"
proof -
  let ?new = "new_resource count parent stride"
  have ok: "resource_ok rc" "distinct held" "indices_in_use rc = set held"
    using queue_index.uses_good [OF assms new_resource_ok(1)] new_resource_ok(2) by auto
  have "rc_count rc = count \<and> rc_parent rc = parent \<and> rc_stride rc = stride"
    using assms
    by induction (auto simp: new_resource_def res_alloc_def res_free_def split: list.splits)
  with ok get_window_address(1) [OF ok(1)] res_alloc_raises [OF ok(1)] show ?thesis
    by (auto simp: indices_in_use_def)
qed

theorem queue_indices_exclusive_witness:
  "res_alloc (res_free 0 (new_resource 2 0x1000 0x80\<lparr>rc_free_list := []\<rparr>)) =
      Inr (0, new_resource 2 0x1000 0x80\<lparr>rc_free_list := []\<rparr>) \<and>
    res_alloc (new_resource 2 0x1000 0x80\<lparr>rc_free_list := []\<rparr>) = Inl IndexError"
proof -
  let ?new = "new_resource 2 0x1000 0x80"
  have list: "[0..(1::int)] = [0, 1]" by (simp add: upto_rec1)
  have one: "uses (\<lambda>rc index rc'. res_alloc rc = Inr (index, rc')) (\<lambda>index rc rc'. rc' = res_free index rc)
      ?new (?new\<lparr>rc_free_list := [1]\<rparr>) [0]"
    by (rule uses.taken [OF uses.nothing]) (simp add: res_alloc_def new_resource_def list)
  have "uses (\<lambda>rc index rc'. res_alloc rc = Inr (index, rc')) (\<lambda>index rc rc'. rc' = res_free index rc)
      ?new (?new\<lparr>rc_free_list := []\<rparr>) [1, 0]"
    by (rule uses.taken [OF one]) (simp add: res_alloc_def new_resource_def)
  from queue_indices_exclusive [OF this] show ?thesis
    by (auto simp: res_alloc_def res_free_def new_resource_def)
qed


section \<open>Packet buffers\<close>

record 'r packet_pool =
  pl_pkt_buf_size :: int
  pl_allocated_packets :: "'r list"
  pl_free_packets :: "'r list"

definition new_packet_pool :: "'r packet_pool" where
  "new_packet_pool = \<lparr>pl_pkt_buf_size = 16384, pl_allocated_packets = [], pl_free_packets = []\<rparr>"

text \<open>\<open>alloc_region\<close> of the memory pool is a parameter: a region not handed out before, or an error.\<close>

definition alloc_pkt :: "(int \<Rightarrow> 'h \<Rightarrow> 'r result \<times> 'h) \<Rightarrow> ('h \<times> 'r packet_pool, py_error, 'r) act" where
  "alloc_pkt alloc_region st =
     (case st of (h, pl) \<Rightarrow>
       (case pl_free_packets pl of
          pkt # rest \<Rightarrow> (Inr pkt, (h, pl\<lparr>pl_free_packets := rest\<rparr>))
        | [] \<Rightarrow>
            (case alloc_region (pl_pkt_buf_size pl) h of
               (Inl e, h') \<Rightarrow> (Inl e, (h', pl))
             | (Inr pkt, h') \<Rightarrow>
                 (Inr pkt, (h', pl\<lparr>pl_allocated_packets := pl_allocated_packets pl @ [pkt]\<rparr>)))))"

definition free_pkt :: "'r option \<Rightarrow> 'r packet_pool \<Rightarrow> 'r packet_pool result" where
  "free_pkt pkt pl =
     (case pkt of
        None \<Rightarrow> Inl AssertionError
      | Some p \<Rightarrow>
          if p \<in> set (pl_allocated_packets pl)
          then Inr (pl\<lparr>pl_free_packets := pl_free_packets pl @ [p]\<rparr>) else Inl AssertionError)"

definition pool_ok :: "'r packet_pool \<Rightarrow> bool" where
  "pool_ok pl \<longleftrightarrow> distinct (pl_allocated_packets pl) \<and> distinct (pl_free_packets pl) \<and>
     set (pl_free_packets pl) \<subseteq> set (pl_allocated_packets pl)"

definition packets_in_use :: "'r packet_pool \<Rightarrow> 'r set" where
  "packets_in_use pl = set (pl_allocated_packets pl) - set (pl_free_packets pl)"

text \<open>A memory pool that never hands a region out twice, with the regions it has handed out.\<close>

definition fresh_regions :: "('h \<Rightarrow> 'r set) \<Rightarrow> (int \<Rightarrow> 'h \<Rightarrow> 'r result \<times> 'h) \<Rightarrow> bool" where
  "fresh_regions given alloc_region \<longleftrightarrow>
     (\<forall>n h r h'. alloc_region n h = (r, h') \<longrightarrow>
        (case r of Inl e \<Rightarrow> given h' = given h | Inr region \<Rightarrow> region \<notin> given h \<and> given h' = insert region (given h)))"

definition pool_from :: "('h \<Rightarrow> 'r set) \<Rightarrow> 'h \<times> 'r packet_pool \<Rightarrow> bool" where
  "pool_from given st \<longleftrightarrow> pool_ok (snd st) \<and> set (pl_allocated_packets (snd st)) \<subseteq> given (fst st)"

lemma alloc_pkt_fresh:
  assumes "fresh_regions given alloc_region" "pool_from given st" "alloc_pkt alloc_region st = (Inr pkt, st')"
  shows "pool_from given st'" "pkt \<notin> packets_in_use (snd st)"
    "packets_in_use (snd st') = insert pkt (packets_in_use (snd st))"
proof -
  obtain h pl h' pl' where st: "st = (h, pl)" "st' = (h', pl')" by (metis prod.exhaust)
  have "pool_from given st' \<and> pkt \<notin> packets_in_use (snd st) \<and>
      packets_in_use (snd st') = insert pkt (packets_in_use (snd st))"
  proof (cases "pl_free_packets pl")
    case Nil
    then have call: "alloc_region (pl_pkt_buf_size pl) h = (Inr pkt, h')"
      "pl' = pl\<lparr>pl_allocated_packets := pl_allocated_packets pl @ [pkt]\<rparr>"
      using assms(3) by (auto simp: alloc_pkt_def st split: prod.splits sum.splits)
    with assms(1) have "pkt \<notin> given h" "given h' = insert pkt (given h)"
      by (fastforce simp: fresh_regions_def)+
    with assms(2) call(2) Nil show ?thesis by (auto simp: pool_from_def pool_ok_def packets_in_use_def st)
  next
    case (Cons p rest)
    with assms(2,3) show ?thesis
      by (auto simp: alloc_pkt_def pool_from_def pool_ok_def packets_in_use_def st)
  qed
  then show "pool_from given st'" "pkt \<notin> packets_in_use (snd st)"
    "packets_in_use (snd st') = insert pkt (packets_in_use (snd st))" by simp_all
qed

lemma free_pkt_in_use:
  assumes "pool_ok pl" "pkt \<in> packets_in_use pl"
  obtains pl' where "free_pkt (Some pkt) pl = Inr pl'" "pool_ok pl'"
    "packets_in_use pl' = packets_in_use pl - {pkt}" "pl_allocated_packets pl' = pl_allocated_packets pl"
  using assms that by (auto simp: free_pkt_def pool_ok_def packets_in_use_def)

text \<open>The counting memory: regions are numbered, so they are never handed out twice.\<close>

definition numbered_regions :: "int \<Rightarrow> nat \<Rightarrow> nat result \<times> nat" where
  "numbered_regions n h = (Inr h, Suc h)"

lemma numbered_regions_fresh: "fresh_regions (\<lambda>h. {..<h}) numbered_regions"
  by (auto simp: fresh_regions_def numbered_regions_def)

interpretation packet_buffer: allocator "pool_from (\<lambda>h. {..<h})" "\<lambda>st. packets_in_use (snd st)"
  "\<lambda>st pkt st'. alloc_pkt numbered_regions st = (Inr pkt, st')"
  "\<lambda>pkt st st'. free_pkt (Some pkt) (snd st) = Inr (snd st') \<and> fst st' = fst st"
proof unfold_locales
  fix st st' :: "nat \<times> nat packet_pool" and pkt
  assume ok: "pool_from (\<lambda>h. {..<h}) st"
  note fresh = alloc_pkt_fresh [OF numbered_regions_fresh ok]
  show "pool_from (\<lambda>h. {..<h}) st'"
    "pkt \<notin> packets_in_use (snd st) \<and> packets_in_use (snd st') = insert pkt (packets_in_use (snd st))"
    if "alloc_pkt numbered_regions st = (Inr pkt, st')" using fresh [OF that] by simp_all
  show "pool_from (\<lambda>h. {..<h}) st'" "packets_in_use (snd st') = packets_in_use (snd st) - {pkt}"
    if p: "pkt \<in> packets_in_use (snd st)" "free_pkt (Some pkt) (snd st) = Inr (snd st') \<and> fst st' = fst st"
  proof -
    obtain pl' where "free_pkt (Some pkt) (snd st) = Inr pl'" "pool_ok pl'"
      "packets_in_use pl' = packets_in_use (snd st) - {pkt}"
      "pl_allocated_packets pl' = pl_allocated_packets (snd st)"
      by (rule free_pkt_in_use [OF _ p(1)]) (use ok in \<open>simp add: pool_from_def\<close>)
    with ok p(2) show "pool_from (\<lambda>h. {..<h}) st'" "packets_in_use (snd st') = packets_in_use (snd st) - {pkt}"
      by (simp_all add: pool_from_def)
  qed
qed


section \<open>Scheduler ports\<close>

text \<open>A scheduler port is the number of its scheduler and its index there.\<close>

type_synonym sched_port = "nat \<times> nat"

record port_pool =
  pp_sched_ports :: "sched_port list"
  pp_free_sched_ports :: "sched_port list"

definition register_sched_port :: "sched_port \<Rightarrow> port_pool \<Rightarrow> port_pool" where
  "register_sched_port p pp =
     pp\<lparr>pp_sched_ports := pp_sched_ports pp @ [p], pp_free_sched_ports := pp_free_sched_ports pp @ [p]\<rparr>"

definition alloc_sched_port :: "port_pool \<Rightarrow> (sched_port \<times> port_pool) result" where
  "alloc_sched_port pp =
     (case pp_free_sched_ports pp of
        [] \<Rightarrow> Inl IndexError
      | p # rest \<Rightarrow> Inr (p, pp\<lparr>pp_free_sched_ports := rest\<rparr>))"

definition free_sched_port :: "sched_port option \<Rightarrow> port_pool \<Rightarrow> port_pool result" where
  "free_sched_port p pp =
     (case p of
        None \<Rightarrow> Inl AssertionError
      | Some p \<Rightarrow>
          if p \<notin> set (pp_sched_ports pp) \<or> p \<in> set (pp_free_sched_ports pp) then Inl AssertionError
          else Inr (pp\<lparr>pp_free_sched_ports := pp_free_sched_ports pp @ [p]\<rparr>))"

definition ports_ok :: "port_pool \<Rightarrow> bool" where
  "ports_ok pp \<longleftrightarrow> distinct (pp_sched_ports pp) \<and> distinct (pp_free_sched_ports pp) \<and>
     set (pp_free_sched_ports pp) \<subseteq> set (pp_sched_ports pp)"

interpretation sched_port_pool: allocator ports_ok
  "\<lambda>pp. set (pp_sched_ports pp) - set (pp_free_sched_ports pp)"
  "\<lambda>pp p pp'. alloc_sched_port pp = Inr (p, pp')" "\<lambda>p pp pp'. free_sched_port (Some p) pp = Inr pp'"
  by unfold_locales
    (auto simp: ports_ok_def alloc_sched_port_def free_sched_port_def split: list.splits if_splits)

end
