(* ===== verification/Nic_State.thy ===== *)
theory Nic_State
  imports Nic_Resources Register_Blocks Ssr_Packet
begin

text \<open>
  The state of the NIC driver (\<open>mqnic.py\<close>): one interface with its queues, rings, ports, schedulers
  and net devices, and the packet pool all interfaces share. Objects live in lists of the state and
  refer to each other by index. The hardware is a parameter: registers, which a read may change and
  a write may refuse, and memory regions. Pointers are the unbounded Python integers the code keeps;
  the registers see sixteen bits of them. Queue sizes are positive.
\<close>

definition MQNIC_QUEUE_BASE_ADDR_VF_REG :: int where "MQNIC_QUEUE_BASE_ADDR_VF_REG = 0x00"
definition MQNIC_QUEUE_CTRL_STATUS_REG :: int where "MQNIC_QUEUE_CTRL_STATUS_REG = 0x08"
definition MQNIC_QUEUE_PTR_REG :: int where "MQNIC_QUEUE_PTR_REG = 0x10"
definition MQNIC_QUEUE_PTR_MASK :: int where "MQNIC_QUEUE_PTR_MASK = 0xFFFF"
definition MQNIC_QUEUE_CMD_SET_SIZE :: int where "MQNIC_QUEUE_CMD_SET_SIZE = 0x80020000"
definition MQNIC_QUEUE_CMD_SET_CQN :: int where "MQNIC_QUEUE_CMD_SET_CQN = 0xC0000000"
definition MQNIC_QUEUE_CMD_SET_PROD_PTR :: int where "MQNIC_QUEUE_CMD_SET_PROD_PTR = 0x80800000"
definition MQNIC_QUEUE_CMD_SET_CONS_PTR :: int where "MQNIC_QUEUE_CMD_SET_CONS_PTR = 0x80900000"
definition MQNIC_QUEUE_CMD_SET_ENABLE :: int where "MQNIC_QUEUE_CMD_SET_ENABLE = 0x40000100"

definition MQNIC_CQ_BASE_ADDR_VF_REG :: int where "MQNIC_CQ_BASE_ADDR_VF_REG = 0x00"
definition MQNIC_CQ_CTRL_STATUS_REG :: int where "MQNIC_CQ_CTRL_STATUS_REG = 0x08"
definition MQNIC_CQ_PTR_MASK :: int where "MQNIC_CQ_PTR_MASK = 0xFFFF"
definition MQNIC_CQ_CMD_SET_SIZE :: int where "MQNIC_CQ_CMD_SET_SIZE = 0x80020000"
definition MQNIC_CQ_CMD_SET_EQN :: int where "MQNIC_CQ_CMD_SET_EQN = 0xC0000000"
definition MQNIC_CQ_CMD_SET_PROD_PTR :: int where "MQNIC_CQ_CMD_SET_PROD_PTR = 0x80800000"
definition MQNIC_CQ_CMD_SET_CONS_PTR :: int where "MQNIC_CQ_CMD_SET_CONS_PTR = 0x80900000"
definition MQNIC_CQ_CMD_SET_ENABLE :: int where "MQNIC_CQ_CMD_SET_ENABLE = 0x40000100"
definition MQNIC_CQ_CMD_SET_ARM :: int where "MQNIC_CQ_CMD_SET_ARM = 0x40000200"

definition MQNIC_EQ_BASE_ADDR_VF_REG :: int where "MQNIC_EQ_BASE_ADDR_VF_REG = 0x00"
definition MQNIC_EQ_CTRL_STATUS_REG :: int where "MQNIC_EQ_CTRL_STATUS_REG = 0x08"
definition MQNIC_EQ_PTR_MASK :: int where "MQNIC_EQ_PTR_MASK = 0xFFFF"
definition MQNIC_EQ_CMD_SET_SIZE :: int where "MQNIC_EQ_CMD_SET_SIZE = 0x80020000"
definition MQNIC_EQ_CMD_SET_IRQN :: int where "MQNIC_EQ_CMD_SET_IRQN = 0xC0000000"
definition MQNIC_EQ_CMD_SET_PROD_PTR :: int where "MQNIC_EQ_CMD_SET_PROD_PTR = 0x80800000"
definition MQNIC_EQ_CMD_SET_CONS_PTR :: int where "MQNIC_EQ_CMD_SET_CONS_PTR = 0x80900000"
definition MQNIC_EQ_CMD_SET_ENABLE :: int where "MQNIC_EQ_CMD_SET_ENABLE = 0x40000100"
definition MQNIC_EQ_CMD_SET_ARM :: int where "MQNIC_EQ_CMD_SET_ARM = 0x40000200"

definition MQNIC_EVENT_TYPE_CPL :: int where "MQNIC_EVENT_TYPE_CPL = 0x0000"
definition MQNIC_DESC_SIZE :: int where "MQNIC_DESC_SIZE = 16"
definition MQNIC_EVENT_SIZE :: int where "MQNIC_EVENT_SIZE = 32"


section \<open>State\<close>

record ('h, 'r) nic_hw =
  hw_read :: "int \<Rightarrow> 'h \<Rightarrow> 32 word \<times> 'h"
  hw_write :: "int \<Rightarrow> int \<Rightarrow> 'h \<Rightarrow> unit result \<times> 'h"
  hw_read_word :: "int \<Rightarrow> 'h \<Rightarrow> 16 word \<times> 'h"
  hw_write_word :: "int \<Rightarrow> int \<Rightarrow> 'h \<Rightarrow> unit result \<times> 'h"
  hw_alloc_region :: "int \<Rightarrow> 'h \<Rightarrow> 'r result \<times> 'h"
  hw_address :: "'r \<Rightarrow> int"
  hw_size :: "'r \<Rightarrow> int"
  hw_load :: "'r \<Rightarrow> int \<Rightarrow> int \<Rightarrow> 'h \<Rightarrow> byte list"
  hw_store :: "'r \<Rightarrow> int \<Rightarrow> byte list \<Rightarrow> 'h \<Rightarrow> unit result \<times> 'h"

datatype ring_kind = TX | RX

record 'r event_queue =
  evq_log_size :: nat
  evq_size :: int
  evq_size_mask :: int
  evq_stride :: int
  evq_eqn :: "int option"
  evq_enabled :: bool
  evq_buf_size :: int
  evq_buf_region :: "'r option"
  evq_buf_dma :: int
  evq_irq :: "int option"
  evq_cq_table :: "(int, nat) dict"
  evq_cons_ptr :: int
  evq_hw_regs :: "int option"

definition new_event_queue :: "'r event_queue" where
  "new_event_queue =
     \<lparr>evq_log_size = 0, evq_size = 0, evq_size_mask = 0, evq_stride = 0, evq_eqn = None, evq_enabled = False,
      evq_buf_size = 0, evq_buf_region = None, evq_buf_dma = 0, evq_irq = None, evq_cq_table = [],
      evq_cons_ptr = 0, evq_hw_regs = None\<rparr>"

record 'r completion_queue =
  cpq_log_size :: nat
  cpq_size :: int
  cpq_size_mask :: int
  cpq_stride :: int
  cpq_cqn :: "int option"
  cpq_enabled :: bool
  cpq_buf_size :: int
  cpq_buf_region :: "'r option"
  cpq_buf_dma :: int
  cpq_eq :: "nat option"
  cpq_src_ring :: "(ring_kind \<times> nat) option"
  cpq_handler :: "ring_kind option"
  cpq_cons_ptr :: int
  cpq_hw_regs :: "int option"

definition new_completion_queue :: "'r completion_queue" where
  "new_completion_queue =
     \<lparr>cpq_log_size = 0, cpq_size = 0, cpq_size_mask = 0, cpq_stride = 0, cpq_cqn = None, cpq_enabled = False,
      cpq_buf_size = 0, cpq_buf_region = None, cpq_buf_dma = 0, cpq_eq = None, cpq_src_ring = None,
      cpq_handler = None, cpq_cons_ptr = 0, cpq_hw_regs = None\<rparr>"

text \<open>\<open>Txq\<close> and \<open>Rxq\<close> have the same fields; \<open>rg_info\<close> is \<open>tx_info\<close> or \<open>rx_info\<close>.\<close>

record 'r ring =
  rg_log_queue_size :: nat
  rg_log_desc_block_size :: nat
  rg_desc_block_size :: int
  rg_size :: int
  rg_size_mask :: int
  rg_full_size :: int
  rg_stride :: int
  rg_index :: "int option"
  rg_enabled :: bool
  rg_buf_size :: int
  rg_buf_region :: "'r option"
  rg_buf_dma :: int
  rg_ndev :: "nat option"
  rg_cq :: "nat option"
  rg_prod_ptr :: int
  rg_cons_ptr :: int
  rg_clean_event :: bool
  rg_packets :: int
  rg_bytes :: int
  rg_info :: "'r option list"
  rg_hw_regs :: "int option"

definition new_ring :: "'r ring" where
  "new_ring =
     \<lparr>rg_log_queue_size = 0, rg_log_desc_block_size = 0, rg_desc_block_size = 0, rg_size = 0, rg_size_mask = 0,
      rg_full_size = 0, rg_stride = 0, rg_index = None, rg_enabled = False, rg_buf_size = 0,
      rg_buf_region = None, rg_buf_dma = 0, rg_ndev = None, rg_cq = None, rg_prod_ptr = 0, rg_cons_ptr = 0,
      rg_clean_event = False, rg_packets = 0, rg_bytes = 0, rg_info = [], rg_hw_regs = None\<rparr>"

text \<open>A received packet; the time stamp is its three fields, before they are added up.\<close>

record skb =
  skb_data :: "byte list"
  skb_queue :: "int option"
  skb_timestamp :: "int \<times> int \<times> int"
  skb_rx_checksum :: int

text \<open>
  A port, a scheduler and a scheduler block. What \<open>init\<close> reads from the hardware is zero where the
  code still has \<open>None\<close>; nothing uses these attributes before \<open>init\<close>. A scheduler port is its
  scheduler and its index.
\<close>

record nic_port =
  prt_rb :: int
  prt_reg_blocks :: "reg_block list"
  prt_ctrl_rb :: "int option"
  prt_features :: int
  prt_feature_lfc :: bool
  prt_feature_pfc :: bool
  prt_feature_int_mac_ctrl :: bool

datatype sched_kind = RoundRobin | Tdma

record scheduler =
  sch_kind :: sched_kind
  sch_rb :: int
  sch_hw_regs :: "int option"
  sch_queue_count :: int
  sch_queue_stride :: int
  sch_tc_count :: int
  sch_port_count :: int
  sch_channel_count :: int
  sch_fc_scale :: int
  sch_enable_count :: int
  sch_sched_ports :: "sched_port list"

record sched_block =
  sbk_rb :: int
  sbk_reg_blocks :: "reg_block list"
  sbk_sched_count :: int
  sbk_schedulers :: "nat list"

record netdev =
  ndv_port :: nat
  ndv_port_up :: bool
  ndv_sched_port :: "sched_port option"
  ndv_txq_count :: int
  ndv_rxq_count :: int
  ndv_indir_table :: "int list"
  ndv_txq :: "nat list"
  ndv_rxq :: "nat list"
  ndv_tx_ring_size :: nat
  ndv_rx_ring_size :: nat
  ndv_pkt_rx_queue :: "skb list"
  ndv_pkt_rx_sync :: bool

record if_features =
  iff_rss :: bool
  iff_ptp_ts :: bool
  iff_tx_csum :: bool
  iff_rx_csum :: bool
  iff_rx_hash :: bool
  iff_lfc :: bool
  iff_pfc :: bool

text \<open>
  The interface. \<open>nic_eqs\<close>, \<open>nic_cqs\<close>, \<open>nic_txqs\<close> and \<open>nic_rxqs\<close> are the queue objects created so
  far; \<open>nic_eq\<close> is the list \<open>eq\<close> of the code. Register addresses are absolute.
\<close>

record 'r nic =
  nic_pool :: "'r packet_pool"
  nic_index :: int
  nic_hw_regs :: int
  nic_reg_blocks :: "reg_block list"
  nic_if_ctrl_rb :: "int option"
  nic_rx_queue_map_rb :: "int option"
  nic_features :: if_features
  nic_port_count :: int
  nic_sched_block_count :: int
  nic_max_tx_mtu :: int
  nic_max_rx_mtu :: int
  nic_tx_fifo_depth :: int
  nic_rx_fifo_depth :: int
  nic_eq_res :: resource
  nic_cq_res :: resource
  nic_txq_res :: resource
  nic_rxq_res :: resource
  nic_indir_table_size :: int
  nic_indir_table_regs :: "int list"
  nic_eqs :: "'r event_queue list"
  nic_cqs :: "'r completion_queue list"
  nic_txqs :: "'r ring list"
  nic_rxqs :: "'r ring list"
  nic_eq :: "nat list"
  nic_ports :: "nic_port list"
  nic_scheds :: "scheduler list"
  nic_sched_blocks :: "sched_block list"
  nic_ndevs :: "netdev list"
  nic_sched_pool :: port_pool

type_synonym ('h, 'r, 'a) nic_act = "('h \<times> 'r nic, py_error, 'a) act"

definition reads :: "('r nic \<Rightarrow> 'a) \<Rightarrow> ('h, 'r, 'a) nic_act" where
  "reads f = aget (\<lambda>(h, s). f s)"

definition updates :: "('r nic \<Rightarrow> 'r nic) \<Rightarrow> ('h, 'r, unit) nic_act" where
  "updates f = amodify (\<lambda>(h, s). (h, f s))"

definition upd_eq :: "nat \<Rightarrow> ('r event_queue \<Rightarrow> 'r event_queue) \<Rightarrow> 'r nic \<Rightarrow> 'r nic" where
  "upd_eq i f s = s\<lparr>nic_eqs := (nic_eqs s)[i := f (nic_eqs s ! i)]\<rparr>"

definition upd_cq :: "nat \<Rightarrow> ('r completion_queue \<Rightarrow> 'r completion_queue) \<Rightarrow> 'r nic \<Rightarrow> 'r nic" where
  "upd_cq i f s = s\<lparr>nic_cqs := (nic_cqs s)[i := f (nic_cqs s ! i)]\<rparr>"

fun the_ring :: "ring_kind \<Rightarrow> nat \<Rightarrow> 'r nic \<Rightarrow> 'r ring" where
  "the_ring TX i s = nic_txqs s ! i"
| "the_ring RX i s = nic_rxqs s ! i"

fun upd_ring :: "ring_kind \<Rightarrow> nat \<Rightarrow> ('r ring \<Rightarrow> 'r ring) \<Rightarrow> 'r nic \<Rightarrow> 'r nic" where
  "upd_ring TX i f s = s\<lparr>nic_txqs := (nic_txqs s)[i := f (nic_txqs s ! i)]\<rparr>"
| "upd_ring RX i f s = s\<lparr>nic_rxqs := (nic_rxqs s)[i := f (nic_rxqs s ! i)]\<rparr>"

definition upd_ndev :: "nat \<Rightarrow> (netdev \<Rightarrow> netdev) \<Rightarrow> 'r nic \<Rightarrow> 'r nic" where
  "upd_ndev i f s = s\<lparr>nic_ndevs := (nic_ndevs s)[i := f (nic_ndevs s ! i)]\<rparr>"


section \<open>The hardware\<close>

text \<open>An access that changes only the hardware, one whose effect on it may be an error.\<close>

definition hardware :: "('h \<Rightarrow> 'a result \<times> 'h) \<Rightarrow> ('h, 'r, 'a) nic_act" where
  "hardware f st = (case st of (h, s) \<Rightarrow> (case f h of (r, h') \<Rightarrow> (r, (h', s))))"

definition reg_read :: "('h, 'r) nic_hw \<Rightarrow> int \<Rightarrow> ('h, 'r, int) nic_act" where
  "reg_read hw a = hardware (\<lambda>h. case hw_read hw a h of (v, h') \<Rightarrow> (Inr (uint v), h'))"

definition reg_write :: "('h, 'r) nic_hw \<Rightarrow> int \<Rightarrow> int \<Rightarrow> ('h, 'r, unit) nic_act" where
  "reg_write hw a v = hardware (hw_write hw a v)"

definition reg_read_word :: "('h, 'r) nic_hw \<Rightarrow> int \<Rightarrow> ('h, 'r, int) nic_act" where
  "reg_read_word hw a = hardware (\<lambda>h. case hw_read_word hw a h of (v, h') \<Rightarrow> (Inr (uint v), h'))"

definition reg_write_word :: "('h, 'r) nic_hw \<Rightarrow> int \<Rightarrow> int \<Rightarrow> ('h, 'r, unit) nic_act" where
  "reg_write_word hw a v = hardware (hw_write_word hw a v)"

text \<open>Writes of pairs of a register and a value, in order, relative to a window.\<close>

definition reg_writes :: "('h, 'r) nic_hw \<Rightarrow> int \<Rightarrow> (int \<times> int) list \<Rightarrow> ('h, 'r, unit) nic_act" where
  "reg_writes hw base ws = afor ws (\<lambda>(a, v). reg_write hw (base + a) v)"

definition mem_store :: "('h, 'r) nic_hw \<Rightarrow> 'r \<Rightarrow> int \<Rightarrow> byte list \<Rightarrow> ('h, 'r, unit) nic_act" where
  "mem_store hw region offset bs = hardware (hw_store hw region offset bs)"

definition mem_load :: "('h, 'r) nic_hw \<Rightarrow> 'r \<Rightarrow> int \<Rightarrow> int \<Rightarrow> ('h, 'r, byte list) nic_act" where
  "mem_load hw region offset n = aget (\<lambda>(h, s). hw_load hw region offset n h)"

definition alloc_region :: "('h, 'r) nic_hw \<Rightarrow> int \<Rightarrow> ('h, 'r, 'r) nic_act" where
  "alloc_region hw n = hardware (hw_alloc_region hw n)"

definition take_pkt :: "('h, 'r) nic_hw \<Rightarrow> ('h, 'r, 'r) nic_act" where
  "take_pkt hw st =
     (case st of (h, s) \<Rightarrow>
       (case alloc_pkt (hw_alloc_region hw) (h, nic_pool s) of
          (r, (h', pl)) \<Rightarrow> (r, (h', s\<lparr>nic_pool := pl\<rparr>))))"

definition give_pkt :: "'r option \<Rightarrow> ('h, 'r, unit) nic_act" where
  "give_pkt pkt =
     abind (reads nic_pool) (\<lambda>pl. abind (alift (free_pkt pkt pl)) (\<lambda>pl'. updates (\<lambda>s. s\<lparr>nic_pool := pl'\<rparr>)))"

text \<open>\<open>struct\<close>, little endian: a field of \<open>n\<close> bytes at an offset, and the bytes of a field.\<close>

definition le_field :: "nat \<Rightarrow> nat \<Rightarrow> byte list \<Rightarrow> int" where
  "le_field n offset bs = be_int (rev (take n (drop offset bs)))"

definition le_bytes :: "nat \<Rightarrow> int \<Rightarrow> byte list result" where
  "le_bytes n v = (if fits n v then Inr (rev (be_bytes n v)) else Inl StructError)"

text \<open>\<open>n.bit_length()\<close>.\<close>

fun bit_length :: "nat \<Rightarrow> nat" where
  "bit_length n = (if n = 0 then 0 else Suc (bit_length (n div 2)))"

declare bit_length.simps [simp del]

definition log_of :: "nat \<Rightarrow> nat" where
  "log_of n = bit_length n - 1"

definition need_window :: "int option \<Rightarrow> ('h, 'r, int) nic_act" where
  "need_window w = aneed AttributeError w"

text \<open>\<open>MASK | None\<close> and the like: an integer that must be there.\<close>

definition need_int :: "int option \<Rightarrow> ('h, 'r, int) nic_act" where
  "need_int v = aneed TypeError v"

end
