(* ===== verification/Nic_Queues.thy ===== *)
theory Nic_Queues
  imports Nic_State
begin

text \<open>
  Queue indices, event queues and completion queues of the NIC driver (\<open>Eq\<close> and \<open>Cq\<close> of \<open>mqnic.py\<close>):
  what opening one programs into its registers, what closing one gives back, and the pointer and arm
  commands.
\<close>


section \<open>Queue indices and windows\<close>

datatype queue_class = EQ | CQ | TXQ | RXQ

fun the_res :: "queue_class \<Rightarrow> 'r nic \<Rightarrow> resource" where
  "the_res EQ s = nic_eq_res s"
| "the_res CQ s = nic_cq_res s"
| "the_res TXQ s = nic_txq_res s"
| "the_res RXQ s = nic_rxq_res s"

fun set_res :: "queue_class \<Rightarrow> resource \<Rightarrow> 'r nic \<Rightarrow> 'r nic" where
  "set_res EQ rc s = s\<lparr>nic_eq_res := rc\<rparr>"
| "set_res CQ rc s = s\<lparr>nic_cq_res := rc\<rparr>"
| "set_res TXQ rc s = s\<lparr>nic_txq_res := rc\<rparr>"
| "set_res RXQ rc s = s\<lparr>nic_rxq_res := rc\<rparr>"

fun ring_class :: "ring_kind \<Rightarrow> queue_class" where
  "ring_class TX = TXQ"
| "ring_class RX = RXQ"

definition take_index :: "queue_class \<Rightarrow> ('h, 'r, int) nic_act" where
  "take_index qc =
     abind (reads (the_res qc)) (\<lambda>rc. abind (alift (res_alloc rc)) (\<lambda>(index, rc').
       athen (updates (set_res qc rc')) (aret index)))"

definition give_index :: "queue_class \<Rightarrow> int \<Rightarrow> ('h, 'r, unit) nic_act" where
  "give_index qc index = updates (\<lambda>s. set_res qc (res_free index (the_res qc s)) s)"

definition take_window :: "queue_class \<Rightarrow> int \<Rightarrow> ('h, 'r, int) nic_act" where
  "take_window qc index =
     abind (reads (the_res qc)) (\<lambda>rc.
       case get_window index rc of (w, rc') \<Rightarrow> athen (updates (set_res qc rc')) (aret w))"


section \<open>Event queues\<close>

definition evq_open :: "('h, 'r) nic_hw \<Rightarrow> nat \<Rightarrow> int \<Rightarrow> nat \<Rightarrow> ('h, 'r, unit) nic_act" where
  "evq_open hw i irq qsize =
     abind (reads (\<lambda>s. nic_eqs s ! i)) (\<lambda>q.
     athen (aguard (evq_hw_regs q = None) PlainException) (
     abind (take_index EQ) (\<lambda>eqn.
     athen (updates (upd_eq i (\<lambda>q. q\<lparr>evq_eqn := Some eqn, evq_log_size := log_of qsize,
       evq_size := 2 ^ log_of qsize, evq_size_mask := 2 ^ log_of qsize - 1, evq_stride := MQNIC_EVENT_SIZE,
       evq_buf_size := 2 ^ log_of qsize * MQNIC_EVENT_SIZE\<rparr>))) (
     abind (alloc_region hw (2 ^ log_of qsize * MQNIC_EVENT_SIZE)) (\<lambda>region.
     athen (mem_store hw region 0 (replicate (nat (2 ^ log_of qsize * MQNIC_EVENT_SIZE)) 0)) (
     athen (updates (upd_eq i (\<lambda>q. q\<lparr>evq_buf_region := Some region, evq_buf_dma := hw_address hw region,
       evq_cons_ptr := 0, evq_irq := Some irq, evq_cq_table := []\<rparr>))) (
     abind (take_window EQ eqn) (\<lambda>w.
     athen (updates (upd_eq i (\<lambda>q. q\<lparr>evq_hw_regs := Some w\<rparr>))) (
     athen (reg_writes hw w
       [(MQNIC_EQ_CTRL_STATUS_REG, MQNIC_EQ_CMD_SET_ENABLE OR 0),
        (MQNIC_EQ_BASE_ADDR_VF_REG, hw_address hw region AND 0xfffff000),
        (MQNIC_EQ_BASE_ADDR_VF_REG + 4, drop_bit 32 (hw_address hw region)),
        (MQNIC_EQ_CTRL_STATUS_REG, MQNIC_EQ_CMD_SET_SIZE OR int (log_of qsize)),
        (MQNIC_EQ_CTRL_STATUS_REG, MQNIC_EQ_CMD_SET_IRQN OR irq),
        (MQNIC_EQ_CTRL_STATUS_REG, MQNIC_EQ_CMD_SET_PROD_PTR OR 0),
        (MQNIC_EQ_CTRL_STATUS_REG, MQNIC_EQ_CMD_SET_CONS_PTR OR (0 AND MQNIC_EQ_PTR_MASK)),
        (MQNIC_EQ_CTRL_STATUS_REG, MQNIC_EQ_CMD_SET_ENABLE OR 1)])
       (updates (upd_eq i (\<lambda>q. q\<lparr>evq_enabled := True\<rparr>))))))))))))"

definition evq_close :: "('h, 'r) nic_hw \<Rightarrow> nat \<Rightarrow> ('h, 'r, unit) nic_act" where
  "evq_close hw i =
     abind (reads (\<lambda>s. nic_eqs s ! i)) (\<lambda>q.
       case evq_hw_regs q of
         None \<Rightarrow> aret ()
       | Some w \<Rightarrow>
           athen (reg_write hw (w + MQNIC_EQ_CTRL_STATUS_REG) (MQNIC_EQ_CMD_SET_ENABLE OR 0)) (
           athen (updates (upd_eq i (\<lambda>q. q\<lparr>evq_irq := None, evq_enabled := False, evq_hw_regs := None\<rparr>))) (
           abind (need_int (evq_eqn q)) (\<lambda>eqn.
           athen (give_index EQ eqn)
             (updates (upd_eq i (\<lambda>q. q\<lparr>evq_eqn := None\<rparr>)))))))"

definition attach_cq :: "nat \<Rightarrow> int \<Rightarrow> nat \<Rightarrow> ('h, 'r, unit) nic_act" where
  "attach_cq i cqn j = updates (upd_eq i (\<lambda>q. q\<lparr>evq_cq_table := dset (evq_cq_table q) cqn j\<rparr>))"

definition detach_cq :: "nat \<Rightarrow> int \<Rightarrow> ('h, 'r, unit) nic_act" where
  "detach_cq i cqn =
     abind (reads (\<lambda>s. nic_eqs s ! i)) (\<lambda>q.
       athen (aguard (dmem cqn (evq_cq_table q)) KeyError)
         (updates (upd_eq i (\<lambda>q. q\<lparr>evq_cq_table := dpop (evq_cq_table q) cqn\<rparr>))))"

definition evq_write_cons_ptr :: "('h, 'r) nic_hw \<Rightarrow> nat \<Rightarrow> ('h, 'r, unit) nic_act" where
  "evq_write_cons_ptr hw i =
     abind (reads (\<lambda>s. nic_eqs s ! i)) (\<lambda>q. abind (need_window (evq_hw_regs q)) (\<lambda>w.
       reg_write hw (w + MQNIC_EQ_CTRL_STATUS_REG)
         (MQNIC_EQ_CMD_SET_CONS_PTR OR (evq_cons_ptr q AND MQNIC_EQ_PTR_MASK))))"

definition evq_arm :: "('h, 'r) nic_hw \<Rightarrow> nat \<Rightarrow> ('h, 'r, unit) nic_act" where
  "evq_arm hw i =
     abind (reads (\<lambda>s. nic_eqs s ! i)) (\<lambda>q.
       case evq_hw_regs q of
         None \<Rightarrow> aret ()
       | Some w \<Rightarrow> reg_write hw (w + MQNIC_EQ_CTRL_STATUS_REG) (MQNIC_EQ_CMD_SET_ARM OR 1))"


section \<open>Completion queues\<close>

definition cpq_open :: "('h, 'r) nic_hw \<Rightarrow> nat \<Rightarrow> nat \<Rightarrow> nat \<Rightarrow> ('h, 'r, unit) nic_act" where
  "cpq_open hw j eq qsize =
     abind (reads (\<lambda>s. nic_cqs s ! j)) (\<lambda>q.
     athen (aguard (cpq_hw_regs q = None) PlainException) (
     abind (take_index CQ) (\<lambda>cqn.
     athen (updates (upd_cq j (\<lambda>q. q\<lparr>cpq_cqn := Some cqn, cpq_log_size := log_of qsize,
       cpq_size := 2 ^ log_of qsize, cpq_size_mask := 2 ^ log_of qsize - 1, cpq_stride := MQNIC_EVENT_SIZE,
       cpq_buf_size := 2 ^ log_of qsize * MQNIC_EVENT_SIZE\<rparr>))) (
     abind (alloc_region hw (2 ^ log_of qsize * MQNIC_EVENT_SIZE)) (\<lambda>region.
     athen (mem_store hw region 0 (replicate (nat (2 ^ log_of qsize * MQNIC_EVENT_SIZE)) 0)) (
     athen (updates (upd_cq j (\<lambda>q. q\<lparr>cpq_buf_region := Some region, cpq_buf_dma := hw_address hw region,
       cpq_cons_ptr := 0\<rparr>))) (
     athen (attach_cq eq cqn j) (
     athen (updates (upd_cq j (\<lambda>q. q\<lparr>cpq_eq := Some eq\<rparr>))) (
     abind (take_window CQ cqn) (\<lambda>w.
     athen (updates (upd_cq j (\<lambda>q. q\<lparr>cpq_hw_regs := Some w\<rparr>))) (
     athen (reg_writes hw w
       [(MQNIC_CQ_CTRL_STATUS_REG, MQNIC_CQ_CMD_SET_ENABLE OR 0),
        (MQNIC_CQ_BASE_ADDR_VF_REG, hw_address hw region AND 0xfffff000),
        (MQNIC_CQ_BASE_ADDR_VF_REG + 4, drop_bit 32 (hw_address hw region)),
        (MQNIC_CQ_CTRL_STATUS_REG, MQNIC_CQ_CMD_SET_SIZE OR int (log_of qsize))]) (
     abind (reads (\<lambda>s. evq_eqn (nic_eqs s ! eq))) (\<lambda>eqn_opt.
     abind (need_int eqn_opt) (\<lambda>eqn.
     athen (reg_writes hw w
       [(MQNIC_CQ_CTRL_STATUS_REG, MQNIC_CQ_CMD_SET_EQN OR eqn),
        (MQNIC_CQ_CTRL_STATUS_REG, MQNIC_CQ_CMD_SET_PROD_PTR OR 0),
        (MQNIC_CQ_CTRL_STATUS_REG, MQNIC_CQ_CMD_SET_CONS_PTR OR (0 AND MQNIC_CQ_PTR_MASK)),
        (MQNIC_CQ_CTRL_STATUS_REG, MQNIC_CQ_CMD_SET_ENABLE OR 1)])
       (updates (upd_cq j (\<lambda>q. q\<lparr>cpq_enabled := True\<rparr>)))))))))))))))))"

definition cpq_close :: "('h, 'r) nic_hw \<Rightarrow> nat \<Rightarrow> ('h, 'r, unit) nic_act" where
  "cpq_close hw j =
     abind (reads (\<lambda>s. nic_cqs s ! j)) (\<lambda>q.
       case cpq_hw_regs q of
         None \<Rightarrow> aret ()
       | Some w \<Rightarrow>
           athen (reg_write hw (w + MQNIC_CQ_CTRL_STATUS_REG) (MQNIC_CQ_CMD_SET_ENABLE OR 0)) (
           abind (aneed AttributeError (cpq_eq q)) (\<lambda>eq.
           abind (aneed KeyError (cpq_cqn q)) (\<lambda>cqn.
           athen (detach_cq eq cqn) (
           athen (updates (upd_cq j (\<lambda>q. q\<lparr>cpq_eq := None, cpq_enabled := False, cpq_hw_regs := None\<rparr>))) (
           athen (give_index CQ cqn)
             (updates (upd_cq j (\<lambda>q. q\<lparr>cpq_cqn := None\<rparr>)))))))))"

definition cpq_write_cons_ptr :: "('h, 'r) nic_hw \<Rightarrow> nat \<Rightarrow> ('h, 'r, unit) nic_act" where
  "cpq_write_cons_ptr hw j =
     abind (reads (\<lambda>s. nic_cqs s ! j)) (\<lambda>q. abind (need_window (cpq_hw_regs q)) (\<lambda>w.
       reg_write hw (w + MQNIC_CQ_CTRL_STATUS_REG)
         (MQNIC_CQ_CMD_SET_CONS_PTR OR (cpq_cons_ptr q AND MQNIC_CQ_PTR_MASK))))"

definition cpq_arm :: "('h, 'r) nic_hw \<Rightarrow> nat \<Rightarrow> ('h, 'r, unit) nic_act" where
  "cpq_arm hw j =
     abind (reads (\<lambda>s. nic_cqs s ! j)) (\<lambda>q.
       case cpq_hw_regs q of
         None \<Rightarrow> aret ()
       | Some w \<Rightarrow> reg_write hw (w + MQNIC_CQ_CTRL_STATUS_REG) (MQNIC_CQ_CMD_SET_ARM OR 1))"

end
