(* ===== verification/Nic_Rings.thy ===== *)
theory Nic_Rings
  imports Nic_Queues
begin

text \<open>
  The transmit and receive rings of the NIC driver (\<open>Txq\<close> and \<open>Rxq\<close> of \<open>mqnic.py\<close>): life cycle,
  descriptors, and the handlers that a completion queue or an event queue runs. A loop whose end the
  hardware decides is a partial function: not returning is \<open>None\<close>.
\<close>


section \<open>Life cycle\<close>

definition ring_enable :: "('h, 'r) nic_hw \<Rightarrow> ring_kind \<Rightarrow> nat \<Rightarrow> ('h, 'r, unit) nic_act" where
  "ring_enable hw k i =
     abind (reads (the_ring k i)) (\<lambda>r.
       case rg_hw_regs r of
         None \<Rightarrow> araise PlainException
       | Some w \<Rightarrow>
           athen (reg_write hw (w + MQNIC_QUEUE_CTRL_STATUS_REG) (MQNIC_QUEUE_CMD_SET_ENABLE OR 1))
             (updates (upd_ring k i (\<lambda>r. r\<lparr>rg_enabled := True\<rparr>))))"

definition ring_disable :: "('h, 'r) nic_hw \<Rightarrow> ring_kind \<Rightarrow> nat \<Rightarrow> ('h, 'r, unit) nic_act" where
  "ring_disable hw k i =
     abind (reads (the_ring k i)) (\<lambda>r.
       case rg_hw_regs r of
         None \<Rightarrow> aret ()
       | Some w \<Rightarrow>
           athen (reg_write hw (w + MQNIC_QUEUE_CTRL_STATUS_REG) (MQNIC_QUEUE_CMD_SET_ENABLE OR 0))
             (updates (upd_ring k i (\<lambda>r. r\<lparr>rg_enabled := False\<rparr>))))"

definition ring_empty :: "'r ring \<Rightarrow> bool" where
  "ring_empty r \<longleftrightarrow> rg_prod_ptr r = rg_cons_ptr r"

definition ring_full :: "'r ring \<Rightarrow> bool" where
  "ring_full r \<longleftrightarrow> rg_prod_ptr r - rg_cons_ptr r \<ge> rg_full_size r"

definition ring_read_cons_ptr :: "('h, 'r) nic_hw \<Rightarrow> ring_kind \<Rightarrow> nat \<Rightarrow> ('h, 'r, unit) nic_act" where
  "ring_read_cons_ptr hw k i =
     abind (reads (the_ring k i)) (\<lambda>r. abind (need_window (rg_hw_regs r)) (\<lambda>w.
     abind (reg_read hw (w + MQNIC_QUEUE_PTR_REG)) (\<lambda>v.
       updates (upd_ring k i (\<lambda>r. r\<lparr>rg_cons_ptr :=
         rg_cons_ptr r + ((drop_bit 16 v - rg_cons_ptr r) AND MQNIC_QUEUE_PTR_MASK)\<rparr>)))))"

definition ring_write_prod_ptr :: "('h, 'r) nic_hw \<Rightarrow> ring_kind \<Rightarrow> nat \<Rightarrow> ('h, 'r, unit) nic_act" where
  "ring_write_prod_ptr hw k i =
     abind (reads (the_ring k i)) (\<lambda>r. abind (need_window (rg_hw_regs r)) (\<lambda>w.
       reg_write hw (w + MQNIC_QUEUE_CTRL_STATUS_REG)
         (MQNIC_QUEUE_CMD_SET_PROD_PTR OR (rg_prod_ptr r AND MQNIC_QUEUE_PTR_MASK))))"

text \<open>\<open>self.tx_info[index]\<close> for an index that has been masked.\<close>

definition info_at :: "int \<Rightarrow> 'r ring \<Rightarrow> 'r option result" where
  "info_at index r =
     (if nat index < length (rg_info r) then Inr (rg_info r ! nat index) else Inl IndexError)"

definition free_desc :: "ring_kind \<Rightarrow> nat \<Rightarrow> int \<Rightarrow> ('h, 'r, unit) nic_act" where
  "free_desc k i index =
     abind (reads (the_ring k i)) (\<lambda>r. abind (alift (info_at index r)) (\<lambda>pkt.
     athen (give_pkt pkt)
       (updates (upd_ring k i (\<lambda>r. r\<lparr>rg_info := (rg_info r)[nat index := None]\<rparr>)))))"

definition ring_open ::
  "('h, 'r) nic_hw \<Rightarrow> ring_kind \<Rightarrow> nat \<Rightarrow> nat \<Rightarrow> nat \<Rightarrow> nat \<Rightarrow> nat \<Rightarrow> ('h, 'r, unit) nic_act" where
  "ring_open hw k i ndev cq qsize desc_block_size =
     abind (reads (the_ring k i)) (\<lambda>r.
     athen (aguard (rg_hw_regs r = None) PlainException) (
     abind (take_index (ring_class k)) (\<lambda>index.
     athen (updates (upd_ring k i (\<lambda>r. r\<lparr>rg_index := Some index,
       rg_log_queue_size := log_of qsize, rg_log_desc_block_size := log_of desc_block_size,
       rg_desc_block_size := 2 ^ log_of desc_block_size, rg_size := 2 ^ log_of qsize,
       rg_size_mask := 2 ^ log_of qsize - 1, rg_full_size := drop_bit 1 (2 ^ log_of qsize),
       rg_stride := MQNIC_DESC_SIZE * 2 ^ log_of desc_block_size,
       rg_info := replicate (2 ^ log_of qsize) None,
       rg_buf_size := 2 ^ log_of qsize * (MQNIC_DESC_SIZE * 2 ^ log_of desc_block_size)\<rparr>))) (
     abind (alloc_region hw (2 ^ log_of qsize * (MQNIC_DESC_SIZE * 2 ^ log_of desc_block_size))) (\<lambda>region.
     athen (updates (upd_ring k i (\<lambda>r. r\<lparr>rg_buf_region := Some region, rg_buf_dma := hw_address hw region,
       rg_prod_ptr := 0, rg_cons_ptr := 0, rg_ndev := Some ndev, rg_cq := Some cq\<rparr>))) (
     athen (updates (upd_cq cq (\<lambda>q. q\<lparr>cpq_src_ring := Some (k, i), cpq_handler := Some k\<rparr>))) (
     abind (take_window (ring_class k) index) (\<lambda>w.
     athen (updates (upd_ring k i (\<lambda>r. r\<lparr>rg_hw_regs := Some w\<rparr>))) (
     athen (reg_writes hw w
       [(MQNIC_QUEUE_CTRL_STATUS_REG, MQNIC_QUEUE_CMD_SET_ENABLE OR 0),
        (MQNIC_QUEUE_BASE_ADDR_VF_REG, hw_address hw region AND 0xfffff000),
        (MQNIC_QUEUE_BASE_ADDR_VF_REG + 4, drop_bit 32 (hw_address hw region)),
        (MQNIC_QUEUE_CTRL_STATUS_REG, MQNIC_QUEUE_CMD_SET_SIZE OR
          push_bit 8 (int (log_of desc_block_size)) OR int (log_of qsize))]) (
     abind (reads (\<lambda>s. cpq_cqn (nic_cqs s ! cq))) (\<lambda>cqn_opt.
     abind (need_int cqn_opt) (\<lambda>cqn.
       reg_writes hw w
         [(MQNIC_QUEUE_CTRL_STATUS_REG, MQNIC_QUEUE_CMD_SET_CQN OR cqn),
          (MQNIC_QUEUE_CTRL_STATUS_REG, MQNIC_QUEUE_CMD_SET_PROD_PTR OR (0 AND MQNIC_QUEUE_PTR_MASK)),
          (MQNIC_QUEUE_CTRL_STATUS_REG, MQNIC_QUEUE_CMD_SET_CONS_PTR OR (0 AND MQNIC_QUEUE_PTR_MASK))]))))))))))))"

definition ring_close :: "('h, 'r) nic_hw \<Rightarrow> ring_kind \<Rightarrow> nat \<Rightarrow> ('h, 'r, unit) nic_act" where
  "ring_close hw k i =
     abind (reads (the_ring k i)) (\<lambda>r.
       if rg_hw_regs r = None then aret ()
       else
         athen (ring_disable hw k i) (
         athen (case rg_cq r of
                  None \<Rightarrow> aret ()
                | Some cq \<Rightarrow> updates (upd_cq cq (\<lambda>q. q\<lparr>cpq_src_ring := None, cpq_handler := None\<rparr>))) (
         athen (updates (upd_ring k i (\<lambda>r. r\<lparr>rg_ndev := None, rg_cq := None, rg_hw_regs := None\<rparr>))) (
         abind (need_int (rg_index r)) (\<lambda>index.
         athen (give_index (ring_class k) index)
           (updates (upd_ring k i (\<lambda>r. r\<lparr>rg_index := None\<rparr>))))))))"


section \<open>Receive descriptors\<close>

text \<open>The segments a packet buffer is cut into: the last descriptor takes what is left.\<close>

fun rx_segments :: "nat \<Rightarrow> int \<Rightarrow> int \<Rightarrow> (int \<times> int) list" where
  "rx_segments 0 len offset = []"
| "rx_segments (Suc n) len offset =
     (let seg = (if n = 0 then len - offset else min (len - offset) 4096)
      in (seg, offset) # rx_segments n len (offset + seg))"

definition segment_address :: "int \<Rightarrow> int \<times> int \<Rightarrow> int" where
  "segment_address ptr s = (if fst s \<noteq> 0 then ptr + snd s else 0)"

definition rx_descriptor :: "int \<Rightarrow> int \<times> int \<Rightarrow> byte list result" where
  "rx_descriptor ptr s =
     ebind (le_bytes 4 0) (\<lambda>zero. ebind (le_bytes 4 (fst s)) (\<lambda>len.
     ebind (le_bytes 8 (segment_address ptr s)) (\<lambda>address. Inr (zero @ len @ address))))"

definition prepare_desc :: "('h, 'r) nic_hw \<Rightarrow> nat \<Rightarrow> int \<Rightarrow> ('h, 'r, unit) nic_act" where
  "prepare_desc hw i index =
     abind (take_pkt hw) (\<lambda>pkt.
     abind (reads (the_ring RX i)) (\<lambda>r.
     athen (aguard (nat index < length (rg_info r)) IndexError) (
     athen (updates (upd_ring RX i (\<lambda>r. r\<lparr>rg_info := (rg_info r)[nat index := Some pkt]\<rparr>))) (
     abind (aneed TypeError (rg_buf_region r)) (\<lambda>region.
       afor (enumerate 0 (rx_segments (nat (rg_desc_block_size r)) (hw_size hw pkt) 0)) (\<lambda>(n, s).
         abind (alift (rx_descriptor (hw_address hw pkt) s)) (\<lambda>bs.
           mem_store hw region (index * rg_stride r + int n * MQNIC_DESC_SIZE) bs)))))))"

text \<open>One iteration of the refill loop.\<close>

definition refill_one :: "('h, 'r) nic_hw \<Rightarrow> nat \<Rightarrow> ('h, 'r, unit) nic_act" where
  "refill_one hw i =
     abind (reads (the_ring RX i)) (\<lambda>r.
     athen (prepare_desc hw i (rg_prod_ptr r AND rg_size_mask r))
       (updates (upd_ring RX i (\<lambda>r. r\<lparr>rg_prod_ptr := rg_prod_ptr r + 1\<rparr>))))"

definition refill_buffers :: "('h, 'r) nic_hw \<Rightarrow> nat \<Rightarrow> ('h, 'r, unit) nic_act" where
  "refill_buffers hw i =
     abind (reads (the_ring RX i)) (\<lambda>r.
       let missing = rg_size r - (rg_prod_ptr r - rg_cons_ptr r) in
       if missing < 8 then aret ()
       else athen (afor [0..<nat missing] (\<lambda>_. refill_one hw i)) (ring_write_prod_ptr hw RX i))"

text \<open>The two classes duplicate the code above; what differs is that opening a receive ring fills it.\<close>

definition rxq_open :: "('h, 'r) nic_hw \<Rightarrow> nat \<Rightarrow> nat \<Rightarrow> nat \<Rightarrow> nat \<Rightarrow> nat \<Rightarrow> ('h, 'r, unit) nic_act" where
  "rxq_open hw i ndev cq qsize desc_block_size =
     athen (ring_open hw RX i ndev cq qsize desc_block_size) (refill_buffers hw i)"

definition rxq_close :: "('h, 'r) nic_hw \<Rightarrow> nat \<Rightarrow> ('h, 'r, unit) nic_act" where
  "rxq_close hw i = ring_close hw RX i"

definition rxq_enable :: "('h, 'r) nic_hw \<Rightarrow> nat \<Rightarrow> ('h, 'r, unit) nic_act" where
  "rxq_enable hw i = ring_enable hw RX i"

definition rxq_disable :: "('h, 'r) nic_hw \<Rightarrow> nat \<Rightarrow> ('h, 'r, unit) nic_act" where
  "rxq_disable hw i = ring_disable hw RX i"

definition rxq_read_cons_ptr :: "('h, 'r) nic_hw \<Rightarrow> nat \<Rightarrow> ('h, 'r, unit) nic_act" where
  "rxq_read_cons_ptr hw i = ring_read_cons_ptr hw RX i"

definition rxq_write_prod_ptr :: "('h, 'r) nic_hw \<Rightarrow> nat \<Rightarrow> ('h, 'r, unit) nic_act" where
  "rxq_write_prod_ptr hw i = ring_write_prod_ptr hw RX i"

definition rxq_free_desc :: "nat \<Rightarrow> int \<Rightarrow> ('h, 'r, unit) nic_act" where
  "rxq_free_desc i index = free_desc RX i index"


section \<open>Loops the hardware ends\<close>

partial_function (option) consume ::
  "(int \<Rightarrow> 's \<Rightarrow> bool) \<Rightarrow> (int \<Rightarrow> 's \<Rightarrow> ((py_error + unit) \<times> 's) option) \<Rightarrow> int \<Rightarrow> 's
     \<Rightarrow> ((py_error + int) \<times> 's) option" where
  "consume busy step p s =
     (if \<not> busy p s then Some (Inr p, s)
      else Option.bind (step p s) (\<lambda>(r, s').
        case r of Inl e \<Rightarrow> Some (Inl e, s') | Inr _ \<Rightarrow> consume busy step (p + 1) s'))"

definition total :: "(int \<Rightarrow> 's \<Rightarrow> (py_error + unit) \<times> 's) \<Rightarrow> int \<Rightarrow> 's \<Rightarrow> ((py_error + unit) \<times> 's) option" where
  "total step p s = Some (step p s)"

text \<open>Going on after a loop: its exception, or the rest from the pointer it stopped at.\<close>

definition after ::
  "((py_error + int) \<times> 's) option \<Rightarrow> (int \<Rightarrow> 's \<Rightarrow> ((py_error + unit) \<times> 's) option)
     \<Rightarrow> ((py_error + unit) \<times> 's) option" where
  "after m f = Option.bind m (\<lambda>(r, s'). case r of Inl e \<Rightarrow> Some (Inl e, s') | Inr p \<Rightarrow> f p s')"

text \<open>\<open>free_buf\<close>: every slot between the pointers is freed, the consumer pointer follows.\<close>

definition free_buf_step :: "ring_kind \<Rightarrow> nat \<Rightarrow> int \<Rightarrow> ('h, 'r, unit) nic_act" where
  "free_buf_step k i p =
     abind (reads (the_ring k i)) (\<lambda>r.
     athen (free_desc k i (p AND rg_size_mask r))
       (updates (upd_ring k i (\<lambda>r. r\<lparr>rg_cons_ptr := p + 1\<rparr>))))"

definition free_buf :: "ring_kind \<Rightarrow> nat \<Rightarrow> 'h \<times> 'r nic \<Rightarrow> ((py_error + int) \<times> ('h \<times> 'r nic)) option" where
  "free_buf k i st =
     consume (\<lambda>p st. rg_prod_ptr (the_ring k i (snd st)) \<noteq> p) (total (free_buf_step k i))
       (rg_cons_ptr (the_ring k i (snd st))) st"

definition rxq_free_buf :: "nat \<Rightarrow> 'h \<times> 'r nic \<Rightarrow> ((py_error + int) \<times> ('h \<times> 'r nic)) option" where
  "rxq_free_buf i st = free_buf RX i st"


section \<open>Completions\<close>

text \<open>
  An entry of a queue at pointer \<open>p\<close>: valid while its phase bit, the top bit of the last word,
  differs from the lap bit of the pointer.
\<close>

definition entry_bytes :: "('h, 'r) nic_hw \<Rightarrow> 'r \<Rightarrow> int \<Rightarrow> int \<Rightarrow> int \<Rightarrow> 'h \<Rightarrow> byte list" where
  "entry_bytes hw region mask1 stride p h = hw_load hw region ((p AND mask1) * stride) 32 h"

definition entry_valid :: "('h, 'r) nic_hw \<Rightarrow> 'r \<Rightarrow> int \<Rightarrow> int \<Rightarrow> int \<Rightarrow> int \<Rightarrow> 'h \<Rightarrow> bool" where
  "entry_valid hw region qsize mask1 stride p h \<longleftrightarrow>
     (le_field 4 28 (entry_bytes hw region mask1 stride p h) AND 0x80000000 \<noteq> 0) \<noteq> (p AND qsize \<noteq> 0)"

definition completion_valid :: "('h, 'r) nic_hw \<Rightarrow> 'r completion_queue \<Rightarrow> 'r \<Rightarrow> int \<Rightarrow> 'h \<Rightarrow> bool" where
  "completion_valid hw q region p h =
     entry_valid hw region (cpq_size q) (cpq_size_mask q) (cpq_stride q) p h"

definition completion :: "('h, 'r) nic_hw \<Rightarrow> 'r completion_queue \<Rightarrow> 'r \<Rightarrow> int \<Rightarrow> 'h \<Rightarrow> byte list" where
  "completion hw q region p h = entry_bytes hw region (cpq_size_mask q) (cpq_stride q) p h"

definition tx_completion_step ::
  "('h, 'r) nic_hw \<Rightarrow> 'r completion_queue \<Rightarrow> 'r \<Rightarrow> ring_kind \<times> nat \<Rightarrow> int \<Rightarrow> ('h, 'r, unit) nic_act" where
  "tx_completion_step hw q region ring p =
     abind (aget (\<lambda>(h, s). completion hw q region p h)) (\<lambda>cpl.
     abind (reads (the_ring (fst ring) (snd ring))) (\<lambda>r.
       free_desc (fst ring) (snd ring) (le_field 2 2 cpl AND rg_size_mask r)))"

text \<open>After the completions: the pointer moves over the slots that are free.\<close>

partial_function (option) skip_free :: "'r option list \<Rightarrow> int \<Rightarrow> int \<Rightarrow> int \<Rightarrow> int option" where
  "skip_free info mask1 prod_ptr p =
     (if p = prod_ptr then Some p
      else if info ! nat (p AND mask1) \<noteq> None then Some p
      else skip_free info mask1 prod_ptr (p + 1))"

definition clean_ring :: "ring_kind \<times> nat \<Rightarrow> 'h \<times> 'r nic \<Rightarrow> ((py_error + unit) \<times> ('h \<times> 'r nic)) option" where
  "clean_ring ring st =
     (let r = the_ring (fst ring) (snd ring) (snd st) in
      map_option (\<lambda>p. updates (upd_ring (fst ring) (snd ring) (\<lambda>r. r\<lparr>rg_cons_ptr := p\<rparr>)) st)
        (skip_free (rg_info r) (rg_size_mask r) (rg_prod_ptr r) (rg_cons_ptr r)))"

text \<open>What both handlers look up first: the ring, the net device and whether its port is up.\<close>

definition handler_context ::
  "nat \<Rightarrow> ('h, 'r, ('r completion_queue \<times> (ring_kind \<times> nat) \<times> nat) option) nic_act" where
  "handler_context j =
     abind (reads (\<lambda>s. nic_cqs s ! j)) (\<lambda>q.
     abind (aneed AttributeError (cpq_src_ring q)) (\<lambda>ring.
     abind (reads (the_ring (fst ring) (snd ring))) (\<lambda>r.
     abind (aneed AttributeError (rg_ndev r)) (\<lambda>d.
     abind (reads (\<lambda>s. ndv_port_up (nic_ndevs s ! d))) (\<lambda>up.
       aret (if up then Some (q, ring, d) else None))))))"

definition process_cq ::
  "('h, 'r) nic_hw
     \<Rightarrow> ('r completion_queue \<Rightarrow> 'r \<Rightarrow> ring_kind \<times> nat \<Rightarrow> nat \<Rightarrow> int \<Rightarrow> ('h, 'r, unit) nic_act)
     \<Rightarrow> (ring_kind \<times> nat \<Rightarrow> ('h, 'r, unit) nic_act)
     \<Rightarrow> nat \<Rightarrow> 'h \<times> 'r nic \<Rightarrow> ((py_error + unit) \<times> ('h \<times> 'r nic)) option" where
  "process_cq hw step finish j st =
     (case handler_context j st of
        (Inl e, st1) \<Rightarrow> Some (Inl e, st1)
      | (Inr None, st1) \<Rightarrow> Some (Inr (), st1)
      | (Inr (Some (q, ring, d)), st1) \<Rightarrow>
          (case cpq_buf_region q of
             None \<Rightarrow> Some (Inl TypeError, st1)
           | Some region \<Rightarrow>
               after (consume (\<lambda>p st. completion_valid hw q region p (fst st)) (total (step q region ring d))
                        (cpq_cons_ptr q) st1)
                 (\<lambda>p st2.
                    case athen (updates (upd_cq j (\<lambda>q. q\<lparr>cpq_cons_ptr := p\<rparr>))) (cpq_write_cons_ptr hw j) st2 of
                      (Inl e, st3) \<Rightarrow> Some (Inl e, st3)
                    | (Inr _, st3) \<Rightarrow>
                        Option.bind (clean_ring ring st3) (\<lambda>(r, st4). Some (finish ring st4)))))"

definition process_tx_cq ::
  "('h, 'r) nic_hw \<Rightarrow> nat \<Rightarrow> 'h \<times> 'r nic \<Rightarrow> ((py_error + unit) \<times> ('h \<times> 'r nic)) option" where
  "process_tx_cq hw =
     process_cq hw (\<lambda>q region ring d. tx_completion_step hw q region ring)
       (\<lambda>ring. updates (upd_ring (fst ring) (snd ring) (\<lambda>r. r\<lparr>rg_clean_event := True\<rparr>)))"

definition rx_completion_step ::
  "('h, 'r) nic_hw \<Rightarrow> 'r completion_queue \<Rightarrow> 'r \<Rightarrow> ring_kind \<times> nat \<Rightarrow> nat \<Rightarrow> int \<Rightarrow> ('h, 'r, unit) nic_act" where
  "rx_completion_step hw q region ring d p =
     abind (aget (\<lambda>(h, s). completion hw q region p h)) (\<lambda>cpl.
     abind (reads (the_ring (fst ring) (snd ring))) (\<lambda>r.
     abind (alift (info_at (le_field 2 2 cpl AND rg_size_mask r) r)) (\<lambda>slot.
     abind (aneed TypeError slot) (\<lambda>pkt.
     abind (mem_load hw pkt 0 (le_field 2 4 cpl)) (\<lambda>data.
     athen (updates (upd_ndev d (\<lambda>n. n\<lparr>ndv_pkt_rx_queue := ndv_pkt_rx_queue n @
         [\<lparr>skb_data = data, skb_queue = rg_index r,
           skb_timestamp = (le_field 2 12 cpl, le_field 4 8 cpl, le_field 2 6 cpl),
           skb_rx_checksum = le_field 2 14 cpl\<rparr>], ndv_pkt_rx_sync := True\<rparr>)))
       (free_desc (fst ring) (snd ring) (le_field 2 2 cpl AND rg_size_mask r)))))))"

definition process_rx_cq ::
  "('h, 'r) nic_hw \<Rightarrow> nat \<Rightarrow> 'h \<times> 'r nic \<Rightarrow> ((py_error + unit) \<times> ('h \<times> 'r nic)) option" where
  "process_rx_cq hw = process_cq hw (rx_completion_step hw) (\<lambda>ring. refill_buffers hw (snd ring))"

end
