(* ===== verification/Nic_Events.thy ===== *)
theory Nic_Events
  imports Nic_Rings
begin

text \<open>
  Event delivery of the NIC driver (\<open>Eq.process_eq\<close> of \<open>mqnic.py\<close>): an interrupt runs the event
  queues bound to it, an event queue runs the handler of the completion queue each event names, and
  the handler drains that completion queue. The loops end where the hardware has written no further
  entry.
\<close>


section \<open>Event queues\<close>

text \<open>An operation after one that may not return.\<close>

definition and_then ::
  "((py_error + unit) \<times> 's) option \<Rightarrow> ('s, py_error, unit) act \<Rightarrow> ((py_error + unit) \<times> 's) option" where
  "and_then m k = Option.bind m (\<lambda>(r, s'). case r of Inl e \<Rightarrow> Some (Inl e, s') | Inr _ \<Rightarrow> Some (k s'))"

fun run_handler ::
  "('h, 'r) nic_hw \<Rightarrow> ring_kind option \<Rightarrow> nat \<Rightarrow> 'h \<times> 'r nic \<Rightarrow> ((py_error + unit) \<times> ('h \<times> 'r nic)) option" where
  "run_handler hw (Some TX) j st = process_tx_cq hw j st"
| "run_handler hw (Some RX) j st = process_rx_cq hw j st"
| "run_handler hw None j st = Some (Inl TypeError, st)"

definition event_bytes :: "('h, 'r) nic_hw \<Rightarrow> 'r event_queue \<Rightarrow> 'r \<Rightarrow> int \<Rightarrow> 'h \<Rightarrow> byte list" where
  "event_bytes hw q region p h = entry_bytes hw region (evq_size_mask q) (evq_stride q) p h"

definition event_valid :: "('h, 'r) nic_hw \<Rightarrow> 'r event_queue \<Rightarrow> 'r \<Rightarrow> int \<Rightarrow> 'h \<Rightarrow> bool" where
  "event_valid hw q region p h = entry_valid hw region (evq_size q) (evq_size_mask q) (evq_stride q) p h"

text \<open>
  The body of the loop for one valid event; an event of another type is skipped. \<open>q\<close> is the event
  queue as the loop found it: no handler changes one.
\<close>

definition event_step ::
  "('h, 'r) nic_hw \<Rightarrow> 'r event_queue \<Rightarrow> 'r \<Rightarrow> int \<Rightarrow> 'h \<times> 'r nic \<Rightarrow> ((py_error + unit) \<times> ('h \<times> 'r nic)) option" where
  "event_step hw q region p st =
     (let event = event_bytes hw q region p (fst st) in
      if le_field 2 0 event = MQNIC_EVENT_TYPE_CPL then
        (case dget (evq_cq_table q) (le_field 2 2 event) of
           None \<Rightarrow> Some (Inl KeyError, st)
         | Some j \<Rightarrow> and_then (run_handler hw (cpq_handler (nic_cqs (snd st) ! j)) j st) (cpq_arm hw j))
      else Some (Inr (), st))"

definition process_eq ::
  "('h, 'r) nic_hw \<Rightarrow> nat \<Rightarrow> 'h \<times> 'r nic \<Rightarrow> ((py_error + unit) \<times> ('h \<times> 'r nic)) option" where
  "process_eq hw i st =
     (let q = nic_eqs (snd st) ! i in
      case evq_buf_region q of
        None \<Rightarrow> Some (Inl TypeError, st)
      | Some region \<Rightarrow>
          after (consume (\<lambda>p st. event_valid hw q region p (fst st)) (event_step hw q region) (evq_cons_ptr q) st)
            (\<lambda>p st'. Some (athen (updates (upd_eq i (\<lambda>q. q\<lparr>evq_cons_ptr := p\<rparr>))) (evq_write_cons_ptr hw i) st')))"

section \<open>Event queues in turn\<close>

fun in_turn ::
  "('a \<Rightarrow> 's \<Rightarrow> ((py_error + unit) \<times> 's) option) \<Rightarrow> 'a list \<Rightarrow> 's \<Rightarrow> ((py_error + unit) \<times> 's) option" where
  "in_turn f [] s = Some (Inr (), s)"
| "in_turn f (x # xs) s =
     Option.bind (f x s) (\<lambda>(r, s'). case r of Inl e \<Rightarrow> Some (Inl e, s') | Inr _ \<Rightarrow> in_turn f xs s')"

definition serve_eq ::
  "('h, 'r) nic_hw \<Rightarrow> int \<Rightarrow> nat \<Rightarrow> 'h \<times> 'r nic \<Rightarrow> ((py_error + unit) \<times> ('h \<times> 'r nic)) option" where
  "serve_eq hw irq i st =
     (if evq_irq (nic_eqs (snd st) ! i) = Some irq then and_then (process_eq hw i st) (evq_arm hw i)
      else Some (Inr (), st))"

end
