(* ===== verification/Nic_Schedulers.thy ===== *)
theory Nic_Schedulers
  imports Nic_State
begin

text \<open>
  Ports and transmit schedulers of the NIC driver (\<open>Port\<close>, \<open>BaseScheduler\<close>, \<open>SchedulerRoundRobin\<close>,
  \<open>SchedulerControlTdma\<close>, \<open>SchedulerPort\<close> and \<open>SchedulerBlock\<close> of \<open>mqnic.py\<close>): what their \<open>init\<close> reads
  and programs, their control registers, and the commands of a queue. A register block is the
  absolute address of its window.
\<close>

definition MQNIC_MAX_TXQ :: int where "MQNIC_MAX_TXQ = 32"
definition MQNIC_RB_PORT_REG_OFFSET :: int where "MQNIC_RB_PORT_REG_OFFSET = 0x0C"
definition MQNIC_RB_PORT_CTRL_TYPE :: int where "MQNIC_RB_PORT_CTRL_TYPE = 0x0000C003"
definition MQNIC_RB_PORT_CTRL_VER :: int where "MQNIC_RB_PORT_CTRL_VER = 0x00000300"
definition MQNIC_RB_PORT_CTRL_REG_FEATURES :: int where "MQNIC_RB_PORT_CTRL_REG_FEATURES = 0x0C"
definition MQNIC_RB_PORT_CTRL_REG_TX_CTRL :: int where "MQNIC_RB_PORT_CTRL_REG_TX_CTRL = 0x10"
definition MQNIC_RB_PORT_CTRL_REG_RX_CTRL :: int where "MQNIC_RB_PORT_CTRL_REG_RX_CTRL = 0x14"
definition MQNIC_RB_PORT_CTRL_REG_LFC_CTRL :: int where "MQNIC_RB_PORT_CTRL_REG_LFC_CTRL = 0x1C"
definition MQNIC_RB_PORT_CTRL_REG_PFC_CTRL0 :: int where "MQNIC_RB_PORT_CTRL_REG_PFC_CTRL0 = 0x20"
definition MQNIC_PORT_FEATURE_LFC :: int where "MQNIC_PORT_FEATURE_LFC = 1"
definition MQNIC_PORT_FEATURE_PFC :: int where "MQNIC_PORT_FEATURE_PFC = 2"
definition MQNIC_PORT_FEATURE_INT_MAC_CTRL :: int where "MQNIC_PORT_FEATURE_INT_MAC_CTRL = 4"
definition MQNIC_RB_SCHED_BLOCK_REG_OFFSET :: int where "MQNIC_RB_SCHED_BLOCK_REG_OFFSET = 0x0C"
definition MQNIC_RB_SCHED_RR_TYPE :: int where "MQNIC_RB_SCHED_RR_TYPE = 0x0000C040"
definition MQNIC_RB_SCHED_RR_VER :: int where "MQNIC_RB_SCHED_RR_VER = 0x00000200"
definition MQNIC_RB_SCHED_RR_REG_OFFSET :: int where "MQNIC_RB_SCHED_RR_REG_OFFSET = 0x0C"
definition MQNIC_RB_SCHED_RR_REG_QUEUE_COUNT :: int where "MQNIC_RB_SCHED_RR_REG_QUEUE_COUNT = 0x10"
definition MQNIC_RB_SCHED_RR_REG_QUEUE_STRIDE :: int where "MQNIC_RB_SCHED_RR_REG_QUEUE_STRIDE = 0x14"
definition MQNIC_RB_SCHED_RR_REG_CTRL :: int where "MQNIC_RB_SCHED_RR_REG_CTRL = 0x18"
definition MQNIC_RB_SCHED_RR_REG_CFG :: int where "MQNIC_RB_SCHED_RR_REG_CFG = 0x1C"
definition MQNIC_RB_SCHED_RR_REG_CH_STRIDE :: int where "MQNIC_RB_SCHED_RR_REG_CH_STRIDE = 0x10"
definition MQNIC_RB_SCHED_RR_REG_CH0_CTRL :: int where "MQNIC_RB_SCHED_RR_REG_CH0_CTRL = 0x20"
definition MQNIC_RB_SCHED_RR_REG_CH0_FC1_DEST :: int where "MQNIC_RB_SCHED_RR_REG_CH0_FC1_DEST = 0x24"
definition MQNIC_RB_SCHED_RR_REG_CH0_FC1_PB :: int where "MQNIC_RB_SCHED_RR_REG_CH0_FC1_PB = 0x26"
definition MQNIC_RB_SCHED_RR_REG_CH0_FC2_DB :: int where "MQNIC_RB_SCHED_RR_REG_CH0_FC2_DB = 0x28"
definition MQNIC_RB_SCHED_RR_REG_CH0_FC2_PL :: int where "MQNIC_RB_SCHED_RR_REG_CH0_FC2_PL = 0x2A"
definition MQNIC_RB_SCHED_RR_REG_CH0_FC3_DL :: int where "MQNIC_RB_SCHED_RR_REG_CH0_FC3_DL = 0x2C"
definition MQNIC_SCHED_RR_PORT_TC :: int where "MQNIC_SCHED_RR_PORT_TC = 7"
definition MQNIC_SCHED_RR_PORT_EN :: int where "MQNIC_SCHED_RR_PORT_EN = 8"
definition MQNIC_SCHED_RR_PORT_PAUSE :: int where "MQNIC_SCHED_RR_PORT_PAUSE = 16"
definition MQNIC_SCHED_RR_QUEUE_EN :: int where "MQNIC_SCHED_RR_QUEUE_EN = 64"
definition MQNIC_SCHED_RR_CMD_SET_PORT_TC :: int where "MQNIC_SCHED_RR_CMD_SET_PORT_TC = 0x80010000"
definition MQNIC_SCHED_RR_CMD_SET_PORT_ENABLE :: int where "MQNIC_SCHED_RR_CMD_SET_PORT_ENABLE = 0x80020000"
definition MQNIC_SCHED_RR_CMD_SET_PORT_PAUSE :: int where "MQNIC_SCHED_RR_CMD_SET_PORT_PAUSE = 0x80030000"
definition MQNIC_SCHED_RR_CMD_SET_QUEUE_ENABLE :: int where "MQNIC_SCHED_RR_CMD_SET_QUEUE_ENABLE = 0x40000100"
definition MQNIC_SCHED_RR_CMD_SET_QUEUE_PAUSE :: int where "MQNIC_SCHED_RR_CMD_SET_QUEUE_PAUSE = 0x40000200"
definition MQNIC_RB_SCHED_CTRL_TDMA_TYPE :: int where "MQNIC_RB_SCHED_CTRL_TDMA_TYPE = 0x0000C050"
definition MQNIC_RB_SCHED_CTRL_TDMA_VER :: int where "MQNIC_RB_SCHED_CTRL_TDMA_VER = 0x00000100"
definition MQNIC_RB_SCHED_CTRL_TDMA_REG_OFFSET :: int where "MQNIC_RB_SCHED_CTRL_TDMA_REG_OFFSET = 0x0C"

definition bool_int :: "bool \<Rightarrow> int" where
  "bool_int b = (if b then 1 else 0)"


section \<open>Register blocks of a window\<close>

text \<open>
  \<open>enumerate_reg_blocks\<close> on the window of the interface, whose base is \<open>nic_hw_regs\<close>: the list it
  fills is stored whether the walk ends well or not.
\<close>

definition walk_blocks ::
  "('h, 'r) nic_hw \<Rightarrow> int \<Rightarrow> (reg_block list \<Rightarrow> 'r nic \<Rightarrow> 'r nic) \<Rightarrow> ('h, 'r, reg_block list) nic_act" where
  "walk_blocks hw offset store =
     abind (reads nic_hw_regs) (\<lambda>base.
     abind (hardware (\<lambda>h.
       case enumerate_reg_blocks (\<lambda>a. hw_read hw (base + a)) offset [] h of
         (r, blocks, h') \<Rightarrow> (Inr (r, blocks), h'))) (\<lambda>(r, blocks).
     athen (updates (store blocks)) (athen (alift r) (aret blocks))))"

text \<open>\<open>find\<close> on a list of blocks and a use of the result, which raises when nothing was found.\<close>

definition found_block :: "int \<Rightarrow> int \<Rightarrow> int \<Rightarrow> reg_block list \<Rightarrow> int \<Rightarrow> int option" where
  "found_block ty version index blocks base =
     map_option (\<lambda>block. base + rb_offset block) (find_reg_block ty (Some version) index blocks)"


section \<open>Ports\<close>

definition new_nic_port :: "int \<Rightarrow> nic_port" where
  "new_nic_port rb =
     \<lparr>prt_rb = rb, prt_reg_blocks = [], prt_ctrl_rb = None, prt_features = 0, prt_feature_lfc = False,
      prt_feature_pfc = False, prt_feature_int_mac_ctrl = False\<rparr>"

definition port_ctrl :: "nat \<Rightarrow> ('h, 'r, int) nic_act" where
  "port_ctrl k = abind (reads (\<lambda>s. prt_ctrl_rb (nic_ports s ! k))) (aneed AttributeError)"

definition port_get :: "('h, 'r) nic_hw \<Rightarrow> nat \<Rightarrow> int \<Rightarrow> ('h, 'r, int) nic_act" where
  "port_get hw k reg = abind (port_ctrl k) (\<lambda>w. reg_read hw (w + reg))"

definition port_set :: "('h, 'r) nic_hw \<Rightarrow> nat \<Rightarrow> int \<Rightarrow> int \<Rightarrow> ('h, 'r, unit) nic_act" where
  "port_set hw k reg val = abind (port_ctrl k) (\<lambda>w. reg_write hw (w + reg) val)"

definition get_tx_ctrl :: "('h, 'r) nic_hw \<Rightarrow> nat \<Rightarrow> ('h, 'r, int) nic_act" where
  "get_tx_ctrl hw k = port_get hw k MQNIC_RB_PORT_CTRL_REG_TX_CTRL"

definition set_tx_ctrl :: "('h, 'r) nic_hw \<Rightarrow> nat \<Rightarrow> int \<Rightarrow> ('h, 'r, unit) nic_act" where
  "set_tx_ctrl hw k val = port_set hw k MQNIC_RB_PORT_CTRL_REG_TX_CTRL val"

definition get_rx_ctrl :: "('h, 'r) nic_hw \<Rightarrow> nat \<Rightarrow> ('h, 'r, int) nic_act" where
  "get_rx_ctrl hw k = port_get hw k MQNIC_RB_PORT_CTRL_REG_RX_CTRL"

definition set_rx_ctrl :: "('h, 'r) nic_hw \<Rightarrow> nat \<Rightarrow> int \<Rightarrow> ('h, 'r, unit) nic_act" where
  "set_rx_ctrl hw k val = port_set hw k MQNIC_RB_PORT_CTRL_REG_RX_CTRL val"

definition get_lfc_ctrl :: "('h, 'r) nic_hw \<Rightarrow> nat \<Rightarrow> ('h, 'r, int) nic_act" where
  "get_lfc_ctrl hw k = port_get hw k MQNIC_RB_PORT_CTRL_REG_LFC_CTRL"

definition set_lfc_ctrl :: "('h, 'r) nic_hw \<Rightarrow> nat \<Rightarrow> int \<Rightarrow> ('h, 'r, unit) nic_act" where
  "set_lfc_ctrl hw k val = port_set hw k MQNIC_RB_PORT_CTRL_REG_LFC_CTRL val"

definition get_pfc_ctrl :: "('h, 'r) nic_hw \<Rightarrow> nat \<Rightarrow> int \<Rightarrow> ('h, 'r, int) nic_act" where
  "get_pfc_ctrl hw k index = port_get hw k (MQNIC_RB_PORT_CTRL_REG_PFC_CTRL0 + 4 * index)"

definition set_pfc_ctrl :: "('h, 'r) nic_hw \<Rightarrow> nat \<Rightarrow> int \<Rightarrow> int \<Rightarrow> ('h, 'r, unit) nic_act" where
  "set_pfc_ctrl hw k index val = port_set hw k (MQNIC_RB_PORT_CTRL_REG_PFC_CTRL0 + 4 * index) val"

definition upd_port :: "nat \<Rightarrow> (nic_port \<Rightarrow> nic_port) \<Rightarrow> 'r nic \<Rightarrow> 'r nic" where
  "upd_port k f s = s\<lparr>nic_ports := (nic_ports s)[k := f (nic_ports s ! k)]\<rparr>"

definition port_init :: "('h, 'r) nic_hw \<Rightarrow> nat \<Rightarrow> ('h, 'r, unit) nic_act" where
  "port_init hw k =
     abind (reads (\<lambda>s. prt_rb (nic_ports s ! k))) (\<lambda>rb.
     abind (reg_read hw (rb + MQNIC_RB_PORT_REG_OFFSET)) (\<lambda>offset.
     abind (walk_blocks hw offset (\<lambda>blocks. upd_port k (\<lambda>p. p\<lparr>prt_reg_blocks := blocks\<rparr>))) (\<lambda>blocks.
     abind (reads nic_hw_regs) (\<lambda>base.
     athen (updates (upd_port k (\<lambda>p. p\<lparr>prt_ctrl_rb :=
       found_block MQNIC_RB_PORT_CTRL_TYPE MQNIC_RB_PORT_CTRL_VER 0 blocks base\<rparr>))) (
     abind (port_get hw k MQNIC_RB_PORT_CTRL_REG_FEATURES) (\<lambda>features.
     athen (updates (upd_port k (\<lambda>p. p\<lparr>prt_features := features,
       prt_feature_lfc := (features AND MQNIC_PORT_FEATURE_LFC \<noteq> 0),
       prt_feature_pfc := (features AND MQNIC_PORT_FEATURE_PFC \<noteq> 0),
       prt_feature_int_mac_ctrl := (features AND MQNIC_PORT_FEATURE_INT_MAC_CTRL \<noteq> 0)\<rparr>))) (
     athen (set_tx_ctrl hw k 0) (
     athen (set_rx_ctrl hw k 0) (
     athen (set_lfc_ctrl hw k 0) (
       afor [0..7] (\<lambda>i. set_pfc_ctrl hw k i 0)))))))))))"


section \<open>Round-robin schedulers\<close>

definition new_scheduler :: "sched_kind \<Rightarrow> int \<Rightarrow> scheduler" where
  "new_scheduler kind rb =
     \<lparr>sch_kind = kind, sch_rb = rb, sch_hw_regs = None, sch_queue_count = 0, sch_queue_stride = 0,
      sch_tc_count = 0, sch_port_count = 0, sch_channel_count = 0, sch_fc_scale = 0, sch_enable_count = 0,
      sch_sched_ports = []\<rparr>"

definition upd_sched :: "nat \<Rightarrow> (scheduler \<Rightarrow> scheduler) \<Rightarrow> 'r nic \<Rightarrow> 'r nic" where
  "upd_sched n f s = s\<lparr>nic_scheds := (nic_scheds s)[n := f (nic_scheds s ! n)]\<rparr>"

definition with_sched :: "nat \<Rightarrow> (scheduler \<Rightarrow> ('h, 'r, 'a) nic_act) \<Rightarrow> ('h, 'r, 'a) nic_act" where
  "with_sched n f = abind (reads (\<lambda>s. nic_scheds s ! n)) f"

definition get_ctrl :: "('h, 'r) nic_hw \<Rightarrow> nat \<Rightarrow> ('h, 'r, int) nic_act" where
  "get_ctrl hw n = with_sched n (\<lambda>sc. reg_read hw (sch_rb sc + MQNIC_RB_SCHED_RR_REG_CTRL))"

definition set_ctrl :: "('h, 'r) nic_hw \<Rightarrow> nat \<Rightarrow> int \<Rightarrow> ('h, 'r, unit) nic_act" where
  "set_ctrl hw n val = with_sched n (\<lambda>sc. reg_write hw (sch_rb sc + MQNIC_RB_SCHED_RR_REG_CTRL) val)"

text \<open>The register of a channel: one per port and traffic class, at the channel stride.\<close>

definition channel_reg :: "scheduler \<Rightarrow> int \<Rightarrow> int \<Rightarrow> int \<Rightarrow> int" where
  "channel_reg sc reg port tc =
     sch_rb sc + (reg + (port * sch_tc_count sc + tc) * MQNIC_RB_SCHED_RR_REG_CH_STRIDE)"

definition get_ch_ctrl :: "('h, 'r) nic_hw \<Rightarrow> nat \<Rightarrow> int \<Rightarrow> int \<Rightarrow> ('h, 'r, int) nic_act" where
  "get_ch_ctrl hw n port tc =
     with_sched n (\<lambda>sc. reg_read hw (channel_reg sc MQNIC_RB_SCHED_RR_REG_CH0_CTRL port tc))"

definition set_ch_ctrl :: "('h, 'r) nic_hw \<Rightarrow> nat \<Rightarrow> int \<Rightarrow> int \<Rightarrow> int \<Rightarrow> ('h, 'r, unit) nic_act" where
  "set_ch_ctrl hw n port tc val =
     with_sched n (\<lambda>sc. reg_write hw (channel_reg sc MQNIC_RB_SCHED_RR_REG_CH0_CTRL port tc) val)"

definition get_ch_dest :: "('h, 'r) nic_hw \<Rightarrow> nat \<Rightarrow> int \<Rightarrow> int \<Rightarrow> ('h, 'r, int) nic_act" where
  "get_ch_dest hw n port tc =
     with_sched n (\<lambda>sc. reg_read_word hw (channel_reg sc MQNIC_RB_SCHED_RR_REG_CH0_FC1_DEST port tc))"

definition set_ch_dest :: "('h, 'r) nic_hw \<Rightarrow> nat \<Rightarrow> int \<Rightarrow> int \<Rightarrow> int \<Rightarrow> ('h, 'r, unit) nic_act" where
  "set_ch_dest hw n port tc val =
     with_sched n (\<lambda>sc. reg_write_word hw (channel_reg sc MQNIC_RB_SCHED_RR_REG_CH0_FC1_DEST port tc) val)"

definition get_ch_pkt_budget :: "('h, 'r) nic_hw \<Rightarrow> nat \<Rightarrow> int \<Rightarrow> int \<Rightarrow> ('h, 'r, int) nic_act" where
  "get_ch_pkt_budget hw n port tc =
     with_sched n (\<lambda>sc. reg_read_word hw (channel_reg sc MQNIC_RB_SCHED_RR_REG_CH0_FC1_PB port tc))"

definition set_ch_pkt_budget :: "('h, 'r) nic_hw \<Rightarrow> nat \<Rightarrow> int \<Rightarrow> int \<Rightarrow> int \<Rightarrow> ('h, 'r, unit) nic_act" where
  "set_ch_pkt_budget hw n port tc val =
     with_sched n (\<lambda>sc. reg_write_word hw (channel_reg sc MQNIC_RB_SCHED_RR_REG_CH0_FC1_PB port tc) val)"

definition get_ch_pkt_limit :: "('h, 'r) nic_hw \<Rightarrow> nat \<Rightarrow> int \<Rightarrow> int \<Rightarrow> ('h, 'r, int) nic_act" where
  "get_ch_pkt_limit hw n port tc =
     with_sched n (\<lambda>sc. reg_read_word hw (channel_reg sc MQNIC_RB_SCHED_RR_REG_CH0_FC2_PL port tc))"

definition set_ch_pkt_limit :: "('h, 'r) nic_hw \<Rightarrow> nat \<Rightarrow> int \<Rightarrow> int \<Rightarrow> int \<Rightarrow> ('h, 'r, unit) nic_act" where
  "set_ch_pkt_limit hw n port tc val =
     with_sched n (\<lambda>sc. reg_write_word hw (channel_reg sc MQNIC_RB_SCHED_RR_REG_CH0_FC2_PL port tc) val)"

text \<open>Data budgets and limits are kept in units of \<open>fc_scale\<close> bytes, rounded up when written.\<close>

definition scale_up :: "scheduler \<Rightarrow> int \<Rightarrow> int" where
  "scale_up sc val = (val + sch_fc_scale sc - 1) div sch_fc_scale sc"

definition get_ch_data_budget :: "('h, 'r) nic_hw \<Rightarrow> nat \<Rightarrow> int \<Rightarrow> int \<Rightarrow> ('h, 'r, int) nic_act" where
  "get_ch_data_budget hw n port tc =
     with_sched n (\<lambda>sc.
       abind (reg_read_word hw (channel_reg sc MQNIC_RB_SCHED_RR_REG_CH0_FC2_DB port tc)) (\<lambda>v.
         aret (v * sch_fc_scale sc)))"

definition set_ch_data_budget :: "('h, 'r) nic_hw \<Rightarrow> nat \<Rightarrow> int \<Rightarrow> int \<Rightarrow> int \<Rightarrow> ('h, 'r, unit) nic_act" where
  "set_ch_data_budget hw n port tc val =
     with_sched n (\<lambda>sc.
       reg_write_word hw (channel_reg sc MQNIC_RB_SCHED_RR_REG_CH0_FC2_DB port tc) (scale_up sc val))"

definition get_ch_data_limit :: "('h, 'r) nic_hw \<Rightarrow> nat \<Rightarrow> int \<Rightarrow> int \<Rightarrow> ('h, 'r, int) nic_act" where
  "get_ch_data_limit hw n port tc =
     with_sched n (\<lambda>sc.
       abind (reg_read hw (channel_reg sc MQNIC_RB_SCHED_RR_REG_CH0_FC3_DL port tc)) (\<lambda>v.
         aret (v * sch_fc_scale sc)))"

definition set_ch_data_limit :: "('h, 'r) nic_hw \<Rightarrow> nat \<Rightarrow> int \<Rightarrow> int \<Rightarrow> int \<Rightarrow> ('h, 'r, unit) nic_act" where
  "set_ch_data_limit hw n port tc val =
     with_sched n (\<lambda>sc.
       reg_write hw (channel_reg sc MQNIC_RB_SCHED_RR_REG_CH0_FC3_DL port tc) (scale_up sc val))"

definition enable_ch :: "('h, 'r) nic_hw \<Rightarrow> nat \<Rightarrow> int \<Rightarrow> int \<Rightarrow> ('h, 'r, unit) nic_act" where
  "enable_ch hw n port tc = set_ch_ctrl hw n port tc 1"

definition disable_ch :: "('h, 'r) nic_hw \<Rightarrow> nat \<Rightarrow> int \<Rightarrow> int \<Rightarrow> ('h, 'r, unit) nic_act" where
  "disable_ch hw n port tc = set_ch_ctrl hw n port tc 0"


section \<open>Queues of a scheduler\<close>

definition queue_reg :: "nat \<Rightarrow> int \<Rightarrow> ('h, 'r, int) nic_act" where
  "queue_reg n queue = with_sched n (\<lambda>sc. abind (aneed AttributeError (sch_hw_regs sc)) (\<lambda>w. aret (w + queue * 4)))"

definition get_queue_ctrl :: "('h, 'r) nic_hw \<Rightarrow> nat \<Rightarrow> int \<Rightarrow> ('h, 'r, int) nic_act" where
  "get_queue_ctrl hw n queue = abind (queue_reg n queue) (reg_read hw)"

definition set_queue_ctrl :: "('h, 'r) nic_hw \<Rightarrow> nat \<Rightarrow> int \<Rightarrow> int \<Rightarrow> ('h, 'r, unit) nic_act" where
  "set_queue_ctrl hw n queue val = abind (queue_reg n queue) (\<lambda>a. reg_write hw a val)"

definition enable_queue :: "('h, 'r) nic_hw \<Rightarrow> nat \<Rightarrow> int \<Rightarrow> ('h, 'r, unit) nic_act" where
  "enable_queue hw n queue = set_queue_ctrl hw n queue (MQNIC_SCHED_RR_CMD_SET_QUEUE_ENABLE OR 1)"

definition disable_queue :: "('h, 'r) nic_hw \<Rightarrow> nat \<Rightarrow> int \<Rightarrow> ('h, 'r, unit) nic_act" where
  "disable_queue hw n queue = set_queue_ctrl hw n queue (MQNIC_SCHED_RR_CMD_SET_QUEUE_ENABLE OR 0)"

definition enable_queue_port :: "('h, 'r) nic_hw \<Rightarrow> nat \<Rightarrow> int \<Rightarrow> nat \<Rightarrow> ('h, 'r, unit) nic_act" where
  "enable_queue_port hw n queue port =
     set_queue_ctrl hw n queue (MQNIC_SCHED_RR_CMD_SET_PORT_ENABLE OR push_bit 8 (int port) OR 1)"

definition disable_queue_port :: "('h, 'r) nic_hw \<Rightarrow> nat \<Rightarrow> int \<Rightarrow> nat \<Rightarrow> ('h, 'r, unit) nic_act" where
  "disable_queue_port hw n queue port =
     set_queue_ctrl hw n queue (MQNIC_SCHED_RR_CMD_SET_PORT_ENABLE OR push_bit 8 (int port) OR 0)"

text \<open>The bits of one port in the control word of a queue: the port's byte.\<close>

definition port_bits :: "int \<Rightarrow> nat \<Rightarrow> int" where
  "port_bits ctrl port = drop_bit (8 * port) ctrl"

definition get_queue_port_enable :: "('h, 'r) nic_hw \<Rightarrow> nat \<Rightarrow> int \<Rightarrow> nat \<Rightarrow> ('h, 'r, bool) nic_act" where
  "get_queue_port_enable hw n queue port =
     abind (get_queue_ctrl hw n queue) (\<lambda>ctrl.
       aret (ctrl AND MQNIC_SCHED_RR_QUEUE_EN \<noteq> 0 \<and> port_bits ctrl port AND MQNIC_SCHED_RR_PORT_EN \<noteq> 0))"

definition set_queue_port_pause :: "('h, 'r) nic_hw \<Rightarrow> nat \<Rightarrow> int \<Rightarrow> nat \<Rightarrow> bool \<Rightarrow> ('h, 'r, unit) nic_act" where
  "set_queue_port_pause hw n queue port val =
     set_queue_ctrl hw n queue (MQNIC_SCHED_RR_CMD_SET_PORT_PAUSE OR push_bit 8 (int port) OR bool_int val)"

definition get_queue_port_pause :: "('h, 'r) nic_hw \<Rightarrow> nat \<Rightarrow> int \<Rightarrow> nat \<Rightarrow> ('h, 'r, bool) nic_act" where
  "get_queue_port_pause hw n queue port =
     abind (get_queue_ctrl hw n queue) (\<lambda>ctrl. aret (port_bits ctrl port AND MQNIC_SCHED_RR_PORT_PAUSE \<noteq> 0))"

definition set_queue_port_tc :: "('h, 'r) nic_hw \<Rightarrow> nat \<Rightarrow> int \<Rightarrow> nat \<Rightarrow> int \<Rightarrow> ('h, 'r, unit) nic_act" where
  "set_queue_port_tc hw n queue port val =
     set_queue_ctrl hw n queue (MQNIC_SCHED_RR_CMD_SET_PORT_TC OR push_bit 8 (int port) OR (val AND 0x7))"

text \<open>The traffic class is read back as a truth value.\<close>

definition get_queue_port_tc :: "('h, 'r) nic_hw \<Rightarrow> nat \<Rightarrow> int \<Rightarrow> nat \<Rightarrow> ('h, 'r, bool) nic_act" where
  "get_queue_port_tc hw n queue port =
     abind (get_queue_ctrl hw n queue) (\<lambda>ctrl. aret (port_bits ctrl port AND MQNIC_SCHED_RR_PORT_TC \<noteq> 0))"

definition disable_all_queues :: "('h, 'r) nic_hw \<Rightarrow> nat \<Rightarrow> ('h, 'r, unit) nic_act" where
  "disable_all_queues hw n = with_sched n (\<lambda>sc. afor [0..sch_queue_count sc - 1] (disable_queue hw n))"

definition set_queue_pause :: "('h, 'r) nic_hw \<Rightarrow> nat \<Rightarrow> int \<Rightarrow> bool \<Rightarrow> ('h, 'r, unit) nic_act" where
  "set_queue_pause hw n queue val =
     set_queue_ctrl hw n queue (MQNIC_SCHED_RR_CMD_SET_QUEUE_PAUSE OR bool_int val)"


section \<open>Enabling and disabling\<close>

text \<open>The hooks \<open>_enable\<close> and \<open>_disable\<close>: the TDMA controller has none of its own.\<close>

definition sched_hook :: "('h, 'r) nic_hw \<Rightarrow> nat \<Rightarrow> int \<Rightarrow> ('h, 'r, unit) nic_act" where
  "sched_hook hw n val =
     with_sched n (\<lambda>sc. case sch_kind sc of RoundRobin \<Rightarrow> set_ctrl hw n val | Tdma \<Rightarrow> aret ())"

definition sched_enable :: "('h, 'r) nic_hw \<Rightarrow> nat \<Rightarrow> ('h, 'r, unit) nic_act" where
  "sched_enable hw n =
     with_sched n (\<lambda>sc.
       athen (if sch_enable_count sc = 0 then sched_hook hw n 1 else aret ())
         (updates (upd_sched n (\<lambda>sc. sc\<lparr>sch_enable_count := sch_enable_count sc + 1\<rparr>))))"

definition sched_disable :: "('h, 'r) nic_hw \<Rightarrow> nat \<Rightarrow> ('h, 'r, unit) nic_act" where
  "sched_disable hw n =
     athen (updates (upd_sched n (\<lambda>sc. sc\<lparr>sch_enable_count := sch_enable_count sc - 1\<rparr>)))
       (with_sched n (\<lambda>sc. if sch_enable_count sc = 0 then sched_hook hw n 0 else aret ()))"

definition round_robin_init :: "('h, 'r) nic_hw \<Rightarrow> nat \<Rightarrow> ('h, 'r, unit) nic_act" where
  "round_robin_init hw n =
     with_sched n (\<lambda>sc.
     abind (reg_read hw (sch_rb sc + MQNIC_RB_SCHED_RR_REG_OFFSET)) (\<lambda>offset.
     abind (reads nic_hw_regs) (\<lambda>base.
     athen (updates (upd_sched n (\<lambda>sc. sc\<lparr>sch_hw_regs := Some (base + offset)\<rparr>))) (
     abind (reg_read hw (sch_rb sc + MQNIC_RB_SCHED_RR_REG_QUEUE_COUNT)) (\<lambda>count.
     abind (reg_read hw (sch_rb sc + MQNIC_RB_SCHED_RR_REG_QUEUE_STRIDE)) (\<lambda>stride.
     abind (reg_read hw (sch_rb sc + MQNIC_RB_SCHED_RR_REG_CFG)) (\<lambda>val.
     let tcs = val AND 0xff; ports = drop_bit 8 val AND 0xff in
     athen (updates (upd_sched n (\<lambda>sc. sc\<lparr>sch_queue_count := min count MQNIC_MAX_TXQ, sch_queue_stride := stride,
       sch_tc_count := tcs, sch_port_count := ports, sch_channel_count := ports * tcs,
       sch_fc_scale := push_bit (nat (drop_bit 16 val AND 0xff)) 1\<rparr>))) (
       afor [0..<nat ports] (\<lambda>k. updates (\<lambda>s.
         (upd_sched n (\<lambda>sc. sc\<lparr>sch_sched_ports := sch_sched_ports sc @ [(n, k)]\<rparr>) s)
           \<lparr>nic_sched_pool := register_sched_port (n, k) (nic_sched_pool s)\<rparr>))))))))))"

definition tdma_init :: "('h, 'r) nic_hw \<Rightarrow> nat \<Rightarrow> ('h, 'r, unit) nic_act" where
  "tdma_init hw n =
     with_sched n (\<lambda>sc.
     abind (reg_read hw (sch_rb sc + MQNIC_RB_SCHED_CTRL_TDMA_REG_OFFSET)) (\<lambda>offset.
     abind (reads nic_hw_regs) (\<lambda>base.
       updates (upd_sched n (\<lambda>sc. sc\<lparr>sch_hw_regs := Some (base + offset)\<rparr>)))))"


section \<open>Scheduler blocks\<close>

definition new_sched_block :: "int \<Rightarrow> sched_block" where
  "new_sched_block rb = \<lparr>sbk_rb = rb, sbk_reg_blocks = [], sbk_sched_count = 0, sbk_schedulers = []\<rparr>"

definition upd_block :: "nat \<Rightarrow> (sched_block \<Rightarrow> sched_block) \<Rightarrow> 'r nic \<Rightarrow> 'r nic" where
  "upd_block k f s = s\<lparr>nic_sched_blocks := (nic_sched_blocks s)[k := f (nic_sched_blocks s ! k)]\<rparr>"

definition block_kind :: "reg_block \<Rightarrow> sched_kind option" where
  "block_kind block =
     (if rb_type block = MQNIC_RB_SCHED_RR_TYPE \<and> rb_version block = MQNIC_RB_SCHED_RR_VER then Some RoundRobin
      else if rb_type block = MQNIC_RB_SCHED_CTRL_TDMA_TYPE \<and> rb_version block = MQNIC_RB_SCHED_CTRL_TDMA_VER
      then Some Tdma else None)"

fun sched_init :: "('h, 'r) nic_hw \<Rightarrow> sched_kind \<Rightarrow> nat \<Rightarrow> ('h, 'r, unit) nic_act" where
  "sched_init hw RoundRobin n = round_robin_init hw n"
| "sched_init hw Tdma n = tdma_init hw n"

definition create_sched :: "('h, 'r) nic_hw \<Rightarrow> nat \<Rightarrow> reg_block \<Rightarrow> ('h, 'r, unit) nic_act" where
  "create_sched hw k block =
     (case block_kind block of
        None \<Rightarrow> aret ()
      | Some kind \<Rightarrow>
          abind (reads (\<lambda>s. length (nic_scheds s))) (\<lambda>n.
          abind (reads nic_hw_regs) (\<lambda>base.
          athen (updates (\<lambda>s. s\<lparr>nic_scheds := nic_scheds s @ [new_scheduler kind (base + rb_offset block)]\<rparr>)) (
          athen (sched_init hw kind n)
            (updates (upd_block k (\<lambda>b. b\<lparr>sbk_schedulers := sbk_schedulers b @ [n],
               sbk_sched_count := sbk_sched_count b + 1\<rparr>)))))))"

definition sched_block_init :: "('h, 'r) nic_hw \<Rightarrow> nat \<Rightarrow> ('h, 'r, unit) nic_act" where
  "sched_block_init hw k =
     abind (reads (\<lambda>s. sbk_rb (nic_sched_blocks s ! k))) (\<lambda>rb.
     abind (reg_read hw (rb + MQNIC_RB_SCHED_BLOCK_REG_OFFSET)) (\<lambda>offset.
     abind (walk_blocks hw offset (\<lambda>blocks. upd_block k (\<lambda>b. b\<lparr>sbk_reg_blocks := blocks\<rparr>))) (\<lambda>blocks.
     athen (updates (upd_block k (\<lambda>b. b\<lparr>sbk_schedulers := [], sbk_sched_count := 0\<rparr>)))
       (afor blocks (create_sched hw k)))))"

definition activate_block :: "('h, 'r) nic_hw \<Rightarrow> nat \<Rightarrow> ('h, 'r, unit) nic_act" where
  "activate_block hw k = abind (reads (\<lambda>s. sbk_schedulers (nic_sched_blocks s ! k))) (\<lambda>ns. afor ns (sched_enable hw))"

definition deactivate_block :: "('h, 'r) nic_hw \<Rightarrow> nat \<Rightarrow> ('h, 'r, unit) nic_act" where
  "deactivate_block hw k =
     abind (reads (\<lambda>s. sbk_schedulers (nic_sched_blocks s ! k))) (\<lambda>ns. afor ns (sched_disable hw))"


section \<open>Scheduler ports\<close>

definition sp_enable :: "('h, 'r) nic_hw \<Rightarrow> sched_port \<Rightarrow> ('h, 'r, unit) nic_act" where
  "sp_enable hw p = sched_enable hw (fst p)"

definition sp_disable :: "('h, 'r) nic_hw \<Rightarrow> sched_port \<Rightarrow> ('h, 'r, unit) nic_act" where
  "sp_disable hw p = sched_disable hw (fst p)"

definition sp_enable_queue :: "('h, 'r) nic_hw \<Rightarrow> sched_port \<Rightarrow> int \<Rightarrow> ('h, 'r, unit) nic_act" where
  "sp_enable_queue hw p queue =
     athen (enable_queue hw (fst p) queue) (enable_queue_port hw (fst p) queue (snd p))"

definition sp_disable_queue :: "('h, 'r) nic_hw \<Rightarrow> sched_port \<Rightarrow> int \<Rightarrow> ('h, 'r, unit) nic_act" where
  "sp_disable_queue hw p queue =
     athen (disable_queue_port hw (fst p) queue (snd p)) (disable_queue hw (fst p) queue)"

definition sp_get_queue_enable :: "('h, 'r) nic_hw \<Rightarrow> sched_port \<Rightarrow> int \<Rightarrow> ('h, 'r, bool) nic_act" where
  "sp_get_queue_enable hw p queue = get_queue_port_enable hw (fst p) queue (snd p)"

text \<open>Three methods call methods that do not exist.\<close>

definition sp_set_queue_pause :: "('h, 'r) nic_hw \<Rightarrow> sched_port \<Rightarrow> int \<Rightarrow> bool \<Rightarrow> ('h, 'r, unit) nic_act" where
  "sp_set_queue_pause hw p queue val = araise AttributeError"

definition sp_get_queue_pause :: "('h, 'r) nic_hw \<Rightarrow> sched_port \<Rightarrow> int \<Rightarrow> ('h, 'r, bool) nic_act" where
  "sp_get_queue_pause hw p queue = araise AttributeError"

definition sp_set_queue_tc :: "('h, 'r) nic_hw \<Rightarrow> sched_port \<Rightarrow> int \<Rightarrow> int \<Rightarrow> ('h, 'r, unit) nic_act" where
  "sp_set_queue_tc hw p queue val = araise AttributeError"

definition sp_get_queue_tc :: "('h, 'r) nic_hw \<Rightarrow> sched_port \<Rightarrow> int \<Rightarrow> ('h, 'r, bool) nic_act" where
  "sp_get_queue_tc hw p queue = get_queue_port_tc hw (fst p) queue (snd p)"

text \<open>The channel methods hand over to the scheduler with the index of the port.\<close>

definition sp_enable_ch :: "('h, 'r) nic_hw \<Rightarrow> sched_port \<Rightarrow> int \<Rightarrow> ('h, 'r, unit) nic_act" where
  "sp_enable_ch hw p tc = enable_ch hw (fst p) (int (snd p)) tc"

definition sp_disable_ch :: "('h, 'r) nic_hw \<Rightarrow> sched_port \<Rightarrow> int \<Rightarrow> ('h, 'r, unit) nic_act" where
  "sp_disable_ch hw p tc = disable_ch hw (fst p) (int (snd p)) tc"

definition sp_get_ch_dest :: "('h, 'r) nic_hw \<Rightarrow> sched_port \<Rightarrow> int \<Rightarrow> ('h, 'r, int) nic_act" where
  "sp_get_ch_dest hw p tc = get_ch_dest hw (fst p) (int (snd p)) tc"

definition sp_set_ch_dest :: "('h, 'r) nic_hw \<Rightarrow> sched_port \<Rightarrow> int \<Rightarrow> int \<Rightarrow> ('h, 'r, unit) nic_act" where
  "sp_set_ch_dest hw p tc val = set_ch_dest hw (fst p) (int (snd p)) tc val"

definition sp_get_ch_pkt_budget :: "('h, 'r) nic_hw \<Rightarrow> sched_port \<Rightarrow> int \<Rightarrow> ('h, 'r, int) nic_act" where
  "sp_get_ch_pkt_budget hw p tc = get_ch_pkt_budget hw (fst p) (int (snd p)) tc"

definition sp_set_ch_pkt_budget :: "('h, 'r) nic_hw \<Rightarrow> sched_port \<Rightarrow> int \<Rightarrow> int \<Rightarrow> ('h, 'r, unit) nic_act" where
  "sp_set_ch_pkt_budget hw p tc val = set_ch_pkt_budget hw (fst p) (int (snd p)) tc val"

definition sp_get_ch_data_budget :: "('h, 'r) nic_hw \<Rightarrow> sched_port \<Rightarrow> int \<Rightarrow> ('h, 'r, int) nic_act" where
  "sp_get_ch_data_budget hw p tc = get_ch_data_budget hw (fst p) (int (snd p)) tc"

definition sp_set_ch_data_budget :: "('h, 'r) nic_hw \<Rightarrow> sched_port \<Rightarrow> int \<Rightarrow> int \<Rightarrow> ('h, 'r, unit) nic_act" where
  "sp_set_ch_data_budget hw p tc val = set_ch_data_budget hw (fst p) (int (snd p)) tc val"

definition sp_get_ch_pkt_limit :: "('h, 'r) nic_hw \<Rightarrow> sched_port \<Rightarrow> int \<Rightarrow> ('h, 'r, int) nic_act" where
  "sp_get_ch_pkt_limit hw p tc = get_ch_pkt_limit hw (fst p) (int (snd p)) tc"

definition sp_set_ch_pkt_limit :: "('h, 'r) nic_hw \<Rightarrow> sched_port \<Rightarrow> int \<Rightarrow> int \<Rightarrow> ('h, 'r, unit) nic_act" where
  "sp_set_ch_pkt_limit hw p tc val = set_ch_pkt_limit hw (fst p) (int (snd p)) tc val"

definition sp_get_ch_data_limit :: "('h, 'r) nic_hw \<Rightarrow> sched_port \<Rightarrow> int \<Rightarrow> ('h, 'r, int) nic_act" where
  "sp_get_ch_data_limit hw p tc = get_ch_data_limit hw (fst p) (int (snd p)) tc"

definition sp_set_ch_data_limit :: "('h, 'r) nic_hw \<Rightarrow> sched_port \<Rightarrow> int \<Rightarrow> int \<Rightarrow> ('h, 'r, unit) nic_act" where
  "sp_set_ch_data_limit hw p tc val = set_ch_data_limit hw (fst p) (int (snd p)) tc val"

end
