(* ===== verification/Nic_Netdev.thy ===== *)
theory Nic_Netdev
  imports Nic_Rings Nic_Schedulers
begin

text \<open>
  Net devices of the NIC driver (\<open>NetDev\<close> of \<open>mqnic.py\<close>) and the receive queue map of the interface:
  opening a device creates and starts its queues and programs its scheduler port, \<open>start_xmit\<close> places
  a packet in a transmit ring or waits for space, received packets are handed out in order.
\<close>

definition MQNIC_RB_RX_QUEUE_MAP_CH_OFFSET :: int where "MQNIC_RB_RX_QUEUE_MAP_CH_OFFSET = 0x10"
definition MQNIC_RB_RX_QUEUE_MAP_CH_STRIDE :: int where "MQNIC_RB_RX_QUEUE_MAP_CH_STRIDE = 0x10"
definition MQNIC_RB_RX_QUEUE_MAP_CH_REG_OFFSET :: int where "MQNIC_RB_RX_QUEUE_MAP_CH_REG_OFFSET = 0x00"
definition MQNIC_RB_RX_QUEUE_MAP_CH_REG_RSS_MASK :: int where "MQNIC_RB_RX_QUEUE_MAP_CH_REG_RSS_MASK = 0x04"
definition MQNIC_RB_RX_QUEUE_MAP_CH_REG_APP_MASK :: int where "MQNIC_RB_RX_QUEUE_MAP_CH_REG_APP_MASK = 0x08"
definition MQNIC_PORT_TX_CTRL_EN :: int where "MQNIC_PORT_TX_CTRL_EN = 1"
definition MQNIC_PORT_RX_CTRL_EN :: int where "MQNIC_PORT_RX_CTRL_EN = 1"


section \<open>The receive queue map\<close>

definition queue_map_reg :: "int \<Rightarrow> nat \<Rightarrow> ('h, 'r, int) nic_act" where
  "queue_map_reg reg port =
     abind (reads nic_rx_queue_map_rb) (\<lambda>rb. abind (aneed AttributeError rb) (\<lambda>w.
       aret (w + (MQNIC_RB_RX_QUEUE_MAP_CH_OFFSET + MQNIC_RB_RX_QUEUE_MAP_CH_STRIDE * int port + reg))))"

definition get_rx_queue_map_rss_mask :: "('h, 'r) nic_hw \<Rightarrow> nat \<Rightarrow> ('h, 'r, int) nic_act" where
  "get_rx_queue_map_rss_mask hw port = abind (queue_map_reg MQNIC_RB_RX_QUEUE_MAP_CH_REG_RSS_MASK port) (reg_read hw)"

definition set_rx_queue_map_rss_mask :: "('h, 'r) nic_hw \<Rightarrow> nat \<Rightarrow> int \<Rightarrow> ('h, 'r, unit) nic_act" where
  "set_rx_queue_map_rss_mask hw port val =
     abind (queue_map_reg MQNIC_RB_RX_QUEUE_MAP_CH_REG_RSS_MASK port) (\<lambda>a. reg_write hw a val)"

definition get_rx_queue_map_app_mask :: "('h, 'r) nic_hw \<Rightarrow> nat \<Rightarrow> ('h, 'r, int) nic_act" where
  "get_rx_queue_map_app_mask hw port = abind (queue_map_reg MQNIC_RB_RX_QUEUE_MAP_CH_REG_APP_MASK port) (reg_read hw)"

definition set_rx_queue_map_app_mask :: "('h, 'r) nic_hw \<Rightarrow> nat \<Rightarrow> int \<Rightarrow> ('h, 'r, unit) nic_act" where
  "set_rx_queue_map_app_mask hw port val =
     abind (queue_map_reg MQNIC_RB_RX_QUEUE_MAP_CH_REG_APP_MASK port) (\<lambda>a. reg_write hw a val)"

definition indir_table_reg :: "nat \<Rightarrow> nat \<Rightarrow> ('h, 'r, int) nic_act" where
  "indir_table_reg port index =
     abind (reads nic_indir_table_regs) (\<lambda>ws.
       athen (aguard (port < length ws) IndexError) (aret (ws ! port + int index * 4)))"

definition get_rx_queue_map_indir_table :: "('h, 'r) nic_hw \<Rightarrow> nat \<Rightarrow> nat \<Rightarrow> ('h, 'r, int) nic_act" where
  "get_rx_queue_map_indir_table hw port index = abind (indir_table_reg port index) (reg_read hw)"

definition set_rx_queue_map_indir_table :: "('h, 'r) nic_hw \<Rightarrow> nat \<Rightarrow> nat \<Rightarrow> int \<Rightarrow> ('h, 'r, unit) nic_act" where
  "set_rx_queue_map_indir_table hw port index val = abind (indir_table_reg port index) (\<lambda>a. reg_write hw a val)"


section \<open>Opening and closing\<close>

definition new_netdev :: "nat \<Rightarrow> 'r nic \<Rightarrow> netdev result" where
  "new_netdev port s =
     (if nic_port_count s = 0 then Inl ZeroDivisionError
      else let txqs = min (get_count (nic_txq_res s) div nic_port_count s) 4;
               rxqs = min (get_count (nic_rxq_res s) div nic_port_count s) 4 in
        if rxqs = 0 \<and> 0 < nic_indir_table_size s then Inl ZeroDivisionError
        else Inr \<lparr>ndv_port = port, ndv_port_up = False, ndv_sched_port = None, ndv_txq_count = txqs,
          ndv_rxq_count = rxqs, ndv_indir_table = map (\<lambda>k. k mod rxqs) [0..nic_indir_table_size s - 1],
          ndv_txq = [], ndv_rxq = [], ndv_tx_ring_size = 1024, ndv_rx_ring_size = 1024,
          ndv_pkt_rx_queue = [], ndv_pkt_rx_sync = False\<rparr>)"

definition the_ndev :: "nat \<Rightarrow> ('h, 'r, netdev) nic_act" where
  "the_ndev d = reads (\<lambda>s. nic_ndevs s ! d)"

text \<open>A completion queue of its own on one of the event queues, armed.\<close>

definition open_cq :: "('h, 'r) nic_hw \<Rightarrow> nat \<Rightarrow> ('h, 'r, nat) nic_act" where
  "open_cq hw k =
     abind (reads (\<lambda>s. length (nic_cqs s))) (\<lambda>j.
     athen (updates (\<lambda>s. s\<lparr>nic_cqs := nic_cqs s @ [new_completion_queue]\<rparr>)) (
     abind (reads nic_eq) (\<lambda>eqs.
     athen (aguard (eqs \<noteq> []) ZeroDivisionError) (
     athen (cpq_open hw j (eqs ! (k mod length eqs)) 1024) (
     athen (cpq_arm hw j) (aret j))))))"

definition open_rxq :: "('h, 'r) nic_hw \<Rightarrow> nat \<Rightarrow> nat \<Rightarrow> ('h, 'r, unit) nic_act" where
  "open_rxq hw d k =
     abind (open_cq hw k) (\<lambda>j.
     abind (reads (\<lambda>s. length (nic_rxqs s))) (\<lambda>i.
     athen (updates (\<lambda>s. s\<lparr>nic_rxqs := nic_rxqs s @ [new_ring]\<rparr>)) (
     abind (the_ndev d) (\<lambda>n.
     athen (rxq_open hw i d j (ndv_rx_ring_size n) 4)
       (updates (upd_ndev d (\<lambda>n. n\<lparr>ndv_rxq := ndv_rxq n @ [i]\<rparr>)))))))"

definition open_txq :: "('h, 'r) nic_hw \<Rightarrow> nat \<Rightarrow> nat \<Rightarrow> ('h, 'r, unit) nic_act" where
  "open_txq hw d k =
     abind (open_cq hw k) (\<lambda>j.
     abind (reads (\<lambda>s. length (nic_txqs s))) (\<lambda>i.
     athen (updates (\<lambda>s. s\<lparr>nic_txqs := nic_txqs s @ [new_ring]\<rparr>)) (
     abind (the_ndev d) (\<lambda>n.
     athen (ring_open hw TX i d j (ndv_tx_ring_size n) 4)
       (updates (upd_ndev d (\<lambda>n. n\<lparr>ndv_txq := ndv_txq n @ [i]\<rparr>)))))))"

definition update_rx_queue_map_indir_table :: "('h, 'r) nic_hw \<Rightarrow> nat \<Rightarrow> ('h, 'r, unit) nic_act" where
  "update_rx_queue_map_indir_table hw d =
     abind (the_ndev d) (\<lambda>n.
     athen (set_rx_queue_map_rss_mask hw (ndv_port n) 0xffffffff) (
     athen (set_rx_queue_map_app_mask hw (ndv_port n) 0)
       (afor (enumerate 0 (ndv_indir_table n)) (\<lambda>(k, v).
          abind (alift (py_index (ndv_rxq n) v)) (\<lambda>q.
          abind (reads (\<lambda>s. rg_index (nic_rxqs s ! q))) (\<lambda>index.
          abind (need_int index) (set_rx_queue_map_indir_table hw (ndv_port n) k)))))))"

definition take_sched_port :: "('h, 'r, sched_port) nic_act" where
  "take_sched_port =
     abind (reads nic_sched_pool) (\<lambda>pp. abind (alift (alloc_sched_port pp)) (\<lambda>(p, pp').
       athen (updates (\<lambda>s. s\<lparr>nic_sched_pool := pp'\<rparr>)) (aret p)))"

text \<open>What opening programs into the scheduler port, once the queues run.\<close>

definition configure_sched_port :: "('h, 'r) nic_hw \<Rightarrow> sched_port \<Rightarrow> netdev \<Rightarrow> ('h, 'r, unit) nic_act" where
  "configure_sched_port hw p n =
     athen (afor (ndv_txq n) (\<lambda>q.
       abind (reads (\<lambda>s. rg_index (nic_txqs s ! q))) (\<lambda>index. abind (need_int index) (sp_enable_queue hw p)))) (
     athen (sp_set_ch_dest hw p 0 (push_bit 4 (int (ndv_port n)) OR 0)) (
     athen (sp_set_ch_pkt_budget hw p 0 1) (
     abind (reads nic_max_tx_mtu) (\<lambda>mtu.
     athen (sp_set_ch_data_budget hw p 0 mtu) (
     athen (sp_set_ch_pkt_limit hw p 0 0xFFFF) (
     abind (reads nic_tx_fifo_depth) (\<lambda>depth.
     athen (sp_set_ch_data_limit hw p 0 depth) (
     athen (sp_enable_ch hw p 0)
       (sp_enable hw p)))))))))"

definition ndev_open :: "('h, 'r) nic_hw \<Rightarrow> nat \<Rightarrow> ('h, 'r, unit) nic_act" where
  "ndev_open hw d =
     abind (the_ndev d) (\<lambda>n0.
       if ndv_port_up n0 then aret ()
       else
         abind take_sched_port (\<lambda>p.
         athen (updates (upd_ndev d (\<lambda>n. n\<lparr>ndv_sched_port := Some p\<rparr>))) (
         athen (afor [0..<nat (ndv_rxq_count n0)] (open_rxq hw d)) (
         athen (afor [0..<nat (ndv_txq_count n0)] (open_txq hw d)) (
         athen (updates (upd_ndev d (\<lambda>n. n\<lparr>ndv_indir_table :=
           map (\<lambda>k. int k mod ndv_rxq_count n) [0..<length (ndv_indir_table n)]\<rparr>))) (
         athen (update_rx_queue_map_indir_table hw d) (
         abind (the_ndev d) (\<lambda>n.
         athen (afor (ndv_rxq n) (rxq_enable hw)) (
         athen (afor (ndv_txq n) (ring_enable hw TX)) (
         athen (set_tx_ctrl hw (ndv_port n) MQNIC_PORT_TX_CTRL_EN) (
         athen (configure_sched_port hw p n) (
         athen (set_rx_ctrl hw (ndv_port n) MQNIC_PORT_RX_CTRL_EN) (
         abind (reads nic_hw_regs) (\<lambda>base. abind (reg_read hw base) (\<lambda>_.
           updates (upd_ndev d (\<lambda>n. n\<lparr>ndv_port_up := True\<rparr>)))))))))))))))))"

text \<open>Closing uses \<open>self.ports\<close>, which a net device does not have.\<close>

definition ndev_close :: "nat \<Rightarrow> ('h, 'r, unit) nic_act" where
  "ndev_close d =
     abind (the_ndev d) (\<lambda>n.
       if \<not> ndv_port_up n then aret ()
       else athen (updates (upd_ndev d (\<lambda>n. n\<lparr>ndv_port_up := False\<rparr>))) (araise AttributeError))"


section \<open>Transmission\<close>

text \<open>The segments of a packet: 42 bytes first, where the descriptor block has more than one.\<close>

definition tx_segments :: "nat \<Rightarrow> int \<Rightarrow> (int \<times> int) list" where
  "tx_segments n len =
     (let seg = (if 1 < n then min len 42 else len) in (seg, 0) # rx_segments (n - 1) len seg)"

definition checksum_command :: "int option \<Rightarrow> int option \<Rightarrow> int" where
  "checksum_command csum_start csum_offset =
     (case (csum_start, csum_offset) of
        (Some start, Some offset) \<Rightarrow> 0x8000 OR push_bit 8 offset OR start
      | _ \<Rightarrow> 0)"

definition tx_first_descriptor :: "int \<Rightarrow> int \<Rightarrow> int \<times> int \<Rightarrow> byte list result" where
  "tx_first_descriptor csum_cmd ptr s =
     ebind (le_bytes 2 0) (\<lambda>zero. ebind (le_bytes 2 csum_cmd) (\<lambda>csum. ebind (le_bytes 4 (fst s)) (\<lambda>len.
     ebind (le_bytes 8 (segment_address ptr s)) (\<lambda>address. Inr (zero @ csum @ len @ address)))))"

definition tx_descriptor :: "nat \<Rightarrow> int \<Rightarrow> int \<Rightarrow> int \<times> int \<Rightarrow> byte list result" where
  "tx_descriptor k csum_cmd ptr s =
     (if k = 0 then tx_first_descriptor csum_cmd ptr s else rx_descriptor ptr s)"

definition ring_has_space :: "'r ring \<Rightarrow> bool" where
  "ring_has_space r \<longleftrightarrow> rg_prod_ptr r - rg_cons_ptr r < rg_full_size r"

text \<open>\<open>start_xmit\<close> after the wait for space.\<close>

definition xmit_send ::
  "('h, 'r) nic_hw \<Rightarrow> nat \<Rightarrow> byte list \<Rightarrow> int option \<Rightarrow> int option \<Rightarrow> ('h, 'r, unit) nic_act" where
  "xmit_send hw i data csum_start csum_offset =
     abind (reads (the_ring TX i)) (\<lambda>r.
     let index = rg_prod_ptr r AND rg_size_mask r; len = int (length data) in
     athen (updates (upd_ring TX i (\<lambda>r. r\<lparr>rg_packets := rg_packets r + 1, rg_bytes := rg_bytes r + len\<rparr>))) (
     abind (take_pkt hw) (\<lambda>pkt.
     abind (alift (info_at index r)) (\<lambda>slot.
     athen (aguard (slot = None) AssertionError) (
     athen (updates (upd_ring TX i (\<lambda>r. r\<lparr>rg_info := (rg_info r)[nat index := Some pkt]\<rparr>))) (
     athen (mem_store hw pkt 10 data) (
     abind (aneed TypeError (rg_buf_region r)) (\<lambda>region.
     athen (afor (enumerate 0 (tx_segments (nat (rg_desc_block_size r)) len)) (\<lambda>(k, s).
       abind (alift (tx_descriptor k (checksum_command csum_start csum_offset) (hw_address hw pkt + 10) s)) (\<lambda>bs.
         mem_store hw region (index * rg_stride r + int k * MQNIC_DESC_SIZE) bs))) (
     athen (updates (upd_ring TX i (\<lambda>r. r\<lparr>rg_prod_ptr := rg_prod_ptr r + 1\<rparr>)))
       (ring_write_prod_ptr hw TX i))))))))))"

text \<open>
  The loop that waits for space, up to its next wait: a coroutine that waits is resumed by
  \<open>resume_xmit\<close> once a completion has set \<open>clean_event\<close>.
\<close>

datatype xmit_outcome = PortDown | Waiting | Sent

definition xmit_attempt ::
  "('h, 'r) nic_hw \<Rightarrow> nat \<Rightarrow> byte list \<Rightarrow> int option \<Rightarrow> int option \<Rightarrow> ('h, 'r, xmit_outcome) nic_act" where
  "xmit_attempt hw i data csum_start csum_offset =
     abind (reads (the_ring TX i)) (\<lambda>r.
       if ring_has_space r then athen (xmit_send hw i data csum_start csum_offset) (aret Sent)
       else athen (updates (upd_ring TX i (\<lambda>r. r\<lparr>rg_clean_event := False\<rparr>))) (aret Waiting))"

definition resume_xmit ::
  "('h, 'r) nic_hw \<Rightarrow> nat \<Rightarrow> byte list \<Rightarrow> int option \<Rightarrow> int option \<Rightarrow> ('h, 'r, xmit_outcome) nic_act" where
  "resume_xmit hw i data csum_start csum_offset =
     abind (reads (the_ring TX i)) (\<lambda>r.
       if rg_clean_event r then xmit_attempt hw i data csum_start csum_offset else aret Waiting)"

definition start_xmit ::
  "('h, 'r) nic_hw \<Rightarrow> nat \<Rightarrow> byte list \<Rightarrow> int option \<Rightarrow> int option \<Rightarrow> int option
     \<Rightarrow> ('h, 'r, xmit_outcome) nic_act" where
  "start_xmit hw d data tx_ring csum_start csum_offset =
     abind (the_ndev d) (\<lambda>n.
       if \<not> ndv_port_up n then aret PortDown
       else
         abind (reads nic_max_tx_mtu) (\<lambda>mtu.
         athen (aguard (int (length data) < mtu) AssertionError) (
         abind (alift (py_index (ndv_txq n) (case tx_ring of None \<Rightarrow> 0 | Some k \<Rightarrow> k))) (\<lambda>i.
           xmit_attempt hw i data csum_start csum_offset))))"


section \<open>Reception\<close>

definition recv_nowait :: "nat \<Rightarrow> ('h, 'r, skb option) nic_act" where
  "recv_nowait d =
     abind (the_ndev d) (\<lambda>n.
       case ndv_pkt_rx_queue n of
         [] \<Rightarrow> aret None
       | p # rest \<Rightarrow> athen (updates (upd_ndev d (\<lambda>n. n\<lparr>ndv_pkt_rx_queue := rest\<rparr>))) (aret (Some p)))"

text \<open>\<open>wait\<close> up to its wait: whether it returns at once.\<close>

definition recv_wait :: "nat \<Rightarrow> ('h, 'r, bool) nic_act" where
  "recv_wait d =
     abind (the_ndev d) (\<lambda>n.
       if ndv_pkt_rx_queue n = [] then
         athen (updates (upd_ndev d (\<lambda>n. n\<lparr>ndv_pkt_rx_sync := False\<rparr>))) (aret False)
       else aret True)"

text \<open>\<open>recv\<close> up to its wait; a coroutine that waits goes on with \<open>recv_nowait\<close>.\<close>

datatype recv_outcome = Blocked | Received "skb option"

definition ndev_recv :: "nat \<Rightarrow> ('h, 'r, recv_outcome) nic_act" where
  "ndev_recv d =
     abind (recv_wait d) (\<lambda>ready.
       if ready then abind (recv_nowait d) (\<lambda>p. aret (Received p)) else aret Blocked)"

end
