(* ===== verification/Nic_Driver.thy ===== *)
theory Nic_Driver
  imports Nic_Events Nic_Netdev
begin

text \<open>
  Bringing up the NIC (\<open>Interface.init\<close>, \<open>Driver.init_common\<close> of \<open>mqnic.py\<close>) and serving its
  interrupts. An object under construction is already in the list of its kind; the code adds it when
  its \<open>init\<close> has returned, and one that raises loses the whole interface.
\<close>

definition MQNIC_MAX_EQ :: int where "MQNIC_MAX_EQ = 1"
definition MQNIC_MAX_RXQ :: int where "MQNIC_MAX_RXQ = 32"
definition MQNIC_MAX_CQ :: int where "MQNIC_MAX_CQ = 64"
definition MQNIC_RB_FW_ID_TYPE :: int where "MQNIC_RB_FW_ID_TYPE = 0xFFFFFFFF"
definition MQNIC_RB_FW_ID_VER :: int where "MQNIC_RB_FW_ID_VER = 0x00000100"
definition MQNIC_RB_IF_TYPE :: int where "MQNIC_RB_IF_TYPE = 0x0000C000"
definition MQNIC_RB_IF_VER :: int where "MQNIC_RB_IF_VER = 0x00000100"
definition MQNIC_RB_IF_REG_OFFSET :: int where "MQNIC_RB_IF_REG_OFFSET = 0x0C"
definition MQNIC_RB_IF_REG_COUNT :: int where "MQNIC_RB_IF_REG_COUNT = 0x10"
definition MQNIC_RB_IF_REG_STRIDE :: int where "MQNIC_RB_IF_REG_STRIDE = 0x14"
definition MQNIC_RB_IF_REG_CSR_OFFSET :: int where "MQNIC_RB_IF_REG_CSR_OFFSET = 0x18"
definition MQNIC_RB_IF_CTRL_TYPE :: int where "MQNIC_RB_IF_CTRL_TYPE = 0x0000C001"
definition MQNIC_RB_IF_CTRL_VER :: int where "MQNIC_RB_IF_CTRL_VER = 0x00000400"
definition MQNIC_RB_IF_CTRL_REG_FEATURES :: int where "MQNIC_RB_IF_CTRL_REG_FEATURES = 0x0C"
definition MQNIC_RB_IF_CTRL_REG_PORT_COUNT :: int where "MQNIC_RB_IF_CTRL_REG_PORT_COUNT = 0x10"
definition MQNIC_RB_IF_CTRL_REG_SCHED_COUNT :: int where "MQNIC_RB_IF_CTRL_REG_SCHED_COUNT = 0x14"
definition MQNIC_RB_IF_CTRL_REG_MAX_TX_MTU :: int where "MQNIC_RB_IF_CTRL_REG_MAX_TX_MTU = 0x20"
definition MQNIC_RB_IF_CTRL_REG_MAX_RX_MTU :: int where "MQNIC_RB_IF_CTRL_REG_MAX_RX_MTU = 0x24"
definition MQNIC_RB_IF_CTRL_REG_TX_MTU :: int where "MQNIC_RB_IF_CTRL_REG_TX_MTU = 0x28"
definition MQNIC_RB_IF_CTRL_REG_RX_MTU :: int where "MQNIC_RB_IF_CTRL_REG_RX_MTU = 0x2C"
definition MQNIC_RB_IF_CTRL_REG_TX_FIFO_DEPTH :: int where "MQNIC_RB_IF_CTRL_REG_TX_FIFO_DEPTH = 0x30"
definition MQNIC_RB_IF_CTRL_REG_RX_FIFO_DEPTH :: int where "MQNIC_RB_IF_CTRL_REG_RX_FIFO_DEPTH = 0x34"
definition MQNIC_IF_FEATURE_RSS :: int where "MQNIC_IF_FEATURE_RSS = 1"
definition MQNIC_IF_FEATURE_PTP_TS :: int where "MQNIC_IF_FEATURE_PTP_TS = 16"
definition MQNIC_IF_FEATURE_TX_CSUM :: int where "MQNIC_IF_FEATURE_TX_CSUM = 256"
definition MQNIC_IF_FEATURE_RX_CSUM :: int where "MQNIC_IF_FEATURE_RX_CSUM = 512"
definition MQNIC_IF_FEATURE_RX_HASH :: int where "MQNIC_IF_FEATURE_RX_HASH = 1024"
definition MQNIC_IF_FEATURE_LFC :: int where "MQNIC_IF_FEATURE_LFC = 2048"
definition MQNIC_IF_FEATURE_PFC :: int where "MQNIC_IF_FEATURE_PFC = 4096"
definition MQNIC_RB_RX_QUEUE_MAP_TYPE :: int where "MQNIC_RB_RX_QUEUE_MAP_TYPE = 0x0000C090"
definition MQNIC_RB_RX_QUEUE_MAP_VER :: int where "MQNIC_RB_RX_QUEUE_MAP_VER = 0x00000200"
definition MQNIC_RB_RX_QUEUE_MAP_REG_CFG :: int where "MQNIC_RB_RX_QUEUE_MAP_REG_CFG = 0x0C"
definition MQNIC_RB_EQM_TYPE :: int where "MQNIC_RB_EQM_TYPE = 0x0000C010"
definition MQNIC_RB_EQM_VER :: int where "MQNIC_RB_EQM_VER = 0x00000400"
definition MQNIC_RB_EQM_REG_OFFSET :: int where "MQNIC_RB_EQM_REG_OFFSET = 0x0C"
definition MQNIC_RB_EQM_REG_COUNT :: int where "MQNIC_RB_EQM_REG_COUNT = 0x10"
definition MQNIC_RB_EQM_REG_STRIDE :: int where "MQNIC_RB_EQM_REG_STRIDE = 0x14"
definition MQNIC_RB_CQM_TYPE :: int where "MQNIC_RB_CQM_TYPE = 0x0000C020"
definition MQNIC_RB_CQM_VER :: int where "MQNIC_RB_CQM_VER = 0x00000400"
definition MQNIC_RB_CQM_REG_OFFSET :: int where "MQNIC_RB_CQM_REG_OFFSET = 0x0C"
definition MQNIC_RB_CQM_REG_COUNT :: int where "MQNIC_RB_CQM_REG_COUNT = 0x10"
definition MQNIC_RB_CQM_REG_STRIDE :: int where "MQNIC_RB_CQM_REG_STRIDE = 0x14"
definition MQNIC_RB_TX_QM_TYPE :: int where "MQNIC_RB_TX_QM_TYPE = 0x0000C030"
definition MQNIC_RB_TX_QM_VER :: int where "MQNIC_RB_TX_QM_VER = 0x00000400"
definition MQNIC_RB_TX_QM_REG_OFFSET :: int where "MQNIC_RB_TX_QM_REG_OFFSET = 0x0C"
definition MQNIC_RB_TX_QM_REG_COUNT :: int where "MQNIC_RB_TX_QM_REG_COUNT = 0x10"
definition MQNIC_RB_TX_QM_REG_STRIDE :: int where "MQNIC_RB_TX_QM_REG_STRIDE = 0x14"
definition MQNIC_RB_RX_QM_TYPE :: int where "MQNIC_RB_RX_QM_TYPE = 0x0000C031"
definition MQNIC_RB_RX_QM_VER :: int where "MQNIC_RB_RX_QM_VER = 0x00000400"
definition MQNIC_RB_RX_QM_REG_OFFSET :: int where "MQNIC_RB_RX_QM_REG_OFFSET = 0x0C"
definition MQNIC_RB_RX_QM_REG_COUNT :: int where "MQNIC_RB_RX_QM_REG_COUNT = 0x10"
definition MQNIC_RB_RX_QM_REG_STRIDE :: int where "MQNIC_RB_RX_QM_REG_STRIDE = 0x14"
definition MQNIC_RB_PORT_TYPE :: int where "MQNIC_RB_PORT_TYPE = 0x0000C002"
definition MQNIC_RB_PORT_VER :: int where "MQNIC_RB_PORT_VER = 0x00000200"
definition MQNIC_RB_SCHED_BLOCK_TYPE :: int where "MQNIC_RB_SCHED_BLOCK_TYPE = 0x0000C004"
definition MQNIC_RB_SCHED_BLOCK_VER :: int where "MQNIC_RB_SCHED_BLOCK_VER = 0x00000300"
definition MQNIC_RB_APP_INFO_TYPE :: int where "MQNIC_RB_APP_INFO_TYPE = 0x0000C005"
definition MQNIC_RB_APP_INFO_VER :: int where "MQNIC_RB_APP_INFO_VER = 0x00000200"
definition MQNIC_RB_APP_INFO_REG_ID :: int where "MQNIC_RB_APP_INFO_REG_ID = 0x0C"
definition MQNIC_RB_PHC_TYPE :: int where "MQNIC_RB_PHC_TYPE = 0x0000C080"
definition MQNIC_RB_PHC_VER :: int where "MQNIC_RB_PHC_VER = 0x00000200"
definition MQNIC_RB_FW_ID_REG_FPGA_ID :: int where "MQNIC_RB_FW_ID_REG_FPGA_ID = 0x0C"
definition MQNIC_RB_FW_ID_REG_FW_ID :: int where "MQNIC_RB_FW_ID_REG_FW_ID = 0x10"
definition MQNIC_RB_FW_ID_REG_FW_VER :: int where "MQNIC_RB_FW_ID_REG_FW_VER = 0x14"
definition MQNIC_RB_FW_ID_REG_BOARD_ID :: int where "MQNIC_RB_FW_ID_REG_BOARD_ID = 0x18"
definition MQNIC_RB_FW_ID_REG_BOARD_VER :: int where "MQNIC_RB_FW_ID_REG_BOARD_VER = 0x1C"
definition MQNIC_RB_FW_ID_REG_BUILD_DATE :: int where "MQNIC_RB_FW_ID_REG_BUILD_DATE = 0x20"
definition MQNIC_RB_FW_ID_REG_GIT_HASH :: int where "MQNIC_RB_FW_ID_REG_GIT_HASH = 0x24"
definition MQNIC_RB_FW_ID_REG_REL_INFO :: int where "MQNIC_RB_FW_ID_REG_REL_INFO = 0x28"


section \<open>Interface\<close>

definition new_nic :: "'r packet_pool \<Rightarrow> int \<Rightarrow> int \<Rightarrow> 'r nic" where
  "new_nic pool index hw_regs =
     \<lparr>nic_pool = pool, nic_index = index, nic_hw_regs = hw_regs, nic_reg_blocks = [], nic_if_ctrl_rb = None,
      nic_rx_queue_map_rb = None,
      nic_features = \<lparr>iff_rss = False, iff_ptp_ts = False, iff_tx_csum = False, iff_rx_csum = False,
        iff_rx_hash = False, iff_lfc = False, iff_pfc = False\<rparr>,
      nic_port_count = 0, nic_sched_block_count = 0, nic_max_tx_mtu = 0, nic_max_rx_mtu = 0,
      nic_tx_fifo_depth = 0, nic_rx_fifo_depth = 0, nic_eq_res = new_resource 0 0 0,
      nic_cq_res = new_resource 0 0 0, nic_txq_res = new_resource 0 0 0, nic_rxq_res = new_resource 0 0 0,
      nic_indir_table_size = 0, nic_indir_table_regs = [], nic_eqs = [], nic_cqs = [], nic_txqs = [],
      nic_rxqs = [], nic_eq = [], nic_ports = [], nic_scheds = [], nic_sched_blocks = [], nic_ndevs = [],
      nic_sched_pool = \<lparr>pp_sched_ports = [], pp_free_sched_ports = []\<rparr>\<rparr>"

text \<open>\<open>self.reg_blocks.find\<close>, and the read of a register of a block that must have been found.\<close>

definition find_block :: "int \<Rightarrow> int \<Rightarrow> int \<Rightarrow> ('h, 'r, int option) nic_act" where
  "find_block ty version index =
     reads (\<lambda>s. found_block ty version index (nic_reg_blocks s) (nic_hw_regs s))"

definition block_read :: "('h, 'r) nic_hw \<Rightarrow> int option \<Rightarrow> int \<Rightarrow> ('h, 'r, int) nic_act" where
  "block_read hw rb reg = abind (aneed AttributeError rb) (\<lambda>w. reg_read hw (w + reg))"

definition set_mtu :: "('h, 'r) nic_hw \<Rightarrow> int \<Rightarrow> ('h, 'r, unit) nic_act" where
  "set_mtu hw mtu =
     abind (reads nic_if_ctrl_rb) (\<lambda>rb. abind (aneed AttributeError rb) (\<lambda>w.
       reg_writes hw w [(MQNIC_RB_IF_CTRL_REG_TX_MTU, mtu), (MQNIC_RB_IF_CTRL_REG_RX_MTU, mtu)]))"

definition decode_if_features :: "int \<Rightarrow> if_features" where
  "decode_if_features v =
     \<lparr>iff_rss = (v AND MQNIC_IF_FEATURE_RSS \<noteq> 0), iff_ptp_ts = (v AND MQNIC_IF_FEATURE_PTP_TS \<noteq> 0),
      iff_tx_csum = (v AND MQNIC_IF_FEATURE_TX_CSUM \<noteq> 0), iff_rx_csum = (v AND MQNIC_IF_FEATURE_RX_CSUM \<noteq> 0),
      iff_rx_hash = (v AND MQNIC_IF_FEATURE_RX_HASH \<noteq> 0), iff_lfc = (v AND MQNIC_IF_FEATURE_LFC \<noteq> 0),
      iff_pfc = (v AND MQNIC_IF_FEATURE_PFC \<noteq> 0)\<rparr>"

definition init_control :: "('h, 'r) nic_hw \<Rightarrow> ('h, 'r, unit) nic_act" where
  "init_control hw =
     abind (find_block MQNIC_RB_IF_CTRL_TYPE MQNIC_RB_IF_CTRL_VER 0) (\<lambda>rb.
     athen (updates (\<lambda>s. s\<lparr>nic_if_ctrl_rb := rb\<rparr>)) (
     abind (block_read hw rb MQNIC_RB_IF_CTRL_REG_FEATURES) (\<lambda>features.
     abind (block_read hw rb MQNIC_RB_IF_CTRL_REG_PORT_COUNT) (\<lambda>ports.
     abind (block_read hw rb MQNIC_RB_IF_CTRL_REG_SCHED_COUNT) (\<lambda>scheds.
     abind (block_read hw rb MQNIC_RB_IF_CTRL_REG_MAX_TX_MTU) (\<lambda>tx_mtu.
     abind (block_read hw rb MQNIC_RB_IF_CTRL_REG_MAX_RX_MTU) (\<lambda>rx_mtu.
     abind (block_read hw rb MQNIC_RB_IF_CTRL_REG_TX_FIFO_DEPTH) (\<lambda>tx_fifo.
     abind (block_read hw rb MQNIC_RB_IF_CTRL_REG_RX_FIFO_DEPTH) (\<lambda>rx_fifo.
     athen (updates (\<lambda>s. s\<lparr>nic_features := decode_if_features features, nic_port_count := ports,
       nic_sched_block_count := scheds, nic_max_tx_mtu := tx_mtu, nic_max_rx_mtu := rx_mtu,
       nic_tx_fifo_depth := tx_fifo, nic_rx_fifo_depth := rx_fifo\<rparr>))
       (set_mtu hw (min (min tx_mtu rx_mtu) 9214)))))))))))"

text \<open>One of the four queue managers: its resource covers at most \<open>limit\<close> queues.\<close>

definition init_resource ::
  "('h, 'r) nic_hw \<Rightarrow> queue_class \<Rightarrow> int option \<Rightarrow> int \<times> int \<times> int \<Rightarrow> int \<Rightarrow> ('h, 'r, unit) nic_act" where
  "init_resource hw qc rb regs limit =
     (case regs of (offset_reg, count_reg, stride_reg) \<Rightarrow>
       abind (block_read hw rb offset_reg) (\<lambda>offset.
       abind (block_read hw rb count_reg) (\<lambda>count.
       abind (block_read hw rb stride_reg) (\<lambda>stride.
         updates (\<lambda>s. set_res qc (new_resource (min count limit) (nic_hw_regs s + offset) stride) s)))))"

definition init_resources :: "('h, 'r) nic_hw \<Rightarrow> ('h, 'r, unit) nic_act" where
  "init_resources hw =
     abind (find_block MQNIC_RB_EQM_TYPE MQNIC_RB_EQM_VER 0) (\<lambda>rb.
     athen (init_resource hw EQ rb (MQNIC_RB_EQM_REG_OFFSET, MQNIC_RB_EQM_REG_COUNT, MQNIC_RB_EQM_REG_STRIDE)
       MQNIC_MAX_EQ) (
     abind (find_block MQNIC_RB_CQM_TYPE MQNIC_RB_CQM_VER 0) (\<lambda>rb.
     athen (init_resource hw CQ rb (MQNIC_RB_CQM_REG_OFFSET, MQNIC_RB_CQM_REG_COUNT, MQNIC_RB_CQM_REG_STRIDE)
       MQNIC_MAX_CQ) (
     abind (find_block MQNIC_RB_TX_QM_TYPE MQNIC_RB_TX_QM_VER 0) (\<lambda>rb.
     athen (init_resource hw TXQ rb
       (MQNIC_RB_TX_QM_REG_OFFSET, MQNIC_RB_TX_QM_REG_COUNT, MQNIC_RB_TX_QM_REG_STRIDE) MQNIC_MAX_TXQ) (
     abind (find_block MQNIC_RB_RX_QM_TYPE MQNIC_RB_RX_QM_VER 0) (\<lambda>rb.
       init_resource hw RXQ rb
         (MQNIC_RB_RX_QM_REG_OFFSET, MQNIC_RB_RX_QM_REG_COUNT, MQNIC_RB_RX_QM_REG_STRIDE) MQNIC_MAX_RXQ)))))))"

definition init_queue_map :: "('h, 'r) nic_hw \<Rightarrow> ('h, 'r, unit) nic_act" where
  "init_queue_map hw =
     abind (find_block MQNIC_RB_RX_QUEUE_MAP_TYPE MQNIC_RB_RX_QUEUE_MAP_VER 0) (\<lambda>rb.
     athen (updates (\<lambda>s. s\<lparr>nic_rx_queue_map_rb := rb\<rparr>)) (
     abind (block_read hw rb MQNIC_RB_RX_QUEUE_MAP_REG_CFG) (\<lambda>val.
     athen (updates (\<lambda>s. s\<lparr>nic_indir_table_size := 2 ^ nat (drop_bit 8 val AND 0xff), nic_indir_table_regs := []\<rparr>)) (
     abind (reads nic_port_count) (\<lambda>ports.
       afor [0..<nat ports] (\<lambda>k.
         abind (block_read hw rb (MQNIC_RB_RX_QUEUE_MAP_CH_OFFSET + MQNIC_RB_RX_QUEUE_MAP_CH_STRIDE * int k +
           MQNIC_RB_RX_QUEUE_MAP_CH_REG_OFFSET)) (\<lambda>offset.
         athen (updates (\<lambda>s. s\<lparr>nic_indir_table_regs := nic_indir_table_regs s @ [nic_hw_regs s + offset]\<rparr>)) (
         athen (set_rx_queue_map_rss_mask hw k 0) (
         athen (set_rx_queue_map_app_mask hw k 0)
           (set_rx_queue_map_indir_table hw k 0 0))))))))))"

text \<open>Every queue of a manager is disabled before any is opened.\<close>

definition quiesce :: "('h, 'r) nic_hw \<Rightarrow> queue_class \<Rightarrow> int \<Rightarrow> ('h, 'r, unit) nic_act" where
  "quiesce hw qc ctrl_reg =
     abind (reads (the_res qc)) (\<lambda>rc.
       afor [0..get_count rc - 1] (\<lambda>k.
         abind (take_window qc k) (\<lambda>w. reg_write hw (w + ctrl_reg) (MQNIC_QUEUE_CMD_SET_ENABLE OR 0))))"

definition init_port :: "('h, 'r) nic_hw \<Rightarrow> nat \<Rightarrow> ('h, 'r, unit) nic_act" where
  "init_port hw k =
     abind (find_block MQNIC_RB_PORT_TYPE MQNIC_RB_PORT_VER (int k)) (\<lambda>rb.
     abind (aneed AttributeError rb) (\<lambda>w.
     athen (updates (\<lambda>s. s\<lparr>nic_ports := nic_ports s @ [new_nic_port w]\<rparr>)) (port_init hw k)))"

definition init_sched_block :: "('h, 'r) nic_hw \<Rightarrow> nat \<Rightarrow> ('h, 'r, unit) nic_act" where
  "init_sched_block hw k =
     abind (find_block MQNIC_RB_SCHED_BLOCK_TYPE MQNIC_RB_SCHED_BLOCK_VER (int k)) (\<lambda>rb.
     abind (aneed AttributeError rb) (\<lambda>w.
     athen (updates (\<lambda>s. s\<lparr>nic_sched_blocks := nic_sched_blocks s @ [new_sched_block w]\<rparr>)) (sched_block_init hw k)))"

definition init_eq :: "('h, 'r) nic_hw \<Rightarrow> nat \<Rightarrow> ('h, 'r, unit) nic_act" where
  "init_eq hw k =
     abind (reads (\<lambda>s. (length (nic_eqs s), nic_index s))) (\<lambda>(i, irq).
     athen (updates (\<lambda>s. s\<lparr>nic_eqs := nic_eqs s @ [new_event_queue]\<rparr>)) (
     athen (evq_open hw i irq 1024) (
     athen (updates (\<lambda>s. s\<lparr>nic_eq := nic_eq s @ [i]\<rparr>)) (evq_arm hw i))))"

definition init_ndev :: "nat \<Rightarrow> ('h, 'r, unit) nic_act" where
  "init_ndev k =
     abind (reads (new_netdev k)) (\<lambda>r. abind (alift r) (\<lambda>n.
       updates (\<lambda>s. s\<lparr>nic_ndevs := nic_ndevs s @ [n]\<rparr>)))"

text \<open>\<open>init\<close> in two parts: what it finds in the hardware and disables, and what it opens.\<close>

definition init_hardware :: "('h, 'r) nic_hw \<Rightarrow> int \<Rightarrow> ('h, 'r, unit) nic_act" where
  "init_hardware hw csr_offset =
     abind (walk_blocks hw csr_offset (\<lambda>blocks s. s\<lparr>nic_reg_blocks := blocks\<rparr>)) (\<lambda>_.
     athen (init_control hw) (
     athen (init_resources hw) (
     athen (init_queue_map hw) (
     athen (quiesce hw EQ MQNIC_EQ_CTRL_STATUS_REG) (
     athen (quiesce hw CQ MQNIC_CQ_CTRL_STATUS_REG) (
     athen (quiesce hw TXQ MQNIC_QUEUE_CTRL_STATUS_REG) (
     athen (quiesce hw RXQ MQNIC_QUEUE_CTRL_STATUS_REG) (
     abind (reads nic_port_count) (\<lambda>ports.
     athen (afor [0..<nat ports] (init_port hw)) (
     abind (reads nic_sched_block_count) (\<lambda>blocks.
     athen (afor [0..<nat blocks] (init_sched_block hw)) (
     abind (reads (\<lambda>s. length (nic_sched_blocks s))) (\<lambda>made.
       aguard (blocks = int made) AssertionError)))))))))))))"

definition init_objects :: "('h, 'r) nic_hw \<Rightarrow> ('h, 'r, unit) nic_act" where
  "init_objects hw =
     abind (reads (\<lambda>s. get_count (nic_eq_res s))) (\<lambda>eqs.
     athen (afor [0..<nat eqs] (init_eq hw)) (
     abind (reads (\<lambda>s. length (nic_ports s))) (\<lambda>n.
     athen (afor [0..<n] init_ndev) (
     abind (reads nic_hw_regs) (\<lambda>base.
     abind (reg_read hw base) (\<lambda>_. aret ()))))))"

definition interface_init :: "('h, 'r) nic_hw \<Rightarrow> int \<Rightarrow> ('h, 'r, unit) nic_act" where
  "interface_init hw csr_offset = athen (init_hardware hw csr_offset) (init_objects hw)"


section \<open>Driver\<close>

text \<open>The interfaces of a driver share one packet pool.\<close>

record 'r driver =
  drv_pool :: "'r packet_pool"
  drv_interfaces :: "'r nic list"
  drv_hw_regs :: int
  drv_reg_blocks :: "reg_block list"
  drv_ids :: "int list"
  drv_app_id :: "int option"
  drv_phc_rb :: "int option"
  drv_if_offset :: int
  drv_if_count :: int
  drv_if_stride :: int
  drv_if_csr_offset :: int

definition new_driver :: "int \<Rightarrow> 'r driver" where
  "new_driver hw_regs =
     \<lparr>drv_pool = new_packet_pool, drv_interfaces = [], drv_hw_regs = hw_regs, drv_reg_blocks = [], drv_ids = [],
      drv_app_id = None, drv_phc_rb = None, drv_if_offset = 0, drv_if_count = 1, drv_if_stride = 0,
      drv_if_csr_offset = 0\<rparr>"

definition enter_interface :: "nat \<Rightarrow> 'r driver \<Rightarrow> 'r nic" where
  "enter_interface k d = (drv_interfaces d ! k)\<lparr>nic_pool := drv_pool d\<rparr>"

definition leave_interface :: "nat \<Rightarrow> 'r nic \<Rightarrow> 'r driver \<Rightarrow> 'r driver" where
  "leave_interface k s d = d\<lparr>drv_pool := nic_pool s, drv_interfaces := (drv_interfaces d)[k := s]\<rparr>"

type_synonym ('h, 'r, 'a) drv_act = "('h \<times> 'r driver, py_error, 'a) act"

definition drv_read :: "('h, 'r) nic_hw \<Rightarrow> int \<Rightarrow> ('h, 'r, int) drv_act" where
  "drv_read hw a st = (case st of (h, d) \<Rightarrow> (case hw_read hw a h of (v, h') \<Rightarrow> (Inr (uint v), (h', d))))"

definition drv_get :: "('r driver \<Rightarrow> 'a) \<Rightarrow> ('h, 'r, 'a) drv_act" where
  "drv_get f = aget (\<lambda>(h, d). f d)"

definition drv_update :: "('r driver \<Rightarrow> 'r driver) \<Rightarrow> ('h, 'r, unit) drv_act" where
  "drv_update f = amodify (\<lambda>(h, d). (h, f d))"

definition drv_block :: "int \<Rightarrow> int \<Rightarrow> ('h, 'r, int option) drv_act" where
  "drv_block ty version = drv_get (\<lambda>d. found_block ty version 0 (drv_reg_blocks d) (drv_hw_regs d))"

definition drv_walk :: "('h, 'r) nic_hw \<Rightarrow> ('h, 'r, unit) drv_act" where
  "drv_walk hw st =
     (case st of (h, d) \<Rightarrow>
       (case enumerate_reg_blocks (\<lambda>a. hw_read hw (drv_hw_regs d + a)) 0 [] h of
          (r, blocks, h') \<Rightarrow> (r, (h', d\<lparr>drv_reg_blocks := blocks\<rparr>))))"

text \<open>The registers of the firmware block, in the order they are read.\<close>

definition id_registers :: "int list" where
  "id_registers =
     [MQNIC_RB_FW_ID_REG_FPGA_ID, MQNIC_RB_FW_ID_REG_FW_ID, MQNIC_RB_FW_ID_REG_FW_VER,
      MQNIC_RB_FW_ID_REG_BOARD_ID, MQNIC_RB_FW_ID_REG_BOARD_VER, MQNIC_RB_FW_ID_REG_BUILD_DATE,
      MQNIC_RB_FW_ID_REG_GIT_HASH, MQNIC_RB_FW_ID_REG_REL_INFO]"

definition read_ids :: "('h, 'r) nic_hw \<Rightarrow> ('h, 'r, unit) drv_act" where
  "read_ids hw =
     abind (drv_block MQNIC_RB_FW_ID_TYPE MQNIC_RB_FW_ID_VER) (\<lambda>rb. abind (aneed AttributeError rb) (\<lambda>w.
     athen (afor id_registers (\<lambda>reg. abind (drv_read hw (w + reg)) (\<lambda>v. drv_update (\<lambda>d. d\<lparr>drv_ids := drv_ids d @ [v]\<rparr>)))) (
     abind (drv_block MQNIC_RB_APP_INFO_TYPE MQNIC_RB_APP_INFO_VER) (\<lambda>app.
     athen (case app of
              None \<Rightarrow> aret ()
            | Some a \<Rightarrow> abind (drv_read hw (a + MQNIC_RB_APP_INFO_REG_ID)) (\<lambda>v. drv_update (\<lambda>d. d\<lparr>drv_app_id := Some v\<rparr>))) (
     abind (drv_block MQNIC_RB_PHC_TYPE MQNIC_RB_PHC_VER) (\<lambda>phc. drv_update (\<lambda>d. d\<lparr>drv_phc_rb := phc\<rparr>)))))))"

definition create_interface :: "('h, 'r) nic_hw \<Rightarrow> nat \<Rightarrow> ('h, 'r, unit) drv_act" where
  "create_interface hw k st =
     (case st of (h, d) \<Rightarrow>
       (case interface_init hw (drv_if_csr_offset d)
               (h, new_nic (drv_pool d) (int k) (drv_hw_regs d + (drv_if_offset d + int k * drv_if_stride d))) of
          (Inl e, (h', s)) \<Rightarrow> (Inl e, (h', d\<lparr>drv_pool := nic_pool s\<rparr>))
        | (Inr _, (h', s)) \<Rightarrow>
            (Inr (), (h', d\<lparr>drv_pool := nic_pool s, drv_interfaces := drv_interfaces d @ [s]\<rparr>))))"

definition init_common :: "('h, 'r) nic_hw \<Rightarrow> ('h, 'r, unit) drv_act" where
  "init_common hw =
     athen (drv_walk hw) (
     athen (read_ids hw) (
     abind (drv_block MQNIC_RB_IF_TYPE MQNIC_RB_IF_VER) (\<lambda>rb.
     athen (drv_update (\<lambda>d. d\<lparr>drv_interfaces := []\<rparr>)) (
       case rb of
         None \<Rightarrow> aret ()
       | Some w \<Rightarrow>
           abind (drv_read hw (w + MQNIC_RB_IF_REG_OFFSET)) (\<lambda>offset.
           abind (drv_read hw (w + MQNIC_RB_IF_REG_COUNT)) (\<lambda>count.
           abind (drv_read hw (w + MQNIC_RB_IF_REG_STRIDE)) (\<lambda>stride.
           abind (drv_read hw (w + MQNIC_RB_IF_REG_CSR_OFFSET)) (\<lambda>csr.
           athen (drv_update (\<lambda>d. d\<lparr>drv_if_offset := offset, drv_if_count := count, drv_if_stride := stride,
             drv_if_csr_offset := csr\<rparr>))
             (afor [0..<nat count] (create_interface hw))))))))))"


section \<open>Interrupts\<close>

definition on_interface ::
  "nat \<Rightarrow> ('h \<times> 'r nic \<Rightarrow> ((py_error + unit) \<times> ('h \<times> 'r nic)) option)
     \<Rightarrow> 'h \<times> 'r driver \<Rightarrow> ((py_error + unit) \<times> ('h \<times> 'r driver)) option" where
  "on_interface k m st =
     map_option (\<lambda>(r, (h', s)). (r, (h', leave_interface k s (snd st))))
       (m (fst st, enter_interface k (snd st)))"

definition interrupt_handler ::
  "('h, 'r) nic_hw \<Rightarrow> int \<Rightarrow> 'h \<times> 'r driver \<Rightarrow> ((py_error + unit) \<times> ('h \<times> 'r driver)) option" where
  "interrupt_handler hw irq st =
     in_turn (\<lambda>k st. on_interface k
         (in_turn (serve_eq hw irq) (nic_eq (drv_interfaces (snd st) ! k))) st)
       [0..<length (drv_interfaces (snd st))] st"

end
