(* ===== verification/Nic_Ownership.thy ===== *)
theory Nic_Ownership
  imports Nic_Driver
begin

text \<open>
  Who owns a packet buffer of the NIC driver: a slot of a ring, the list of free buffers, or an
  operation that has just taken it. The invariant of this theory says that no buffer has two owners
  and that every reference the driver follows names an object; each operation keeps it whatever it
  reads from the hardware and wherever it raises.
\<close>


section \<open>Slots and references\<close>

fun rings :: "ring_kind \<Rightarrow> 'r nic \<Rightarrow> 'r ring list" where
  "rings TX s = nic_txqs s"
| "rings RX s = nic_rxqs s"

lemma the_ring_rings: "the_ring k i s = rings k s ! i"
  by (cases k) simp_all

lemma rings_upd_ring:
  "rings k' (upd_ring k i f s) = (if k' = k then (rings k s)[i := f (rings k s ! i)] else rings k' s)"
  by (cases k; cases k') simp_all

type_synonym slot = "ring_kind \<times> nat \<times> nat"

fun slot_at :: "'r nic \<Rightarrow> slot \<Rightarrow> 'r option" where
  "slot_at s (k, i, j) =
     (if i < length (rings k s) \<and> j < length (rg_info (rings k s ! i)) then rg_info (rings k s ! i) ! j else None)"

declare slot_at.simps [simp del]

datatype ref = EqRef nat | CqRef nat | RingRef ring_kind nat

fun valid_ref :: "'r nic \<Rightarrow> ref \<Rightarrow> bool" where
  "valid_ref s (EqRef i) \<longleftrightarrow> i < length (nic_eqs s)"
| "valid_ref s (CqRef j) \<longleftrightarrow> j < length (nic_cqs s)"
| "valid_ref s (RingRef k i) \<longleftrightarrow> i < length (rings k s)"

definition eq_refs :: "'r event_queue \<Rightarrow> ref set" where
  "eq_refs q = (\<lambda>p. CqRef (snd p)) ` set (evq_cq_table q)"

definition cq_refs :: "'r completion_queue \<Rightarrow> ref set" where
  "cq_refs q = (\<lambda>(k, i). RingRef k i) ` set_option (cpq_src_ring q)"

text \<open>Every reference the objects of a state hold.\<close>

definition refs_of :: "'r nic \<Rightarrow> ref set" where
  "refs_of s = EqRef ` set (nic_eq s) \<union> \<Union> (eq_refs ` set (nic_eqs s)) \<union> \<Union> (cq_refs ` set (nic_cqs s))"


section \<open>The invariant\<close>

text \<open>
  \<open>given\<close> are the regions the memory pool has handed out, \<open>busy\<close> the buffers owned elsewhere: by
  another interface, or by the operation that has just taken them. \<open>known\<close> are references the
  operation itself follows.
\<close>

definition owns :: "('h \<Rightarrow> 'r set) \<Rightarrow> 'r set \<Rightarrow> ref set \<Rightarrow> 'h \<times> 'r nic \<Rightarrow> bool" where
  "owns given busy known st \<longleftrightarrow>
     pool_from given (fst st, nic_pool (snd st)) \<and> busy \<subseteq> packets_in_use (nic_pool (snd st)) \<and>
     inj_on (slot_at (snd st)) (dom (slot_at (snd st))) \<and>
     ran (slot_at (snd st)) \<subseteq> packets_in_use (nic_pool (snd st)) - busy \<and>
     (\<forall>x \<in> refs_of (snd st) \<union> known. valid_ref (snd st) x)"

text \<open>What the memory pool promises: only allocation hands out regions, and none twice.\<close>

definition region_ledger :: "('h, 'r) nic_hw \<Rightarrow> ('h \<Rightarrow> 'r set) \<Rightarrow> bool" where
  "region_ledger hw given \<longleftrightarrow>
     fresh_regions given (hw_alloc_region hw) \<and>
     (\<forall>a h. given (snd (hw_read hw a h)) = given h) \<and>
     (\<forall>a v h. given (snd (hw_write hw a v h)) = given h) \<and>
     (\<forall>a h. given (snd (hw_read_word hw a h)) = given h) \<and>
     (\<forall>a v h. given (snd (hw_write_word hw a v h)) = given h) \<and>
     (\<forall>r i bs h. given (snd (hw_store hw r i bs h)) = given h)"

lemma region_ledgerD:
  assumes "region_ledger hw given"
  shows "fresh_regions given (hw_alloc_region hw)"
    "given (snd (hw_read hw a h)) = given h" "given (snd (hw_write hw a v h)) = given h"
    "given (snd (hw_read_word hw a h)) = given h" "given (snd (hw_write_word hw a v h)) = given h"
    "given (snd (hw_store hw r i bs h)) = given h"
  using assms by (simp_all add: region_ledger_def)


section \<open>Updates that keep it\<close>

text \<open>An update that frees slots at most and whose references stay valid.\<close>

definition harmless :: "ref set \<Rightarrow> ('r nic \<Rightarrow> 'r nic) \<Rightarrow> bool" where
  "harmless known f \<longleftrightarrow>
     (\<forall>s. nic_pool (f s) = nic_pool s \<and> slot_at (f s) \<subseteq>\<^sub>m slot_at s \<and>
        ((\<forall>x \<in> refs_of s \<union> known. valid_ref s x) \<longrightarrow>
         (\<forall>x \<in> refs_of (f s) \<union> known. valid_ref (f s) x)))"

lemma inj_on_map_le:
  assumes "m' \<subseteq>\<^sub>m m" "inj_on m (dom m)"
  shows "inj_on m' (dom m')" "ran m' \<subseteq> ran m"
proof -
  have same: "m' x = m x" if "x \<in> dom m'" for x using assms(1) that by (simp add: map_le_def)
  have "dom m' \<subseteq> dom m" using assms(1) by (rule map_le_implies_dom_le)
  with assms(2) same show "inj_on m' (dom m')" by (metis inj_on_cong inj_on_subset)
  show "ran m' \<subseteq> ran m" using same by (force simp: ran_def dom_def)
qed

lemma keeps_harmless:
  assumes "harmless known f"
  shows "keeps (owns given busy known) (updates f)"
proof (unfold updates_def, rule keeps_amodify)
  fix st assume inv: "owns given busy known st"
  have h: "nic_pool (f (snd st)) = nic_pool (snd st)" "slot_at (f (snd st)) \<subseteq>\<^sub>m slot_at (snd st)"
    "(\<forall>x \<in> refs_of (snd st) \<union> known. valid_ref (snd st) x) \<Longrightarrow>
       \<forall>x \<in> refs_of (f (snd st)) \<union> known. valid_ref (f (snd st)) x"
    using assms by (auto simp: harmless_def)
  from inj_on_map_le [OF h(2)] inv h(1,3) show "owns given busy known (case st of (h, s) \<Rightarrow> (h, f s))"
    by (cases st) (auto simp: owns_def)
qed

lemma valid_refI: "(\<And>x. valid_ref s x \<Longrightarrow> valid_ref s' x) \<Longrightarrow> refs_of s' \<subseteq> refs_of s \<union> known \<Longrightarrow>
    (\<forall>x \<in> refs_of s \<union> known. valid_ref s x) \<longrightarrow> (\<forall>x \<in> refs_of s' \<union> known. valid_ref s' x)"
  by blast

lemma UN_list_update:
  assumes "\<And>x. R (f x) \<subseteq> R x \<union> K"
  shows "\<Union> (R ` set (xs[i := f (xs ! i)])) \<subseteq> \<Union> (R ` set xs) \<union> K"
proof (cases "i < length xs")
  case True
  have "set (xs[i := f (xs ! i)]) \<subseteq> insert (f (xs ! i)) (set xs)" by (rule set_update_subset_insert)
  with assms [of "xs ! i"] nth_mem [OF True] show ?thesis by fastforce
qed (simp add: list_update_beyond)

lemma refs_of_updates:
  "refs_of (upd_eq i f s) = EqRef ` set (nic_eq s) \<union> \<Union> (eq_refs ` set ((nic_eqs s)[i := f (nic_eqs s ! i)])) \<union>
     \<Union> (cq_refs ` set (nic_cqs s))"
  "refs_of (upd_cq j g s) = EqRef ` set (nic_eq s) \<union> \<Union> (eq_refs ` set (nic_eqs s)) \<union>
     \<Union> (cq_refs ` set ((nic_cqs s)[j := g (nic_cqs s ! j)]))"
  "refs_of (upd_ndev d u s) = refs_of s"
  "refs_of (upd_ring k n v s) = refs_of s"
  by (simp_all add: refs_of_def upd_eq_def upd_cq_def upd_ndev_def) (cases k; simp)

lemma rings_other:
  "rings k (upd_eq i f s) = rings k s"
  "rings k (upd_cq j g s) = rings k s"
  "rings k (upd_ndev d u s) = rings k s"
  by (cases k; simp add: upd_eq_def upd_cq_def upd_ndev_def)+

lemma other_lists:
  "nic_eqs (upd_ring k n v s) = nic_eqs s"
  "nic_cqs (upd_ring k n v s) = nic_cqs s"
  by (cases k; simp)+

lemma valid_ref_updates:
  "valid_ref (upd_eq i f s) x = valid_ref s x"
  "valid_ref (upd_cq j g s) x = valid_ref s x"
  "valid_ref (upd_ndev d u s) x = valid_ref s x"
  "valid_ref (upd_ring k n v s) x = valid_ref s x"
  by (cases x; simp add: rings_other; simp add: upd_eq_def upd_cq_def upd_ndev_def)+
    (cases x; simp add: other_lists rings_upd_ring)

lemma slot_at_updates:
  "slot_at (upd_eq i f s) p = slot_at s p"
  "slot_at (upd_cq j g s) p = slot_at s p"
  "slot_at (upd_ndev d u s) p = slot_at s p"
  by (cases p; simp add: slot_at.simps rings_other)+

lemma pool_updates:
  "nic_pool (upd_eq i f s) = nic_pool s"
  "nic_pool (upd_cq j g s) = nic_pool s"
  "nic_pool (upd_ndev d u s) = nic_pool s"
  "nic_pool (upd_ring k n v s) = nic_pool s"
  by (simp_all add: upd_eq_def upd_cq_def upd_ndev_def) (cases k; simp)

lemma one_part_grows:
  "X \<subseteq> X' \<union> K \<Longrightarrow> A \<union> X \<union> C \<subseteq> A \<union> X' \<union> C \<union> K"
  "X \<subseteq> X' \<union> K \<Longrightarrow> A \<union> B \<union> X \<subseteq> A \<union> B \<union> X' \<union> K"
  by blast+

lemma harmless_upd_eq:
  assumes "\<And>q. eq_refs (f q) \<subseteq> eq_refs q \<union> known"
  shows "harmless known (upd_eq i f)"
  unfolding harmless_def
proof (intro allI conjI)
  fix s :: "'a nic"
  have "refs_of (upd_eq i f s) \<subseteq> refs_of s \<union> known"
    unfolding refs_of_updates unfolding refs_of_def by (rule one_part_grows(1), rule UN_list_update, rule assms)
  then show "(\<forall>x \<in> refs_of s \<union> known. valid_ref s x) \<longrightarrow>
      (\<forall>x \<in> refs_of (upd_eq i f s) \<union> known. valid_ref (upd_eq i f s) x)"
    by (rule valid_refI [rotated]) (simp add: valid_ref_updates)
qed (simp_all add: pool_updates slot_at_updates map_le_def)

lemma harmless_upd_cq:
  assumes "\<And>q. cq_refs (f q) \<subseteq> cq_refs q \<union> known"
  shows "harmless known (upd_cq i f)"
  unfolding harmless_def
proof (intro allI conjI)
  fix s :: "'a nic"
  have "refs_of (upd_cq i f s) \<subseteq> refs_of s \<union> known"
    unfolding refs_of_updates unfolding refs_of_def by (rule one_part_grows(2), rule UN_list_update, rule assms)
  then show "(\<forall>x \<in> refs_of s \<union> known. valid_ref s x) \<longrightarrow>
      (\<forall>x \<in> refs_of (upd_cq i f s) \<union> known. valid_ref (upd_cq i f s) x)"
    by (rule valid_refI [rotated]) (simp add: valid_ref_updates)
qed (simp_all add: pool_updates slot_at_updates map_le_def)

lemma harmless_upd_ndev: "harmless known (upd_ndev i f)"
  unfolding harmless_def
  by (simp add: pool_updates slot_at_updates refs_of_updates valid_ref_updates map_le_def)

text \<open>An update of a ring that leaves slots as they are or empties them.\<close>

lemma harmless_upd_ring:
  assumes "\<And>r j. j < length (rg_info (f r)) \<Longrightarrow> rg_info (f r) ! j \<noteq> None \<Longrightarrow>
    j < length (rg_info r) \<and> rg_info (f r) ! j = rg_info r ! j"
  shows "harmless known (upd_ring k i f)"
  unfolding harmless_def
proof (intro allI conjI)
  fix s :: "'a nic"
  show "slot_at (upd_ring k i f s) \<subseteq>\<^sub>m slot_at s"
    unfolding map_le_def
  proof
    fix p assume "p \<in> dom (slot_at (upd_ring k i f s))"
    then obtain k' i' j where p: "p = (k', i', j)" and d: "slot_at (upd_ring k i f s) (k', i', j) \<noteq> None"
      by (cases p) auto
    show "slot_at (upd_ring k i f s) p = slot_at s p"
    proof (cases "k' = k \<and> i' = i \<and> i < length (rings k s)")
      case True
      with d assms [of j "rings k s ! i"] show ?thesis by (simp add: p slot_at.simps rings_upd_ring split: if_splits)
    next
      case False
      then show ?thesis by (auto simp: p slot_at.simps rings_upd_ring)
    qed
  qed
qed (simp_all add: pool_updates refs_of_updates valid_ref_updates)

lemma harmless_frame:
  assumes "\<And>s. nic_pool (f s) = nic_pool s \<and> nic_eq (f s) = nic_eq s \<and> nic_eqs (f s) = nic_eqs s \<and>
    nic_cqs (f s) = nic_cqs s \<and> nic_txqs (f s) = nic_txqs s \<and> nic_rxqs (f s) = nic_rxqs s"
  shows "harmless known f"
  unfolding harmless_def
proof (intro allI conjI)
  fix s :: "'a nic"
  have r: "rings k (f s) = rings k s" for k using assms by (cases k) auto
  have "slot_at (f s) p = slot_at s p" for p by (cases p) (simp add: slot_at.simps r)
  then show "slot_at (f s) \<subseteq>\<^sub>m slot_at s" by (simp add: map_le_def)
  have "valid_ref (f s) x = valid_ref s x" for x using assms r by (cases x) auto
  then show "(\<forall>x \<in> refs_of s \<union> known. valid_ref s x) \<longrightarrow> (\<forall>x \<in> refs_of (f s) \<union> known. valid_ref (f s) x)"
    using assms by (auto simp: refs_of_def)
qed (use assms in simp)


section \<open>Operations on the hardware\<close>

named_theorems owns_intros \<open>operations that keep the ownership invariant\<close>

lemma owns_weaken: "owns given busy known st \<Longrightarrow> busy' \<subseteq> busy \<Longrightarrow> known' \<subseteq> known \<Longrightarrow> owns given busy' known' st"
  by (auto simp: owns_def)

lemma owns_hardware:
  assumes "\<And>h. given h \<subseteq> given (snd (f h))"
  shows "keeps (owns given busy known) (hardware f)"
  using assms by (fastforce simp: keeps_def owns_def hardware_def pool_from_def split: prod.split)

lemma owns_reads [owns_intros]: "keeps (owns given busy known) (reads f)"
  by (simp add: reads_def keeps_aget)

lemma owns_registers [owns_intros]:
  assumes "region_ledger hw given"
  shows "keeps (owns given busy known) (reg_read hw a)"
    "keeps (owns given busy known) (reg_write hw a v)"
    "keeps (owns given busy known) (reg_read_word hw a)"
    "keeps (owns given busy known) (reg_write_word hw a v)"
    "keeps (owns given busy known) (mem_store hw r i bs)"
  using region_ledgerD [OF assms]
  by (auto simp: reg_read_def reg_write_def reg_read_word_def reg_write_word_def mem_store_def
      intro!: owns_hardware split: prod.split) (metis snd_conv)+

lemma owns_alloc_region [owns_intros]:
  assumes "region_ledger hw given"
  shows "keeps (owns given busy known) (alloc_region hw n)"
proof (unfold alloc_region_def, rule owns_hardware)
  fix h
  obtain r h' where call: "hw_alloc_region hw n h = (r, h')" by fastforce
  with region_ledgerD(1) [OF assms] have "case r of Inl e \<Rightarrow> given h' = given h | Inr x \<Rightarrow> given h' = insert x (given h)"
    by (fastforce simp: fresh_regions_def split: sum.splits)
  with call show "given h \<subseteq> given (snd (hw_alloc_region hw n h))" by (auto split: sum.splits)
qed

lemma owns_mem_load [owns_intros]: "keeps (owns given busy known) (mem_load hw r i n)"
  by (simp add: mem_load_def keeps_aget)

lemma owns_need [owns_intros]:
  "keeps (owns given busy known) (need_int v)"
  "keeps (owns given busy known) (need_window w)"
  by (simp_all add: need_int_def need_window_def keeps_aneed)

lemma owns_reg_writes [owns_intros]:
  "region_ledger hw given \<Longrightarrow> keeps (owns given busy known) (reg_writes hw base ws)"
  unfolding reg_writes_def by (intro keeps_intros owns_intros) (auto intro: owns_intros)


section \<open>Taking and returning buffers\<close>

lemma slot_at_put:
  assumes "i < length (rings k s)" "j < length (rg_info (rings k s ! i))"
  shows "slot_at (upd_ring k i (\<lambda>r. r\<lparr>rg_info := (rg_info r)[j := v]\<rparr>) s) = (slot_at s)((k, i, j) := v)"
proof
  fix p show "slot_at (upd_ring k i (\<lambda>r. r\<lparr>rg_info := (rg_info r)[j := v]\<rparr>) s) p = ((slot_at s)((k, i, j) := v)) p"
    using assms by (cases p) (auto simp: slot_at.simps rings_upd_ring nth_list_update)
qed

lemma inj_on_map_upd_Some:
  "inj_on m (dom m) \<Longrightarrow> x \<notin> ran m \<Longrightarrow> inj_on (m(p := Some x)) (dom (m(p := Some x)))"
  by (auto simp: inj_on_def ran_def)

lemma inj_on_map_upd_None:
  assumes "inj_on m (dom m)" "m p = Some x"
  shows "inj_on (m(p := None)) (dom (m(p := None)))" "ran (m(p := None)) = ran m - {x}"
proof -
  show "inj_on (m(p := None)) (dom (m(p := None)))" using assms(1) by (auto simp: inj_on_def)
  have q: "m q \<noteq> Some x" if "q \<noteq> p" for q using assms that by (metis domI inj_onD)
  show "ran (m(p := None)) = ran m - {x}"
  proof (rule set_eqI)
    fix y
    have "y \<in> ran (m(p := None)) \<longleftrightarrow> (\<exists>a. a \<noteq> p \<and> m a = Some y)" by (auto simp: ran_def)
    also have "\<dots> \<longleftrightarrow> y \<in> ran m - {x}" proof -
      have "(\<exists>a. a \<noteq> p \<and> m a = Some y) \<longleftrightarrow> (\<exists>a. m a = Some y) \<and> y \<noteq> x"
        using q assms(2) by (metis option.inject)
      then show ?thesis by (simp add: ran_def)
    qed
    finally show "y \<in> ran (m(p := None)) \<longleftrightarrow> y \<in> ran m - {x}" .
  qed
qed

lemma owns_pool:
  assumes "owns given busy known (h, s)" "pool_from given (h', pl)" "busy' \<subseteq> packets_in_use pl"
    "ran (slot_at s) \<subseteq> packets_in_use pl - busy'"
  shows "owns given busy' known (h', s\<lparr>nic_pool := pl\<rparr>)"
proof -
  have r: "rings k (s\<lparr>nic_pool := pl\<rparr>) = rings k s" for k by (cases k) simp_all
  have "slot_at (s\<lparr>nic_pool := pl\<rparr>) p = slot_at s p" for p by (cases p) (simp add: slot_at.simps r)
  then have 1: "slot_at (s\<lparr>nic_pool := pl\<rparr>) = slot_at s" by blast
  have "valid_ref (s\<lparr>nic_pool := pl\<rparr>) x = valid_ref s x" for x by (cases x) (simp_all add: r)
  with assms 1 show ?thesis by (simp add: owns_def refs_of_def)
qed

text \<open>A buffer that has been taken is owned by the operation until it is put into a slot.\<close>

lemma owns_take_pkt:
  assumes ledger: "region_ledger hw given"
    and rest: "\<And>pkt. pkt \<notin> busy \<Longrightarrow> becomes (owns given (insert pkt busy) known) (f pkt) (owns given busy known)"
  shows "keeps (owns given busy known) (abind (take_pkt hw) f)"
  unfolding keeps_def
proof (intro allI impI)
  fix st assume inv: "owns given busy known st"
  obtain h s where st: "st = (h, s)" by fastforce
  have pool: "pool_from given (h, nic_pool s)" using inv by (simp add: owns_def st)
  obtain r h' pl where call: "alloc_pkt (hw_alloc_region hw) (h, nic_pool s) = (r, (h', pl))" by (metis prod.exhaust)
  then have take: "take_pkt hw st = (r, (h', s\<lparr>nic_pool := pl\<rparr>))" by (simp add: take_pkt_def st)
  show "owns given busy known (snd (abind (take_pkt hw) f st))"
  proof (cases r)
    case (Inl e)
    have "pl = nic_pool s \<and> given h' = given h"
      using call Inl region_ledgerD(1) [OF ledger]
      by (fastforce simp: alloc_pkt_def fresh_regions_def split: list.splits prod.splits sum.splits)
    with inv pool have "owns given busy known (h', s\<lparr>nic_pool := pl\<rparr>)"
      by (intro owns_pool [where h = h and busy = busy]) (simp_all add: st owns_def pool_from_def)
    with take Inl show ?thesis by (simp add: abind_def)
  next
    case (Inr pkt)
    note fresh = alloc_pkt_fresh [OF region_ledgerD(1) [OF ledger] pool, of pkt "(h', pl)", unfolded snd_conv]
    have in_use: "pool_from given (h', pl)" "pkt \<notin> packets_in_use (nic_pool s)"
      "packets_in_use pl = insert pkt (packets_in_use (nic_pool s))"
      using fresh call Inr by auto
    have facts: "busy \<subseteq> packets_in_use (nic_pool s)" "ran (slot_at s) \<subseteq> packets_in_use (nic_pool s) - busy"
      using inv by (simp_all add: st owns_def)
    with in_use have free: "pkt \<notin> busy" "insert pkt busy \<subseteq> packets_in_use pl"
      "ran (slot_at s) \<subseteq> packets_in_use pl - insert pkt busy" by auto
    have "owns given (insert pkt busy) known (h', s\<lparr>nic_pool := pl\<rparr>)"
      using inv in_use(1) free(2,3) unfolding st by (rule owns_pool)
    note free = free(1) this
    from rest [OF free(1)] free(2) take Inr show ?thesis by (simp add: abind_def becomes_def)
  qed
qed

lemma owns_put_slot:
  assumes "pkt \<notin> busy"
  shows "becomes (owns given (insert pkt busy) known)
    (updates (upd_ring k i (\<lambda>r. r\<lparr>rg_info := (rg_info r)[j := Some pkt]\<rparr>))) (owns given busy known)"
proof (rule becomesI)
  let ?put = "upd_ring k i (\<lambda>r. r\<lparr>rg_info := (rg_info r)[j := Some pkt]\<rparr>)"
  fix st assume inv: "owns given (insert pkt busy) known st"
  obtain h s where st: "st = (h, s)" by fastforce
  have "owns given busy known (h, ?put s)"
  proof (cases "i < length (rings k s) \<and> j < length (rg_info (rings k s ! i))")
    case True
    then have m: "slot_at (?put s) = (slot_at s)((k, i, j) := Some pkt)" by (simp add: slot_at_put)
    have "pkt \<notin> ran (slot_at s)" using inv by (auto simp: st owns_def)
    moreover have "ran ((slot_at s)((k, i, j) := Some pkt)) \<subseteq> insert pkt (ran (slot_at s))" by (auto simp: ran_def)
    ultimately show ?thesis
      using inv assms inj_on_map_upd_Some [of "slot_at s" pkt]
      unfolding owns_def fst_conv snd_conv m by (auto simp: st pool_updates refs_of_updates valid_ref_updates)
  next
    case False
    then have "(rings k s)[i := (rings k s ! i)\<lparr>rg_info := (rg_info (rings k s ! i))[j := Some pkt]\<rparr>] = rings k s"
      by (cases "i < length (rings k s)") (simp_all add: list_update_beyond)
    then have "slot_at (?put s) p = slot_at s p" for p by (cases p) (auto simp: slot_at.simps rings_upd_ring)
    then have "slot_at (?put s) = slot_at s" by blast
    with inv show ?thesis
      by (auto simp: st owns_def pool_updates refs_of_updates valid_ref_updates)
  qed
  then show "owns given busy known (snd (updates ?put st))" by (simp add: st updates_def)
qed

lemma owns_free_desc [owns_intros]:
  assumes "RingRef k i \<in> known"
  shows "keeps (owns given busy known) (free_desc k i index)"
  unfolding keeps_def
proof (intro allI impI)
  fix st assume inv: "owns given busy known st"
  obtain h s where st: "st = (h, s)" by fastforce
  let ?r = "rings k s ! i" and ?clear = "upd_ring k i (\<lambda>r. r\<lparr>rg_info := (rg_info r)[nat index := None]\<rparr>)"
  have "\<forall>x \<in> refs_of s \<union> known. valid_ref s x" using inv by (simp add: st owns_def)
  with assms have "valid_ref s (RingRef k i)" by blast
  then have i: "i < length (rings k s)" by simp
  show "owns given busy known (snd (free_desc k i index st))"
  proof (cases "nat index < length (rg_info ?r) \<and> (\<exists>p. rg_info ?r ! nat index = Some p)")
    case True
    then obtain p where j: "nat index < length (rg_info ?r)" "rg_info ?r ! nat index = Some p" by blast
    then have at: "slot_at s (k, i, nat index) = Some p" using i by (simp add: slot_at.simps)
    then have "p \<in> ran (slot_at s)" by (rule ranI)
    then have "p \<in> packets_in_use (nic_pool s)" "p \<notin> busy" using inv by (auto simp: st owns_def)
    moreover have "pool_ok (nic_pool s)" using inv by (simp add: st owns_def pool_from_def)
    ultimately obtain pl where free: "free_pkt (Some p) (nic_pool s) = Inr pl" "pool_ok pl"
      "packets_in_use pl = packets_in_use (nic_pool s) - {p}" "pl_allocated_packets pl = pl_allocated_packets (nic_pool s)"
      by (metis free_pkt_in_use)
    have run: "free_desc k i index st = (Inr (), (h, ?clear (s\<lparr>nic_pool := pl\<rparr>)))"
      using j free(1)
      by (simp add: free_desc_def st the_ring_rings info_at_def give_pkt_def reads_def updates_def athen_def abind_def)
    have r: "rings k' (s\<lparr>nic_pool := pl\<rparr>) = rings k' s" for k' by (cases k') simp_all
    have "slot_at (s\<lparr>nic_pool := pl\<rparr>) q = slot_at s q" for q by (cases q) (simp add: slot_at.simps r)
    then have "slot_at (s\<lparr>nic_pool := pl\<rparr>) = slot_at s" by blast
    then have m: "slot_at (?clear (s\<lparr>nic_pool := pl\<rparr>)) = (slot_at s)((k, i, nat index) := None)"
      using i j(1) by (subst slot_at_put) (simp_all add: r)
    have v: "valid_ref (s\<lparr>nic_pool := pl\<rparr>) x = valid_ref s x" for x by (cases x) (simp_all add: r)
    have inj: "inj_on (slot_at s) (dom (slot_at s))" using inv by (simp add: st owns_def)
    note cleared = inj_on_map_upd_None [OF inj at]
    have "owns given busy known (h, ?clear (s\<lparr>nic_pool := pl\<rparr>))"
      unfolding owns_def fst_conv snd_conv m cleared(2) pool_updates refs_of_updates valid_ref_updates v
      using inv cleared(1) free \<open>p \<notin> busy\<close>
      by (auto simp: st owns_def pool_from_def refs_of_def)
    with run show ?thesis by simp
  next
    case False
    then have "snd (free_desc k i index st) = st"
      by (auto simp: free_desc_def st the_ring_rings info_at_def give_pkt_def free_pkt_def reads_def athen_def
          abind_def split: option.splits)
    with inv show ?thesis by simp
  qed
qed


section \<open>Queues and rings\<close>

lemma owns_set_res [owns_intros]: "keeps (owns given busy known) (updates (\<lambda>s. set_res qc (f s) s))"
  by (rule keeps_harmless, rule harmless_frame) (cases qc; simp)

lemma owns_indices [owns_intros]:
  "keeps (owns given busy known) (take_index qc)"
  "keeps (owns given busy known) (give_index qc index)"
  "keeps (owns given busy known) (take_window qc index)"
  unfolding take_index_def give_index_def take_window_def
  by (auto intro!: keeps_intros owns_intros)

lemma owns_upd_eq [owns_intros]:
  "(\<And>q. eq_refs (f q) \<subseteq> eq_refs q \<union> known) \<Longrightarrow> keeps (owns given busy known) (updates (upd_eq i f))"
  by (intro keeps_harmless harmless_upd_eq)

lemma owns_upd_cq [owns_intros]:
  "(\<And>q. cq_refs (f q) \<subseteq> cq_refs q \<union> known) \<Longrightarrow> keeps (owns given busy known) (updates (upd_cq i f))"
  by (intro keeps_harmless harmless_upd_cq)

lemma owns_upd_ndev [owns_intros]: "keeps (owns given busy known) (updates (upd_ndev i f))"
  by (intro keeps_harmless harmless_upd_ndev)

lemma owns_upd_ring [owns_intros]:
  "(\<And>r j. j < length (rg_info (f r)) \<Longrightarrow> rg_info (f r) ! j \<noteq> None \<Longrightarrow>
      j < length (rg_info r) \<and> rg_info (f r) ! j = rg_info r ! j) \<Longrightarrow>
    keeps (owns given busy known) (updates (upd_ring k i f))"
  by (intro keeps_harmless harmless_upd_ring)

lemma owns_evq [owns_intros]:
  assumes "region_ledger hw given"
  shows "keeps (owns given busy known) (evq_open hw i irq qsize)"
    "keeps (owns given busy known) (evq_close hw i)"
    "keeps (owns given busy known) (evq_write_cons_ptr hw i)"
    "keeps (owns given busy known) (evq_arm hw i)"
  unfolding evq_open_def evq_close_def evq_write_cons_ptr_def evq_arm_def
  by (intro keeps_intros owns_intros assms; auto simp: eq_refs_def)+

lemma owns_detach_cq [owns_intros]: "keeps (owns given busy known) (detach_cq i cqn)"
  unfolding detach_cq_def
  by (intro keeps_intros owns_intros) (auto simp: eq_refs_def dest: subsetD [OF set_dpop])

lemma owns_attach_cq [owns_intros]:
  "CqRef j \<in> known \<Longrightarrow> keeps (owns given busy known) (attach_cq i cqn j)"
  unfolding attach_cq_def
  by (rule owns_upd_eq) (auto simp: eq_refs_def dest: subsetD [OF set_dset])

lemma owns_cpq [owns_intros]:
  assumes "region_ledger hw given"
  shows "CqRef j \<in> known \<Longrightarrow> keeps (owns given busy known) (cpq_open hw j eq qsize)"
    "keeps (owns given busy known) (cpq_close hw j)"
    "keeps (owns given busy known) (cpq_write_cons_ptr hw j)"
    "keeps (owns given busy known) (cpq_arm hw j)"
  unfolding cpq_open_def cpq_close_def cpq_write_cons_ptr_def cpq_arm_def
  by (intro keeps_intros owns_intros assms; auto simp: cq_refs_def)+

lemma owns_ring [owns_intros]:
  assumes "region_ledger hw given"
  shows "keeps (owns given busy known) (ring_enable hw k i)"
    "keeps (owns given busy known) (ring_disable hw k i)"
    "keeps (owns given busy known) (ring_read_cons_ptr hw k i)"
    "keeps (owns given busy known) (ring_write_prod_ptr hw k i)"
    "RingRef k i \<in> known \<Longrightarrow> keeps (owns given busy known) (ring_open hw k i ndev cq qsize block)"
    "keeps (owns given busy known) (ring_close hw k i)"
  unfolding ring_enable_def ring_disable_def ring_read_cons_ptr_def ring_write_prod_ptr_def ring_open_def ring_close_def
  by (intro keeps_intros owns_intros assms; auto simp: cq_refs_def)+

end
