(* ===== verification/Nic_Ownership_Ops.thy ===== *)
theory Nic_Ownership_Ops
  imports Nic_Ownership
begin

text \<open>
  Every operation of the NIC driver keeps the ownership invariant: descriptors, completion and event
  handling, transmission, opening and closing a net device, bringing up an interface.
\<close>


section \<open>Receive descriptors\<close>

lemma owns_prepare_desc [owns_intros]:
  assumes "region_ledger hw given"
  shows "keeps (owns given busy known) (prepare_desc hw i index)"
  unfolding prepare_desc_def
proof (rule owns_take_pkt [OF assms])
  fix pkt :: 'b
  assume fresh: "pkt \<notin> busy"
  have weaken: "owns given (insert pkt busy) known s \<Longrightarrow> owns given busy known s" for s
    by (rule owns_weaken) auto
  show "becomes (owns given (insert pkt busy) known)
    (abind (reads (the_ring RX i)) (\<lambda>r.
       athen (aguard (nat index < length (rg_info r)) IndexError) (
       athen (updates (upd_ring RX i (\<lambda>r. r\<lparr>rg_info := (rg_info r)[nat index := Some pkt]\<rparr>))) (
       abind (aneed TypeError (rg_buf_region r)) (\<lambda>region.
         afor (enumerate 0 (rx_segments (nat (rg_desc_block_size r)) (hw_size hw pkt) 0)) (\<lambda>(n, s).
           abind (alift (rx_descriptor (hw_address hw pkt) s)) (\<lambda>bs.
             mem_store hw region (index * rg_stride r + int n * MQNIC_DESC_SIZE) bs)))))))
    (owns given busy known)"
    by (intro becomes_abind becomes_athen becomes_athen_keeps owns_put_slot fresh weaken
        keeps_intros owns_intros assms)
qed

lemma owns_refill [owns_intros]:
  assumes "region_ledger hw given"
  shows "keeps (owns given busy known) (refill_buffers hw i)"
  unfolding refill_buffers_def refill_one_def
  by (intro keeps_intros owns_intros assms) auto


section \<open>Completions\<close>

definition keepsp :: "('s \<Rightarrow> bool) \<Rightarrow> ('s \<Rightarrow> ((py_error + 'a) \<times> 's) option) \<Rightarrow> bool" where
  "keepsp I m \<longleftrightarrow> (\<forall>s r s'. I s \<longrightarrow> m s = Some (r, s') \<longrightarrow> I s')"

named_theorems keepsp_intros \<open>invariant rules of operations that may not return\<close>

lemma keepsp_consume [keepsp_intros]:
  assumes "\<And>p. keepsp I (step p)"
  shows "keepsp I (consume busy step p)"
  unfolding keepsp_def
proof (intro allI impI)
  fix s r s' assume start: "I s" and ret: "consume busy step p s = Some (r, s')"
  have "(\<forall>p. keepsp I (step p)) \<longrightarrow> I s \<longrightarrow> I (snd (r, s'))"
  proof (rule consume.raw_induct [where P = "\<lambda>busy step p s x. (\<forall>p. keepsp I (step p)) \<longrightarrow> I s \<longrightarrow> I (snd x)", OF _ ret])
    fix f busy step p s x
    assume IH: "\<And>busy step p s x. f busy step p s = Some x \<Longrightarrow> (\<forall>p. keepsp I (step p)) \<longrightarrow> I s \<longrightarrow> I (snd x)"
      and eq: "(if \<not> busy p s then Some (Inr p, s)
        else Option.bind (step p s) (\<lambda>(r, s'). case r of Inl e \<Rightarrow> Some (Inl e, s') | Inr _ \<Rightarrow> f busy step (p + 1) s')) = Some x"
    show "(\<forall>p. keepsp I (step p)) \<longrightarrow> I s \<longrightarrow> I (snd x)"
    proof (intro impI)
      assume k: "\<forall>p. keepsp I (step p)" and s: "I s"
      show "I (snd x)"
      proof (cases "busy p s")
        case True
        with eq obtain r1 s1 where call: "step p s = Some (r1, s1)"
          and rest: "(case r1 of Inl e \<Rightarrow> Some (Inl e, s1) | Inr _ \<Rightarrow> f busy step (p + 1) s1) = Some x"
          by (auto simp: bind_eq_Some_conv)
        from call k s have "I s1" unfolding keepsp_def by blast
        with rest IH k show ?thesis by (auto split: sum.splits)
      qed (use eq s in auto)
    qed
  qed
  with assms start show "I s'" by simp
qed

lemma keepsp_total [keepsp_intros]: "keeps I (step p) \<Longrightarrow> keepsp I (total step p)"
  by (force simp: keepsp_def keeps_def total_def)

lemma keepsp_Some [keepsp_intros]: "keeps I k \<Longrightarrow> keepsp I (\<lambda>st. Some (k st))"
  by (force simp: keepsp_def keeps_def)

lemma keepspD: "keepsp I m \<Longrightarrow> I s \<Longrightarrow> m s = Some (r, s') \<Longrightarrow> I s'"
  by (force simp: keepsp_def)

lemma after_Some:
  "after m f = Some (r, s') \<longleftrightarrow>
     (\<exists>a s1. m = Some (a, s1) \<and> (case a of Inl e \<Rightarrow> r = Inl e \<and> s' = s1 | Inr p \<Rightarrow> f p s1 = Some (r, s')))"
  by (cases m; simp add: after_def; rename_tac p; case_tac p; rename_tac a s1; case_tac a) auto

lemma and_then_Some:
  "and_then m k = Some (r, s') \<longleftrightarrow>
     (\<exists>a s1. m = Some (a, s1) \<and> (case a of Inl e \<Rightarrow> r = Inl e \<and> s' = s1 | Inr _ \<Rightarrow> k s1 = (r, s')))"
  by (cases m; simp add: and_then_def; rename_tac p; case_tac p; rename_tac a s1; case_tac a) auto

lemma keepsp_after [keepsp_intros]:
  assumes "keepsp I m" "\<And>p. keepsp I (f p)"
  shows "keepsp I (\<lambda>st. after (m st) f)"
  unfolding keepsp_def after_Some
proof (intro allI impI, elim exE conjE)
  fix s r s' a s1
  assume "I s" "m s = Some (a, s1)"
    and rest: "case a of Inl e \<Rightarrow> r = Inl e \<and> s' = s1 | Inr p \<Rightarrow> f p s1 = Some (r, s')"
  then have "I s1" using keepspD [OF assms(1)] by blast
  with rest show "I s'" using keepspD [OF assms(2)] by (cases a) auto
qed

lemma keepsp_and_then [keepsp_intros]:
  assumes "keepsp I m" "keeps I k"
  shows "keepsp I (\<lambda>st. and_then (m st) k)"
  unfolding keepsp_def and_then_Some
proof (intro allI impI, elim exE conjE)
  fix s r s' a s1
  assume "I s" "m s = Some (a, s1)"
    and rest: "case a of Inl e \<Rightarrow> r = Inl e \<and> s' = s1 | Inr _ \<Rightarrow> k s1 = (r, s')"
  then have "I s1" using keepspD [OF assms(1)] by blast
  with rest show "I s'" using keepsD [OF assms(2)] by (cases a) auto
qed

lemma keepsp_in_turn [keepsp_intros]:
  "(\<And>x. x \<in> set xs \<Longrightarrow> keepsp I (f x)) \<Longrightarrow> keepsp I (in_turn f xs)"
proof (induction xs)
  case Nil
  then show ?case by (simp add: keepsp_def)
next
  case (Cons x xs)
  then have k: "keepsp I (f x)" "keepsp I (in_turn f xs)" by simp_all
  show ?case
    unfolding keepsp_def
  proof (intro allI impI)
    fix s r s' assume s: "I s" and run: "in_turn f (x # xs) s = Some (r, s')"
    from run obtain a s1 where call: "f x s = Some (a, s1)" by (auto simp: bind_eq_Some_conv)
    with k(1) s have "I s1" by (rule keepspD)
    with run call show "I s'" using keepspD [OF k(2)] by (cases a) auto
  qed
qed

lemma owns_know:
  assumes "owns given busy known st" "known' \<subseteq> refs_of (snd st)"
  shows "owns given busy (known \<union> known') st"
  using assms by (auto simp: owns_def)

lemma owns_forget: "owns given busy (known \<union> known') st \<Longrightarrow> owns given busy known st"
  by (rule owns_weaken) auto

text \<open>What a handler finds first: the source ring of the completion queue is a ring.\<close>

lemma handler_context_run:
  "snd (handler_context j st) = st"
  "handler_context j st = (Inr (Some (q, ring, d)), st') \<Longrightarrow>
     q = nic_cqs (snd st) ! j \<and> cpq_src_ring q = Some ring"
  by (cases st; force simp: handler_context_def reads_def abind_def aneed_def split: option.splits if_splits)+

lemma owns_clean_ring: "keepsp (owns given busy known) (clean_ring ring)"
  unfolding keepsp_def
proof (intro allI impI)
  fix st r st' assume inv: "owns given busy known st" and run: "clean_ring ring st = Some (r, st')"
  then obtain p where "updates (upd_ring (fst ring) (snd ring) (\<lambda>r. r\<lparr>rg_cons_ptr := p\<rparr>)) st = (r, st')"
    by (auto simp: clean_ring_def Let_def)
  moreover have "keeps (owns given busy known) (updates (upd_ring (fst ring) (snd ring) (\<lambda>r. r\<lparr>rg_cons_ptr := p\<rparr>)))"
    by (intro owns_intros) auto
  ultimately show "owns given busy known st'" using inv by (metis keepsD)
qed

lemma owns_process_cq:
  assumes ledger: "region_ledger hw given" and cq: "CqRef j \<in> known"
    and step: "\<And>q region ring d p known'. RingRef (fst ring) (snd ring) \<in> known' \<Longrightarrow>
      keeps (owns given busy known') (step q region ring d p)"
    and finish: "\<And>ring known'. keeps (owns given busy known') (finish ring)"
  shows "keepsp (owns given busy known) (process_cq hw step finish j)"
  unfolding keepsp_def
proof (intro allI impI)
  fix st r st' assume inv: "owns given busy known st" and run: "process_cq hw step finish j st = Some (r, st')"
  obtain c st1 where ctx: "handler_context j st = (c, st1)" by (cases "handler_context j st")
  then have same: "st1 = st" using handler_context_run(1) [of j st] by simp
  show "owns given busy known st'"
  proof (cases "\<exists>q ring d region. c = Inr (Some (q, ring, d)) \<and> cpq_buf_region q = Some region")
    case True
    then obtain q ring d region where c: "c = Inr (Some (q, ring, d))" "cpq_buf_region q = Some region" by blast
    let ?known = "known \<union> {RingRef (fst ring) (snd ring)}"
    have q: "q = nic_cqs (snd st) ! j" "cpq_src_ring q = Some ring"
      using handler_context_run(2) ctx c(1) by blast+
    have "\<forall>x \<in> refs_of (snd st) \<union> known. valid_ref (snd st) x" using inv by (simp add: owns_def)
    with cq have "valid_ref (snd st) (CqRef j)" by blast
    then have "q \<in> set (nic_cqs (snd st))" using q(1) by simp
    moreover have "RingRef (fst ring) (snd ring) \<in> cq_refs q"
      using q(2) by (cases ring) (simp add: cq_refs_def)
    ultimately have "RingRef (fst ring) (snd ring) \<in> refs_of (snd st)" by (auto simp: refs_of_def)
    with inv have known: "owns given busy ?known st" by (intro owns_know) auto
    have "keepsp (owns given busy ?known) (\<lambda>st.
        after (consume (\<lambda>p st. completion_valid hw q region p (fst st)) (total (step q region ring d)) (cpq_cons_ptr q) st)
          (\<lambda>p st2. case athen (updates (upd_cq j (\<lambda>q. q\<lparr>cpq_cons_ptr := p\<rparr>))) (cpq_write_cons_ptr hw j) st2 of
             (Inl e, st3) \<Rightarrow> Some (Inl e, st3)
           | (Inr _, st3) \<Rightarrow> Option.bind (clean_ring ring st3) (\<lambda>(r, st4). Some (finish ring st4))))"
      (is "keepsp _ ?m")
    proof (intro keepsp_intros step)
      fix p
      have k: "keeps (owns given busy ?known)
          (athen (updates (upd_cq j (\<lambda>q. q\<lparr>cpq_cons_ptr := p\<rparr>))) (cpq_write_cons_ptr hw j))"
        by (intro keeps_intros owns_intros ledger) (auto simp: cq_refs_def)
      show "keepsp (owns given busy ?known) (\<lambda>st2.
          case athen (updates (upd_cq j (\<lambda>q. q\<lparr>cpq_cons_ptr := p\<rparr>))) (cpq_write_cons_ptr hw j) st2 of
             (Inl e, st3) \<Rightarrow> Some (Inl e, st3)
           | (Inr _, st3) \<Rightarrow> Option.bind (clean_ring ring st3) (\<lambda>(r, st4). Some (finish ring st4)))"
        unfolding keepsp_def
      proof (intro allI impI, goal_cases)
        case (1 s r s')
        obtain r3 st3 where mid: "athen (updates (upd_cq j (\<lambda>q. q\<lparr>cpq_cons_ptr := p\<rparr>))) (cpq_write_cons_ptr hw j) s = (r3, st3)"
          by (metis surj_pair)
        from keepsD [OF k 1(1) mid] have inv3: "owns given busy ?known st3" .
        show ?case
        proof (cases r3)
          case (Inl e)
          with 1(2) mid inv3 show ?thesis by simp
        next
          case (Inr x)
          with 1(2) mid obtain r4 st4 where clean: "clean_ring ring st3 = Some (r4, st4)" "finish ring st4 = (r, s')"
            by (auto simp: bind_eq_Some_conv)
          have "owns given busy ?known st4" by (rule keepspD [OF owns_clean_ring inv3 clean(1)])
          then show ?thesis using keepsD [OF finish _ clean(2)] by blast
        qed
      qed
    qed simp
    moreover have "?m st = Some (r, st')" using run ctx c same by (simp add: process_cq_def)
    ultimately have "owns given busy ?known st'" using known by (blast intro: keepspD)
    then show ?thesis by (rule owns_forget)
  next
    case False
    with run ctx same inv show ?thesis
      by (auto simp: process_cq_def split: sum.splits option.splits)
  qed
qed

lemma owns_completion_steps [owns_intros]:
  assumes "RingRef (fst ring) (snd ring) \<in> known"
  shows "keeps (owns given busy known) (tx_completion_step hw q region ring p)"
    "keeps (owns given busy known) (rx_completion_step hw q region ring d p)"
  unfolding tx_completion_step_def rx_completion_step_def
  by (intro keeps_intros owns_intros assms)+

lemma owns_handlers [keepsp_intros]:
  assumes "region_ledger hw given" "CqRef j \<in> known"
  shows "keepsp (owns given busy known) (process_tx_cq hw j)"
    "keepsp (owns given busy known) (process_rx_cq hw j)"
  unfolding process_tx_cq_def process_rx_cq_def
  by (intro owns_process_cq owns_intros assms; simp)+

lemma owns_run_handler [keepsp_intros]:
  assumes "region_ledger hw given" "CqRef j \<in> known"
  shows "keepsp (owns given busy known) (run_handler hw handler j)"
proof (cases handler)
  case None
  then show ?thesis by (simp add: keepsp_def)
next
  case (Some k)
  have "run_handler hw (Some TX) j = process_tx_cq hw j" "run_handler hw (Some RX) j = process_rx_cq hw j"
    by (simp_all add: fun_eq_iff)
  with Some owns_handlers [OF assms] show ?thesis by (cases k) simp_all
qed


section \<open>Events\<close>

lemma owns_event_step:
  assumes "region_ledger hw given" "eq_refs q \<subseteq> known"
  shows "keepsp (owns given busy known) (event_step hw q region p)"
  unfolding keepsp_def
proof (intro allI impI)
  fix st r st' assume inv: "owns given busy known st" and run: "event_step hw q region p st = Some (r, st')"
  show "owns given busy known st'"
  proof (cases "\<exists>j. le_field 2 0 (event_bytes hw q region p (fst st)) = MQNIC_EVENT_TYPE_CPL \<and>
      dget (evq_cq_table q) (le_field 2 2 (event_bytes hw q region p (fst st))) = Some j")
    case True
    then obtain j where ev: "le_field 2 0 (event_bytes hw q region p (fst st)) = MQNIC_EVENT_TYPE_CPL"
      and j: "dget (evq_cq_table q) (le_field 2 2 (event_bytes hw q region p (fst st))) = Some j" by blast
    from dget_in_set [OF j] have "CqRef j \<in> eq_refs q" by (force simp: eq_refs_def)
    with assms(2) have "CqRef j \<in> known" by blast
    then have "keepsp (owns given busy known)
        (\<lambda>st'. and_then (run_handler hw (cpq_handler (nic_cqs (snd st) ! j)) j st') (cpq_arm hw j))"
      by (intro keepsp_intros owns_intros assms)
    moreover have "and_then (run_handler hw (cpq_handler (nic_cqs (snd st) ! j)) j st) (cpq_arm hw j) = Some (r, st')"
      using run ev j by (simp add: event_step_def Let_def)
    ultimately show ?thesis using inv by (blast intro: keepspD)
  next
    case False
    with run inv show ?thesis by (auto simp: event_step_def Let_def split: if_splits option.splits)
  qed
qed

lemma owns_process_eq [keepsp_intros]:
  assumes ledger: "region_ledger hw given" and eq: "EqRef i \<in> known"
  shows "keepsp (owns given busy known) (process_eq hw i)"
  unfolding keepsp_def
proof (intro allI impI)
  fix st r st' assume inv: "owns given busy known st" and run: "process_eq hw i st = Some (r, st')"
  let ?q = "nic_eqs (snd st) ! i"
  show "owns given busy known st'"
  proof (cases "evq_buf_region ?q")
    case None
    with run inv show ?thesis by (simp add: process_eq_def)
  next
    case (Some region)
    let ?known = "known \<union> eq_refs ?q"
    have "\<forall>x \<in> refs_of (snd st) \<union> known. valid_ref (snd st) x" using inv by (simp add: owns_def)
    with eq have "valid_ref (snd st) (EqRef i)" by blast
    then have "?q \<in> set (nic_eqs (snd st))" by simp
    then have "eq_refs ?q \<subseteq> refs_of (snd st)" by (auto simp: refs_of_def)
    with inv have known: "owns given busy ?known st" by (rule owns_know)
    have "keepsp (owns given busy ?known) (\<lambda>st.
        after (consume (\<lambda>p st. event_valid hw ?q region p (fst st)) (event_step hw ?q region) (evq_cons_ptr ?q) st)
          (\<lambda>p st'. Some (athen (updates (upd_eq i (\<lambda>q. q\<lparr>evq_cons_ptr := p\<rparr>))) (evq_write_cons_ptr hw i) st')))"
      (is "keepsp _ ?m")
      by (intro keepsp_intros keeps_intros owns_intros owns_event_step ledger) (auto simp: eq_refs_def)
    moreover have "?m st = Some (r, st')" using run Some by (simp add: process_eq_def Let_def)
    ultimately have "owns given busy ?known st'" using known by (blast intro: keepspD)
    then show ?thesis by (rule owns_forget)
  qed
qed

lemma owns_serve_eq [keepsp_intros]:
  assumes "region_ledger hw given" "EqRef i \<in> known"
  shows "keepsp (owns given busy known) (serve_eq hw irq i)"
proof -
  have "keepsp (owns given busy known) (\<lambda>st. and_then (process_eq hw i st) (evq_arm hw i))"
    by (intro keepsp_intros owns_intros assms)
  then show ?thesis by (auto simp: keepsp_def serve_eq_def)
qed


section \<open>Transmission and reception\<close>

lemma owns_xmit_send [owns_intros]:
  assumes "region_ledger hw given"
  shows "keeps (owns given busy known) (xmit_send hw i data csum_start csum_offset)"
proof -
  have weaken: "owns given (insert pkt busy) known s \<Longrightarrow> owns given busy known s" for pkt s
    by (rule owns_weaken) auto
  show ?thesis
    unfolding xmit_send_def Let_def
    by (intro keeps_abind keeps_athen owns_upd_ring owns_reads owns_take_pkt assms;
        (intro becomes_abind becomes_athen becomes_athen_keeps owns_put_slot weaken
          keeps_intros owns_intros assms; assumption?)?) auto
qed

lemma owns_transmission [owns_intros]:
  assumes "region_ledger hw given"
  shows "keeps (owns given busy known) (xmit_attempt hw i data csum_start csum_offset)"
    "keeps (owns given busy known) (resume_xmit hw i data csum_start csum_offset)"
    "keeps (owns given busy known) (start_xmit hw d data tx_ring csum_start csum_offset)"
  unfolding xmit_attempt_def resume_xmit_def start_xmit_def the_ndev_def
  by (intro keeps_intros owns_intros assms; auto)+

lemma owns_reception [owns_intros]:
  "keeps (owns given busy known) (recv_nowait d)"
  "keeps (owns given busy known) (recv_wait d)"
  "keeps (owns given busy known) (ndev_recv d)"
proof -
  show nowait: "keeps (owns given busy known) (recv_nowait d)" for given :: "'a \<Rightarrow> 'b set" and busy known
    unfolding recv_nowait_def the_ndev_def
    by (intro keeps_intros owns_intros) (auto split: list.split intro!: keeps_intros owns_intros)
  show wait: "keeps (owns given busy known) (recv_wait d)" for given :: "'c \<Rightarrow> 'd set" and busy known
    unfolding recv_wait_def the_ndev_def by (intro keeps_intros owns_intros)
  show "keeps (owns given busy known) (ndev_recv d)"
    unfolding ndev_recv_def by (intro keeps_intros nowait wait)
qed


section \<open>Ports and schedulers\<close>

lemma owns_frame:
  assumes "\<And>s. nic_pool (f s) = nic_pool s \<and> nic_eq (f s) = nic_eq s \<and> nic_eqs (f s) = nic_eqs s \<and>
    nic_cqs (f s) = nic_cqs s \<and> nic_txqs (f s) = nic_txqs s \<and> nic_rxqs (f s) = nic_rxqs s"
  shows "keeps (owns given busy known) (updates f)"
  by (rule keeps_harmless, rule harmless_frame, rule assms)

lemma owns_upd_parts [owns_intros]:
  "keeps (owns given busy known) (updates (upd_sched n f))"
  "keeps (owns given busy known) (updates (upd_port k g))"
  "keeps (owns given busy known) (updates (upd_block k u))"
  by (rule owns_frame, simp add: upd_sched_def upd_port_def upd_block_def)+

lemma owns_with_sched [owns_intros]:
  "(\<And>sc. keeps (owns given busy known) (f sc)) \<Longrightarrow> keeps (owns given busy known) (with_sched n f)"
  unfolding with_sched_def by (intro keeps_intros owns_intros)

lemma owns_port_ops [owns_intros]:
  assumes "region_ledger hw given"
  shows "keeps (owns given busy known) (port_get hw k reg)"
    "keeps (owns given busy known) (port_set hw k reg val)"
    "keeps (owns given busy known) (set_tx_ctrl hw k val)"
    "keeps (owns given busy known) (set_rx_ctrl hw k val)"
    "keeps (owns given busy known) (set_lfc_ctrl hw k val)"
    "keeps (owns given busy known) (set_pfc_ctrl hw k index val)"
  unfolding port_get_def port_set_def port_ctrl_def set_tx_ctrl_def set_rx_ctrl_def set_lfc_ctrl_def set_pfc_ctrl_def
  by (intro keeps_intros owns_intros assms)+

lemma owns_queue_ctrl [owns_intros]:
  assumes "region_ledger hw given"
  shows "keeps (owns given busy known) (set_queue_ctrl hw n queue val)"
    "keeps (owns given busy known) (sp_enable_queue hw p queue)"
    "keeps (owns given busy known) (sp_disable_queue hw p queue)"
    "keeps (owns given busy known) (disable_all_queues hw n)"
  unfolding set_queue_ctrl_def queue_reg_def sp_enable_queue_def sp_disable_queue_def enable_queue_def
    disable_queue_def enable_queue_port_def disable_queue_port_def disable_all_queues_def
  by (intro keeps_intros owns_intros assms)+

lemma owns_channels [owns_intros]:
  assumes "region_ledger hw given"
  shows "keeps (owns given busy known) (sp_set_ch_dest hw p tc val)"
    "keeps (owns given busy known) (sp_set_ch_pkt_budget hw p tc val)"
    "keeps (owns given busy known) (sp_set_ch_data_budget hw p tc val)"
    "keeps (owns given busy known) (sp_set_ch_pkt_limit hw p tc val)"
    "keeps (owns given busy known) (sp_set_ch_data_limit hw p tc val)"
    "keeps (owns given busy known) (sp_enable_ch hw p tc)"
    "keeps (owns given busy known) (sp_disable_ch hw p tc)"
  unfolding sp_set_ch_dest_def sp_set_ch_pkt_budget_def sp_set_ch_data_budget_def sp_set_ch_pkt_limit_def
    sp_set_ch_data_limit_def sp_enable_ch_def sp_disable_ch_def set_ch_dest_def set_ch_pkt_budget_def
    set_ch_data_budget_def set_ch_pkt_limit_def set_ch_data_limit_def enable_ch_def disable_ch_def set_ch_ctrl_def
  by (intro keeps_intros owns_intros assms)+

lemma keeps_case_kind: "keeps I m \<Longrightarrow> keeps I k \<Longrightarrow> keeps I (case x of RoundRobin \<Rightarrow> m | Tdma \<Rightarrow> k)"
  by (cases x) simp_all

lemma owns_sched [owns_intros]:
  assumes "region_ledger hw given"
  shows "keeps (owns given busy known) (sched_enable hw n)"
    "keeps (owns given busy known) (sched_disable hw n)"
    "keeps (owns given busy known) (sp_enable hw p)"
    "keeps (owns given busy known) (sp_disable hw p)"
  unfolding sp_enable_def sp_disable_def sched_enable_def sched_disable_def sched_hook_def set_ctrl_def
  by (intro keeps_intros keeps_case_kind owns_intros assms)+

lemma enumerate_given:
  assumes "region_ledger hw given"
  shows "given (snd (snd (enumerate_reg_blocks (\<lambda>a. hw_read hw (base + a)) off blocks h))) = given h"
proof (induction "\<lambda>a. hw_read hw (base + a)" off blocks h rule: enumerate_reg_blocks.induct)
  case (1 offset blocks h)
  note read = region_ledgerD(2) [OF assms]
  obtain ty h1 where r1: "hw_read hw (base + (offset + MQNIC_RB_REG_TYPE)) h = (ty, h1)" by (metis surj_pair)
  obtain ve h2 where r2: "hw_read hw (base + (offset + MQNIC_RB_REG_VER)) h1 = (ve, h2)" by (metis surj_pair)
  obtain np h3 where r3: "hw_read hw (base + (offset + MQNIC_RB_REG_NEXT_PTR)) h2 = (np, h3)" by (metis surj_pair)
  have "given h3 = given h" using r1 r2 r3 read by (metis snd_conv)
  with 1 r1 r2 r3 show ?case by (subst enumerate_reg_blocks.simps) (simp add: Let_def)
qed

lemma owns_walk_blocks:
  assumes "region_ledger hw given" "\<And>blocks. keeps (owns given busy known) (updates (store blocks))"
  shows "keeps (owns given busy known) (walk_blocks hw offset store)"
proof -
  show ?thesis
    unfolding walk_blocks_def
  proof (intro keeps_intros owns_intros owns_hardware assms)
    fix base h
    show "given h \<subseteq> given (snd (case enumerate_reg_blocks (\<lambda>a. hw_read hw (base + a)) offset [] h of
        (r, blocks, h') \<Rightarrow> (Inr (r, blocks), h')))"
      using enumerate_given [OF assms(1), of base offset "[]" h] by (auto split: prod.split)
  qed
qed

lemma owns_register_ports:
  "keeps (owns given busy known) (afor ks (\<lambda>k. updates (\<lambda>s.
     (upd_sched n (\<lambda>sc. sc\<lparr>sch_sched_ports := sch_sched_ports sc @ [(n, k)]\<rparr>) s)
       \<lparr>nic_sched_pool := register_sched_port (n, k) (nic_sched_pool s)\<rparr>)))"
  by (intro keeps_intros owns_frame) (simp add: upd_sched_def)

lemma owns_init_parts [owns_intros]:
  assumes "region_ledger hw given"
  shows "keeps (owns given busy known) (port_init hw k)"
    "keeps (owns given busy known) (round_robin_init hw n)"
    "keeps (owns given busy known) (tdma_init hw n)"
  unfolding port_init_def round_robin_init_def tdma_init_def Let_def
  by (intro keeps_intros owns_walk_blocks owns_intros owns_register_ports assms)+

lemma owns_sched_init [owns_intros]:
  "region_ledger hw given \<Longrightarrow> keeps (owns given busy known) (sched_init hw kind n)"
  by (cases kind) (simp_all add: owns_init_parts)

lemma owns_sched_block_init [owns_intros]:
  assumes "region_ledger hw given"
  shows "keeps (owns given busy known) (sched_block_init hw k)"
  unfolding sched_block_init_def create_sched_def
  by (intro keeps_intros owns_walk_blocks owns_intros assms owns_frame) simp


section \<open>Net devices and interfaces\<close>

text \<open>A new object: the operations after its creation may refer to it.\<close>

lemma owns_created:
  assumes f: "\<And>s. nic_pool (f s) = nic_pool s" "\<And>s. slot_at (f s) = slot_at s"
    "\<And>s. refs_of (f s) = refs_of s" "\<And>s x. valid_ref s x \<Longrightarrow> valid_ref (f s) x" "\<And>s. valid_ref (f s) (ref (x0 s))"
    and rest: "\<And>x. keeps (owns given busy (insert (ref x) known)) (k x)"
  shows "keeps (owns given busy known) (abind (reads x0) (\<lambda>x. athen (updates f) (k x)))"
  unfolding keeps_def
proof (intro allI impI)
  fix st assume inv: "owns given busy known st"
  let ?x = "x0 (snd st)"
  have "owns given busy (insert (ref ?x) known) (fst st, f (snd st))"
    using inv f by (auto simp: owns_def)
  with rest have "owns given busy (insert (ref ?x) known) (snd (k ?x (fst st, f (snd st))))"
    unfolding keeps_def by blast
  then have "owns given busy known (snd (k ?x (fst st, f (snd st))))" by (rule owns_weaken) auto
  then show "owns given busy known (snd (abind (reads x0) (\<lambda>x. athen (updates f) (k x)) st))"
    by (cases st) (simp add: reads_def updates_def)
qed

lemma slot_at_appended:
  "slot_at (s\<lparr>nic_txqs := nic_txqs s @ [new_ring]\<rparr>) = slot_at s"
  "slot_at (s\<lparr>nic_rxqs := nic_rxqs s @ [new_ring]\<rparr>) = slot_at s"
  "slot_at (s\<lparr>nic_cqs := cqs\<rparr>) = slot_at s"
  "slot_at (s\<lparr>nic_eqs := eqs\<rparr>) = slot_at s"
  by (rule ext; rename_tac p; case_tac p; rename_tac k i j; case_tac k;
      auto simp: slot_at.simps nth_append new_ring_def)+

lemma length_rings_appended:
  "i < length (rings k s) \<Longrightarrow> i < length (rings k (s\<lparr>nic_txqs := nic_txqs s @ [r]\<rparr>))"
  "i < length (rings k s) \<Longrightarrow> i < length (rings k (s\<lparr>nic_rxqs := nic_rxqs s @ [r]\<rparr>))"
  "i < length (rings k s) \<Longrightarrow> i < length (rings k (s\<lparr>nic_cqs := cqs\<rparr>))"
  "i < length (rings k s) \<Longrightarrow> i < length (rings k (s\<lparr>nic_eqs := eqs\<rparr>))"
  by (cases k; simp)+

lemma valid_ref_appended:
  "valid_ref s x \<Longrightarrow> valid_ref (s\<lparr>nic_txqs := nic_txqs s @ [r]\<rparr>) x"
  "valid_ref s x \<Longrightarrow> valid_ref (s\<lparr>nic_rxqs := nic_rxqs s @ [r]\<rparr>) x"
  "valid_ref s x \<Longrightarrow> valid_ref (s\<lparr>nic_cqs := nic_cqs s @ [c]\<rparr>) x"
  "valid_ref s x \<Longrightarrow> valid_ref (s\<lparr>nic_eqs := nic_eqs s @ [q]\<rparr>) x"
  by (cases x; simp add: length_rings_appended)+

lemma owns_new_cq:
  "(\<And>j. keeps (owns given busy (insert (CqRef j) known)) (k j)) \<Longrightarrow>
    keeps (owns given busy known) (abind (reads (\<lambda>s. length (nic_cqs s)))
      (\<lambda>j. athen (updates (\<lambda>s. s\<lparr>nic_cqs := nic_cqs s @ [new_completion_queue]\<rparr>)) (k j)))"
  by (rule owns_created [where ref = CqRef])
    (auto simp: slot_at_appended valid_ref_appended refs_of_def cq_refs_def new_completion_queue_def)

lemma owns_new_txq:
  "(\<And>i. keeps (owns given busy (insert (RingRef TX i) known)) (k i)) \<Longrightarrow>
    keeps (owns given busy known) (abind (reads (\<lambda>s. length (nic_txqs s)))
      (\<lambda>i. athen (updates (\<lambda>s. s\<lparr>nic_txqs := nic_txqs s @ [new_ring]\<rparr>)) (k i)))"
  by (rule owns_created [where ref = "RingRef TX"]) (auto simp: slot_at_appended valid_ref_appended refs_of_def)

lemma owns_new_rxq:
  "(\<And>i. keeps (owns given busy (insert (RingRef RX i) known)) (k i)) \<Longrightarrow>
    keeps (owns given busy known) (abind (reads (\<lambda>s. length (nic_rxqs s)))
      (\<lambda>i. athen (updates (\<lambda>s. s\<lparr>nic_rxqs := nic_rxqs s @ [new_ring]\<rparr>)) (k i)))"
  by (rule owns_created [where ref = "RingRef RX"]) (auto simp: slot_at_appended valid_ref_appended refs_of_def)

lemma owns_open_queues [owns_intros]:
  assumes "region_ledger hw given"
  shows "keeps (owns given busy known) (open_cq hw k)"
    "keeps (owns given busy known) (open_rxq hw d k)"
    "keeps (owns given busy known) (open_txq hw d k)"
proof -
  show cq: "keeps (owns given busy known) (open_cq hw k)" for known
    unfolding open_cq_def by (intro owns_new_cq keeps_intros owns_intros assms) auto
  show "keeps (owns given busy known) (open_rxq hw d k)"
    unfolding open_rxq_def rxq_open_def the_ndev_def
    by (rule keeps_abind [OF cq], intro owns_new_rxq keeps_intros owns_intros assms) auto
  show "keeps (owns given busy known) (open_txq hw d k)"
    unfolding open_txq_def the_ndev_def
    by (rule keeps_abind [OF cq], intro owns_new_txq keeps_intros owns_intros assms) auto
qed

lemma owns_queue_map [owns_intros]:
  assumes "region_ledger hw given"
  shows "keeps (owns given busy known) (set_rx_queue_map_rss_mask hw port val)"
    "keeps (owns given busy known) (set_rx_queue_map_app_mask hw port val)"
    "keeps (owns given busy known) (set_rx_queue_map_indir_table hw port index val)"
    "keeps (owns given busy known) (update_rx_queue_map_indir_table hw d)"
  unfolding set_rx_queue_map_rss_mask_def set_rx_queue_map_app_mask_def queue_map_reg_def the_ndev_def
    set_rx_queue_map_indir_table_def indir_table_reg_def update_rx_queue_map_indir_table_def
  by (intro keeps_intros owns_intros assms)+

lemma owns_take_sched_port [owns_intros]: "keeps (owns given busy known) take_sched_port"
  unfolding take_sched_port_def by (intro keeps_intros owns_intros owns_frame) simp

lemma owns_configure_sched_port [owns_intros]:
  "region_ledger hw given \<Longrightarrow> keeps (owns given busy known) (configure_sched_port hw p n)"
  unfolding configure_sched_port_def by (intro keeps_intros owns_intros)

lemma owns_ndev [owns_intros]:
  assumes "region_ledger hw given"
  shows "keeps (owns given busy known) (ndev_open hw d)"
    "keeps (owns given busy known) (ndev_close d)"
  unfolding ndev_open_def ndev_close_def the_ndev_def rxq_enable_def
  by (intro keeps_intros owns_intros assms)+

lemma owns_find_block [owns_intros]: "keeps (owns given busy known) (find_block ty version index)"
  unfolding find_block_def by (rule owns_reads)

lemma owns_init_steps [owns_intros]:
  assumes "region_ledger hw given"
  shows "keeps (owns given busy known) (block_read hw rb reg)"
    "keeps (owns given busy known) (set_mtu hw mtu)"
    "keeps (owns given busy known) (init_resource hw qc rb regs limit)"
    "keeps (owns given busy known) (quiesce hw qc ctrl_reg)"
  unfolding block_read_def set_mtu_def init_resource_def quiesce_def
  by (intro keeps_intros owns_intros assms)+

lemma owns_init_eq [owns_intros]:
  assumes "region_ledger hw given"
  shows "keeps (owns given busy known) (init_eq hw k)"
proof -
  have listed: "EqRef i \<in> known \<Longrightarrow> keeps (owns given busy known) (updates (\<lambda>s. s\<lparr>nic_eq := nic_eq s @ [i]\<rparr>))" for i known
  proof (rule keeps_harmless, unfold harmless_def, intro allI conjI)
    fix s :: "'b nic" assume i: "EqRef i \<in> known"
    have r: "rings k (s\<lparr>nic_eq := nic_eq s @ [i]\<rparr>) = rings k s" for k by (cases k) simp_all
    have "slot_at (s\<lparr>nic_eq := nic_eq s @ [i]\<rparr>) p = slot_at s p" for p by (cases p) (simp add: slot_at.simps r)
    then show "slot_at (s\<lparr>nic_eq := nic_eq s @ [i]\<rparr>) \<subseteq>\<^sub>m slot_at s" by (simp add: map_le_def)
    have "valid_ref (s\<lparr>nic_eq := nic_eq s @ [i]\<rparr>) x = valid_ref s x" for x by (cases x) (simp_all add: r)
    moreover have "refs_of (s\<lparr>nic_eq := nic_eq s @ [i]\<rparr>) \<union> known = refs_of s \<union> known"
      using i by (auto simp: refs_of_def)
    ultimately show "(\<forall>x \<in> refs_of s \<union> known. valid_ref s x) \<longrightarrow>
        (\<forall>x \<in> refs_of (s\<lparr>nic_eq := nic_eq s @ [i]\<rparr>) \<union> known. valid_ref (s\<lparr>nic_eq := nic_eq s @ [i]\<rparr>) x)"
      by simp
  qed simp
  show ?thesis
    unfolding init_eq_def split_def
    by (rule owns_created [where ref = "\<lambda>x. EqRef (fst x)"],
        auto simp: slot_at_appended valid_ref_appended refs_of_def eq_refs_def new_event_queue_def)
      (intro keeps_intros owns_intros listed assms; simp)
qed

lemma owns_init_ndev [owns_intros]: "keeps (owns given busy known) (init_ndev k)"
  unfolding init_ndev_def by (intro keeps_intros owns_intros owns_frame) simp

lemma owns_init_phases [owns_intros]:
  assumes "region_ledger hw given"
  shows "keeps (owns given busy known) (init_control hw)"
    "keeps (owns given busy known) (init_resources hw)"
    "keeps (owns given busy known) (init_queue_map hw)"
    "keeps (owns given busy known) (init_port hw k)"
    "keeps (owns given busy known) (init_sched_block hw k)"
  unfolding init_control_def init_resources_def init_queue_map_def init_port_def init_sched_block_def
  by (intro keeps_intros owns_intros owns_frame assms; simp)+

lemma owns_interface_init:
  assumes "region_ledger hw given"
  shows "keeps (owns given busy known) (interface_init hw csr_offset)"
  unfolding interface_init_def init_hardware_def init_objects_def
  by (intro keeps_intros owns_walk_blocks owns_intros owns_frame assms) simp

end
