(* ===== verification/Nic_Safety.thy ===== *)
theory Nic_Safety
  imports Nic_Ownership_Ops
begin

text \<open>
  The NIC driver as a transition system: bringing up the device, serving an interrupt, calling an
  operation of an interface, and whatever the device does on its own. In every state it reaches, from
  any hardware, a packet buffer is in one slot of one ring at most and never free meanwhile.
\<close>


section \<open>Steps\<close>

datatype nic_op =
    OpenDev nat
  | CloseDev nat
  | StartXmit nat "byte list" "int option" "int option" "int option"
  | ResumeXmit nat "byte list" "int option" "int option"
  | Recv nat
  | ReadConsPtr ring_kind nat
  | CloseRing ring_kind nat
  | CloseCq nat
  | CloseEq nat

definition forget_result :: "('s, 'e, 'a) act \<Rightarrow> ('s, 'e, unit) act" where
  "forget_result m = abind m (\<lambda>_. aret ())"

fun run_op :: "('h, 'r) nic_hw \<Rightarrow> nic_op \<Rightarrow> ('h, 'r, unit) nic_act" where
  "run_op hw (OpenDev d) = ndev_open hw d"
| "run_op hw (CloseDev d) = ndev_close d"
| "run_op hw (StartXmit d data ring start offset) = forget_result (start_xmit hw d data ring start offset)"
| "run_op hw (ResumeXmit i data start offset) = forget_result (resume_xmit hw i data start offset)"
| "run_op hw (Recv d) = forget_result (ndev_recv d)"
| "run_op hw (ReadConsPtr k i) = ring_read_cons_ptr hw k i"
| "run_op hw (CloseRing k i) = ring_close hw k i"
| "run_op hw (CloseCq j) = cpq_close hw j"
| "run_op hw (CloseEq i) = evq_close hw i"

inductive driver_reachable ::
  "('h, 'r) nic_hw \<Rightarrow> ('h \<Rightarrow> 'r set) \<Rightarrow> int \<Rightarrow> 'h \<times> 'r driver \<Rightarrow> bool"
  for hw given base where
  fresh: "driver_reachable hw given base (h, new_driver base)"
| device: "driver_reachable hw given base (h, d) \<Longrightarrow> given h \<subseteq> given h' \<Longrightarrow> driver_reachable hw given base (h', d)"
| bring_up: "driver_reachable hw given base st \<Longrightarrow> init_common hw st = (r, st') \<Longrightarrow>
    driver_reachable hw given base st'"
| interrupt: "driver_reachable hw given base st \<Longrightarrow> interrupt_handler hw irq st = Some (r, st') \<Longrightarrow>
    driver_reachable hw given base st'"
| operate: "driver_reachable hw given base (h, d) \<Longrightarrow> k < length (drv_interfaces d) \<Longrightarrow>
    run_op hw p (h, enter_interface k d) = (r, (h', s)) \<Longrightarrow>
    driver_reachable hw given base (h', leave_interface k s d)"


section \<open>The invariant over all interfaces\<close>

definition slot_of :: "'r driver \<Rightarrow> nat \<times> slot \<Rightarrow> 'r option" where
  "slot_of d a = (if fst a < length (drv_interfaces d) then slot_at (drv_interfaces d ! fst a) (snd a) else None)"

definition refs_ok :: "'r nic \<Rightarrow> bool" where
  "refs_ok s \<longleftrightarrow> (\<forall>x \<in> refs_of s. valid_ref s x)"

definition driver_ok :: "('h \<Rightarrow> 'r set) \<Rightarrow> 'h \<times> 'r driver \<Rightarrow> bool" where
  "driver_ok given st \<longleftrightarrow>
     pool_from given (fst st, drv_pool (snd st)) \<and> inj_on (slot_of (snd st)) (dom (slot_of (snd st))) \<and>
     ran (slot_of (snd st)) \<subseteq> packets_in_use (drv_pool (snd st)) \<and>
     (\<forall>s \<in> set (drv_interfaces (snd st)). refs_ok s)"

text \<open>The buffers the other interfaces own.\<close>

definition busy_with :: "nat \<Rightarrow> 'r driver \<Rightarrow> 'r set" where
  "busy_with k d = {x. \<exists>k' p. k' \<noteq> k \<and> slot_of d (k', p) = Some x}"

lemma pool_irrelevant:
  "slot_at (s\<lparr>nic_pool := pl\<rparr>) = slot_at s" "refs_of (s\<lparr>nic_pool := pl\<rparr>) = refs_of s"
  "valid_ref (s\<lparr>nic_pool := pl\<rparr>) x = valid_ref s x"
proof -
  have r: "rings k (s\<lparr>nic_pool := pl\<rparr>) = rings k s" for k by (cases k) simp_all
  have "slot_at (s\<lparr>nic_pool := pl\<rparr>) p = slot_at s p" for p by (cases p) (simp add: slot_at.simps r)
  then show "slot_at (s\<lparr>nic_pool := pl\<rparr>) = slot_at s" by blast
  show "refs_of (s\<lparr>nic_pool := pl\<rparr>) = refs_of s" by (simp add: refs_of_def)
  show "valid_ref (s\<lparr>nic_pool := pl\<rparr>) x = valid_ref s x" by (cases x) (simp_all add: r)
qed

lemma slot_of_interface: "k < length (drv_interfaces d) \<Longrightarrow> slot_of d (k, p) = slot_at (drv_interfaces d ! k) p"
  by (simp add: slot_of_def)

lemma enter_owns:
  assumes ok: "driver_ok given (h, d)" and k: "k < length (drv_interfaces d)"
  shows "owns given (busy_with k d) {} (h, enter_interface k d)"
proof -
  let ?s = "drv_interfaces d ! k"
  have inj: "slot_of d a = Some x \<Longrightarrow> slot_of d b = Some x \<Longrightarrow> a = b" for a b x
    using ok by (metis driver_ok_def snd_conv domI inj_onD)
  have own: "slot_at ?s p = slot_of d (k, p)" for p using k by (simp add: slot_of_def)
  have in_use: "slot_of d a = Some x \<Longrightarrow> x \<in> packets_in_use (drv_pool d)" for a x
    using ok by (auto simp: driver_ok_def dest: ranI)
  have "inj_on (slot_at ?s) (dom (slot_at ?s))"
  proof (rule inj_onI)
    fix p q assume "p \<in> dom (slot_at ?s)" "q \<in> dom (slot_at ?s)" "slot_at ?s p = slot_at ?s q"
    then show "p = q" using inj [of "(k, p)" _ "(k, q)"] by (auto simp: own)
  qed
  moreover have "ran (slot_at ?s) \<subseteq> packets_in_use (drv_pool d) - busy_with k d"
  proof
    fix x assume "x \<in> ran (slot_at ?s)"
    then obtain p where p: "slot_of d (k, p) = Some x" by (auto simp: ran_def own)
    have "x \<notin> busy_with k d"
    proof
      assume "x \<in> busy_with k d"
      then obtain k' p' where "k' \<noteq> k" "slot_of d (k', p') = Some x" unfolding busy_with_def by blast
      with inj [OF _ p] show False by blast
    qed
    with in_use [OF p] show "x \<in> packets_in_use (drv_pool d) - busy_with k d" by simp
  qed
  moreover have "refs_ok ?s" "pool_from given (h, drv_pool d)" using ok k by (simp_all add: driver_ok_def)
  moreover have "busy_with k d \<subseteq> packets_in_use (drv_pool d)" using in_use by (auto simp: busy_with_def)
  ultimately show ?thesis by (simp add: owns_def enter_interface_def pool_irrelevant refs_ok_def)
qed

lemma leave_ok:
  assumes ok: "driver_ok given (h, d)" and k: "k < length (drv_interfaces d)"
    and own: "owns given (busy_with k d) {} (h', s)"
  shows "driver_ok given (h', leave_interface k s d)"
proof -
  let ?d = "leave_interface k s d"
  have at: "slot_of ?d (k', p) = (if k' = k then slot_at s p else slot_of d (k', p))" for k' p
    using k by (auto simp: slot_of_def leave_interface_def)
  have inj: "slot_of d a = Some x \<Longrightarrow> slot_of d b = Some x \<Longrightarrow> a = b" for a b x
    using ok by (metis driver_ok_def snd_conv domI inj_onD)
  have inj_s: "slot_at s p = Some x \<Longrightarrow> slot_at s q = Some x \<Longrightarrow> p = q" for p q x
    using own by (metis owns_def snd_conv domI inj_onD)
  have mine: "x \<in> packets_in_use (nic_pool s) \<and> x \<notin> busy_with k d" if "slot_at s p = Some x" for p x
  proof -
    from that have "x \<in> ran (slot_at s)" by (rule ranI)
    then show ?thesis using own by (auto simp: owns_def)
  qed
  have theirs: "x \<in> busy_with k d \<and> x \<in> packets_in_use (nic_pool s)" if "slot_of d (k', p) = Some x" "k' \<noteq> k" for k' p x
  proof -
    from that have "x \<in> busy_with k d" unfolding busy_with_def by blast
    with own show ?thesis by (auto simp: owns_def)
  qed
  have "inj_on (slot_of ?d) (dom (slot_of ?d))"
  proof (rule inj_onI)
    fix a b assume "a \<in> dom (slot_of ?d)" "b \<in> dom (slot_of ?d)" and eq: "slot_of ?d a = slot_of ?d b"
    then obtain x where x: "slot_of ?d a = Some x" "slot_of ?d b = Some x" by auto
    obtain ka pa kb pb where ab: "a = (ka, pa)" "b = (kb, pb)" by (metis surj_pair)
    have xa: "ka = k \<Longrightarrow> slot_at s pa = Some x" "ka \<noteq> k \<Longrightarrow> slot_of d (ka, pa) = Some x"
      and xb: "kb = k \<Longrightarrow> slot_at s pb = Some x" "kb \<noteq> k \<Longrightarrow> slot_of d (kb, pb) = Some x"
      using x by (simp_all add: ab at)
    have "ka = k \<longleftrightarrow> kb = k" using xa xb mine theirs by metis
    then show "a = b" using xa xb inj_s [of pa x pb] inj [of a x b] unfolding ab by (cases "ka = k") simp_all
  qed
  moreover have "ran (slot_of ?d) \<subseteq> packets_in_use (drv_pool ?d)"
  proof
    fix x assume "x \<in> ran (slot_of ?d)"
    then obtain k' p where "slot_of ?d (k', p) = Some x" by (auto simp: ran_def)
    then have "x \<in> packets_in_use (nic_pool s)"
      using mine theirs by (cases "k' = k") (simp_all only: at if_True if_False refl; blast)+
    then show "x \<in> packets_in_use (drv_pool ?d)" by (simp add: leave_interface_def)
  qed
  moreover have "\<forall>s' \<in> set (drv_interfaces ?d). refs_ok s'"
    using ok own set_update_subset_insert [of "drv_interfaces d" k s]
    by (auto simp: driver_ok_def leave_interface_def owns_def refs_ok_def)
  ultimately show ?thesis using own by (simp add: driver_ok_def owns_def leave_interface_def)
qed

text \<open>An operation of one interface, in the terms of the driver.\<close>

lemma step_in_interface:
  assumes ok: "driver_ok given (h, d)" and k: "k < length (drv_interfaces d)"
    and run: "m (h, enter_interface k d) = Some (r, (h', s))"
    and m: "keepsp (owns given (busy_with k d) {}) m"
  shows "driver_ok given (h', leave_interface k s d)"
  by (rule leave_ok [OF ok k]) (rule keepspD [OF m enter_owns [OF ok k] run])

lemma owns_run_op:
  assumes "region_ledger hw given"
  shows "keeps (owns given busy known) (run_op hw p)"
  by (cases p) (auto simp: forget_result_def intro!: keeps_intros owns_intros assms)

lemma keepsp_act: "keeps I m \<Longrightarrow> keepsp I (\<lambda>st. Some (m st))"
  by (rule keepsp_Some)

lemma operate_ok:
  assumes "region_ledger hw given" "driver_ok given (h, d)" "k < length (drv_interfaces d)"
    "run_op hw p (h, enter_interface k d) = (r, (h', s))"
  shows "driver_ok given (h', leave_interface k s d)"
  by (rule step_in_interface [where m = "\<lambda>st. Some (run_op hw p st)" and r = r, OF assms(2,3)])
    (simp add: assms(4), rule keepsp_Some [OF owns_run_op [OF assms(1)]])


section \<open>Interrupts\<close>

lemma interrupt_interface_ok:
  assumes ledger: "region_ledger hw given" and ok: "driver_ok given st" and k: "k < length (drv_interfaces (snd st))"
    and run: "on_interface k (in_turn (serve_eq hw irq) (nic_eq (drv_interfaces (snd st) ! k))) st = Some (r, st')"
  shows "driver_ok given st' \<and> length (drv_interfaces (snd st')) = length (drv_interfaces (snd st))"
proof -
  obtain h d where st: "st = (h, d)" by (metis surj_pair)
  let ?is = "nic_eq (drv_interfaces d ! k)"
  have own: "owns given (busy_with k d) {} (h, enter_interface k d)"
    using ok k by (simp add: st enter_owns)
  have "EqRef ` set ?is \<subseteq> refs_of (enter_interface k d)"
    by (auto simp: refs_of_def enter_interface_def)
  then have known: "owns given (busy_with k d) ({} \<union> EqRef ` set ?is) (h, enter_interface k d)"
    using own by (intro owns_know) simp_all
  obtain h' s where m: "in_turn (serve_eq hw irq) ?is (h, enter_interface k d) = Some (r, (h', s))"
    and st': "st' = (h', leave_interface k s d)"
    using run by (auto simp: st on_interface_def)
  have "keepsp (owns given (busy_with k d) ({} \<union> EqRef ` set ?is)) (in_turn (serve_eq hw irq) ?is)"
    by (intro keepsp_intros ledger) simp
  from keepspD [OF this known m] have "owns given (busy_with k d) {} (h', s)" by (rule owns_forget)
  with leave_ok [of given h d k h' s] ok k show ?thesis by (simp add: st st' leave_interface_def)
qed

lemma interrupt_ok:
  assumes "region_ledger hw given" "driver_ok given st" "interrupt_handler hw irq st = Some (r, st')"
  shows "driver_ok given st'"
proof -
  let ?I = "\<lambda>s. driver_ok given s \<and> length (drv_interfaces (snd s)) = length (drv_interfaces (snd st))"
  have "keepsp ?I (in_turn (\<lambda>k st. on_interface k
      (in_turn (serve_eq hw irq) (nic_eq (drv_interfaces (snd st) ! k))) st) [0..<length (drv_interfaces (snd st))])"
  proof (intro keepsp_in_turn, unfold keepsp_def, intro allI impI, elim conjE)
    fix k s r s'
    assume k: "k \<in> set [0..<length (drv_interfaces (snd st))]" and s: "driver_ok given s"
      and len: "length (drv_interfaces (snd s)) = length (drv_interfaces (snd st))"
      and run: "on_interface k (in_turn (serve_eq hw irq) (nic_eq (drv_interfaces (snd s) ! k))) s = Some (r, s')"
    from interrupt_interface_ok [OF assms(1) s _ run] k len show "?I s'" by simp
  qed
  from keepspD [OF this _ assms(3) [unfolded interrupt_handler_def]] assms(2) show ?thesis by simp
qed


section \<open>Bringing up the device\<close>

lemma new_nic_owns:
  assumes "driver_ok given (h, d)"
  shows "owns given (ran (slot_of d)) {} (h, new_nic (drv_pool d) index base)"
proof -
  have r: "rings k (new_nic pl index base) = []" for k and pl :: "'b packet_pool" by (cases k) (simp_all add: new_nic_def)
  have "slot_at (new_nic (drv_pool d) index base) p = None" for p by (cases p) (simp add: slot_at.simps r)
  then have "slot_at (new_nic (drv_pool d) index base) = Map.empty" by blast
  with assms show ?thesis by (simp add: owns_def driver_ok_def refs_of_def) (simp add: new_nic_def)
qed

lemma slot_of_append:
  "slot_of (d\<lparr>drv_pool := pl, drv_interfaces := drv_interfaces d @ [s]\<rparr>) (k, p) =
     (if k = length (drv_interfaces d) then slot_at s p else slot_of d (k, p))"
  by (auto simp: slot_of_def nth_append)

lemma slot_of_cong: "drv_interfaces d' = drv_interfaces d \<Longrightarrow> slot_of d' = slot_of d"
  by (simp add: slot_of_def fun_eq_iff)

lemma slot_of_pool: "slot_of (d\<lparr>drv_pool := pl\<rparr>) = slot_of d"
  by (rule slot_of_cong) simp

lemma driver_ok_create:
  assumes ledger: "region_ledger hw given"
  shows "keeps (driver_ok given) (create_interface hw k)"
  unfolding keeps_def
proof (intro allI impI)
  fix st assume ok: "driver_ok given st"
  obtain h d where st: "st = (h, d)" by (metis surj_pair)
  let ?new = "new_nic (drv_pool d) (int k) (drv_hw_regs d + (drv_if_offset d + int k * drv_if_stride d))"
  obtain r h' s where run: "interface_init hw (drv_if_csr_offset d) (h, ?new) = (r, (h', s))" by (metis surj_pair)
  have own: "owns given (ran (slot_of d)) {} (h', s)"
    by (rule keepsD [OF owns_interface_init [OF ledger] new_nic_owns run]) (use ok st in simp)
  have old: "slot_of d a = Some x \<Longrightarrow> slot_of d b = Some x \<Longrightarrow> a = b" for a b x
    using ok by (metis st driver_ok_def snd_conv domI inj_onD)
  have pool: "pool_from given (h', nic_pool s)" "ran (slot_of d) \<subseteq> packets_in_use (nic_pool s)"
    "ran (slot_at s) \<subseteq> packets_in_use (nic_pool s) - ran (slot_of d)" "refs_ok s"
    using own by (simp_all add: owns_def refs_ok_def)
  show "driver_ok given (snd (create_interface hw k st))"
  proof (cases r)
    case (Inl e)
    then show ?thesis
      using run ok pool by (simp add: create_interface_def st driver_ok_def slot_of_pool)
  next
    case (Inr x)
    let ?d = "d\<lparr>drv_pool := nic_pool s, drv_interfaces := drv_interfaces d @ [s]\<rparr>" and ?n = "length (drv_interfaces d)"
    have inj_s: "slot_at s p = Some y \<Longrightarrow> slot_at s q = Some y \<Longrightarrow> p = q" for p q y
      using own by (metis owns_def snd_conv domI inj_onD)
    have apart: False if "slot_at s p = Some y" "slot_of d q = Some y" for p q y
    proof -
      have "y \<in> ran (slot_at s)" "y \<in> ran (slot_of d)" using that by (auto intro: ranI)
      with pool(3) show False by blast
    qed
    have inj: "a = b" if "slot_of ?d a = Some y" "slot_of ?d b = Some y" for a b y
    proof -
      obtain ka pa kb pb where ab: "a = (ka, pa)" "b = (kb, pb)" by (metis surj_pair)
      have at: "ka = ?n \<Longrightarrow> slot_at s pa = Some y" "ka \<noteq> ?n \<Longrightarrow> slot_of d (ka, pa) = Some y"
        "kb = ?n \<Longrightarrow> slot_at s pb = Some y" "kb \<noteq> ?n \<Longrightarrow> slot_of d (kb, pb) = Some y"
        using that by (simp_all add: ab slot_of_append)
      then have "ka = ?n \<longleftrightarrow> kb = ?n" using apart by blast
      then show "a = b" using at inj_s [of pa y pb] old [of a y b] unfolding ab by (cases "ka = ?n") simp_all
    qed
    have "inj_on (slot_of ?d) (dom (slot_of ?d))" using inj by (intro inj_onI) (metis domD)
    moreover have "x \<in> packets_in_use (nic_pool s)" if x: "x \<in> ran (slot_of ?d)" for x
    proof -
      obtain k' p where "slot_of ?d (k', p) = Some x" using x by (auto simp: ran_def)
      then have "slot_at s p = Some x \<or> slot_of d (k', p) = Some x" by (simp add: slot_of_append split: if_splits)
      then have "x \<in> ran (slot_at s) \<or> x \<in> ran (slot_of d)" by (auto intro: ranI)
      with pool(2,3) show ?thesis by blast
    qed
    ultimately have "driver_ok given (h', ?d)"
      using ok pool by (auto simp: driver_ok_def st)
    then show ?thesis using run Inr by (simp add: create_interface_def st)
  qed
qed

lemma driver_ok_update:
  assumes "\<And>d. drv_pool (f d) = drv_pool d \<and> drv_interfaces (f d) = drv_interfaces d"
  shows "keeps (driver_ok given) (drv_update f)"
  unfolding drv_update_def
proof (rule keeps_amodify)
  fix st assume ok: "driver_ok given st"
  obtain h d where st: "st = (h, d)" by (metis surj_pair)
  have "slot_of (f d) = slot_of d" by (rule slot_of_cong) (use assms [of d] in simp)
  with ok assms [of d] show "driver_ok given (case st of (h, d) \<Rightarrow> (h, f d))" by (simp add: st driver_ok_def)
qed

lemma driver_ok_reads:
  assumes "region_ledger hw given"
  shows "keeps (driver_ok given) (drv_read hw a)"
  unfolding keeps_def
proof (intro allI impI)
  fix st assume "driver_ok given st"
  moreover obtain v h' where read: "hw_read hw a (fst st) = (v, h')" by (metis surj_pair)
  moreover have "given h' = given (fst st)" using region_ledgerD(2) [OF assms, of a "fst st"] read by simp
  ultimately show "driver_ok given (snd (drv_read hw a st))"
    by (cases st) (simp add: drv_read_def driver_ok_def pool_from_def)
qed

lemma driver_ok_get: "keeps (driver_ok given) (drv_get g)" "keeps (driver_ok given) (drv_block ty version)"
  by (simp_all add: drv_get_def drv_block_def keeps_aget)

lemma driver_ok_init_common:
  assumes ledger: "region_ledger hw given"
  shows "keeps (driver_ok given) (init_common hw)"
proof -
  have walk: "keeps (driver_ok given) (drv_walk hw)"
    unfolding keeps_def
  proof (intro allI impI)
    fix st assume ok: "driver_ok given st"
    obtain h d where st: "st = (h, d)" by (metis surj_pair)
    obtain r blocks h' where run: "enumerate_reg_blocks (\<lambda>a. hw_read hw (drv_hw_regs d + a)) 0 [] h = (r, blocks, h')"
      by (metis prod_cases3)
    have "given h' = given h" using enumerate_given [OF ledger, of "drv_hw_regs d" 0 "[]" h] run by simp
    moreover have "slot_of (d\<lparr>drv_reg_blocks := blocks\<rparr>) = slot_of d" by (rule slot_of_cong) simp
    ultimately show "driver_ok given (snd (drv_walk hw st))"
      using ok run by (simp add: drv_walk_def st driver_ok_def pool_from_def)
  qed
  have emptied: "keeps (driver_ok given) (drv_update (\<lambda>d. d\<lparr>drv_interfaces := []\<rparr>))"
    unfolding drv_update_def
  proof (rule keeps_amodify)
    fix st :: "'a \<times> 'b driver" assume ok: "driver_ok given st"
    have "slot_of (d\<lparr>drv_interfaces := []\<rparr>) = Map.empty" for d :: "'b driver" by (simp add: slot_of_def fun_eq_iff)
    with ok show "driver_ok given (case st of (h, d) \<Rightarrow> (h, d\<lparr>drv_interfaces := []\<rparr>))"
      by (cases st) (simp add: driver_ok_def)
  qed
  show ?thesis
    unfolding init_common_def read_ids_def
    by (intro keeps_intros walk emptied driver_ok_create driver_ok_reads driver_ok_get driver_ok_update ledger) simp_all
qed


section \<open>The theorem\<close>

lemma new_driver_ok:
  fixes h :: 'a and given :: "'a \<Rightarrow> 'b set"
  shows "driver_ok given (h, new_driver base)"
proof -
  have "slot_of (new_driver base :: 'b driver) = Map.empty" by (simp add: slot_of_def new_driver_def fun_eq_iff)
  moreover have "drv_pool (new_driver base :: 'b driver) = new_packet_pool"
    "drv_interfaces (new_driver base :: 'b driver) = []"
    by (simp_all add: new_driver_def)
  ultimately show ?thesis
    by (simp add: driver_ok_def new_packet_pool_def pool_from_def pool_ok_def)
qed

lemma driver_reachable_ok:
  assumes "driver_reachable hw given base st" "region_ledger hw given"
  shows "driver_ok given st"
  using assms
proof induction
  case (device h d h')
  then show ?case by (auto simp: driver_ok_def pool_from_def)
next
  case (bring_up st r st')
  with keepsD [OF driver_ok_init_common] show ?case by blast
next
  case (interrupt st irq r st')
  with interrupt_ok show ?case by blast
next
  case (operate h d k p r h' s)
  show ?case by (rule operate_ok [OF operate.prems operate.IH [OF operate.prems] operate.hyps(2,3)])
qed (rule new_driver_ok)

text \<open>A device that advertises one unknown block, with a memory pool that numbers its regions.\<close>

definition bare_hw :: "(nat, nat) nic_hw" where
  "bare_hw =
     \<lparr>hw_read = one_block 0 0, hw_write = (\<lambda>a v h. (Inr (), h)), hw_read_word = (\<lambda>a h. (0, h)),
      hw_write_word = (\<lambda>a v h. (Inr (), h)), hw_alloc_region = numbered_regions, hw_address = (\<lambda>r. 16384 * int r),
      hw_size = (\<lambda>r. 16384), hw_load = (\<lambda>r i n h. replicate (nat n) 0), hw_store = (\<lambda>r i bs h. (Inr (), h))\<rparr>"

lemma bare_hw_ledger: "region_ledger bare_hw (\<lambda>h. {..<h})"
  by (simp add: region_ledger_def bare_hw_def numbered_regions_fresh one_block_def)

lemma bare_hw_init:
  "init_common bare_hw (h, new_driver 0) =
     (Inl AttributeError, (h, (new_driver 0)\<lparr>drv_reg_blocks := [\<lparr>rb_offset = 0, rb_type = 0, rb_version = 0\<rparr>]\<rparr>))"
proof -
  have walk: "drv_walk bare_hw (h, new_driver 0) =
      (Inr (), (h, (new_driver 0)\<lparr>drv_reg_blocks := [\<lparr>rb_offset = 0, rb_type = 0, rb_version = 0\<rparr>]\<rparr>))"
    by (simp add: drv_walk_def bare_hw_def enumerate_one_block [unfolded mod_0] new_driver_def)
  have "read_ids bare_hw (h, (new_driver 0)\<lparr>drv_reg_blocks := [\<lparr>rb_offset = 0, rb_type = 0, rb_version = 0\<rparr>]\<rparr>) =
      (Inl AttributeError, (h, (new_driver 0)\<lparr>drv_reg_blocks := [\<lparr>rb_offset = 0, rb_type = 0, rb_version = 0\<rparr>]\<rparr>))"
    by (simp add: read_ids_def drv_block_def drv_get_def found_block_def block_matches_def MQNIC_RB_FW_ID_TYPE_def)
  then show ?thesis
    by (simp add: init_common_def athen_run(1) [where m = "drv_walk bare_hw", OF walk]
        athen_run(2) [where m = "read_ids bare_hw"])
qed

text \<open>
  C29. Packet buffers: whatever the device reports and whenever it reports it, and wherever an
  operation raises, a buffer is in at most one slot of one ring of one interface; a buffer in a slot
  has been allocated and is not in the list of free buffers, and that list has no buffer twice.
\<close>

theorem packets_never_shared:
  assumes "region_ledger hw given" "driver_reachable hw given base (h, d)"
  shows "(\<forall>a b x. slot_of d a = Some x \<and> slot_of d b = Some x \<longrightarrow> a = b) \<and>
    (\<forall>a x. slot_of d a = Some x \<longrightarrow> x \<in> set (pl_allocated_packets (drv_pool d)) \<and>
       x \<notin> set (pl_free_packets (drv_pool d))) \<and>
    distinct (pl_free_packets (drv_pool d))"
proof -
  have ok: "driver_ok given (h, d)" by (rule driver_reachable_ok [OF assms(2,1)])
  have inj: "inj_on (slot_of d) (dom (slot_of d))" and ran: "ran (slot_of d) \<subseteq> packets_in_use (drv_pool d)"
    and free: "distinct (pl_free_packets (drv_pool d))"
    using ok by (simp_all add: driver_ok_def pool_from_def pool_ok_def)
  have "a = b" if "slot_of d a = Some x" "slot_of d b = Some x" for a b x
    using inj_onD [OF inj, of a b] that by (simp add: domI)
  moreover have "x \<in> packets_in_use (drv_pool d)" if "slot_of d a = Some x" for a x
  proof -
    from that have "x \<in> ran (slot_of d)" by (rule ranI)
    with ran show ?thesis by blast
  qed
  ultimately show ?thesis using free unfolding packets_in_use_def by blast
qed

theorem packets_never_shared_witness:
  "driver_reachable bare_hw (\<lambda>h. {..<h}) 0
     (3, (new_driver 0)\<lparr>drv_reg_blocks := [\<lparr>rb_offset = 0, rb_type = 0, rb_version = 0\<rparr>]\<rparr>) \<and>
   distinct (pl_free_packets (drv_pool (new_driver 0 :: nat driver)))"
proof -
  let ?d = "(new_driver 0)\<lparr>drv_reg_blocks := [\<lparr>rb_offset = 0, rb_type = 0, rb_version = 0\<rparr>]\<rparr>"
  have up: "driver_reachable bare_hw (\<lambda>h. {..<h}) 0 (0, ?d)"
    by (rule driver_reachable.bring_up [OF driver_reachable.fresh bare_hw_init])
  have "driver_reachable bare_hw (\<lambda>h. {..<h}) 0 (3, ?d)"
    by (rule driver_reachable.device [OF up]) simp
  with packets_never_shared [OF bare_hw_ledger this] show ?thesis by simp
qed

end
