(* ===== verification/Nic_Wiring.thy ===== *)
theory Nic_Wiring
  imports Nic_Safety
begin

text \<open>
  How the objects of the NIC driver are wired: a completion queue is in the table of its event queue
  under its own number, a ring is the source of its completion queue, which has the handler for
  rings of that kind. Each link is stored at both ends by different methods; opening and closing keep
  the two ends together, wherever they raise, and nothing else touches them.
\<close>


section \<open>The links of an interface\<close>

record wiring =
  w_eq :: "nat list"
  w_eqs :: nat
  w_cqs :: nat
  w_rings :: "ring_kind \<Rightarrow> nat"
  w_table :: "nat \<Rightarrow> int \<Rightarrow> nat option"
  w_cq_open :: "nat \<Rightarrow> bool"
  w_cq_eq :: "nat \<Rightarrow> nat option"
  w_cqn :: "nat \<Rightarrow> int option"
  w_source :: "nat \<Rightarrow> (ring_kind \<times> nat) option"
  w_handler :: "nat \<Rightarrow> ring_kind option"
  w_ring_open :: "ring_kind \<Rightarrow> nat \<Rightarrow> bool"
  w_ring_cq :: "ring_kind \<Rightarrow> nat \<Rightarrow> nat option"
  w_free :: "int list"

text \<open>A field of the object at an index, and a default where there is none.\<close>

definition field :: "'a list \<Rightarrow> ('a \<Rightarrow> 'b) \<Rightarrow> 'b \<Rightarrow> nat \<Rightarrow> 'b" where
  "field xs f none i = (if i < length xs then f (xs ! i) else none)"

definition wiring :: "'r nic \<Rightarrow> wiring" where
  "wiring s =
     \<lparr>w_eq = nic_eq s, w_eqs = length (nic_eqs s), w_cqs = length (nic_cqs s), w_rings = (\<lambda>k. length (rings k s)),
      w_table = field (nic_eqs s) (\<lambda>q. dget (evq_cq_table q)) Map.empty,
      w_cq_open = field (nic_cqs s) (\<lambda>q. cpq_hw_regs q \<noteq> None) False,
      w_cq_eq = field (nic_cqs s) cpq_eq None, w_cqn = field (nic_cqs s) cpq_cqn None,
      w_source = field (nic_cqs s) cpq_src_ring None, w_handler = field (nic_cqs s) cpq_handler None,
      w_ring_open = (\<lambda>k. field (rings k s) (\<lambda>r. rg_hw_regs r \<noteq> None) False),
      w_ring_cq = (\<lambda>k. field (rings k s) rg_cq None), w_free = rc_free_list (nic_cq_res s)\<rparr>"

definition in_table :: "wiring \<Rightarrow> nat \<Rightarrow> nat \<Rightarrow> int \<Rightarrow> bool" where
  "in_table w j i c \<longleftrightarrow> w_cq_open w j \<and> w_cq_eq w j = Some i \<and> w_cqn w j = Some c"

definition feeds :: "wiring \<Rightarrow> ring_kind \<times> nat \<Rightarrow> nat \<Rightarrow> bool" where
  "feeds w ring j \<longleftrightarrow> w_ring_open w (fst ring) (snd ring) \<and> w_ring_cq w (fst ring) (snd ring) = Some j"

definition queues_wired :: "wiring \<Rightarrow> bool" where
  "queues_wired w \<longleftrightarrow>
     (\<forall>i \<in> set (w_eq w). i < w_eqs w) \<and>
     (\<forall>i c j. w_table w i c = Some j \<longleftrightarrow> in_table w j i c) \<and>
     (\<forall>j. w_cq_open w j \<longrightarrow> j < w_cqs w \<and> (\<exists>i c. in_table w j i c \<and> i < w_eqs w)) \<and>
     distinct (w_free w) \<and>
     (\<forall>j i c. in_table w j i c \<longrightarrow> c \<notin> set (w_free w)) \<and>
     (\<forall>j j' i i' c. in_table w j i c \<and> in_table w j' i' c \<longrightarrow> j' = j)"

definition rings_wired :: "wiring \<Rightarrow> bool" where
  "rings_wired w \<longleftrightarrow>
     (\<forall>j ring. w_source w j = Some ring \<longleftrightarrow> feeds w ring j) \<and>
     (\<forall>k i. w_ring_open w k i \<longrightarrow> i < w_rings w k \<and> (\<exists>j < w_cqs w. feeds w (k, i) j)) \<and>
     (\<forall>j. w_handler w j = map_option fst (w_source w j))"

definition linked :: "wiring \<Rightarrow> bool" where
  "linked w \<longleftrightarrow> queues_wired w \<and> rings_wired w"


section \<open>Updates\<close>

lemma field_update:
  "field (xs[i := y]) f d j = (if j = i \<and> i < length xs then f y else field xs f d j)"
  by (auto simp: field_def)

lemma field_same: "f (g (xs ! i)) = f (xs ! i) \<Longrightarrow> field (xs[i := g (xs ! i)]) f d = field xs f d"
  by (rule ext; rename_tac x; case_tac "x = i"; simp add: field_def)

lemma field_append: "f x = d \<Longrightarrow> field (xs @ [x]) f d = field xs f d"
  by (auto simp: field_def fun_eq_iff nth_append)

text \<open>What a change of one list of objects means for the links.\<close>

lemma wiring_eqs:
  "wiring (s\<lparr>nic_eqs := xs\<rparr>) = (wiring s)\<lparr>w_eqs := length xs, w_table := field xs (\<lambda>q. dget (evq_cq_table q)) Map.empty\<rparr>"
proof -
  have "rings k (s\<lparr>nic_eqs := xs\<rparr>) = rings k s" for k by (cases k) simp_all
  then show ?thesis by (simp add: wiring_def)
qed

lemma wiring_cqs:
  "wiring (s\<lparr>nic_cqs := xs\<rparr>) = (wiring s)\<lparr>w_cqs := length xs,
     w_cq_open := field xs (\<lambda>q. cpq_hw_regs q \<noteq> None) False, w_cq_eq := field xs cpq_eq None,
     w_cqn := field xs cpq_cqn None, w_source := field xs cpq_src_ring None, w_handler := field xs cpq_handler None\<rparr>"
proof -
  have "rings k (s\<lparr>nic_cqs := xs\<rparr>) = rings k s" for k by (cases k) simp_all
  then show ?thesis by (simp add: wiring_def)
qed

lemma wiring_ring:
  "wiring (upd_ring k i f s) = (wiring s)
     \<lparr>w_ring_open := (w_ring_open (wiring s))(k := field ((rings k s)[i := f (rings k s ! i)]) (\<lambda>r. rg_hw_regs r \<noteq> None) False),
      w_ring_cq := (w_ring_cq (wiring s))(k := field ((rings k s)[i := f (rings k s ! i)]) rg_cq None)\<rparr>"
proof -
  have "nic_eq (upd_ring k i f s) = nic_eq s" "nic_cq_res (upd_ring k i f s) = nic_cq_res s" by (cases k; simp)+
  then show ?thesis by (simp add: wiring_def other_lists rings_upd_ring fun_eq_iff)
qed

text \<open>An update of one object that leaves its links alone.\<close>

lemma wiring_upd_eq:
  assumes "\<And>q. evq_cq_table (f q) = evq_cq_table q"
  shows "wiring (upd_eq i f s) = wiring s"
proof -
  have "field ((nic_eqs s)[i := f (nic_eqs s ! i)]) (\<lambda>q. dget (evq_cq_table q)) Map.empty = w_table (wiring s)"
    by (subst field_same) (simp_all add: assms wiring_def)
  then show ?thesis by (simp add: upd_eq_def wiring_eqs) (simp add: wiring_def)
qed

lemma wiring_upd_cq:
  assumes "\<And>q. cpq_hw_regs (f q) = cpq_hw_regs q \<and> cpq_eq (f q) = cpq_eq q \<and> cpq_cqn (f q) = cpq_cqn q \<and>
    cpq_src_ring (f q) = cpq_src_ring q \<and> cpq_handler (f q) = cpq_handler q"
  shows "wiring (upd_cq j f s) = wiring s"
  by (simp add: upd_cq_def wiring_cqs field_same assms) (simp add: wiring_def)

lemma wiring_upd_ring:
  assumes "\<And>r. rg_hw_regs (f r) = rg_hw_regs r \<and> rg_cq (f r) = rg_cq r"
  shows "wiring (upd_ring k i f s) = wiring s"
  by (simp add: wiring_ring field_same assms) (simp add: wiring_def fun_eq_iff)

lemma wiring_frame:
  assumes "nic_eq s' = nic_eq s" "nic_eqs s' = nic_eqs s" "nic_cqs s' = nic_cqs s" "nic_txqs s' = nic_txqs s"
    "nic_rxqs s' = nic_rxqs s" "rc_free_list (nic_cq_res s') = rc_free_list (nic_cq_res s)"
  shows "wiring s' = wiring s"
proof -
  have "rings k s' = rings k s" for k using assms by (cases k) simp_all
  with assms show ?thesis by (simp add: wiring_def)
qed

lemma wiring_upd_ndev: "wiring (upd_ndev i f s) = wiring s"
  by (rule wiring_frame) (simp_all add: upd_ndev_def)

lemma wiring_pool: "wiring (s\<lparr>nic_pool := pl\<rparr>) = wiring s"
  by (rule wiring_frame) simp_all


section \<open>Operations that leave the links alone\<close>

definition wires :: "(wiring \<Rightarrow> bool) \<Rightarrow> 'h \<times> 'r nic \<Rightarrow> bool" where
  "wires p st \<longleftrightarrow> p (wiring (snd st))"

named_theorems frame_intros \<open>operations that leave the links alone\<close>

lemma frame_updates: "(\<And>s. wiring (f s) = wiring s) \<Longrightarrow> keeps (wires p) (updates f)"
  by (simp add: keeps_def updates_def wires_def split_def)

lemma frame_hardware [frame_intros]: "keeps (wires p) (hardware f)"
  by (simp add: keeps_def hardware_def wires_def split: prod.split)

lemma frame_reads [frame_intros]: "keeps (wires p) (reads f)"
  by (simp add: reads_def keeps_aget)

lemma frame_bus [frame_intros]:
  "keeps (wires p) (reg_read hw a)" "keeps (wires p) (reg_write hw a v)"
  "keeps (wires p) (reg_read_word hw a)" "keeps (wires p) (reg_write_word hw a v)"
  "keeps (wires p) (mem_store hw r i bs)" "keeps (wires p) (alloc_region hw n)"
  "keeps (wires p) (mem_load hw r i n)" "keeps (wires p) (need_int x)" "keeps (wires p) (need_window x)"
  by (simp_all add: reg_read_def reg_write_def reg_read_word_def reg_write_word_def mem_store_def
      alloc_region_def frame_hardware mem_load_def keeps_aget need_int_def need_window_def keeps_aneed)

lemma frame_reg_writes [frame_intros]: "keeps (wires p) (reg_writes hw base ws)"
  unfolding reg_writes_def by (intro keeps_intros frame_intros)

lemma frame_objects [frame_intros]:
  "(\<And>q. evq_cq_table (f q) = evq_cq_table q) \<Longrightarrow> keeps (wires p) (updates (upd_eq i f))"
  "(\<And>q. cpq_hw_regs (g q) = cpq_hw_regs q \<and> cpq_eq (g q) = cpq_eq q \<and> cpq_cqn (g q) = cpq_cqn q \<and>
      cpq_src_ring (g q) = cpq_src_ring q \<and> cpq_handler (g q) = cpq_handler q) \<Longrightarrow>
    keeps (wires p) (updates (upd_cq j g))"
  "(\<And>r. rg_hw_regs (u r) = rg_hw_regs r \<and> rg_cq (u r) = rg_cq r) \<Longrightarrow> keeps (wires p) (updates (upd_ring k i u))"
  "keeps (wires p) (updates (upd_ndev d v))"
  by (intro frame_updates wiring_upd_eq wiring_upd_cq wiring_upd_ring wiring_upd_ndev; simp)+

lemma frame_other [frame_intros]:
  assumes "\<And>s. nic_eq (f s) = nic_eq s \<and> nic_eqs (f s) = nic_eqs s \<and> nic_cqs (f s) = nic_cqs s \<and>
    nic_txqs (f s) = nic_txqs s \<and> nic_rxqs (f s) = nic_rxqs s \<and> nic_cq_res (f s) = nic_cq_res s"
  shows "keeps (wires p) (updates f)"
  by (intro frame_updates wiring_frame) (use assms in auto)

lemma frame_packets [frame_intros]:
  "keeps (wires p) (take_pkt hw)" "keeps (wires p) (give_pkt pkt)"
proof -
  show "keeps (wires p) (take_pkt hw)"
    by (simp add: keeps_def take_pkt_def wires_def wiring_pool split: prod.split)
  show "keeps (wires p) (give_pkt pkt)"
    unfolding give_pkt_def by (intro keeps_intros frame_reads frame_updates wiring_pool)
qed

text \<open>Indices of other queues, and windows of any.\<close>

lemma wiring_set_res: "qc \<noteq> CQ \<Longrightarrow> wiring (set_res qc rc s) = wiring s"
  by (rule wiring_frame) (cases qc; simp)+

lemma frame_indices [frame_intros]:
  "qc \<noteq> CQ \<Longrightarrow> keeps (wires p) (take_index qc)" "qc \<noteq> CQ \<Longrightarrow> keeps (wires p) (give_index qc index)"
  unfolding take_index_def give_index_def by (intro keeps_intros frame_reads frame_updates wiring_set_res; simp)+

lemma get_window_free: "get_window index rc = (w, rc') \<Longrightarrow> rc_free_list rc' = rc_free_list rc"
  by (auto simp: get_window_def Let_def split: option.splits)

lemma take_window_run: "\<exists>w s'. take_window qc index (h, s) = (Inr w, (h, s')) \<and> wiring s' = wiring s"
proof -
  obtain w rc' where g: "get_window index (the_res qc s) = (w, rc')" by fastforce
  have "wiring (set_res qc rc' s) = wiring s"
    by (rule wiring_frame) (cases qc; use get_window_free [OF g] in simp)+
  with g show ?thesis by (simp add: take_window_def reads_def updates_def)
qed

lemma frame_take_window [frame_intros]: "keeps (wires p) (take_window qc index)"
proof (unfold keeps_def, intro allI impI)
  fix st :: "'a \<times> 'b nic" assume "wires p st"
  moreover obtain h s where "st = (h, s)" by fastforce
  ultimately show "wires p (snd (take_window qc index st))"
    using take_window_run [of qc index h s] by (auto simp: wires_def)
qed

lemma frame_evq [frame_intros]:
  "keeps (wires p) (evq_close hw i)" "keeps (wires p) (evq_write_cons_ptr hw i)" "keeps (wires p) (evq_arm hw i)"
  unfolding evq_close_def evq_write_cons_ptr_def evq_arm_def
  by (intro keeps_intros frame_intros; simp)+

lemma frame_cpq [frame_intros]:
  "keeps (wires p) (cpq_write_cons_ptr hw j)" "keeps (wires p) (cpq_arm hw j)"
  unfolding cpq_write_cons_ptr_def cpq_arm_def by (intro keeps_intros frame_intros; simp)+

lemma frame_ring [frame_intros]:
  "keeps (wires p) (ring_enable hw k i)" "keeps (wires p) (ring_disable hw k i)"
  "keeps (wires p) (ring_read_cons_ptr hw k i)" "keeps (wires p) (ring_write_prod_ptr hw k i)"
  "keeps (wires p) (free_desc k i index)"
  unfolding ring_enable_def ring_disable_def ring_read_cons_ptr_def ring_write_prod_ptr_def free_desc_def
  by (intro keeps_intros frame_intros; simp)+

lemma frame_refill [frame_intros]:
  "keeps (wires p) (prepare_desc hw i index)" "keeps (wires p) (refill_buffers hw i)"
  unfolding refill_buffers_def refill_one_def prepare_desc_def by (intro keeps_intros frame_intros; simp)+


section \<open>Interrupts\<close>

lemma frame_clean_ring: "keepsp (wires p) (clean_ring ring)"
proof (unfold keepsp_def, intro allI impI)
  fix st r st' assume inv: "wires p st" and "clean_ring ring st = Some (r, st')"
  then obtain n where "updates (upd_ring (fst ring) (snd ring) (\<lambda>r. r\<lparr>rg_cons_ptr := n\<rparr>)) st = (r, st')"
    by (auto simp: clean_ring_def Let_def)
  moreover have "keeps (wires p) (updates (upd_ring (fst ring) (snd ring) (\<lambda>r. r\<lparr>rg_cons_ptr := n\<rparr>)))"
    by (intro frame_intros) simp
  ultimately show "wires p st'" using inv by (metis keepsD)
qed

lemma frame_process_cq:
  assumes step: "\<And>q region ring d n. keeps (wires p) (step q region ring d n)"
    and finish: "\<And>ring. keeps (wires p) (finish ring)"
  shows "keepsp (wires p) (process_cq hw step finish j)"
proof -
  have tail: "keepsp (wires p) (\<lambda>st2.
      case athen (updates (upd_cq j (\<lambda>q. q\<lparr>cpq_cons_ptr := n\<rparr>))) (cpq_write_cons_ptr hw j) st2 of
         (Inl e, st3) \<Rightarrow> Some (Inl e, st3)
       | (Inr _, st3) \<Rightarrow> Option.bind (clean_ring ring st3) (\<lambda>(r, st4). Some (finish ring st4)))" for ring n
    unfolding keepsp_def
  proof (intro allI impI, goal_cases)
    case (1 s r s')
    have k: "keeps (wires p) (athen (updates (upd_cq j (\<lambda>q. q\<lparr>cpq_cons_ptr := n\<rparr>))) (cpq_write_cons_ptr hw j))"
      by (intro keeps_intros frame_intros; simp)
    obtain r3 st3 where mid: "athen (updates (upd_cq j (\<lambda>q. q\<lparr>cpq_cons_ptr := n\<rparr>))) (cpq_write_cons_ptr hw j) s = (r3, st3)"
      by (metis surj_pair)
    from keepsD [OF k 1(1) mid] have inv3: "wires p st3" .
    show ?case
    proof (cases r3)
      case (Inr x)
      with 1(2) mid obtain r4 st4 where "clean_ring ring st3 = Some (r4, st4)" and last: "finish ring st4 = (r, s')"
        by (auto simp: bind_eq_Some_conv)
      then have "wires p st4" using keepspD [OF frame_clean_ring inv3] by blast
      then show ?thesis using keepsD [OF finish _ last] by blast
    qed (use 1(2) mid inv3 in simp)
  qed
  show ?thesis
    unfolding keepsp_def
  proof (intro allI impI)
    fix st r st' assume inv: "wires p st" and run: "process_cq hw step finish j st = Some (r, st')"
    obtain c where ctx: "handler_context j st = (c, st)" using handler_context_run(1) [of j st] by (metis surjective_pairing)
    show "wires p st'"
    proof (cases "\<exists>q ring d region. c = Inr (Some (q, ring, d)) \<and> cpq_buf_region q = Some region")
      case True
      then obtain q ring d region where c: "c = Inr (Some (q, ring, d))" "cpq_buf_region q = Some region" by blast
      have "keepsp (wires p) (\<lambda>st.
          after (consume (\<lambda>p st. completion_valid hw q region p (fst st)) (total (step q region ring d)) (cpq_cons_ptr q) st)
            (\<lambda>n st2. case athen (updates (upd_cq j (\<lambda>q. q\<lparr>cpq_cons_ptr := n\<rparr>))) (cpq_write_cons_ptr hw j) st2 of
               (Inl e, st3) \<Rightarrow> Some (Inl e, st3)
             | (Inr _, st3) \<Rightarrow> Option.bind (clean_ring ring st3) (\<lambda>(r, st4). Some (finish ring st4))))"
        (is "keepsp _ ?m") by (intro keepsp_intros step tail)
      moreover have "?m st = Some (r, st')" using run ctx c by (simp add: process_cq_def)
      ultimately show ?thesis using inv by (blast intro: keepspD)
    qed (use run ctx inv in \<open>auto simp: process_cq_def split: sum.splits option.splits\<close>)
  qed
qed

lemma frame_handlers: "keepsp (wires p) (run_handler hw handler j)"
proof -
  have tx: "keepsp (wires p) (process_tx_cq hw j)" and rx: "keepsp (wires p) (process_rx_cq hw j)"
    unfolding process_tx_cq_def process_rx_cq_def tx_completion_step_def rx_completion_step_def
    by (intro frame_process_cq keeps_intros frame_intros; simp)+
  have "run_handler hw (Some TX) j = process_tx_cq hw j" "run_handler hw (Some RX) j = process_rx_cq hw j"
    "run_handler hw None j = (\<lambda>st. Some (Inl TypeError, st))"
    by (simp_all add: fun_eq_iff)
  note run = this
  show ?thesis
  proof (cases handler)
    case None
    then show ?thesis by (simp add: run(3) keepsp_def)
  next
    case (Some k)
    with run tx rx show ?thesis by (cases k) simp_all
  qed
qed

lemma frame_event_step: "keepsp (wires p) (event_step hw q region n)"
  unfolding keepsp_def
proof (intro allI impI)
  fix st r st' assume inv: "wires p st" and run: "event_step hw q region n st = Some (r, st')"
  show "wires p st'"
  proof (cases "\<exists>j. le_field 2 0 (event_bytes hw q region n (fst st)) = MQNIC_EVENT_TYPE_CPL \<and>
      dget (evq_cq_table q) (le_field 2 2 (event_bytes hw q region n (fst st))) = Some j")
    case True
    then obtain j where ev: "le_field 2 0 (event_bytes hw q region n (fst st)) = MQNIC_EVENT_TYPE_CPL"
      "dget (evq_cq_table q) (le_field 2 2 (event_bytes hw q region n (fst st))) = Some j" by blast
    have "keepsp (wires p) (\<lambda>st'. and_then (run_handler hw (cpq_handler (nic_cqs (snd st) ! j)) j st') (cpq_arm hw j))"
      by (intro keepsp_intros frame_handlers frame_intros)
    moreover have "and_then (run_handler hw (cpq_handler (nic_cqs (snd st) ! j)) j st) (cpq_arm hw j) = Some (r, st')"
      using run ev by (simp add: event_step_def Let_def)
    ultimately show ?thesis using inv by (blast intro: keepspD)
  next
    case False
    with run inv show ?thesis by (auto simp: event_step_def Let_def split: if_splits option.splits)
  qed
qed

lemma frame_process_eq: "keepsp (wires p) (process_eq hw i)"
  unfolding keepsp_def
proof (intro allI impI)
  fix st r st' assume inv: "wires p st" and run: "process_eq hw i st = Some (r, st')"
  let ?q = "nic_eqs (snd st) ! i"
  show "wires p st'"
  proof (cases "evq_buf_region ?q")
    case (Some region)
    have "keepsp (wires p) (\<lambda>st.
        after (consume (\<lambda>p st. event_valid hw ?q region p (fst st)) (event_step hw ?q region) (evq_cons_ptr ?q) st)
          (\<lambda>n st'. Some (athen (updates (upd_eq i (\<lambda>q. q\<lparr>evq_cons_ptr := n\<rparr>))) (evq_write_cons_ptr hw i) st')))"
      (is "keepsp _ ?m")
      by (intro keepsp_intros keeps_intros frame_event_step frame_intros) simp
    moreover have "?m st = Some (r, st')" using run Some by (simp add: process_eq_def Let_def)
    ultimately show ?thesis using inv by (blast intro: keepspD)
  qed (use run inv in \<open>simp add: process_eq_def\<close>)
qed

lemma frame_serve_eq: "keepsp (wires p) (serve_eq hw irq i)"
proof -
  have "keepsp (wires p) (\<lambda>st. and_then (process_eq hw i st) (evq_arm hw i))"
    by (intro keepsp_intros frame_process_eq frame_intros)
  then show ?thesis by (auto simp: keepsp_def serve_eq_def)
qed


section \<open>Net devices, ports and schedulers\<close>

lemma frame_transmission [frame_intros]:
  "keeps (wires p) (start_xmit hw d data tx_ring csum_start csum_offset)"
  "keeps (wires p) (resume_xmit hw i data csum_start csum_offset)"
proof -
  have attempt: "keeps (wires p) (xmit_attempt hw i data csum_start csum_offset)" for i
    unfolding xmit_attempt_def xmit_send_def by (intro keeps_intros frame_intros; simp)
  show "keeps (wires p) (start_xmit hw d data tx_ring csum_start csum_offset)"
    "keeps (wires p) (resume_xmit hw i data csum_start csum_offset)"
    unfolding start_xmit_def resume_xmit_def the_ndev_def by (intro keeps_intros attempt frame_intros)+
qed

lemma frame_reception [frame_intros]: "keeps (wires p) (ndev_recv d)"
proof -
  have "keeps (wires p) (recv_nowait d)"
    unfolding recv_nowait_def the_ndev_def
    by (intro keeps_intros frame_intros) (auto split: list.split intro!: keeps_intros frame_intros)
  then show ?thesis unfolding ndev_recv_def recv_wait_def the_ndev_def by (intro keeps_intros frame_intros)
qed

lemma frame_parts [frame_intros]:
  "keeps (wires p) (updates (upd_sched n f))" "keeps (wires p) (updates (upd_port k g))"
  "keeps (wires p) (updates (upd_block k u))"
  by (rule frame_other, simp add: upd_sched_def upd_port_def upd_block_def)+

lemma frame_with_sched [frame_intros]: "(\<And>sc. keeps (wires p) (f sc)) \<Longrightarrow> keeps (wires p) (with_sched n f)"
  unfolding with_sched_def by (intro keeps_intros frame_intros)

lemma frame_port_ops [frame_intros]:
  "keeps (wires p) (port_get hw k reg)" "keeps (wires p) (port_set hw k reg val)"
  "keeps (wires p) (set_tx_ctrl hw k val)" "keeps (wires p) (set_rx_ctrl hw k val)"
  "keeps (wires p) (set_lfc_ctrl hw k val)" "keeps (wires p) (set_pfc_ctrl hw k index val)"
  unfolding port_get_def port_set_def port_ctrl_def set_tx_ctrl_def set_rx_ctrl_def set_lfc_ctrl_def set_pfc_ctrl_def
  by (intro keeps_intros frame_intros)+

lemma frame_sched_ops [frame_intros]:
  "keeps (wires p) (set_queue_ctrl hw n queue val)" "keeps (wires p) (sp_enable_queue hw q queue)"
  "keeps (wires p) (sp_set_ch_dest hw q tc val)" "keeps (wires p) (sp_set_ch_pkt_budget hw q tc val)"
  "keeps (wires p) (sp_set_ch_data_budget hw q tc val)" "keeps (wires p) (sp_set_ch_pkt_limit hw q tc val)"
  "keeps (wires p) (sp_set_ch_data_limit hw q tc val)" "keeps (wires p) (sp_enable_ch hw q tc)"
  unfolding set_queue_ctrl_def queue_reg_def sp_enable_queue_def enable_queue_def enable_queue_port_def
    sp_set_ch_dest_def sp_set_ch_pkt_budget_def sp_set_ch_data_budget_def sp_set_ch_pkt_limit_def
    sp_set_ch_data_limit_def sp_enable_ch_def set_ch_dest_def set_ch_pkt_budget_def set_ch_data_budget_def
    set_ch_pkt_limit_def set_ch_data_limit_def enable_ch_def set_ch_ctrl_def
  by (intro keeps_intros frame_intros)+

lemma frame_sched_enable [frame_intros]: "keeps (wires p) (sp_enable hw q)"
  unfolding sp_enable_def sched_enable_def sched_hook_def set_ctrl_def
  by (intro keeps_intros keeps_case_kind frame_intros)

lemma frame_walk_blocks:
  assumes "\<And>blocks s. wiring (store blocks s) = wiring s"
  shows "keeps (wires p) (walk_blocks hw offset store)"
proof -
  have "keeps (wires p) (updates (store blocks))" for blocks by (rule frame_updates) (rule assms)
  then show ?thesis
    unfolding walk_blocks_def by (intro keeps_intros frame_reads frame_hardware)
qed

lemma frame_init_parts [frame_intros]:
  "keeps (wires p) (port_init hw k)" "keeps (wires p) (sched_init hw kind n)"
proof -
  show "keeps (wires p) (port_init hw k)"
    unfolding port_init_def by (intro keeps_intros frame_walk_blocks frame_intros wiring_frame) (simp_all add: upd_port_def)
  have "keeps (wires p) (round_robin_init hw n)" "keeps (wires p) (tdma_init hw n)"
    unfolding round_robin_init_def tdma_init_def Let_def
    by (intro keeps_intros frame_intros; simp add: upd_sched_def)+
  then show "keeps (wires p) (sched_init hw kind n)" by (cases kind) simp_all
qed

lemma frame_sched_block_init [frame_intros]: "keeps (wires p) (sched_block_init hw k)"
  unfolding sched_block_init_def create_sched_def
  by (intro keeps_intros frame_walk_blocks frame_intros wiring_frame) (simp_all add: upd_block_def)

lemma frame_queue_map [frame_intros]:
  "keeps (wires p) (set_rx_queue_map_rss_mask hw port val)" "keeps (wires p) (set_rx_queue_map_app_mask hw port val)"
  "keeps (wires p) (set_rx_queue_map_indir_table hw port index val)"
  "keeps (wires p) (update_rx_queue_map_indir_table hw d)"
  unfolding set_rx_queue_map_rss_mask_def set_rx_queue_map_app_mask_def queue_map_reg_def the_ndev_def
    set_rx_queue_map_indir_table_def indir_table_reg_def update_rx_queue_map_indir_table_def
  by (intro keeps_intros frame_intros)+

lemma frame_opening [frame_intros]:
  "keeps (wires p) take_sched_port" "keeps (wires p) (configure_sched_port hw q n)"
  "keeps (wires p) (ndev_close d)"
  unfolding take_sched_port_def configure_sched_port_def ndev_close_def the_ndev_def
  by (intro keeps_intros frame_intros; simp)+

lemma frame_init_steps [frame_intros]:
  "keeps (wires p) (find_block ty version index)" "keeps (wires p) (block_read hw rb reg)"
  "keeps (wires p) (set_mtu hw mtu)" "keeps (wires p) (quiesce hw qc ctrl_reg)"
  unfolding find_block_def block_read_def set_mtu_def quiesce_def
  by (intro keeps_intros frame_intros)+

lemma frame_init_phases [frame_intros]:
  "keeps (wires p) (init_control hw)" "keeps (wires p) (init_queue_map hw)" "keeps (wires p) (init_port hw k)"
  "keeps (wires p) (init_sched_block hw k)" "keeps (wires p) (init_ndev k)"
  unfolding init_control_def init_queue_map_def init_port_def init_sched_block_def init_ndev_def
  by (intro keeps_intros frame_intros; simp)+

end
