(* ===== verification/Nic_Linking.thy ===== *)
theory Nic_Linking
  imports Nic_Wiring
begin

text \<open>
  The operations that change the links between the objects of the NIC driver: opening and closing a
  completion queue or a ring. Between two steps that cannot raise the two ends of a link may differ;
  wherever an operation can raise, and at its end, they agree.
\<close>


section \<open>Linking and unlinking\<close>

text \<open>An index that no completion queue holds.\<close>

definition loose :: "int \<Rightarrow> wiring \<Rightarrow> bool" where
  "loose c w \<longleftrightarrow> linked w \<and> c \<notin> set (w_free w) \<and> (\<forall>j i. \<not> in_table w j i c)"

lemma wired_taken: "linked w \<Longrightarrow> w_free w = c # rest \<Longrightarrow> loose c (w\<lparr>w_free := rest\<rparr>)"
  by (fastforce simp: loose_def linked_def queues_wired_def rings_wired_def in_table_def feeds_def)

lemma wired_given: "loose c w \<Longrightarrow> linked (w\<lparr>w_free := sort (w_free w @ [c])\<rparr>)"
  by (auto simp: loose_def linked_def queues_wired_def rings_wired_def in_table_def feeds_def)

text \<open>Fields of a closed completion queue may change.\<close>

lemma closed_cq_fields:
  assumes "\<not> w_cq_open w j"
  shows "linked (w\<lparr>w_cqn := (w_cqn w)(j := x)\<rparr>) = linked w" "loose c (w\<lparr>w_cqn := (w_cqn w)(j := x)\<rparr>) = loose c w"
proof -
  have a: "in_table (w\<lparr>w_cqn := (w_cqn w)(j := x)\<rparr>) = in_table w"
    using assms by (auto simp: in_table_def fun_eq_iff)
  have f: "feeds (w\<lparr>w_cqn := (w_cqn w)(j := x)\<rparr>) = feeds w" by (simp add: feeds_def fun_eq_iff)
  show "linked (w\<lparr>w_cqn := (w_cqn w)(j := x)\<rparr>) = linked w" by (simp add: linked_def queues_wired_def rings_wired_def a f)
  then show "loose c (w\<lparr>w_cqn := (w_cqn w)(j := x)\<rparr>) = loose c w" by (simp add: loose_def a)
qed

abbreviation set_table :: "nat \<Rightarrow> int \<Rightarrow> nat option \<Rightarrow> wiring \<Rightarrow> wiring" where
  "set_table i c v w \<equiv> w\<lparr>w_table := (w_table w)(i := (w_table w i)(c := v))\<rparr>"

lemma wired_cq_opened:
  assumes "loose c w" "\<not> w_cq_open w j" "j < w_cqs w" "w_cqn w j = Some c" "i < w_eqs w"
  shows "linked ((set_table i c (Some j) w)\<lparr>w_cq_eq := (w_cq_eq w)(j := Some i), w_cq_open := (w_cq_open w)(j := True)\<rparr>)"
    (is "linked ?w")
proof -
  have w: "queues_wired w" "rings_wired w" "c \<notin> set (w_free w)" and c: "\<And>j i. \<not> in_table w j i c"
    using assms(1) by (simp_all add: loose_def linked_def)
  have a: "in_table ?w j' i' c' \<longleftrightarrow> (if j' = j then i' = i \<and> c' = c else in_table w j' i' c')" for j' i' c'
    using assms by (auto simp: in_table_def)
  have f: "feeds ?w = feeds w" by (simp add: feeds_def fun_eq_iff)
  have t: "w_table w i' c' = Some j' \<longleftrightarrow> in_table w j' i' c'" for i' c' j' using w(1) by (simp add: queues_wired_def)
  have j: "\<not> in_table w j i' c'" for i' c' using assms(2) by (simp add: in_table_def)
  have "queues_wired ?w"
    unfolding queues_wired_def a using w c t j assms(3,5)
    by (auto simp: queues_wired_def; metis)
  then show ?thesis using w(2) by (simp add: linked_def rings_wired_def f)
qed

lemma loose_cq_closed:
  assumes "linked w" "in_table w j i c"
  shows "loose c ((set_table i c None w)\<lparr>w_cq_eq := (w_cq_eq w)(j := None), w_cq_open := (w_cq_open w)(j := False)\<rparr>)"
    (is "loose c ?w")
proof -
  have w: "queues_wired w" "rings_wired w" using assms(1) by (simp_all add: linked_def)
  have a: "in_table ?w j' i' c' \<longleftrightarrow> j' \<noteq> j \<and> in_table w j' i' c'" for j' i' c' by (auto simp: in_table_def)
  have f: "feeds ?w = feeds w" by (simp add: feeds_def fun_eq_iff)
  have one: "in_table w j' i' c' \<Longrightarrow> c' = c \<longleftrightarrow> j' = j" for j' i' c'
    using w(1) assms(2) unfolding queues_wired_def by (metis in_table_def option.inject)
  have at: "in_table w j i' c' \<longleftrightarrow> i' = i \<and> c' = c" for i' c' using assms(2) by (auto simp: in_table_def)
  have inj: "in_table w j1 i1 c' \<Longrightarrow> in_table w j2 i2 c' \<Longrightarrow> j2 = j1" for j1 i1 j2 i2 c'
    using w(1) unfolding queues_wired_def by blast
  have "queues_wired ?w" unfolding queues_wired_def a using w(1) one at inj by (auto simp: queues_wired_def)
  moreover have "c \<notin> set (w_free w)" using w(1) assms(2) by (auto simp: queues_wired_def)
  ultimately show ?thesis using w(2) one a by (auto simp: loose_def linked_def rings_wired_def f)
qed

abbreviation set_ring_cq :: "ring_kind \<Rightarrow> nat \<Rightarrow> nat option \<Rightarrow> wiring \<Rightarrow> wiring" where
  "set_ring_cq k i v w \<equiv> w\<lparr>w_ring_cq := (w_ring_cq w)(k := (w_ring_cq w k)(i := v))\<rparr>"

abbreviation set_source :: "nat \<Rightarrow> (ring_kind \<times> nat) option \<Rightarrow> wiring \<Rightarrow> wiring" where
  "set_source j v w \<equiv> w\<lparr>w_source := (w_source w)(j := v), w_handler := (w_handler w)(j := map_option fst v)\<rparr>"

abbreviation set_ring_open :: "ring_kind \<Rightarrow> nat \<Rightarrow> bool \<Rightarrow> wiring \<Rightarrow> wiring" where
  "set_ring_open k i v w \<equiv> w\<lparr>w_ring_open := (w_ring_open w)(k := (w_ring_open w k)(i := v))\<rparr>"

lemma closed_ring_cq:
  assumes "\<not> w_ring_open w k i"
  shows "linked (set_ring_cq k i v w) = linked w"
proof -
  have "feeds (set_ring_cq k i v w) = feeds w" using assms by (auto simp: feeds_def fun_eq_iff)
  moreover have "in_table (set_ring_cq k i v w) = in_table w" by (simp add: in_table_def fun_eq_iff)
  ultimately show ?thesis by (simp add: linked_def queues_wired_def rings_wired_def)
qed

lemma wired_ring_opened:
  assumes "linked w" "\<not> w_ring_open w k i" "i < w_rings w k" "w_ring_cq w k i = Some j" "j < w_cqs w" "w_source w j = None"
  shows "linked (set_ring_open k i True (set_source j (Some (k, i)) w))" (is "linked ?w")
proof -
  have w: "queues_wired w" "rings_wired w" using assms(1) by (simp_all add: linked_def)
  have a: "in_table ?w = in_table w" by (simp add: in_table_def fun_eq_iff)
  have f: "feeds ?w ring j' \<longleftrightarrow> (if ring = (k, i) then j' = j else feeds w ring j')" for ring j'
    using assms(4) by (cases ring) (auto simp: feeds_def)
  have "\<not> feeds w ring j" for ring using w(2) assms(6) by (metis rings_wired_def option.distinct(1))
  then have "rings_wired ?w" unfolding rings_wired_def f using w(2) assms(2,3,5) by (auto simp: rings_wired_def feeds_def)
  moreover have "queues_wired ?w" unfolding queues_wired_def a using w(1) by (simp add: queues_wired_def)
  ultimately show ?thesis by (simp only: linked_def)
qed

lemma wired_ring_closed:
  assumes "linked w" "feeds w (k, i) j"
  shows "linked (set_ring_open k i False (set_ring_cq k i None (set_source j None w)))" (is "linked ?w")
proof -
  have w: "queues_wired w" "rings_wired w" using assms(1) by (simp_all add: linked_def)
  have a: "in_table ?w = in_table w" by (simp add: in_table_def fun_eq_iff)
  have f: "feeds ?w ring j' \<longleftrightarrow> ring \<noteq> (k, i) \<and> feeds w ring j'" for ring j' by (cases ring) (auto simp: feeds_def)
  have s: "w_source w j' = Some ring \<longleftrightarrow> feeds w ring j'" for ring j' using w(2) unfolding rings_wired_def by blast
  have one: "feeds w ring j \<longleftrightarrow> ring = (k, i)" for ring using s assms(2) by (metis option.inject)
  have one': "feeds w (k, i) j' \<longleftrightarrow> j' = j" for j' using assms(2) by (auto simp: feeds_def)
  have "rings_wired ?w" unfolding rings_wired_def f using w(2) one one' by (auto simp: rings_wired_def)
  moreover have "queues_wired ?w" unfolding queues_wired_def a using w(1) by (simp add: queues_wired_def)
  ultimately show ?thesis by (simp only: linked_def)
qed

text \<open>New objects are not linked yet.\<close>

lemma wired_grown:
  assumes "linked w" "w_eqs w \<le> n" "w_cqs w \<le> m" "\<forall>k. w_rings w k \<le> l k" "\<forall>i \<in> set is. i < n"
  shows "linked (w\<lparr>w_eq := w_eq w @ is, w_eqs := n, w_cqs := m, w_rings := l\<rparr>)"
proof -
  let ?w = "w\<lparr>w_eq := w_eq w @ is, w_eqs := n, w_cqs := m, w_rings := l\<rparr>"
  have "in_table ?w = in_table w" "feeds ?w = feeds w" by (simp_all add: in_table_def feeds_def fun_eq_iff)
  with assms show ?thesis
    by (simp add: linked_def queues_wired_def rings_wired_def ball_Un) (meson order_less_le_trans)
qed


section \<open>Operations that link and unlink\<close>

text \<open>From \<open>P\<close> an operation returns a value with \<open>R\<close>, or raises where \<open>Q\<close> holds.\<close>

definition gives ::
  "('s \<Rightarrow> bool) \<Rightarrow> ('s, 'e, 'a) act \<Rightarrow> ('a \<Rightarrow> 's \<Rightarrow> bool) \<Rightarrow> ('s \<Rightarrow> bool) \<Rightarrow> bool" where
  "gives P m R Q \<longleftrightarrow> (\<forall>s. P s \<longrightarrow> (case m s of (Inl e, s') \<Rightarrow> Q s' | (Inr x, s') \<Rightarrow> R x s'))"

lemma gives_abind:
  "gives P m R Q \<Longrightarrow> (\<And>x. gives (R x) (f x) R' Q) \<Longrightarrow> gives P (abind m f) R' Q"
  by (fastforce simp: gives_def abind_def split: prod.splits sum.splits)

lemma gives_athen: "gives P m (\<lambda>_. R) Q \<Longrightarrow> gives R k R' Q \<Longrightarrow> gives P (athen m k) R' Q"
  unfolding athen_def by (rule gives_abind)

lemma gives_end: "gives P m (\<lambda>_. I) I \<Longrightarrow> P s \<Longrightarrow> m s = (r, s') \<Longrightarrow> I s'"
  by (cases r) (force simp: gives_def)+

lemma gives_aret: "(\<And>s. P s \<Longrightarrow> R x s) \<Longrightarrow> gives P (aret x) R Q"
  by (simp add: gives_def)

lemma gives_weaken:
  "gives P m R Q \<Longrightarrow> (\<And>s. P' s \<Longrightarrow> P s) \<Longrightarrow> (\<And>x s. R x s \<Longrightarrow> R' x s) \<Longrightarrow> (\<And>s. Q s \<Longrightarrow> Q' s) \<Longrightarrow> gives P' m R' Q'"
  by (fastforce simp: gives_def split: prod.splits sum.splits)

lemma gives_keeps: "gives I m (\<lambda>_. I) I \<longleftrightarrow> keeps I m"
  by (auto simp: gives_def keeps_def split: prod.splits sum.splits) (metis snd_conv surj_pair sum.exhaust)+

text \<open>The rules on links: a part that leaves them alone, an update, a window, a look at an object.\<close>

lemma gives_frame:
  "keeps (wires p) m \<Longrightarrow> (\<And>w. p w \<Longrightarrow> q w) \<Longrightarrow> gives (wires p) m (\<lambda>_. wires p) (wires q)"
  by (rule gives_weaken [of "wires p" m "\<lambda>_. wires p" "wires p"]) (simp_all add: gives_keeps wires_def)

lemma gives_updates:
  "(\<And>s. p (wiring s) \<Longrightarrow> p' (wiring (f s))) \<Longrightarrow> gives (wires p) (updates f) (\<lambda>_. wires p') Q"
  by (auto simp: gives_def updates_def wires_def)

lemma gives_take_window: "gives (wires p) (take_window qc index) (\<lambda>_. wires p) Q"
proof (unfold gives_def, intro allI impI)
  fix st :: "'a \<times> 'b nic" assume "wires p st"
  moreover obtain h s where "st = (h, s)" by fastforce
  ultimately show "case take_window qc index st of (Inl e, s') \<Rightarrow> Q s' | (Inr x, s') \<Rightarrow> wires p s'"
    using take_window_run [of qc index h s] by (auto simp: wires_def)
qed

lemma gives_reads:
  "(\<And>s. p (wiring s) \<Longrightarrow> p' (f s) (wiring s)) \<Longrightarrow> gives (wires p) (reads f) (\<lambda>x. wires (p' x)) Q"
  by (auto simp: gives_def reads_def wires_def)

lemma gives_guard:
  "(\<And>w. p w \<Longrightarrow> q w) \<Longrightarrow> gives (wires p) (aguard b e) (\<lambda>_. wires (\<lambda>w. p w \<and> b)) (wires q)"
  by (cases b) (simp_all add: gives_def wires_def)

lemma gives_need:
  "(\<And>w. p w \<Longrightarrow> q w) \<Longrightarrow> gives (wires p) (aneed e v) (\<lambda>x. wires (\<lambda>w. p w \<and> v = Some x)) (wires q)"
  by (cases v) (auto simp: gives_def wires_def)

lemma gives_need_int:
  "(\<And>w. p w \<Longrightarrow> q w) \<Longrightarrow> gives (wires p) (need_int v) (\<lambda>x. wires (\<lambda>w. p w \<and> v = Some x)) (wires q)"
  unfolding need_int_def by (rule gives_need)

text \<open>What an update of one object does to the links.\<close>

lemma wiring_table:
  "i < w_eqs (wiring s) \<Longrightarrow> wiring (upd_eq i (\<lambda>q. q\<lparr>evq_cq_table := dset (evq_cq_table q) c j\<rparr>) s) =
     set_table i c (Some j) (wiring s)"
  "i < w_eqs (wiring s) \<Longrightarrow> wiring (upd_eq i (\<lambda>q. q\<lparr>evq_cq_table := dpop (evq_cq_table q) c\<rparr>) s) =
     set_table i c None (wiring s)"
  by (simp_all add: upd_eq_def wiring_eqs fun_eq_iff field_update)
    (simp_all add: wiring_def field_def fun_eq_iff)

lemma wiring_cq:
  assumes "j < w_cqs (wiring s)"
  shows "wiring (upd_cq j f s) = (let q = f (nic_cqs s ! j); w = wiring s in
    w\<lparr>w_cq_open := (w_cq_open w)(j := cpq_hw_regs q \<noteq> None), w_cq_eq := (w_cq_eq w)(j := cpq_eq q),
      w_cqn := (w_cqn w)(j := cpq_cqn q), w_source := (w_source w)(j := cpq_src_ring q),
      w_handler := (w_handler w)(j := cpq_handler q)\<rparr>)"
  using assms by (simp add: upd_cq_def wiring_cqs Let_def) (simp add: wiring_def fun_eq_iff field_update)

lemma cq_fields:
  assumes "j < w_cqs (wiring s)"
  shows "w_cq_open (wiring s) j \<longleftrightarrow> cpq_hw_regs (nic_cqs s ! j) \<noteq> None" "w_cq_eq (wiring s) j = cpq_eq (nic_cqs s ! j)"
    "w_cqn (wiring s) j = cpq_cqn (nic_cqs s ! j)" "w_source (wiring s) j = cpq_src_ring (nic_cqs s ! j)"
    "w_handler (wiring s) j = cpq_handler (nic_cqs s ! j)"
  using assms by (simp_all add: wiring_def field_def)

lemma cq_open_Some: "j < w_cqs (wiring s) \<Longrightarrow> (\<exists>w. cpq_hw_regs (nic_cqs s ! j) = Some w) \<longleftrightarrow> w_cq_open (wiring s) j"
  by (simp add: cq_fields)

lemma wiring_ring_at:
  assumes "i < w_rings (wiring s) k"
  shows "wiring (upd_ring k i f s) = (let r = f (the_ring k i s) in
    set_ring_open k i (rg_hw_regs r \<noteq> None) (set_ring_cq k i (rg_cq r) (wiring s)))"
  using assms by (simp add: wiring_ring Let_def the_ring_rings) (simp add: wiring_def fun_eq_iff field_update)

lemma ring_fields:
  assumes "i < w_rings (wiring s) k"
  shows "w_ring_open (wiring s) k i \<longleftrightarrow> rg_hw_regs (the_ring k i s) \<noteq> None"
    "w_ring_cq (wiring s) k i = rg_cq (the_ring k i s)"
  using assms by (simp_all add: wiring_def field_def the_ring_rings)

lemma wiring_free: "wiring (set_res CQ rc s) = (wiring s)\<lparr>w_free := rc_free_list rc\<rparr>"
proof -
  have "rings k (set_res CQ rc s) = rings k s" for k by (cases k) simp_all
  then show ?thesis by (simp add: wiring_def)
qed

lemma gives_take_cqn:
  assumes g: "\<And>w free. g (w\<lparr>w_free := free\<rparr>) = g w"
  shows "gives (wires (\<lambda>w. linked w \<and> g w)) (take_index CQ) (\<lambda>c. wires (\<lambda>w. loose c w \<and> g w)) (wires (\<lambda>w. linked w \<and> g w))"
proof (unfold gives_def, intro allI impI)
  fix st :: "'a \<times> 'b nic" assume p: "wires (\<lambda>w. linked w \<and> g w) st"
  obtain h s where st: "st = (h, s)" by fastforce
  show "case take_index CQ st of (Inl e, s') \<Rightarrow> wires (\<lambda>w. linked w \<and> g w) s' | (Inr c, s') \<Rightarrow> wires (\<lambda>w. loose c w \<and> g w) s'"
  proof (cases "rc_free_list (nic_cq_res s)")
    case Nil
    with p show ?thesis by (simp add: take_index_def st reads_def res_alloc_def)
  next
    case (Cons c rest)
    let ?s = "set_res CQ ((nic_cq_res s)\<lparr>rc_free_list := rest\<rparr>) s"
    have run: "take_index CQ st = (Inr c, (h, ?s))"
      using Cons by (simp add: take_index_def st reads_def updates_def res_alloc_def)
    have w: "wiring ?s = (wiring s)\<lparr>w_free := rest\<rparr>" unfolding wiring_free by simp
    have "loose c (wiring ?s) \<and> g (wiring ?s)"
      unfolding w g using p wired_taken [of "wiring s" c rest] by (simp add: st wires_def wiring_def Cons)
    then show ?thesis unfolding run by (simp only: prod.case sum.case wires_def snd_conv)
  qed
qed


text \<open>A completion queue no ring feeds yet; one that is closed, with a number of its own from then on.\<close>

definition unlinked :: "nat \<Rightarrow> wiring \<Rightarrow> bool" where
  "unlinked j w \<longleftrightarrow> linked w \<and> j < w_cqs w \<and> w_source w j = None"

definition closed_cq :: "nat \<Rightarrow> nat \<Rightarrow> wiring \<Rightarrow> bool" where
  "closed_cq j i w \<longleftrightarrow> \<not> w_cq_open w j \<and> j < w_cqs w \<and> w_source w j = None \<and> i < w_eqs w"

definition numbered :: "nat \<Rightarrow> nat \<Rightarrow> int \<Rightarrow> wiring \<Rightarrow> bool" where
  "numbered j i c w \<longleftrightarrow> loose c w \<and> closed_cq j i w \<and> w_cqn w j = Some c"

lemma numbered_wired: "numbered j i c w \<Longrightarrow> linked w"
  by (simp add: numbered_def loose_def)

lemma link_number:
  "loose c (wiring s) \<Longrightarrow> closed_cq j i (wiring s) \<Longrightarrow>
    (\<And>q. cpq_hw_regs (f q) = cpq_hw_regs q \<and> cpq_eq (f q) = cpq_eq q \<and> cpq_cqn (f q) = Some c \<and>
       cpq_src_ring (f q) = cpq_src_ring q \<and> cpq_handler (f q) = cpq_handler q) \<Longrightarrow>
    numbered j i c (wiring (upd_cq j f s))"
  using cq_fields [of j s] closed_cq_fields(2) [of "wiring s" j c "Some c"]
  by (auto simp: closed_cq_def numbered_def wiring_cq Let_def fun_upd_idem)

lemma link_eq:
  assumes "numbered j i c w0" "wiring s = set_table i c (Some j) w0"
  shows "wiring (upd_cq j (\<lambda>q. q\<lparr>cpq_eq := Some i\<rparr>) s) =
    (set_table i c (Some j) w0)\<lparr>w_cq_eq := (w_cq_eq w0)(j := Some i)\<rparr>"
proof -
  have j: "j < w_cqs (wiring s)" using assms by (simp add: numbered_def closed_cq_def)
  have "wiring (upd_cq j (\<lambda>q. q\<lparr>cpq_eq := Some i\<rparr>) s) = (wiring s)\<lparr>w_cq_eq := (w_cq_eq (wiring s))(j := Some i)\<rparr>"
    by (simp add: wiring_cq [OF j] Let_def cq_open_Some [OF j] flip: cq_fields(2-) [OF j])
  then show ?thesis by (simp add: assms(2))
qed

lemma link_open:
  assumes "numbered j i c w0" "wiring s = (set_table i c (Some j) w0)\<lparr>w_cq_eq := (w_cq_eq w0)(j := Some i)\<rparr>"
  shows "unlinked j (wiring (upd_cq j (\<lambda>q. q\<lparr>cpq_hw_regs := Some x\<rparr>) s))"
proof -
  have j: "j < w_cqs (wiring s)" "j < w_cqs w0" using assms by (simp_all add: numbered_def closed_cq_def)
  have "wiring (upd_cq j (\<lambda>q. q\<lparr>cpq_hw_regs := Some x\<rparr>) s) = (wiring s)\<lparr>w_cq_open := (w_cq_open (wiring s))(j := True)\<rparr>"
    by (simp add: wiring_cq [OF j(1)] Let_def flip: cq_fields(2-) [OF j(1)])
  moreover have "linked (\<dots>)"
    using wired_cq_opened [of c w0 j i] assms by (simp add: numbered_def closed_cq_def)
  ultimately show ?thesis using assms by (simp add: unlinked_def numbered_def closed_cq_def)
qed

lemma gives_closed_cq:
  assumes "\<And>w. p w \<Longrightarrow> j < w_cqs w" "\<And>w. p w \<Longrightarrow> q w" "\<And>x. gives (wires (\<lambda>w. p w \<and> \<not> w_cq_open w j)) (k x) R (wires q)"
  shows "gives (wires p) (abind (reads (\<lambda>s. nic_cqs s ! j)) (\<lambda>x. athen (aguard (cpq_hw_regs x = None) e) (k x))) R (wires q)"
proof (rule gives_abind [where R = "\<lambda>x. wires (\<lambda>w. p w \<and> (cpq_hw_regs x = None \<longrightarrow> \<not> w_cq_open w j))"])
  show "gives (wires (\<lambda>w. p w \<and> (cpq_hw_regs x = None \<longrightarrow> \<not> w_cq_open w j)))
      (athen (aguard (cpq_hw_regs x = None) e) (k x)) R (wires q)" for x
    by (cases "cpq_hw_regs x = None"; use assms(2,3) in \<open>auto simp: gives_def wires_def split: prod.splits\<close>)
qed (rule gives_reads, metis assms(1) cq_fields(1))

lemma link_cpq_open:
  "gives (wires (\<lambda>w. unlinked j w \<and> i < w_eqs w)) (cpq_open hw j i qsize) (\<lambda>_. wires (unlinked j)) (wires linked)"
  unfolding cpq_open_def
  apply (rule gives_closed_cq)
    apply (simp add: unlinked_def)
   apply (simp add: unlinked_def)
  apply (rule gives_abind [where R = "\<lambda>c. wires (\<lambda>w. loose c w \<and> closed_cq j i w)"])
   apply (rule gives_weaken [OF gives_take_cqn [where g = "closed_cq j i"]])
      apply (simp_all add: closed_cq_def unlinked_def wires_def) [4]
  apply (rule gives_athen [where R = "wires (numbered j i x)" for x])
   apply (rule gives_updates, erule conjE, rule link_number)
     apply simp_all [3]
  apply (rule gives_abind, rule gives_frame, rule frame_intros, erule numbered_wired)
  apply (rule gives_athen, rule gives_frame, rule frame_intros, erule numbered_wired)
  apply (rule gives_athen, rule gives_frame, rule frame_intros, simp, erule numbered_wired)
  apply (rule gives_athen [where R = "wires (\<lambda>w. \<exists>w0. numbered j i x w0 \<and> w = set_table i x (Some j) w0)" for x])
   apply (unfold attach_cq_def, rule gives_updates)
   apply (auto simp: numbered_def closed_cq_def wiring_table) [1]
  apply (rule gives_athen [where R = "wires (\<lambda>w. \<exists>w0. numbered j i x w0 \<and>
      w = (set_table i x (Some j) w0)\<lparr>w_cq_eq := (w_cq_eq w0)(j := Some i)\<rparr>)" for x])
   apply (rule gives_updates, elim exE conjE, intro exI conjI, assumption, erule link_eq, assumption)
  apply (rule gives_abind, rule gives_take_window)
  apply (rule gives_athen [where R = "wires (unlinked j)"])
   apply (rule gives_updates, elim exE conjE, erule link_open, assumption)
  apply (rule gives_frame)
   apply (intro keeps_intros frame_intros; simp)
  apply (simp add: unlinked_def)
  done


lemma in_table_eq: "linked w \<Longrightarrow> in_table w j i c \<Longrightarrow> i < w_eqs w"
  by (auto simp: linked_def queues_wired_def in_table_def)

lemma link_detach:
  "gives (wires (\<lambda>w. linked w \<and> in_table w j i c)) (detach_cq i c)
    (\<lambda>_. wires (\<lambda>w. \<exists>w0. linked w0 \<and> in_table w0 j i c \<and> w = set_table i c None w0)) (wires linked)"
  unfolding detach_cq_def
  apply (rule gives_abind, rule gives_frame, rule frame_intros, simp)
  apply (rule gives_athen, rule gives_guard, simp)
  apply (rule gives_updates, elim conjE, intro exI conjI, assumption, assumption)
  apply (rule wiring_table(2), erule in_table_eq, assumption)
  done

lemma link_close:
  assumes "linked w0" "in_table w0 j i c" "wiring s = set_table i c None w0"
  shows "loose c (wiring (upd_cq j (\<lambda>q. q\<lparr>cpq_eq := None, cpq_enabled := False, cpq_hw_regs := None\<rparr>) s))"
    "\<not> w_cq_open (wiring (upd_cq j (\<lambda>q. q\<lparr>cpq_eq := None, cpq_enabled := False, cpq_hw_regs := None\<rparr>) s)) j"
proof -
  have j: "j < w_cqs (wiring s)" using assms by (auto simp: linked_def queues_wired_def in_table_def)
  have w: "wiring (upd_cq j (\<lambda>q. q\<lparr>cpq_eq := None, cpq_enabled := False, cpq_hw_regs := None\<rparr>) s) =
      (wiring s)\<lparr>w_cq_eq := (w_cq_eq (wiring s))(j := None), w_cq_open := (w_cq_open (wiring s))(j := False)\<rparr>"
    by (simp add: wiring_cq [OF j] Let_def flip: cq_fields(2-) [OF j])
  show "loose c (wiring (upd_cq j (\<lambda>q. q\<lparr>cpq_eq := None, cpq_enabled := False, cpq_hw_regs := None\<rparr>) s))"
    "\<not> w_cq_open (wiring (upd_cq j (\<lambda>q. q\<lparr>cpq_eq := None, cpq_enabled := False, cpq_hw_regs := None\<rparr>) s)) j"
    unfolding w using loose_cq_closed [OF assms(1,2)] by (simp_all add: assms(3))
qed

lemma link_forget:
  assumes "linked (wiring s)" "\<not> w_cq_open (wiring s) j"
  shows "linked (wiring (upd_cq j (\<lambda>q. q\<lparr>cpq_cqn := None\<rparr>) s))"
proof (cases "j < w_cqs (wiring s)")
  case True
  then have "wiring (upd_cq j (\<lambda>q. q\<lparr>cpq_cqn := None\<rparr>) s) = (wiring s)\<lparr>w_cqn := (w_cqn (wiring s))(j := None)\<rparr>"
    by (simp add: wiring_cq Let_def cq_open_Some flip: cq_fields(2-))
  with assms closed_cq_fields(1) [of "wiring s" j None] show ?thesis by simp
next
  case False
  then have "upd_cq j (\<lambda>q. q\<lparr>cpq_cqn := None\<rparr>) s = s" by (simp add: upd_cq_def wiring_def list_update_beyond)
  with assms(1) show ?thesis by simp
qed

lemma link_cpq_close:
  "gives (wires (\<lambda>w. linked w \<and> j < w_cqs w)) (cpq_close hw j) (\<lambda>_. wires linked) (wires linked)"
  unfolding cpq_close_def
  apply (rule gives_abind [where R = "\<lambda>q. wires (\<lambda>w. linked w \<and> (cpq_hw_regs q \<noteq> None \<longrightarrow> w_cq_open w j) \<and>
      cpq_eq q = w_cq_eq w j \<and> cpq_cqn q = w_cqn w j)"])
   apply (rule gives_reads, simp add: cq_fields)
  apply (case_tac "cpq_hw_regs x"; simp only: option.case)
   apply (rule gives_aret, simp add: wires_def)
  apply (rule gives_athen, rule gives_frame, rule frame_intros, simp)
  apply (rule gives_abind, rule gives_need, simp)
  apply (rule gives_abind, rule gives_need, simp)
  apply (rule gives_athen [where R = "wires (\<lambda>w. \<exists>w0. linked w0 \<and> in_table w0 j i c \<and> w = set_table i c None w0)" for i c])
   apply (rule gives_weaken [OF link_detach]; auto simp: wires_def in_table_def)
  apply (rule gives_athen [where R = "wires (\<lambda>w. loose c w \<and> \<not> w_cq_open w j)" for c])
   apply (rule gives_updates, elim exE conjE, intro conjI, erule link_close, assumption, assumption,
      erule link_close, assumption, assumption)
  apply (rule gives_athen [where R = "wires (\<lambda>w. linked w \<and> \<not> w_cq_open w j)"])
   apply (unfold give_index_def, rule gives_updates)
   apply (simp only: wiring_free, simp add: res_free_def)
   apply (auto dest: wired_given simp: wiring_def) [1]
  apply (rule gives_updates, elim conjE, erule link_forget, assumption)
  done


text \<open>A closed ring that is about to be fed into a completion queue.\<close>

definition pointed :: "ring_kind \<Rightarrow> nat \<Rightarrow> nat \<Rightarrow> wiring \<Rightarrow> bool" where
  "pointed k i j w \<longleftrightarrow> unlinked j w \<and> i < w_rings w k \<and> \<not> w_ring_open w k i \<and> w_ring_cq w k i = Some j"

lemma ring_open_Some:
  "i < w_rings (wiring s) k \<Longrightarrow> (\<exists>w. rg_hw_regs (the_ring k i s) = Some w) \<longleftrightarrow> w_ring_open (wiring s) k i"
  by (simp add: ring_fields)

lemma link_point:
  assumes "unlinked j (wiring s)" "i < w_rings (wiring s) k" "\<not> w_ring_open (wiring s) k i"
    and f: "\<And>r. rg_hw_regs (f r) = rg_hw_regs r \<and> rg_cq (f r) = Some j"
  shows "pointed k i j (wiring (upd_ring k i f s))"
proof -
  have same: "set_ring_open k i False (wiring s) = wiring s" using assms(3) by (simp add: fun_upd_idem)
  have "wiring (upd_ring k i f s) = set_ring_cq k i (Some j) (wiring s)"
    using f [of "the_ring k i s"] ring_fields(1) [OF assms(2)] assms(3)
    by (simp add: wiring_ring_at [OF assms(2)] Let_def) (subst same [symmetric], simp)
  with assms(1-3) closed_ring_cq [OF assms(3), of "Some j"] show ?thesis by (simp add: pointed_def unlinked_def)
qed

lemma link_source:
  assumes "j < w_cqs (wiring s)"
    and f: "\<And>q. cpq_hw_regs (f q) = cpq_hw_regs q \<and> cpq_eq (f q) = cpq_eq q \<and> cpq_cqn (f q) = cpq_cqn q \<and>
      cpq_src_ring (f q) = v \<and> cpq_handler (f q) = map_option fst v"
  shows "wiring (upd_cq j f s) = set_source j v (wiring s)"
  using f [of "nic_cqs s ! j"]
  by (simp add: wiring_cq [OF assms(1)] Let_def cq_open_Some [OF assms(1)] flip: cq_fields(2,3) [OF assms(1)])

lemma link_ring_up:
  assumes "pointed k i j w0" "wiring s = set_source j (Some (k, i)) w0"
  shows "linked (wiring (upd_ring k i (\<lambda>r. r\<lparr>rg_hw_regs := Some x\<rparr>) s))"
proof -
  have i: "i < w_rings (wiring s) k" using assms by (simp add: pointed_def)
  have "w_ring_cq (wiring s) k i = Some j" using assms by (simp add: pointed_def)
  then have "wiring (upd_ring k i (\<lambda>r. r\<lparr>rg_hw_regs := Some x\<rparr>) s) = set_ring_open k i True (wiring s)"
    by (simp add: wiring_ring_at [OF i] Let_def fun_upd_idem flip: ring_fields [OF i])
  with assms wired_ring_opened [of w0 k i j] show ?thesis by (simp add: pointed_def unlinked_def)
qed

lemma ring_class_not_cq: "ring_class k \<noteq> CQ"
  by (cases k) simp_all

lemma gives_closed_ring:
  assumes "\<And>w. p w \<Longrightarrow> i < w_rings w k" "\<And>w. p w \<Longrightarrow> q w" "\<And>x. gives (wires (\<lambda>w. p w \<and> \<not> w_ring_open w k i)) (m x) R (wires q)"
  shows "gives (wires p) (abind (reads (the_ring k i)) (\<lambda>x. athen (aguard (rg_hw_regs x = None) e) (m x))) R (wires q)"
proof (rule gives_abind [where R = "\<lambda>x. wires (\<lambda>w. p w \<and> (rg_hw_regs x = None \<longrightarrow> \<not> w_ring_open w k i))"])
  show "gives (wires (\<lambda>w. p w \<and> (rg_hw_regs x = None \<longrightarrow> \<not> w_ring_open w k i)))
      (athen (aguard (rg_hw_regs x = None) e) (m x)) R (wires q)" for x
    by (cases "rg_hw_regs x = None"; use assms(2,3) in \<open>auto simp: gives_def wires_def split: prod.splits\<close>)
qed (rule gives_reads, metis assms(1) ring_fields(1))

lemma link_ring_open:
  "gives (wires (\<lambda>w. unlinked j w \<and> i < w_rings w k)) (ring_open hw k i d j qsize block) (\<lambda>_. wires linked) (wires linked)"
  unfolding ring_open_def
  apply (rule gives_closed_ring)
    apply simp
   apply (simp add: unlinked_def)
  apply (rule gives_abind, rule gives_frame, rule frame_intros, rule ring_class_not_cq, simp add: unlinked_def)
  apply (rule gives_athen, rule gives_frame, rule frame_intros, simp, simp add: unlinked_def)
  apply (rule gives_abind, rule gives_frame, rule frame_intros, simp add: unlinked_def)
  apply (rule gives_athen [where R = "wires (pointed k i j)"])
   apply (rule gives_updates, elim conjE, rule link_point, assumption, assumption, assumption, simp)
  apply (rule gives_athen [where R = "wires (\<lambda>w. \<exists>w0. pointed k i j w0 \<and> w = set_source j (Some (k, i)) w0)"])
   apply (rule gives_updates, rule exI, rule conjI, assumption, rule link_source)
    apply (simp_all add: pointed_def unlinked_def) [2]
  apply (rule gives_abind, rule gives_take_window)
  apply (rule gives_athen [where R = "wires linked"])
   apply (rule gives_updates, elim exE conjE, erule link_ring_up, assumption)
  apply (rule gives_frame)
   apply (intro keeps_intros frame_intros)
  apply assumption
  done

lemma link_ring_down:
  assumes "linked w0" "feeds w0 (k, i) j" "wiring s = set_source j None w0"
  shows "linked (wiring (upd_ring k i (\<lambda>r. r\<lparr>rg_ndev := None, rg_cq := None, rg_hw_regs := None\<rparr>) s))"
proof -
  have i: "i < w_rings (wiring s) k" using assms by (auto simp: linked_def rings_wired_def feeds_def)
  then have "wiring (upd_ring k i (\<lambda>r. r\<lparr>rg_ndev := None, rg_cq := None, rg_hw_regs := None\<rparr>) s) =
      set_ring_open k i False (set_ring_cq k i None (wiring s))"
    by (simp add: wiring_ring_at Let_def)
  with wired_ring_closed [OF assms(1,2)] show ?thesis by (simp add: assms(3))
qed

lemma feeds_cq: "linked w \<Longrightarrow> feeds w ring j \<Longrightarrow> j < w_cqs w"
  by (cases ring) (fastforce simp: linked_def rings_wired_def feeds_def)

lemma open_ring_cq: "linked w \<Longrightarrow> w_ring_open w k i \<Longrightarrow> None \<noteq> w_ring_cq w k i"
  by (fastforce simp: linked_def rings_wired_def feeds_def)

lemma link_unsource:
  assumes "linked (wiring s)" "w_ring_open (wiring s) k i" "Some j = w_ring_cq (wiring s) k i"
  shows "\<exists>w0 j'. linked w0 \<and> feeds w0 (k, i) j' \<and>
    wiring (upd_cq j (\<lambda>q. q\<lparr>cpq_src_ring := None, cpq_handler := None\<rparr>) s) = set_source j' None w0"
proof -
  have "feeds (wiring s) (k, i) j" using assms(2,3) by (simp add: feeds_def)
  moreover from feeds_cq [OF assms(1) this] have
    "wiring (upd_cq j (\<lambda>q. q\<lparr>cpq_src_ring := None, cpq_handler := None\<rparr>) s) = set_source j None (wiring s)"
    by (rule link_source) simp
  ultimately show ?thesis using assms(1) by blast
qed

lemma link_ring_close:
  "gives (wires (\<lambda>w. linked w \<and> i < w_rings w k)) (ring_close hw k i) (\<lambda>_. wires linked) (wires linked)"
  unfolding ring_close_def
  apply (rule gives_abind [where R = "\<lambda>r. wires (\<lambda>w. linked w \<and> (rg_hw_regs r \<noteq> None \<longrightarrow> w_ring_open w k i) \<and>
      rg_cq r = w_ring_cq w k i)"])
   apply (rule gives_reads, simp add: ring_fields)
  apply (case_tac "rg_hw_regs x = None"; simp only: if_True if_False simp_thms)
   apply (rule gives_aret, simp add: wires_def)
  apply (rule gives_athen, rule gives_frame, rule frame_intros, simp)
  apply (rule gives_athen [where R = "wires (\<lambda>w. \<exists>w0 j. linked w0 \<and> feeds w0 (k, i) j \<and> w = set_source j None w0)"])
   apply (case_tac "rg_cq x"; simp only: option.case)
    apply (simp add: gives_def wires_def, metis open_ring_cq)
   apply (rule gives_updates, elim conjE, rule link_unsource, assumption, assumption, assumption)
  apply (rule gives_athen [where R = "wires linked"])
   apply (rule gives_updates, elim exE conjE, erule link_ring_down, assumption, assumption)
  apply (rule gives_frame)
   apply (intro keeps_intros frame_intros ring_class_not_cq; simp)
  apply assumption
  done

end
