(* ===== verification/Nic_History.thy ===== *)
theory Nic_History
  imports Nic_Linking
begin

text \<open>
  The links between the objects of the NIC driver over all its operations: net devices, interfaces,
  interrupts, and the histories of the driver.
\<close>


section \<open>Net devices and interfaces\<close>

lemma wiring_new_objects:
  "wiring (s\<lparr>nic_cqs := nic_cqs s @ [new_completion_queue]\<rparr>) = (wiring s)\<lparr>w_cqs := Suc (w_cqs (wiring s))\<rparr>"
  "wiring (s\<lparr>nic_eqs := nic_eqs s @ [new_event_queue]\<rparr>) = (wiring s)\<lparr>w_eqs := Suc (w_eqs (wiring s))\<rparr>"
  "wiring (s\<lparr>nic_txqs := nic_txqs s @ [new_ring]\<rparr>) = (wiring s)\<lparr>w_rings := (w_rings (wiring s))(TX := Suc (w_rings (wiring s) TX))\<rparr>"
  "wiring (s\<lparr>nic_rxqs := nic_rxqs s @ [new_ring]\<rparr>) = (wiring s)\<lparr>w_rings := (w_rings (wiring s))(RX := Suc (w_rings (wiring s) RX))\<rparr>"
proof -
  show "wiring (s\<lparr>nic_cqs := nic_cqs s @ [new_completion_queue]\<rparr>) = (wiring s)\<lparr>w_cqs := Suc (w_cqs (wiring s))\<rparr>"
    by (simp add: wiring_cqs field_append new_completion_queue_def) (simp add: wiring_def)
  show "wiring (s\<lparr>nic_eqs := nic_eqs s @ [new_event_queue]\<rparr>) = (wiring s)\<lparr>w_eqs := Suc (w_eqs (wiring s))\<rparr>"
    by (simp add: wiring_eqs field_append new_event_queue_def fun_eq_iff) (simp add: wiring_def)
  have tx: "rings k (s\<lparr>nic_txqs := xs\<rparr>) = (if k = TX then xs else rings k s)" for k xs by (cases k) simp_all
  show "wiring (s\<lparr>nic_txqs := nic_txqs s @ [new_ring]\<rparr>) = (wiring s)\<lparr>w_rings := (w_rings (wiring s))(TX := Suc (w_rings (wiring s) TX))\<rparr>"
    by (simp add: wiring_def tx fun_eq_iff field_append new_ring_def)
  have rx: "rings k (s\<lparr>nic_rxqs := xs\<rparr>) = (if k = RX then xs else rings k s)" for k xs by (cases k) simp_all
  show "wiring (s\<lparr>nic_rxqs := nic_rxqs s @ [new_ring]\<rparr>) = (wiring s)\<lparr>w_rings := (w_rings (wiring s))(RX := Suc (w_rings (wiring s) RX))\<rparr>"
    by (simp add: wiring_def rx fun_eq_iff field_append new_ring_def)
qed

lemma wired_more:
  assumes "linked w"
  shows "linked (w\<lparr>w_cqs := Suc (w_cqs w)\<rparr>)" "linked (w\<lparr>w_eqs := Suc (w_eqs w)\<rparr>)"
    "linked (w\<lparr>w_rings := (w_rings w)(k := Suc (w_rings w k))\<rparr>)"
    "i < w_eqs w \<Longrightarrow> linked (w\<lparr>w_eq := w_eq w @ [i]\<rparr>)"
proof -
  have eq: "\<forall>i \<in> set (w_eq w). i < w_eqs w" using assms by (simp add: linked_def queues_wired_def)
  note grown = wired_grown [OF assms]
  show "linked (w\<lparr>w_cqs := Suc (w_cqs w)\<rparr>)" using grown [of "w_eqs w" "Suc (w_cqs w)" "w_rings w" "[]"] by simp
  show "linked (w\<lparr>w_eqs := Suc (w_eqs w)\<rparr>)" using grown [of "Suc (w_eqs w)" "w_cqs w" "w_rings w" "[]"] by simp
  show "linked (w\<lparr>w_rings := (w_rings w)(k := Suc (w_rings w k))\<rparr>)"
    using grown [of "w_eqs w" "w_cqs w" "(w_rings w)(k := Suc (w_rings w k))" "[]"] by simp
  show "i < w_eqs w \<Longrightarrow> linked (w\<lparr>w_eq := w_eq w @ [i]\<rparr>)" using grown [of "w_eqs w" "w_cqs w" "w_rings w" "[i]"] by simp
qed

lemma wired_unused:
  assumes "linked w" "w_cqs w \<le> j"
  shows "w_source w j = None"
proof (rule ccontr)
  assume "w_source w j \<noteq> None"
  then obtain ring where "w_source w j = Some ring" by blast
  with assms(1) have "feeds w ring j" unfolding linked_def rings_wired_def by blast
  from feeds_cq [OF assms(1) this] assms(2) show False by simp
qed

lemma unlinked_new: "linked w \<Longrightarrow> unlinked (w_cqs w) (w\<lparr>w_cqs := Suc (w_cqs w)\<rparr>)"
  by (simp add: unlinked_def wired_more wired_unused)

lemma unlinked_more: "unlinked j w \<and> w_rings w k = i \<Longrightarrow>
    unlinked j (w\<lparr>w_rings := (w_rings w)(k := Suc (w_rings w k))\<rparr>) \<and>
    i < w_rings (w\<lparr>w_rings := (w_rings w)(k := Suc (w_rings w k))\<rparr>) k"
  by (auto simp: unlinked_def wired_more(3))

lemma link_open_cq: "gives (wires linked) (open_cq hw k) (\<lambda>j. wires (unlinked j)) (wires linked)"
  unfolding open_cq_def
  apply (rule gives_abind [where R = "\<lambda>j. wires (\<lambda>w. linked w \<and> w_cqs w = j)"])
   apply (rule gives_reads, simp add: wiring_def)
  apply (rule gives_athen [where R = "wires (unlinked j)" for j])
   apply (rule gives_updates, unfold wiring_new_objects, elim conjE, hypsubst, erule unlinked_new)
  apply (rule gives_abind [where R = "\<lambda>eqs. wires (\<lambda>w. unlinked j w \<and> eqs = w_eq w)" for j])
   apply (rule gives_reads, simp add: wiring_def)
  apply (rule gives_athen, rule gives_guard, simp add: unlinked_def)
  apply (rule gives_athen, rule gives_weaken [OF link_cpq_open])
     apply (auto simp: wires_def unlinked_def linked_def queues_wired_def) [1]
    apply assumption
   apply assumption
  apply (rule gives_athen, rule gives_frame, rule frame_intros, simp add: unlinked_def)
  apply (rule gives_aret, assumption)
  done

lemma link_open_txq: "keeps (wires linked) (open_txq hw d k)"
  unfolding open_txq_def the_ndev_def gives_keeps [symmetric]
  apply (rule gives_abind, rule link_open_cq)
  apply (rule gives_abind [where R = "\<lambda>i. wires (\<lambda>w. unlinked j w \<and> w_rings w TX = i)" for j])
   apply (rule gives_reads, simp add: wiring_def)
  apply (rule gives_athen [where R = "wires (\<lambda>w. unlinked j w \<and> i < w_rings w TX)" for i j])
   apply (rule gives_updates, unfold wiring_new_objects, erule unlinked_more)
  apply (rule gives_abind, rule gives_frame, rule frame_intros, simp add: unlinked_def)
  apply (rule gives_athen, rule link_ring_open)
  apply (rule gives_frame, rule frame_intros, assumption)
  done

lemma link_open_rxq: "keeps (wires linked) (open_rxq hw d k)"
  unfolding open_rxq_def rxq_open_def the_ndev_def gives_keeps [symmetric]
  apply (rule gives_abind, rule link_open_cq)
  apply (rule gives_abind [where R = "\<lambda>i. wires (\<lambda>w. unlinked j w \<and> w_rings w RX = i)" for j])
   apply (rule gives_reads, simp add: wiring_def)
  apply (rule gives_athen [where R = "wires (\<lambda>w. unlinked j w \<and> i < w_rings w RX)" for i j])
   apply (rule gives_updates, unfold wiring_new_objects, erule unlinked_more)
  apply (rule gives_abind, rule gives_frame, rule frame_intros, simp add: unlinked_def)
  apply (rule gives_athen, rule gives_athen, rule link_ring_open)
   apply (rule gives_frame, rule frame_intros, assumption)
  apply (rule gives_frame, rule frame_intros, assumption)
  done

lemma link_ndev_open: "keeps (wires linked) (ndev_open hw d)"
  unfolding ndev_open_def the_ndev_def rxq_enable_def
  by (intro keeps_intros link_open_txq link_open_rxq frame_intros)

text \<open>A new event queue: its table is empty already when it is opened.\<close>

definition fresh_eq :: "nat \<Rightarrow> wiring \<Rightarrow> bool" where
  "fresh_eq i w \<longleftrightarrow> linked w \<and> i < w_eqs w \<and> w_table w i = Map.empty"

lemma wiring_cleared:
  assumes "fresh_eq i (wiring s)" "\<And>q. evq_cq_table (f q) = []"
  shows "wiring (upd_eq i f s) = wiring s"
proof -
  have i: "i < length (nic_eqs s)" "w_table (wiring s) i = Map.empty"
    using assms(1) by (simp_all add: fresh_eq_def wiring_def)
  then have "field ((nic_eqs s)[i := f (nic_eqs s ! i)]) (\<lambda>q. dget (evq_cq_table q)) Map.empty = w_table (wiring s)"
    using assms(2) by (auto simp: fun_eq_iff field_update wiring_def)
  then show ?thesis using i(1) by (simp add: upd_eq_def wiring_eqs) (simp add: wiring_def)
qed

lemma keeps_cleared:
  "(\<And>q. evq_cq_table (f q) = []) \<Longrightarrow> keeps (wires (fresh_eq i)) (updates (upd_eq i f))"
  by (auto simp: keeps_def updates_def wires_def wiring_cleared)

lemma link_evq_open: "keeps (wires (fresh_eq i)) (evq_open hw i irq qsize)"
  unfolding evq_open_def
  by (intro keeps_abind keeps_athen keeps_aguard keeps_cleared frame_bus frame_reg_writes frame_reads frame_take_window
      frame_indices frame_objects(1); simp)

lemma fresh_new: "linked w \<and> w_eqs w = i \<and> w_table w i = Map.empty \<Longrightarrow> fresh_eq i (w\<lparr>w_eqs := Suc (w_eqs w)\<rparr>)"
  by (auto simp: fresh_eq_def wired_more(2))

lemma wiring_listed: "wiring (s\<lparr>nic_eq := xs\<rparr>) = (wiring s)\<lparr>w_eq := xs\<rparr>"
proof -
  have "rings k (s\<lparr>nic_eq := xs\<rparr>) = rings k s" for k by (cases k) simp_all
  then show ?thesis by (simp add: wiring_def)
qed

lemma listed_new: "fresh_eq i (wiring s) \<Longrightarrow> linked (wiring (s\<lparr>nic_eq := nic_eq s @ [i]\<rparr>))"
  using wired_more(4) [of "wiring s" i] by (simp add: fresh_eq_def wiring_listed) (simp add: wiring_def)

lemma link_init_eq: "keeps (wires linked) (init_eq hw k)"
  unfolding init_eq_def split_def gives_keeps [symmetric]
  apply (rule gives_abind [where R = "\<lambda>x. wires (\<lambda>w. linked w \<and> w_eqs w = fst x \<and> w_table w (fst x) = Map.empty)"])
   apply (rule gives_reads, simp add: wiring_def field_def)
  apply (rule gives_athen [where R = "wires (fresh_eq i)" for i])
   apply (rule gives_updates, unfold wiring_new_objects, erule fresh_new)
  apply (rule gives_athen, rule gives_frame, rule link_evq_open)
   apply (simp add: fresh_eq_def)
  apply (rule gives_athen, rule gives_updates, erule listed_new)
  apply (rule gives_frame, rule frame_intros, assumption)
  done

text \<open>The queue managers are found before any queue is opened.\<close>

definition nothing_open :: "wiring \<Rightarrow> bool" where
  "nothing_open w \<longleftrightarrow> linked w \<and> (\<forall>j. \<not> w_cq_open w j)"

lemma nothing_open_free: "nothing_open w \<Longrightarrow> distinct free \<Longrightarrow> nothing_open (w\<lparr>w_free := free\<rparr>)"
  by (auto simp: nothing_open_def linked_def queues_wired_def rings_wired_def in_table_def feeds_def)

lemma keeps_new_resource:
  "keeps (wires nothing_open) (updates (\<lambda>s. set_res qc (new_resource (f s) (g s) n) s))"
proof -
  have "nothing_open (wiring (set_res qc (new_resource count base n) s))" if "nothing_open (wiring s)" for s :: "'c nic" and count base
  proof (cases "qc = CQ")
    case True
    then show ?thesis using nothing_open_free [OF that] by (simp only: wiring_free) (simp add: new_resource_def)
  next
    case False
    with that show ?thesis by (simp only: wiring_set_res not_False_eq_True)
  qed
  then show ?thesis by (auto simp: keeps_def updates_def wires_def)
qed

lemma link_init_resources: "keeps (wires nothing_open) (init_resources hw)"
  unfolding init_resources_def init_resource_def by (intro keeps_intros frame_init_steps keeps_new_resource)

lemma link_interface_init: "gives (wires nothing_open) (interface_init hw csr_offset) (\<lambda>_. wires linked) (wires linked)"
proof -
  have "keeps (wires nothing_open) (init_hardware hw csr_offset)"
    unfolding init_hardware_def
    by (intro keeps_intros frame_walk_blocks link_init_resources frame_intros) (rule wiring_frame; simp)
  moreover have "keeps (wires linked) (init_objects hw)"
    unfolding init_objects_def by (intro keeps_intros link_init_eq frame_intros)
  ultimately have
    "gives (wires nothing_open) (init_hardware hw csr_offset) (\<lambda>_. wires nothing_open) (wires nothing_open)"
    "gives (wires linked) (init_objects hw) (\<lambda>_. wires linked) (wires linked)" by (simp_all add: gives_keeps)
  then have "gives (wires nothing_open) (init_hardware hw csr_offset) (\<lambda>_. wires linked) (wires linked)"
    "gives (wires linked) (init_objects hw) (\<lambda>_. wires linked) (wires linked)"
    by (auto elim!: gives_weaken simp: wires_def nothing_open_def)
  then show ?thesis unfolding interface_init_def by (rule gives_athen)
qed


section \<open>The driver\<close>

text \<open>An operation is called on an object that exists.\<close>

fun calls_object :: "nic_op \<Rightarrow> 'r nic \<Rightarrow> bool" where
  "calls_object (OpenDev d) s \<longleftrightarrow> d < length (nic_ndevs s)"
| "calls_object (CloseDev d) s \<longleftrightarrow> d < length (nic_ndevs s)"
| "calls_object (StartXmit d data ring start offset) s \<longleftrightarrow> d < length (nic_ndevs s)"
| "calls_object (ResumeXmit i data start offset) s \<longleftrightarrow> i < length (nic_txqs s)"
| "calls_object (Recv d) s \<longleftrightarrow> d < length (nic_ndevs s)"
| "calls_object (ReadConsPtr k i) s \<longleftrightarrow> i < length (rings k s)"
| "calls_object (CloseRing k i) s \<longleftrightarrow> i < length (rings k s)"
| "calls_object (CloseCq j) s \<longleftrightarrow> j < length (nic_cqs s)"
| "calls_object (CloseEq i) s \<longleftrightarrow> i < length (nic_eqs s)"

text \<open>The driver on hardware that does what it likes between the steps.\<close>

inductive driver_history :: "('h, 'r) nic_hw \<Rightarrow> int \<Rightarrow> 'h \<times> 'r driver \<Rightarrow> bool" for hw base where
  fresh: "driver_history hw base (h, new_driver base)"
| device: "driver_history hw base (h, d) \<Longrightarrow> driver_history hw base (h', d)"
| bring_up: "driver_history hw base st \<Longrightarrow> init_common hw st = (r, st') \<Longrightarrow> driver_history hw base st'"
| interrupt: "driver_history hw base st \<Longrightarrow> interrupt_handler hw irq st = Some (r, st') \<Longrightarrow> driver_history hw base st'"
| operate: "driver_history hw base (h, d) \<Longrightarrow> k < length (drv_interfaces d) \<Longrightarrow>
    calls_object p (drv_interfaces d ! k) \<Longrightarrow> run_op hw p (h, enter_interface k d) = (r, (h', s)) \<Longrightarrow>
    driver_history hw base (h', leave_interface k s d)"

definition all_wired :: "'h \<times> 'r driver \<Rightarrow> bool" where
  "all_wired st \<longleftrightarrow> (\<forall>s \<in> set (drv_interfaces (snd st)). linked (wiring s))"

lemma all_wired_leave:
  "all_wired (h, d) \<Longrightarrow> linked (wiring s) \<Longrightarrow> all_wired (h', leave_interface k s d)"
  using set_update_subset_insert [of "drv_interfaces d" k s] by (auto simp: all_wired_def leave_interface_def)

lemma wired_enter: "all_wired (h, d) \<Longrightarrow> k < length (drv_interfaces d) \<Longrightarrow> linked (wiring (enter_interface k d))"
  by (simp add: all_wired_def enter_interface_def wiring_pool)

lemma run_op_wired:
  assumes "wires linked st" "calls_object p (snd st)" "run_op hw p st = (r, st')"
  shows "wires linked st'"
proof (cases p)
  case (OpenDev d)
  then show ?thesis using keepsD [OF link_ndev_open assms(1)] assms(3) by simp
next
  case (CloseRing k i)
  with assms have "wires (\<lambda>w. linked w \<and> i < w_rings w k) st" "ring_close hw k i st = (r, st')"
    by (simp_all add: wires_def wiring_def)
  then show ?thesis by (rule gives_end [OF link_ring_close])
next
  case (CloseCq j)
  with assms have "wires (\<lambda>w. linked w \<and> j < w_cqs w) st" "cpq_close hw j st = (r, st')"
    by (simp_all add: wires_def wiring_def)
  then show ?thesis by (rule gives_end [OF link_cpq_close])
qed (rule keepsD [where m = "run_op hw p" and I = "wires linked" and s = st and r = r],
    simp add: forget_result_def, intro keeps_intros frame_intros, rule assms, rule assms)+


lemma on_interface_wired:
  assumes "keepsp (wires linked) m"
  shows "keepsp all_wired (on_interface k m)"
  unfolding keepsp_def
proof (intro allI impI)
  fix st r st' assume ok: "all_wired st" and run: "on_interface k m st = Some (r, st')"
  obtain h d where st: "st = (h, d)" by fastforce
  from run obtain h' s where m: "m (h, enter_interface k d) = Some (r, (h', s))" and st': "st' = (h', leave_interface k s d)"
    by (auto simp: on_interface_def st)
  show "all_wired st'"
  proof (cases "k < length (drv_interfaces d)")
    case True
    with ok have "wires linked (h, enter_interface k d)" by (simp add: wires_def wired_enter st)
    from keepspD [OF assms this m] ok show ?thesis by (simp add: st st' wires_def all_wired_leave)
  next
    case False
    with ok show ?thesis by (simp add: st st' all_wired_def leave_interface_def list_update_beyond)
  qed
qed

lemma interrupt_wired:
  assumes "all_wired st" "interrupt_handler hw irq st = Some (r, st')"
  shows "all_wired st'"
proof -
  have "keepsp all_wired (\<lambda>st. on_interface k (in_turn (serve_eq hw irq) (nic_eq (drv_interfaces (snd st) ! k))) st)" for k
    unfolding keepsp_def
  proof (intro allI impI)
    fix s r s' assume ok: "all_wired s"
      and run: "on_interface k (in_turn (serve_eq hw irq) (nic_eq (drv_interfaces (snd s) ! k))) s = Some (r, s')"
    have "keepsp (wires linked) (in_turn (serve_eq hw irq) (nic_eq (drv_interfaces (snd s) ! k)))"
      by (intro keepsp_in_turn frame_serve_eq)
    from keepspD [OF on_interface_wired [OF this] ok run] show "all_wired s'" .
  qed
  then have "keepsp all_wired (in_turn (\<lambda>k st. on_interface k
      (in_turn (serve_eq hw irq) (nic_eq (drv_interfaces (snd st) ! k))) st) [0..<length (drv_interfaces (snd st))])"
    by (intro keepsp_in_turn)
  from keepspD [OF this assms(1)] assms(2) show ?thesis by (simp add: interrupt_handler_def)
qed

lemma new_nic_wired: "nothing_open (wiring (new_nic pl index base))"
proof -
  have "rings k (new_nic pl index base) = []" for k by (cases k) (simp_all add: new_nic_def)
  then show ?thesis
    by (simp add: nothing_open_def linked_def queues_wired_def rings_wired_def in_table_def feeds_def wiring_def field_def)
      (simp add: new_nic_def new_resource_def)
qed

lemma create_interface_wired: "keeps all_wired (create_interface hw k)"
  unfolding keeps_def
proof (intro allI impI)
  fix st :: "'a \<times> 'b driver" assume ok: "all_wired st"
  obtain h d where st: "st = (h, d)" by (metis surj_pair)
  let ?new = "new_nic (drv_pool d) (int k) (drv_hw_regs d + (drv_if_offset d + int k * drv_if_stride d))"
  obtain r h' s where run: "interface_init hw (drv_if_csr_offset d) (h, ?new) = (r, (h', s))" by (metis surj_pair)
  have "wires nothing_open (h, ?new)" by (simp add: wires_def new_nic_wired)
  from gives_end [OF link_interface_init this run] have "linked (wiring s)" by (simp add: wires_def)
  with ok run show "all_wired (snd (create_interface hw k st))"
    by (cases r) (auto simp: create_interface_def st all_wired_def)
qed

lemma keeps_all_wired:
  assumes "\<And>d. drv_interfaces (f d) = drv_interfaces d"
  shows "keeps all_wired (drv_update f)"
  using assms by (auto simp: keeps_def drv_update_def all_wired_def)

lemma driver_frames:
  "keeps all_wired (drv_read hw a)" "keeps all_wired (drv_block ty version)" "keeps all_wired (drv_walk hw)"
  "keeps all_wired (drv_update (\<lambda>d. d\<lparr>drv_interfaces := []\<rparr>))"
  by (auto simp: keeps_def drv_read_def drv_block_def drv_get_def drv_walk_def drv_update_def all_wired_def
      split: prod.splits)

lemma init_common_wired: "keeps all_wired (init_common hw)"
  unfolding init_common_def read_ids_def
  by (intro keeps_intros driver_frames create_interface_wired keeps_all_wired) simp_all

lemma driver_history_wired: "driver_history hw base st \<Longrightarrow> all_wired st"
proof (induction rule: driver_history.induct)
  case (fresh h)
  then show ?case by (simp add: all_wired_def new_driver_def)
next
  case (device h d h')
  then show ?case by (simp add: all_wired_def)
next
  case (bring_up st r st')
  then show ?case using keepsD [OF init_common_wired] by blast
next
  case (interrupt st irq r st')
  then show ?case using interrupt_wired by blast
next
  case (operate h d k p r h' s)
  have "calls_object p (enter_interface k d)" using operate.hyps(3)
    by (cases p; simp add: enter_interface_def; rename_tac kind i; case_tac kind; simp)
  moreover have "wires linked (h, enter_interface k d)" using operate by (simp add: wires_def wired_enter)
  ultimately have "wires linked (h', s)" using run_op_wired operate.hyps(4) by fastforce
  with operate.IH show ?case by (simp add: wires_def all_wired_leave)
qed


text \<open>What \<open>linked\<close> means for the objects themselves.\<close>

lemma table_at: "w_table (wiring s) i c = Some j \<longleftrightarrow> i < length (nic_eqs s) \<and> dget (evq_cq_table (nic_eqs s ! i)) c = Some j"
  by (simp add: wiring_def field_def)

lemma in_table_at:
  "in_table (wiring s) j i c \<longleftrightarrow> j < length (nic_cqs s) \<and> cpq_hw_regs (nic_cqs s ! j) \<noteq> None \<and>
     cpq_eq (nic_cqs s ! j) = Some i \<and> cpq_cqn (nic_cqs s ! j) = Some c"
  by (simp add: wiring_def field_def in_table_def)

lemma feeds_at:
  "feeds (wiring s) (k, i) j \<longleftrightarrow> i < length (rings k s) \<and> rg_hw_regs (rings k s ! i) \<noteq> None \<and> rg_cq (rings k s ! i) = Some j"
  by (simp add: wiring_def field_def feeds_def)

lemma queues_at:
  assumes "linked (wiring s)"
  shows "i < length (nic_eqs s) \<Longrightarrow> dget (evq_cq_table (nic_eqs s ! i)) c = Some j \<longleftrightarrow> in_table (wiring s) j i c"
    "j < length (nic_cqs s) \<Longrightarrow> cpq_hw_regs (nic_cqs s ! j) \<noteq> None \<Longrightarrow>
       \<exists>i c. in_table (wiring s) j i c \<and> i < length (nic_eqs s) \<and> c \<notin> set (rc_free_list (nic_cq_res s))"
    "in_table (wiring s) j i c \<Longrightarrow> in_table (wiring s) j' i' c \<Longrightarrow> j' = j"
proof -
  have w: "queues_wired (wiring s)" using assms by (simp add: linked_def)
  show "i < length (nic_eqs s) \<Longrightarrow> dget (evq_cq_table (nic_eqs s ! i)) c = Some j \<longleftrightarrow> in_table (wiring s) j i c"
    using w table_at [of s i c j] unfolding queues_wired_def by blast
  show "in_table (wiring s) j i c \<Longrightarrow> in_table (wiring s) j' i' c \<Longrightarrow> j' = j"
    using w unfolding queues_wired_def by blast
  assume j: "j < length (nic_cqs s)" "cpq_hw_regs (nic_cqs s ! j) \<noteq> None"
  then have "w_cq_open (wiring s) j" using cq_fields(1) [of j s] by (simp add: wiring_def)
  then obtain i c where "in_table (wiring s) j i c" "i < w_eqs (wiring s)"
    using w unfolding queues_wired_def by blast
  moreover from this have "c \<notin> set (w_free (wiring s))" using w unfolding queues_wired_def by blast
  ultimately show "\<exists>i c. in_table (wiring s) j i c \<and> i < length (nic_eqs s) \<and> c \<notin> set (rc_free_list (nic_cq_res s))"
    by (intro exI conjI) (simp_all add: wiring_def)
qed

lemma rings_at:
  assumes "linked (wiring s)"
  shows "j < length (nic_cqs s) \<Longrightarrow> cpq_src_ring (nic_cqs s ! j) = Some (k, i) \<longleftrightarrow> feeds (wiring s) (k, i) j"
    "i < length (rings k s) \<Longrightarrow> rg_hw_regs (rings k s ! i) \<noteq> None \<Longrightarrow> \<exists>j < length (nic_cqs s). feeds (wiring s) (k, i) j"
    "j < length (nic_cqs s) \<Longrightarrow> cpq_handler (nic_cqs s ! j) = map_option fst (cpq_src_ring (nic_cqs s ! j))"
proof -
  have w: "rings_wired (wiring s)" using assms by (simp add: linked_def)
  have n: "w_cqs (wiring s) = length (nic_cqs s)" by (simp add: wiring_def)
  show "j < length (nic_cqs s) \<Longrightarrow> cpq_src_ring (nic_cqs s ! j) = Some (k, i) \<longleftrightarrow> feeds (wiring s) (k, i) j"
    using w cq_fields(4) [of j s] unfolding rings_wired_def n by metis
  show "j < length (nic_cqs s) \<Longrightarrow> cpq_handler (nic_cqs s ! j) = map_option fst (cpq_src_ring (nic_cqs s ! j))"
    using w cq_fields(4,5) [of j s] unfolding rings_wired_def n by metis
  assume i: "i < length (rings k s)" "rg_hw_regs (rings k s ! i) \<noteq> None"
  then have "w_ring_open (wiring s) k i" by (simp add: wiring_def field_def)
  then show "\<exists>j < length (nic_cqs s). feeds (wiring s) (k, i) j" using w unfolding rings_wired_def n by blast
qed

end
