(* ===== verification/Nic_Board.thy ===== *)
theory Nic_Board
  imports Nic_History
begin

text \<open>
  The queues of the NIC driver stay wired, whatever the hardware does and wherever an operation
  raises. A board whose register blocks are written out as a table, with too little memory for what
  is opened on it, shows the driver in a state with open queues.
\<close>


section \<open>A board\<close>

definition board_registers :: "(int \<times> int) list" where
  "board_registers =
     [(0x0, 0xFFFFFFFF), (0x4, 0x100), (0x8, 0x40),
      (0x40, 0x0000C000), (0x44, 0x100), (0x48, 0), (0x4C, 0x1000), (0x50, 1), (0x54, 0x1000), (0x58, 0),
      (0x1000, 0xC001), (0x1004, 0x400), (0x1008, 0x40), (0x1010, 1), (0x1014, 1), (0x1020, 9000), (0x1024, 9000),
      (0x1040, 0xC010), (0x1044, 0x400), (0x1048, 0x60), (0x104C, 0x800), (0x1050, 1), (0x1054, 0x10),
      (0x1060, 0xC020), (0x1064, 0x400), (0x1068, 0x80), (0x106C, 0x810), (0x1070, 2), (0x1074, 0x10),
      (0x1080, 0xC030), (0x1084, 0x400), (0x1088, 0xA0), (0x108C, 0x830), (0x1090, 1), (0x1094, 0x20),
      (0x10A0, 0xC031), (0x10A4, 0x400), (0x10A8, 0xC0), (0x10AC, 0x850), (0x10B0, 1), (0x10B4, 0x20),
      (0x10C0, 0xC090), (0x10C4, 0x200), (0x10C8, 0xE0),
      (0x10E0, 0xC002), (0x10E4, 0x200), (0x10E8, 0x100), (0x10EC, 0x200),
      (0x1100, 0xC004), (0x1104, 0x300), (0x1108, 0), (0x110C, 0x240),
      (0x1200, 0xC003), (0x1204, 0x300), (0x1208, 0),
      (0x1240, 0xC040), (0x1244, 0x200), (0x1248, 0), (0x124C, 0x900), (0x1250, 1), (0x1254, 4), (0x125C, 0x101)]"

text \<open>The memory pool has three regions to give: an event queue, a completion queue and a ring.\<close>

definition three_regions :: "int \<Rightarrow> nat \<Rightarrow> nat result \<times> nat" where
  "three_regions n h = (if h < 3 then (Inr h, Suc h) else (Inl PlainException, h))"

definition board_hw :: "(nat, nat) nic_hw" where
  "board_hw = bare_hw\<lparr>hw_read :=
     (\<lambda>a h. (case map_of board_registers a of Some v \<Rightarrow> word_of_int v | None \<Rightarrow> 0, h)),
     hw_alloc_region := three_regions\<rparr>"

text \<open>What the driver has read of the board before it brings up the interface, and that interface then.\<close>

definition board_driver :: "nat driver" where
  "board_driver = (new_driver 0)\<lparr>
     drv_reg_blocks := [\<lparr>rb_offset = 0, rb_type = 0xFFFFFFFF, rb_version = 0x100\<rparr>,
       \<lparr>rb_offset = 0x40, rb_type = 0xC000, rb_version = 0x100\<rparr>],
     drv_ids := [0, 0, 0, 0, 0, 0, 0, 0]\<rparr>"

definition board_nic :: "nat nic" where
  "board_nic = snd (snd (init_hardware board_hw 0 (0, new_nic new_packet_pool 0 0x1000)))"

lemma board_hardware:
  "case init_hardware board_hw 0 (0, new_nic new_packet_pool 0 0x1000) of (r, (h, s)) \<Rightarrow>
    r = Inr () \<and> h = 0 \<and> nic_eqs s = [] \<and> nic_eq s = [] \<and> nic_cqs s = [] \<and> nic_rxqs s = [] \<and> nic_ndevs s = [] \<and>
    length (nic_ports s) = 1 \<and> nic_index s = 0 \<and> nic_hw_regs s = 0x1000 \<and> nic_pool s = new_packet_pool \<and>
    nic_port_count s = 1 \<and> nic_indir_table_size s = 1 \<and> get_count (nic_txq_res s) = 1 \<and>
    nic_eq_res s = \<lparr>rc_count = 1, rc_parent = 0x1800, rc_stride = 0x10, rc_windows = [(0, 0x1800)], rc_free_list = [0]\<rparr> \<and>
    nic_cq_res s = \<lparr>rc_count = 2, rc_parent = 0x1810, rc_stride = 0x10, rc_windows = [(0, 0x1810), (1, 0x1820)],
      rc_free_list = [0, 1]\<rparr> \<and>
    nic_rxq_res s = \<lparr>rc_count = 1, rc_parent = 0x1850, rc_stride = 0x20, rc_windows = [(0, 0x1850)], rc_free_list = [0]\<rparr> \<and>
    nic_sched_pool s = \<lparr>pp_sched_ports = [(0, 0)], pp_free_sched_ports = [(0, 0)]\<rparr>"
  by code_simp

lemma board_hardware_run:
  "init_hardware board_hw 0 (0, new_nic new_packet_pool 0 0x1000) = (Inr (), (0, board_nic))"
  and board_nic: "nic_eqs board_nic = []" "nic_eq board_nic = []" "nic_cqs board_nic = []" "nic_rxqs board_nic = []"
    "nic_ndevs board_nic = []" "length (nic_ports board_nic) = 1" "nic_index board_nic = 0"
    "nic_hw_regs board_nic = 0x1000" "nic_pool board_nic = new_packet_pool" "nic_port_count board_nic = 1"
    "nic_indir_table_size board_nic = 1" "get_count (nic_txq_res board_nic) = 1"
    "nic_eq_res board_nic =
       \<lparr>rc_count = 1, rc_parent = 0x1800, rc_stride = 0x10, rc_windows = [(0, 0x1800)], rc_free_list = [0]\<rparr>"
    "nic_cq_res board_nic = \<lparr>rc_count = 2, rc_parent = 0x1810, rc_stride = 0x10,
       rc_windows = [(0, 0x1810), (1, 0x1820)], rc_free_list = [0, 1]\<rparr>"
    "nic_rxq_res board_nic =
       \<lparr>rc_count = 1, rc_parent = 0x1850, rc_stride = 0x20, rc_windows = [(0, 0x1850)], rc_free_list = [0]\<rparr>"
    "nic_sched_pool board_nic = \<lparr>pp_sched_ports = [(0, 0)], pp_free_sched_ports = [(0, 0)]\<rparr>"
  using board_hardware by (simp_all add: board_nic_def split: prod.splits)

lemmas board_runs = abind_def athen_def reads_def updates_def hardware_def board_hw_def bare_hw_def
  three_regions_def mem_store_def reg_writes_def reg_write_def reg_read_def alloc_region_def take_index_def
  take_window_def get_window_def dget_def res_alloc_def

text \<open>The interface when it is up, as far as opening its net device looks at it.\<close>

definition board_ready :: "nat nic \<Rightarrow> bool" where
  "board_ready s \<longleftrightarrow>
     (\<exists>q n. nic_eqs s = [q] \<and> evq_eqn q = Some 0 \<and> evq_cq_table q = [] \<and> nic_ndevs s = [n] \<and> \<not> ndv_port_up n \<and>
        ndv_rxq_count n = 1 \<and> ndv_rx_ring_size n = 1024) \<and>
     nic_eq s = [0] \<and> nic_cqs s = [] \<and> nic_rxqs s = [] \<and> nic_pool s = new_packet_pool \<and>
     nic_cq_res s = nic_cq_res board_nic \<and> nic_rxq_res s = nic_rxq_res board_nic"

lemma board_objects:
  "\<exists>s. init_objects board_hw (0, board_nic) = (Inr (), (1, s)) \<and> board_ready s \<and>
     nic_sched_pool s = nic_sched_pool board_nic"
  by (simp add: board_ready_def board_runs init_objects_def board_nic get_count_def init_eq_def evq_open_def
      new_event_queue_def upd_eq_def evq_arm_def init_ndev_def new_netdev_def)

lemma log_1024: "log_of 1024 = 10" by code_simp

lemma board_open_cq:
  assumes "nic_eqs s = [q]" "evq_eqn q = Some 0" "nic_eq s = [0]" "nic_cqs s = []" "nic_cq_res s = nic_cq_res board_nic"
  shows "\<exists>c s'. open_cq board_hw 0 (1, s) = (Inr 0, (2, s')) \<and> nic_cqs s' = [c] \<and> cpq_hw_regs c \<noteq> None \<and>
    cpq_cqn c = Some 0 \<and> nic_rxqs s' = nic_rxqs s \<and> nic_rxq_res s' = nic_rxq_res s \<and> nic_ndevs s' = nic_ndevs s \<and>
    nic_pool s' = nic_pool s"
  using assms
  by (simp add: open_cq_def cpq_open_def cpq_arm_def upd_cq_def upd_eq_def attach_cq_def need_int_def
      new_completion_queue_def log_1024 board_nic board_runs Let_def)

lemma board_ring_open:
  assumes "nic_cqs s = [c]" "cpq_cqn c = Some 0" "cpq_hw_regs c \<noteq> None" "nic_rxqs s = [new_ring]"
    "nic_rxq_res s = nic_rxq_res board_nic"
  shows "\<exists>c r s'. ring_open board_hw RX 0 0 0 1024 4 (2, s) = (Inr (), (3, s')) \<and> nic_cqs s' = [c] \<and>
    cpq_hw_regs c \<noteq> None \<and> nic_rxqs s' = [r] \<and> rg_hw_regs r \<noteq> None \<and> rg_size r = 1024 \<and> rg_prod_ptr r = 0 \<and>
    rg_cons_ptr r = 0 \<and> nic_pool s' = nic_pool s"
  using assms
  by (simp add: ring_open_def upd_cq_def need_int_def new_ring_def log_1024 board_nic board_runs Let_def)

lemma board_refill:
  assumes "nic_rxqs s = [r]" "8 \<le> rg_size r" "rg_prod_ptr r = 0" "rg_cons_ptr r = 0" "nic_pool s = new_packet_pool"
  shows "refill_buffers board_hw 0 (3, s) = (Inl PlainException, (3, s))"
proof -
  have "take_pkt board_hw (3, s) = (Inl PlainException, (3, s))"
    using assms(5) by (simp add: take_pkt_def alloc_pkt_def new_packet_pool_def board_hw_def bare_hw_def three_regions_def)
  then have "refill_one board_hw 0 (3, s) = (Inl PlainException, (3, s))"
    by (simp add: refill_one_def prepare_desc_def athen_def abind_def reads_def)
  then have "afor (0 # xs) (\<lambda>_. refill_one board_hw 0) (3, s) = (Inl PlainException, (3, s))" for xs :: "nat list"
    by (simp add: athen_run)
  moreover have "[0..<nat (rg_size r)] = 0 # [Suc 0..<nat (rg_size r)]" using assms(2) by (intro upt_conv_Cons) simp
  ultimately have "afor [0..<nat (rg_size r)] (\<lambda>_. refill_one board_hw 0) (3, s) = (Inl PlainException, (3, s))" by metis
  then show ?thesis
    using assms by (simp add: refill_buffers_def reads_def Let_def athen_run(2))
qed

text \<open>Opening the device: the memory runs out when the ring that has just been linked is filled.\<close>

lemma board_open_rxq:
  assumes "board_ready s"
  shows "\<exists>c r s'. open_rxq board_hw 0 0 (1, s) = (Inl PlainException, (3, s')) \<and> nic_cqs s' = [c] \<and>
    cpq_hw_regs c \<noteq> None \<and> nic_rxqs s' = [r] \<and> rg_hw_regs r \<noteq> None"
proof -
  obtain q n where qn: "nic_eqs s = [q]" "evq_eqn q = Some 0" "nic_ndevs s = [n]" "ndv_rx_ring_size n = 1024"
    using assms by (auto simp: board_ready_def)
  have ready: "nic_eq s = [0]" "nic_cqs s = []" "nic_rxqs s = []" "nic_pool s = new_packet_pool"
    "nic_cq_res s = nic_cq_res board_nic" "nic_rxq_res s = nic_rxq_res board_nic"
    using assms by (simp_all add: board_ready_def)
  obtain c s1 where 1: "open_cq board_hw 0 (1, s) = (Inr 0, (2, s1))" "nic_cqs s1 = [c]" "cpq_hw_regs c \<noteq> None"
    "cpq_cqn c = Some 0" "nic_rxqs s1 = []" "nic_rxq_res s1 = nic_rxq_res board_nic" "nic_ndevs s1 = [n]"
    "nic_pool s1 = new_packet_pool"
    using board_open_cq [OF qn(1,2) ready(1,2,5)] ready qn by auto
  let ?s1 = "s1\<lparr>nic_rxqs := [new_ring]\<rparr>"
  obtain c r s2 where 2: "ring_open board_hw RX 0 0 0 1024 4 (2, ?s1) = (Inr (), (3, s2))" "nic_cqs s2 = [c]"
    "cpq_hw_regs c \<noteq> None" "nic_rxqs s2 = [r]" "rg_hw_regs r \<noteq> None" "rg_size r = 1024" "rg_prod_ptr r = 0"
    "rg_cons_ptr r = 0" "nic_pool s2 = new_packet_pool"
    using board_ring_open [of ?s1 c] 1 by auto
  have "refill_buffers board_hw 0 (3, s2) = (Inl PlainException, (3, s2))"
    using board_refill [OF 2(4) _ 2(7-9)] 2(6) by simp
  then have "open_rxq board_hw 0 0 (1, s) = (Inl PlainException, (3, s2))"
    using 1 2(1) qn(4)
    by (simp add: open_rxq_def rxq_open_def the_ndev_def abind_run(1) [where m = "open_cq board_hw 0", OF 1(1)] reads_def updates_def athen_def abind_def)
  with 2 show ?thesis by blast
qed

lemma board_open:
  assumes "board_ready s" "nic_sched_pool s = nic_sched_pool board_nic"
  shows "\<exists>h s' c r. ndev_open board_hw 0 (1, s) = (Inl PlainException, (h, s')) \<and> nic_cqs s' = [c] \<and>
    cpq_hw_regs c \<noteq> None \<and> nic_rxqs s' = [r] \<and> rg_hw_regs r \<noteq> None"
proof -
  obtain n where n: "nic_ndevs s = [n]" "\<not> ndv_port_up n" "ndv_rxq_count n = 1"
    using assms(1) by (auto simp: board_ready_def)
  let ?s = "s\<lparr>nic_sched_pool := \<lparr>pp_sched_ports = [(0, 0)], pp_free_sched_ports = []\<rparr>,
    nic_ndevs := [n\<lparr>ndv_sched_port := Some (0, 0)\<rparr>]\<rparr>"
  have "board_ready ?s" using assms(1) n by (auto simp: board_ready_def)
  from board_open_rxq [OF this] obtain c r s' where
    run: "open_rxq board_hw 0 0 (1, ?s) = (Inl PlainException, (3, s'))" and s': "nic_cqs s' = [c]" "cpq_hw_regs c \<noteq> None"
      "nic_rxqs s' = [r]" "rg_hw_regs r \<noteq> None" by blast
  have "ndev_open board_hw 0 (1, s) = (Inl PlainException, (3, s'))"
    using n assms(2) run
    by (simp add: ndev_open_def the_ndev_def reads_def updates_def take_sched_port_def alloc_sched_port_def board_nic
        upd_ndev_def athen_def abind_def)
  with s' show ?thesis by blast
qed

lemma board_interface:
  "\<exists>s. interface_init board_hw 0 (0, new_nic new_packet_pool 0 0x1000) = (Inr (), (1, s)) \<and> board_ready s \<and>
     nic_sched_pool s = nic_sched_pool board_nic"
  using board_objects by (auto simp: interface_init_def athen_run(1) [where m = "init_hardware board_hw 0", OF board_hardware_run])

lemma board_walk:
  "drv_walk board_hw (0, new_driver 0) = (Inr (), (0, board_driver\<lparr>drv_ids := []\<rparr>))"
  by code_simp

lemma board_ids:
  "read_ids board_hw (0, board_driver\<lparr>drv_ids := []\<rparr>) = (Inr (), (0, board_driver))"
  by code_simp

lemma board_registers_read:
  "drv_block MQNIC_RB_IF_TYPE MQNIC_RB_IF_VER (0, board_driver) = (Inr (Some 0x40), (0, board_driver))"
  "drv_read board_hw (0x40 + MQNIC_RB_IF_REG_OFFSET) (h, e) = (Inr 0x1000, (h, e))"
  "drv_read board_hw (0x40 + MQNIC_RB_IF_REG_COUNT) (h, e) = (Inr 1, (h, e))"
  "drv_read board_hw (0x40 + MQNIC_RB_IF_REG_STRIDE) (h, e) = (Inr 0x1000, (h, e))"
  "drv_read board_hw (0x40 + MQNIC_RB_IF_REG_CSR_OFFSET) (h, e) = (Inr 0, (h, e))"
  by (simp_all add: drv_block_def drv_get_def board_driver_def new_driver_def found_block_def block_matches_def
      drv_read_def board_hw_def board_registers_def MQNIC_RB_IF_TYPE_def MQNIC_RB_IF_VER_def
      MQNIC_RB_IF_REG_OFFSET_def MQNIC_RB_IF_REG_COUNT_def MQNIC_RB_IF_REG_STRIDE_def MQNIC_RB_IF_REG_CSR_OFFSET_def)

lemma board_up:
  "\<exists>d s. init_common board_hw (0, new_driver 0) = (Inr (), (1, d)) \<and> drv_interfaces d = [s] \<and> board_ready s \<and>
     nic_sched_pool s = nic_sched_pool board_nic \<and> drv_pool d = nic_pool s"
proof -
  obtain s where s: "interface_init board_hw 0 (0, new_nic new_packet_pool 0 0x1000) = (Inr (), (1, s))" "board_ready s"
    "nic_sched_pool s = nic_sched_pool board_nic"
    using board_interface by blast
  define d where "d = board_driver\<lparr>drv_if_offset := 0x1000, drv_if_count := 1, drv_if_stride := 0x1000, drv_if_csr_offset := 0\<rparr>"
  have "create_interface board_hw 0 (0, d) = (Inr (), (1, d\<lparr>drv_pool := nic_pool s, drv_interfaces := [s]\<rparr>))"
    using s(1) by (simp add: create_interface_def d_def board_driver_def new_driver_def)
  moreover have "init_common board_hw (0, new_driver 0) = create_interface board_hw 0 (0, d)"
  proof -
    have same: "board_driver\<lparr>drv_interfaces := []\<rparr> = board_driver" by (simp add: board_driver_def new_driver_def)
    have last: "athen (create_interface board_hw 0) (aret ()) st = create_interface board_hw 0 st" for st
      by (simp add: athen_def abind_def aret_def split: prod.splits sum.splits)
    show ?thesis
      by (simp add: init_common_def athen_run(1) [where m = "drv_walk board_hw", OF board_walk]
          athen_run(1) [where m = "read_ids board_hw", OF board_ids] abind_def [of "drv_block _ _"]
          abind_def [of "drv_read _ _"] board_registers_read drv_update_def same last d_def)
  qed
  ultimately show ?thesis using s(2,3) by simp
qed

lemma board_history:
  "\<exists>h d s c r. driver_history board_hw 0 (h, d) \<and> drv_interfaces d = [s] \<and> nic_cqs s = [c] \<and>
     cpq_hw_regs c \<noteq> None \<and> nic_rxqs s = [r] \<and> rg_hw_regs r \<noteq> None"
proof -
  obtain d s where d: "init_common board_hw (0, new_driver 0) = (Inr (), (1, d))" "drv_interfaces d = [s]" "board_ready s"
    "nic_sched_pool s = nic_sched_pool board_nic" "drv_pool d = nic_pool s"
    using board_up by blast
  have up: "driver_history board_hw 0 (1, d)"
    by (rule driver_history.bring_up [OF driver_history.fresh d(1)])
  obtain h s' c r where run: "ndev_open board_hw 0 (1, s) = (Inl PlainException, (h, s'))" and s': "nic_cqs s' = [c]"
    "cpq_hw_regs c \<noteq> None" "nic_rxqs s' = [r]" "rg_hw_regs r \<noteq> None"
    using board_open [OF d(3,4)] by blast
  have "enter_interface 0 d = s" using d(2,5) by (simp add: enter_interface_def)
  with run have "run_op board_hw (OpenDev 0) (1, enter_interface 0 d) = (Inl PlainException, (h, s'))" by simp
  moreover have "calls_object (OpenDev 0) (drv_interfaces d ! 0)" using d(2,3) by (auto simp: board_ready_def)
  ultimately have "driver_history board_hw 0 (h, leave_interface 0 s' d)"
    using driver_history.operate [OF up, of 0 "OpenDev 0"] d(2) by simp
  then show ?thesis using s' d(2) by (intro exI conjI) (auto simp: leave_interface_def)
qed


section \<open>The theorem\<close>

text \<open>
  C30. The queues are wired: in every state the driver reaches by bringing up the device, serving
  interrupts and calling operations, on any hardware and wherever one of them raised,
  an event queue has in its table, under a number, exactly the completion queue that is open on it
  with that number; every open completion queue is in the table of one event queue, under a number of
  its own that is not free; a completion queue has as its source exactly the open ring that feeds it;
  every open ring feeds one; and a completion queue with a source has the handler for rings of its
  kind, one without has none.
\<close>

theorem queues_stay_wired:
  assumes "driver_history hw base (h, d)" "s \<in> set (drv_interfaces d)"
  shows "(\<forall>i < length (nic_eqs s). \<forall>c j. dget (evq_cq_table (nic_eqs s ! i)) c = Some j \<longleftrightarrow>
        j < length (nic_cqs s) \<and> cpq_hw_regs (nic_cqs s ! j) \<noteq> None \<and> cpq_eq (nic_cqs s ! j) = Some i \<and>
        cpq_cqn (nic_cqs s ! j) = Some c) \<and>
    (\<forall>j < length (nic_cqs s). cpq_hw_regs (nic_cqs s ! j) \<noteq> None \<longrightarrow>
        (\<exists>i < length (nic_eqs s). \<exists>c. dget (evq_cq_table (nic_eqs s ! i)) c = Some j \<and>
           c \<notin> set (rc_free_list (nic_cq_res s)) \<and>
           (\<forall>j' < length (nic_cqs s). cpq_hw_regs (nic_cqs s ! j') \<noteq> None \<and> cpq_cqn (nic_cqs s ! j') = Some c \<longrightarrow> j' = j))) \<and>
    (\<forall>j < length (nic_cqs s). \<forall>k i. cpq_src_ring (nic_cqs s ! j) = Some (k, i) \<longleftrightarrow>
        i < length (rings k s) \<and> rg_hw_regs (rings k s ! i) \<noteq> None \<and> rg_cq (rings k s ! i) = Some j) \<and>
    (\<forall>k. \<forall>i < length (rings k s). rg_hw_regs (rings k s ! i) \<noteq> None \<longrightarrow>
        (\<exists>j < length (nic_cqs s). cpq_src_ring (nic_cqs s ! j) = Some (k, i))) \<and>
    (\<forall>j < length (nic_cqs s). cpq_handler (nic_cqs s ! j) = map_option fst (cpq_src_ring (nic_cqs s ! j)))"
proof -
  have w: "linked (wiring s)" using driver_history_wired [OF assms(1)] assms(2) by (simp add: all_wired_def)
  note q = queues_at [OF w] and r = rings_at [OF w]
  have open_attached: "\<exists>i < length (nic_eqs s). \<exists>c. dget (evq_cq_table (nic_eqs s ! i)) c = Some j \<and>
      c \<notin> set (rc_free_list (nic_cq_res s)) \<and>
      (\<forall>j' < length (nic_cqs s). cpq_hw_regs (nic_cqs s ! j') \<noteq> None \<and> cpq_cqn (nic_cqs s ! j') = Some c \<longrightarrow> j' = j)"
    if j: "j < length (nic_cqs s)" "cpq_hw_regs (nic_cqs s ! j) \<noteq> None" for j
  proof -
    obtain i c where ic: "in_table (wiring s) j i c" "i < length (nic_eqs s)" "c \<notin> set (rc_free_list (nic_cq_res s))"
      using q(2) [OF j] by blast
    have "j' = j" if j': "j' < length (nic_cqs s)" "cpq_hw_regs (nic_cqs s ! j') \<noteq> None" "cpq_cqn (nic_cqs s ! j') = Some c" for j'
    proof -
      obtain i' c' where "in_table (wiring s) j' i' c'" using q(2) [OF j'(1,2)] by blast
      moreover from this have "c' = c" using j'(3) by (simp add: in_table_at)
      ultimately show ?thesis using q(3) [OF ic(1)] by blast
    qed
    with ic q(1) [OF ic(2)] show ?thesis by blast
  qed
  have open_feeds: "\<exists>j < length (nic_cqs s). cpq_src_ring (nic_cqs s ! j) = Some (k, i)"
    if "i < length (rings k s)" "rg_hw_regs (rings k s ! i) \<noteq> None" for k i
    using r(1,2) that by blast
  show ?thesis
    using open_attached q(1) [unfolded in_table_at] r(1) [unfolded feeds_at] open_feeds r(3)
    by (intro conjI allI impI) blast+
qed

text \<open>On the board the memory runs out while a device is opened: what it has opened is wired.\<close>

theorem queues_stay_wired_witness:
  "\<exists>h d s. driver_history board_hw 0 (h, d) \<and> drv_interfaces d = [s] \<and> length (nic_cqs s) = 1 \<and>
     cpq_src_ring (nic_cqs s ! 0) = Some (RX, 0) \<and> cpq_handler (nic_cqs s ! 0) = Some RX \<and>
     (\<exists>i c. dget (evq_cq_table (nic_eqs s ! i)) c = Some 0)"
proof -
  obtain h d s c r where d: "driver_history board_hw 0 (h, d)" "drv_interfaces d = [s]" "nic_cqs s = [c]"
    "cpq_hw_regs c \<noteq> None" "nic_rxqs s = [r]" "rg_hw_regs r \<noteq> None"
    using board_history by blast
  have "s \<in> set (drv_interfaces d)" using d(2) by simp
  note linked = queues_stay_wired [OF d(1) this]
  have "\<exists>j < length (nic_cqs s). cpq_src_ring (nic_cqs s ! j) = Some (RX, 0)"
    using linked d(5,6) by (metis length_Cons nth_Cons_0 rings.simps(2) zero_less_Suc)
  then have "cpq_src_ring (nic_cqs s ! 0) = Some (RX, 0)" using d(3) by simp
  moreover from this have "cpq_handler (nic_cqs s ! 0) = Some RX"
    using linked d(3) by (metis length_Cons map_option_eq_Some fst_conv zero_less_Suc)
  moreover have "\<exists>i c. dget (evq_cq_table (nic_eqs s ! i)) c = Some 0"
    using linked d(3,4) by (metis length_Cons nth_Cons_0 zero_less_Suc)
  moreover have "length (nic_cqs s) = 1" using d(3) by simp
  ultimately show ?thesis using d(1,2) by blast
qed

end
