(* ===== verification/Nic_Windows.thy ===== *)
theory Nic_Windows
  imports Nic_Events Nic_Netdev
begin

text \<open>
  What a ring of the NIC driver means: a window of pointers, some of them still holding a packet. The
  pointers run on for ever, the slots repeat; on a ring whose window is no longer than the ring the
  two views agree, and this theory refines the updates the driver makes on the slots to the ones on
  the window.
\<close>


section \<open>Pointers and slots\<close>

lemma and_size_mask: "p AND (2 ^ k - 1) = p mod 2 ^ k" for p :: int
  by (simp add: mask_eq_exp_minus_1 [symmetric] take_bit_eq_mask [symmetric] take_bit_eq_mod)

lemma and_size_bit: "p AND 2 ^ k \<noteq> 0 \<longleftrightarrow> bit p k" for p :: int
  by (simp add: and_exp_eq_0_iff_not_bit)

lemma lap_bit: "bit (p + 2 ^ k) k \<longleftrightarrow> \<not> bit p k" for p :: int
proof -
  have "(p + 2 ^ k) div 2 ^ k = p div 2 ^ k + 1" using div_add_self2 [of "2 ^ k" p] by simp
  then show ?thesis by (simp only: bit_iff_odd) simp
qed

lemma mod_in_window:
  fixes p q c :: int
  assumes "c \<le> p" "p < c + n" "c \<le> q" "q < c + n" "p mod n = q mod n"
  shows "p = q"
proof -
  have "n dvd p - q" using assms(5) by (simp add: mod_eq_dvd_iff)
  then obtain m where m: "p - q = n * m" by (elim dvdE)
  have "p - q < n" "q - p < n" "0 < n" using assms(1-4) by linarith+
  then have "n * m < n * 1" "n * (-1) < n * m" using m by simp_all
  with \<open>0 < n\<close> have "m < 1" "-1 < m" by (simp_all only: mult_less_cancel_left_pos)
  then have "m = 0" by linarith
  with m show ?thesis by simp
qed

definition slot_index :: "'r ring \<Rightarrow> int \<Rightarrow> nat" where
  "slot_index r p = nat (p AND rg_size_mask r)"

definition ring_sized :: "nat \<Rightarrow> 'r ring \<Rightarrow> bool" where
  "ring_sized k r \<longleftrightarrow> rg_size r = 2 ^ k \<and> rg_size_mask r = 2 ^ k - 1 \<and> rg_full_size r = 2 ^ k div 2 \<and>
     length (rg_info r) = 2 ^ k"

lemma slot_index_mod: "ring_sized k r \<Longrightarrow> slot_index r p = nat (p mod 2 ^ k)"
  by (simp add: slot_index_def ring_sized_def and_size_mask)

lemma slot_index_less: "ring_sized k r \<Longrightarrow> slot_index r p < length (rg_info r)"
  by (simp add: slot_index_mod ring_sized_def nat_less_iff)

lemma slot_index_inj:
  assumes "ring_sized k r" "c \<le> p" "p < c + 2 ^ k" "c \<le> q" "q < c + 2 ^ k" "slot_index r p = slot_index r q"
  shows "p = q"
  using assms mod_in_window [of c p "2 ^ k" q] by (simp add: slot_index_mod eq_nat_nat_iff)


section \<open>Windows\<close>

text \<open>The packets outstanding, by pointer; a ring whose slots outside the window are free.\<close>

definition outstanding :: "'r ring \<Rightarrow> int \<Rightarrow> 'r option" where
  "outstanding r p =
     (if rg_cons_ptr r \<le> p \<and> p < rg_prod_ptr r then rg_info r ! slot_index r p else None)"

definition ring_ok :: "nat \<Rightarrow> 'r ring \<Rightarrow> bool" where
  "ring_ok k r \<longleftrightarrow> ring_sized k r \<and> rg_cons_ptr r \<le> rg_prod_ptr r \<and> rg_prod_ptr r \<le> rg_cons_ptr r + 2 ^ k \<and>
     (\<forall>p. rg_prod_ptr r \<le> p \<and> p < rg_cons_ptr r + 2 ^ k \<longrightarrow> rg_info r ! slot_index r p = None)"

lemma outstanding_slot:
  assumes "ring_ok k r" "rg_cons_ptr r \<le> p" "p < rg_cons_ptr r + 2 ^ k"
  shows "outstanding r p = rg_info r ! slot_index r p"
  using assms by (auto simp: outstanding_def ring_ok_def)

text \<open>Placing a packet at the producer pointer.\<close>

definition ring_put :: "'r \<Rightarrow> 'r ring \<Rightarrow> 'r ring" where
  "ring_put pkt r = r\<lparr>rg_info := (rg_info r)[slot_index r (rg_prod_ptr r) := Some pkt], rg_prod_ptr := rg_prod_ptr r + 1\<rparr>"

lemma ring_put_ok:
  assumes ok: "ring_ok k r" and space: "rg_prod_ptr r < rg_cons_ptr r + 2 ^ k"
  shows "ring_ok k (ring_put pkt r)" "outstanding (ring_put pkt r) = (outstanding r)(rg_prod_ptr r := Some pkt)"
    "rg_info r ! slot_index r (rg_prod_ptr r) = None"
proof -
  let ?r = "ring_put pkt r"
  have sized: "ring_sized k r" using ok by (simp add: ring_ok_def)
  then have sized': "ring_sized k ?r" by (simp add: ring_sized_def ring_put_def)
  have idx: "slot_index ?r p = slot_index r p" for p by (simp add: slot_index_def ring_put_def)
  have same: "rg_info ?r ! slot_index r p = (if p = rg_prod_ptr r then Some pkt else rg_info r ! slot_index r p)"
    if "rg_cons_ptr r \<le> p" "p < rg_cons_ptr r + 2 ^ k" for p
  proof -
    have "slot_index r p = slot_index r (rg_prod_ptr r) \<longleftrightarrow> p = rg_prod_ptr r"
      using slot_index_inj [OF sized that, of "rg_prod_ptr r"] ok space by (auto simp: ring_ok_def)
    then show ?thesis
      using slot_index_less [OF sized, of p] by (cases "p = rg_prod_ptr r") (simp_all add: ring_put_def)
  qed
  show "rg_info r ! slot_index r (rg_prod_ptr r) = None" using ok space by (simp add: ring_ok_def)
  show "ring_ok k ?r"
    unfolding ring_ok_def idx
  proof (intro conjI allI impI sized')
    fix p assume "rg_prod_ptr ?r \<le> p \<and> p < rg_cons_ptr ?r + 2 ^ k"
    then have p: "rg_prod_ptr r < p" "p < rg_cons_ptr r + 2 ^ k" by (simp_all add: ring_put_def)
    then have "rg_info ?r ! slot_index r p = rg_info r ! slot_index r p" using same ok by (auto simp: ring_ok_def)
    with ok p show "rg_info ?r ! slot_index r p = None" by (simp add: ring_ok_def)
  qed (use ok space in \<open>simp_all add: ring_put_def ring_ok_def\<close>)
  show "outstanding ?r = (outstanding r)(rg_prod_ptr r := Some pkt)"
  proof
    fix p
    have "outstanding ?r p = (if rg_cons_ptr r \<le> p \<and> p < rg_prod_ptr r + 1 then rg_info ?r ! slot_index r p else None)"
      by (simp only: outstanding_def idx) (simp add: ring_put_def)
    also have "\<dots> = ((outstanding r)(rg_prod_ptr r := Some pkt)) p"
      using same [of p] ok space by (auto simp: outstanding_def ring_ok_def)
    finally show "outstanding ?r p = ((outstanding r)(rg_prod_ptr r := Some pkt)) p" .
  qed
qed

text \<open>Clearing a slot: the packet outstanding there, if there is one, is no longer.\<close>

definition ring_clear :: "nat \<Rightarrow> 'r ring \<Rightarrow> 'r ring" where
  "ring_clear i r = r\<lparr>rg_info := (rg_info r)[i := None]\<rparr>"

lemma ring_clear_ok:
  assumes ok: "ring_ok k r"
  shows "ring_ok k (ring_clear i r)"
    "outstanding (ring_clear i r) = (\<lambda>p. if slot_index r p = i then None else outstanding r p)"
proof -
  have idx: "slot_index (ring_clear i r) p = slot_index r p" for p by (simp add: slot_index_def ring_clear_def)
  have sized: "ring_sized k r" using ok by (simp add: ring_ok_def)
  have at: "rg_info (ring_clear i r) ! slot_index r p = (if slot_index r p = i then None else rg_info r ! slot_index r p)" for p
    using slot_index_less [OF sized, of p] by (auto simp: ring_clear_def nth_list_update)
  have sized': "ring_sized k (ring_clear i r)" using sized by (simp add: ring_sized_def ring_clear_def)
  show "ring_ok k (ring_clear i r)"
    using ok sized' unfolding ring_ok_def idx at by (simp add: ring_clear_def)
  show "outstanding (ring_clear i r) = (\<lambda>p. if slot_index r p = i then None else outstanding r p)"
  proof
    fix p
    have "outstanding (ring_clear i r) p =
        (if rg_cons_ptr r \<le> p \<and> p < rg_prod_ptr r
         then (if slot_index r p = i then None else rg_info r ! slot_index r p) else None)"
      by (simp only: outstanding_def idx at) (simp add: ring_clear_def)
    then show "outstanding (ring_clear i r) p = (if slot_index r p = i then None else outstanding r p)"
      by (simp add: outstanding_def)
  qed
qed

text \<open>Moving the consumer pointer over free slots.\<close>

lemma skip_free_returns:
  assumes "p \<le> prod_ptr"
  shows "\<exists>q. skip_free info mask1 prod_ptr p = Some q \<and> p \<le> q \<and> q \<le> prod_ptr \<and>
    (\<forall>i. p \<le> i \<and> i < q \<longrightarrow> info ! nat (i AND mask1) = None) \<and>
    (q < prod_ptr \<longrightarrow> info ! nat (q AND mask1) \<noteq> None)"
  using assms
proof (induction "nat (prod_ptr - p)" arbitrary: p rule: less_induct)
  case less
  show ?case
  proof (cases "p = prod_ptr \<or> info ! nat (p AND mask1) \<noteq> None")
    case True
    with less.prems show ?thesis by (subst skip_free.simps) auto
  next
    case False
    with less.prems have "p + 1 \<le> prod_ptr" by simp
    moreover have "nat (prod_ptr - (p + 1)) < nat (prod_ptr - p)" using \<open>p + 1 \<le> prod_ptr\<close> by simp
    ultimately obtain q where q: "skip_free info mask1 prod_ptr (p + 1) = Some q" "p + 1 \<le> q" "q \<le> prod_ptr"
      "\<forall>i. p + 1 \<le> i \<and> i < q \<longrightarrow> info ! nat (i AND mask1) = None" "q < prod_ptr \<longrightarrow> info ! nat (q AND mask1) \<noteq> None"
      using less.hyps [of "p + 1"] by blast
    have "info ! nat (i AND mask1) = None" if "p \<le> i" "i < q" for i
      using q(4) False that by (cases "i = p") simp_all
    moreover have "skip_free info mask1 prod_ptr p = Some q" using q(1) False by (subst skip_free.simps) simp
    ultimately show ?thesis using q(2,3,5) by (intro exI [of _ q]) simp
  qed
qed

definition ring_advance :: "int \<Rightarrow> 'r ring \<Rightarrow> 'r ring" where
  "ring_advance c r = r\<lparr>rg_cons_ptr := c\<rparr>"

lemma ring_advance_ok:
  assumes ok: "ring_ok k r" and c: "rg_cons_ptr r \<le> c" "c \<le> rg_prod_ptr r"
    and free: "\<And>p. rg_cons_ptr r \<le> p \<Longrightarrow> p < c \<Longrightarrow> rg_info r ! slot_index r p = None"
  shows "ring_ok k (ring_advance c r)" "outstanding (ring_advance c r) = outstanding r"
proof -
  have idx: "slot_index (ring_advance c r) p = slot_index r p" for p by (simp add: slot_index_def ring_advance_def)
  have sized: "ring_sized k r" using ok by (simp add: ring_ok_def)
  have "rg_info r ! slot_index r p = None" if p: "rg_prod_ptr r \<le> p" "p < c + 2 ^ k" for p
  proof (cases "p < rg_cons_ptr r + 2 ^ k")
    case True
    with ok p(1) show ?thesis by (simp add: ring_ok_def)
  next
    case False
    then have "rg_info r ! slot_index r (p - 2 ^ k) = None" using p by (intro free) simp_all
    then show ?thesis using sized by (simp add: slot_index_mod)
  qed
  then show "ring_ok k (ring_advance c r)"
    using ok c unfolding ring_ok_def idx by (simp add: ring_advance_def ring_sized_def)
  show "outstanding (ring_advance c r) = outstanding r"
  proof
    fix p show "outstanding (ring_advance c r) p = outstanding r p"
      using c free [of p] by (auto simp: outstanding_def idx) (simp_all add: ring_advance_def)
  qed
qed

end
