(* ===== verification/Nic_Descriptors.thy ===== *)
theory Nic_Descriptors
  imports Nic_Netdev
begin

text \<open>
  The descriptors of a packet: how it is cut into segments and what a device finds that reads the
  descriptors back.
\<close>


section \<open>Segments\<close>

text \<open>Segments that follow each other from one offset to another.\<close>

fun tiles :: "(int \<times> int) list \<Rightarrow> int \<Rightarrow> int \<Rightarrow> bool" where
  "tiles [] a b \<longleftrightarrow> a = b"
| "tiles ((seg, offset) # rest) a b \<longleftrightarrow> offset = a \<and> 0 \<le> seg \<and> tiles rest (a + seg) b"

lemma length_rx_segments [simp]: "length (rx_segments n len offset) = n"
  by (induction n len offset rule: rx_segments.induct) (simp_all add: Let_def)

lemma rx_segments_tile:
  assumes "offset \<le> len" "0 < n"
  shows "tiles (rx_segments n len offset) offset len"
  using assms
proof (induction n len offset rule: rx_segments.induct)
  case (2 n len offset)
  then show ?case by (cases n) (auto simp: Let_def)
qed simp

lemma tx_segments_tile:
  assumes "0 < n" "0 \<le> len"
  shows "tiles (tx_segments n len) 0 len" "length (tx_segments n len) = n"
  using assms rx_segments_tile [of "min len 42" len "n - 1"] by (auto simp: tx_segments_def Let_def)

lemma tiles_bounds:
  assumes "tiles xs a b" "(seg, offset) \<in> set xs"
  shows "0 \<le> seg" "a \<le> offset" "offset + seg \<le> b"
proof -
  have le: "a \<le> b" if "tiles xs a b" for xs a b
    using that by (induction xs a b rule: tiles.induct) auto
  have "0 \<le> seg \<and> a \<le> offset \<and> offset + seg \<le> b"
    using assms
  proof (induction xs a b rule: tiles.induct)
    case (2 s o1 rest a b)
    then show ?case using le [of rest "a + s" b] by auto
  qed simp
  then show "0 \<le> seg" "a \<le> offset" "offset + seg \<le> b" by simp_all
qed

lemma short_segments:
  "\<forall>s \<in> set (butlast (rx_segments n len offset)). fst s \<le> 4096"
  "\<forall>s \<in> set (butlast (tx_segments n len)). fst s \<le> 4096"
proof -
  show rx: "\<forall>s \<in> set (butlast (rx_segments n len offset)). fst s \<le> 4096" for n len offset
  proof (induction n len offset rule: rx_segments.induct)
    case (2 n len offset)
    then show ?case by (cases n) (auto simp: Let_def split: if_splits)
  qed simp
  show "\<forall>s \<in> set (butlast (tx_segments n len)). fst s \<le> 4096"
  proof (cases "1 < n")
    case True
    then have "tx_segments n len = (min len 42, 0) # rx_segments (n - 1) len (min len 42)"
      by (simp add: tx_segments_def Let_def)
    moreover have "rx_segments (n - 1) len (min len 42) \<noteq> []"
      using True by (metis length_0_conv length_rx_segments not_less_iff_gr_or_eq zero_less_diff)
    ultimately show ?thesis using rx [of "n - 1" len "min len 42"] by simp
  next
    case False
    then have "tx_segments n len = [(len, 0)]" by (simp add: tx_segments_def Let_def)
    then show ?thesis by simp
  qed
qed

text \<open>The slices a list of segments names, put together, are the whole.\<close>

lemma tiles_concat:
  assumes "tiles xs (int a) b" "b = int (length data)" "a \<le> length data"
  shows "concat (map (\<lambda>s. take (nat (fst s)) (drop (nat (snd s)) data)) xs) = drop a data"
  using assms
proof (induction xs arbitrary: a)
  case (Cons s xs)
  obtain seg offset where s: "s = (seg, offset)" by fastforce
  with Cons.prems have t: "offset = int a" "0 \<le> seg" "tiles xs (int (a + nat seg)) b" by simp_all
  have le: "a + nat seg \<le> length data"
    using tiles_bounds(3) [OF Cons.prems(1), of seg offset] s t(1,2) Cons.prems(2) by simp
  with Cons.IH [OF t(3) Cons.prems(2)] s t(1) show ?case
    by simp (metis append_take_drop_id drop_drop add.commute)
qed simp


section \<open>Descriptors\<close>

lemma le_field_at:
  assumes "length a = k" "length v = n"
  shows "le_field n k (a @ v @ b) = be_int (rev v)"
  using assms by (simp add: le_field_def)

lemma le_bytes_Inr:
  "fits n v \<Longrightarrow> \<exists>bs. le_bytes n v = Inr bs \<and> length bs = n \<and> be_int (rev bs) = v"
  by (simp add: le_bytes_def)

text \<open>A descriptor in the terms of its fields: checksum command, length, address.\<close>

lemma tx_descriptor_fields:
  assumes "fits 2 csum" "fits 4 (fst s)" "fits 8 (segment_address ptr s)"
  shows "\<exists>d. tx_descriptor k csum ptr s = Inr d \<and> length d = 16 \<and> le_field 4 4 d = fst s \<and>
    le_field 8 8 d = segment_address ptr s \<and> (k = 0 \<longrightarrow> le_field 2 2 d = csum)"
proof -
  have zero: "fits n 0" for n by (simp add: fits_def)
  obtain z2 z4 c l a where f: "le_bytes 2 0 = Inr z2" "length z2 = 2" "le_bytes 4 0 = Inr z4" "length z4 = 4"
    "le_bytes 2 csum = Inr c" "length c = 2" "be_int (rev c) = csum"
    "le_bytes 4 (fst s) = Inr l" "length l = 4" "be_int (rev l) = fst s"
    "le_bytes 8 (segment_address ptr s) = Inr a" "length a = 8" "be_int (rev a) = segment_address ptr s"
    using le_bytes_Inr [OF zero [of 2]] le_bytes_Inr [OF zero [of 4]] le_bytes_Inr [OF assms(1)]
      le_bytes_Inr [OF assms(2)] le_bytes_Inr [OF assms(3)] by blast
  show ?thesis
  proof (cases "k = 0")
    case True
    then have "tx_descriptor k csum ptr s = Inr (z2 @ c @ l @ a)"
      using f by (simp add: tx_descriptor_def tx_first_descriptor_def)
    moreover have "le_field 2 2 (z2 @ c @ l @ a) = csum" using le_field_at [of z2 2 c 2 "l @ a"] f by simp
    moreover have "le_field 4 4 (z2 @ c @ l @ a) = fst s" using le_field_at [of "z2 @ c" 4 l 4 a] f by simp
    moreover have "le_field 8 8 (z2 @ c @ l @ a) = segment_address ptr s"
      using le_field_at [of "z2 @ c @ l" 8 a 8 "[]"] f by simp
    ultimately show ?thesis using f by simp
  next
    case False
    then have "tx_descriptor k csum ptr s = Inr (z4 @ l @ a)"
      using f by (simp add: tx_descriptor_def rx_descriptor_def)
    moreover have "le_field 4 4 (z4 @ l @ a) = fst s" using le_field_at [of z4 4 l 4 a] f by simp
    moreover have "le_field 8 8 (z4 @ l @ a) = segment_address ptr s"
      using le_field_at [of "z4 @ l" 8 a 8 "[]"] f by simp
    ultimately show ?thesis using f False by simp
  qed
qed

lemma tiled_descriptor:
  assumes "tiles segs 0 len" "seg \<in> set segs" "len < 2 ^ 32" "0 \<le> ptr" "ptr + len \<le> 2 ^ 64" "0 \<le> csum" "csum < 2 ^ 16"
  shows "\<exists>d. tx_descriptor k csum ptr seg = Inr d \<and> length d = 16 \<and> le_field 4 4 d = fst seg \<and>
    le_field 8 8 d = segment_address ptr seg \<and> (k = 0 \<longrightarrow> le_field 2 2 d = csum)"
proof (rule tx_descriptor_fields)
  obtain n offset where seg: "seg = (n, offset)" by fastforce
  note b = tiles_bounds [OF assms(1) assms(2) [unfolded seg]]
  show "fits 2 csum" using assms by (simp add: fits_def)
  show "fits 4 (fst seg)" using b assms seg by (simp add: fits_def)
  show "fits 8 (segment_address ptr seg)" using b assms seg by (simp add: fits_def segment_address_def)
qed

text \<open>
  What a device fetches that follows the descriptors: for each one as many bytes as it says, from
  the address it names, of a buffer that holds the packet from address \<open>ptr\<close> on.
\<close>

definition fetched :: "int \<Rightarrow> byte list \<Rightarrow> byte list list \<Rightarrow> byte list" where
  "fetched ptr data ds =
     concat (map (\<lambda>d. take (nat (le_field 4 4 d)) (drop (nat (le_field 8 8 d - ptr)) data)) ds)"

text \<open>The descriptors of the segments, one each.\<close>

definition describes :: "int \<Rightarrow> int \<Rightarrow> nat \<times> int \<times> int \<Rightarrow> byte list \<Rightarrow> bool" where
  "describes csum ptr e d \<longleftrightarrow>
     length d = 16 \<and> le_field 4 4 d = fst (snd e) \<and> le_field 8 8 d = segment_address ptr (snd e) \<and>
     (fst e = 0 \<longrightarrow> le_field 2 2 d = csum)"

lemma map_Inr_exists:
  "\<forall>e \<in> set es. \<exists>d. f e = Inr d \<and> P e d \<Longrightarrow> \<exists>ds. map f es = map Inr ds \<and> list_all2 P es ds"
proof (induction es)
  case (Cons e es)
  then obtain d ds where "f e = Inr d" "P e d" "map f es = map Inr ds" "list_all2 P es ds" by auto
  then show ?case by (intro exI [of _ "d # ds"]) simp
qed simp

lemma descriptors_exist:
  assumes "tiles segs 0 len" "len < 2 ^ 32" "0 \<le> ptr" "ptr + len \<le> 2 ^ 64" "0 \<le> csum" "csum < 2 ^ 16"
  shows "\<exists>ds. map (\<lambda>(k, s). tx_descriptor k csum ptr s) (enumerate 0 segs) = map Inr ds \<and>
    list_all2 (describes csum ptr) (enumerate 0 segs) ds"
proof (rule map_Inr_exists, rule ballI)
  fix e assume "e \<in> set (enumerate 0 segs)"
  then have "snd e \<in> set segs" by (metis in_set_zipE enumerate_eq_zip prod.collapse)
  from tiled_descriptor [OF assms(1) this assms(2-6)]
  show "\<exists>d. (case e of (k, s) \<Rightarrow> tx_descriptor k csum ptr s) = Inr d \<and> describes csum ptr e d"
    by (auto simp: describes_def split: prod.splits)
qed

lemma fetched_described:
  "list_all2 (describes csum ptr) (enumerate k segs) ds \<Longrightarrow>
     fetched ptr data ds = concat (map (\<lambda>s. take (nat (fst s)) (drop (nat (snd s)) data)) segs)"
proof (induction segs arbitrary: k ds)
  case (Cons s segs)
  then obtain d ds' where ds: "ds = d # ds'" "describes csum ptr (k, s) d"
    "list_all2 (describes csum ptr) (enumerate (Suc k) segs) ds'" by (auto simp: list_all2_Cons1)
  have "take (nat (le_field 4 4 d)) (drop (nat (le_field 8 8 d - ptr)) data) = take (nat (fst s)) (drop (nat (snd s)) data)"
    using ds(2) by (cases "fst s = 0") (simp_all add: describes_def segment_address_def)
  with Cons.IH [OF ds(3)] show ?case by (simp add: ds(1) fetched_def)
qed (simp add: fetched_def)

lemma described_butlast:
  assumes "list_all2 (describes csum ptr) (enumerate 0 segs) ds" "d \<in> set (butlast ds)"
  obtains s where "s \<in> set (butlast segs)" "le_field 4 4 d = fst s"
proof -
  have len: "length ds = length segs" using list_all2_lengthD [OF assms(1)] by simp
  obtain i where i: "i < length ds - 1" "d = ds ! i"
    using assms(2) by (auto simp: in_set_conv_nth nth_butlast)
  then have "describes csum ptr (enumerate 0 segs ! i) (ds ! i)" using list_all2_nthD2 [OF assms(1), of i] by simp
  moreover have "enumerate 0 segs ! i = (i, segs ! i)" using i len by (simp add: nth_enumerate_eq)
  moreover have "segs ! i \<in> set (butlast segs)"
    using i len by (metis length_butlast nth_butlast nth_mem)
  ultimately show ?thesis using that i(2) by (auto simp: describes_def)
qed

text \<open>
  C35. Transmit descriptors: a packet that fits its buffer gets one 16-byte descriptor per entry of
  the block, packing none of them fails, the first carries the checksum command, and a device that
  follows them fetches exactly the packet. No segment but the last exceeds 4096 bytes.
\<close>

theorem transmit_descriptors_fetch:
  assumes "0 < n" "int (length data) < 2 ^ 32" "0 \<le> ptr" "ptr + int (length data) \<le> 2 ^ 64" "0 \<le> csum" "csum < 2 ^ 16"
  shows "\<exists>ds. map (\<lambda>(k, s). tx_descriptor k csum ptr s) (enumerate 0 (tx_segments n (int (length data)))) = map Inr ds \<and>
    length ds = n \<and> (\<forall>d \<in> set ds. length d = 16) \<and> le_field 2 2 (hd ds) = csum \<and> fetched ptr data ds = data \<and>
    (\<forall>d \<in> set (butlast ds). le_field 4 4 d \<le> 4096)"
proof -
  let ?segs = "tx_segments n (int (length data))"
  note tile = tx_segments_tile [OF assms(1) of_nat_0_le_iff [of "length data"]]
  obtain ds where ds: "map (\<lambda>(k, s). tx_descriptor k csum ptr s) (enumerate 0 ?segs) = map Inr ds"
    and described: "list_all2 (describes csum ptr) (enumerate 0 ?segs) ds"
    using descriptors_exist [OF tile(1) assms(2-6)] by blast
  have len: "length ds = n" using list_all2_lengthD [OF described] tile(2) by simp
  have nth: "describes csum ptr (i, ?segs ! i) (ds ! i)" if "i < n" for i
    using list_all2_nthD2 [OF described, of i] that len tile(2) by (simp add: nth_enumerate_eq)
  have "\<forall>d \<in> set ds. length d = 16" using nth len by (auto simp: in_set_conv_nth describes_def)
  moreover have "le_field 2 2 (hd ds) = csum" using nth [of 0] len assms(1) by (cases ds) (simp_all add: describes_def)
  moreover have "fetched ptr data ds = data"
    using fetched_described [OF described] tiles_concat [of ?segs 0 _ data] tile(1) by simp
  moreover have "le_field 4 4 d \<le> 4096" if "d \<in> set (butlast ds)" for d
    using described_butlast [OF described that] short_segments(2) by metis
  ultimately show ?thesis using ds len by blast
qed

theorem transmit_descriptors_fetch_witness:
  "\<exists>ds. map (\<lambda>(k, s). tx_descriptor k 0x8E22 26 s) (enumerate 0 (tx_segments 4 60)) = map Inr ds \<and>
     length ds = 4 \<and> fetched 26 (replicate 60 7) ds = replicate 60 7"
proof -
  have "int (length (replicate 60 (7 :: byte))) = 60" by simp
  with transmit_descriptors_fetch [where n = 4 and data = "replicate 60 7" and ptr = 26 and csum = "0x8E22"] show ?thesis
    by simp blast
qed

end
