(* ===== verification/Nic_Transmit.thy ===== *)
theory Nic_Transmit
  imports Nic_Windows Nic_Descriptors Nic_Driver
begin

text \<open>
  \<open>start_xmit\<close> on a ring that is in order: while there is space the packet is placed at the producer
  pointer and nothing else outstanding changes; without space the call waits and touches nothing.
\<close>

text \<open>
  Hardware that does what is asked within bounds: a region of the size wanted, writes of 32-bit
  values, stores inside a region, addresses of 64 bits.
\<close>

definition obliging :: "('h, 'r) nic_hw \<Rightarrow> bool" where
  "obliging hw \<longleftrightarrow>
     (\<forall>n h. 0 \<le> n \<and> n < 2 ^ 32 \<longrightarrow> (\<exists>x. fst (hw_alloc_region hw n h) = Inr x \<and> hw_size hw x = n)) \<and>
     (\<forall>a v h. 0 \<le> v \<and> v < 2 ^ 32 \<longrightarrow> fst (hw_write hw a v h) = Inr ()) \<and>
     (\<forall>r i bs h. 0 \<le> i \<and> i + int (length bs) \<le> hw_size hw r \<longrightarrow> fst (hw_store hw r i bs h) = Inr ()) \<and>
     (\<forall>r. 0 \<le> hw_address hw r \<and> hw_address hw r + hw_size hw r \<le> 2 ^ 64)"

lemma obliging_write:
  assumes "obliging hw" "0 \<le> v" "v < 2 ^ 32"
  shows "\<exists>h'. reg_write hw a v (h, s) = (Inr (), (h', s))"
proof -
  obtain r h' where call: "hw_write hw a v h = (r, h')" by (metis surj_pair)
  moreover have "fst (hw_write hw a v h) = Inr ()" using assms unfolding obliging_def by blast
  ultimately show ?thesis by (simp add: reg_write_def hardware_def)
qed

lemma obliging_store:
  assumes "obliging hw" "0 \<le> i" "i + int (length bs) \<le> hw_size hw x"
  shows "\<exists>h'. mem_store hw x i bs (h, s) = (Inr (), (h', s))"
proof -
  obtain r h' where call: "hw_store hw x i bs h = (r, h')" by (metis surj_pair)
  moreover have "fst (hw_store hw x i bs h) = Inr ()" using assms unfolding obliging_def by blast
  ultimately show ?thesis by (simp add: mem_store_def hardware_def)
qed

text \<open>The pool: the free buffers have the size of a packet buffer.\<close>

definition pool_sized :: "('h, 'r) nic_hw \<Rightarrow> 'r packet_pool \<Rightarrow> bool" where
  "pool_sized hw pl \<longleftrightarrow> (\<forall>x \<in> set (pl_free_packets pl). hw_size hw x = pl_pkt_buf_size pl)"

lemma take_pkt_obliging:
  assumes "obliging hw" "pool_sized hw (nic_pool s)" "0 \<le> pl_pkt_buf_size (nic_pool s)" "pl_pkt_buf_size (nic_pool s) < 2 ^ 32"
  shows "\<exists>pkt h' pl. take_pkt hw (h, s) = (Inr pkt, (h', s\<lparr>nic_pool := pl\<rparr>)) \<and>
    hw_size hw pkt = pl_pkt_buf_size (nic_pool s)"
proof (cases "pl_free_packets (nic_pool s)")
  case Nil
  obtain r h' where call: "hw_alloc_region hw (pl_pkt_buf_size (nic_pool s)) h = (r, h')" by (metis surj_pair)
  then obtain pkt where "r = Inr pkt" "hw_size hw pkt = pl_pkt_buf_size (nic_pool s)"
    using assms(1,3,4) unfolding obliging_def by (metis fst_conv)
  with Nil call show ?thesis by (auto simp: take_pkt_def alloc_pkt_def)
next
  case (Cons pkt rest)
  with assms(2) show ?thesis by (auto simp: take_pkt_def alloc_pkt_def pool_sized_def)
qed

text \<open>The ring as it has been opened: its descriptors have room in its region.\<close>

definition ring_backed :: "('h, 'r) nic_hw \<Rightarrow> nat \<Rightarrow> 'r ring \<Rightarrow> bool" where
  "ring_backed hw k r \<longleftrightarrow> 0 < rg_desc_block_size r \<and> rg_stride r = MQNIC_DESC_SIZE * rg_desc_block_size r \<and>
     rg_hw_regs r \<noteq> None \<and>
     (case rg_buf_region r of None \<Rightarrow> False | Some b \<Rightarrow> hw_size hw b = 2 ^ k * rg_stride r)"

lemma afor_run:
  assumes "\<And>x h. x \<in> set xs \<Longrightarrow> \<exists>h'. f x (h, s) = (Inr (), (h', s))"
  shows "\<exists>h'. afor xs f (h, s) = (Inr (), (h', s))"
  using assms
proof (induction xs arbitrary: h)
  case (Cons x xs)
  obtain h1 where 1: "f x (h, s) = (Inr (), (h1, s))" using Cons.prems [of x h] by auto
  obtain h2 where 2: "afor xs f (h1, s) = (Inr (), (h2, s))" using Cons.IH [of h1] Cons.prems by auto
  from 1 2 show ?case by (simp add: athen_def abind_def)
qed simp

lemma prod_ptr_command: "0 \<le> MQNIC_QUEUE_CMD_SET_PROD_PTR OR (p AND MQNIC_QUEUE_PTR_MASK)"
  "MQNIC_QUEUE_CMD_SET_PROD_PTR OR (p AND MQNIC_QUEUE_PTR_MASK) < 2 ^ 32"
proof -
  have "p AND 0xFFFF \<le> (0xFFFF :: int)" by (rule AND_upper2) simp
  then have "(0x80800000 :: int) OR (p AND 0xFFFF) < 2 ^ 32" by (intro OR_upper) simp_all
  then show "0 \<le> MQNIC_QUEUE_CMD_SET_PROD_PTR OR (p AND MQNIC_QUEUE_PTR_MASK)"
    "MQNIC_QUEUE_CMD_SET_PROD_PTR OR (p AND MQNIC_QUEUE_PTR_MASK) < 2 ^ 32"
    by (simp_all add: MQNIC_QUEUE_CMD_SET_PROD_PTR_def MQNIC_QUEUE_PTR_MASK_def)
qed

text \<open>Writing the descriptors of one slot of a ring.\<close>

lemma descriptors_stored:
  assumes hw: "obliging hw" and region: "hw_size hw b = 2 ^ k * (MQNIC_DESC_SIZE * n)"
    and index: "0 \<le> index" "index < 2 ^ k" and n: "length segs = nat n"
    and ds: "\<And>j x. x \<in> set segs \<Longrightarrow> \<exists>d. f j x = Inr d \<and> length d = 16"
  shows "\<exists>h'. afor (enumerate 0 segs) (\<lambda>(j, x). abind (alift (f j x)) (\<lambda>bs.
    mem_store hw b (index * (MQNIC_DESC_SIZE * n) + int j * MQNIC_DESC_SIZE) bs)) (h, s) = (Inr (), (h', s))"
proof (rule afor_run)
  fix y h assume y: "y \<in> set (enumerate 0 segs)"
  obtain j x where jx: "y = (j, x)" by (metis surj_pair)
  have j: "int j + 1 \<le> n" and x: "x \<in> set segs"
    using y n by (auto simp: jx in_set_enumerate_eq)
  then have "0 \<le> n" by linarith
  then have "(index + 1) * n \<le> 2 ^ k * n" "0 \<le> index * n" using index by (simp_all add: mult_right_mono)
  then have "0 \<le> index * (MQNIC_DESC_SIZE * n) + int j * MQNIC_DESC_SIZE"
    "index * (MQNIC_DESC_SIZE * n) + int j * MQNIC_DESC_SIZE + 16 \<le> hw_size hw b"
    using j by (simp_all add: region MQNIC_DESC_SIZE_def algebra_simps)
  moreover obtain d where d: "f j x = Inr d" "length d = 16" using ds [OF x] by blast
  ultimately obtain h' where "mem_store hw b (index * (MQNIC_DESC_SIZE * n) + int j * MQNIC_DESC_SIZE) d (h, s) = (Inr (), (h', s))"
    using obliging_store [OF hw, of "index * (MQNIC_DESC_SIZE * n) + int j * MQNIC_DESC_SIZE" d b h s] by auto
  with d(1) show "\<exists>h'. (case y of (j, x) \<Rightarrow> abind (alift (f j x)) (\<lambda>bs.
      mem_store hw b (index * (MQNIC_DESC_SIZE * n) + int j * MQNIC_DESC_SIZE) bs)) (h, s) = (Inr (), (h', s))"
    by (auto simp: jx)
qed

lemma the_ring_upd: "i < length (nic_txqs s) \<Longrightarrow> the_ring TX i (upd_ring TX i f s) = f (nic_txqs s ! i)"
  by simp

lemma xmit_send_run:
  assumes hw: "obliging hw" and pool: "pool_sized hw (nic_pool s)"
    and i: "i < length (nic_txqs s)" and ok: "ring_ok k (nic_txqs s ! i)" and backed: "ring_backed hw k (nic_txqs s ! i)"
    and space: "ring_has_space (nic_txqs s ! i)"
    and len: "int (length data) + 10 \<le> pl_pkt_buf_size (nic_pool s)" "pl_pkt_buf_size (nic_pool s) < 2 ^ 32"
    and csum: "0 \<le> checksum_command start offset" "checksum_command start offset < 2 ^ 16"
  shows "\<exists>pkt h' pl. xmit_send hw i data start offset (h, s) = (Inr (), (h', (upd_ring TX i
      (\<lambda>r. ring_put pkt (r\<lparr>rg_packets := rg_packets r + 1, rg_bytes := rg_bytes r + int (length data)\<rparr>)) s)\<lparr>nic_pool := pl\<rparr>))"
proof -
  let ?r = "nic_txqs s ! i" and ?len = "int (length data)" and ?csum = "checksum_command start offset"
  let ?index = "rg_prod_ptr ?r AND rg_size_mask ?r" and ?n = "nat (rg_desc_block_size ?r)"
  obtain b w where b: "rg_buf_region ?r = Some b" "hw_size hw b = 2 ^ k * rg_stride ?r" "rg_hw_regs ?r = Some w"
    and stride: "0 < rg_desc_block_size ?r" "rg_stride ?r = MQNIC_DESC_SIZE * rg_desc_block_size ?r"
    using backed by (auto simp: ring_backed_def split: option.splits)
  have sized: "ring_sized k ?r" using ok by (simp add: ring_ok_def)
  have index: "?index = rg_prod_ptr ?r mod 2 ^ k" "nat ?index = slot_index ?r (rg_prod_ptr ?r)"
    using sized by (simp_all add: ring_sized_def and_size_mask slot_index_def)
  have window: "rg_prod_ptr ?r < rg_cons_ptr ?r + 2 ^ k"
  proof -
    have "rg_prod_ptr ?r - rg_cons_ptr ?r < 2 ^ k div 2" using space sized by (simp add: ring_has_space_def ring_sized_def)
    moreover have "(2 :: int) ^ k div 2 \<le> 2 ^ k" using zdiv_mono2 [of "2 ^ k" 1 2] by simp
    ultimately show ?thesis by linarith
  qed
  define u1 where "u1 = upd_ring TX i (\<lambda>r. r\<lparr>rg_packets := rg_packets r + 1, rg_bytes := rg_bytes r + ?len\<rparr>) s"
  have e0: "reads (the_ring TX i) (h, s) = (Inr ?r, (h, s))" by (simp add: reads_def)
  have e1: "updates (upd_ring TX i (\<lambda>r. r\<lparr>rg_packets := rg_packets r + 1, rg_bytes := rg_bytes r + ?len\<rparr>)) (h, s) =
      (Inr (), (h, u1))" by (simp add: updates_def u1_def)
  have pool1: "nic_pool u1 = nic_pool s" by (simp add: u1_def)
  obtain pkt h1 pl where e2: "take_pkt hw (h, u1) = (Inr pkt, (h1, u1\<lparr>nic_pool := pl\<rparr>))"
    and size: "hw_size hw pkt = pl_pkt_buf_size (nic_pool s)"
    using take_pkt_obliging [OF hw, of u1 h] pool pool1 len by auto
  define u2 where "u2 = u1\<lparr>nic_pool := pl\<rparr>"
  have e2': "take_pkt hw (h, u1) = (Inr pkt, (h1, u2))" using e2 by (simp add: u2_def)
  have e3: "alift (info_at ?index ?r) (h1, u2) = (Inr None, (h1, u2))"
    using ring_put_ok(3) [OF ok window] slot_index_less [OF sized, of "rg_prod_ptr ?r"] index(2) by (simp add: info_at_def)
  define u3 where "u3 = upd_ring TX i (\<lambda>r. r\<lparr>rg_info := (rg_info r)[nat ?index := Some pkt]\<rparr>) u2"
  have e4: "updates (upd_ring TX i (\<lambda>r. r\<lparr>rg_info := (rg_info r)[nat ?index := Some pkt]\<rparr>)) (h1, u2) = (Inr (), (h1, u3))"
    by (simp add: updates_def u3_def)
  obtain h2 where e5: "mem_store hw pkt 10 data (h1, u3) = (Inr (), (h2, u3))"
    using obliging_store [OF hw, of 10 data pkt h1 u3] len(1) size by auto
  have fits: "0 \<le> hw_address hw pkt" "hw_address hw pkt + hw_size hw pkt \<le> 2 ^ 64" using hw by (auto simp: obliging_def)
  have tile: "tiles (tx_segments ?n ?len) 0 ?len" "length (tx_segments ?n ?len) = ?n"
    using tx_segments_tile [of ?n ?len] stride(1) by simp_all
  have "\<exists>d. tx_descriptor j ?csum (hw_address hw pkt + 10) x = Inr d \<and> length d = 16"
    if "x \<in> set (tx_segments ?n ?len)" for j x
    using tiled_descriptor [OF tile(1) that, of "hw_address hw pkt + 10" ?csum j] len fits size csum by auto
  then have "\<exists>h'. afor (enumerate 0 (tx_segments ?n ?len)) (\<lambda>(k, s).
      abind (alift (tx_descriptor k ?csum (hw_address hw pkt + 10) s)) (\<lambda>bs.
        mem_store hw b (?index * rg_stride ?r + int k * MQNIC_DESC_SIZE) bs)) (h2, u3) = (Inr (), (h', u3))"
    unfolding stride(2) using b(2) stride(2) index(1) tile(2) by (intro descriptors_stored [OF hw, where k = k]) simp_all
  then obtain h3 where e6: "afor (enumerate 0 (tx_segments ?n ?len)) (\<lambda>(k, s).
      abind (alift (tx_descriptor k ?csum (hw_address hw pkt + 10) s)) (\<lambda>bs.
        mem_store hw b (?index * rg_stride ?r + int k * MQNIC_DESC_SIZE) bs)) (h2, u3) = (Inr (), (h3, u3))" ..
  define u4 where "u4 = upd_ring TX i (\<lambda>r. r\<lparr>rg_prod_ptr := rg_prod_ptr r + 1\<rparr>) u3"
  have e7: "updates (upd_ring TX i (\<lambda>r. r\<lparr>rg_prod_ptr := rg_prod_ptr r + 1\<rparr>)) (h3, u3) = (Inr (), (h3, u4))"
    by (simp add: updates_def u4_def)
  have w4: "rg_hw_regs (the_ring TX i u4) = Some w" using b(3) i by (simp add: u4_def u3_def u2_def u1_def)
  obtain h4 where e8: "ring_write_prod_ptr hw TX i (h3, u4) = (Inr (), (h4, u4))"
    using obliging_write [OF hw prod_ptr_command] w4
    by (fastforce simp: ring_write_prod_ptr_def reads_def need_window_def)
  have "xmit_send hw i data start offset (h, s) = (Inr (), (h4, u4))"
    unfolding xmit_send_def Let_def
    by (simp only: athen_def abind_def e0 e1 e2' e3 e4 e5 e6 e7 e8 b(1) aneed_simps aret_run aguard_simps
        prod.case sum.case refl simp_thms)
  moreover have "u4 = (upd_ring TX i
      (\<lambda>r. ring_put pkt (r\<lparr>rg_packets := rg_packets r + 1, rg_bytes := rg_bytes r + ?len\<rparr>)) s)\<lparr>nic_pool := pl\<rparr>"
    using i index(2) by (simp add: u4_def u3_def u2_def u1_def ring_put_def slot_index_def)
  ultimately show ?thesis by blast
qed

text \<open>
  C34. Transmission: on a ring in order, with the hardware doing what it is asked, a call sends if
  and only if less than half of the ring is in use. Sending places one packet at the producer
  pointer, keeps every packet outstanding where it is and the ring in order, and counts the packet;
  the check that the slot is free never fails. Otherwise the call waits, and only the event it waits
  for is cleared.
\<close>

theorem xmit_refines_window:
  assumes "obliging hw" "pool_sized hw (nic_pool s)" "i < length (nic_txqs s)" "ring_ok k (nic_txqs s ! i)"
    "ring_backed hw k (nic_txqs s ! i)" "int (length data) + 10 \<le> pl_pkt_buf_size (nic_pool s)"
    "pl_pkt_buf_size (nic_pool s) < 2 ^ 32" "0 \<le> checksum_command start offset" "checksum_command start offset < 2 ^ 16"
  shows "\<exists>h' s'. xmit_attempt hw i data start offset (h, s) =
      (Inr (if rg_prod_ptr (nic_txqs s ! i) - rg_cons_ptr (nic_txqs s ! i) < 2 ^ k div 2 then Sent else Waiting), (h', s')) \<and>
    (if rg_prod_ptr (nic_txqs s ! i) - rg_cons_ptr (nic_txqs s ! i) < 2 ^ k div 2 then
       ring_ok k (nic_txqs s' ! i) \<and>
       (\<exists>pkt. outstanding (nic_txqs s' ! i) = (outstanding (nic_txqs s ! i))(rg_prod_ptr (nic_txqs s ! i) := Some pkt)) \<and>
       rg_prod_ptr (nic_txqs s' ! i) = rg_prod_ptr (nic_txqs s ! i) + 1 \<and>
       rg_cons_ptr (nic_txqs s' ! i) = rg_cons_ptr (nic_txqs s ! i) \<and>
       rg_packets (nic_txqs s' ! i) = rg_packets (nic_txqs s ! i) + 1 \<and>
       rg_bytes (nic_txqs s' ! i) = rg_bytes (nic_txqs s ! i) + int (length data)
     else h' = h \<and> s' = upd_ring TX i (\<lambda>r. r\<lparr>rg_clean_event := False\<rparr>) s)"
proof -
  let ?r = "nic_txqs s ! i"
  have half: "ring_has_space ?r \<longleftrightarrow> rg_prod_ptr ?r - rg_cons_ptr ?r < 2 ^ k div 2"
    using assms(4) by (simp add: ring_ok_def ring_sized_def ring_has_space_def)
  show ?thesis
  proof (cases "ring_has_space ?r")
    case True
    let ?counted = "?r\<lparr>rg_packets := rg_packets ?r + 1, rg_bytes := rg_bytes ?r + int (length data)\<rparr>"
    obtain pkt h' pl where run: "xmit_send hw i data start offset (h, s) = (Inr (), (h', (upd_ring TX i
        (\<lambda>r. ring_put pkt (r\<lparr>rg_packets := rg_packets r + 1, rg_bytes := rg_bytes r + int (length data)\<rparr>)) s)\<lparr>nic_pool := pl\<rparr>))"
      using xmit_send_run [OF assms(1-5) True assms(6-9), of h] by blast
    have "xmit_attempt hw i data start offset (h, s) = (Inr Sent, (h', (upd_ring TX i
        (\<lambda>r. ring_put pkt (r\<lparr>rg_packets := rg_packets r + 1, rg_bytes := rg_bytes r + int (length data)\<rparr>)) s)\<lparr>nic_pool := pl\<rparr>))"
      using True run by (simp add: xmit_attempt_def reads_def athen_def abind_def)
    moreover have idx: "slot_index ?counted p = slot_index ?r p" for p by (simp add: slot_index_def)
    moreover have counted: "ring_ok k ?counted"
      using assms(4) unfolding ring_ok_def idx by (simp add: ring_sized_def)
    moreover have "outstanding ?counted = outstanding ?r"
      by (rule ext) (simp only: outstanding_def idx, simp)
    moreover have "rg_prod_ptr ?counted < rg_cons_ptr ?counted + 2 ^ k"
      using True half zdiv_mono2 [of "2 ^ k" 1 2] by simp
    ultimately show ?thesis
      using ring_put_ok(1,2) [of k ?counted pkt] half True assms(3)
      by (auto simp: ring_put_def)
  next
    case False
    with half show ?thesis by (simp add: xmit_attempt_def reads_def updates_def)
  qed
qed

text \<open>Regions with a number and a size; registers that ignore what is written.\<close>

definition sample_hw :: "(nat, nat \<times> int) nic_hw" where
  "sample_hw =
     \<lparr>hw_read = (\<lambda>a h. (0, h)), hw_write = (\<lambda>a v h. (Inr (), h)), hw_read_word = (\<lambda>a h. (0, h)),
      hw_write_word = (\<lambda>a v h. (Inr (), h)), hw_alloc_region = (\<lambda>n h. (Inr (h, n), Suc h)), hw_address = (\<lambda>r. 0),
      hw_size = (\<lambda>r. snd r mod 2 ^ 32), hw_load = (\<lambda>r i n h. []), hw_store = (\<lambda>r i bs h. (Inr (), h))\<rparr>"

definition sample_ring :: "(nat \<times> int) ring" where
  "sample_ring = new_ring\<lparr>rg_desc_block_size := 4, rg_size := 8, rg_size_mask := 7, rg_full_size := 4, rg_stride := 64,
     rg_buf_region := Some (0, 512), rg_info := replicate 8 None, rg_hw_regs := Some 0\<rparr>"

lemma sample_ring_ok: "ring_ok 3 sample_ring" "ring_backed sample_hw 3 sample_ring"
proof -
  have sized: "ring_sized 3 sample_ring" by (simp add: ring_sized_def sample_ring_def)
  have "rg_info sample_ring ! slot_index sample_ring p = None" for p
    using slot_index_less [OF sized, of p] by (simp add: sample_ring_def)
  with sized show "ring_ok 3 sample_ring" by (simp add: ring_ok_def) (simp add: sample_ring_def new_ring_def)
  show "ring_backed sample_hw 3 sample_ring"
    by (simp add: ring_backed_def sample_ring_def sample_hw_def MQNIC_DESC_SIZE_def)
qed

lemma sample_hw_obliging: "obliging sample_hw"
proof -
  have "n mod 2 ^ 32 < (2 ^ 32 :: int)" for n by simp
  then have "n mod 2 ^ 32 \<le> (2 ^ 64 :: int)" for n by (rule order.trans [OF less_imp_le]) simp
  then show ?thesis by (simp add: obliging_def sample_hw_def)
qed

theorem xmit_refines_window_witness:
  "\<exists>h' s' pkt. xmit_attempt sample_hw 0 [1, 2, 3] (Some 34) (Some 6) (1, (new_nic new_packet_pool 0 0)\<lparr>nic_txqs := [sample_ring]\<rparr>) =
      (Inr Sent, (h', s')) \<and> outstanding (nic_txqs s' ! 0) 0 = Some pkt \<and> rg_prod_ptr (nic_txqs s' ! 0) = 1"
proof -
  let ?s = "(new_nic new_packet_pool 0 0)\<lparr>nic_txqs := [sample_ring]\<rparr>"
  have s: "nic_txqs ?s ! 0 = sample_ring" "length (nic_txqs ?s) = 1" "nic_pool ?s = new_packet_pool"
    by (simp_all add: new_nic_def)
  have p: "pool_sized sample_hw new_packet_pool" "pl_pkt_buf_size new_packet_pool = 16384"
    by (simp_all add: pool_sized_def new_packet_pool_def)
  have c: "checksum_command (Some 34) (Some 6) = 0x8622" by (simp add: checksum_command_def)
  have ptr: "rg_prod_ptr sample_ring = 0" "rg_cons_ptr sample_ring = 0" by (simp_all add: sample_ring_def new_ring_def)
  show ?thesis
    using xmit_refines_window [of sample_hw ?s 0 3 "[1, 2, 3]" "Some 34" "Some 6" 1]
    by (simp add: s p c ptr sample_ring_ok sample_hw_obliging) (metis fun_upd_same)
qed

end
