(* ===== verification/Nic_Completions.thy ===== *)
theory Nic_Completions
  imports Nic_Transmit
begin

text \<open>
  What a completion handler does: it takes the entries the hardware has written, one lap of the queue
  at most, frees the slots they name and moves the consumer pointers; a completion that names a slot
  without a packet stops it with an error.
\<close>


section \<open>Loops with a bound\<close>

lemma consume_returns:
  assumes step: "\<And>p st. J p st \<Longrightarrow> busy p st \<Longrightarrow> \<exists>r st'. step p st = (r, st') \<and>
      (case r of Inl e \<Rightarrow> E e st' | Inr _ \<Rightarrow> J (p + 1) st')"
    and stop: "\<And>st. J (c + int n) st \<Longrightarrow> \<not> busy (c + int n) st"
    and start: "J c st"
  shows "\<exists>r st'. consume busy (total step) c st = Some (r, st') \<and>
    (case r of Inl e \<Rightarrow> E e st' | Inr p \<Rightarrow> J p st' \<and> \<not> busy p st' \<and> c \<le> p \<and> p \<le> c + int n)"
  using stop start
proof (induction n arbitrary: c st)
  case 0
  then show ?case by (subst consume.simps) auto
next
  case (Suc n)
  show ?case
  proof (cases "busy c st")
    case False
    with Suc.prems(2) show ?thesis by (subst consume.simps) auto
  next
    case True
    obtain r st1 where call: "step c st = (r, st1)" and r: "case r of Inl e \<Rightarrow> E e st1 | Inr _ \<Rightarrow> J (c + 1) st1"
      using step [OF Suc.prems(2) True] by blast
    show ?thesis
    proof (cases r)
      case (Inl e)
      with True call r show ?thesis by (subst consume.simps) (simp add: total_def)
    next
      case (Inr u)
      have "c + int (Suc n) = c + 1 + int n" by simp
      with Suc.prems(1) have "\<And>st. J (c + 1 + int n) st \<Longrightarrow> \<not> busy (c + 1 + int n) st" by metis
      with Inr r Suc.IH [of "c + 1" st1] obtain r2 st2 where
        "consume busy (total step) (c + 1) st1 = Some (r2, st2)"
        "case r2 of Inl e \<Rightarrow> E e st2 | Inr p \<Rightarrow> J p st2 \<and> \<not> busy p st2 \<and> c + 1 \<le> p \<and> p \<le> c + 1 + int n"
        by auto
      with True call Inr show ?thesis by (subst consume.simps) (auto simp: total_def split: sum.splits)
    qed
  qed
qed

text \<open>An entry that is valid one lap is not the next: a queue has at most one lap of valid entries.\<close>

lemma entry_valid_lap:
  "entry_valid hw region (2 ^ m) (2 ^ m - 1) stride (p + 2 ^ m) h \<longleftrightarrow>
     \<not> entry_valid hw region (2 ^ m) (2 ^ m - 1) stride p h"
  by (simp add: entry_valid_def entry_bytes_def and_size_mask and_size_bit lap_bit)


section \<open>Freeing descriptors\<close>

text \<open>A ring with some of its slots cleared.\<close>

definition clear_slots :: "nat set \<Rightarrow> 'r ring \<Rightarrow> 'r ring" where
  "clear_slots I r = r\<lparr>rg_info := map (\<lambda>n. if n \<in> I then None else rg_info r ! n) [0..<length (rg_info r)]\<rparr>"

lemma clear_slots_none: "clear_slots {} r = r"
  by (simp add: clear_slots_def map_nth)

lemma clear_slots_insert: "ring_clear n (clear_slots I r) = clear_slots (insert n I) r"
proof -
  have "rg_info (ring_clear n (clear_slots I r)) = rg_info (clear_slots (insert n I) r)"
    by (cases "n < length (rg_info r)")
      (auto simp: clear_slots_def ring_clear_def nth_list_update list_update_beyond intro: nth_equalityI)
  then show ?thesis by (simp add: clear_slots_def ring_clear_def)
qed

lemma clear_slots_pointers [simp]:
  "slot_index (clear_slots I r) p = slot_index r p" "rg_prod_ptr (clear_slots I r) = rg_prod_ptr r"
  "rg_cons_ptr (clear_slots I r) = rg_cons_ptr r" "rg_size_mask (clear_slots I r) = rg_size_mask r"
  "length (rg_info (clear_slots I r)) = length (rg_info r)"
  by (simp_all add: clear_slots_def slot_index_def)

lemma clear_slots_at:
  "n < length (rg_info r) \<Longrightarrow> rg_info (clear_slots I r) ! n = (if n \<in> I then None else rg_info r ! n)"
  by (simp add: clear_slots_def)

lemma clear_slots_ok:
  assumes ok: "ring_ok k r"
  shows "ring_ok k (clear_slots I r)"
    "outstanding (clear_slots I r) = (\<lambda>p. if slot_index r p \<in> I then None else outstanding r p)"
proof -
  have sized: "ring_sized k r" using ok by (simp add: ring_ok_def)
  then have sized': "ring_sized k (clear_slots I r)" by (simp add: ring_sized_def) (simp add: clear_slots_def)
  note at = clear_slots_at [OF slot_index_less [OF sized]]
  show "ring_ok k (clear_slots I r)" using ok sized' by (simp add: ring_ok_def at)
  show "outstanding (clear_slots I r) = (\<lambda>p. if slot_index r p \<in> I then None else outstanding r p)"
    by (rule ext) (simp add: outstanding_def at)
qed

lemma free_desc_run:
  assumes "n = nat x" "n < length (rg_info (the_ring k i s))"
  shows "rg_info (the_ring k i s) ! n = None \<Longrightarrow> free_desc k i x (h, s) = (Inl AssertionError, (h, s))"
    "rg_info (the_ring k i s) ! n = Some y \<Longrightarrow> y \<in> set (pl_allocated_packets (nic_pool s)) \<Longrightarrow>
      \<exists>pl. free_desc k i x (h, s) = (Inr (), (h, upd_ring k i (ring_clear n) (s\<lparr>nic_pool := pl\<rparr>))) \<and>
        pl_allocated_packets pl = pl_allocated_packets (nic_pool s) \<and>
        set (pl_free_packets pl) \<subseteq> insert y (set (pl_free_packets (nic_pool s))) \<and>
        pl_pkt_buf_size pl = pl_pkt_buf_size (nic_pool s)"
proof -
  have r: "the_ring k i (s\<lparr>nic_pool := pl\<rparr>) = the_ring k i s" for pl by (cases k) simp_all
  have clear: "(\<lambda>r. r\<lparr>rg_info := (rg_info r)[m := None]\<rparr>) = ring_clear m" for m
    by (simp add: ring_clear_def fun_eq_iff)
  show "rg_info (the_ring k i s) ! n = None \<Longrightarrow> free_desc k i x (h, s) = (Inl AssertionError, (h, s))"
    using assms by (simp add: free_desc_def info_at_def give_pkt_def free_pkt_def reads_def updates_def athen_def abind_def)
  assume y: "rg_info (the_ring k i s) ! n = Some y" "y \<in> set (pl_allocated_packets (nic_pool s))"
  show "\<exists>pl. free_desc k i x (h, s) = (Inr (), (h, upd_ring k i (ring_clear n) (s\<lparr>nic_pool := pl\<rparr>))) \<and>
      pl_allocated_packets pl = pl_allocated_packets (nic_pool s) \<and>
      set (pl_free_packets pl) \<subseteq> insert y (set (pl_free_packets (nic_pool s))) \<and>
      pl_pkt_buf_size pl = pl_pkt_buf_size (nic_pool s)"
    using assms y
    by (intro exI [of _ "(nic_pool s)\<lparr>pl_free_packets := pl_free_packets (nic_pool s) @ [y]\<rparr>"])
      (simp add: free_desc_def info_at_def give_pkt_def free_pkt_def reads_def updates_def athen_def abind_def clear)
qed


section \<open>Transmit completions\<close>

text \<open>The slot a completion names; it names a packet when the slot has one no earlier completion took.\<close>

definition completed_slot :: "('h, 'r) nic_hw \<Rightarrow> 'r completion_queue \<Rightarrow> 'r \<Rightarrow> 'h \<Rightarrow> 'r ring \<Rightarrow> int \<Rightarrow> nat" where
  "completed_slot hw q region h r p = slot_index r (le_field 2 2 (completion hw q region p h))"

definition completed_slots :: "('h, 'r) nic_hw \<Rightarrow> 'r completion_queue \<Rightarrow> 'r \<Rightarrow> 'h \<Rightarrow> 'r ring \<Rightarrow> int \<Rightarrow> nat set" where
  "completed_slots hw q region h r p = completed_slot hw q region h r ` {cpq_cons_ptr q..<p}"

definition names_packet :: "('h, 'r) nic_hw \<Rightarrow> 'r completion_queue \<Rightarrow> 'r \<Rightarrow> 'h \<Rightarrow> 'r ring \<Rightarrow> int \<Rightarrow> bool" where
  "names_packet hw q region h r p \<longleftrightarrow>
     completed_slot hw q region h r p \<notin> completed_slots hw q region h r p \<and>
     rg_info r ! completed_slot hw q region h r p \<noteq> None"

lemma completed_slots_step:
  "cpq_cons_ptr q \<le> p \<Longrightarrow>
     completed_slots hw q region h r (p + 1) = insert (completed_slot hw q region h r p) (completed_slots hw q region h r p)"
proof -
  assume "cpq_cons_ptr q \<le> p"
  then have "{cpq_cons_ptr q..<p + 1} = insert p {cpq_cons_ptr q..<p}" by auto
  then show ?thesis by (simp add: completed_slots_def)
qed

text \<open>The state of the loop after the entries up to \<open>p\<close>, and after an error.\<close>

definition entries_taken :: "('h, 'r) nic_hw \<Rightarrow> 'r completion_queue \<Rightarrow> 'r \<Rightarrow> 'h \<Rightarrow> 'r ring \<Rightarrow> int \<Rightarrow> bool" where
  "entries_taken hw q region h r p \<longleftrightarrow> cpq_cons_ptr q \<le> p \<and>
     (\<forall>y \<in> {cpq_cons_ptr q..<p}. completion_valid hw q region y h \<and> names_packet hw q region h r y)"

lemma entries_taken_lap:
  assumes "entries_taken hw q region h r p" "cpq_size q = 2 ^ m" "cpq_size_mask q = 2 ^ m - 1"
  shows "p \<le> cpq_cons_ptr q + 2 ^ m" "p = cpq_cons_ptr q + 2 ^ m \<Longrightarrow> \<not> completion_valid hw q region p h"
proof -
  have lap: "completion_valid hw q region (cpq_cons_ptr q + 2 ^ m) h \<longleftrightarrow> \<not> completion_valid hw q region (cpq_cons_ptr q) h"
    by (simp add: completion_valid_def assms(2,3) entry_valid_lap)
  have taken: "completion_valid hw q region y h" if "cpq_cons_ptr q \<le> y" "y < p" for y
    using assms(1) that by (simp add: entries_taken_def)
  have pos: "(0 :: int) < 2 ^ m" by simp
  show "p \<le> cpq_cons_ptr q + 2 ^ m"
    using taken [of "cpq_cons_ptr q"] taken [of "cpq_cons_ptr q + 2 ^ m"] lap pos by linarith
  show "\<not> completion_valid hw q region p h" if "p = cpq_cons_ptr q + 2 ^ m"
    using taken [of "cpq_cons_ptr q"] lap pos that by simp
qed

text \<open>
  The loop of a handler, whose step takes the packet an entry names or raises \<open>err\<close>: it ends at the
  first entry that is not valid, or at one that names no packet.
\<close>

lemma entries_loop:
  fixes h :: 'h and r :: "'r ring" and st0 :: "'h \<times> 'r nic"
  assumes taken: "\<And>p st. J p st \<Longrightarrow> fst st = h \<and> entries_taken hw q region h r p"
    and bad: "\<And>p st. J p st \<Longrightarrow> completion_valid hw q region p h \<Longrightarrow> \<not> names_packet hw q region h r p \<Longrightarrow>
      step p st = (Inl err, st)"
    and good: "\<And>p st. J p st \<Longrightarrow> completion_valid hw q region p h \<Longrightarrow> names_packet hw q region h r p \<Longrightarrow>
      \<exists>st'. step p st = (Inr (), st') \<and> J (p + 1) st'"
    and start: "J (cpq_cons_ptr q) st0"
    and size: "cpq_size q = 2 ^ m" "cpq_size_mask q = 2 ^ m - 1"
  obtains result e st where
    "consume (\<lambda>p st. completion_valid hw q region p (fst st)) (total step) (cpq_cons_ptr q) st0 = Some (result, st)"
    "J e st" "entries_taken hw q region h r e" "e \<le> cpq_cons_ptr q + 2 ^ m"
    "case result of
       Inl x \<Rightarrow> x = err \<and> completion_valid hw q region e h \<and> \<not> names_packet hw q region h r e
     | Inr p \<Rightarrow> p = e \<and> \<not> completion_valid hw q region e h"
proof -
  let ?E = "\<lambda>x st. x = err \<and> (\<exists>p. J p st \<and> completion_valid hw q region p h \<and> \<not> names_packet hw q region h r p)"
  have step: "\<exists>r st'. step p st = (r, st') \<and> (case r of Inl e \<Rightarrow> ?E e st' | Inr _ \<Rightarrow> J (p + 1) st')"
    if "J p st" "completion_valid hw q region p (fst st)" for p st
  proof -
    have valid: "completion_valid hw q region p h" using that taken [OF that(1)] by simp
    show ?thesis
      using bad [OF that(1) valid] good [OF that(1) valid] that(1) valid
      by (cases "names_packet hw q region h r p") fastforce+
  qed
  have stop: "\<not> completion_valid hw q region (cpq_cons_ptr q + int (2 ^ m)) (fst st)"
    if "J (cpq_cons_ptr q + int (2 ^ m)) st" for st
    using entries_taken_lap(2) [OF conjunct2 [OF taken [OF that]] size] taken [OF that] by simp
  have "\<exists>res st. consume (\<lambda>p st. completion_valid hw q region p (fst st)) (total step) (cpq_cons_ptr q) st0 = Some (res, st) \<and>
      (case res of Inl x \<Rightarrow> ?E x st | Inr p \<Rightarrow> J p st \<and> \<not> completion_valid hw q region p (fst st) \<and>
        cpq_cons_ptr q \<le> p \<and> p \<le> cpq_cons_ptr q + int (2 ^ m))"
    by (rule consume_returns) (erule (1) step, erule stop, rule start)
  then obtain res st where loop: "consume (\<lambda>p st. completion_valid hw q region p (fst st)) (total step) (cpq_cons_ptr q) st0 = Some (res, st)"
    and res: "case res of Inl x \<Rightarrow> ?E x st | Inr p \<Rightarrow> J p st \<and> \<not> completion_valid hw q region p (fst st) \<and>
      cpq_cons_ptr q \<le> p \<and> p \<le> cpq_cons_ptr q + int (2 ^ m)" by (elim exE conjE)
  show thesis
  proof (cases res)
    case (Inl x)
    with res obtain p where p: "J p st" "x = err" "completion_valid hw q region p h" "\<not> names_packet hw q region h r p" by auto
    then have "entries_taken hw q region h r p" using taken by blast
    with loop Inl p entries_taken_lap(1) [OF _ size] show thesis by (intro that [of res st p]) simp_all
  next
    case (Inr p)
    with res have "J p st" "\<not> completion_valid hw q region p (fst st)" by auto
    moreover from this have "fst st = h" "entries_taken hw q region h r p" using taken by blast+
    ultimately have p: "J p st" "entries_taken hw q region h r p" "\<not> completion_valid hw q region p h" by simp_all
    with loop Inr p entries_taken_lap(1) [OF _ size] show thesis by (intro that [of res st p]) simp_all
  qed
qed

definition tx_progress ::
  "('h, 'r) nic_hw \<Rightarrow> nat \<Rightarrow> nat \<Rightarrow> 'r \<Rightarrow> 'h \<Rightarrow> 'r nic \<Rightarrow> int \<Rightarrow> 'h \<times> 'r nic \<Rightarrow> bool" where
  "tx_progress hw i j region h s p st \<longleftrightarrow>
     entries_taken hw (nic_cqs s ! j) region h (nic_txqs s ! i) p \<and>
     (\<exists>pl. st = (h, upd_ring TX i (clear_slots (completed_slots hw (nic_cqs s ! j) region h (nic_txqs s ! i) p))
        (s\<lparr>nic_pool := pl\<rparr>)) \<and> pl_allocated_packets pl = pl_allocated_packets (nic_pool s))"

text \<open>The packets of a ring come from the pool.\<close>

definition from_pool :: "'r packet_pool \<Rightarrow> 'r ring \<Rightarrow> bool" where
  "from_pool pl r \<longleftrightarrow> (\<forall>x. Some x \<in> set (rg_info r) \<longrightarrow> x \<in> set (pl_allocated_packets pl))"

lemma tx_progress_step:
  assumes J: "tx_progress hw i j region h s p st" and i: "i < length (nic_txqs s)" and ok: "ring_ok k (nic_txqs s ! i)"
    and pool: "from_pool (nic_pool s) (nic_txqs s ! i)" and valid: "completion_valid hw (nic_cqs s ! j) region p h"
  shows "\<not> names_packet hw (nic_cqs s ! j) region h (nic_txqs s ! i) p \<Longrightarrow>
      tx_completion_step hw (nic_cqs s ! j) region (TX, i) p st = (Inl AssertionError, st)"
    "names_packet hw (nic_cqs s ! j) region h (nic_txqs s ! i) p \<Longrightarrow> \<exists>st'.
      tx_completion_step hw (nic_cqs s ! j) region (TX, i) p st = (Inr (), st') \<and> tx_progress hw i j region h s (p + 1) st'"
proof -
  let ?q = "nic_cqs s ! j" and ?r = "nic_txqs s ! i"
  let ?I = "completed_slots hw ?q region h ?r p" and ?n = "completed_slot hw ?q region h ?r p"
  let ?x = "le_field 2 2 (completion hw ?q region p h) AND rg_size_mask ?r"
  obtain pl where st: "st = (h, upd_ring TX i (clear_slots ?I) (s\<lparr>nic_pool := pl\<rparr>))"
    and pl: "pl_allocated_packets pl = pl_allocated_packets (nic_pool s)" and taken: "entries_taken hw ?q region h ?r p" using J by (auto simp: tx_progress_def)
  define s1 where "s1 = upd_ring TX i (clear_slots ?I) (s\<lparr>nic_pool := pl\<rparr>)"
  have ring: "the_ring TX i s1 = clear_slots ?I ?r" using i by (simp add: s1_def)
  have sized: "ring_sized k ?r" using ok by (simp add: ring_ok_def)
  have less: "?n < length (rg_info ?r)" using slot_index_less [OF sized] by (simp add: completed_slot_def)
  then have less1: "?n < length (rg_info (the_ring TX i s1))" unfolding ring by simp
  have n: "?n = nat ?x" by (simp add: completed_slot_def slot_index_def)
  have run: "tx_completion_step hw ?q region (TX, i) p st = free_desc TX i ?x (h, s1)"
    using ring unfolding tx_completion_step_def st s1_def [symmetric]
    by (simp add: reads_def del: the_ring.simps)
  note at = clear_slots_at [OF less, of ?I]
  have no: "free_desc TX i ?x (h, s1) = (Inl AssertionError, (h, s1))" if "\<not> names_packet hw ?q region h ?r p"
    by (rule free_desc_run(1) [OF n less1]) (use at that in \<open>auto simp: ring names_packet_def simp del: the_ring.simps\<close>)
  have yes: "\<exists>pl'. free_desc TX i ?x (h, s1) = (Inr (), (h, upd_ring TX i (ring_clear ?n) (s1\<lparr>nic_pool := pl'\<rparr>))) \<and>
      pl_allocated_packets pl' = pl_allocated_packets (nic_pool s)" if names: "names_packet hw ?q region h ?r p"
  proof -
    obtain y where y: "rg_info ?r ! ?n = Some y" "?n \<notin> ?I" using names by (auto simp: names_packet_def)
    then have "y \<in> set (pl_allocated_packets (nic_pool s))" using pool less unfolding from_pool_def by (metis nth_mem)
    then have "y \<in> set (pl_allocated_packets (nic_pool s1))" using pl by (simp add: s1_def)
    moreover have "rg_info (the_ring TX i s1) ! ?n = Some y" using at y unfolding ring by simp
    moreover have "pl_allocated_packets (nic_pool s1) = pl_allocated_packets (nic_pool s)" using pl by (simp add: s1_def)
    ultimately show ?thesis using free_desc_run(2) [OF n less1, of y h] by metis
  qed
  show "tx_completion_step hw ?q region (TX, i) p st = (Inl AssertionError, st)" if "\<not> names_packet hw ?q region h ?r p"
    using no [OF that] unfolding run by (simp add: st s1_def)
  assume names: "names_packet hw ?q region h ?r p"
  from yes [OF names] obtain pl' where
    free: "free_desc TX i ?x (h, s1) = (Inr (), (h, upd_ring TX i (ring_clear ?n) (s1\<lparr>nic_pool := pl'\<rparr>)))"
    and pl': "pl_allocated_packets pl' = pl_allocated_packets (nic_pool s)" by blast
  have "entries_taken hw ?q region h ?r (p + 1)"
    using taken valid names by (auto simp: entries_taken_def le_less zless_add1_eq)
  moreover have "upd_ring TX i (ring_clear ?n) (s1\<lparr>nic_pool := pl'\<rparr>) =
      upd_ring TX i (clear_slots (completed_slots hw ?q region h ?r (p + 1))) (s\<lparr>nic_pool := pl'\<rparr>)"
    using taken i by (simp add: s1_def completed_slots_step entries_taken_def clear_slots_insert)
  ultimately show "\<exists>st'. tx_completion_step hw ?q region (TX, i) p st = (Inr (), st') \<and>
      tx_progress hw i j region h s (p + 1) st'"
    using free pl' unfolding run tx_progress_def by auto
qed

lemma tx_progress_taken:
  "tx_progress hw i j region h s p st \<Longrightarrow>
     fst st = h \<and> entries_taken hw (nic_cqs s ! j) region h (nic_txqs s ! i) p"
  by (auto simp: tx_progress_def)

lemma tx_progress_start:
  "i < length (nic_txqs s) \<Longrightarrow> tx_progress hw i j region h s (cpq_cons_ptr (nic_cqs s ! j)) (h, s)"
  by (auto simp: tx_progress_def entries_taken_def completed_slots_def clear_slots_none intro!: exI [of _ "nic_pool s"])

text \<open>The consumer pointer of a ring moves to the first packet outstanding.\<close>

lemma clean_ring_run:
  assumes ok: "ring_ok k (the_ring kd i s)"
  shows "\<exists>c. clean_ring (kd, i) (h, s) = Some (Inr (), (h, upd_ring kd i (ring_advance c) s)) \<and>
    ring_ok k (ring_advance c (the_ring kd i s)) \<and>
    outstanding (ring_advance c (the_ring kd i s)) = outstanding (the_ring kd i s) \<and>
    (c = rg_prod_ptr (the_ring kd i s) \<or> outstanding (the_ring kd i s) c \<noteq> None)"
proof -
  let ?r = "the_ring kd i s"
  have le: "rg_cons_ptr ?r \<le> rg_prod_ptr ?r" using ok by (simp add: ring_ok_def)
  from skip_free_returns [OF le, of "rg_info ?r" "rg_size_mask ?r"] obtain c where
    c: "skip_free (rg_info ?r) (rg_size_mask ?r) (rg_prod_ptr ?r) (rg_cons_ptr ?r) = Some c"
    "rg_cons_ptr ?r \<le> c" "c \<le> rg_prod_ptr ?r"
    and free: "\<forall>p. rg_cons_ptr ?r \<le> p \<and> p < c \<longrightarrow> rg_info ?r ! slot_index ?r p = None"
    and stop: "c < rg_prod_ptr ?r \<longrightarrow> rg_info ?r ! slot_index ?r c \<noteq> None"
    unfolding slot_index_def by blast
  have advance: "(\<lambda>r. r\<lparr>rg_cons_ptr := c\<rparr>) = ring_advance c" by (simp add: ring_advance_def fun_eq_iff)
  have "clean_ring (kd, i) (h, s) = Some (Inr (), (h, upd_ring kd i (ring_advance c) s))"
    using c(1) by (simp add: clean_ring_def updates_def advance)
  moreover have "ring_ok k (ring_advance c ?r)" "outstanding (ring_advance c ?r) = outstanding ?r"
    using ring_advance_ok [OF ok c(2,3)] free by blast+
  moreover have "c = rg_prod_ptr ?r \<or> outstanding ?r c \<noteq> None" using c(2,3) stop by (auto simp: outstanding_def)
  ultimately show ?thesis by blast
qed

lemma clean_event_irrelevant:
  "ring_ok k (r\<lparr>rg_clean_event := b\<rparr>) = ring_ok k r" "outstanding (r\<lparr>rg_clean_event := b\<rparr>) = outstanding r"
proof -
  have idx: "slot_index (r\<lparr>rg_clean_event := b\<rparr>) p = slot_index r p" for p by (simp add: slot_index_def)
  show "ring_ok k (r\<lparr>rg_clean_event := b\<rparr>) = ring_ok k r" unfolding ring_ok_def idx by (simp add: ring_sized_def)
  show "outstanding (r\<lparr>rg_clean_event := b\<rparr>) = outstanding r" by (rule ext) (simp only: outstanding_def idx, simp)
qed

lemma cons_ptr_command: "0 \<le> MQNIC_CQ_CMD_SET_CONS_PTR OR (p AND MQNIC_CQ_PTR_MASK)"
  "MQNIC_CQ_CMD_SET_CONS_PTR OR (p AND MQNIC_CQ_PTR_MASK) < 2 ^ 32"
proof -
  have "p AND 0xFFFF \<le> (0xFFFF :: int)" by (rule AND_upper2) simp
  then have "(0x80900000 :: int) OR (p AND 0xFFFF) < 2 ^ 32" by (intro OR_upper) simp_all
  then show "0 \<le> MQNIC_CQ_CMD_SET_CONS_PTR OR (p AND MQNIC_CQ_PTR_MASK)"
    "MQNIC_CQ_CMD_SET_CONS_PTR OR (p AND MQNIC_CQ_PTR_MASK) < 2 ^ 32"
    by (simp_all add: MQNIC_CQ_CMD_SET_CONS_PTR_def MQNIC_CQ_PTR_MASK_def)
qed

text \<open>Handling a queue, given what its loop over the entries does.\<close>

lemma process_cq_run:
  assumes "handler_context j (h, s) = (Inr (Some (q, ring, d)), (h, s))" "cpq_buf_region q = Some region"
    and "consume (\<lambda>p st. completion_valid hw q region p (fst st)) (total (step q region ring d)) (cpq_cons_ptr q) (h, s) =
      Some (result, (h, t))"
  shows "result = Inl err \<Longrightarrow> process_cq hw step finish j (h, s) = Some (Inl err, (h, t))"
    and "result = Inr e \<Longrightarrow> obliging hw \<Longrightarrow> j < length (nic_cqs t) \<Longrightarrow> cpq_hw_regs (nic_cqs t ! j) = Some w \<Longrightarrow>
      r = the_ring (fst ring) (snd ring) t \<Longrightarrow> ring_ok k r \<Longrightarrow>
      \<exists>h1 c. process_cq hw step finish j (h, s) = Some (finish ring (h1, upd_ring (fst ring) (snd ring) (ring_advance c)
          (upd_cq j (\<lambda>q. q\<lparr>cpq_cons_ptr := e\<rparr>) t))) \<and>
        ring_ok k (ring_advance c r) \<and> outstanding (ring_advance c r) = outstanding r \<and>
        (c = rg_prod_ptr r \<or> outstanding r c \<noteq> None)"
proof -
  show "process_cq hw step finish j (h, s) = Some (Inl err, (h, t))" if "result = Inl err"
    using assms that by (simp add: process_cq_def after_def)
  assume e: "result = Inr e" and hw: "obliging hw" and j: "j < length (nic_cqs t)" "cpq_hw_regs (nic_cqs t ! j) = Some w"
    and r: "r = the_ring (fst ring) (snd ring) t" "ring_ok k r"
  define t1 where "t1 = upd_cq j (\<lambda>q. q\<lparr>cpq_cons_ptr := e\<rparr>) t"
  have cq: "nic_cqs t1 ! j = (nic_cqs t ! j)\<lparr>cpq_cons_ptr := e\<rparr>" using j(1) by (simp add: t1_def upd_cq_def)
  obtain h1 where "cpq_write_cons_ptr hw j (h, t1) = (Inr (), (h1, t1))"
    using obliging_write [OF hw cons_ptr_command] cq j(2)
    by (fastforce simp: cpq_write_cons_ptr_def reads_def need_window_def)
  then have pointer: "athen (updates (upd_cq j (\<lambda>q. q\<lparr>cpq_cons_ptr := e\<rparr>))) (cpq_write_cons_ptr hw j) (h, t) =
      (Inr (), (h1, t1))" by (simp add: updates_def t1_def)
  have ring: "the_ring (fst ring) (snd ring) t1 = r" by (cases "fst ring") (simp_all add: t1_def upd_cq_def r(1))
  from clean_ring_run [of k "fst ring" "snd ring" t1 h1] r(2) obtain c where
    "clean_ring ring (h1, t1) = Some (Inr (), (h1, upd_ring (fst ring) (snd ring) (ring_advance c) t1))"
    "ring_ok k (ring_advance c r)" "outstanding (ring_advance c r) = outstanding r"
    "c = rg_prod_ptr r \<or> outstanding r c \<noteq> None" unfolding ring by auto
  with assms e pointer show "\<exists>h1 c. process_cq hw step finish j (h, s) = Some (finish ring (h1, upd_ring (fst ring) (snd ring)
        (ring_advance c) (upd_cq j (\<lambda>q. q\<lparr>cpq_cons_ptr := e\<rparr>) t))) \<and>
      ring_ok k (ring_advance c r) \<and> outstanding (ring_advance c r) = outstanding r \<and>
      (c = rg_prod_ptr r \<or> outstanding r c \<noteq> None)"
    unfolding t1_def by (intro exI [of _ h1] exI [of _ c]) (simp add: process_cq_def after_def)
qed

text \<open>
  A completion queue that serves a transmit ring: its size is a power of two, both have their
  memory and their registers, the ring is in order, its packets come from the pool, its port is up.
\<close>

definition tx_cq_ready :: "nat \<Rightarrow> nat \<Rightarrow> nat \<Rightarrow> nat \<Rightarrow> 'r \<Rightarrow> 'r nic \<Rightarrow> bool" where
  "tx_cq_ready m k i j region s \<longleftrightarrow>
     (let q = nic_cqs s ! j; r = nic_txqs s ! i in
      j < length (nic_cqs s) \<and> i < length (nic_txqs s) \<and> cpq_src_ring q = Some (TX, i) \<and>
      cpq_buf_region q = Some region \<and> cpq_hw_regs q \<noteq> None \<and> cpq_size q = 2 ^ m \<and> cpq_size_mask q = 2 ^ m - 1 \<and>
      ring_ok k r \<and> from_pool (nic_pool s) r \<and> (\<exists>d. rg_ndev r = Some d \<and> ndv_port_up (nic_ndevs s ! d)))"

lemma tx_cq_readyE:
  assumes "tx_cq_ready m k i j region s"
  obtains d w where "handler_context j (h, s) = (Inr (Some (nic_cqs s ! j, (TX, i), d)), (h, s))"
    "cpq_hw_regs (nic_cqs s ! j) = Some w" "cpq_buf_region (nic_cqs s ! j) = Some region"
    "j < length (nic_cqs s)" "i < length (nic_txqs s)" "ring_ok k (nic_txqs s ! i)"
proof -
  obtain d w where "cpq_src_ring (nic_cqs s ! j) = Some (TX, i)" "rg_ndev (nic_txqs s ! i) = Some d"
    "ndv_port_up (nic_ndevs s ! d)" "cpq_hw_regs (nic_cqs s ! j) = Some w"
    using assms by (auto simp: tx_cq_ready_def Let_def)
  then show ?thesis using assms by (intro that) (auto simp: handler_context_def reads_def tx_cq_ready_def Let_def)
qed

text \<open>The loop over the entries, from the queue as it stands.\<close>

lemma tx_entries_run:
  assumes "tx_cq_ready m k i j region s"
  obtains result e pl where "consume (\<lambda>p st. completion_valid hw (nic_cqs s ! j) region p (fst st))
      (total (tx_completion_step hw (nic_cqs s ! j) region (TX, i))) (cpq_cons_ptr (nic_cqs s ! j)) (h, s) =
      Some (result, (h, upd_ring TX i (clear_slots (completed_slots hw (nic_cqs s ! j) region h (nic_txqs s ! i) e))
        (s\<lparr>nic_pool := pl\<rparr>)))"
    "entries_taken hw (nic_cqs s ! j) region h (nic_txqs s ! i) e" "e \<le> cpq_cons_ptr (nic_cqs s ! j) + 2 ^ m"
    "case result of
       Inl err \<Rightarrow> err = AssertionError \<and> completion_valid hw (nic_cqs s ! j) region e h \<and>
         \<not> names_packet hw (nic_cqs s ! j) region h (nic_txqs s ! i) e
     | Inr p \<Rightarrow> p = e \<and> \<not> completion_valid hw (nic_cqs s ! j) region e h"
proof -
  let ?q = "nic_cqs s ! j" and ?r = "nic_txqs s ! i"
  have ready: "i < length (nic_txqs s)" "ring_ok k ?r" "from_pool (nic_pool s) ?r" "cpq_size ?q = 2 ^ m" "cpq_size_mask ?q = 2 ^ m - 1"
    using assms by (simp_all add: tx_cq_ready_def Let_def)
  note step = tx_progress_step [OF _ ready(1-3)]
  obtain result e st where "consume (\<lambda>p st. completion_valid hw ?q region p (fst st))
      (total (tx_completion_step hw ?q region (TX, i))) (cpq_cons_ptr ?q) (h, s) = Some (result, st)"
    "tx_progress hw i j region h s e st" "entries_taken hw ?q region h ?r e" "e \<le> cpq_cons_ptr ?q + 2 ^ m"
    "case result of
        Inl err \<Rightarrow> err = AssertionError \<and> completion_valid hw ?q region e h \<and> \<not> names_packet hw ?q region h ?r e
      | Inr p \<Rightarrow> p = e \<and> \<not> completion_valid hw ?q region e h"
    by (rule entries_loop [where J = "tx_progress hw i j region h s" and hw = hw and q = ?q and region = region and h = h
          and r = ?r and step = "tx_completion_step hw ?q region (TX, i)" and ?st0.0 = "(h, s)" and err = AssertionError])
      (erule tx_progress_taken, erule (2) step(1), erule (2) step(2), rule tx_progress_start [OF ready(1)], rule ready(4),
        rule ready(5), assumption)
  then show ?thesis using that by (auto simp: tx_progress_def)
qed

text \<open>
  C32. Transmit completions: whatever the hardware has written into the queue, handling it ends. It
  takes the entries up to the first one that is not valid, at most one lap of them, frees the slots
  they name and nothing else, and leaves the ring in order with its consumer pointer at the first
  packet outstanding. A completion that names no packet, or one named before, stops the handler with
  an assertion at that entry; there is no other failure.
\<close>

theorem tx_completions_exact:
  assumes "obliging hw" "tx_cq_ready m k i j region s"
  shows "\<exists>result h' s' e. process_tx_cq hw j (h, s) = Some (result, (h', s')) \<and>
    entries_taken hw (nic_cqs s ! j) region h (nic_txqs s ! i) e \<and> e \<le> cpq_cons_ptr (nic_cqs s ! j) + 2 ^ m \<and>
    ring_ok k (nic_txqs s' ! i) \<and> rg_prod_ptr (nic_txqs s' ! i) = rg_prod_ptr (nic_txqs s ! i) \<and>
    outstanding (nic_txqs s' ! i) = (\<lambda>p.
      if slot_index (nic_txqs s ! i) p \<in> completed_slots hw (nic_cqs s ! j) region h (nic_txqs s ! i) e
      then None else outstanding (nic_txqs s ! i) p) \<and>
    (case result of
       Inl err \<Rightarrow> err = AssertionError \<and> completion_valid hw (nic_cqs s ! j) region e h \<and>
         \<not> names_packet hw (nic_cqs s ! j) region h (nic_txqs s ! i) e
     | Inr _ \<Rightarrow> \<not> completion_valid hw (nic_cqs s ! j) region e h \<and> cpq_cons_ptr (nic_cqs s' ! j) = e \<and>
         rg_clean_event (nic_txqs s' ! i) \<and>
         (rg_cons_ptr (nic_txqs s' ! i) = rg_prod_ptr (nic_txqs s' ! i) \<or>
          outstanding (nic_txqs s' ! i) (rg_cons_ptr (nic_txqs s' ! i)) \<noteq> None))"
proof -
  let ?q = "nic_cqs s ! j" and ?r = "nic_txqs s ! i"
  let ?I = "\<lambda>e. completed_slots hw ?q region h ?r e"
  obtain d w where found: "handler_context j (h, s) = (Inr (Some (?q, (TX, i), d)), (h, s))"
    and ready: "cpq_hw_regs ?q = Some w" "cpq_buf_region ?q = Some region" "j < length (nic_cqs s)" "i < length (nic_txqs s)"
      "ring_ok k ?r" by (rule tx_cq_readyE [OF assms(2), where h = h])
  obtain result e pl where loop: "consume (\<lambda>p st. completion_valid hw ?q region p (fst st))
      (total (tx_completion_step hw ?q region (TX, i))) (cpq_cons_ptr ?q) (h, s) =
      Some (result, (h, upd_ring TX i (clear_slots (?I e)) (s\<lparr>nic_pool := pl\<rparr>)))"
    and taken: "entries_taken hw ?q region h ?r e" "e \<le> cpq_cons_ptr ?q + 2 ^ m"
    and stop: "case result of
        Inl err \<Rightarrow> err = AssertionError \<and> completion_valid hw ?q region e h \<and> \<not> names_packet hw ?q region h ?r e
      | Inr p \<Rightarrow> p = e \<and> \<not> completion_valid hw ?q region e h"
    by (rule tx_entries_run [OF assms(2), where hw = hw and h = h])
  note clear = clear_slots_ok [OF ready(5), of "?I e"]
  note handled = process_cq_run [OF found ready(2), where step = "\<lambda>q region ring d. tx_completion_step hw q region ring", OF loop]
  show ?thesis
  proof (cases result)
    case (Inl err)
    then have "process_tx_cq hw j (h, s) = Some (Inl err, (h, upd_ring TX i (clear_slots (?I e)) (s\<lparr>nic_pool := pl\<rparr>)))"
      unfolding process_tx_cq_def by (rule handled(1))
    then show ?thesis using taken stop clear Inl ready(4) by auto
  next
    case (Inr p)
    then have p: "result = Inr e" using stop by simp
    let ?t = "upd_ring TX i (clear_slots (?I e)) (s\<lparr>nic_pool := pl\<rparr>)"
    let ?s1 = "upd_cq j (\<lambda>q. q\<lparr>cpq_cons_ptr := e\<rparr>) ?t"
    have t: "j < length (nic_cqs ?t)" "cpq_hw_regs (nic_cqs ?t ! j) = Some w"
      "clear_slots (?I e) ?r = the_ring (fst (TX, i)) (snd (TX, i)) ?t" using ready by simp_all
    obtain h1 c where run: "process_tx_cq hw j (h, s) = Some (Inr (), (h1, upd_ring TX i (\<lambda>r. r\<lparr>rg_clean_event := True\<rparr>)
        (upd_ring TX i (ring_advance c) ?s1)))"
      and c: "ring_ok k (ring_advance c (clear_slots (?I e) ?r))"
        "outstanding (ring_advance c (clear_slots (?I e) ?r)) = outstanding (clear_slots (?I e) ?r)"
        "c = rg_prod_ptr (clear_slots (?I e) ?r) \<or> outstanding (clear_slots (?I e) ?r) c \<noteq> None"
      using handled(2) [where finish = "\<lambda>ring. updates (upd_ring (fst ring) (snd ring) (\<lambda>r. r\<lparr>rg_clean_event := True\<rparr>))",
          OF p assms(1) t clear(1)]
      unfolding process_tx_cq_def fst_conv snd_conv updates_def amodify_run prod.case by blast
    define s2 where "s2 = upd_ring TX i (\<lambda>r. r\<lparr>rg_clean_event := True\<rparr>) (upd_ring TX i (ring_advance c) ?s1)"
    have s2: "nic_txqs s2 ! i = (ring_advance c (clear_slots (?I e) ?r))\<lparr>rg_clean_event := True\<rparr>"
      "nic_cqs s2 ! j = ?q\<lparr>cpq_cons_ptr := e\<rparr>" using ready(3,4) by (simp_all add: s2_def upd_cq_def)
    have "ring_ok k (nic_txqs s2 ! i)" "outstanding (nic_txqs s2 ! i) = outstanding (clear_slots (?I e) ?r)"
      using c(1,2) by (simp_all add: s2(1) clean_event_irrelevant)
    with run s2 taken stop clear(2) c(3) p show ?thesis unfolding s2_def [symmetric]
      by (intro exI [of _ "Inr ()"] exI) (auto simp: ring_advance_def)
  qed
qed

text \<open>A queue of two entries, the first one written: it names the slot of the only packet.\<close>

definition completing_hw :: "(nat, nat \<times> int) nic_hw" where
  "completing_hw = sample_hw\<lparr>hw_load := (\<lambda>r i n h. replicate 31 0 @ [if i = 0 then 0x80 else 0])\<rparr>"

lemma completing_entries:
  assumes "cpq_size q = 2" "cpq_size_mask q = 1" "cpq_stride q = 32"
  shows "0 \<le> p \<Longrightarrow> p \<le> 1 \<Longrightarrow> completion_valid completing_hw q region p h \<longleftrightarrow> p = 0"
    "completed_slot completing_hw q region h r 0 = slot_index r 0"
proof -
  have three: "replicate 3 (0 :: byte) = [0, 0, 0]" by (simp add: eval_nat_numeral)
  have phase: "be_int (0x80 # replicate 3 0) AND 0x80000000 \<noteq> 0" "be_int (0 # replicate 3 0) AND 0x80000000 = 0"
    unfolding three by (simp_all add: be_int_def)
  have two: "be_int (replicate 2 (0 :: byte)) = 0" by (simp add: be_int_def eval_nat_numeral)
  show "completion_valid completing_hw q region p h \<longleftrightarrow> p = 0" if "0 \<le> p" "p \<le> 1"
  proof -
    have "p = 0 \<or> p = 1" using that by auto
    then show ?thesis
      using assms by (auto simp: completion_valid_def entry_valid_def entry_bytes_def le_field_def completing_hw_def phase)
  qed
  show "completed_slot completing_hw q region h r 0 = slot_index r 0"
    using assms by (simp add: completed_slot_def completion_def entry_bytes_def le_field_def completing_hw_def two)
qed

definition completing_nic :: "(nat \<times> int) nic" where
  "completing_nic = (new_nic (new_packet_pool\<lparr>pl_allocated_packets := [(1, 16384)]\<rparr>) 0 0)\<lparr>
     nic_cqs := [new_completion_queue\<lparr>cpq_size := 2, cpq_size_mask := 1, cpq_stride := 32, cpq_src_ring := Some (TX, 0),
       cpq_buf_region := Some (0, 64), cpq_hw_regs := Some 0\<rparr>],
     nic_txqs := [sample_ring\<lparr>rg_info := Some (1, 16384) # replicate 7 None, rg_prod_ptr := 1, rg_ndev := Some 0\<rparr>],
     nic_ndevs := [\<lparr>ndv_port = 0, ndv_port_up = True, ndv_sched_port = None, ndv_txq_count = 1, ndv_rxq_count = 0,
       ndv_indir_table = [], ndv_txq = [0], ndv_rxq = [], ndv_tx_ring_size = 8, ndv_rx_ring_size = 0,
       ndv_pkt_rx_queue = [], ndv_pkt_rx_sync = False\<rparr>]\<rparr>"

lemma completing_ready: "obliging completing_hw" "tx_cq_ready 1 3 0 0 (0, 64) completing_nic"
proof -
  show "obliging completing_hw" using sample_hw_obliging by (simp add: obliging_def completing_hw_def)
  let ?r = "nic_txqs completing_nic ! 0"
  have sized: "ring_sized 3 ?r" by (simp add: ring_sized_def completing_nic_def sample_ring_def)
  have "rg_info ?r ! slot_index ?r p = None" if "1 \<le> p" "p < 8" for p
  proof -
    have "p \<in> {1, 2, 3, 4, 5, 6, 7}" using that by auto
    moreover have "rg_info ?r = Some (1, 16384) # replicate 7 None" by (simp add: completing_nic_def)
    ultimately show ?thesis unfolding slot_index_mod [OF sized] by (auto simp: numeral_eq_Suc)
  qed
  with sized show "tx_cq_ready 1 3 0 0 (0, 64) completing_nic"
    by (simp add: tx_cq_ready_def ring_ok_def)
       (simp add: completing_nic_def from_pool_def sample_ring_def new_ring_def new_nic_def)
qed

theorem tx_completions_exact_witness:
  "\<exists>h' s'. process_tx_cq completing_hw 0 (0, completing_nic) = Some (Inr (), (h', s')) \<and>
     cpq_cons_ptr (nic_cqs s' ! 0) = 1 \<and> outstanding (nic_txqs completing_nic ! 0) 0 = Some (1, 16384) \<and>
     outstanding (nic_txqs s' ! 0) 0 = None"
proof -
  let ?q = "nic_cqs completing_nic ! 0" and ?r = "nic_txqs completing_nic ! 0"
  have cons: "cpq_cons_ptr ?q = 0" by (simp add: completing_nic_def new_completion_queue_def)
  have q: "cpq_size ?q = 2" "cpq_size_mask ?q = 1" "cpq_stride ?q = 32" by (simp_all add: completing_nic_def)
  note valid = completing_entries(1) [OF q, where region = "(0, 64)" and h = 0] and slot0 = completing_entries(2) [OF q]
  have index: "slot_index ?r 0 = 0" and packet: "outstanding ?r 0 = Some (1, 16384)" and info: "rg_info ?r ! 0 = Some (1, 16384)"
    by (simp_all add: completing_nic_def slot_index_def outstanding_def sample_ring_def new_ring_def)
  have slot: "completed_slot completing_hw ?q (0, 64) 0 ?r 0 = 0" by (simp add: slot0 index)
  have names: "names_packet completing_hw ?q (0, 64) 0 ?r 0"
    by (simp add: names_packet_def completed_slots_def cons slot info)
  obtain result h' s' e where run: "process_tx_cq completing_hw 0 (0, completing_nic) = Some (result, (h', s'))"
    and taken: "entries_taken completing_hw ?q (0, 64) 0 ?r e"
    and out: "outstanding (nic_txqs s' ! 0) = (\<lambda>p. if slot_index ?r p \<in> completed_slots completing_hw ?q (0, 64) 0 ?r e
      then None else outstanding ?r p)"
    and stop: "case result of
        Inl err \<Rightarrow> err = AssertionError \<and> completion_valid completing_hw ?q (0, 64) e 0 \<and>
          \<not> names_packet completing_hw ?q (0, 64) 0 ?r e
      | Inr _ \<Rightarrow> \<not> completion_valid completing_hw ?q (0, 64) e 0 \<and> cpq_cons_ptr (nic_cqs s' ! 0) = e \<and>
         rg_clean_event (nic_txqs s' ! 0) \<and>
         (rg_cons_ptr (nic_txqs s' ! 0) = rg_prod_ptr (nic_txqs s' ! 0) \<or>
          outstanding (nic_txqs s' ! 0) (rg_cons_ptr (nic_txqs s' ! 0)) \<noteq> None)"
    using tx_completions_exact [OF completing_ready, of 0] by blast
  have "0 \<le> e" "\<not> 1 < e" using taken valid [of 1] by (auto simp: entries_taken_def cons)
  then have e: "e = 1" using stop valid [of e] names by (cases "e = 0") (auto split: sum.splits)
  then have "result = Inr ()" using stop valid [of 1] by (auto split: sum.splits)
  moreover have "0 \<in> completed_slots completing_hw ?q (0, 64) 0 ?r e" using slot by (force simp: completed_slots_def cons e)
  ultimately show ?thesis using run stop packet out index e by auto
qed

end
