(* ===== verification/Nic_Reception.thy ===== *)
theory Nic_Reception
  imports Nic_Completions
begin

text \<open>
  What a receive completion handler does: every valid entry hands one packet to the net device, in
  the order of the entries, its slot is freed, and the ring is filled up again.
\<close>


section \<open>The pool\<close>

text \<open>Every packet buffer, free or in use, has the size of a packet buffer.\<close>

definition pool_uniform :: "('h, 'r) nic_hw \<Rightarrow> 'r packet_pool \<Rightarrow> bool" where
  "pool_uniform hw pl \<longleftrightarrow> 0 < pl_pkt_buf_size pl \<and> pl_pkt_buf_size pl < 2 ^ 32 \<and>
     (\<forall>x \<in> set (pl_free_packets pl) \<union> set (pl_allocated_packets pl). hw_size hw x = pl_pkt_buf_size pl)"

lemma take_pkt_uniform:
  assumes "obliging hw" "pool_uniform hw (nic_pool s)"
  shows "\<exists>pkt h' pl. take_pkt hw (h, s) = (Inr pkt, (h', s\<lparr>nic_pool := pl\<rparr>)) \<and>
    hw_size hw pkt = pl_pkt_buf_size (nic_pool s) \<and> pl_pkt_buf_size (nic_pool s) < 2 ^ 32 \<and> pool_uniform hw pl"
proof (cases "pl_free_packets (nic_pool s)")
  case Nil
  obtain r h' where call: "hw_alloc_region hw (pl_pkt_buf_size (nic_pool s)) h = (r, h')" by (metis surj_pair)
  have "\<exists>x. fst (hw_alloc_region hw (pl_pkt_buf_size (nic_pool s)) h) = Inr x \<and> hw_size hw x = pl_pkt_buf_size (nic_pool s)"
    using assms unfolding obliging_def pool_uniform_def by simp
  then obtain pkt where "r = Inr pkt" "hw_size hw pkt = pl_pkt_buf_size (nic_pool s)" using call by auto
  with Nil call assms(2) show ?thesis
    by (auto simp: take_pkt_def alloc_pkt_def pool_uniform_def
        intro!: exI [of _ "(nic_pool s)\<lparr>pl_allocated_packets := pl_allocated_packets (nic_pool s) @ [pkt]\<rparr>"])
next
  case (Cons pkt rest)
  with assms(2) show ?thesis by (auto simp: take_pkt_def alloc_pkt_def pool_uniform_def)
qed


section \<open>Refilling\<close>

lemma refill_one_run:
  assumes hw: "obliging hw" and pool: "pool_uniform hw (nic_pool s)" and i: "i < length (nic_rxqs s)"
    and ok: "ring_ok k (nic_rxqs s ! i)" and backed: "ring_backed hw k (nic_rxqs s ! i)"
  shows "\<exists>pkt h' pl. refill_one hw i (h, s) = (Inr (), (h', upd_ring RX i (ring_put pkt) (s\<lparr>nic_pool := pl\<rparr>))) \<and>
    pool_uniform hw pl"
proof -
  let ?r = "nic_rxqs s ! i"
  let ?index = "rg_prod_ptr ?r AND rg_size_mask ?r" and ?n = "rg_desc_block_size ?r"
  obtain b where b: "rg_buf_region ?r = Some b" "hw_size hw b = 2 ^ k * (MQNIC_DESC_SIZE * ?n)"
    and stride: "0 < ?n" "rg_stride ?r = MQNIC_DESC_SIZE * ?n"
    using backed by (auto simp: ring_backed_def split: option.splits)
  have sized: "ring_sized k ?r" using ok by (simp add: ring_ok_def)
  have index: "0 \<le> ?index" "?index < 2 ^ k" "nat ?index = slot_index ?r (rg_prod_ptr ?r)"
    using sized by (simp_all add: ring_sized_def and_size_mask slot_index_def)
  obtain pkt h1 pl where e1: "take_pkt hw (h, s) = (Inr pkt, (h1, s\<lparr>nic_pool := pl\<rparr>))"
    and size: "hw_size hw pkt = pl_pkt_buf_size (nic_pool s)" "pl_pkt_buf_size (nic_pool s) < 2 ^ 32" and pl: "pool_uniform hw pl"
    using take_pkt_uniform [OF hw pool, of h] by blast
  let ?L = "hw_size hw pkt"
  have L: "0 < ?L" "?L < 2 ^ 32" using pool size by (simp_all add: pool_uniform_def)
  have fits: "0 \<le> hw_address hw pkt" "hw_address hw pkt + ?L \<le> 2 ^ 64" using hw by (auto simp: obliging_def)
  define s1 where "s1 = s\<lparr>nic_pool := pl\<rparr>"
  have e1': "take_pkt hw (h, s) = (Inr pkt, (h1, s1))" using e1 by (simp add: s1_def)
  have r1: "nic_rxqs s1 ! i = ?r" by (simp add: s1_def)
  have e2: "reads (the_ring RX i) (h1, s1) = (Inr ?r, (h1, s1))" by (simp add: reads_def r1)
  have less: "nat ?index < length (rg_info ?r)" using slot_index_less [OF sized] index(3) by simp
  define s2 where "s2 = upd_ring RX i (\<lambda>r. r\<lparr>rg_info := (rg_info r)[nat ?index := Some pkt]\<rparr>) s1"
  have e3: "updates (upd_ring RX i (\<lambda>r. r\<lparr>rg_info := (rg_info r)[nat ?index := Some pkt]\<rparr>)) (h1, s1) = (Inr (), (h1, s2))"
    by (simp add: updates_def s2_def)
  have tile: "tiles (rx_segments (nat ?n) ?L 0) 0 ?L" using rx_segments_tile [of 0 ?L "nat ?n"] L stride(1) by simp
  have "\<exists>d. rx_descriptor (hw_address hw pkt) x = Inr d \<and> length d = 16" if "x \<in> set (rx_segments (nat ?n) ?L 0)" for x
    using tiled_descriptor [OF tile that L(2) fits, of 0 1] by (auto simp: tx_descriptor_def)
  then have "\<exists>h'. afor (enumerate 0 (rx_segments (nat ?n) ?L 0)) (\<lambda>(m, x).
      abind (alift (rx_descriptor (hw_address hw pkt) x)) (\<lambda>bs.
        mem_store hw b (?index * rg_stride ?r + int m * MQNIC_DESC_SIZE) bs)) (h1, s2) = (Inr (), (h', s2))"
    unfolding stride(2) using b(2) index(1,2) by (intro descriptors_stored [OF hw, where k = k]) simp_all
  then obtain h2 where e4: "afor (enumerate 0 (rx_segments (nat ?n) ?L 0)) (\<lambda>(m, x).
      abind (alift (rx_descriptor (hw_address hw pkt) x)) (\<lambda>bs.
        mem_store hw b (?index * rg_stride ?r + int m * MQNIC_DESC_SIZE) bs)) (h1, s2) = (Inr (), (h2, s2))" ..
  have prepare: "prepare_desc hw i ?index (h, s) = (Inr (), (h2, s2))"
    unfolding prepare_desc_def
    using less by (simp only: athen_def abind_def e1' e2 e3 e4 b(1) aneed_simps aret_run aguard_simps prod.case sum.case refl simp_thms)
  have "refill_one hw i (h, s) = (Inr (), (h2, upd_ring RX i (\<lambda>r. r\<lparr>rg_prod_ptr := rg_prod_ptr r + 1\<rparr>) s2))"
    by (simp add: refill_one_def reads_def updates_def athen_def abind_def prepare)
  moreover have "upd_ring RX i (\<lambda>r. r\<lparr>rg_prod_ptr := rg_prod_ptr r + 1\<rparr>) s2 = upd_ring RX i (ring_put pkt) s1"
    using i index(3) by (simp add: s2_def r1 s1_def ring_put_def)
  ultimately show ?thesis using pl by (auto simp: s1_def)
qed

lemma ring_put_fields [simp]:
  "rg_cons_ptr (ring_put x r) = rg_cons_ptr r" "rg_prod_ptr (ring_put x r) = rg_prod_ptr r + 1"
  "rg_hw_regs (ring_put x r) = rg_hw_regs r" "ring_backed hw k (ring_put x r) = ring_backed hw k r"
  by (simp_all add: ring_put_def ring_backed_def split: option.split)

text \<open>A ring with more packets at its end: what was outstanding still is.\<close>

definition ring_filled :: "nat \<Rightarrow> 'r ring \<Rightarrow> nat \<Rightarrow> 'r ring \<Rightarrow> bool" where
  "ring_filled k r n r' \<longleftrightarrow> ring_ok k r' \<and> rg_cons_ptr r' = rg_cons_ptr r \<and> rg_prod_ptr r' = rg_prod_ptr r + int n \<and>
     rg_hw_regs r' = rg_hw_regs r \<and>
     (\<forall>p. p < rg_prod_ptr r \<longrightarrow> outstanding r' p = outstanding r p) \<and>
     (\<forall>p. rg_prod_ptr r \<le> p \<and> p < rg_prod_ptr r' \<longrightarrow> outstanding r' p \<noteq> None)"

lemma ring_filled_none: "ring_ok k r \<Longrightarrow> ring_filled k r 0 r"
  by (auto simp: ring_filled_def)

lemma refill_run:
  assumes hw: "obliging hw" and i: "i < length (nic_rxqs s)" and pool: "pool_uniform hw (nic_pool s)"
    and ok: "ring_ok k (nic_rxqs s ! i)" and backed: "ring_backed hw k (nic_rxqs s ! i)"
    and space: "rg_prod_ptr (nic_rxqs s ! i) + int (length xs) \<le> rg_cons_ptr (nic_rxqs s ! i) + 2 ^ k"
  shows "\<exists>h' r' pl. afor xs (\<lambda>_. refill_one hw i) (h, s) = (Inr (), (h', upd_ring RX i (\<lambda>_. r') (s\<lparr>nic_pool := pl\<rparr>))) \<and>
    ring_filled k (nic_rxqs s ! i) (length xs) r'"
  using i pool ok backed space
proof (induction xs arbitrary: h s)
  case Nil
  then show ?case
    by (intro exI [of _ h] exI [of _ "nic_rxqs s ! i"] exI [of _ "nic_pool s"]) (simp add: ring_filled_none)
next
  case (Cons x xs)
  let ?r = "nic_rxqs s ! i"
  have window: "rg_prod_ptr ?r < rg_cons_ptr ?r + 2 ^ k" using Cons.prems(5) by simp
  obtain pkt h1 pl where one: "refill_one hw i (h, s) = (Inr (), (h1, upd_ring RX i (ring_put pkt) (s\<lparr>nic_pool := pl\<rparr>)))"
    and pl: "pool_uniform hw pl" using refill_one_run [OF hw Cons.prems(2,1,3,4)] by blast
  define s1 where "s1 = upd_ring RX i (ring_put pkt) (s\<lparr>nic_pool := pl\<rparr>)"
  have r1: "nic_rxqs s1 ! i = ring_put pkt ?r" "i < length (nic_rxqs s1)" "nic_pool s1 = pl"
    using Cons.prems(1) by (simp_all add: s1_def)
  note put = ring_put_ok(1,2) [OF Cons.prems(3) window, of pkt]
  obtain h2 r2 pl2 where rest: "afor xs (\<lambda>_. refill_one hw i) (h1, s1) =
      (Inr (), (h2, upd_ring RX i (\<lambda>_. r2) (s1\<lparr>nic_pool := pl2\<rparr>)))"
    and filled: "ring_filled k (ring_put pkt ?r) (length xs) r2"
    using Cons.IH [of s1 h1] put(1) Cons.prems(4,5) pl by (auto simp: r1)
  have "afor (x # xs) (\<lambda>_. refill_one hw i) (h, s) = (Inr (), (h2, upd_ring RX i (\<lambda>_. r2) (s\<lparr>nic_pool := pl2\<rparr>)))"
    using rest by (simp add: athen_def abind_def one s1_def [symmetric]) (simp add: s1_def)
  moreover have "ring_filled k ?r (length (x # xs)) r2"
  proof -
    have "outstanding r2 p \<noteq> None" if "rg_prod_ptr ?r \<le> p" "p < rg_prod_ptr ?r + 1 + int (length xs)" for p
      using filled put(2) that by (cases "p = rg_prod_ptr ?r") (auto simp: ring_filled_def)
    moreover have "outstanding r2 p = outstanding ?r p" if "p < rg_prod_ptr ?r" for p
      using filled put(2) that by (simp add: ring_filled_def)
    ultimately show ?thesis using filled by (simp add: ring_filled_def)
  qed
  ultimately show ?case by blast
qed

lemma refill_buffers_run:
  assumes hw: "obliging hw" and i: "i < length (nic_rxqs s)" and pool: "pool_uniform hw (nic_pool s)"
    and ok: "ring_ok k (nic_rxqs s ! i)" and backed: "ring_backed hw k (nic_rxqs s ! i)"
  shows "\<exists>h' r' pl n. refill_buffers hw i (h, s) = (Inr (), (h', upd_ring RX i (\<lambda>_. r') (s\<lparr>nic_pool := pl\<rparr>))) \<and>
    ring_filled k (nic_rxqs s ! i) n r' \<and> 2 ^ k - 8 < rg_prod_ptr r' - rg_cons_ptr r'"
proof -
  let ?r = "nic_rxqs s ! i"
  define missing where "missing = rg_size ?r - (rg_prod_ptr ?r - rg_cons_ptr ?r)"
  have size: "rg_size ?r = 2 ^ k" and window: "rg_prod_ptr ?r \<le> rg_cons_ptr ?r + 2 ^ k"
    using ok by (simp_all add: ring_ok_def ring_sized_def)
  show ?thesis
  proof (cases "missing < 8")
    case True
    then have "refill_buffers hw i (h, s) = (Inr (), (h, s))"
      by (simp add: refill_buffers_def reads_def missing_def [symmetric])
    moreover have "ring_filled k ?r 0 ?r" by (rule ring_filled_none [OF ok])
    ultimately show ?thesis using True size
      by (intro exI [of _ h] exI [of _ ?r] exI [of _ "nic_pool s"] exI [of _ 0]) (simp add: missing_def)
  next
    case False
    have len: "int (length [0..<nat missing]) = missing" using False by simp
    obtain h1 r1 pl where fill: "afor [0..<nat missing] (\<lambda>_. refill_one hw i) (h, s) =
        (Inr (), (h1, upd_ring RX i (\<lambda>_. r1) (s\<lparr>nic_pool := pl\<rparr>)))" and filled: "ring_filled k ?r (nat missing) r1"
      using refill_run [OF hw i pool ok backed, of "[0..<nat missing]" h] len size by (auto simp: missing_def)
    define s1 where "s1 = upd_ring RX i (\<lambda>_. r1) (s\<lparr>nic_pool := pl\<rparr>)"
    obtain w where "rg_hw_regs (nic_rxqs s1 ! i) = Some w"
      using filled backed i by (auto simp: ring_filled_def ring_backed_def s1_def)
    then obtain h2 where "ring_write_prod_ptr hw RX i (h1, s1) = (Inr (), (h2, s1))"
      using obliging_write [OF hw prod_ptr_command] by (fastforce simp: ring_write_prod_ptr_def reads_def need_window_def)
    then have "refill_buffers hw i (h, s) = (Inr (), (h2, s1))"
      using False fill by (simp add: refill_buffers_def reads_def missing_def [symmetric] athen_def abind_def s1_def)
    moreover have "2 ^ k - 8 < rg_prod_ptr r1 - rg_cons_ptr r1"
      using filled False size by (simp add: ring_filled_def missing_def)
    ultimately show ?thesis using filled by (auto simp: s1_def)
  qed
qed


section \<open>Receive completions\<close>

text \<open>The packet an entry hands to the net device.\<close>

definition delivered :: "('h, 'r) nic_hw \<Rightarrow> 'r completion_queue \<Rightarrow> 'r \<Rightarrow> 'h \<Rightarrow> 'r ring \<Rightarrow> int \<Rightarrow> skb" where
  "delivered hw q region h r p =
     (let cpl = completion hw q region p h in
      \<lparr>skb_data = hw_load hw (the (rg_info r ! completed_slot hw q region h r p)) 0 (le_field 2 4 cpl) h,
       skb_queue = rg_index r, skb_timestamp = (le_field 2 12 cpl, le_field 4 8 cpl, le_field 2 6 cpl),
       skb_rx_checksum = le_field 2 14 cpl\<rparr>)"

definition deliver :: "skb list \<Rightarrow> netdev \<Rightarrow> netdev" where
  "deliver ps n = n\<lparr>ndv_pkt_rx_queue := ndv_pkt_rx_queue n @ ps, ndv_pkt_rx_sync := ndv_pkt_rx_sync n \<or> ps \<noteq> []\<rparr>"

lemma deliver_nothing: "deliver [] n = n"
  by (simp add: deliver_def)

lemma deliver_more: "deliver [x] (deliver ps n) = deliver (ps @ [x]) n"
  by (simp add: deliver_def)

definition rx_progress ::
  "('h, 'r) nic_hw \<Rightarrow> nat \<Rightarrow> nat \<Rightarrow> nat \<Rightarrow> 'r \<Rightarrow> 'h \<Rightarrow> 'r nic \<Rightarrow> int \<Rightarrow> 'h \<times> 'r nic \<Rightarrow> bool" where
  "rx_progress hw i j d region h s p st \<longleftrightarrow>
     (let q = nic_cqs s ! j; r = nic_rxqs s ! i in
      entries_taken hw q region h r p \<and>
      (\<exists>pl. st = (h, upd_ndev d (deliver (map (delivered hw q region h r) [cpq_cons_ptr q..p - 1]))
           (upd_ring RX i (clear_slots (completed_slots hw q region h r p)) (s\<lparr>nic_pool := pl\<rparr>))) \<and>
         pl_allocated_packets pl = pl_allocated_packets (nic_pool s) \<and> pool_uniform hw pl))"

lemma rx_progress_step:
  assumes J: "rx_progress hw i j d region h s p st" and i: "i < length (nic_rxqs s)" and d: "d < length (nic_ndevs s)"
    and ok: "ring_ok k (nic_rxqs s ! i)" and pool: "from_pool (nic_pool s) (nic_rxqs s ! i)"
    and valid: "completion_valid hw (nic_cqs s ! j) region p h"
  shows "\<not> names_packet hw (nic_cqs s ! j) region h (nic_rxqs s ! i) p \<Longrightarrow>
      rx_completion_step hw (nic_cqs s ! j) region (RX, i) d p st = (Inl TypeError, st)"
    "names_packet hw (nic_cqs s ! j) region h (nic_rxqs s ! i) p \<Longrightarrow> \<exists>st'.
      rx_completion_step hw (nic_cqs s ! j) region (RX, i) d p st = (Inr (), st') \<and> rx_progress hw i j d region h s (p + 1) st'"
proof -
  define q where "q = nic_cqs s ! j"
  define r where "r = nic_rxqs s ! i"
  define I where "I = completed_slots hw q region h r p"
  define n where "n = completed_slot hw q region h r p"
  define x where "x = le_field 2 2 (completion hw q region p h) AND rg_size_mask r"
  define ps where "ps = map (delivered hw q region h r) [cpq_cons_ptr q..p - 1]"
  obtain pl where st: "st = (h, upd_ndev d (deliver ps) (upd_ring RX i (clear_slots I) (s\<lparr>nic_pool := pl\<rparr>)))"
    and pl: "pl_allocated_packets pl = pl_allocated_packets (nic_pool s)" "pool_uniform hw pl"
    and taken: "entries_taken hw q region h r p" using J by (auto simp: rx_progress_def Let_def q_def r_def I_def ps_def)
  define s1 where "s1 = upd_ndev d (deliver ps) (upd_ring RX i (clear_slots I) (s\<lparr>nic_pool := pl\<rparr>))"
  have ring: "nic_rxqs s1 ! i = clear_slots I r" using i by (simp add: s1_def upd_ndev_def r_def)
  have less: "n < length (rg_info r)"
    using slot_index_less [of k r] ok by (simp add: n_def completed_slot_def ring_ok_def r_def)
  have n: "n = nat x" by (simp add: n_def x_def completed_slot_def slot_index_def)
  note slot = clear_slots_at [OF less, of I]
  have info: "info_at x (clear_slots I r) = Inr (if n \<in> I then None else rg_info r ! n)"
    using less slot by (simp add: info_at_def n [symmetric])
  define cpl where "cpl = completion hw q region p h"
  have e1: "aget (\<lambda>(h, s). completion hw q region p h) (h, s1) = (Inr cpl, (h, s1))" by (simp add: cpl_def)
  have e2: "reads (the_ring RX i) (h, s1) = (Inr (clear_slots I r), (h, s1))" by (simp add: reads_def ring)
  have e3: "alift (info_at x (clear_slots I r)) (h, s1) = (Inr (if n \<in> I then None else rg_info r ! n), (h, s1))"
    by (simp only: info alift_def sum.case)
  have x: "le_field 2 2 cpl AND rg_size_mask (clear_slots I r) = x" by (simp add: x_def cpl_def)
  note run = rx_completion_step_def athen_def abind_def fst_conv snd_conv prod.case sum.case e1 e2 e3 x
  have names: "names_packet hw q region h r p \<longleftrightarrow> n \<notin> I \<and> rg_info r ! n \<noteq> None"
    by (simp add: names_packet_def n_def I_def)
  show "rx_completion_step hw (nic_cqs s ! j) region (RX, i) d p st = (Inl TypeError, st)"
    if "\<not> names_packet hw (nic_cqs s ! j) region h (nic_rxqs s ! i) p"
  proof -
    have none: "(if n \<in> I then None else rg_info r ! n) = None" using that names by (auto simp: q_def r_def)
    show ?thesis
      unfolding st s1_def [symmetric] q_def [symmetric] by (simp only: run none aneed_simps araise_run)
  qed
  assume "names_packet hw (nic_cqs s ! j) region h (nic_rxqs s ! i) p"
  then obtain y where y: "n \<notin> I" "rg_info r ! n = Some y" using names by (auto simp: q_def r_def)
  define s2 where "s2 = upd_ndev d (deliver [delivered hw q region h r p]) s1"
  have r2: "the_ring RX i s2 = clear_slots I r" by (simp add: s2_def upd_ndev_def ring)
  have slot2: "rg_info (the_ring RX i s2) ! n = Some y" "n < length (rg_info (the_ring RX i s2))"
    unfolding r2 using slot y less by simp_all
  have mem: "y \<in> set (pl_allocated_packets (nic_pool s2))"
    using pool less y(2) pl(1) unfolding from_pool_def r_def by (simp add: s2_def s1_def upd_ndev_def) (metis nth_mem)
  obtain pl' where free: "free_desc RX i x (h, s2) = (Inr (), (h, upd_ring RX i (ring_clear n) (s2\<lparr>nic_pool := pl'\<rparr>)))"
    and pl': "pl_allocated_packets pl' = pl_allocated_packets (nic_pool s2)"
      "set (pl_free_packets pl') \<subseteq> insert y (set (pl_free_packets (nic_pool s2)))"
      "pl_pkt_buf_size pl' = pl_pkt_buf_size (nic_pool s2)"
    using free_desc_run(2) [OF n slot2(2,1) mem, of h] by (elim exE conjE)
  have pool2: "nic_pool s2 = pl" by (simp add: s2_def s1_def upd_ndev_def)
  have uniform: "pool_uniform hw pl'"
    using pl(2) pl' mem unfolding pool_uniform_def pool2 by auto
  have step: "rx_completion_step hw q region (RX, i) d p st = (Inr (), (h, upd_ring RX i (ring_clear n) (s2\<lparr>nic_pool := pl'\<rparr>)))"
  proof -
    have e4: "mem_load hw y 0 (le_field 2 4 cpl) (h, s1) = (Inr (hw_load hw y 0 (le_field 2 4 cpl) h), (h, s1))"
      by (simp add: mem_load_def)
    have skb: "delivered hw q region h r p = \<lparr>skb_data = hw_load hw y 0 (le_field 2 4 cpl) h, skb_queue = rg_index r,
        skb_timestamp = (le_field 2 12 cpl, le_field 4 8 cpl, le_field 2 6 cpl), skb_rx_checksum = le_field 2 14 cpl\<rparr>"
      using y(2) by (simp add: delivered_def Let_def cpl_def n_def [symmetric])
    have e5: "updates (upd_ndev d (\<lambda>m. m\<lparr>ndv_pkt_rx_queue := ndv_pkt_rx_queue m @
         [\<lparr>skb_data = hw_load hw y 0 (le_field 2 4 cpl) h, skb_queue = rg_index (clear_slots I r),
           skb_timestamp = (le_field 2 12 cpl, le_field 4 8 cpl, le_field 2 6 cpl),
           skb_rx_checksum = le_field 2 14 cpl\<rparr>], ndv_pkt_rx_sync := True\<rparr>)) (h, s1) = (Inr (), (h, s2))"
      by (simp add: updates_def s2_def upd_ndev_def deliver_def skb) (simp add: clear_slots_def)
    show ?thesis
      unfolding st s1_def [symmetric]
      using y by (simp only: run if_False aneed_simps aret_run e4 e5 free)
  qed
  have "rx_progress hw i j d region h s (p + 1) (h, upd_ring RX i (ring_clear n) (s2\<lparr>nic_pool := pl'\<rparr>))"
  proof -
    have c: "cpq_cons_ptr q \<le> p" using taken by (simp add: entries_taken_def)
    have "entries_taken hw q region h r (p + 1)"
      using taken valid y names by (auto simp: entries_taken_def q_def le_less zless_add1_eq)
    moreover have "completed_slots hw q region h r (p + 1) = insert n I"
      using completed_slots_step [OF c] by (simp add: n_def I_def)
    moreover have "map (delivered hw q region h r) [cpq_cons_ptr q..p + 1 - 1] = ps @ [delivered hw q region h r p]"
      using c by (simp add: ps_def upto_rec2)
    moreover have "upd_ring RX i (ring_clear n) (s2\<lparr>nic_pool := pl'\<rparr>) =
        upd_ndev d (deliver (ps @ [delivered hw q region h r p])) (upd_ring RX i (clear_slots (insert n I)) (s\<lparr>nic_pool := pl'\<rparr>))"
      using i d by (simp add: s2_def s1_def upd_ndev_def deliver_more clear_slots_insert)
    moreover have "pl_allocated_packets pl' = pl_allocated_packets (nic_pool s)" using pl'(1) pl(1) pool2 by simp
    ultimately show ?thesis
      using uniform unfolding rx_progress_def Let_def q_def [symmetric] r_def [symmetric] by metis
  qed
  with step show "\<exists>st'. rx_completion_step hw (nic_cqs s ! j) region (RX, i) d p st = (Inr (), st') \<and>
      rx_progress hw i j d region h s (p + 1) st'"
    by (auto simp: q_def)
qed

lemma rx_progress_taken:
  "rx_progress hw i j d region h s p st \<Longrightarrow>
     fst st = h \<and> entries_taken hw (nic_cqs s ! j) region h (nic_rxqs s ! i) p"
  by (auto simp: rx_progress_def Let_def)

lemma rx_progress_start:
  assumes "i < length (nic_rxqs s)" "d < length (nic_ndevs s)" "pool_uniform hw (nic_pool s)"
  shows "rx_progress hw i j d region h s (cpq_cons_ptr (nic_cqs s ! j)) (h, s)"
  using assms
  by (auto simp: rx_progress_def Let_def entries_taken_def completed_slots_def clear_slots_none deliver_nothing upd_ndev_def
      intro!: exI [of _ "nic_pool s"])

text \<open>
  A completion queue that serves a receive ring: its size is a power of two, both have their memory
  and their registers, the ring is in order, its packets come from a pool of buffers of one size, its
  port is up.
\<close>

definition rx_cq_ready :: "('h, 'r) nic_hw \<Rightarrow> nat \<Rightarrow> nat \<Rightarrow> nat \<Rightarrow> nat \<Rightarrow> nat \<Rightarrow> 'r \<Rightarrow> 'r nic \<Rightarrow> bool" where
  "rx_cq_ready hw m k j i d region s \<longleftrightarrow>
     (let q = nic_cqs s ! j; r = nic_rxqs s ! i in
      j < length (nic_cqs s) \<and> i < length (nic_rxqs s) \<and> d < length (nic_ndevs s) \<and> cpq_src_ring q = Some (RX, i) \<and>
      cpq_buf_region q = Some region \<and> cpq_hw_regs q \<noteq> None \<and> cpq_size q = 2 ^ m \<and> cpq_size_mask q = 2 ^ m - 1 \<and>
      ring_ok k r \<and> ring_backed hw k r \<and> from_pool (nic_pool s) r \<and> pool_uniform hw (nic_pool s) \<and>
      rg_ndev r = Some d \<and> ndv_port_up (nic_ndevs s ! d))"

lemma rx_cq_readyE:
  assumes "rx_cq_ready hw m k j i d region s"
  obtains w where "handler_context j (h, s) = (Inr (Some (nic_cqs s ! j, (RX, i), d)), (h, s))"
    "cpq_hw_regs (nic_cqs s ! j) = Some w" "cpq_buf_region (nic_cqs s ! j) = Some region" "j < length (nic_cqs s)"
    "i < length (nic_rxqs s)" "d < length (nic_ndevs s)" "ring_ok k (nic_rxqs s ! i)" "ring_backed hw k (nic_rxqs s ! i)"
proof -
  obtain w where "cpq_hw_regs (nic_cqs s ! j) = Some w" using assms by (auto simp: rx_cq_ready_def Let_def)
  then show ?thesis using assms by (intro that) (auto simp: handler_context_def reads_def rx_cq_ready_def Let_def)
qed

text \<open>The interface after the entries before \<open>e\<close>, with the pool \<open>pl\<close>.\<close>

definition rx_handed_over ::
  "('h, 'r) nic_hw \<Rightarrow> nat \<Rightarrow> nat \<Rightarrow> nat \<Rightarrow> 'r \<Rightarrow> 'h \<Rightarrow> 'r nic \<Rightarrow> int \<Rightarrow> 'r packet_pool \<Rightarrow> 'r nic" where
  "rx_handed_over hw i j d region h s e pl =
     upd_ndev d (deliver (map (delivered hw (nic_cqs s ! j) region h (nic_rxqs s ! i)) [cpq_cons_ptr (nic_cqs s ! j)..e - 1]))
       (upd_ring RX i (clear_slots (completed_slots hw (nic_cqs s ! j) region h (nic_rxqs s ! i) e)) (s\<lparr>nic_pool := pl\<rparr>))"

lemma rx_entries_run:
  assumes "rx_cq_ready hw m k j i d region s"
  obtains result e pl where "consume (\<lambda>p st. completion_valid hw (nic_cqs s ! j) region p (fst st))
      (total (rx_completion_step hw (nic_cqs s ! j) region (RX, i) d)) (cpq_cons_ptr (nic_cqs s ! j)) (h, s) =
      Some (result, (h, rx_handed_over hw i j d region h s e pl))" "pool_uniform hw pl"
    "entries_taken hw (nic_cqs s ! j) region h (nic_rxqs s ! i) e" "e \<le> cpq_cons_ptr (nic_cqs s ! j) + 2 ^ m"
    "case result of
       Inl err \<Rightarrow> err = TypeError \<and> completion_valid hw (nic_cqs s ! j) region e h \<and>
         \<not> names_packet hw (nic_cqs s ! j) region h (nic_rxqs s ! i) e
     | Inr p \<Rightarrow> p = e \<and> \<not> completion_valid hw (nic_cqs s ! j) region e h"
proof -
  let ?q = "nic_cqs s ! j" and ?r = "nic_rxqs s ! i"
  have ready: "i < length (nic_rxqs s)" "d < length (nic_ndevs s)" "ring_ok k ?r" "from_pool (nic_pool s) ?r"
    "pool_uniform hw (nic_pool s)" "cpq_size ?q = 2 ^ m" "cpq_size_mask ?q = 2 ^ m - 1"
    using assms by (simp_all add: rx_cq_ready_def Let_def)
  note step = rx_progress_step [OF _ ready(1-4)]
  obtain result e st where "consume (\<lambda>p st. completion_valid hw ?q region p (fst st))
      (total (rx_completion_step hw ?q region (RX, i) d)) (cpq_cons_ptr ?q) (h, s) = Some (result, st)"
    "rx_progress hw i j d region h s e st" "entries_taken hw ?q region h ?r e" "e \<le> cpq_cons_ptr ?q + 2 ^ m"
    "case result of
        Inl err \<Rightarrow> err = TypeError \<and> completion_valid hw ?q region e h \<and> \<not> names_packet hw ?q region h ?r e
      | Inr p \<Rightarrow> p = e \<and> \<not> completion_valid hw ?q region e h"
    by (rule entries_loop [where J = "rx_progress hw i j d region h s" and hw = hw and q = ?q and region = region and h = h
          and r = ?r and step = "rx_completion_step hw ?q region (RX, i) d" and ?st0.0 = "(h, s)" and err = TypeError])
      (erule rx_progress_taken, erule (2) step(1), erule (2) step(2), rule rx_progress_start [OF ready(1,2,5)], rule ready(6),
        rule ready(7), assumption)
  then show ?thesis using that by (auto simp: rx_progress_def rx_handed_over_def Let_def)
qed

text \<open>What is left to do after the entries: the ring is filled up again.\<close>

lemma refill_after_clean:
  assumes "obliging hw" "i < length (nic_rxqs s)" "nic_rxqs s ! i = r" "ring_ok k (ring_advance c r)" "ring_backed hw k r"
    "pool_uniform hw (nic_pool s)" "outstanding (ring_advance c r) = outstanding r"
  obtains h' s' where "refill_buffers hw i (h, upd_ring RX i (ring_advance c) s) = (Inr (), (h', s'))"
    "nic_cqs s' = nic_cqs s" "nic_ndevs s' = nic_ndevs s" "ring_ok k (nic_rxqs s' ! i)"
    "\<forall>p. p < rg_prod_ptr r \<longrightarrow> outstanding (nic_rxqs s' ! i) p = outstanding r p"
    "\<forall>p. rg_prod_ptr r \<le> p \<and> p < rg_prod_ptr (nic_rxqs s' ! i) \<longrightarrow> outstanding (nic_rxqs s' ! i) p \<noteq> None"
    "2 ^ k - 8 < rg_prod_ptr (nic_rxqs s' ! i) - rg_cons_ptr (nic_rxqs s' ! i)"
proof -
  let ?s = "upd_ring RX i (ring_advance c) s"
  have s: "nic_rxqs ?s ! i = ring_advance c r" "i < length (nic_rxqs ?s)" "nic_pool ?s = nic_pool s"
    using assms(2,3) by simp_all
  have backed: "ring_backed hw k (nic_rxqs ?s ! i)"
    using assms(5) unfolding s(1) by (simp add: ring_backed_def ring_advance_def split: option.splits)
  obtain h' r' pl n where "refill_buffers hw i (h, ?s) = (Inr (), (h', upd_ring RX i (\<lambda>_. r') (?s\<lparr>nic_pool := pl\<rparr>)))"
    "ring_filled k (ring_advance c r) n r'" "2 ^ k - 8 < rg_prod_ptr r' - rg_cons_ptr r'"
    using refill_buffers_run [OF assms(1) s(2) _ _ backed, of h] assms(4,6) unfolding s(1,3) by blast
  moreover have "rg_prod_ptr (ring_advance c r) = rg_prod_ptr r" by (simp add: ring_advance_def)
  ultimately show ?thesis
    using assms(2,7) by (intro that [of h' "upd_ring RX i (\<lambda>_. r') (?s\<lparr>nic_pool := pl\<rparr>)"]) (auto simp: ring_filled_def)
qed

text \<open>
  C33. Reception: whatever the hardware has written into the queue, handling it ends. The entries up
  to the first one that is not valid, at most one lap of them, each append the bytes they announce
  from the buffer of the slot they name to the device's packets, in their order; those slots are
  freed, what else was outstanding stays, and the ring is filled up again until fewer than eight
  places are left. An entry that names no packet, or one named before, stops the handler with a type
  error after the packets before it were handed over; there is no other failure.
\<close>

theorem rx_completions_exact:
  assumes "obliging hw" "rx_cq_ready hw m k j i d region s"
  shows "\<exists>result h' s' e. process_rx_cq hw j (h, s) = Some (result, (h', s')) \<and>
    entries_taken hw (nic_cqs s ! j) region h (nic_rxqs s ! i) e \<and> e \<le> cpq_cons_ptr (nic_cqs s ! j) + 2 ^ m \<and>
    ndv_pkt_rx_queue (nic_ndevs s' ! d) = ndv_pkt_rx_queue (nic_ndevs s ! d) @
      map (delivered hw (nic_cqs s ! j) region h (nic_rxqs s ! i)) [cpq_cons_ptr (nic_cqs s ! j)..e - 1] \<and>
    ring_ok k (nic_rxqs s' ! i) \<and>
    (\<forall>p. p < rg_prod_ptr (nic_rxqs s ! i) \<longrightarrow> outstanding (nic_rxqs s' ! i) p =
      (if slot_index (nic_rxqs s ! i) p \<in> completed_slots hw (nic_cqs s ! j) region h (nic_rxqs s ! i) e
       then None else outstanding (nic_rxqs s ! i) p)) \<and>
    (case result of
       Inl err \<Rightarrow> err = TypeError \<and> completion_valid hw (nic_cqs s ! j) region e h \<and>
         \<not> names_packet hw (nic_cqs s ! j) region h (nic_rxqs s ! i) e
     | Inr _ \<Rightarrow> \<not> completion_valid hw (nic_cqs s ! j) region e h \<and> cpq_cons_ptr (nic_cqs s' ! j) = e \<and>
         (\<forall>p. rg_prod_ptr (nic_rxqs s ! i) \<le> p \<and> p < rg_prod_ptr (nic_rxqs s' ! i) \<longrightarrow>
            outstanding (nic_rxqs s' ! i) p \<noteq> None) \<and>
         2 ^ k - 8 < rg_prod_ptr (nic_rxqs s' ! i) - rg_cons_ptr (nic_rxqs s' ! i))"
proof -
  let ?q = "nic_cqs s ! j" and ?r = "nic_rxqs s ! i"
  let ?I = "\<lambda>e. completed_slots hw ?q region h ?r e" and ?s = "rx_handed_over hw i j d region h s"
  obtain w where found: "handler_context j (h, s) = (Inr (Some (?q, (RX, i), d)), (h, s))"
    and ready: "cpq_hw_regs ?q = Some w" "cpq_buf_region ?q = Some region" "j < length (nic_cqs s)" "i < length (nic_rxqs s)"
      "d < length (nic_ndevs s)" "ring_ok k ?r" "ring_backed hw k ?r" by (rule rx_cq_readyE [OF assms(2), where h = h])
  obtain result e pl where loop: "consume (\<lambda>p st. completion_valid hw ?q region p (fst st))
      (total (rx_completion_step hw ?q region (RX, i) d)) (cpq_cons_ptr ?q) (h, s) = Some (result, (h, ?s e pl))"
    and pl: "pool_uniform hw pl" and taken: "entries_taken hw ?q region h ?r e" "e \<le> cpq_cons_ptr ?q + 2 ^ m"
    and stop: "case result of
        Inl err \<Rightarrow> err = TypeError \<and> completion_valid hw ?q region e h \<and> \<not> names_packet hw ?q region h ?r e
      | Inr p \<Rightarrow> p = e \<and> \<not> completion_valid hw ?q region e h"
    by (rule rx_entries_run [OF assms(2), where h = h])
  note clear = clear_slots_ok [OF ready(6), of "?I e"]
  note handled = process_cq_run [OF found ready(2), where step = "rx_completion_step hw", OF loop]
  have s: "nic_rxqs (?s e pl) ! i = clear_slots (?I e) ?r" "i < length (nic_rxqs (?s e pl))" "nic_pool (?s e pl) = pl"
    "nic_cqs (?s e pl) = nic_cqs s" "nic_ndevs (?s e pl) ! d = deliver (map (delivered hw ?q region h ?r)
      [cpq_cons_ptr ?q..e - 1]) (nic_ndevs s ! d)"
    using ready(4,5) by (simp_all add: rx_handed_over_def upd_ndev_def)
  show ?thesis
  proof (cases result)
    case (Inl err)
    then have "process_rx_cq hw j (h, s) = Some (Inl err, (h, ?s e pl))" unfolding process_rx_cq_def by (rule handled(1))
    then show ?thesis using taken stop clear Inl by (auto simp: s deliver_def)
  next
    case (Inr p)
    then have p: "result = Inr e" using stop by simp
    let ?s1 = "upd_cq j (\<lambda>q. q\<lparr>cpq_cons_ptr := e\<rparr>) (?s e pl)"
    have t: "j < length (nic_cqs (?s e pl))" "cpq_hw_regs (nic_cqs (?s e pl) ! j) = Some w"
      "clear_slots (?I e) ?r = the_ring (fst (RX, i)) (snd (RX, i)) (?s e pl)" using ready s by simp_all
    obtain h1 c where run: "process_rx_cq hw j (h, s) = Some (refill_buffers hw i (h1, upd_ring RX i (ring_advance c) ?s1))"
      and c: "ring_ok k (ring_advance c (clear_slots (?I e) ?r))"
        "outstanding (ring_advance c (clear_slots (?I e) ?r)) = outstanding (clear_slots (?I e) ?r)"
      using handled(2) [where finish = "\<lambda>ring. refill_buffers hw (snd ring)", OF p assms(1) t clear(1)]
      unfolding process_rx_cq_def fst_conv snd_conv by blast
    have s1: "i < length (nic_rxqs ?s1)" "nic_rxqs ?s1 ! i = clear_slots (?I e) ?r" "pool_uniform hw (nic_pool ?s1)"
      "nic_cqs ?s1 ! j = ?q\<lparr>cpq_cons_ptr := e\<rparr>" "nic_ndevs ?s1 = nic_ndevs (?s e pl)"
      using s ready(3) pl by (simp_all add: upd_cq_def)
    have backed: "ring_backed hw k (clear_slots (?I e) ?r)"
      using ready(7) by (simp add: ring_backed_def clear_slots_def split: option.splits)
    obtain h' s' where "refill_buffers hw i (h1, upd_ring RX i (ring_advance c) ?s1) = (Inr (), (h', s'))"
      and s': "nic_cqs s' = nic_cqs ?s1" "nic_ndevs s' = nic_ndevs ?s1" "ring_ok k (nic_rxqs s' ! i)"
      "\<forall>p. p < rg_prod_ptr ?r \<longrightarrow> outstanding (nic_rxqs s' ! i) p = outstanding (clear_slots (?I e) ?r) p"
      "\<forall>p. rg_prod_ptr ?r \<le> p \<and> p < rg_prod_ptr (nic_rxqs s' ! i) \<longrightarrow> outstanding (nic_rxqs s' ! i) p \<noteq> None"
      "2 ^ k - 8 < rg_prod_ptr (nic_rxqs s' ! i) - rg_cons_ptr (nic_rxqs s' ! i)"
      by (rule refill_after_clean [OF assms(1) s1(1,2) c(1) backed s1(3) c(2), where h = h1,
            unfolded clear_slots_pointers(2)])
    with run have "process_rx_cq hw j (h, s) = Some (Inr (), (h', s'))" by simp
    then show ?thesis
      using taken stop p s' s1(4,5) s(5) clear(2)
      by (intro exI [of _ "Inr ()"] exI [of _ h'] exI [of _ s'] exI [of _ e]) (simp add: deliver_def)
  qed
qed

text \<open>The queue of \<open>completing_hw\<close> on a receive ring with one buffer.\<close>

definition receiving_nic :: "(nat \<times> int) nic" where
  "receiving_nic = completing_nic\<lparr>
     nic_cqs := [(nic_cqs completing_nic ! 0)\<lparr>cpq_src_ring := Some (RX, 0)\<rparr>],
     nic_rxqs := nic_txqs completing_nic\<rparr>"

lemma receiving_ready: "rx_cq_ready completing_hw 1 3 0 0 0 (0, 64) receiving_nic"
proof -
  let ?r = "nic_txqs completing_nic ! 0"
  have tx: "ring_ok 3 ?r" "from_pool (nic_pool completing_nic) ?r"
    using completing_ready(2) by (simp_all add: tx_cq_ready_def Let_def)
  have "ring_backed completing_hw 3 ?r"
    by (simp add: ring_backed_def completing_nic_def sample_ring_def completing_hw_def sample_hw_def MQNIC_DESC_SIZE_def)
  moreover have "pool_uniform completing_hw (nic_pool completing_nic)"
    by (simp add: pool_uniform_def completing_nic_def new_nic_def new_packet_pool_def completing_hw_def sample_hw_def)
  ultimately show ?thesis
    using tx by (simp add: rx_cq_ready_def receiving_nic_def) (simp add: completing_nic_def)
qed

theorem rx_completions_exact_witness:
  "\<exists>h' s'. process_rx_cq completing_hw 0 (0, receiving_nic) = Some (Inr (), (h', s')) \<and>
     length (ndv_pkt_rx_queue (nic_ndevs s' ! 0)) = 1 \<and> outstanding (nic_rxqs s' ! 0) 0 = None \<and>
     rg_cons_ptr (nic_rxqs s' ! 0) + 1 \<le> rg_prod_ptr (nic_rxqs s' ! 0)"
proof -
  let ?q = "nic_cqs receiving_nic ! 0" and ?r = "nic_rxqs receiving_nic ! 0"
  have q: "cpq_size ?q = 2" "cpq_size_mask ?q = 1" "cpq_stride ?q = 32" "cpq_cons_ptr ?q = 0"
    by (simp_all add: receiving_nic_def completing_nic_def new_completion_queue_def)
  note valid = completing_entries(1) [OF q(1-3), where region = "(0, 64)" and h = 0] and slot0 = completing_entries(2) [OF q(1-3)]
  have r: "slot_index ?r 0 = 0" "rg_info ?r ! 0 = Some (1, 16384)" "rg_prod_ptr ?r = 1"
    "ndv_pkt_rx_queue (nic_ndevs receiving_nic ! 0) = []"
    by (simp_all add: receiving_nic_def completing_nic_def slot_index_def sample_ring_def new_ring_def)
  have slot: "completed_slot completing_hw ?q (0, 64) 0 ?r 0 = 0" by (simp add: slot0 r(1))
  have names: "names_packet completing_hw ?q (0, 64) 0 ?r 0"
    by (simp add: names_packet_def completed_slots_def q(4) slot r(2))
  obtain result h' s' e where run: "process_rx_cq completing_hw 0 (0, receiving_nic) = Some (result, (h', s'))"
    and taken: "entries_taken completing_hw ?q (0, 64) 0 ?r e"
    and rx: "ndv_pkt_rx_queue (nic_ndevs s' ! 0) = ndv_pkt_rx_queue (nic_ndevs receiving_nic ! 0) @
      map (delivered completing_hw ?q (0, 64) 0 ?r) [cpq_cons_ptr ?q..e - 1]"
    and out: "\<forall>p. p < rg_prod_ptr ?r \<longrightarrow> outstanding (nic_rxqs s' ! 0) p =
      (if slot_index ?r p \<in> completed_slots completing_hw ?q (0, 64) 0 ?r e then None else outstanding ?r p)"
    and stop: "case result of
        Inl err \<Rightarrow> err = TypeError \<and> completion_valid completing_hw ?q (0, 64) e 0 \<and>
          \<not> names_packet completing_hw ?q (0, 64) 0 ?r e
      | Inr _ \<Rightarrow> \<not> completion_valid completing_hw ?q (0, 64) e 0 \<and> cpq_cons_ptr (nic_cqs s' ! 0) = e \<and>
         (\<forall>p. rg_prod_ptr ?r \<le> p \<and> p < rg_prod_ptr (nic_rxqs s' ! 0) \<longrightarrow> outstanding (nic_rxqs s' ! 0) p \<noteq> None) \<and>
         2 ^ 3 - 8 < rg_prod_ptr (nic_rxqs s' ! 0) - rg_cons_ptr (nic_rxqs s' ! 0)"
    using rx_completions_exact [OF completing_ready(1) receiving_ready, of 0] by blast
  have "0 \<le> e" "\<not> 1 < e" using taken valid [of 1] by (auto simp: entries_taken_def q(4))
  then have e: "e = 1" using stop valid [of e] names by (cases "e = 0") (auto split: sum.splits)
  then have res: "result = Inr ()" using stop valid [of 1] by (auto split: sum.splits)
  have "0 \<in> completed_slots completing_hw ?q (0, 64) 0 ?r e" using slot by (force simp: completed_slots_def q(4) e)
  then have "outstanding (nic_rxqs s' ! 0) 0 = None" using spec [OF out, of 0] by (simp add: r(1,3))
  moreover have "length (ndv_pkt_rx_queue (nic_ndevs s' ! 0)) = 1" by (simp add: rx r(4) q(4) e)
  ultimately show ?thesis using run res stop by auto
qed

end
