(* ===== verification/Nic_Service.thy ===== *)
theory Nic_Service
  imports Nic_Safety Nic_Completions
begin

text \<open>
  Serving an interrupt ends. The handler walks interfaces, event queues, events, completions and ring
  slots; all these loops are partial functions. While the hardware leaves the queues' memory alone,
  each of them stops within one lap, on every event and completion the memory may hold.
\<close>


section \<open>Operations that return\<close>

definition returnsp :: "('s \<Rightarrow> bool) \<Rightarrow> ('s \<Rightarrow> (('e + 'a) \<times> 's) option) \<Rightarrow> bool" where
  "returnsp I m \<longleftrightarrow> (\<forall>s. I s \<longrightarrow> (\<exists>r s'. m s = Some (r, s') \<and> I s'))"

named_theorems returnsp_intros \<open>operations that return, one rule per construct\<close>

lemma returnspD: "returnsp I m \<Longrightarrow> I s \<Longrightarrow> \<exists>r s'. m s = Some (r, s') \<and> I s'"
  unfolding returnsp_def by blast

lemma returnsp_Some [returnsp_intros]: "keeps I k \<Longrightarrow> returnsp I (\<lambda>s. Some (k s))"
  unfolding returnsp_def keeps_def by (metis surj_pair snd_conv)

lemma returnsp_total [returnsp_intros]: "keeps I (step p) \<Longrightarrow> returnsp I (total step p)"
  unfolding total_def by (rule returnsp_Some)

lemma returnsp_after [returnsp_intros]:
  assumes "returnsp I m" "\<And>p. returnsp I (f p)"
  shows "returnsp I (\<lambda>s. after (m s) f)"
  unfolding returnsp_def
proof (intro allI impI)
  fix s assume "I s"
  then obtain r s1 where m: "m s = Some (r, s1)" "I s1" using returnspD [OF assms(1)] by blast
  then show "\<exists>r s'. after (m s) f = Some (r, s') \<and> I s'"
    using returnspD [OF assms(2)] by (cases r) (auto simp: after_def)
qed

lemma returnsp_and_then [returnsp_intros]:
  assumes "returnsp I m" "keeps I k"
  shows "returnsp I (\<lambda>s. and_then (m s) k)"
  unfolding returnsp_def
proof (intro allI impI)
  fix s assume "I s"
  then obtain r s1 where m: "m s = Some (r, s1)" "I s1" using returnspD [OF assms(1)] by blast
  moreover obtain r2 s2 where "k s1 = (r2, s2)" by (metis surj_pair)
  moreover have "I s2" using calculation keepsD [OF assms(2)] by blast
  ultimately show "\<exists>r s'. and_then (m s) k = Some (r, s') \<and> I s'" by (cases r) (auto simp: and_then_def)
qed

lemma returnsp_in_turn [returnsp_intros]:
  "(\<And>x. x \<in> set xs \<Longrightarrow> returnsp I (f x)) \<Longrightarrow> returnsp I (in_turn f xs)"
proof (induction xs)
  case Nil
  then show ?case by (simp add: returnsp_def)
next
  case (Cons x xs)
  then have k: "returnsp I (f x)" "returnsp I (in_turn f xs)" by simp_all
  show ?case
    unfolding returnsp_def
  proof (intro allI impI)
    fix s assume "I s"
    then obtain a s1 where "f x s = Some (a, s1)" "I s1" using returnspD [OF k(1)] by blast
    then show "\<exists>r s'. in_turn f (x # xs) s = Some (r, s') \<and> I s'"
      using returnspD [OF k(2)] by (cases a) auto
  qed
qed

text \<open>A loop whose test depends on the pointer alone ends when the pointer reaches an end.\<close>

lemma consume_until:
  assumes step: "\<And>p. returnsp I (step p)" and test: "\<And>p s. I s \<Longrightarrow> busy p s \<longleftrightarrow> valid p"
    and stop: "\<not> valid (c + int n)"
  shows "returnsp I (consume busy step c)"
  unfolding returnsp_def
  using stop
proof (induction n arbitrary: c)
  case 0
  then show ?case using test by (subst consume.simps) auto
next
  case (Suc n)
  show ?case
  proof (intro allI impI)
    fix s assume s: "I s"
    show "\<exists>r s'. consume busy step c s = Some (r, s') \<and> I s'"
    proof (cases "busy c s")
      case True
      obtain r s1 where call: "step c s = Some (r, s1)" "I s1" using returnspD [OF step s] by blast
      have "\<not> valid (c + 1 + int n)" using Suc.prems by (simp add: algebra_simps)
      with Suc.IH [of "c + 1"] call(2) have "\<exists>r s'. consume busy step (c + 1) s1 = Some (r, s') \<and> I s'" by blast
      then show ?thesis using True call by (subst consume.simps) (cases r; auto)
    qed (use s in \<open>subst consume.simps, auto\<close>)
  qed
qed

text \<open>Every second lap of a queue reads as not valid, so a walk over it ends.\<close>

lemma returnsp_walk:
  assumes "\<And>p. returnsp I (step p)" "\<And>p s. I s \<Longrightarrow> busy p s \<longleftrightarrow> entry_valid hw region qsize mask1 stride p h0"
    and "qsize = 2 ^ m" "mask1 = 2 ^ m - 1"
  shows "returnsp I (consume busy step c)"
proof (cases "entry_valid hw region qsize mask1 stride c h0")
  case True
  then have "\<not> entry_valid hw region qsize mask1 stride (c + int (2 ^ m)) h0"
    using entry_valid_lap [of hw region m stride c h0] by (simp add: assms(3,4))
  from consume_until [where I = I and valid = "\<lambda>p. entry_valid hw region qsize mask1 stride p h0", OF assms(1,2) this]
  show ?thesis .
next
  case False
  then have "\<not> entry_valid hw region qsize mask1 stride (c + int 0) h0" by simp
  from consume_until [where I = I and valid = "\<lambda>p. entry_valid hw region qsize mask1 stride p h0", OF assms(1,2) this]
  show ?thesis .
qed


section \<open>The states the handler works on\<close>

text \<open>\<open>Q\<close> are the regions of the event and completion queues.\<close>

definition same_queues :: "('h, 'r) nic_hw \<Rightarrow> 'r set \<Rightarrow> 'h \<Rightarrow> 'h \<Rightarrow> bool" where
  "same_queues hw Q h0 h \<longleftrightarrow> (\<forall>x \<in> Q. \<forall>i n. hw_load hw x i n h = hw_load hw x i n h0)"

definition queues_left_alone :: "('h, 'r) nic_hw \<Rightarrow> 'r set \<Rightarrow> bool" where
  "queues_left_alone hw Q \<longleftrightarrow>
     (\<forall>a v h. same_queues hw Q h (snd (hw_write hw a v h))) \<and>
     (\<forall>n h. same_queues hw Q h (snd (hw_alloc_region hw n h))) \<and>
     (\<forall>x i bs h. x \<notin> Q \<longrightarrow> same_queues hw Q h (snd (hw_store hw x i bs h)))"

definition queue_shaped :: "'r set \<Rightarrow> 'r option \<Rightarrow> int \<Rightarrow> int \<Rightarrow> bool" where
  "queue_shaped Q region qsize mask1 \<longleftrightarrow>
     (\<forall>x. region = Some x \<longrightarrow> x \<in> Q \<and> (\<exists>m. qsize = 2 ^ m \<and> mask1 = 2 ^ m - 1))"

definition eq_shaped :: "'r set \<Rightarrow> 'r nic \<Rightarrow> 'r event_queue \<Rightarrow> bool" where
  "eq_shaped Q s q \<longleftrightarrow>
     queue_shaped Q (evq_buf_region q) (evq_size q) (evq_size_mask q) \<and>
     (\<forall>cqn j. (cqn, j) \<in> set (evq_cq_table q) \<longrightarrow> j < length (nic_cqs s))"

definition cq_shaped :: "'r set \<Rightarrow> 'r nic \<Rightarrow> 'r completion_queue \<Rightarrow> bool" where
  "cq_shaped Q s q \<longleftrightarrow>
     queue_shaped Q (cpq_buf_region q) (cpq_size q) (cpq_size_mask q) \<and>
     (\<forall>k i. cpq_src_ring q = Some (k, i) \<longrightarrow> i < length (rings k s) \<and> cpq_handler q = Some k)"

definition ring_shaped :: "'r set \<Rightarrow> 'r ring \<Rightarrow> bool" where
  "ring_shaped Q r \<longleftrightarrow> rg_cons_ptr r \<le> rg_prod_ptr r \<and> (\<forall>x. rg_buf_region r = Some x \<longrightarrow> x \<notin> Q)"

definition serviceable :: "'r set \<Rightarrow> 'r nic \<Rightarrow> bool" where
  "serviceable Q s \<longleftrightarrow>
     (\<forall>i \<in> set (nic_eq s). i < length (nic_eqs s)) \<and> (\<forall>q \<in> set (nic_eqs s). eq_shaped Q s q) \<and>
     (\<forall>q \<in> set (nic_cqs s). cq_shaped Q s q) \<and> (\<forall>k. \<forall>r \<in> set (rings k s). ring_shaped Q r)"

definition same_lengths :: "'r nic \<Rightarrow> 'r nic \<Rightarrow> bool" where
  "same_lengths s s' \<longleftrightarrow>
     nic_eq s' = nic_eq s \<and> length (nic_eqs s') = length (nic_eqs s) \<and> length (nic_cqs s') = length (nic_cqs s) \<and>
     (\<forall>k. length (rings k s') = length (rings k s))"

definition in_service :: "('h, 'r) nic_hw \<Rightarrow> 'r set \<Rightarrow> 'h \<Rightarrow> 'r nic \<Rightarrow> 'h \<times> 'r nic \<Rightarrow> bool" where
  "in_service hw Q h0 s0 st \<longleftrightarrow>
     same_queues hw Q h0 (fst st) \<and> serviceable Q (snd st) \<and> same_lengths s0 (snd st)"

lemma shaped_cong:
  assumes "same_lengths s s'"
  shows "eq_shaped Q s' q = eq_shaped Q s q" "cq_shaped Q s' c = cq_shaped Q s c"
  using assms by (simp_all add: same_lengths_def eq_shaped_def cq_shaped_def)

lemma same_lengths_trans: "same_lengths a b \<Longrightarrow> same_lengths b c \<Longrightarrow> same_lengths a c"
  by (simp add: same_lengths_def)

lemma same_queues_trans: "same_queues hw Q a b \<Longrightarrow> same_queues hw Q b c \<Longrightarrow> same_queues hw Q a c"
  by (simp add: same_queues_def)

lemma Ball_list_update: "(\<forall>x \<in> set xs. P x) \<Longrightarrow> (\<And>x. P x \<Longrightarrow> P (f x)) \<Longrightarrow> \<forall>x \<in> set (xs[i := f (xs ! i)]). P x"
  by (cases "i < length xs") (auto simp: list_update_beyond dest!: set_update_subset_insert [THEN subsetD])

lemma serviceable_parts:
  assumes "serviceable Q s" "same_lengths s s'"
    and "\<forall>q \<in> set (nic_eqs s'). eq_shaped Q s q" "\<forall>q \<in> set (nic_cqs s'). cq_shaped Q s q"
    and "\<And>k. \<forall>r \<in> set (rings k s'). ring_shaped Q r"
  shows "serviceable Q s'"
  using assms unfolding serviceable_def by (simp add: shaped_cong [OF assms(2)]) (simp add: same_lengths_def)

lemma same_lengths_refl [simp]: "same_lengths s s"
  by (simp add: same_lengths_def)


section \<open>Operations that keep them\<close>

named_theorems service_intros \<open>operations that leave the queues' shape and memory\<close>

lemma service_updates:
  assumes "\<And>s. serviceable Q s \<Longrightarrow> serviceable Q (f s) \<and> same_lengths s (f s)"
  shows "keeps (in_service hw Q h0 s0) (updates f)"
  unfolding updates_def
  by (rule keeps_amodify) (auto simp: in_service_def assms intro: same_lengths_trans [OF _ conjunct2 [OF assms]])

lemma service_upd_eq [service_intros]: "keeps (in_service hw Q h0 s0) (updates (upd_eq i (\<lambda>q. q\<lparr>evq_cons_ptr := p\<rparr>)))"
proof (rule service_updates)
  fix s assume s: "serviceable Q s"
  let ?s = "upd_eq i (\<lambda>q. q\<lparr>evq_cons_ptr := p\<rparr>) s"
  have rings: "rings k ?s = rings k s" for k by (cases k) (simp_all add: upd_eq_def)
  have len: "same_lengths s ?s" by (simp add: same_lengths_def rings) (simp add: upd_eq_def)
  have "nic_eqs ?s = (nic_eqs s)[i := (\<lambda>q. q\<lparr>evq_cons_ptr := p\<rparr>) (nic_eqs s ! i)]" by (simp add: upd_eq_def)
  moreover have "\<forall>q \<in> set (nic_eqs s). eq_shaped Q s q" using s by (simp add: serviceable_def)
  ultimately have "\<forall>q \<in> set (nic_eqs ?s). eq_shaped Q s q"
    using Ball_list_update [of "nic_eqs s" "eq_shaped Q s" "\<lambda>q. q\<lparr>evq_cons_ptr := p\<rparr>" i] by (simp add: eq_shaped_def)
  with len s show "serviceable Q ?s \<and> same_lengths s ?s"
    by (intro conjI serviceable_parts [OF s len]) (simp_all add: serviceable_def rings, simp add: upd_eq_def)
qed

lemma service_upd_cq [service_intros]: "keeps (in_service hw Q h0 s0) (updates (upd_cq i (\<lambda>q. q\<lparr>cpq_cons_ptr := p\<rparr>)))"
proof (rule service_updates)
  fix s assume s: "serviceable Q s"
  let ?s = "upd_cq i (\<lambda>q. q\<lparr>cpq_cons_ptr := p\<rparr>) s"
  have rings: "rings k ?s = rings k s" for k by (cases k) (simp_all add: upd_cq_def)
  have len: "same_lengths s ?s" by (simp add: same_lengths_def rings) (simp add: upd_cq_def)
  have "nic_cqs ?s = (nic_cqs s)[i := (\<lambda>q. q\<lparr>cpq_cons_ptr := p\<rparr>) (nic_cqs s ! i)]" by (simp add: upd_cq_def)
  moreover have "\<forall>q \<in> set (nic_cqs s). cq_shaped Q s q" using s by (simp add: serviceable_def)
  ultimately have "\<forall>q \<in> set (nic_cqs ?s). cq_shaped Q s q"
    using Ball_list_update [of "nic_cqs s" "cq_shaped Q s" "\<lambda>q. q\<lparr>cpq_cons_ptr := p\<rparr>" i] by (simp add: cq_shaped_def)
  with len s show "serviceable Q ?s \<and> same_lengths s ?s"
    by (intro conjI serviceable_parts [OF s len]) (simp_all add: serviceable_def rings, simp add: upd_cq_def)
qed

lemma service_upd_ring [service_intros]:
  assumes "\<And>r. ring_shaped Q r \<Longrightarrow> ring_shaped Q (g r)"
  shows "keeps (in_service hw Q h0 s0) (updates (upd_ring k i g))"
proof (rule service_updates)
  fix s assume s: "serviceable Q s"
  let ?s = "upd_ring k i g s"
  have len: "same_lengths s ?s" by (simp add: same_lengths_def rings_upd_ring) (cases k; simp)
  have "\<forall>r \<in> set (rings k' ?s). ring_shaped Q r" for k'
    using s Ball_list_update [of "rings k s" "ring_shaped Q" g i] assms by (simp add: rings_upd_ring serviceable_def)
  moreover have "nic_eqs ?s = nic_eqs s" "nic_cqs ?s = nic_cqs s" by (cases k; simp)+
  ultimately show "serviceable Q ?s \<and> same_lengths s ?s"
    using s len by (intro conjI serviceable_parts [OF s len]) (simp_all add: serviceable_def)
qed

lemma service_same_parts:
  assumes "\<And>s. nic_eq (f s) = nic_eq s \<and> nic_eqs (f s) = nic_eqs s \<and> nic_cqs (f s) = nic_cqs s \<and>
    nic_txqs (f s) = nic_txqs s \<and> nic_rxqs (f s) = nic_rxqs s"
  shows "serviceable Q (f s) = serviceable Q s" "same_lengths s (f s)"
proof -
  have rings: "rings k (f s) = rings k s" for k using assms by (cases k) simp_all
  show len: "same_lengths s (f s)" using assms by (simp add: same_lengths_def rings)
  show "serviceable Q (f s) = serviceable Q s" using assms by (simp add: serviceable_def shaped_cong [OF len] rings)
qed

lemma service_untouched [simp]:
  "serviceable Q (s\<lparr>nic_pool := pl\<rparr>) = serviceable Q s" "same_lengths s (s\<lparr>nic_pool := pl\<rparr>)"
  "serviceable Q (upd_ndev d u s) = serviceable Q s" "same_lengths s (upd_ndev d u s)"
  by (rule service_same_parts [where f = "\<lambda>s. s\<lparr>nic_pool := pl\<rparr>"], simp,
      rule service_same_parts [where f = "\<lambda>s. s\<lparr>nic_pool := pl\<rparr>"], simp,
      rule service_same_parts [where f = "upd_ndev d u"], simp add: upd_ndev_def,
      rule service_same_parts [where f = "upd_ndev d u"], simp add: upd_ndev_def)

lemma service_irrelevant [service_intros]:
  "keeps (in_service hw Q h0 s0) (updates (upd_ndev d u))" "keeps (in_service hw Q h0 s0) (updates (\<lambda>s. s\<lparr>nic_pool := pl\<rparr>))"
  by (rule service_updates, simp)+

lemma service_hardware:
  assumes "\<And>h. same_queues hw Q h (snd (f h))"
  shows "keeps (in_service hw Q h0 s0) (hardware f)"
  unfolding keeps_def hardware_def in_service_def
  using assms by (auto split: prod.splits) (metis same_queues_trans snd_conv)

lemma service_registers [service_intros]:
  assumes "queues_left_alone hw Q"
  shows "keeps (in_service hw Q h0 s0) (reg_write hw a v)"
    "x \<notin> Q \<Longrightarrow> keeps (in_service hw Q h0 s0) (mem_store hw x i bs)"
  unfolding reg_write_def mem_store_def using assms by (intro service_hardware; simp add: queues_left_alone_def)+

lemma service_reads [service_intros]: "keeps (in_service hw Q h0 s0) (reads f)" "keeps (in_service hw Q h0 s0) (need_window w)"
  "keeps (in_service hw Q h0 s0) (mem_load hw x i n)"
  by (simp_all add: reads_def need_window_def mem_load_def keeps_aget keeps_aneed)

lemma service_take_pkt [service_intros]:
  assumes "queues_left_alone hw Q"
  shows "keeps (in_service hw Q h0 s0) (take_pkt hw)"
  unfolding keeps_def
proof (intro allI impI)
  fix st assume st: "in_service hw Q h0 s0 st"
  obtain r h' pl where run: "alloc_pkt (hw_alloc_region hw) (fst st, nic_pool (snd st)) = (r, (h', pl))" by (metis prod_cases3)
  then have "h' = fst st \<or> (\<exists>n. h' = snd (hw_alloc_region hw n (fst st)))"
    by (cases "hw_alloc_region hw (pl_pkt_buf_size (nic_pool (snd st))) (fst st)")
      (simp add: alloc_pkt_def split: list.splits sum.splits, (metis snd_conv)+)
  then have "same_queues hw Q (fst st) h'" using assms by (auto simp: queues_left_alone_def same_queues_def)
  then have "same_queues hw Q h0 h'" using st by (auto simp: in_service_def intro: same_queues_trans)
  moreover have "same_lengths s0 ((snd st)\<lparr>nic_pool := pl\<rparr>)"
    using st by (auto simp: in_service_def intro: same_lengths_trans [OF _ service_untouched(2)])
  ultimately show "in_service hw Q h0 s0 (snd (take_pkt hw st))"
    using run st by (cases st) (simp add: take_pkt_def in_service_def)
qed

lemma keeps_reads:
  assumes "\<And>h s. I (h, s) \<Longrightarrow> keeps I (g (f s))"
  shows "keeps I (abind (reads f) g)"
  using assms by (auto simp: keeps_def abind_def reads_def)

lemma service_free_desc [service_intros]: "keeps (in_service hw Q h0 s0) (free_desc k i index)"
  unfolding free_desc_def give_pkt_def by (intro keeps_intros service_intros) (simp add: ring_shaped_def)

lemma service_pointers [service_intros]:
  assumes "queues_left_alone hw Q"
  shows "keeps (in_service hw Q h0 s0) (cpq_write_cons_ptr hw j)" "keeps (in_service hw Q h0 s0) (evq_write_cons_ptr hw i)"
    "keeps (in_service hw Q h0 s0) (cpq_arm hw j)" "keeps (in_service hw Q h0 s0) (evq_arm hw i)"
    "keeps (in_service hw Q h0 s0) (ring_write_prod_ptr hw k i)"
  unfolding cpq_write_cons_ptr_def evq_write_cons_ptr_def cpq_arm_def evq_arm_def ring_write_prod_ptr_def
  by (intro keeps_intros service_intros assms)+

lemma shaped_ring:
  "in_service hw Q h0 s0 (h, s) \<Longrightarrow> i < length (rings k s0) \<Longrightarrow> ring_shaped Q (the_ring k i s)"
  unfolding in_service_def serviceable_def same_lengths_def the_ring_rings snd_conv by (metis nth_mem)

lemma service_prepare_desc [service_intros]:
  assumes alone: "queues_left_alone hw Q" and i: "i < length (rings RX s0)"
  shows "keeps (in_service hw Q h0 s0) (prepare_desc hw i index)"
  unfolding prepare_desc_def
proof (rule keeps_abind, rule service_take_pkt [OF alone], rule keeps_reads)
  fix pkt h s assume "in_service hw Q h0 s0 (h, s)"
  then have "ring_shaped Q (the_ring RX i s)" by (rule shaped_ring [OF _ i])
  then show "keeps (in_service hw Q h0 s0) (athen (aguard (nat index < length (rg_info (the_ring RX i s))) IndexError)
      (athen (updates (upd_ring RX i (\<lambda>r. r\<lparr>rg_info := (rg_info r)[nat index := Some pkt]\<rparr>)))
        (abind (aneed TypeError (rg_buf_region (the_ring RX i s))) (\<lambda>region.
          afor (enumerate 0 (rx_segments (nat (rg_desc_block_size (the_ring RX i s))) (hw_size hw pkt) 0)) (\<lambda>(n, seg).
            abind (alift (rx_descriptor (hw_address hw pkt) seg)) (\<lambda>bs.
              mem_store hw region (index * rg_stride (the_ring RX i s) + int n * MQNIC_DESC_SIZE) bs))))))"
    by (cases "rg_buf_region (the_ring RX i s)")
      (auto simp: ring_shaped_def intro!: keeps_intros service_intros alone)
qed

lemma service_refill [service_intros]:
  assumes "queues_left_alone hw Q" "i < length (rings RX s0)"
  shows "keeps (in_service hw Q h0 s0) (refill_buffers hw i)"
  unfolding refill_buffers_def refill_one_def
  by (intro keeps_intros service_intros assms) (simp add: ring_shaped_def)

lemma service_steps [service_intros]:
  "keeps (in_service hw Q h0 s0) (tx_completion_step hw q region ring p)"
  "keeps (in_service hw Q h0 s0) (rx_completion_step hw q region ring d p)"
  unfolding tx_completion_step_def rx_completion_step_def by (intro keeps_intros service_intros)+


section \<open>The loops of the handler\<close>

lemma entry_valid_same:
  "same_queues hw Q h0 h \<Longrightarrow> x \<in> Q \<Longrightarrow>
     entry_valid hw x qsize mask1 stride p h = entry_valid hw x qsize mask1 stride p h0"
  by (simp add: entry_valid_def entry_bytes_def same_queues_def)

lemma clean_ring_returns:
  assumes "i < length (rings k s0)"
  shows "returnsp (in_service hw Q h0 s0) (clean_ring (k, i))"
  unfolding returnsp_def
proof (intro allI impI)
  fix st assume st: "in_service hw Q h0 s0 st"
  let ?r = "the_ring k i (snd st)"
  have "ring_shaped Q ?r" using shaped_ring [of hw Q h0 s0 "fst st" "snd st"] st assms by simp
  then have "rg_cons_ptr ?r \<le> rg_prod_ptr ?r" by (simp add: ring_shaped_def)
  from skip_free_returns [OF this] obtain c where
    c: "skip_free (rg_info ?r) (rg_size_mask ?r) (rg_prod_ptr ?r) (rg_cons_ptr ?r) = Some c" "c \<le> rg_prod_ptr ?r" by blast
  define f where "f = (\<lambda>r. if r = ?r then r\<lparr>rg_cons_ptr := c\<rparr> else r)"
  have f: "keeps (in_service hw Q h0 s0) (updates (upd_ring k i f))"
    using c(2) by (intro service_intros) (simp add: f_def ring_shaped_def)
  have "updates (upd_ring k i f) st = (Inr (), (fst st, upd_ring k i f (snd st)))" by (cases st) (simp add: updates_def)
  moreover have "upd_ring k i f (snd st) = upd_ring k i (\<lambda>r. r\<lparr>rg_cons_ptr := c\<rparr>) (snd st)"
    by (cases k) (simp_all add: f_def)
  ultimately have "in_service hw Q h0 s0 (fst st, upd_ring k i (\<lambda>r. r\<lparr>rg_cons_ptr := c\<rparr>) (snd st))"
    using keepsD [OF f st] by simp
  moreover have "clean_ring (k, i) st = Some (Inr (), (fst st, upd_ring k i (\<lambda>r. r\<lparr>rg_cons_ptr := c\<rparr>) (snd st)))"
    using c(1) by (cases st) (simp add: clean_ring_def updates_def)
  ultimately show "\<exists>r s'. clean_ring (k, i) st = Some (r, s') \<and> in_service hw Q h0 s0 s'" by blast
qed

lemma process_cq_returns:
  assumes alone: "queues_left_alone hw Q" and j: "j < length (nic_cqs s0)"
    and step: "\<And>q region ring d p. keeps (in_service hw Q h0 s0) (step q region ring d p)"
    and finish: "\<And>i. i < length (rings k s0) \<Longrightarrow> keeps (in_service hw Q h0 s0) (finish (k, i))"
    and st: "in_service hw Q h0 s0 st" "cpq_handler (nic_cqs (snd st) ! j) = Some k"
  shows "\<exists>r s'. process_cq hw step finish j st = Some (r, s') \<and> in_service hw Q h0 s0 s'"
proof -
  let ?I = "in_service hw Q h0 s0" and ?q = "nic_cqs (snd st) ! j"
  obtain c where ctx: "handler_context j st = (c, st)" using handler_context_run(1) [of j st] by (metis surj_pair snd_conv)
  show ?thesis
  proof (cases "\<exists>q ring d region. c = Inr (Some (q, ring, d)) \<and> cpq_buf_region q = Some region")
    case False
    then show ?thesis using ctx st(1) by (cases st) (auto simp: process_cq_def split: sum.splits option.splits)
  next
    case True
    then obtain q ring d region where c: "c = Inr (Some (q, ring, d))" "cpq_buf_region q = Some region" by blast
    then have q: "q = ?q" "cpq_src_ring q = Some ring" using handler_context_run(2) ctx by blast+
    have "j < length (nic_cqs (snd st))" using st(1) j by (simp add: in_service_def same_lengths_def)
    then have shaped: "cq_shaped Q (snd st) q" using st(1) q(1) by (simp add: in_service_def serviceable_def)
    obtain i where ring: "ring = (k, i)" "i < length (rings k s0)"
      using shaped st q by (cases ring) (auto simp: cq_shaped_def in_service_def same_lengths_def)
    obtain m where m: "region \<in> Q" "cpq_size q = 2 ^ m" "cpq_size_mask q = 2 ^ m - 1"
      using shaped c(2) by (auto simp: cq_shaped_def queue_shaped_def)
    have loop: "returnsp ?I (consume (\<lambda>p st. completion_valid hw q region p (fst st)) (total (step q region ring d)) (cpq_cons_ptr q))"
      by (rule returnsp_walk [OF returnsp_total [OF step] _ m(2,3), where ?h0.0 = h0 and hw = hw and region = region and stride = "cpq_stride q"])
        (simp add: completion_valid_def entry_valid_same [OF _ m(1)] in_service_def)
    have rest: "returnsp ?I (\<lambda>st2. case athen (updates (upd_cq j (\<lambda>q. q\<lparr>cpq_cons_ptr := p\<rparr>))) (cpq_write_cons_ptr hw j) st2 of
          (Inl e, st3) \<Rightarrow> Some (Inl e, st3)
        | (Inr _, st3) \<Rightarrow> Option.bind (clean_ring ring st3) (\<lambda>(r, st4). Some (finish ring st4)))" for p
      unfolding returnsp_def
    proof (intro allI impI)
      fix st2 assume st2: "?I st2"
      let ?m = "athen (updates (upd_cq j (\<lambda>q. q\<lparr>cpq_cons_ptr := p\<rparr>))) (cpq_write_cons_ptr hw j)"
      obtain r3 st3 where mid: "?m st2 = (r3, st3)" by (metis surj_pair)
      have "keeps ?I ?m" by (intro keeps_intros service_intros alone)
      then have st3: "?I st3" using st2 mid by (rule keepsD)
      obtain r4 st4 where clean: "clean_ring ring st3 = Some (r4, st4)" "?I st4"
        using returnspD [OF clean_ring_returns [OF ring(2)] st3] by (auto simp: ring(1))
      obtain r5 st5 where "finish ring st4 = (r5, st5)" by (metis surj_pair)
      moreover from this have "?I st5" using clean(2) keepsD [OF finish [OF ring(2)]] by (simp add: ring(1))
      ultimately show "\<exists>r s'. (case ?m st2 of (Inl e, st3) \<Rightarrow> Some (Inl e, st3)
          | (Inr _, st3) \<Rightarrow> Option.bind (clean_ring ring st3) (\<lambda>(r, st4). Some (finish ring st4))) = Some (r, s') \<and> ?I s'"
        using mid st3 clean(1) by (cases r3) simp_all
    qed
    show ?thesis
      using returnspD [OF returnsp_after [OF loop rest] st(1)] ctx c by (simp add: process_cq_def)
  qed
qed

lemma run_handler_returns:
  assumes alone: "queues_left_alone hw Q" and j: "j < length (nic_cqs s0)" and st: "in_service hw Q h0 s0 st"
  shows "\<exists>r s'. run_handler hw (cpq_handler (nic_cqs (snd st) ! j)) j st = Some (r, s') \<and> in_service hw Q h0 s0 s'"
proof (cases "cpq_handler (nic_cqs (snd st) ! j)")
  case None
  with st show ?thesis by simp
next
  case (Some k)
  have tx: "keeps (in_service hw Q h0 s0) (updates (upd_ring TX i (\<lambda>r. r\<lparr>rg_clean_event := True\<rparr>)))" for i
    by (intro service_intros) (simp add: ring_shaped_def)
  show ?thesis
  proof (cases k)
    case TX
    then show ?thesis
      using process_cq_returns [OF alone j _ _ st, where k = TX and step = "\<lambda>q region ring d. tx_completion_step hw q region ring"
          and finish = "\<lambda>ring. updates (upd_ring (fst ring) (snd ring) (\<lambda>r. r\<lparr>rg_clean_event := True\<rparr>))"] Some tx
      by (simp add: process_tx_cq_def service_steps)
  next
    case RX
    then show ?thesis
      using process_cq_returns [OF alone j _ _ st, where k = RX and step = "rx_completion_step hw"
          and finish = "\<lambda>ring. refill_buffers hw (snd ring)"] Some
      by (simp add: process_rx_cq_def service_steps service_refill [OF alone])
  qed
qed

lemma event_step_returns:
  assumes "queues_left_alone hw Q" "\<forall>cqn j. (cqn, j) \<in> set (evq_cq_table q) \<longrightarrow> j < length (nic_cqs s0)"
  shows "returnsp (in_service hw Q h0 s0) (event_step hw q region p)"
  unfolding returnsp_def
proof (intro allI impI)
  fix st assume st: "in_service hw Q h0 s0 st"
  let ?n = "le_field 2 2 (event_bytes hw q region p (fst st))"
  show "\<exists>r s'. event_step hw q region p st = Some (r, s') \<and> in_service hw Q h0 s0 s'"
  proof (cases "dget (evq_cq_table q) ?n")
    case None
    with st show ?thesis by (simp add: event_step_def Let_def del: split_paired_Ex)
  next
    case (Some j)
    then have "j < length (nic_cqs s0)" using assms(2) dget_in_set by fast
    from run_handler_returns [OF assms(1) this st] obtain r s1 where
      run: "run_handler hw (cpq_handler (nic_cqs (snd st) ! j)) j st = Some (r, s1)" "in_service hw Q h0 s0 s1" by blast
    obtain r2 s2 where arm: "cpq_arm hw j s1 = (r2, s2)" by (metis surj_pair)
    then have "in_service hw Q h0 s0 s2" using run(2) keepsD [OF service_pointers(3) [OF assms(1)]] by blast
    with run arm st Some show ?thesis
      by (cases r) (simp_all add: event_step_def and_then_def Let_def del: split_paired_Ex)
  qed
qed

lemma serve_eq_returns:
  assumes alone: "queues_left_alone hw Q" and i: "i < length (nic_eqs s0)"
  shows "returnsp (in_service hw Q h0 s0) (serve_eq hw irq i)"
proof -
  let ?I = "in_service hw Q h0 s0"
  have eq: "returnsp ?I (process_eq hw i)"
    unfolding returnsp_def
  proof (intro allI impI)
    fix st assume st: "?I st"
    let ?q = "nic_eqs (snd st) ! i"
    have shaped: "eq_shaped Q (snd st) ?q"
      using st i by (simp add: in_service_def serviceable_def same_lengths_def)
    then have table: "\<forall>cqn j. (cqn, j) \<in> set (evq_cq_table ?q) \<longrightarrow> j < length (nic_cqs s0)"
      using st by (simp add: eq_shaped_def in_service_def same_lengths_def)
    show "\<exists>r s'. process_eq hw i st = Some (r, s') \<and> ?I s'"
    proof (cases "evq_buf_region ?q")
      case None
      with st show ?thesis by (simp add: process_eq_def Let_def)
    next
      case (Some region)
      obtain m where m: "region \<in> Q" "evq_size ?q = 2 ^ m" "evq_size_mask ?q = 2 ^ m - 1"
        using shaped Some by (auto simp: eq_shaped_def queue_shaped_def)
      have loop: "returnsp ?I (consume (\<lambda>p st. event_valid hw ?q region p (fst st)) (event_step hw ?q region) (evq_cons_ptr ?q))"
        by (rule returnsp_walk [OF event_step_returns [OF alone table] _ m(2,3), where ?h0.0 = h0 and hw = hw and region = region and stride = "evq_stride ?q"])
          (simp add: event_valid_def entry_valid_same [OF _ m(1)] in_service_def)
      have "returnsp ?I (\<lambda>st'. Some (athen (updates (upd_eq i (\<lambda>q. q\<lparr>evq_cons_ptr := p\<rparr>))) (evq_write_cons_ptr hw i) st'))" for p
        by (intro returnsp_intros keeps_intros service_intros alone)
      from returnspD [OF returnsp_after [OF loop this] st] Some show ?thesis by (simp add: process_eq_def Let_def)
    qed
  qed
  show ?thesis
    unfolding returnsp_def
  proof (intro allI impI)
    fix st assume st: "?I st"
    show "\<exists>r s'. serve_eq hw irq i st = Some (r, s') \<and> ?I s'"
      using returnspD [OF returnsp_and_then [OF eq service_pointers(4) [OF alone]] st] st
      by (simp add: serve_eq_def del: split_paired_Ex)
  qed
qed


section \<open>Interrupts\<close>

text \<open>
  C31. Interrupts end: on interfaces whose queues have a power of two of entries and whose indices
  name objects of the right kind, with rings that have not been overrun, and while the hardware leaves
  the memory of the event and completion queues alone, serving an interrupt returns, on whatever
  events and completions that memory holds, whether or not an operation raises; and it leaves the
  interfaces such that the next one does too.
\<close>

theorem interrupts_end:
  fixes d :: "'r driver"
  assumes "queues_left_alone hw Q" "\<forall>s \<in> set (drv_interfaces d). serviceable Q s"
  shows "\<exists>r h' d'. interrupt_handler hw irq (h, d) = Some (r, (h', d')) \<and>
    (\<forall>s \<in> set (drv_interfaces d'). serviceable Q s) \<and> same_queues hw Q h h'"
proof -
  let ?n = "length (drv_interfaces d)"
  let ?I = "\<lambda>st :: 'a \<times> 'r driver. same_queues hw Q h (fst st) \<and> length (drv_interfaces (snd st)) = ?n \<and>
    (\<forall>s \<in> set (drv_interfaces (snd st)). serviceable Q s)"
  have one: "returnsp ?I (\<lambda>st. on_interface k (in_turn (serve_eq hw irq) (nic_eq (drv_interfaces (snd st) ! k))) st)"
    if k: "k < ?n" for k
    unfolding returnsp_def
  proof (intro allI impI)
    fix st assume st: "?I st"
    let ?s = "enter_interface k (snd st)"
    have s: "serviceable Q ?s" using st k by (simp add: enter_interface_def)
    then have start: "in_service hw Q h ?s (fst st, ?s)" using st by (simp add: in_service_def)
    have eqs: "i < length (nic_eqs ?s)" if "i \<in> set (nic_eq (drv_interfaces (snd st) ! k))" for i
      using s that by (simp add: serviceable_def enter_interface_def)
    have "returnsp (in_service hw Q h ?s) (in_turn (serve_eq hw irq) (nic_eq (drv_interfaces (snd st) ! k)))"
      by (intro returnsp_in_turn serve_eq_returns assms(1) eqs)
    from returnspD [OF this start] obtain r h' s' where
      run: "in_turn (serve_eq hw irq) (nic_eq (drv_interfaces (snd st) ! k)) (fst st, ?s) = Some (r, (h', s'))"
      and s': "in_service hw Q h ?s (h', s')" by (metis surj_pair)
    then have "?I (h', leave_interface k s' (snd st))"
      using st by (auto simp: leave_interface_def in_service_def dest!: set_update_subset_insert [THEN subsetD])
    with run show "\<exists>r s'. on_interface k (in_turn (serve_eq hw irq) (nic_eq (drv_interfaces (snd st) ! k))) st = Some (r, s') \<and> ?I s'"
      by (intro exI [of _ r] exI [of _ "(h', leave_interface k s' (snd st))"]) (simp add: on_interface_def)
  qed
  have "returnsp ?I (in_turn (\<lambda>k st. on_interface k (in_turn (serve_eq hw irq) (nic_eq (drv_interfaces (snd st) ! k))) st) [0..<?n])"
    by (intro returnsp_in_turn one) simp
  moreover have "?I (h, d)" using assms(2) by (simp add: same_queues_def)
  ultimately show ?thesis using returnspD [of ?I _ "(h, d)"] by (fastforce simp: interrupt_handler_def)
qed

text \<open>
  The interface of \<open>completing_nic\<close> with an event queue in front of it: the event the hardware has
  written names its completion queue.
\<close>

definition eventful_driver :: "(nat \<times> int) driver" where
  "eventful_driver = (new_driver 0)\<lparr>drv_interfaces := [completing_nic\<lparr>
     nic_eq := [0],
     nic_eqs := [new_event_queue\<lparr>evq_size := 2, evq_size_mask := 1, evq_stride := 32, evq_buf_region := Some (0, 64),
       evq_irq := Some 3, evq_cq_table := [(0, 0)], evq_hw_regs := Some 0\<rparr>],
     nic_cqs := [(nic_cqs completing_nic ! 0)\<lparr>cpq_handler := Some TX\<rparr>]\<rparr>]\<rparr>"

theorem interrupts_end_witness:
  "\<exists>r h' d'. interrupt_handler completing_hw 3 (0, eventful_driver) = Some (r, (h', d')) \<and>
    (\<forall>s \<in> set (drv_interfaces d'). serviceable {(0, 64)} s)"
proof -
  have alone: "queues_left_alone completing_hw {(0, 64)}"
    by (simp add: queues_left_alone_def same_queues_def completing_hw_def)
  have two: "\<exists>m. (2 :: int) = 2 ^ m \<and> (1 :: int) = 2 ^ m - 1" by (intro exI [of _ 1]) simp
  have "\<forall>r \<in> set (rings k s). ring_shaped {(0, 64)} r" if "s \<in> set (drv_interfaces eventful_driver)" for k s
    using that by (cases k) (simp_all add: eventful_driver_def completing_nic_def new_nic_def sample_ring_def new_ring_def
        ring_shaped_def)
  then have "\<forall>s \<in> set (drv_interfaces eventful_driver). serviceable {(0, 64)} s"
    using two by (simp add: serviceable_def) (simp add: eventful_driver_def completing_nic_def new_nic_def eq_shaped_def cq_shaped_def
        queue_shaped_def new_event_queue_def new_completion_queue_def)
  from interrupts_end [OF alone this, of 3 0] show ?thesis by blast
qed

end
