(* ===== verification/Nic_Scheduling.thy ===== *)
theory Nic_Scheduling
  imports Nic_Driver
begin

text \<open>
  Schedulers of the NIC on registers that keep what is written to them: the control register follows
  the count of clients that have enabled the scheduler, and a data limit is read back rounded up to
  the units the hardware keeps it in, without touching any other channel.
\<close>


section \<open>Registers that keep what is written\<close>

definition register_bank :: "('h, 'r) nic_hw \<Rightarrow> ('h \<Rightarrow> int \<Rightarrow> 32 word) \<Rightarrow> bool" where
  "register_bank hw peek \<longleftrightarrow>
     (\<forall>a h. hw_read hw a h = (peek h a, h)) \<and>
     (\<forall>a v h. 0 \<le> v \<and> v < 2 ^ 32 \<longrightarrow>
        (\<exists>h'. hw_write hw a v h = (Inr (), h') \<and> peek h' = (peek h)(a := word_of_int v)))"

lemma bank_read: "register_bank hw peek \<Longrightarrow> reg_read hw a (h, s) = (Inr (uint (peek h a)), (h, s))"
  by (simp add: register_bank_def reg_read_def hardware_def)

lemma bank_write:
  assumes "register_bank hw peek" "0 \<le> v" "v < 2 ^ 32"
  obtains h' where "reg_write hw a v (h, s) = (Inr (), (h', s))" "peek h' = (peek h)(a := word_of_int v)"
proof -
  obtain h' where "hw_write hw a v h = (Inr (), h')" "peek h' = (peek h)(a := word_of_int v)"
    using assms unfolding register_bank_def by blast
  then show ?thesis by (intro that [of h']) (simp_all add: reg_write_def hardware_def)
qed


section \<open>Enabling and disabling\<close>

datatype sched_use = Enable | Disable

fun use_sched :: "('h, 'r) nic_hw \<Rightarrow> nat \<Rightarrow> sched_use \<Rightarrow> ('h, 'r, unit) nic_act" where
  "use_sched hw n Enable = sched_enable hw n"
| "use_sched hw n Disable = sched_disable hw n"

fun count_after :: "int \<Rightarrow> sched_use list \<Rightarrow> int" where
  "count_after c [] = c"
| "count_after c (Enable # us) = count_after (c + 1) us"
| "count_after c (Disable # us) = count_after (c - 1) us"

text \<open>Nobody disables what is not enabled.\<close>

fun paired :: "int \<Rightarrow> sched_use list \<Rightarrow> bool" where
  "paired c [] = True"
| "paired c (Enable # us) = paired (c + 1) us"
| "paired c (Disable # us) = (0 < c \<and> paired (c - 1) us)"

definition control_reg :: "scheduler \<Rightarrow> int" where
  "control_reg sc = sch_rb sc + MQNIC_RB_SCHED_RR_REG_CTRL"

definition counted :: "nat \<Rightarrow> int \<Rightarrow> 'r nic \<Rightarrow> 'r nic" where
  "counted n c = upd_sched n (\<lambda>sc. sc\<lparr>sch_enable_count := c\<rparr>)"

lemma counted_simps [simp]:
  "n < length (nic_scheds s) \<Longrightarrow> nic_scheds (counted n c s) ! n = (nic_scheds s ! n)\<lparr>sch_enable_count := c\<rparr>"
  "length (nic_scheds (counted n c s)) = length (nic_scheds s)"
  "counted n c (counted n c' s) = counted n c s"
  by (cases "n < length (nic_scheds s)"; simp add: counted_def upd_sched_def list_update_beyond)+

lemma control_reg_counted [simp]: "control_reg (sc\<lparr>sch_enable_count := c\<rparr>) = control_reg sc"
  by (simp add: control_reg_def)

lemma counted_same: "n < length (nic_scheds s) \<Longrightarrow> counted n (sch_enable_count (nic_scheds s ! n)) s = s"
  by (simp add: counted_def upd_sched_def)

lemma use_sched_run:
  assumes bank: "register_bank hw peek" and n: "n < length (nic_scheds s)" "sch_kind (nic_scheds s ! n) = RoundRobin"
    and c: "c = sch_enable_count (nic_scheds s ! n)" "paired c [u]" "0 \<le> c"
    and on: "0 < c \<Longrightarrow> peek h (control_reg (nic_scheds s ! n)) = 1"
  shows "\<exists>h'. use_sched hw n u (h, s) = (Inr (), (h', counted n (count_after c [u]) s)) \<and>
    peek h' = (peek h)(control_reg (nic_scheds s ! n) := if 0 < count_after c [u] then 1 else 0)"
proof -
  let ?a = "control_reg (nic_scheds s ! n)"
  have keep: "peek h = (peek h)(?a := 1)" if "0 < c" using on [OF that] by (simp add: fun_upd_idem)
  have set: "\<exists>h'. set_ctrl hw n v (h, t) = (Inr (), (h', t)) \<and> peek h' = (peek h)(?a := word_of_int v)"
    if "v \<in> {0, 1}" "sch_rb (nic_scheds t ! n) = sch_rb (nic_scheds s ! n)" for v t
  proof -
    have "0 \<le> v" "v < 2 ^ 32" using that(1) by auto
    then obtain h' where "reg_write hw ?a v (h, t) = (Inr (), (h', t))" "peek h' = (peek h)(?a := word_of_int v)"
      by (rule bank_write [OF bank, of v ?a h t])
    with that(2) show ?thesis by (auto simp: set_ctrl_def with_sched_def reads_def control_reg_def)
  qed
  show ?thesis
  proof (cases u)
    case Enable
    show ?thesis
    proof (cases "c = 0")
      case True
      obtain h' where h': "set_ctrl hw n 1 (h, s) = (Inr (), (h', s))" "peek h' = (peek h)(?a := 1)"
        using set [of 1 s] by auto
      have "sched_hook hw n 1 (h, s) = (Inr (), (h', s))" using h'(1) n(2) by (simp add: sched_hook_def with_sched_def reads_def)
      then have "use_sched hw n u (h, s) = (Inr (), (h', counted n 1 s))"
        using True c(1) by (simp add: Enable sched_enable_def with_sched_def reads_def athen_def abind_def updates_def
            counted_def upd_sched_def)
      with h'(2) True Enable show ?thesis by auto
    next
      case False
      then have "use_sched hw n u (h, s) = (Inr (), (h, counted n (c + 1) s))"
        using c(1) by (simp add: Enable sched_enable_def with_sched_def reads_def updates_def counted_def upd_sched_def)
      with keep False c(3) Enable show ?thesis by auto
    qed
  next
    case Disable
    let ?t = "counted n (c - 1) s"
    have down: "upd_sched n (\<lambda>sc. sc\<lparr>sch_enable_count := sch_enable_count sc - 1\<rparr>) s = ?t"
      using c(1) by (simp add: counted_def upd_sched_def)
    show ?thesis
    proof (cases "c = 1")
      case True
      obtain h' where h': "set_ctrl hw n 0 (h, ?t) = (Inr (), (h', ?t))" "peek h' = (peek h)(?a := 0)"
        using set [of 0 ?t] n(1) by auto
      have "sched_hook hw n 0 (h, ?t) = (Inr (), (h', ?t))"
        using h'(1) n by (simp add: sched_hook_def with_sched_def reads_def)
      then have "use_sched hw n u (h, s) = (Inr (), (h', ?t))"
        using True n(1) by (simp add: Disable sched_disable_def with_sched_def reads_def updates_def down)
      with h'(2) True Disable show ?thesis by auto
    next
      case False
      then have "use_sched hw n u (h, s) = (Inr (), (h, ?t))"
        using n(1) by (simp add: Disable sched_disable_def with_sched_def reads_def updates_def down)
      with keep False c(2,3) Disable show ?thesis by auto
    qed
  qed
qed

lemma paired_count: "paired c us \<Longrightarrow> 0 \<le> c \<Longrightarrow> 0 \<le> count_after c us"
  by (induction c us rule: paired.induct) simp_all

text \<open>
  C37. A scheduler and its clients: on registers that keep what is written, while nobody disables
  more often than was enabled, any sequence of enabling and disabling succeeds; the scheduler's count
  is the number of clients left, its control register says 1 exactly while there is one, and no other
  register and nothing else of the interface changes.
\<close>

theorem scheduler_follows_clients:
  assumes "register_bank hw peek" "n < length (nic_scheds s)" "sch_kind (nic_scheds s ! n) = RoundRobin"
    and "paired (sch_enable_count (nic_scheds s ! n)) us" "us \<noteq> []" "0 \<le> sch_enable_count (nic_scheds s ! n)"
    and "0 < sch_enable_count (nic_scheds s ! n) \<Longrightarrow> peek h (control_reg (nic_scheds s ! n)) = 1"
  shows "\<exists>h'. afor us (use_sched hw n) (h, s) =
      (Inr (), (h', counted n (count_after (sch_enable_count (nic_scheds s ! n)) us) s)) \<and>
    peek h' = (peek h)(control_reg (nic_scheds s ! n) :=
      if 0 < count_after (sch_enable_count (nic_scheds s ! n)) us then 1 else 0)"
  using assms(2-)
proof (induction us arbitrary: h s)
  case (Cons u us)
  let ?c = "sch_enable_count (nic_scheds s ! n)"
  have first: "paired ?c [u]" "paired (count_after ?c [u]) us" "count_after ?c (u # us) = count_after (count_after ?c [u]) us"
    using Cons.prems(3) by (cases u; simp)+
  obtain h1 where h1: "use_sched hw n u (h, s) = (Inr (), (h1, counted n (count_after ?c [u]) s))"
    "peek h1 = (peek h)(control_reg (nic_scheds s ! n) := if 0 < count_after ?c [u] then 1 else 0)"
    using use_sched_run [OF assms(1) Cons.prems(1,2) refl first(1) Cons.prems(5,6)] by blast
  let ?s1 = "counted n (count_after ?c [u]) s"
  have run: "afor (u # us) (use_sched hw n) (h, s) = afor us (use_sched hw n) (h1, ?s1)"
    by (simp add: athen_run(1) [where m = "use_sched hw n u", OF h1(1)])
  show ?case
  proof (cases "us = []")
    case True
    with run h1(2) first(3) show ?thesis by auto
  next
    case False
    have same: "control_reg (nic_scheds ?s1 ! n) = control_reg (nic_scheds s ! n)"
      "sch_enable_count (nic_scheds ?s1 ! n) = count_after ?c [u]"
      using Cons.prems(1) by simp_all
    have "\<exists>h2. afor us (use_sched hw n) (h1, ?s1) =
        (Inr (), (h2, counted n (count_after (sch_enable_count (nic_scheds ?s1 ! n)) us) ?s1)) \<and>
      peek h2 = (peek h1)(control_reg (nic_scheds ?s1 ! n) :=
        if 0 < count_after (sch_enable_count (nic_scheds ?s1 ! n)) us then 1 else 0)"
      by (rule Cons.IH) (use Cons.prems(1,2) first(2) False h1(2) paired_count [OF first(1) Cons.prems(5)] in simp_all)
    then obtain h2 where h2: "afor us (use_sched hw n) (h1, ?s1) =
        (Inr (), (h2, counted n (count_after (count_after ?c [u]) us) ?s1))"
      "peek h2 = (peek h1)(control_reg (nic_scheds s ! n) := if 0 < count_after (count_after ?c [u]) us then 1 else 0)"
      unfolding same by blast
    show ?thesis unfolding run h2(1) first(3) by (intro exI [of _ h2]) (simp add: h2(2) h1(2))
  qed
qed simp

text \<open>A device that is a map of registers.\<close>

definition bank_hw :: "(int \<Rightarrow> 32 word, nat) nic_hw" where
  "bank_hw =
     \<lparr>hw_read = (\<lambda>a h. (h a, h)), hw_write = (\<lambda>a v h. (Inr (), h(a := word_of_int v))), hw_read_word = (\<lambda>a h. (0, h)),
      hw_write_word = (\<lambda>a v h. (Inr (), h)), hw_alloc_region = (\<lambda>n h. (Inl ValueError, h)), hw_address = (\<lambda>r. 0),
      hw_size = (\<lambda>r. 0), hw_load = (\<lambda>r i n h. []), hw_store = (\<lambda>r i bs h. (Inr (), h))\<rparr>"

lemma bank_hw_bank: "register_bank bank_hw (\<lambda>h. h)"
  by (simp add: register_bank_def bank_hw_def)

definition sample_sched :: scheduler where
  "sample_sched = (new_scheduler RoundRobin 0x100)\<lparr>sch_tc_count := 2, sch_port_count := 4, sch_fc_scale := 16\<rparr>"

theorem scheduler_follows_clients_witness:
  "\<exists>h' s'. afor [Enable, Enable, Disable] (use_sched bank_hw 0)
      (\<lambda>a. 7, (new_nic new_packet_pool 0 0)\<lparr>nic_scheds := [sample_sched]\<rparr>) = (Inr (), (h', s')) \<and>
    h' (control_reg sample_sched) = 1 \<and> h' 0 = 7"
proof -
  have a: "control_reg sample_sched \<noteq> 0" by (simp add: control_reg_def sample_sched_def new_scheduler_def
      MQNIC_RB_SCHED_RR_REG_CTRL_def)
  have c: "sch_enable_count sample_sched = 0" "sch_kind sample_sched = RoundRobin"
    by (simp_all add: sample_sched_def new_scheduler_def)
  show ?thesis
    using scheduler_follows_clients [OF bank_hw_bank, of 0 "(new_nic new_packet_pool 0 0)\<lparr>nic_scheds := [sample_sched]\<rparr>"
        "[Enable, Enable, Disable]" "\<lambda>a. 7"] a
    by (auto simp: c)
qed

text \<open>
  One disable too many: the count goes below zero, and the enable after it only brings it back, so
  the scheduler stays as it was although it has a client.
\<close>

lemma unpaired_disable_loses_enable:
  assumes "n < length (nic_scheds s)" "sch_enable_count (nic_scheds s ! n) = 0"
  shows "afor [Disable, Enable] (use_sched hw n) (h, s) = (Inr (), (h, s))"
proof -
  have down: "sched_disable hw n (h, s) = (Inr (), (h, counted n (- 1) s))"
    using assms by (simp add: sched_disable_def with_sched_def reads_def updates_def counted_def upd_sched_def)
  have "sched_enable hw n (h, counted n (- 1) s) = (Inr (), (h, counted n 0 s))"
    using assms by (simp add: sched_enable_def with_sched_def reads_def updates_def)
      (simp add: counted_def upd_sched_def)
  with counted_same [OF assms(1)] assms(2) show ?thesis
    by (simp add: athen_def abind_def down)
qed


section \<open>Data limits\<close>

lemma channel_reg_inject:
  assumes "0 \<le> tc" "tc < sch_tc_count sc" "0 \<le> tc'" "tc' < sch_tc_count sc"
  shows "channel_reg sc reg port tc = channel_reg sc reg port' tc' \<longleftrightarrow> port = port' \<and> tc = tc'"
proof -
  have "(port * sch_tc_count sc + tc) div sch_tc_count sc = port" "(port' * sch_tc_count sc + tc') div sch_tc_count sc = port'"
    using assms by simp_all
  then have "port * sch_tc_count sc + tc = port' * sch_tc_count sc + tc' \<longleftrightarrow> port = port' \<and> tc = tc'" by auto
  moreover have "sch_rb sc + (reg + x * 16) = sch_rb sc + (reg + y * 16) \<longleftrightarrow> x = y" for x y :: int by simp
  ultimately show ?thesis by (simp only: channel_reg_def MQNIC_RB_SCHED_RR_REG_CH_STRIDE_def)
qed

lemma scale_up_bounds:
  assumes "0 < sch_fc_scale sc"
  shows "val \<le> scale_up sc val * sch_fc_scale sc" "scale_up sc val * sch_fc_scale sc < val + sch_fc_scale sc"
proof -
  let ?f = "sch_fc_scale sc"
  have "(val + ?f - 1) div ?f * ?f = val + ?f - 1 - (val + ?f - 1) mod ?f" by (simp add: minus_mod_eq_div_mult)
  moreover have "0 \<le> (val + ?f - 1) mod ?f" "(val + ?f - 1) mod ?f < ?f" using assms by simp_all
  ultimately show "val \<le> scale_up sc val * ?f" "scale_up sc val * ?f < val + ?f" by (simp_all add: scale_up_def)
qed

text \<open>
  C38. Data limits: a limit set for one port and traffic class is read back as the least multiple of
  the scheduler's unit that is not below it, as long as that many units fit the register; the limit
  of every other port and traffic class is read back as before.
\<close>

theorem data_limit_rounded_up:
  assumes "register_bank hw peek" "sc = nic_scheds s ! n" "0 < sch_fc_scale sc"
    and "0 \<le> tc" "tc < sch_tc_count sc" "0 \<le> val" "scale_up sc val < 2 ^ 32"
  shows "\<exists>h' limit. set_ch_data_limit hw n port tc val (h, s) = (Inr (), (h', s)) \<and>
    get_ch_data_limit hw n port tc (h', s) = (Inr limit, (h', s)) \<and>
    val \<le> limit \<and> limit < val + sch_fc_scale sc \<and> sch_fc_scale sc dvd limit \<and>
    (\<forall>port' tc'. 0 \<le> tc' \<and> tc' < sch_tc_count sc \<and> (port', tc') \<noteq> (port, tc) \<longrightarrow>
       fst (get_ch_data_limit hw n port' tc' (h', s)) = fst (get_ch_data_limit hw n port' tc' (h, s)))"
proof -
  let ?a = "\<lambda>port tc. channel_reg sc MQNIC_RB_SCHED_RR_REG_CH0_FC3_DL port tc"
  have "0 < scale_up sc val * sch_fc_scale sc + sch_fc_scale sc" using scale_up_bounds(1) [OF assms(3), of val] assms(3,6) by linarith
  then have "0 < (scale_up sc val + 1) * sch_fc_scale sc" by (simp add: distrib_right)
  then have units: "0 \<le> scale_up sc val" using assms(3) by (simp add: zero_less_mult_iff)
  then obtain h' where h': "reg_write hw (?a port tc) (scale_up sc val) (h, s) = (Inr (), (h', s))"
    "peek h' = (peek h)(?a port tc := word_of_int (scale_up sc val))"
    using bank_write [OF assms(1) _ assms(7)] by blast
  have set: "set_ch_data_limit hw n port tc val (h, s) = (Inr (), (h', s))"
    using h'(1) by (simp add: set_ch_data_limit_def with_sched_def reads_def assms(2))
  have get: "get_ch_data_limit hw n port tc (g, s) = (Inr (uint (peek g (?a port tc)) * sch_fc_scale sc), (g, s))" for port tc g
    using bank_read [OF assms(1)]
    by (simp add: get_ch_data_limit_def with_sched_def reads_def abind_def aret_def assms(2))
  have "uint (peek h' (?a port tc)) = scale_up sc val"
    using units assms(7) by (simp add: h'(2) unsigned_of_int take_bit_int_eq_self)
  moreover have "peek h' (?a port' tc') = peek h (?a port' tc')"
    if "0 \<le> tc'" "tc' < sch_tc_count sc" "(port', tc') \<noteq> (port, tc)" for port' tc'
    using channel_reg_inject [OF that(1,2) assms(4,5)] that(3) by (auto simp: h'(2))
  ultimately show ?thesis
    using scale_up_bounds [OF assms(3), of val] set by (intro exI [of _ h'] exI) (auto simp: get)
qed

theorem data_limit_rounded_up_witness:
  "\<exists>h' s. set_ch_data_limit bank_hw 0 3 1 100 (\<lambda>a. 0, s) = (Inr (), (h', s)) \<and>
     fst (get_ch_data_limit bank_hw 0 3 1 (h', s)) = Inr 112"
proof -
  let ?s = "(new_nic new_packet_pool 0 0)\<lparr>nic_scheds := [sample_sched]\<rparr>"
  have sc: "sample_sched = nic_scheds ?s ! 0" "sch_fc_scale sample_sched = 16" "sch_tc_count sample_sched = 2"
    by (simp_all add: sample_sched_def)
  have "112 = (limit :: int)" if "100 \<le> limit" "limit < 116" "16 dvd limit" for limit
    using that by presburger
  then have exact: "100 \<le> limit \<Longrightarrow> limit < 100 + 16 \<Longrightarrow> 16 dvd limit \<Longrightarrow> limit = 112" for limit :: int by simp
  obtain h' limit where "set_ch_data_limit bank_hw 0 3 1 100 (\<lambda>a. 0, ?s) = (Inr (), (h', ?s))"
    "get_ch_data_limit bank_hw 0 3 1 (h', ?s) = (Inr limit, (h', ?s))"
    "100 \<le> limit" "limit < 100 + 16" "16 dvd limit"
    using data_limit_rounded_up [OF bank_hw_bank sc(1), of 1 100 3 "\<lambda>a. 0"] by (auto simp: sc(2,3) scale_up_def)
  with exact show ?thesis by (intro exI [of _ h'] exI [of _ ?s]) simp
qed

end
