(* ===== verification/Nic_Interrupts.thy ===== *)
theory Nic_Interrupts
  imports Nic_Driver
begin

text \<open>
  Attaching the NIC driver to a device and the delivery of its interrupts (\<open>Interrupt\<close> and the two
  \<open>init_*_dev\<close> methods of \<open>mqnic.py\<close>). An interrupt line queues what it is told and serves it later;
  a step of each background task is one operation.
\<close>


section \<open>State\<close>

record irq_line =
  irq_index :: nat
  irq_queued :: nat

record 'r attached =
  att_initialized :: bool
  att_irqs :: "irq_line list"
  att_driver :: "'r driver"

type_synonym ('h, 'r, 'a) att_act = "('h \<times> 'r attached, py_error, 'a) act"

definition new_interrupt :: "nat \<Rightarrow> irq_line" where
  "new_interrupt index = \<lparr>irq_index = index, irq_queued = 0\<rparr>"

definition unattached :: "int \<Rightarrow> 'r attached" where
  "unattached hw_regs = \<lparr>att_initialized = False, att_irqs = [], att_driver = new_driver hw_regs\<rparr>"

definition att_update :: "('r attached \<Rightarrow> 'r attached) \<Rightarrow> ('h, 'r, unit) att_act" where
  "att_update f = amodify (\<lambda>(h, a). (h, f a))"

definition in_driver :: "('h, 'r, 'a) drv_act \<Rightarrow> ('h, 'r, 'a) att_act" where
  "in_driver m st =
     (case m (fst st, att_driver (snd st)) of (r, (h, d)) \<Rightarrow> (r, (h, (snd st)\<lparr>att_driver := d\<rparr>)))"


section \<open>Attaching\<close>

text \<open>What the device object does before the driver uses it is a parameter.\<close>

definition claim_device :: "('h, 'r, unit) att_act" where
  "claim_device =
     abind (aget (\<lambda>(h, a). att_initialized a)) (\<lambda>done.
     athen (aguard (\<not> done) AssertionError) (att_update (\<lambda>a. a\<lparr>att_initialized := True\<rparr>)))"

definition add_interrupts :: "nat \<Rightarrow> ('h, 'r, unit) att_act" where
  "add_interrupts n = att_update (\<lambda>a. a\<lparr>att_irqs := att_irqs a @ map new_interrupt [0..<n]\<rparr>)"

definition init_pcie_dev :: "('h, 'r) nic_hw \<Rightarrow> ('h \<Rightarrow> unit result \<times> 'h) \<Rightarrow> ('h, 'r, unit) att_act" where
  "init_pcie_dev hw enable_device =
     athen claim_device (
     athen (\<lambda>(h, a). case enable_device h of (r, h') \<Rightarrow> (r, (h', a))) (
     athen (add_interrupts 32) (in_driver (init_common hw))))"

definition init_axi_dev :: "('h, 'r) nic_hw \<Rightarrow> nat option \<Rightarrow> ('h, 'r, unit) att_act" where
  "init_axi_dev hw irq =
     athen claim_device (
     athen (case irq of None \<Rightarrow> aret () | Some n \<Rightarrow> add_interrupts n) (in_driver (init_common hw)))"


section \<open>Delivery\<close>

definition irq_interrupt :: "nat \<Rightarrow> 'r attached \<Rightarrow> 'r attached" where
  "irq_interrupt k a =
     a\<lparr>att_irqs := (att_irqs a)[k := (att_irqs a ! k)\<lparr>irq_queued := irq_queued (att_irqs a ! k) + 1\<rparr>]\<rparr>"

text \<open>One round of \<open>_run\<close>; a line with nothing queued waits.\<close>

definition irq_run :: "('h, 'r) nic_hw \<Rightarrow> nat \<Rightarrow> 'h \<times> 'r attached \<Rightarrow> ((py_error + unit) \<times> ('h \<times> 'r attached)) option" where
  "irq_run hw k st =
     (case st of (h, a) \<Rightarrow>
        let line = att_irqs a ! k; a' = a\<lparr>att_irqs := (att_irqs a)[k := line\<lparr>irq_queued := irq_queued line - 1\<rparr>]\<rparr> in
        if irq_queued line = 0 then Some (Inr (), st)
        else map_option (\<lambda>(r, (h', d)). (r, (h', a'\<lparr>att_driver := d\<rparr>)))
          (interrupt_handler hw (int (irq_index line)) (h, att_driver a)))"

text \<open>
  One round of \<open>_run_edge\<close>: it makes a coroutine of \<open>interrupt\<close> and does not await it, so nothing is
  queued.
\<close>

definition irq_run_edge :: "nat \<Rightarrow> 'r attached \<Rightarrow> 'r attached" where
  "irq_run_edge k a = a"

text \<open>
  One round of \<open>_run_edge_interrupts\<close> after a change of the signal to \<open>val\<close>. \<open>last_val\<close> stays 0: the
  loop never assigns it.
\<close>

definition edge_interrupts :: "nat \<Rightarrow> int \<Rightarrow> 'r attached \<Rightarrow> 'r attached" where
  "edge_interrupts count val a =
     (let last_val = 0; edge = val AND NOT last_val in
      fold irq_interrupt (filter (\<lambda>k. edge AND push_bit k 1 \<noteq> 0) [0..<count]) a)"

lemma irq_interrupt_queued:
  "k < length (att_irqs a) \<Longrightarrow> map irq_queued (att_irqs (irq_interrupt k a)) =
     (map irq_queued (att_irqs a))[k := irq_queued (att_irqs a ! k) + 1]"
  by (simp add: irq_interrupt_def map_update)

lemma fold_interrupts:
  assumes "distinct ks" "set ks \<subseteq> {..<length (att_irqs a)}"
  shows "length (att_irqs (fold irq_interrupt ks a)) = length (att_irqs a) \<and>
    (\<forall>k < length (att_irqs a). irq_queued (att_irqs (fold irq_interrupt ks a) ! k) =
      irq_queued (att_irqs a ! k) + (if k \<in> set ks then 1 else 0)) \<and>
    att_driver (fold irq_interrupt ks a) = att_driver a"
  using assms by (induction ks arbitrary: a) (auto simp: irq_interrupt_def nth_list_update)

text \<open>
  A line that stays high is queued again whenever any other line changes: delivery follows levels,
  not edges.
\<close>

theorem edge_interrupts_follow_levels:
  assumes "length (att_irqs a) = count"
  shows "length (att_irqs (edge_interrupts count val a)) = count \<and>
    (\<forall>k < count. irq_queued (att_irqs (edge_interrupts count val a) ! k) =
      irq_queued (att_irqs a ! k) + (if bit val k then 1 else 0))"
proof -
  have "set (filter P [0..<count]) \<subseteq> {..<length (att_irqs a)}" for P using assms by auto
  moreover have "val AND push_bit k 1 \<noteq> 0 \<longleftrightarrow> bit val k" for k
    by (simp add: push_bit_eq_mult and_exp_eq_0_iff_not_bit)
  ultimately show ?thesis
    using fold_interrupts [of "filter (bit val) [0..<count]" a] assms by (simp add: edge_interrupts_def)
qed

end
