(* ===== verification/Spec2Isabelle.thy ===== *)
theory Spec2Isabelle
  imports Fault_Free Controller_Progress Snapshots Campaign_Cli Ssr_Harness Ssr_Device Nic_Board Nic_Reception
    Nic_Service Nic_Scheduling Nic_Interrupts
begin

text \<open>
  Syncons: a round-synchronous replication protocol, its recovery control plane, the simulator that
  runs them, and the driver of its FPGA prototype.

  \<^bold>\<open>The protocol and the simulator\<close> (\<open>src/sim\<close>). In every round each replica broadcasts the row of the
  members it heard from in the round before. At the boundary two rounds later a replica judges the
  stage it collected: rows that a quorum of members repeats are agreed, the members of such a row
  form the sound set, what the sound set proposed is committed; a stage that cannot be judged halts
  the replica. A controller collects the halts and crashes, chooses a repair prefix and a new
  configuration, and re-admits the stopped replicas. \<open>ClusterRun\<close> drives all of it round by round
  through a network and a node fault model.

  \<^item> \<open>Prelude\<close>, \<open>Protocol_Types\<close>, \<open>Log_Digest\<close>: Python exceptions as \<open>py_error\<close>, results as sums,
    dictionaries as association lists in insertion order; the data types of \<open>protocol/types.py\<close>; the
    digest chain of \<open>Node\<close>, whose hash function (\<open>sha256\<close>) is a parameter. The chain is injective as
    long as the hash is on what is hashed.
  \<^item> \<open>Node\<close>, \<open>Node_Judgement\<close>, \<open>Node_Steps\<close>, \<open>Node_Invariants\<close>: \<open>protocol/node.py\<close>, a record per
    replica, a function per method; the judgement of a stage characterised on every branch, the
    invariant of a replica and that every method keeps it.
  \<^item> \<open>Control_Plane\<close>, \<open>Control_Plane_Inv\<close>, \<open>Recovery_Contract\<close>: \<open>control/control_plane.py\<close>; its
    invariant, and the contract the cluster relies on as a locale that the controller's own
    operations interpret. \<open>Controller_Runs\<close>: the states the controller can reach by rounds and events
    in any order, and what holds in all of them. \<open>Controller_Progress\<close>: a reference automaton of a
    recovery episode that every round refines, and with it that an acknowledged episode ends with
    every node active in a new run.
  \<^item> \<open>Node_Turn\<close>, \<open>Cluster\<close>, \<open>Cluster_Network\<close>, \<open>Cluster_Control\<close>, \<open>Cluster_Nodes\<close>, \<open>Cluster_Rounds\<close>,
    \<open>Cluster_Safety\<close>: \<open>runtime/cluster.py\<close> and \<open>runtime/metrics.py\<close>. Fault models are functions that
    thread a world value, so that a model may draw random numbers. The network loop appends to the
    list it walks; it ends because an appended delivery is never faulted again, and its measure is the
    number of deliveries still to be faulted and to be handed over. One lemma per phase of a round
    carries the invariant through \<open>run\<close>; the properties of runs are in this theory.
  \<^item> \<open>Fault_Free\<close>: the exact course of a run in which nothing fails, node by node and packet by packet,
    which gives progress: every round that can be judged is committed everywhere.
  \<^item> \<open>Faults\<close>, \<open>Scenarios\<close>: \<open>scenarios/faults.py\<close> and \<open>scenarios/builtin.py\<close>: which models stay inside
    the fault model (lose, delay, duplicate) and what follows for the scenarios.
  \<^item> \<open>Random_Campaign\<close>: \<open>runtime/random_campaign.py\<close>, over a parameter for the random generator and
    its floats: the audit is characterised, and shown silent about conflicts without corruption.
    \<open>Campaign_Cli\<close>: its command line down to the printed table, read back cell by cell.
  \<^item> \<open>Durations\<close>, \<open>Snapshots\<close>, \<open>Cli\<close>: parsing and printing durations with double rounding written
    out, export and import of records, and \<open>runtime/cli.py\<close> from arguments to output and exit code.

  \<^bold>\<open>The prototype's driver\<close> (\<open>src/prototype/fpga/tb/mqnic_core_pcie_us\<close>). \<open>Effects\<close> is the monad of
  operations that change state and may raise half way. \<open>Ssr_Packet\<close> (\<open>ssr_packet.py\<close>) is the wire
  format on \<open>8 word\<close> bytes, \<open>Ssr_Harness\<close> (\<open>ssr_sim_harness.py\<close>) the frame codec and the harness
  tasks, \<open>Register_Blocks\<close> the list of register blocks that probing walks (\<open>RegBlockList\<close> of
  \<open>mqnic.py\<close>; the walk ends because no offset is visited twice), \<open>Ssr_Proposal\<close>,
  \<open>Ssr_Commit\<close>, \<open>Ssr_Device\<close> (\<open>ssr_dataplane.py\<close>) the proposal queue, the commit queue and the
  device with its life cycle. The bus below the driver (register reads and
  writes with their side effects, DMA memory, simulated time) is a parameter, so the theorems hold for
  every hardware behaviour, or say what they need of it (\<open>register_file\<close>, \<open>clock_advances\<close>).

  \<^bold>\<open>The NIC driver below it\<close> (\<open>mqnic.py\<close>) is modelled over the device's registers and memory. An
  interface is one record whose queues, rings, ports, schedulers and net devices are lists; an object
  refers to another by its index. A window into a BAR is its base address.

  \<^item> \<open>Nic_Resources\<close>: queue indices, packet buffers and scheduler ports, three allocators that interpret
    one contract. \<open>Nic_State\<close>: constants, records, access to the hardware.
  \<^item> \<open>Nic_Queues\<close> (\<open>Eq\<close>, \<open>Cq\<close>), \<open>Nic_Rings\<close> (\<open>Txq\<close>, \<open>Rxq\<close>, the completion handlers), \<open>Nic_Events\<close>
    (\<open>process_eq\<close>), \<open>Nic_Schedulers\<close> (\<open>Port\<close>, \<open>SchedulerPort\<close>, the schedulers and their blocks),
    \<open>Nic_Netdev\<close> (\<open>NetDev\<close>), \<open>Nic_Driver\<close> (\<open>Interface\<close>, \<open>Driver\<close>), \<open>Nic_Interrupts\<close> (\<open>Interrupt\<close>, attaching
    to a device): a function per method.
  \<^item> \<open>Nic_Ownership\<close>, \<open>Nic_Ownership_Ops\<close>, \<open>Nic_Safety\<close>: who owns a packet buffer, that every operation
    keeps this wherever it raises, and the states the driver reaches by operations, interrupts and
    whatever the device does.
  \<^item> \<open>Nic_Wiring\<close>, \<open>Nic_Linking\<close>, \<open>Nic_History\<close>, \<open>Nic_Board\<close>: which queue is linked to which. An interface
    is read as a wiring (tables of the event queues, links of the completion queues and rings);
    \<open>linked\<close> ties both sides of every link, opening and closing establish and undo links, and every other
    operation leaves the wiring as it is. So the links agree in every state of a history of the driver,
    wherever an operation raised. A board is written out as a register table with three regions of
    memory: the driver comes up on it, and opening a device fails half way with a ring linked.
  \<^item> \<open>Nic_Service\<close>: an interrupt, through event queues, completion queues and rings, is served in
    finitely many steps (\<open>returnsp\<close>: an operation that returns and keeps a condition).
  \<^item> \<open>Nic_Windows\<close>: a ring as a window of outstanding packets, which the updates of its slots refine.
    \<open>Nic_Descriptors\<close>, \<open>Nic_Transmit\<close>, \<open>Nic_Completions\<close>: what the device fetches, what sending does to
    the window, and what handling completions does. \<open>Nic_Reception\<close>: handling receive completions
    delivers the packets in order and refills the ring from the pool. \<open>Nic_Scheduling\<close>: schedulers
    on registers that keep what is written (\<open>register_bank\<close>).

  \<^bold>\<open>Loops and fuel.\<close> Every loop of the simulator is a total function. Register polling counts its polls
  down as the code does. The run loop of the commit queue is given a number of passes, because it
  runs as long as the queue does. \<open>recv_batch\<close> has fuel; \<open>recv_batch_terminates\<close> gives an amount
  that is enough on a clock that sleeping advances, and says what ends the batch. The loops over completions and events end when
  the hardware's memory says so: they are partial functions; events and completions are shown to be
  handled in one lap whatever the memory holds, as long as it does not change meanwhile.

  \<^bold>\<open>Not modelled.\<close> Option parsing by \<open>argparse\<close> (its defaults are) and the JSON dumps of whole reports are
  library calls. How a float is read and printed is a parameter. Logging, \<open>cocotb\<close> scheduling and
  \<open>scapy\<close> are parameters or left out;
  where other tasks can run in between, one step is one operation, and an operation that waits ends
  there and is resumed by another one. Of closing a net device only the part before the
  error it always raises is reached. What the PCIe device object does when it is enabled is a
  parameter. The package entry points only re-export. Strings are lists of 8-bit characters, so Python
  strings outside Latin-1 are not covered; the \<open>OverflowError\<close> of dividing integers too large for a
  float is not modelled; a window of the NIC has no bounds, and reading a register of it cannot raise.
\<close>


section \<open>Every run\<close>

text \<open>
  C1. A run never raises: with a nonzero round length and a network that rewrites no packet (it may
  lose, delay and duplicate), whatever nodes crash and when, every assertion, division, dictionary
  access and list index of the run succeeds and the run ends with a report for every node.
\<close>

theorem run_returns:
  assumes "faithful net" and "round_length_ns timing \<noteq> 0"
  shows "\<exists>res. run sha (new_cluster sha n rounds timing pf net faults w sink) = Inr res \<and>
    length (res_nodes res) = n"
proof -
  from run_reaches [OF assms, of sha n rounds pf faults w sink] obtain c where
    c: "run sha (new_cluster sha n rounds timing pf net faults w sink) = Inr (cluster_result c)"
    "round_start (int (nat rounds)) c" "same_params (new_cluster sha n rounds timing pf net faults w sink) c"
    by blast
  then have "length (cl_nodes c) = n"
    by (auto simp: round_start_def wired_def same_params_def new_cluster_def)
  with c(1) show ?thesis by (simp add: cluster_result_def)
qed

theorem run_returns_witness:
  "\<exists>res. run (\<lambda>s. s) (new_cluster (\<lambda>s. s) 3 40 default_timing default_payload immediate_delivery
      (\<lambda>i r w. (i \<noteq> 2, w)) () NoOpMetricsSink) = Inr res \<and> length (res_nodes res) = 3"
  by (rule run_returns) (simp_all add: faithful_def immediate_delivery_def plain_delivery_def
      unmodified_def default_timing_def)

text \<open>
  C2. Agreement: in a run under such a network no two nodes ever commit different values for the
  same round. Over all histories in the final report, repair logs included, the round determines
  the whole entry: epoch, commit set, proposals and both times.
\<close>

theorem run_agreement:
  assumes "faithful net" and "round_length_ns timing \<noteq> 0"
  shows "\<exists>res. run sha (new_cluster sha n rounds timing pf net faults w sink) = Inr res \<and>
    inj_on cr_round (\<Union>nd \<in> set (res_nodes res). set (nr_committed_rounds nd))"
proof -
  from run_reaches [OF assms, of sha n rounds pf faults w sink] obtain res where
    "run sha (new_cluster sha n rounds timing pf net faults w sink) = Inr res" by auto
  with run_logs(1) [OF assms this] show ?thesis by (simp add: logs_of_def)
qed

theorem run_agreement_witness:
  "\<exists>res. run (\<lambda>s. s) (new_cluster (\<lambda>s. s) 5 30 default_timing default_payload immediate_delivery
      (\<lambda>i r w. (\<not> (i = 4 \<and> r = 20), w)) () NoOpMetricsSink) = Inr res \<and>
    inj_on cr_round (\<Union>nd \<in> set (res_nodes res). set (nr_committed_rounds nd))"
  by (rule run_agreement) (simp_all add: faithful_def immediate_delivery_def plain_delivery_def
      unmodified_def default_timing_def)

text \<open>
  C5. Every history in the report is strictly increasing in the round, repaired or not, and holds
  only rounds that were judged: the last two rounds of a run are never committed.
\<close>

theorem run_histories_ordered:
  assumes "faithful net" and "round_length_ns timing \<noteq> 0"
  shows "\<exists>res. run sha (new_cluster sha n rounds timing pf net faults w sink) = Inr res \<and>
    (\<forall>l \<in> logs_of res. sorted_wrt (<) (map cr_round l) \<and>
       (\<forall>e \<in> set l. 0 \<le> cr_round e \<and> cr_round e < int (nat rounds) - 2))"
proof -
  from run_reaches [OF assms, of sha n rounds pf faults w sink] obtain res where
    res: "run sha (new_cluster sha n rounds timing pf net faults w sink) = Inr res" by auto
  have "sorted_wrt (<) (map cr_round l)" "\<forall>e \<in> set l. 0 \<le> cr_round e \<and> cr_round e < int (nat rounds) - 2"
    if "l \<in> logs_of res" for l
    using run_logs(2,3) [OF assms res that] by (fastforce simp only: log_ok_def genuine_def)+
  with res show ?thesis by blast
qed

theorem run_histories_ordered_witness:
  "\<exists>res. run (\<lambda>s. s) (new_cluster (\<lambda>s. s) 3 12 default_timing default_payload immediate_delivery
      all_nodes_active () NoOpMetricsSink) = Inr res \<and>
    list_all (\<lambda>nd. list_all (\<lambda>e. 0 \<le> cr_round e \<and> cr_round e < 10) (nr_committed_rounds nd)) (res_nodes res)"
  using run_histories_ordered [of immediate_delivery default_timing "\<lambda>s. s" 3 12 default_payload
      all_nodes_active "()" NoOpMetricsSink]
  by (auto simp: faithful_def immediate_delivery_def plain_delivery_def unmodified_def default_timing_def
      logs_of_def list_all_iff)

text \<open>
  C4. Validity: every entry of every history is one the protocol can have decided. Its commit set
  names at least a majority of the physical cluster, its proposals are exactly the payloads those
  nodes proposed in that round, and it is stamped with the boundary two rounds later and the
  application delay after it.
\<close>

theorem run_validity:
  assumes "faithful net" and "round_length_ns timing \<noteq> 0"
  shows "\<exists>res. run sha (new_cluster sha n rounds timing pf net faults w sink) = Inr res \<and>
    (\<forall>l \<in> logs_of res. \<forall>e \<in> set l.
       n div 2 < card {i. i < n \<and> bit (cr_commit_set e) i} \<and>
       cr_proposals e = map (\<lambda>i. (i, pf i (cr_round e))) (bitmap_members (cr_commit_set e) n) \<and>
       cr_commit_time_ns e = Some ((cr_round e + 2) * round_length_ns timing) \<and>
       cr_app_delivery_time_ns e
         = Some ((cr_round e + 2) * round_length_ns timing + app_delivery_delay_ns timing))"
proof -
  from run_reaches [OF assms, of sha n rounds pf faults w sink] obtain res where
    res: "run sha (new_cluster sha n rounds timing pf net faults w sink) = Inr res" by auto
  have "n div 2 < card {i. i < n \<and> bit (cr_commit_set e) i} \<and>
       cr_proposals e = map (\<lambda>i. (i, pf i (cr_round e))) (bitmap_members (cr_commit_set e) n) \<and>
       cr_commit_time_ns e = Some ((cr_round e + 2) * round_length_ns timing) \<and>
       cr_app_delivery_time_ns e
         = Some ((cr_round e + 2) * round_length_ns timing + app_delivery_delay_ns timing)"
    if "l \<in> logs_of res" "e \<in> set l" for l e
    using genuine_entry [OF run_logs(3) [OF assms res that]] .
  with res show ?thesis by blast
qed

theorem run_validity_witness:
  "\<exists>res. run (\<lambda>s. s) (new_cluster (\<lambda>s. s) 3 12 default_timing default_payload immediate_delivery
      (\<lambda>i r w. (r \<noteq> 4, w)) () NoOpMetricsSink) = Inr res \<and>
    list_all (\<lambda>nd. list_all (\<lambda>e. 1 < card {i. i < 3 \<and> bit (cr_commit_set e) i})
      (nr_committed_rounds nd)) (res_nodes res)"
  using run_validity [of immediate_delivery default_timing "\<lambda>s. s" 3 12 default_payload
      "\<lambda>i r w. (r \<noteq> 4, w)" "()" NoOpMetricsSink]
  by (auto simp: faithful_def immediate_delivery_def plain_delivery_def unmodified_def default_timing_def
      logs_of_def list_all_iff)

text \<open>
  C6. No stopped node is forgotten: at the end of a run every node that is halted or crashed is
  being collected, is a target of the running recovery episode, or waits in the queue for the next
  one, as the controller's own debug snapshot reports it.
\<close>

theorem run_stopped_nodes_under_recovery:
  assumes "faithful net" and "round_length_ns timing \<noteq> 0"
  shows "\<exists>res. run sha (new_cluster sha n rounds timing pf net faults w sink) = Inr res \<and>
    {m. m < n \<and> sn_status (res_nodes res ! m) \<noteq> RUNNING} \<subseteq> under_recovery (res_control_plane_runtime res)"
proof -
  from run_reaches [OF assms, of sha n rounds pf faults w sink] obtain res where
    res: "run sha (new_cluster sha n rounds timing pf net faults w sink) = Inr res" by auto
  with run_stopped_tracked [OF assms res] show ?thesis by blast
qed

theorem run_stopped_nodes_under_recovery_witness:
  "\<exists>res. run (\<lambda>s. s) (new_cluster (\<lambda>s. s) 3 5 default_timing default_payload immediate_delivery
      (\<lambda>i r w. (i \<noteq> 2, w)) () NoOpMetricsSink) = Inr res \<and>
    {m. m < 3 \<and> sn_status (res_nodes res ! m) \<noteq> RUNNING} \<subseteq> under_recovery (res_control_plane_runtime res)"
  by (rule run_stopped_nodes_under_recovery) (simp_all add: faithful_def immediate_delivery_def
      plain_delivery_def unmodified_def default_timing_def)

text \<open>
  C3. Progress: when no node crashes and every packet arrives unchanged in its own round, every
  node is running at the end and has committed every round but the last two, each with the full
  membership, the proposals of all nodes and its commit time; the controller has seen no event.
\<close>

theorem fault_free_progress:
  fixes net :: "'w network_fault_model"
  assumes "prompt net" and "\<forall>i r w. fst (faults i r w)"
  shows "\<exists>res. run sha (new_cluster sha n rounds timing pf net faults w sink) = Inr res \<and>
    length (res_nodes res) = n \<and> res_control_plane_events res = [] \<and>
    (\<forall>nd \<in> set (res_nodes res). sn_status nd = RUNNING \<and> sn_halted_round nd = None \<and>
       nr_committed_rounds nd = map (\<lambda>k.
         \<lparr>cr_round = int k, cr_membership_epoch = 0, cr_commit_set = one_hot n - 1,
          cr_proposals = map (\<lambda>m. (m, pf m (int k))) [0..<n],
          cr_commit_time_ns = Some ((int k + 2) * round_length_ns timing),
          cr_app_delivery_time_ns
            = Some ((int k + 2) * round_length_ns timing + app_delivery_delay_ns timing)\<rparr>)
         [0..<nat rounds - 2])"
proof -
  obtain c :: "'w cluster" where
    c: "run sha (new_cluster sha n rounds timing pf net faults w sink) = Inr (cluster_result c)"
    "fair_start n pf timing (nat rounds) c" 
    by (rule fair_run [OF assms, where sha = sha and N = n and rounds = rounds and timing = timing
          and pf = pf and w = w and sink = sink])
  have "length (res_nodes (cluster_result c)) = n" "res_control_plane_events (cluster_result c) = []"
    using c(2) by (simp_all add: cluster_result_def fair_start_def fair_frame_def wired_def)
  with c(1) show ?thesis
    unfolding fair_log_entries [symmetric]
    by (intro exI [of _ "cluster_result c"] conjI ballI) (simp_all only: fair_report [OF c(2)] simp_thms)
qed

theorem fault_free_progress_witness:
  "\<exists>res. run (\<lambda>s. s) (scenario_cluster (\<lambda>s. s) perfect_spec 3 5 default_timing) = Inr res \<and>
    check_expectation (sc_expectation perfect_spec) res = []"
proof -
  have "prompt network_perfect"
    by (simp add: prompt_def network_perfect_def same_round_def plain_delivery_def unmodified_def)
  from fault_free_progress [OF this, of all_nodes_active "\<lambda>s. s" 3 5 default_timing default_payload "()" NoOpMetricsSink]
  obtain res where res: "run (\<lambda>s. s) (scenario_cluster (\<lambda>s. s) perfect_spec 3 5 default_timing) = Inr res"
    "length (res_nodes res) = 3"
    "\<And>nd. nd \<in> set (res_nodes res) \<Longrightarrow> sn_status nd = RUNNING \<and> sn_halted_round nd = None \<and>
       map cr_round (nr_committed_rounds nd) = [0, 1, 2]"
    by (auto simp: scenario_cluster_def perfect_spec_def all_nodes_active_def upt_rec)
  then obtain a b d where nodes: "res_nodes res = [a, b, d]" by (auto simp: length_Suc_conv numeral_3_eq_3)
  with res show ?thesis
    by (simp add: check_expectation_def actual_statuses_def actual_commits_def actual_halts_def perfect_spec_def)
qed

end
